(* ===== verification/Prelude.thy ===== *)
theory Prelude
  imports Main "HOL-Library.Word"
begin

text \<open>
  Shared vocabulary of the development.

  The models follow the build with \<open>DEBUG_ENABLED\<close>: a failing \<open>DEBUG_ASSERT\<close> or a
  \<open>DEBUG_CRASH\<close> stops the program. That, and every access the language leaves undefined, is a
  value of type \<open>fault\<close>, so an operation that can go wrong returns \<open>fault + 'a\<close>: \<open>Inl f\<close> is the
  failure, \<open>Inr r\<close> the result. \<open>rbind\<close> runs a second operation on the result of a first.
\<close>

datatype fault =
    Assertion
  | Crash
  | Out_Of_Bounds
  | Dangling
  | Uninitialized
  | Null_Pointer
  | Double_Free
  | Div_By_Zero
  | Signed_Overflow
  | Wrong_Member

type_synonym 'a res = "fault + 'a"

definition rbind :: "'a res \<Rightarrow> ('a \<Rightarrow> 'b res) \<Rightarrow> 'b res" where
  "rbind m f = (case m of Inl e \<Rightarrow> Inl e | Inr x \<Rightarrow> f x)"

definition assert_that :: "bool \<Rightarrow> unit res" where
  "assert_that b = (if b then Inr () else Inl Assertion)"

lemma rbind_Inl [simp]: "rbind (Inl e) f = Inl e"
  by (simp add: rbind_def)

lemma rbind_Inr [simp]: "rbind (Inr x) f = f x"
  by (simp add: rbind_def)

lemma rbind_assoc: "rbind (rbind m f) g = rbind m (\<lambda>x. rbind (f x) g)"
  by (cases m) auto

lemma rbind_eq_Inr_iff: "rbind m f = Inr y \<longleftrightarrow> (\<exists>x. m = Inr x \<and> f x = Inr y)"
  by (cases m) auto

lemma rbind_cong [fundef_cong]:
  "m = m' \<Longrightarrow> (\<And>x. m' = Inr x \<Longrightarrow> f x = g x) \<Longrightarrow> rbind m f = rbind m' g"
  by (cases m') auto

lemma rbind_InrE:
  assumes "rbind m f = Inr y"
  obtains x where "m = Inr x" and "f x = Inr y"
  using assms by (auto simp: rbind_eq_Inr_iff)

lemma assert_that_simps [simp]:
  "assert_that True = Inr ()" "assert_that False = Inl Assertion"
  "assert_that b = Inr u \<longleftrightarrow> b"
  by (auto simp: assert_that_def)

text \<open>A loop over a list whose body can fail, and the rule that carries an invariant through it.\<close>

fun rfold :: "('a \<Rightarrow> 's \<Rightarrow> 's res) \<Rightarrow> 'a list \<Rightarrow> 's \<Rightarrow> 's res" where
  "rfold f [] s = Inr s"
| "rfold f (x # xs) s = rbind (f x s) (rfold f xs)"

lemma rfold_invariant:
  assumes "I s"
    and "\<And>x s. x \<in> set xs \<Longrightarrow> I s \<Longrightarrow> \<exists>s'. f x s = Inr s' \<and> I s'"
  shows "\<exists>s'. rfold f xs s = Inr s' \<and> I s'"
  using assms
proof (induction xs arbitrary: s)
  case Nil
  then show ?case by simp
next
  case (Cons x xs)
  from Cons.prems(2) [of x s] Cons.prems(1) obtain s' where "f x s = Inr s'" "I s'" by auto
  with Cons.IH [of s'] Cons.prems(2) show ?case by auto
qed

text \<open>The body may also establish something for its own element that the later rounds keep.\<close>

lemma rfold_collect:
  assumes "I s"
    and "\<And>x s. x \<in> set xs \<Longrightarrow> I s \<Longrightarrow>
      \<exists>s'. f x s = Inr s' \<and> I s' \<and> Q x s' \<and> (\<forall>y. Q y s \<longrightarrow> Q y s')"
  shows "\<exists>s'. rfold f xs s = Inr s' \<and> I s' \<and> (\<forall>x \<in> set xs. Q x s') \<and> (\<forall>y. Q y s \<longrightarrow> Q y s')"
  using assms
proof (induction xs arbitrary: s)
  case Nil
  then show ?case by simp
next
  case (Cons x xs)
  from Cons.prems(2) [of x s] Cons.prems(1) obtain s' where
    s': "f x s = Inr s'" "I s'" "Q x s'" "\<forall>y. Q y s \<longrightarrow> Q y s'" by auto
  from Cons.IH [of s'] Cons.prems(2) s'(2) obtain t where
    "rfold f xs s' = Inr t" "I t" "\<forall>x \<in> set xs. Q x t" "\<forall>y. Q y s' \<longrightarrow> Q y t" by auto
  with s' show ?case by auto
qed

lemma rfold_append: "rfold f (xs @ ys) s = rbind (rfold f xs s) (rfold f ys)"
  by (induction xs arbitrary: s) (auto simp: rbind_def split: sum.splits)

text \<open>
  \<open>yields F m Q\<close>: \<open>m\<close> either fails with a fault in \<open>F\<close> or gives a result that satisfies \<open>Q\<close>.
  With \<open>F = {}\<close> it is total correctness.
\<close>

definition yields :: "fault set \<Rightarrow> 'a res \<Rightarrow> ('a \<Rightarrow> bool) \<Rightarrow> bool" where
  "yields F m Q = (case m of Inl f \<Rightarrow> f \<in> F | Inr x \<Rightarrow> Q x)"

lemma yields_simps [simp]:
  "yields F (Inr x) Q \<longleftrightarrow> Q x" "yields F (Inl f) Q \<longleftrightarrow> f \<in> F"
  by (simp_all add: yields_def)

lemma yields_empty: "yields {} m Q \<longleftrightarrow> (\<exists>x. m = Inr x \<and> Q x)"
  by (cases m) auto

lemma yields_bind:
  assumes "yields F m P" and "\<And>x. P x \<Longrightarrow> yields F (f x) Q"
  shows "yields F (rbind m f) Q"
  using assms by (cases m) auto

lemma yields_mono:
  assumes "yields F m P" "F \<subseteq> G" "\<And>x. P x \<Longrightarrow> Q x"
  shows "yields G m Q"
  using assms by (cases m) auto

lemma yields_conj: "yields F m P \<Longrightarrow> yields F m Q \<Longrightarrow> yields F m (\<lambda>x. P x \<and> Q x)"
  by (cases m) auto

lemma yields_InrD: "yields F m Q \<Longrightarrow> m = Inr x \<Longrightarrow> Q x"
  by simp

lemma yields_rfold:
  assumes "I s" and "\<And>x s. x \<in> set xs \<Longrightarrow> I s \<Longrightarrow> yields F (f x s) I"
  shows "yields F (rfold f xs s) I"
  using assms
proof (induction xs arbitrary: s)
  case (Cons x xs)
  then show ?case by (auto intro!: yields_bind [where P = I])
qed simp

lemma yields_rfold_upt:
  assumes "I 0 s" and "\<And>i s. i < n \<Longrightarrow> I i s \<Longrightarrow> yields F (f i s) (I (Suc i))"
  shows "yields F (rfold f [0..<n] s) (I n)"
  using assms
proof (induction n)
  case (Suc n)
  have "yields F (rfold f [0..<n] s) (I n)" using Suc by auto
  moreover have "rfold f [n] = (\<lambda>t. rbind (f n t) Inr)"
    by (rule ext) (simp add: rbind_def split: sum.split)
  then have "rfold f [0..<Suc n] s = rbind (rfold f [0..<n] s) (\<lambda>t. rbind (f n t) Inr)"
    by (simp add: rfold_append)
  moreover have "yields F (rbind (f n t) Inr) (I (Suc n))" if "I n t" for t
    using Suc.prems(2) [of n t] that by (auto intro!: yields_bind [where P = "I (Suc n)"])
  ultimately show ?case by (auto intro: yields_bind)
qed simp

text \<open>
  \<open>cells\<close> are the slots of a raw buffer: \<open>None\<close> is memory that holds no object.
\<close>

type_synonym 'a cells = "'a option list"

definition read_cell :: "'a cells \<Rightarrow> nat \<Rightarrow> 'a res" where
  "read_cell cs i =
     (if i < length cs then (case cs ! i of None \<Rightarrow> Inl Uninitialized | Some x \<Rightarrow> Inr x)
      else Inl Out_Of_Bounds)"

definition write_cell :: "'a cells \<Rightarrow> nat \<Rightarrow> 'a option \<Rightarrow> 'a cells res" where
  "write_cell cs i x = (if i < length cs then Inr (cs[i := x]) else Inl Out_Of_Bounds)"

lemma read_cell_Some [simp]:
  "i < length cs \<Longrightarrow> cs ! i = Some x \<Longrightarrow> read_cell cs i = Inr x"
  by (simp add: read_cell_def)

lemma read_cell_Inr_iff:
  "read_cell cs i = Inr x \<longleftrightarrow> i < length cs \<and> cs ! i = Some x"
  by (auto simp: read_cell_def split: option.splits)

lemma write_cell_in [simp]:
  "i < length cs \<Longrightarrow> write_cell cs i x = Inr (cs[i := x])"
  by (simp add: write_cell_def)

text \<open>Collections the component theories add to.\<close>

named_theorems wf_intros \<open>preservation of the components' invariants\<close>
named_theorems run_simps \<open>evaluation of the components' operations under their invariants\<close>

subsection \<open>Lists\<close>

lemma take_Suc_list_update:
  "n < length xs \<Longrightarrow> take (Suc n) (xs[n := x]) = take n xs @ [x]"
  by (simp add: take_Suc_conv_app_nth)

lemma map_the_eq_iff:
  "\<forall>c \<in> set cs. c \<noteq> None \<Longrightarrow> map Some (map the cs) = cs"
  by (induction cs) auto

lemma nth_take_Some:
  assumes "\<forall>c \<in> set (take n cs). c \<noteq> None" "i < n" "n \<le> length cs"
  shows "\<exists>x. cs ! i = Some x"
proof -
  have "take n cs ! i \<in> set (take n cs)"
    using assms(2,3) by (intro nth_mem) simp
  with assms show ?thesis by auto
qed

end
