(* ===== verification/SequenceSpec.thy ===== *)
theory SequenceSpec
  imports Prelude
begin

text \<open>
  The contract the containers of \<open>src/Util\<close> share: a sequence that grows and shrinks at the back.
  \<open>contents\<close> is the abstract value, \<open>invar\<close> the representation invariant, \<open>has_room\<close> says that
  a push succeeds. \<open>bounded_sequence\<close> adds what a container of constant capacity does when it is
  full: it warns and leaves itself unchanged.
\<close>

locale sequence =
  fixes contents :: "'s \<Rightarrow> 'a list"
    and invar :: "'s \<Rightarrow> bool"
    and has_room :: "'s \<Rightarrow> bool"
    and push :: "'a \<Rightarrow> 's \<Rightarrow> ('i \<times> 's) res"
    and pop :: "'s \<Rightarrow> 's"
    and len :: "'s \<Rightarrow> nat"
    and at :: "nat \<Rightarrow> 's \<Rightarrow> 'a res"
  assumes push_room: "invar s \<Longrightarrow> has_room s \<Longrightarrow>
      \<exists>i s'. push x s = Inr (i, s') \<and> invar s' \<and> contents s' = contents s @ [x]"
    and pop_invar: "invar s \<Longrightarrow> invar (pop s)"
    and pop_contents: "invar s \<Longrightarrow> contents (pop s) = butlast (contents s)"
    and len_contents: "invar s \<Longrightarrow> len s = length (contents s)"
    and at_contents: "invar s \<Longrightarrow> i < length (contents s) \<Longrightarrow> at i s = Inr (contents s ! i)"
begin

lemma push_pop:
  assumes "invar s" "has_room s"
  shows "\<exists>i s'. push x s = Inr (i, s') \<and> contents (pop s') = contents s"
  using push_room [OF assms, of x] pop_contents by fastforce

lemma push_at:
  assumes "invar s" "has_room s"
  shows "\<exists>i s'. push x s = Inr (i, s') \<and> at (len s) s' = Inr x"
proof -
  from push_room [OF assms] obtain i s'
    where s': "push x s = Inr (i, s')" "invar s'" "contents s' = contents s @ [x]" by blast
  then have "at (len s) s' = Inr (contents s' ! len s)"
    using len_contents [OF assms(1)] by (intro at_contents) auto
  with s' len_contents [OF assms(1)] show ?thesis by auto
qed

end

text \<open>Push the elements of a list one after the other.\<close>

fun push_all :: "('a \<Rightarrow> 's \<Rightarrow> ('i \<times> 's) res) \<Rightarrow> 'a list \<Rightarrow> 's \<Rightarrow> 's res" where
  "push_all push [] s = Inr s"
| "push_all push (x # xs) s = rbind (push x s) (\<lambda>(_, s'). push_all push xs s')"

locale bounded_sequence = sequence contents invar has_room push pop len at
  for contents :: "'s \<Rightarrow> 'a list" and invar has_room
    and push :: "'a \<Rightarrow> 's \<Rightarrow> ('i \<times> 's) res" and pop len at +
  fixes bound :: "'s \<Rightarrow> nat"
  assumes room_bound: "invar s \<Longrightarrow> has_room s \<longleftrightarrow> length (contents s) < bound s"
    and push_bound: "invar s \<Longrightarrow> push x s = Inr (i, s') \<Longrightarrow> bound s' = bound s"
    and push_full: "invar s \<Longrightarrow> \<not> has_room s \<Longrightarrow> \<exists>i. push x s = Inr (i, s)"
begin

lemma push_all_saturates:
  assumes "invar s"
  shows "\<exists>s'. push_all push xs s = Inr s' \<and> invar s' \<and> bound s' = bound s \<and>
    contents s' = contents s @ take (bound s - length (contents s)) xs"
  using assms
proof (induction xs arbitrary: s)
  case Nil
  then show ?case by simp
next
  case (Cons x xs)
  show ?case
  proof (cases "has_room s")
    case True
    with push_room [OF Cons.prems] obtain i s'
      where s': "push x s = Inr (i, s')" "invar s'" "contents s' = contents s @ [x]" by blast
    have b: "bound s' = bound s" and r: "length (contents s) < bound s"
      using push_bound [OF Cons.prems s'(1)] room_bound [OF Cons.prems] True by simp_all
    have "take (bound s - length (contents s)) (x # xs)
        = x # take (bound s' - length (contents s')) xs"
      using r b s'(3) by (simp add: take_Cons' Suc_diff_Suc)
    with Cons.IH [OF s'(2)] s' b show ?thesis by auto
  next
    case False
    with push_full [OF Cons.prems] obtain i where i: "push x s = Inr (i, s)" by blast
    have "bound s - length (contents s) = 0"
      using room_bound [OF Cons.prems] False by simp
    with Cons.IH [OF Cons.prems] i show ?thesis by simp
  qed
qed

lemma push_all_bounded:
  assumes "invar s" "length (contents s) \<le> bound s"
  shows "\<exists>s'. push_all push xs s = Inr s' \<and> length (contents s') \<le> bound s"
  using push_all_saturates [OF assms(1), of xs] assms(2) by auto

end

text \<open>
  A \<open>deque\<close> also pushes and pops at the front. Its client is a queue: what is pushed at the back
  comes out at the front in the same order.
\<close>

fun pop_all :: "nat \<Rightarrow> ('s \<Rightarrow> 'a res) \<Rightarrow> ('s \<Rightarrow> 's) \<Rightarrow> 's \<Rightarrow> 'a list res" where
  "pop_all 0 front pop_front s = Inr []"
| "pop_all (Suc n) front pop_front s =
     rbind (front s) (\<lambda>x. rbind (pop_all n front pop_front (pop_front s)) (\<lambda>xs. Inr (x # xs)))"

locale deque = sequence contents invar has_room push pop len at
  for contents :: "'s \<Rightarrow> 'a list" and invar has_room
    and push :: "'a \<Rightarrow> 's \<Rightarrow> ('i \<times> 's) res" and pop len at +
  fixes push_front :: "'a \<Rightarrow> 's \<Rightarrow> ('i \<times> 's) res"
    and pop_front :: "'s \<Rightarrow> 's"
    and front :: "'s \<Rightarrow> 'a res"
  assumes push_front_room: "invar s \<Longrightarrow> has_room s \<Longrightarrow>
      \<exists>i s'. push_front x s = Inr (i, s') \<and> invar s' \<and> contents s' = x # contents s"
    and pop_front_invar: "invar s \<Longrightarrow> invar (pop_front s)"
    and pop_front_contents: "invar s \<Longrightarrow> contents (pop_front s) = tl (contents s)"
    and front_contents: "invar s \<Longrightarrow> contents s \<noteq> [] \<Longrightarrow> front s = Inr (hd (contents s))"
begin

lemma pop_all_fifo:
  assumes "invar s"
  shows "pop_all (length (contents s)) front pop_front s = Inr (contents s)"
proof -
  have "pop_all n front pop_front s = Inr (take n (contents s))"
    if "invar s" "n \<le> length (contents s)" for n s
    using that
  proof (induction n arbitrary: s)
    case 0
    then show ?case by simp
  next
    case (Suc n)
    then have ne: "contents s \<noteq> []" by auto
    have "pop_all n front pop_front (pop_front s) = Inr (take n (tl (contents s)))"
      using Suc.IH [OF pop_front_invar [OF Suc.prems(1)]] Suc.prems
      by (simp add: pop_front_contents)
    with front_contents [OF Suc.prems(1) ne] ne show ?case
      by (simp add: take_Suc)
  qed
  from this [OF assms, of "length (contents s)"] show ?thesis by simp
qed

end

end
