(* ===== verification/SmallVector.thy ===== *)
theory SmallVector
  imports SequenceSpec
begin

text \<open>
  \<open>src/Util/SmallVector.h\<close>: \<open>SmallVectorBase\<close>, \<open>SmallVector\<close> and \<open>GrowingSmallVector\<close>.

  The element types the program instantiates these templates with (\<open>uint64_t\<close>, \<open>UUID\<close>,
  \<open>std::thread::id\<close>, \<open>void*\<close>, \<open>TypeAlloc\<close>) are trivially copyable, so a move is a copy of the
  slot. \<open>vec_cells\<close> is the buffer \<open>ptr()\<close> points to, \<open>vec_size\<close> is \<open>m_size\<close>; an iterator is the
  index it points to. \<open>gv_storage\<close> holds the inline \<open>m_storage\<close> while \<open>m_buffer\<close> points to the heap
  (inline, \<open>vec_cells\<close> is \<open>m_storage\<close> itself). \<open>GrowingSmallVector::shrink_to_fit\<close> compares a
  size with an array and cannot be instantiated; it has no model. The base class reaches the buffer through \<open>get_derived()\<close>, so its
  operations work on any extension of the record \<open>vec\<close>.
\<close>

record 'a vec =
  vec_cells :: "'a cells"
  vec_size :: nat

record 'a gvec = "'a vec" +
  gv_on_heap :: bool
  gv_capacity :: nat
  gv_storage :: "'a cells"

section \<open>The base class\<close>

definition vec_begin :: "('a, 'b) vec_scheme \<Rightarrow> nat" where
  "vec_begin v = 0"

definition vec_end :: "('a, 'b) vec_scheme \<Rightarrow> nat" where
  "vec_end v = vec_size v"

text \<open>
  \<open>std::move_backward(first, last, d_last)\<close> over \<open>n = last - first\<close> elements: the last element
  goes to the slot before \<open>d_last\<close>, and so on down. The destination may lie outside of the buffer.
\<close>

fun move_backward :: "nat \<Rightarrow> int \<Rightarrow> int \<Rightarrow> 'a cells \<Rightarrow> 'a cells res" where
  "move_backward 0 stop d_stop cs = Inr cs"
| "move_backward (Suc n) stop d_stop cs =
     (if d_stop - 1 < 0 \<or> d_stop - 1 \<ge> int (length cs) then Inl Out_Of_Bounds
      else if stop - 1 < 0 \<or> stop - 1 \<ge> int (length cs) then Inl Out_Of_Bounds
      else move_backward n (stop - 1) (d_stop - 1)
             (cs[nat (d_stop - 1) := cs ! nat (stop - 1)]))"

text \<open>\<open>std::move(first, last, d_first)\<close> over \<open>n\<close> elements, upwards.\<close>

fun move_forward :: "nat \<Rightarrow> nat \<Rightarrow> nat \<Rightarrow> 'a cells \<Rightarrow> 'a cells res" where
  "move_forward 0 first d_first cs = Inr cs"
| "move_forward (Suc n) first d_first cs =
     (if first \<ge> length cs \<or> d_first \<ge> length cs then Inl Out_Of_Bounds
      else move_forward n (Suc first) (Suc d_first) (cs[d_first := cs ! first]))"

text \<open>\<open>emplace\<close> once \<open>grow\<close> has succeeded without moving the buffer.\<close>

definition vec_emplace_at :: "nat \<Rightarrow> 'a \<Rightarrow> ('a, 'b) vec_scheme \<Rightarrow> (nat \<times> ('a, 'b) vec_scheme) res" where
  "vec_emplace_at pos x v =
     rbind (move_backward (vec_size v - pos) (int (vec_end v)) (int pos + 1) (vec_cells v)) (\<lambda>cs.
     rbind (write_cell cs (vec_end v) (Some x)) (\<lambda>cs'.
     Inr (vec_end v, v\<lparr>vec_cells := cs', vec_size := vec_size v + 1\<rparr>)))"

definition vec_pop_back :: "('a, 'b) vec_scheme \<Rightarrow> ('a, 'b) vec_scheme" where
  "vec_pop_back v =
     (if vec_size v > 0
      then v\<lparr>vec_cells := (vec_cells v)[vec_size v - 1 := None], vec_size := vec_size v - 1\<rparr>
      else v)"

definition vec_at :: "nat \<Rightarrow> ('a, 'b) vec_scheme \<Rightarrow> 'a res" where
  "vec_at i v = read_cell (vec_cells v) (vec_begin v + i)"

text \<open>\<open>std::destroy(first, last)\<close>\<close>

definition destroy_cells :: "nat \<Rightarrow> nat \<Rightarrow> 'a cells \<Rightarrow> 'a cells" where
  "destroy_cells first stop cs = fold (\<lambda>i c. c[i := None]) [first..<stop] cs"

definition vec_erase :: "int \<Rightarrow> int \<Rightarrow> ('a, 'b) vec_scheme \<Rightarrow> (nat \<times> ('a, 'b) vec_scheme) res" where
  "vec_erase first stop v =
     (if first < int (vec_begin v) \<or> stop > int (vec_end v) then Inr (vec_end v, v)
      else
        rbind (if stop < int (vec_end v)
               then move_forward (vec_end v - nat stop) (nat stop) (nat first)
                      (destroy_cells (nat first) (nat stop) (vec_cells v))
               else Inr (destroy_cells (nat first) (nat stop) (vec_cells v))) (\<lambda>cs.
        let v' = v\<lparr>vec_cells := cs, vec_size := vec_size v - (nat stop - nat first)\<rparr>
        in Inr (vec_end v', v')))"

definition vec_erase_one :: "int \<Rightarrow> ('a, 'b) vec_scheme \<Rightarrow> (nat \<times> ('a, 'b) vec_scheme) res" where
  "vec_erase_one pos v = vec_erase pos (pos + 1) v"

definition vec_clear :: "('a, 'b) vec_scheme \<Rightarrow> ('a, 'b) vec_scheme" where
  "vec_clear v = v\<lparr>vec_cells := destroy_cells 0 (vec_size v) (vec_cells v), vec_size := 0\<rparr>"

definition vec_front :: "('a, 'b) vec_scheme \<Rightarrow> 'a res" where
  "vec_front v = read_cell (vec_cells v) (vec_begin v)"

definition vec_back :: "('a, 'b) vec_scheme \<Rightarrow> 'a res" where
  "vec_back v = (if vec_end v = 0 then Inl Out_Of_Bounds else read_cell (vec_cells v) (vec_end v - 1))"

definition vec_is_empty :: "('a, 'b) vec_scheme \<Rightarrow> bool" where
  "vec_is_empty v \<longleftrightarrow> vec_size v = 0"

text \<open>The loop of \<open>resize\<close> constructs a default object in every slot from \<open>begin()\<close> on.\<close>

fun construct_each :: "nat list \<Rightarrow> 'a \<Rightarrow> 'a cells \<Rightarrow> 'a cells res" where
  "construct_each [] d cs = Inr cs"
| "construct_each (i # is) d cs = rbind (write_cell cs i (Some d)) (construct_each is d)"

definition vec_resize_grown :: "'a \<Rightarrow> nat \<Rightarrow> ('a, 'b) vec_scheme \<Rightarrow> ('a, 'b) vec_scheme res" where
  "vec_resize_grown d n v =
     (if n > vec_size v
      then rbind (construct_each [0..<n] d (vec_cells v)) (\<lambda>cs.
             Inr (v\<lparr>vec_cells := cs, vec_size := n\<rparr>))
      else Inr v)"

text \<open>
  \<open>swap_array_items\<close>: swap the common prefix, then move the rest of the longer vector over. The
  two \<open>m_size\<close> fields are swapped by \<open>swap\<close> afterwards.
\<close>

definition swap_cell :: "nat \<Rightarrow> 'a cells \<times> 'a cells \<Rightarrow> 'a cells \<times> 'a cells" where
  "swap_cell i p = ((fst p)[i := snd p ! i], (snd p)[i := fst p ! i])"

definition vec_swap_array_items ::
  "('a, 'b) vec_scheme \<Rightarrow> ('a, 'b) vec_scheme \<Rightarrow> 'a cells \<times> 'a cells" where
  "vec_swap_array_items v w =
     (let common = min (vec_size v) (vec_size w);
          (a, b) = fold swap_cell [0..<common] (vec_cells v, vec_cells w)
      in if vec_size v > vec_size w
         then (a, fold (\<lambda>i c. c[i := a ! i]) [common..<vec_size v] b)
         else (fold (\<lambda>i c. c[i := b ! i]) [common..<vec_size w] a, b))"

section \<open>SmallVector: a constant capacity\<close>

definition sv_new :: "nat \<Rightarrow> 'a vec" where
  "sv_new k = \<lparr>vec_cells = replicate k None, vec_size = 0\<rparr>"

definition sv_capacity :: "'a vec \<Rightarrow> nat" where
  "sv_capacity v = length (vec_cells v)"

definition sv_grow :: "'a vec \<Rightarrow> nat \<Rightarrow> bool" where
  "sv_grow v new_size = (if new_size > sv_capacity v then False else True)"

definition sv_emplace :: "nat \<Rightarrow> 'a \<Rightarrow> 'a vec \<Rightarrow> (nat \<times> 'a vec) res" where
  "sv_emplace pos x v =
     (if \<not> sv_grow v (vec_size v + 1) then Inr (vec_end v, v) else vec_emplace_at pos x v)"

definition sv_push_back :: "'a \<Rightarrow> 'a vec \<Rightarrow> (nat \<times> 'a vec) res" where
  "sv_push_back x v = sv_emplace (vec_end v) x v"

definition sv_push_front :: "'a \<Rightarrow> 'a vec \<Rightarrow> (nat \<times> 'a vec) res" where
  "sv_push_front x v = sv_emplace (vec_begin v) x v"

text \<open>\<open>insert(pos, count, value)\<close>\<close>

definition sv_insert_n :: "nat \<Rightarrow> nat \<Rightarrow> 'a \<Rightarrow> 'a vec \<Rightarrow> (nat \<times> 'a vec) res" where
  "sv_insert_n pos count x v =
     (if \<not> sv_grow v (vec_size v + count) then Inr (vec_end v, v)
      else
        rbind (move_backward (vec_size v - pos) (int (vec_end v)) (int pos + int count) (vec_cells v)) (\<lambda>cs.
        rbind (construct_each [pos..<pos + count] x cs) (\<lambda>cs'.
        Inr (pos, v\<lparr>vec_cells := cs', vec_size := vec_size v + count\<rparr>))))"

definition sv_resize :: "'a \<Rightarrow> nat \<Rightarrow> 'a vec \<Rightarrow> 'a vec res" where
  "sv_resize d n v = vec_resize_grown d n v"

definition sv_swap :: "'a vec \<Rightarrow> 'a vec \<Rightarrow> 'a vec \<times> 'a vec" where
  "sv_swap v w =
     (let (a, b) = vec_swap_array_items v w
      in (v\<lparr>vec_cells := a, vec_size := vec_size w\<rparr>, w\<lparr>vec_cells := b, vec_size := vec_size v\<rparr>))"

text \<open>
  \<open>insert(pos, first, last)\<close> takes its count as \<open>std::distance(last, first)\<close>, which is minus the
  number of elements. \<open>m_size + count\<close> is computed in \<open>size_t\<close>, and so is the comparison
  \<open>i < count\<close> of the copy loop. The copy constructor calls it on an empty vector.
\<close>

function copy_loop :: "nat \<Rightarrow> nat \<Rightarrow> nat \<Rightarrow> 'a cells \<Rightarrow> 'a cells \<Rightarrow> 'a cells res" where
  "copy_loop i count pos src cs =
     (if i < count
      then rbind (read_cell src i) (\<lambda>x.
             rbind (write_cell cs (pos + i) (Some x)) (copy_loop (Suc i) count pos src))
      else Inr cs)"
  by pat_completeness auto
termination
  by (relation "measure (\<lambda>(i, count, pos, src, cs). count - i)") auto

declare copy_loop.simps [simp del]

definition sv_insert_range :: "nat \<Rightarrow> 'a vec \<Rightarrow> 'a vec \<Rightarrow> (nat \<times> 'a vec) res" where
  "sv_insert_range pos src v =
     (let count = int (vec_begin src) - int (vec_end src);
          new_size = nat ((int (vec_size v) + count) mod 2 ^ 64)
      in if \<not> sv_grow v new_size then Inr (vec_end v, v)
         else
           rbind (move_backward (vec_size v - pos) (int (vec_end v)) (int pos + count) (vec_cells v)) (\<lambda>cs.
           rbind (copy_loop 0 (nat (count mod 2 ^ 64)) pos (vec_cells src) cs) (\<lambda>cs'.
           Inr (pos, v\<lparr>vec_cells := cs', vec_size := new_size\<rparr>))))"

definition sv_copy_construct :: "'a vec \<Rightarrow> 'a vec res" where
  "sv_copy_construct other =
     (let v = sv_new (sv_capacity other)
      in rbind (sv_insert_range (vec_begin v) other v) (\<lambda>(_, v'). Inr v'))"

section \<open>GrowingSmallVector\<close>

definition gv_new :: "nat \<Rightarrow> 'a gvec" where
  "gv_new k = \<lparr>vec_cells = replicate k None, vec_size = 0, gv_on_heap = False, gv_capacity = k,
     gv_storage = []\<rparr>"

text \<open>
  \<open>reserve\<close> moves the elements only when the old buffer is on the heap.
\<close>

definition gv_reserve :: "nat \<Rightarrow> 'a gvec \<Rightarrow> 'a gvec" where
  "gv_reserve n v =
     (if n \<le> gv_capacity v then v
      else
        let fresh = replicate n None;
            filled = (if gv_on_heap v
                      then take (vec_size v) (vec_cells v) @ drop (vec_size v) fresh
                      else fresh)
        in v\<lparr>vec_cells := filled, gv_on_heap := True, gv_capacity := n,
              gv_storage := (if gv_on_heap v then gv_storage v else vec_cells v)\<rparr>)"

definition gv_grow :: "nat \<Rightarrow> 'a gvec \<Rightarrow> 'a gvec" where
  "gv_grow new_size v = (if new_size > gv_capacity v then gv_reserve (gv_capacity v * 2) v else v)"

text \<open>
  \<open>emplace\<close> was handed \<open>pos\<close> as a pointer into the buffer of before \<open>grow\<close>. When \<open>grow\<close>
  replaced the buffer, \<open>std::move_backward(pos, end(), pos + 1)\<close> ranges over two different arrays.
\<close>

definition gv_emplace :: "nat \<Rightarrow> 'a \<Rightarrow> 'a gvec \<Rightarrow> (nat \<times> 'a gvec) res" where
  "gv_emplace pos x v =
     (let v' = gv_grow (vec_size v + 1) v
      in if gv_capacity v' \<noteq> gv_capacity v then Inl Dangling else vec_emplace_at pos x v')"

definition gv_push_back :: "'a \<Rightarrow> 'a gvec \<Rightarrow> (nat \<times> 'a gvec) res" where
  "gv_push_back x v = gv_emplace (vec_end v) x v"

definition gv_resize :: "'a \<Rightarrow> nat \<Rightarrow> 'a gvec \<Rightarrow> 'a gvec res" where
  "gv_resize d n v = vec_resize_grown d n (gv_grow n v)"

text \<open>
  \<open>swap\<close>: when one of the two is inline, the elements are exchanged slot by slot and the buffer
  pointers are exchanged as well; two heap buffers only exchange their pointers.
\<close>

definition gv_swap :: "'a gvec \<Rightarrow> 'a gvec \<Rightarrow> ('a gvec \<times> 'a gvec) res" where
  "gv_swap v w =
     (let using_storage = \<not> gv_on_heap v; other_using_storage = \<not> gv_on_heap w
      in if using_storage \<or> other_using_storage then
           if max (vec_size v) (vec_size w) > min (length (vec_cells v)) (length (vec_cells w))
           then Inl Out_Of_Bounds
           else
             let (a, b) = vec_swap_array_items v w;
                 v_inline = (if using_storage then a else gv_storage v);
                 w_inline = (if other_using_storage then b else gv_storage w)
             in Inr
               (\<lparr>vec_cells = (if other_using_storage then v_inline else b), vec_size = vec_size w,
                 gv_on_heap = (\<not> other_using_storage), gv_capacity = gv_capacity w, gv_storage = v_inline\<rparr>,
                \<lparr>vec_cells = (if using_storage then w_inline else a), vec_size = vec_size v,
                 gv_on_heap = (\<not> using_storage), gv_capacity = gv_capacity v, gv_storage = w_inline\<rparr>)
         else Inr
           (v\<lparr>vec_cells := vec_cells w, vec_size := vec_size w, gv_capacity := gv_capacity w\<rparr>,
            w\<lparr>vec_cells := vec_cells v, vec_size := vec_size v, gv_capacity := gv_capacity v\<rparr>))"

section \<open>The contents of a vector\<close>

text \<open>
  \<open>vec_ok\<close>: the size fits the buffer and the slots below it hold objects. \<open>vec_list\<close> is the
  abstract value, the list of these objects.
\<close>

definition vec_ok :: "('a, 'b) vec_scheme \<Rightarrow> bool" where
  "vec_ok v \<longleftrightarrow> vec_size v \<le> length (vec_cells v) \<and> (\<forall>c \<in> set (take (vec_size v) (vec_cells v)). c \<noteq> None)"

definition vec_list :: "('a, 'b) vec_scheme \<Rightarrow> 'a list" where
  "vec_list v = map the (take (vec_size v) (vec_cells v))"

lemma vec_ok_nth:
  "vec_ok v \<longleftrightarrow> vec_size v \<le> length (vec_cells v) \<and> (\<forall>i < vec_size v. vec_cells v ! i \<noteq> None)"
  by (auto simp: vec_ok_def in_set_conv_nth)

lemma length_vec_list: "vec_ok v \<Longrightarrow> length (vec_list v) = vec_size v"
  by (simp add: vec_list_def vec_ok_def)

lemma vec_list_new [simp]: "vec_list (sv_new k) = []" "vec_list (gv_new k) = []"
  by (simp_all add: vec_list_def sv_new_def gv_new_def)

lemma vec_ok_new [wf_intros]: "vec_ok (sv_new k)" "vec_ok (gv_new k)"
  by (simp_all add: vec_ok_def sv_new_def gv_new_def)

lemma vec_emplace_at_end:
  assumes "vec_ok v" "vec_size v < length (vec_cells v)"
  obtains v' where "vec_emplace_at (vec_end v) x v = Inr (vec_size v, v')"
    "vec_ok v'" "vec_list v' = vec_list v @ [x]"
    "length (vec_cells v') = length (vec_cells v)" "vec_size v' = vec_size v + 1"
    "vec.more v' = vec.more v"
proof
  let ?v' = "v\<lparr>vec_cells := (vec_cells v)[vec_size v := Some x], vec_size := vec_size v + 1\<rparr>"
  show "vec_emplace_at (vec_end v) x v = Inr (vec_size v, ?v')"
    using assms by (simp add: vec_emplace_at_def vec_end_def)
  show "vec_ok ?v'"
    using assms by (auto simp: vec_ok_def take_Suc_list_update)
  show "vec_list ?v' = vec_list v @ [x]"
    using assms by (simp add: vec_list_def take_Suc_list_update)
qed simp_all

lemma vec_at_nth:
  assumes "vec_ok v" "i < vec_size v"
  shows "vec_at i v = Inr (vec_list v ! i)"
proof -
  from assms obtain x where "vec_cells v ! i = Some x"
    unfolding vec_ok_def by (metis nth_take_Some)
  with assms show ?thesis
    by (simp add: vec_at_def vec_begin_def vec_list_def vec_ok_def)
qed

lemma vec_pop_back_list:
  assumes "vec_ok v"
  shows "vec_ok (vec_pop_back v)" "vec_list (vec_pop_back v) = butlast (vec_list v)"
proof -
  have "take (vec_size v - 1) (vec_cells v) = butlast (take (vec_size v) (vec_cells v))"
    using assms by (simp add: butlast_take vec_ok_def)
  then show "vec_list (vec_pop_back v) = butlast (vec_list v)"
    by (auto simp: vec_list_def vec_pop_back_def map_butlast)
  show "vec_ok (vec_pop_back v)"
    using assms by (auto simp: vec_ok_nth vec_pop_back_def)
qed

lemma sv_push_back_room:
  assumes "vec_ok v" "vec_size v < sv_capacity v"
  obtains v' where "sv_push_back x v = Inr (vec_size v, v')" "vec_ok v'"
    "vec_list v' = vec_list v @ [x]" "sv_capacity v' = sv_capacity v"
proof -
  obtain v' where v': "vec_emplace_at (vec_end v) x v = Inr (vec_size v, v')" "vec_ok v'"
    "vec_list v' = vec_list v @ [x]" "length (vec_cells v') = length (vec_cells v)"
    using vec_emplace_at_end [OF assms(1)] assms(2) unfolding sv_capacity_def by metis
  show thesis
    using v' assms(2)
    by (intro that [of v'])
      (auto simp: sv_push_back_def sv_emplace_def sv_grow_def sv_capacity_def)
qed

lemma sv_push_back_full:
  "vec_size v = sv_capacity v \<Longrightarrow> sv_push_back x v = Inr (vec_end v, v)"
  by (simp add: sv_push_back_def sv_emplace_def sv_grow_def)

subsection \<open>Erasing\<close>

lemma destroy_cells_length [simp]: "length (destroy_cells a b cs) = length cs"
proof -
  have "length (fold (\<lambda>i c. c[i := None]) is cs) = length cs" for "is"
    by (induction "is" arbitrary: cs) auto
  then show ?thesis by (simp add: destroy_cells_def)
qed

lemma destroy_cells_nth:
  "i < length cs \<Longrightarrow> destroy_cells a b cs ! i = (if a \<le> i \<and> i < b then None else cs ! i)"
proof (induction b)
  case 0
  then show ?case by (simp add: destroy_cells_def)
next
  case (Suc b)
  have "destroy_cells a (Suc b) cs = (if a \<le> b then (destroy_cells a b cs)[b := None] else cs)"
    by (auto simp: destroy_cells_def)
  with Suc show ?case by (cases "i = b") auto
qed

lemma move_forward_spec:
  assumes "d \<le> s" "s + n \<le> length cs"
  shows "move_forward n s d cs =
    Inr (take d cs @ take n (drop s cs) @ drop (d + n) cs)"
  using assms
proof (induction n arbitrary: s d cs)
  case 0
  then show ?case by simp
next
  case (Suc n)
  have "move_forward (Suc n) s d cs = move_forward n (Suc s) (Suc d) (cs[d := cs ! s])"
    using Suc.prems by simp
  also have "\<dots> = Inr (take (Suc d) (cs[d := cs ! s]) @ take n (drop (Suc s) (cs[d := cs ! s]))
      @ drop (Suc d + n) (cs[d := cs ! s]))"
    using Suc.prems by (intro Suc.IH) auto
  also have "\<dots> = Inr (take d cs @ take (Suc n) (drop s cs) @ drop (d + Suc n) cs)"
    using Suc.prems
    by (simp add: take_Suc_list_update Cons_nth_drop_Suc [symmetric] take_Suc_Cons)
  finally show ?case .
qed

lemma vec_erase_list:
  assumes ok: "vec_ok v" and rng: "first \<le> stop" "stop \<le> vec_size v"
  obtains v' where "vec_erase (int first) (int stop) v = Inr (vec_end v', v')" "vec_ok v'"
    "vec_list v' = take first (vec_list v) @ drop stop (vec_list v)"
    "length (vec_cells v') = length (vec_cells v)"
proof -
  let ?n = "vec_size v - stop"
  let ?d = "destroy_cells first stop (vec_cells v)"
  let ?cs = "take first ?d @ take ?n (drop stop ?d) @ drop (first + ?n) ?d"
  let ?v' = "v\<lparr>vec_cells := ?cs, vec_size := vec_size v - (stop - first)\<rparr>"
  have len: "vec_size v \<le> length (vec_cells v)" using ok by (simp add: vec_ok_def)
  have tk: "take first ?d = take first (vec_cells v)"
    using rng len by (intro nth_equalityI) (auto simp: destroy_cells_nth)
  have dr: "take ?n (drop stop ?d) = take ?n (drop stop (vec_cells v))"
    using rng len by (intro nth_equalityI) (auto simp: destroy_cells_nth)
  have mv: "move_forward ?n stop first ?d = Inr ?cs"
    using rng len by (intro move_forward_spec) auto
  have eq: "vec_erase (int first) (int stop) v = Inr (vec_end ?v', ?v')"
  proof (cases "stop < vec_size v")
    case True
    with mv show ?thesis by (simp add: vec_erase_def vec_begin_def vec_end_def Let_def)
  next
    case False
    with rng mv show ?thesis by (simp add: vec_erase_def vec_begin_def vec_end_def Let_def)
  qed
  have live: "take (vec_size ?v') (vec_cells ?v')
      = take first (take (vec_size v) (vec_cells v)) @ drop stop (take (vec_size v) (vec_cells v))"
  proof -
    have "take (first + ?n) ?cs = take first ?d @ take ?n (drop stop ?d)"
      using rng len by simp
    also have "\<dots> = take first (vec_cells v) @ take ?n (drop stop (vec_cells v))"
      by (simp only: tk dr)
    also have "\<dots> = take first (take (vec_size v) (vec_cells v)) @ drop stop (take (vec_size v) (vec_cells v))"
      using rng by (simp add: drop_take)
    moreover have "vec_size ?v' = first + ?n" and "vec_cells ?v' = ?cs"
      using rng by simp_all
    ultimately show ?thesis by (simp only:)
  qed
  show thesis
  proof (rule that [OF eq])
    show "vec_ok ?v'"
    proof -
      have "set (take (vec_size ?v') (vec_cells ?v')) \<subseteq> set (take (vec_size v) (vec_cells v))"
        unfolding live set_append by (intro Un_least set_take_subset set_drop_subset)
      then show ?thesis
        using ok rng len by (auto simp: vec_ok_def)
    qed
    show "vec_list ?v' = take first (vec_list v) @ drop stop (vec_list v)"
      unfolding vec_list_def live by (simp add: take_map drop_map)
    show "length (vec_cells ?v') = length (vec_cells v)"
      using rng len by simp
  qed
qed

subsection \<open>Swapping\<close>

lemma swap_cells_prefix:
  assumes "n \<le> length a" "n \<le> length b"
  shows "fold swap_cell [0..<n] (a, b) = (take n b @ drop n a, take n a @ drop n b)"
  using assms
proof (induction n)
  case 0
  then show ?case by simp
next
  case (Suc n)
  have "fold swap_cell [0..<Suc n] (a, b) = swap_cell n (take n b @ drop n a, take n a @ drop n b)"
    using Suc by simp
  also have "\<dots> = (take (Suc n) b @ drop (Suc n) a, take (Suc n) a @ drop (Suc n) b)"
    using Suc.prems
    by (simp add: swap_cell_def nth_append list_update_append take_Suc_conv_app_nth
        Cons_nth_drop_Suc [symmetric])
  finally show ?case .
qed

lemma copy_cells_range:
  assumes "lo \<le> hi" "hi \<le> length a" "hi \<le> length b"
  shows "fold (\<lambda>i c. c[i := a ! i]) [lo..<hi] b = take lo b @ take (hi - lo) (drop lo a) @ drop hi b"
  using assms
proof (induction hi)
  case 0
  then show ?case by simp
next
  case (Suc hi)
  show ?case
  proof (cases "lo \<le> hi")
    case True
    have "fold (\<lambda>i c. c[i := a ! i]) [lo..<Suc hi] b
        = (take lo b @ take (hi - lo) (drop lo a) @ drop hi b)[hi := a ! hi]"
      using Suc True by simp
    also have "\<dots> = take lo b @ (take (hi - lo) (drop lo a) @ [a ! hi]) @ drop (Suc hi) b"
    proof -
      have "drop hi b = b ! hi # drop (Suc hi) b"
        using Suc.prems by (simp add: Cons_nth_drop_Suc)
      then show ?thesis using Suc.prems True by (simp add: list_update_append)
    qed
    also have "take (hi - lo) (drop lo a) @ [a ! hi] = take (Suc hi - lo) (drop lo a)"
      using Suc.prems True by (simp add: Suc_diff_le take_Suc_conv_app_nth)
    finally show ?thesis .
  next
    case False
    with Suc.prems have "lo = Suc hi" by simp
    then show ?thesis by simp
  qed
qed

lemma swap_array_items_longer:
  assumes "vec_size w < vec_size v" "vec_size v \<le> length (vec_cells v)"
    "vec_size v \<le> length (vec_cells w)"
  shows "vec_swap_array_items v w =
    (take (vec_size w) (vec_cells w) @ drop (vec_size w) (vec_cells v),
     take (vec_size v) (vec_cells v) @ drop (vec_size v) (vec_cells w))"
proof -
  let ?b = "take (vec_size w) (vec_cells v) @ drop (vec_size w) (vec_cells w)"
  let ?a = "take (vec_size w) (vec_cells w) @ drop (vec_size w) (vec_cells v)"
  have "fold (\<lambda>i c. c[i := ?a ! i]) [vec_size w..<vec_size v] ?b
      = take (vec_size w) ?b @ take (vec_size v - vec_size w) (drop (vec_size w) ?a) @ drop (vec_size v) ?b"
    using assms by (intro copy_cells_range) auto
  also have "\<dots> = take (vec_size v) (vec_cells v) @ drop (vec_size v) (vec_cells w)"
  proof -
    have "take (vec_size v) (vec_cells v)
        = take (vec_size w) (vec_cells v) @ take (vec_size v - vec_size w) (drop (vec_size w) (vec_cells v))"
      using assms(1) by (metis le_add_diff_inverse less_imp_le_nat take_add)
    then show ?thesis using assms by simp
  qed
  finally show ?thesis
    using assms by (simp add: vec_swap_array_items_def swap_cells_prefix Let_def min_def)
qed

lemma swap_array_items_shorter:
  assumes "vec_size v \<le> vec_size w" "vec_size w \<le> length (vec_cells w)"
    "vec_size w \<le> length (vec_cells v)"
  shows "vec_swap_array_items v w =
    (take (vec_size w) (vec_cells w) @ drop (vec_size w) (vec_cells v),
     take (vec_size v) (vec_cells v) @ drop (vec_size v) (vec_cells w))"
proof -
  let ?a = "take (vec_size v) (vec_cells w) @ drop (vec_size v) (vec_cells v)"
  let ?b = "take (vec_size v) (vec_cells v) @ drop (vec_size v) (vec_cells w)"
  have "fold (\<lambda>i c. c[i := ?b ! i]) [vec_size v..<vec_size w] ?a
      = take (vec_size v) ?a @ take (vec_size w - vec_size v) (drop (vec_size v) ?b) @ drop (vec_size w) ?a"
    using assms by (intro copy_cells_range) auto
  also have "\<dots> = take (vec_size w) (vec_cells w) @ drop (vec_size w) (vec_cells v)"
  proof -
    have "take (vec_size w) (vec_cells w)
        = take (vec_size v) (vec_cells w) @ take (vec_size w - vec_size v) (drop (vec_size v) (vec_cells w))"
      using assms(1) by (metis le_add_diff_inverse take_add)
    then show ?thesis using assms by simp
  qed
  finally show ?thesis
    using assms by (simp add: vec_swap_array_items_def swap_cells_prefix Let_def min_def)
qed

lemma sv_swap_list:
  assumes "vec_ok v" "vec_ok w" "sv_capacity v = sv_capacity w" "sv_swap v w = (v', w')"
  shows "vec_ok v'" "vec_ok w'" "vec_list v' = vec_list w" "vec_list w' = vec_list v"
proof -
  have eq: "vec_swap_array_items v w =
    (take (vec_size w) (vec_cells w) @ drop (vec_size w) (vec_cells v),
     take (vec_size v) (vec_cells v) @ drop (vec_size v) (vec_cells w))"
    using assms(1-3) swap_array_items_longer [of w v] swap_array_items_shorter [of v w]
    by (cases "vec_size w < vec_size v") (auto simp: vec_ok_def sv_capacity_def)
  have "vec_size v \<le> length (vec_cells v)" "vec_size w \<le> length (vec_cells w)"
    and "length (vec_cells v) = length (vec_cells w)"
    using assms(1-3) by (auto simp: vec_ok_def sv_capacity_def)
  with assms eq show "vec_ok v'" "vec_ok w'" "vec_list v' = vec_list w" "vec_list w' = vec_list v"
    by (auto simp: sv_swap_def vec_ok_def vec_list_def)
qed

subsection \<open>What goes wrong away from the back\<close>

lemma move_backward_front_fault:
  "move_backward (Suc (Suc n)) (2 + int n) 1 cs = Inl Out_Of_Bounds"
  by (auto simp: nat_eq_iff)

lemma sv_copy_construct_empty:
  assumes "vec_size v \<le> sv_capacity v" "sv_capacity v < 2 ^ 63" "0 < vec_size v"
  shows "sv_copy_construct v = Inr (sv_new (sv_capacity v))"
proof -
  have "(- int (vec_size v)) mod 2 ^ 64 = 2 ^ 64 - int (vec_size v)"
    using assms by (subst zmod_zminus1_eq_if) auto
  moreover have "length (vec_cells v) < 2 ^ 64 - vec_size v"
    using assms by (simp add: sv_capacity_def)
  ultimately show ?thesis
    by (simp add: sv_copy_construct_def sv_insert_range_def Let_def vec_begin_def vec_end_def
        sv_new_def sv_grow_def sv_capacity_def nat_diff_distrib)
qed

subsection \<open>The containers meet the sequence contract\<close>

interpretation sv: bounded_sequence vec_list vec_ok "\<lambda>v. vec_size v < sv_capacity v"
  sv_push_back vec_pop_back vec_size vec_at sv_capacity
proof
  fix s :: "'a vec" and x :: 'a
  assume "vec_ok s" "vec_size s < sv_capacity s"
  then show "\<exists>i s'. sv_push_back x s = Inr (i, s') \<and> vec_ok s' \<and> vec_list s' = vec_list s @ [x]"
    by (metis sv_push_back_room)
next
  fix s s' :: "'a vec" and x :: 'a and i
  assume a: "vec_ok s" and p: "sv_push_back x s = Inr (i, s')"
  show "sv_capacity s' = sv_capacity s"
  proof (cases "vec_size s < sv_capacity s")
    case True
    with p show ?thesis by (metis Inr_inject Pair_inject a sv_push_back_room)
  next
    case False
    with a p show ?thesis
      by (auto simp: sv_push_back_full vec_ok_def sv_capacity_def)
  qed
next
  fix s :: "'a vec" and x :: 'a
  assume "vec_ok s" "\<not> vec_size s < sv_capacity s"
  then show "\<exists>i. sv_push_back x s = Inr (i, s)"
    by (auto simp: sv_push_back_full vec_ok_def sv_capacity_def)
qed (auto simp: vec_pop_back_list length_vec_list vec_at_nth)

definition gv_ok :: "'a gvec \<Rightarrow> bool" where
  "gv_ok v \<longleftrightarrow> vec_ok v \<and> gv_capacity v = length (vec_cells v)"

lemma gv_push_back_room:
  assumes "gv_ok v" "vec_size v < gv_capacity v"
  obtains v' where "gv_push_back x v = Inr (vec_size v, v')" "gv_ok v'"
    "vec_list v' = vec_list v @ [x]" "gv_capacity v' = gv_capacity v" "vec_size v' = vec_size v + 1"
proof -
  obtain v' where v': "vec_emplace_at (vec_end v) x v = Inr (vec_size v, v')" "vec_ok v'"
    "vec_list v' = vec_list v @ [x]" "length (vec_cells v') = length (vec_cells v)"
    "vec_size v' = vec_size v + 1" "vec.more v' = vec.more v"
    using vec_emplace_at_end [of v] assms unfolding gv_ok_def by metis
  have "gv_capacity v' = gv_capacity v"
    using v'(6) by (cases v; cases v') simp
  with v' assms show thesis
    by (intro that [of v'])
      (auto simp: gv_push_back_def gv_emplace_def gv_grow_def gv_ok_def Let_def)
qed

lemma gv_ok_vec: "gv_ok v \<Longrightarrow> vec_ok v"
  by (simp add: gv_ok_def)

lemma gv_pop_back_ok: "gv_ok v \<Longrightarrow> gv_ok (vec_pop_back v)"
  using vec_pop_back_list(1) [of v] by (auto simp: gv_ok_def vec_pop_back_def)

interpretation gv: sequence vec_list gv_ok "\<lambda>v. vec_size v < gv_capacity v"
  gv_push_back vec_pop_back vec_size vec_at
proof
  fix s :: "'a gvec" and x :: 'a
  assume "gv_ok s" "vec_size s < gv_capacity s"
  then show "\<exists>i s'. gv_push_back x s = Inr (i, s') \<and> gv_ok s' \<and> vec_list s' = vec_list s @ [x]"
    by (metis gv_push_back_room)
qed (auto simp: gv_pop_back_ok dest!: gv_ok_vec simp: vec_pop_back_list length_vec_list vec_at_nth)

lemma gv_reserve_empty:
  assumes "gv_ok v" "vec_size v = 0"
  shows "gv_ok (gv_reserve n v)" "vec_list (gv_reserve n v) = []" "n \<le> gv_capacity (gv_reserve n v)"
    "vec_size (gv_reserve n v) = 0"
  using assms by (auto simp: gv_reserve_def gv_ok_def vec_ok_def vec_list_def Let_def)

lemma gv_push_all_reserved:
  assumes "gv_ok v" "vec_size v + length xs \<le> gv_capacity v"
  shows "\<exists>v'. push_all gv_push_back xs v = Inr v' \<and> gv_ok v' \<and> vec_list v' = vec_list v @ xs"
  using assms
proof (induction xs arbitrary: v)
  case Nil
  then show ?case by simp
next
  case (Cons x xs)
  then have "vec_size v < gv_capacity v" by simp
  with gv_push_back_room [OF Cons.prems(1)] obtain v' where
    v': "gv_push_back x v = Inr (vec_size v, v')" "gv_ok v'" "vec_list v' = vec_list v @ [x]"
    "gv_capacity v' = gv_capacity v" "vec_size v' = vec_size v + 1" by metis
  with Cons.IH [of v'] Cons.prems(2) show ?case by auto
qed

section \<open>Properties\<close>

text \<open>
  Pushing the elements of any list onto a fresh \<open>SmallVector\<close> of capacity \<open>k\<close> never goes
  wrong; it stores the first \<open>k\<close> of them in order and drops the rest.
\<close>

theorem sv_push_all_prefix:
  "\<exists>v. push_all sv_push_back (xs :: 'a list) (sv_new k) = Inr v \<and> vec_list v = take k xs \<and> vec_size v = min k (length xs)"
proof -
  let ?s = "sv_new k :: 'a vec"
  have "\<exists>v. push_all sv_push_back xs ?s = Inr v \<and> vec_ok v \<and> sv_capacity v = sv_capacity ?s \<and>
      vec_list v = vec_list ?s @ take (sv_capacity ?s - length (vec_list ?s)) xs"
    by (rule sv.push_all_saturates [OF vec_ok_new(1)])
  then obtain v where v: "push_all sv_push_back xs ?s = Inr v" "vec_ok v"
    "vec_list v = vec_list ?s @ take (sv_capacity ?s - length (vec_list ?s)) xs" by blast
  have "vec_list v = take k xs"
    using v(3) by (simp add: sv_new_def sv_capacity_def vec_list_def)
  with v(1) length_vec_list [OF v(2)] show ?thesis by auto
qed

text \<open>
  \<open>erase(first, last)\<close> on a valid range removes exactly the elements of the range and keeps
  the others in order; the iterator it returns is always \<open>end()\<close>.
\<close>

theorem sv_erase_range:
  assumes "vec_ok (v :: 'a vec)" "first \<le> stop" "stop \<le> vec_size v"
  shows "\<exists>v'. vec_erase (int first) (int stop) v = Inr (vec_end v', v') \<and> vec_ok v' \<and>
    vec_list v' = take first (vec_list v) @ drop stop (vec_list v)"
  using vec_erase_list [OF assms] by metis

definition sv_123 :: "nat vec" where
  "sv_123 = \<lparr>vec_cells = [Some 1, Some 2, Some 3, None], vec_size = 3\<rparr>"

theorem sv_erase_range_witness:
  "vec_ok sv_123 \<and>
   (\<exists>v'. vec_erase (int 0) (int 1) sv_123 = Inr (vec_end v', v') \<and> vec_list v' = [2, 3])"
proof -
  have ok: "vec_ok sv_123" by (simp add: vec_ok_def sv_123_def)
  have "vec_list sv_123 = [1, 2, 3]" by (simp add: vec_list_def sv_123_def)
  with sv_erase_range [OF ok, of 0 1] ok show ?thesis by (auto simp: sv_123_def)
qed

text \<open>
  A \<open>GrowingSmallVector\<close> that is reserved for all of its elements while it is empty (as
  \<open>SimulationDoMultitasks\<close> does with its task ids) then takes them all, in order.
\<close>

theorem gv_reserve_then_push:
  assumes "length (xs :: 'a list) \<le> n"
  shows "\<exists>v. push_all gv_push_back xs (gv_reserve n (gv_new k)) = Inr v \<and> vec_list v = xs"
proof -
  have ok: "gv_ok (gv_new k :: 'a gvec)" and z: "vec_size (gv_new k :: 'a gvec) = 0"
    by (simp_all add: gv_ok_def vec_ok_new) (simp_all add: gv_new_def)
  note r = gv_reserve_empty [OF ok z, of n]
  show ?thesis
    using gv_push_all_reserved [OF r(1), of xs] r assms by force
qed

theorem gv_reserve_then_push_witness:
  "\<exists>v. push_all gv_push_back [10, 20, 30 :: nat] (gv_reserve 3 (gv_new 2)) = Inr v \<and> vec_list v = [10, 20, 30]"
  using gv_reserve_then_push [of "[10, 20, 30 :: nat]" 3 2] by simp

text \<open>
  \<open>swap\<close> of two vectors of the same capacity exchanges their contents, whatever their sizes.
\<close>

theorem sv_swap_exchanges:
  assumes "vec_ok v" "vec_ok w" "sv_capacity v = sv_capacity w"
  shows "vec_list (fst (sv_swap v w)) = vec_list w \<and> vec_list (snd (sv_swap v w)) = vec_list v \<and>
    vec_ok (fst (sv_swap v w)) \<and> vec_ok (snd (sv_swap v w))"
  using sv_swap_list [OF assms] by (cases "sv_swap v w") simp

theorem sv_swap_exchanges_witness:
  "vec_list (fst (sv_swap sv_123 \<lparr>vec_cells = [Some 7, None, None, None], vec_size = 1\<rparr>)) = [7]"
proof -
  have "vec_ok sv_123" "vec_ok \<lparr>vec_cells = [Some (7 :: nat), None, None, None], vec_size = 1\<rparr>"
    by (simp_all add: vec_ok_def sv_123_def)
  from sv_swap_exchanges [OF this] show ?thesis
    by (simp add: sv_123_def sv_capacity_def vec_list_def)
qed

subsection \<open>Divergences from \<open>std::vector\<close>\<close>

text \<open>
  The class says that it has the api of a \<open>std::vector\<close>. At the front of two or more elements
  \<open>emplace\<close> moves them to before the buffer; growing an inline buffer by \<open>emplace_back\<close> uses a
  pointer into the buffer it has left; \<open>reserve\<close> leaves inline elements behind; copying yields an
  empty vector; \<open>resize\<close> overwrites the elements there are.
\<close>

lemma sv_push_front_fault:
  assumes "vec_size v = Suc (Suc n)" "vec_size v < sv_capacity v"
  shows "sv_push_front x v = Inl Out_Of_Bounds"
  using assms
  by (simp add: sv_push_front_def sv_emplace_def sv_grow_def vec_emplace_at_def vec_begin_def
      vec_end_def move_backward_front_fault del: move_backward.simps)

lemma gv_growth_dangles:
  assumes "vec_size v = gv_capacity v" "0 < gv_capacity v"
  shows "gv_push_back x v = Inl Dangling"
  using assms
  by (simp add: gv_push_back_def gv_emplace_def gv_grow_def gv_reserve_def Let_def)

lemma gv_reserve_loses_inline:
  assumes "\<not> gv_on_heap v" "gv_capacity v < n" "0 < n"
  shows "vec_at 0 (gv_reserve n v) = Inl Uninitialized"
  using assms by (simp add: gv_reserve_def vec_at_def vec_begin_def read_cell_def Let_def)

lemma construct_each_all:
  assumes "n \<le> length cs"
  shows "construct_each [0..<n] d cs = Inr (replicate n (Some d) @ drop n cs)"
proof -
  have "construct_each [k..<n] d cs = Inr (take k cs @ replicate (n - k) (Some d) @ drop n cs)"
    if "k \<le> n" "n \<le> length cs" for k and cs :: "'a cells"
    using that
  proof (induction "n - k" arbitrary: k cs)
    case 0
    then show ?case by simp
  next
    case (Suc m)
    then have "k < n" "m = n - Suc k" by auto
    then have "construct_each [k..<n] d cs = construct_each [Suc k..<n] d (cs[k := Some d])"
      using Suc.prems by (simp add: upt_conv_Cons)
    also have "\<dots> = Inr (take (Suc k) (cs[k := Some d]) @ replicate (n - Suc k) (Some d)
        @ drop n (cs[k := Some d]))"
      using \<open>k < n\<close> \<open>m = n - Suc k\<close> Suc.prems by (intro Suc.hyps(1)) auto
    also have "\<dots> = Inr (take k cs @ replicate (n - k) (Some d) @ drop n cs)"
      using \<open>k < n\<close> Suc.prems
      by (simp add: take_Suc_list_update Suc_diff_Suc [symmetric] del: Suc_diff_Suc)
    finally show ?case .
  qed
  from this [of 0 cs] assms show ?thesis by simp
qed

lemma sv_resize_overwrites:
  assumes "vec_ok v" "vec_size v < n" "n \<le> sv_capacity v"
  shows "\<exists>v'. sv_resize d n v = Inr v' \<and> vec_list v' = replicate n d"
  using assms
  by (auto simp: sv_resize_def vec_resize_grown_def construct_each_all sv_capacity_def vec_list_def)

end
