(* ===== verification/CircularBuffer.thy ===== *)
theory CircularBuffer
  imports SequenceSpec
begin

text \<open>
  \<open>src/Util/CircularBuffer.h\<close>: \<open>CircularBufferBase\<close>, \<open>CircularBuffer\<close> and
  \<open>GrowingCircularBuffer\<close>.

  \<open>cb_cells\<close> is the buffer behind \<open>ptr()\<close>; its length is \<open>capacity()\<close> whenever the buffer
  exists. \<open>cb_first\<close> and \<open>cb_last\<close> are \<open>m_first\<close> and \<open>m_last\<close>, the second one past the last
  element. An iterator is its \<open>m_index\<close>.
\<close>

record 'a cb =
  cb_cells :: "'a cells"
  cb_first :: nat
  cb_last :: nat

text \<open>The growing buffer's pointer is null, valid, or left over after \<open>delete[]\<close>.\<close>

datatype buffer_ptr = Null | Live | Freed

record 'a gcb = "'a cb" +
  gcb_capacity :: nat
  gcb_buffer :: buffer_ptr

section \<open>The base class, for a given \<open>capacity()\<close>\<close>

definition cb_begin :: "('a, 'b) cb_scheme \<Rightarrow> nat" where
  "cb_begin b = cb_first b"

definition cb_end :: "('a, 'b) cb_scheme \<Rightarrow> nat" where
  "cb_end b = cb_last b"

text \<open>The indices an iterator from \<open>i\<close> visits before it equals \<open>stop\<close>.\<close>

function cb_walk :: "nat \<Rightarrow> nat \<Rightarrow> nat \<Rightarrow> nat list" where
  "cb_walk cap i stop =
     (if i = stop \<or> cap \<le> i \<or> cap \<le> stop then [] else i # cb_walk cap ((i + 1) mod cap) stop)"
  by pat_completeness auto
termination
proof (relation "measure (\<lambda>(cap, i, stop). if i \<le> stop then stop - i else stop + cap - i)", goal_cases)
  case (2 cap i stop)
  then have "i < cap" "stop < cap" "i \<noteq> stop" by auto
  then show ?case by (cases "Suc i = cap") auto
qed simp

declare cb_walk.simps [simp del]

definition cb_size :: "nat \<Rightarrow> ('a, 'b) cb_scheme \<Rightarrow> nat" where
  "cb_size cap b =
     (if cb_first b > cb_last b then cap - (cb_first b - cb_last b) else cb_last b - cb_first b)"

definition cb_is_empty :: "('a, 'b) cb_scheme \<Rightarrow> bool" where
  "cb_is_empty b \<longleftrightarrow> cb_first b = cb_last b"

definition cb_pop_back :: "nat \<Rightarrow> ('a, 'b) cb_scheme \<Rightarrow> ('a, 'b) cb_scheme" where
  "cb_pop_back cap b =
     (if cb_last b = cb_first b then b
      else
        let l = (cb_last b + cap - 1) mod cap
        in b\<lparr>cb_last := l, cb_cells := (cb_cells b)[l := None]\<rparr>)"

definition cb_pop_front :: "nat \<Rightarrow> ('a, 'b) cb_scheme \<Rightarrow> ('a, 'b) cb_scheme" where
  "cb_pop_front cap b =
     (if cb_last b = cb_first b then b
      else b\<lparr>cb_cells := (cb_cells b)[cb_first b := None], cb_first := (cb_first b + 1) mod cap\<rparr>)"

definition cb_at :: "nat \<Rightarrow> nat \<Rightarrow> ('a, 'b) cb_scheme \<Rightarrow> 'a res" where
  "cb_at cap i b =
     (if cap = 0 then Inl Div_By_Zero else read_cell (cb_cells b) ((cb_first b + i) mod cap))"

definition cb_front :: "('a, 'b) cb_scheme \<Rightarrow> 'a res" where
  "cb_front b = read_cell (cb_cells b) (cb_first b)"

definition cb_back :: "('a, 'b) cb_scheme \<Rightarrow> 'a res" where
  "cb_back b = read_cell (cb_cells b) (cb_last b)"

definition cb_clear :: "nat \<Rightarrow> ('a, 'b) cb_scheme \<Rightarrow> ('a, 'b) cb_scheme" where
  "cb_clear cap b =
     b\<lparr>cb_cells := fold (\<lambda>i cs. cs[i := None]) (cb_walk cap (cb_begin b) (cb_end b)) (cb_cells b),
       cb_first := 0, cb_last := 0\<rparr>"

section \<open>CircularBuffer\<close>

definition cbf_new :: "nat \<Rightarrow> 'a cb" where
  "cbf_new k = \<lparr>cb_cells = replicate k None, cb_first = 0, cb_last = 0\<rparr>"

definition cbf_capacity :: "'a cb \<Rightarrow> nat" where
  "cbf_capacity b = length (cb_cells b)"

definition cbf_get_new_last :: "'a cb \<Rightarrow> nat option res" where
  "cbf_get_new_last b =
     (if cbf_capacity b = 0 then Inl Div_By_Zero
      else
        let new_last = (cb_last b + 1) mod cbf_capacity b
        in if new_last = cb_first b then Inr None else Inr (Some new_last))"

definition cbf_get_new_first :: "'a cb \<Rightarrow> nat option res" where
  "cbf_get_new_first b =
     (if cbf_capacity b = 0 then Inl Div_By_Zero
      else
        let new_first = (cb_first b + cbf_capacity b - 1) mod cbf_capacity b
        in if new_first = cb_first b then Inr None else Inr (Some new_first))"

definition cbf_emplace_back :: "'a \<Rightarrow> 'a cb \<Rightarrow> (nat \<times> 'a cb) res" where
  "cbf_emplace_back x b =
     (let old_last = cb_last b
      in rbind (cbf_get_new_last b) (\<lambda>r.
         case r of
           None \<Rightarrow> Inr (cb_end b, b)
         | Some new_last \<Rightarrow>
             rbind (write_cell (cb_cells b) old_last (Some x)) (\<lambda>cs.
             Inr (old_last, b\<lparr>cb_cells := cs, cb_last := new_last\<rparr>))))"

definition cbf_emplace_front :: "'a \<Rightarrow> 'a cb \<Rightarrow> (nat \<times> 'a cb) res" where
  "cbf_emplace_front x b =
     rbind (cbf_get_new_first b) (\<lambda>r.
       case r of
         None \<Rightarrow> Inr (cb_end b, b)
       | Some new_first \<Rightarrow>
           rbind (write_cell (cb_cells b) new_first (Some x)) (\<lambda>cs.
           Inr (new_first, b\<lparr>cb_cells := cs, cb_first := new_first\<rparr>)))"

definition cbf_pop_back :: "'a cb \<Rightarrow> 'a cb" where
  "cbf_pop_back b = cb_pop_back (cbf_capacity b) b"

definition cbf_pop_front :: "'a cb \<Rightarrow> 'a cb" where
  "cbf_pop_front b = cb_pop_front (cbf_capacity b) b"

definition cbf_size :: "'a cb \<Rightarrow> nat" where
  "cbf_size b = cb_size (cbf_capacity b) b"

definition cbf_at :: "nat \<Rightarrow> 'a cb \<Rightarrow> 'a res" where
  "cbf_at i b = cb_at (cbf_capacity b) i b"

definition cbf_clear :: "'a cb \<Rightarrow> 'a cb" where
  "cbf_clear b = cb_clear (cbf_capacity b) b"

text \<open>The move constructor fills a new buffer and resets the indices of the old one.\<close>

definition cbf_move_construct :: "'a cb \<Rightarrow> 'a cb \<times> 'a cb" where
  "cbf_move_construct other =
     (let fresh = replicate (cbf_capacity other) None;
          moved = fold (\<lambda>i cs. cs[i := cb_cells other ! i])
                    (cb_walk (cbf_capacity other) (cb_first other) (cb_last other)) fresh
      in (\<lparr>cb_cells = moved, cb_first = cb_first other, cb_last = cb_last other\<rparr>,
          other\<lparr>cb_first := 0, cb_last := 0\<rparr>))"

section \<open>GrowingCircularBuffer\<close>

definition gcb_new :: "'a gcb" where
  "gcb_new = \<lparr>cb_cells = [], cb_first = 0, cb_last = 0, gcb_capacity = 0, gcb_buffer = Null\<rparr>"

text \<open>
  \<open>reserve\<close>: the elements are moved in order to the start of the new buffer. The new buffer is
  at least 4 long, but a request below the present size is not refused.
\<close>

definition gcb_reserve :: "nat \<Rightarrow> 'a gcb \<Rightarrow> 'a gcb res" where
  "gcb_reserve n b =
     (let new_capacity = (if n < 4 then 4 else n);
          old_size = cb_size (gcb_capacity b) b;
          items = map (\<lambda>i. cb_cells b ! i) (cb_walk (gcb_capacity b) (cb_begin b) (cb_end b))
      in if gcb_buffer b = Freed then Inl Double_Free
         else if gcb_buffer b = Live \<and> length items > new_capacity then Inl Out_Of_Bounds
         else
           let filled = (if gcb_buffer b = Live
                         then items @ replicate (new_capacity - length items) None
                         else replicate new_capacity None)
           in Inr (b\<lparr>cb_cells := filled, cb_first := 0, cb_last := old_size,
                     gcb_capacity := new_capacity, gcb_buffer := Live\<rparr>))"

definition gcb_construct :: "nat \<Rightarrow> 'a gcb res" where
  "gcb_construct capacity = gcb_reserve capacity gcb_new"

definition gcb_grow :: "'a gcb \<Rightarrow> 'a gcb res" where
  "gcb_grow b = gcb_reserve (gcb_capacity b * 2) b"

definition gcb_make_room :: "'a gcb \<Rightarrow> 'a gcb res" where
  "gcb_make_room b =
     (if cb_size (gcb_capacity b) b + 1 \<ge> gcb_capacity b then gcb_grow b else Inr b)"

definition gcb_get_new_last :: "'a gcb \<Rightarrow> (nat \<times> 'a gcb) res" where
  "gcb_get_new_last b =
     rbind (gcb_make_room b) (\<lambda>b'. Inr ((cb_last b' + 1) mod gcb_capacity b', b'))"

definition gcb_get_new_first :: "'a gcb \<Rightarrow> (nat \<times> 'a gcb) res" where
  "gcb_get_new_first b =
     rbind (gcb_make_room b) (\<lambda>b'.
     Inr ((cb_first b' + gcb_capacity b' - 1) mod gcb_capacity b', b'))"

text \<open>\<open>emplace_back\<close> reads \<open>m_last\<close> before \<open>get_new_last\<close> may have moved the elements.\<close>

definition gcb_emplace_back :: "'a \<Rightarrow> 'a gcb \<Rightarrow> (nat \<times> 'a gcb) res" where
  "gcb_emplace_back x b =
     (let old_last = cb_last b
      in rbind (gcb_get_new_last b) (\<lambda>(new_last, b').
         rbind (write_cell (cb_cells b') old_last (Some x)) (\<lambda>cs.
         Inr (old_last, b'\<lparr>cb_cells := cs, cb_last := new_last\<rparr>))))"

definition gcb_emplace_front :: "'a \<Rightarrow> 'a gcb \<Rightarrow> (nat \<times> 'a gcb) res" where
  "gcb_emplace_front x b =
     rbind (gcb_get_new_first b) (\<lambda>(new_first, b').
     rbind (write_cell (cb_cells b') new_first (Some x)) (\<lambda>cs.
     Inr (new_first, b'\<lparr>cb_cells := cs, cb_first := new_first\<rparr>)))"

definition gcb_pop_back :: "'a gcb \<Rightarrow> 'a gcb" where
  "gcb_pop_back b = cb_pop_back (gcb_capacity b) b"

definition gcb_pop_front :: "'a gcb \<Rightarrow> 'a gcb" where
  "gcb_pop_front b = cb_pop_front (gcb_capacity b) b"

definition gcb_clear :: "'a gcb \<Rightarrow> 'a gcb res" where
  "gcb_clear b =
     (let b' = cb_clear (gcb_capacity b) b
      in if gcb_buffer b' = Freed then Inl Double_Free
         else Inr (b'\<lparr>cb_cells := (if gcb_buffer b' = Null then cb_cells b' else []),
                      gcb_buffer := (if gcb_buffer b' = Null then Null else Freed),
                      gcb_capacity := 0\<rparr>))"

definition gcb_move_construct :: "'a gcb \<Rightarrow> 'a gcb \<times> 'a gcb" where
  "gcb_move_construct other = (other, gcb_new)"

section \<open>Index arithmetic\<close>

lemma wrap_add:
  "f < cap \<Longrightarrow> i < cap \<Longrightarrow> (f + i) mod cap = (if f + i < cap then f + i else f + i - cap)" for cap :: nat
  by (simp add: mod_if)

lemma wrap_inj:
  "f < cap \<Longrightarrow> i < cap \<Longrightarrow> j < cap \<Longrightarrow> (f + i) mod cap = (f + j) mod cap \<longleftrightarrow> i = j" for cap :: nat
  by (auto simp: wrap_add split: if_splits)

lemma wrap_pred:
  assumes "f < cap" "0 < n" "n < (cap :: nat)"
  shows "((f + n) mod cap + cap - 1) mod cap = (f + (n - 1)) mod cap"
proof (cases "f + n < cap")
  case True
  with assms have "(f + n) mod cap + cap - 1 = (f + (n - 1)) + cap" by simp
  then show ?thesis by (simp only: mod_add_self2)
next
  case False
  with assms have "(f + n) mod cap = f + n - cap" by (simp add: wrap_add)
  with False assms have "(f + n) mod cap + cap - 1 = f + (n - 1)" by simp
  then show ?thesis by simp
qed

lemma wrap_front:
  assumes "f < cap"
  shows "(((f + cap - 1) mod cap) + Suc i) mod cap = (f + i) mod (cap :: nat)"
proof -
  have "(((f + cap - 1) mod cap) + Suc i) mod cap = ((f + cap - 1) + Suc i) mod cap"
    by (rule mod_add_left_eq)
  also have "(f + cap - 1) + Suc i = (f + i) + cap" using assms by simp
  finally show ?thesis by simp
qed

text \<open>The size is the only number below the capacity that leads from \<open>m_first\<close> to \<open>m_last\<close>.\<close>

lemma cb_size_range:
  assumes "cb_first b < cap" "cb_last b < cap"
  shows "cb_size cap b < cap" "cb_last b = (cb_first b + cb_size cap b) mod cap"
  using assms by (auto simp: cb_size_def wrap_add)

lemma cb_sizeI:
  assumes "cb_first b < cap" "n < cap" "cb_last b = (cb_first b + n) mod cap"
  shows "cb_size cap b = n"
  using assms by (auto simp: cb_size_def wrap_add split: if_splits)

lemma cb_walk_wrap:
  "f < cap \<Longrightarrow> n < cap \<Longrightarrow> cb_walk cap f ((f + n) mod cap) = map (\<lambda>i. (f + i) mod cap) [0..<n]"
proof (induction n arbitrary: f)
  case 0
  then show ?case by (simp add: cb_walk.simps)
next
  case (Suc n)
  have ne: "f \<noteq> (f + Suc n) mod cap"
    using wrap_inj [of f cap 0 "Suc n"] Suc.prems by simp
  have stop: "(f + Suc n) mod cap = ((f + 1) mod cap + n) mod cap"
    by (simp add: mod_add_left_eq)
  have "(f + Suc n) mod cap < cap" using Suc.prems by simp
  then have "cb_walk cap f ((f + Suc n) mod cap) = f # cb_walk cap ((f + 1) mod cap) ((f + Suc n) mod cap)"
    using ne Suc.prems by (subst cb_walk.simps) (metis Suc_eq_plus1 not_le)
  also have "\<dots> = f # map (\<lambda>i. ((f + 1) mod cap + i) mod cap) [0..<n]"
    unfolding stop using Suc.prems by (subst Suc.IH) simp_all
  also have "\<dots> = map (\<lambda>i. (f + i) mod cap) [0..<Suc n]"
    using Suc.prems by (simp add: upt_conv_Cons map_Suc_upt [symmetric] mod_add_left_eq del: upt_Suc)
  finally show ?case .
qed

section \<open>The contents of a buffer\<close>

definition cb_ok :: "nat \<Rightarrow> ('a, 'b) cb_scheme \<Rightarrow> bool" where
  "cb_ok cap b \<longleftrightarrow> length (cb_cells b) = cap \<and> cb_first b < cap \<and> cb_last b < cap \<and>
     (\<forall>i < cb_size cap b. cb_cells b ! ((cb_first b + i) mod cap) \<noteq> None)"

definition cb_list :: "nat \<Rightarrow> ('a, 'b) cb_scheme \<Rightarrow> 'a list" where
  "cb_list cap b = map (\<lambda>i. the (cb_cells b ! ((cb_first b + i) mod cap))) [0..<cb_size cap b]"

lemma length_cb_list [simp]: "length (cb_list cap b) = cb_size cap b"
  by (simp add: cb_list_def)

lemma cb_at_list:
  assumes "cb_ok cap b" "i < cb_size cap b"
  shows "cb_at cap i b = Inr (cb_list cap b ! i)"
  using assms by (auto simp: cb_at_def cb_ok_def cb_list_def read_cell_def)

lemma cb_front_list:
  assumes "cb_ok cap b" "cb_list cap b \<noteq> []"
  shows "cb_front b = Inr (hd (cb_list cap b))"
proof -
  have "0 < cb_size cap b" using assms(2) by (simp add: cb_list_def)
  with assms(1) show ?thesis
    by (auto simp: cb_ok_def cb_list_def cb_front_def read_cell_def hd_map hd_upt)
qed

text \<open>Writing at \<open>m_last\<close> and advancing it appends.\<close>

lemma cb_append:
  assumes ok: "cb_ok cap b" and room: "cb_size cap b + 1 < cap"
    and b': "cb_cells b' = (cb_cells b)[cb_last b := Some x]" "cb_first b' = cb_first b"
      "cb_last b' = (cb_last b + 1) mod cap"
  shows "cb_ok cap b'" "cb_list cap b' = cb_list cap b @ [x]" "cb_size cap b' = cb_size cap b + 1"
proof -
  let ?n = "cb_size cap b"
  have f: "cb_first b < cap" and l: "cb_last b = (cb_first b + ?n) mod cap"
    and len: "length (cb_cells b) = cap" and lc: "cb_last b < cap"
    using ok cb_size_range(2) [of b cap] by (auto simp: cb_ok_def)
  show n': "cb_size cap b' = ?n + 1"
    using f room b' l by (intro cb_sizeI) (auto simp: mod_Suc_eq)
  have cell: "cb_cells b' ! ((cb_first b + i) mod cap)
      = (if i = ?n then Some x else cb_cells b ! ((cb_first b + i) mod cap))" if "i \<le> ?n" for i
  proof (cases "i = ?n")
    case True
    with l lc len show ?thesis by (simp add: b'(1))
  next
    case False
    with that room f have "(cb_first b + i) mod cap \<noteq> cb_last b"
      by (simp add: l wrap_inj)
    with False show ?thesis by (simp add: b'(1))
  qed
  show "cb_ok cap b'"
    using ok n' cell len by (auto simp: cb_ok_def b' less_Suc_eq)
  have "map (\<lambda>i. the (cb_cells b' ! ((cb_first b + i) mod cap))) [0..<?n] = cb_list cap b"
    using cell by (auto simp: cb_list_def)
  with n' cell [of ?n] show "cb_list cap b' = cb_list cap b @ [x]"
    by (simp add: cb_list_def b'(2))
qed

text \<open>Writing before \<open>m_first\<close> and moving it there prepends.\<close>

lemma cb_prepend:
  assumes ok: "cb_ok cap b" and room: "cb_size cap b + 1 < cap"
    and b': "cb_first b' = (cb_first b + cap - 1) mod cap"
      "cb_cells b' = (cb_cells b)[cb_first b' := Some x]" "cb_last b' = cb_last b"
  shows "cb_ok cap b'" "cb_list cap b' = x # cb_list cap b" "cb_size cap b' = cb_size cap b + 1"
proof -
  let ?n = "cb_size cap b"
  have f: "cb_first b < cap" and l: "cb_last b = (cb_first b + ?n) mod cap"
    and len: "length (cb_cells b) = cap" and f': "cb_first b' < cap"
    using ok cb_size_range(2) [of b cap] room by (auto simp: cb_ok_def b')
  have step: "(cb_first b' + Suc i) mod cap = (cb_first b + i) mod cap" for i
    unfolding b'(1) using f by (rule wrap_front)
  show n': "cb_size cap b' = ?n + 1"
    using f' room step [of ?n] l by (intro cb_sizeI) (auto simp: b'(3))
  have cell0: "cb_cells b' ! ((cb_first b' + 0) mod cap) = Some x"
    using f' len by (simp add: b'(2))
  have cell: "cb_cells b' ! ((cb_first b' + Suc i) mod cap) = cb_cells b ! ((cb_first b + i) mod cap)"
    if "i < ?n" for i
  proof -
    have "(cb_first b' + Suc i) mod cap \<noteq> (cb_first b' + 0) mod cap"
      using that room f' by (subst wrap_inj) auto
    with f' step [of i] show ?thesis by (simp add: b'(2))
  qed
  have "cb_cells b' ! ((cb_first b' + i) mod cap) \<noteq> None" if "i < ?n + 1" for i
    using that cell0 cell ok by (cases i) (auto simp: cb_ok_def)
  then show "cb_ok cap b'"
    using ok n' len f' by (auto simp: cb_ok_def b')
  have "map (\<lambda>i. the (cb_cells b' ! ((cb_first b' + Suc i) mod cap))) [0..<?n] = cb_list cap b"
    using cell by (auto simp: cb_list_def)
  with cell0 show "cb_list cap b' = x # cb_list cap b"
    unfolding cb_list_def n'
    by (simp add: upt_conv_Cons map_Suc_upt [symmetric] comp_def del: upt_Suc)
qed

lemma cb_pop_back_list:
  assumes ok: "cb_ok cap b"
  shows "cb_ok cap (cb_pop_back cap b)" "cb_list cap (cb_pop_back cap b) = butlast (cb_list cap b)"
proof -
  let ?n = "cb_size cap b" and ?b = "cb_pop_back cap b"
  have f: "cb_first b < cap" and l: "cb_last b = (cb_first b + ?n) mod cap" and n: "?n < cap"
    using ok cb_size_range [of b cap] by (auto simp: cb_ok_def)
  have "cb_ok cap ?b \<and> cb_list cap ?b = butlast (cb_list cap b)"
  proof (cases "?n = 0")
    case True
    with l f have "cb_last b = cb_first b" by simp
    with True ok show ?thesis by (simp add: cb_pop_back_def cb_list_def)
  next
    case False
    then have ne: "cb_last b \<noteq> cb_first b" by (auto simp: cb_size_def)
    have l': "cb_last ?b = (cb_first b + (?n - 1)) mod cap"
      using wrap_pred [OF f _ n] False ne l by (simp add: cb_pop_back_def Let_def)
    have n': "cb_size cap ?b = ?n - 1"
      using f n l' ne by (intro cb_sizeI) (auto simp: cb_pop_back_def Let_def)
    have cell: "cb_cells ?b ! ((cb_first b + i) mod cap) = cb_cells b ! ((cb_first b + i) mod cap)"
      if "i < ?n - 1" for i
    proof -
      have "(cb_first b + i) mod cap \<noteq> cb_last ?b"
        using that f n wrap_inj [of "cb_first b" cap i "?n - 1"] unfolding l' by linarith
      with ne show ?thesis by (simp add: cb_pop_back_def Let_def)
    qed
    have flds: "cb_first ?b = cb_first b" "length (cb_cells ?b) = length (cb_cells b)" "cb_last ?b < cap"
      using ne l' f by (auto simp: cb_pop_back_def Let_def)
    have "cb_ok cap ?b"
      using ok n' cell flds by (auto simp: cb_ok_def)
    moreover have "cb_list cap ?b = butlast (cb_list cap b)"
      using cell flds False by (intro nth_equalityI) (auto simp: cb_list_def n' nth_butlast)
    ultimately show ?thesis ..
  qed
  then show "cb_ok cap ?b" "cb_list cap ?b = butlast (cb_list cap b)" by auto
qed

lemma cb_pop_front_list:
  assumes ok: "cb_ok cap b"
  shows "cb_ok cap (cb_pop_front cap b)" "cb_list cap (cb_pop_front cap b) = tl (cb_list cap b)"
proof -
  let ?n = "cb_size cap b" and ?b = "cb_pop_front cap b"
  have f: "cb_first b < cap" and l: "cb_last b = (cb_first b + ?n) mod cap" and n: "?n < cap"
    using ok cb_size_range [of b cap] by (auto simp: cb_ok_def)
  have "cb_ok cap ?b \<and> cb_list cap ?b = tl (cb_list cap b)"
  proof (cases "?n = 0")
    case True
    with l f have "cb_last b = cb_first b" by simp
    with True ok show ?thesis by (simp add: cb_pop_front_def cb_list_def)
  next
    case False
    then have ne: "cb_last b \<noteq> cb_first b" by (auto simp: cb_size_def)
    have flds: "cb_first ?b = (cb_first b + 1) mod cap" "length (cb_cells ?b) = length (cb_cells b)"
      "cb_last ?b = cb_last b" "cb_cells ?b = (cb_cells b)[cb_first b := None]"
      using ne by (auto simp: cb_pop_front_def)
    have f': "cb_first ?b < cap" using f by (simp add: flds)
    have step: "(cb_first ?b + i) mod cap = (cb_first b + Suc i) mod cap" for i
      by (simp add: flds mod_add_left_eq)
    have n': "cb_size cap ?b = ?n - 1"
      using f' n l False step [of "?n - 1"] by (intro cb_sizeI) (auto simp: flds(3))
    have cell: "cb_cells ?b ! ((cb_first ?b + i) mod cap) = cb_cells b ! ((cb_first b + Suc i) mod cap)"
      if "i < ?n - 1" for i
    proof -
      have "(cb_first b + Suc i) mod cap \<noteq> (cb_first b + 0) mod cap"
        using that f n by (subst wrap_inj) auto
      with f show ?thesis by (simp add: step flds(4))
    qed
    have live: "cb_cells ?b ! ((cb_first ?b + i) mod cap) \<noteq> None" if "i < ?n - 1" for i
      unfolding cell [OF that] using ok that unfolding cb_ok_def by (metis less_diff_conv Suc_eq_plus1)
    have "cb_ok cap ?b"
      unfolding cb_ok_def n' using ok flds(2,3) f' live by (auto simp: cb_ok_def)
    moreover have "cb_list cap ?b = map (\<lambda>i. the (cb_cells b ! ((cb_first b + Suc i) mod cap))) [0..<?n - 1]"
      using cell by (auto simp: cb_list_def n')
    then have "cb_list cap ?b = tl (cb_list cap b)"
      using False by (intro nth_equalityI) (auto simp: cb_list_def nth_tl)
    ultimately show ?thesis ..
  qed
  then show "cb_ok cap ?b" "cb_list cap ?b = tl (cb_list cap b)" by auto
qed

lemma cb_size_pop_back [simp]: "cb_ok cap b \<Longrightarrow> cb_size cap (cb_pop_back cap b) = cb_size cap b - 1"
  using arg_cong [OF cb_pop_back_list(2), of cap b length] by simp

text \<open>What an iteration visits, and \<open>clear\<close>.\<close>

lemma cb_walk_ok:
  assumes "cb_ok cap b"
  shows "cb_walk cap (cb_begin b) (cb_end b) = map (\<lambda>i. (cb_first b + i) mod cap) [0..<cb_size cap b]"
  using assms cb_walk_wrap [of "cb_first b" cap "cb_size cap b"] cb_size_range [of b cap]
  by (auto simp: cb_ok_def cb_begin_def cb_end_def)

lemma cb_visit:
  assumes "cb_ok cap b"
  shows "map (\<lambda>i. cb_cells b ! i) (cb_walk cap (cb_begin b) (cb_end b)) = map Some (cb_list cap b)"
  using assms by (auto simp: cb_walk_ok cb_list_def cb_ok_def)

lemma length_fold_update [simp]: "length (fold (\<lambda>i cs. cs[i := g i]) js cs) = length cs"
  by (induction js arbitrary: cs) auto

lemma nth_fold_update:
  "k < length cs \<Longrightarrow> fold (\<lambda>i cs. cs[i := g i]) js cs ! k = (if k \<in> set js then g k else cs ! k)"
  by (induction js arbitrary: cs) (auto simp: nth_list_update)

lemma cb_clear_ok:
  assumes "cb_ok cap b"
  shows "cb_ok cap (cb_clear cap b)" "cb_list cap (cb_clear cap b) = []"
  using assms by (auto simp: cb_ok_def cb_clear_def cb_list_def cb_size_def)

section \<open>CircularBuffer as a bounded deque\<close>

definition cbf_ok :: "'a cb \<Rightarrow> bool" where
  "cbf_ok b = cb_ok (cbf_capacity b) b"

definition cbf_list :: "'a cb \<Rightarrow> 'a list" where
  "cbf_list b = cb_list (cbf_capacity b) b"

definition cbf_room :: "'a cb \<Rightarrow> bool" where
  "cbf_room b \<longleftrightarrow> cbf_size b + 1 < cbf_capacity b"

lemma cbf_new_ok: "0 < k \<Longrightarrow> cbf_ok (cbf_new k)" "cbf_list (cbf_new k) = []"
  "cbf_capacity (cbf_new k) = k"
  by (auto simp: cbf_ok_def cbf_list_def cbf_new_def cb_ok_def cb_list_def cb_size_def cbf_capacity_def)

lemma cbf_ok_positive: "cbf_ok b \<Longrightarrow> 0 < cbf_capacity b"
  by (auto simp: cbf_ok_def cb_ok_def)

text \<open>\<open>get_new_last\<close> refuses exactly when the buffer is full.\<close>

lemma cbf_get_new_last_ok:
  assumes "cbf_ok b"
  shows "cbf_get_new_last b =
    Inr (if cbf_room b then Some ((cb_last b + 1) mod cbf_capacity b) else None)"
proof -
  let ?cap = "cbf_capacity b" and ?n = "cbf_size b"
  have f: "cb_first b < ?cap" and l: "cb_last b = (cb_first b + ?n) mod ?cap" and n: "?n < ?cap"
    using assms cb_size_range [of b ?cap] by (auto simp: cbf_ok_def cb_ok_def cbf_size_def)
  have "(cb_last b + 1) mod ?cap = (cb_first b + Suc ?n) mod ?cap"
    unfolding l by (simp add: mod_Suc_eq)
  then have "(cb_last b + 1) mod ?cap = cb_first b \<longleftrightarrow> Suc ?n = ?cap"
    using f n wrap_inj [of "cb_first b" ?cap "Suc ?n" 0] by (cases "Suc ?n = ?cap") auto
  with n show ?thesis
    using cbf_ok_positive [OF assms] by (auto simp: cbf_get_new_last_def cbf_room_def)
qed

lemma cbf_emplace_back_room:
  assumes ok: "cbf_ok b" and room: "cbf_room b"
  shows "\<exists>i b'. cbf_emplace_back x b = Inr (i, b') \<and> cbf_ok b' \<and> cbf_list b' = cbf_list b @ [x] \<and>
    cbf_capacity b' = cbf_capacity b"
proof -
  let ?b = "b\<lparr>cb_cells := (cb_cells b)[cb_last b := Some x], cb_last := (cb_last b + 1) mod cbf_capacity b\<rparr>"
  have "cb_last b < length (cb_cells b)"
    using ok by (auto simp: cbf_ok_def cb_ok_def)
  then have "cbf_emplace_back x b = Inr (cb_last b, ?b)"
    using room by (simp add: cbf_emplace_back_def cbf_get_new_last_ok [OF ok] Let_def)
  moreover have "cb_ok (cbf_capacity b) ?b" "cb_list (cbf_capacity b) ?b = cbf_list b @ [x]"
    using cb_append [of "cbf_capacity b" b ?b x] ok room
    by (auto simp: cbf_ok_def cbf_list_def cbf_room_def cbf_size_def)
  ultimately show ?thesis
    by (auto simp: cbf_ok_def cbf_list_def cbf_capacity_def)
qed

text \<open>
  \<open>get_new_first\<close> compares with \<open>m_first\<close>, so it only refuses a buffer of capacity one: with room
  the element is put in front.
\<close>

lemma cbf_emplace_front_room:
  assumes ok: "cbf_ok b" and room: "cbf_room b"
  shows "\<exists>i b'. cbf_emplace_front x b = Inr (i, b') \<and> cbf_ok b' \<and> cbf_list b' = x # cbf_list b"
proof -
  let ?cap = "cbf_capacity b"
  let ?nf = "(cb_first b + ?cap - 1) mod ?cap"
  let ?b = "b\<lparr>cb_cells := (cb_cells b)[?nf := Some x], cb_first := ?nf\<rparr>"
  have f: "cb_first b < ?cap" and cap: "2 \<le> ?cap"
    using ok room by (auto simp: cbf_ok_def cb_ok_def cbf_room_def cbf_capacity_def)
  have nf: "?nf < length (cb_cells b)"
    unfolding cbf_capacity_def [symmetric] by (rule mod_less_divisor) (use cap in linarith)
  have "?nf \<noteq> cb_first b"
    using f cap by (cases "cb_first b = 0") (auto simp: mod_if)
  then have "cbf_emplace_front x b = Inr (?nf, ?b)"
    using cap nf by (simp add: cbf_emplace_front_def cbf_get_new_first_def)
  moreover have "cb_ok ?cap ?b" "cb_list ?cap ?b = x # cbf_list b"
    using cb_prepend [of ?cap b ?b x] ok room
    by (auto simp: cbf_ok_def cbf_list_def cbf_room_def cbf_size_def)
  ultimately show ?thesis
    by (auto simp: cbf_ok_def cbf_list_def cbf_capacity_def)
qed

lemma cbf_pop_capacity [simp]:
  "cbf_capacity (cbf_pop_back b) = cbf_capacity b" "cbf_capacity (cbf_pop_front b) = cbf_capacity b"
  by (auto simp: cbf_capacity_def cbf_pop_back_def cbf_pop_front_def cb_pop_back_def cb_pop_front_def Let_def)

lemma cbf_emplace_back_full:
  "cbf_ok b \<Longrightarrow> \<not> cbf_room b \<Longrightarrow> cbf_emplace_back x b = Inr (cb_end b, b)"
  by (simp add: cbf_emplace_back_def cbf_get_new_last_ok)

lemma cbf_emplace_back_capacity:
  "cbf_emplace_back x b = Inr (i, b') \<Longrightarrow> cbf_capacity b' = cbf_capacity b"
  by (auto simp: cbf_emplace_back_def Let_def rbind_eq_Inr_iff write_cell_def cbf_capacity_def
      split: option.splits if_splits)

interpretation cbf: bounded_sequence cbf_list cbf_ok cbf_room cbf_emplace_back cbf_pop_back cbf_size
  cbf_at "\<lambda>b. cbf_capacity b - 1"
proof (unfold_locales, goal_cases)
  case (1 s x)
  then show ?case using cbf_emplace_back_room [of s x] by blast
next
  case (2 s)
  then show ?case using cb_pop_back_list(1) [of "cbf_capacity s" s]
    by (simp add: cbf_ok_def) (simp add: cbf_pop_back_def)
next
  case (3 s)
  then show ?case using cb_pop_back_list(2) [of "cbf_capacity s" s]
    by (simp add: cbf_ok_def cbf_list_def) (simp add: cbf_pop_back_def)
next
  case (4 s)
  then show ?case by (simp add: cbf_list_def cbf_size_def)
next
  case (5 s i)
  then show ?case by (simp add: cbf_list_def cbf_at_def cbf_ok_def cb_at_list)
next
  case (6 s)
  then show ?case by (simp add: cbf_list_def cbf_room_def cbf_size_def less_diff_conv)
next
  case (7 s x i s')
  then show ?case by (simp add: cbf_emplace_back_capacity)
next
  case (8 s x)
  then show ?case by (simp add: cbf_emplace_back_full)
qed

interpretation cbfd: deque cbf_list cbf_ok cbf_room cbf_emplace_back cbf_pop_back cbf_size cbf_at
  cbf_emplace_front cbf_pop_front cb_front
proof (unfold_locales, goal_cases)
  case (1 s x)
  then show ?case by (rule cbf_emplace_front_room)
next
  case (2 s)
  then show ?case using cb_pop_front_list(1) [of "cbf_capacity s" s]
    by (simp add: cbf_ok_def) (simp add: cbf_pop_front_def)
next
  case (3 s)
  then show ?case using cb_pop_front_list(2) [of "cbf_capacity s" s]
    by (simp add: cbf_ok_def cbf_list_def) (simp add: cbf_pop_front_def)
next
  case (4 s)
  then show ?case by (simp add: cbf_ok_def cbf_list_def cb_front_list)
qed

text \<open>The move constructor hands the whole contents over and leaves an empty buffer behind.\<close>

lemma cbf_move_construct_ok:
  assumes "cbf_ok b" "cbf_move_construct b = (new, old)"
  shows "cbf_ok new \<and> cbf_list new = cbf_list b \<and> cbf_ok old \<and> cbf_list old = []"
proof -
  let ?cap = "cbf_capacity b"
  let ?walk = "cb_walk ?cap (cb_first b) (cb_last b)"
  have ok: "cb_ok ?cap b" using assms(1) by (simp add: cbf_ok_def)
  have walk: "?walk = map (\<lambda>i. (cb_first b + i) mod ?cap) [0..<cb_size ?cap b]"
    using cb_walk_ok [OF ok] by (simp add: cb_begin_def cb_end_def)
  have new: "cb_first new = cb_first b" "cb_last new = cb_last b" "length (cb_cells new) = ?cap"
    "\<And>k. k < ?cap \<Longrightarrow> cb_cells new ! k = (if k \<in> set ?walk then cb_cells b ! k else None)"
    using assms(2) by (auto simp: cbf_move_construct_def Let_def nth_fold_update)
  have size: "cb_size ?cap new = cb_size ?cap b" by (simp add: cb_size_def new)
  have cell: "cb_cells new ! ((cb_first b + i) mod ?cap) = cb_cells b ! ((cb_first b + i) mod ?cap)"
    if "i < cb_size ?cap b" for i
    using that cbf_ok_positive [OF assms(1)] by (auto simp: new(4) walk)
  have "cb_ok ?cap new" "cb_list ?cap new = cb_list ?cap b"
    using ok size cell by (auto simp: cb_ok_def cb_list_def new)
  moreover have "cbf_capacity new = ?cap" "cbf_capacity old = ?cap"
    using new(3) assms(2) by (auto simp: cbf_capacity_def cbf_move_construct_def)
  moreover have "cb_ok ?cap old" "cb_list ?cap old = []"
    using ok assms(2) by (auto simp: cb_ok_def cbf_move_construct_def cb_size_def cb_list_def)
  ultimately show ?thesis by (simp add: cbf_ok_def cbf_list_def)
qed

section \<open>GrowingCircularBuffer as a deque\<close>

definition gcb_ok :: "'a gcb \<Rightarrow> bool" where
  "gcb_ok b \<longleftrightarrow>
     (case gcb_buffer b of
        Null \<Rightarrow> gcb_capacity b = 0 \<and> cb_first b = 0 \<and> cb_last b = 0
      | Live \<Rightarrow> cb_ok (gcb_capacity b) b \<and> 4 \<le> gcb_capacity b
      | Freed \<Rightarrow> False)"

definition gcb_list :: "'a gcb \<Rightarrow> 'a list" where
  "gcb_list b = cb_list (gcb_capacity b) b"

definition gcb_size :: "'a gcb \<Rightarrow> nat" where
  "gcb_size b = cb_size (gcb_capacity b) b"

definition gcb_at :: "nat \<Rightarrow> 'a gcb \<Rightarrow> 'a res" where
  "gcb_at i b = cb_at (gcb_capacity b) i b"

text \<open>When a push at the back keeps every element: no growth, or nothing popped from the front.\<close>

definition gcb_room :: "'a gcb \<Rightarrow> bool" where
  "gcb_room b \<longleftrightarrow> gcb_size b + 1 < gcb_capacity b \<or> cb_first b = 0"

lemma gcb_new_ok: "gcb_ok gcb_new" "gcb_list gcb_new = []" "gcb_room gcb_new"
  by (auto simp: gcb_ok_def gcb_new_def gcb_list_def cb_list_def cb_size_def gcb_room_def)

text \<open>\<open>reserve\<close> keeps the contents and moves them to the start of the buffer.\<close>

lemma cb_rebased:
  assumes cells: "cb_cells b' = map Some xs @ replicate (cap - length xs) None"
    and "cb_first b' = 0" "cb_last b' = length xs" "length xs < cap"
  shows "cb_ok cap b'" "cb_list cap b' = xs"
proof -
  have n: "cb_size cap b' = length xs"
    using assms by (simp add: cb_size_def)
  then show "cb_ok cap b'"
    using assms by (auto simp: cb_ok_def nth_append)
  show "cb_list cap b' = xs"
    using n assms by (intro nth_equalityI) (auto simp: cb_list_def nth_append)
qed

lemma gcb_reserve_ok:
  assumes ok: "gcb_ok b" and n: "gcb_size b < n"
  shows "\<exists>b'. gcb_reserve n b = Inr b' \<and> gcb_ok b' \<and> gcb_list b' = gcb_list b \<and>
    gcb_capacity b' = max 4 n \<and> cb_first b' = 0 \<and> cb_last b' = gcb_size b \<and> gcb_buffer b' = Live"
proof (cases "gcb_buffer b")
  case Null
  then have "gcb_list b = []" "gcb_size b = 0"
    using ok by (auto simp: gcb_ok_def gcb_list_def gcb_size_def cb_list_def cb_size_def)
  with Null n show ?thesis
    by (auto simp: gcb_reserve_def Let_def gcb_ok_def gcb_list_def gcb_size_def cb_ok_def
        cb_list_def cb_size_def)
next
  case Live
  then have okb: "cb_ok (gcb_capacity b) b" using ok by (simp add: gcb_ok_def)
  define cells where "cells = map Some (gcb_list b) @ replicate (max 4 n - length (gcb_list b)) None"
  define b' where "b' = b\<lparr>cb_cells := cells, cb_first := 0, cb_last := gcb_size b,
    gcb_capacity := max 4 n, gcb_buffer := Live\<rparr>"
  have len: "length (gcb_list b) = gcb_size b" by (simp add: gcb_list_def gcb_size_def)
  have "gcb_reserve n b = Inr b'"
    using Live n len cb_visit [OF okb]
    by (simp add: gcb_reserve_def b'_def cells_def gcb_list_def gcb_size_def Let_def max_def)
  moreover have "cb_ok (max 4 n) b'" "cb_list (max 4 n) b' = gcb_list b"
    using cb_rebased [of b' "gcb_list b" "max 4 n"] n len by (auto simp: b'_def cells_def)
  ultimately show ?thesis
    by (auto simp: b'_def gcb_ok_def gcb_list_def)
next
  case Freed
  with ok show ?thesis by (simp add: gcb_ok_def)
qed

text \<open>After \<open>get_new_last\<close> and \<open>get_new_first\<close> have made room there is room.\<close>

lemma gcb_make_room_ok:
  assumes ok: "gcb_ok b"
  shows "\<exists>b'. gcb_make_room b = Inr b' \<and> gcb_ok b' \<and> gcb_list b' = gcb_list b \<and>
    gcb_size b' + 1 < gcb_capacity b' \<and> gcb_buffer b' = Live \<and>
    (cb_last b' = cb_last b \<or> cb_first b \<noteq> 0)"
proof (cases "gcb_size b + 1 \<ge> gcb_capacity b")
  case False
  then have "gcb_buffer b = Live" using ok by (auto simp: gcb_ok_def split: buffer_ptr.splits)
  with False ok show ?thesis by (simp add: gcb_make_room_def gcb_size_def)
next
  case True
  have last0: "cb_last b = gcb_size b" if "cb_first b = 0"
    using that by (simp add: gcb_size_def cb_size_def)
  have bound: "gcb_size b < max 4 (gcb_capacity b * 2)" "gcb_size b + 1 < max 4 (gcb_capacity b * 2)"
    using ok cb_size_range(1) [of b "gcb_capacity b"]
    by (auto simp: gcb_ok_def gcb_size_def cb_ok_def cb_size_def split: buffer_ptr.splits)
  have max4: "gcb_reserve (gcb_capacity b * 2) b = gcb_reserve (max 4 (gcb_capacity b * 2)) b"
    by (simp add: gcb_reserve_def max_def)
  from gcb_reserve_ok [OF ok bound(1)] obtain b' where b':
    "gcb_reserve (gcb_capacity b * 2) b = Inr b'" "gcb_ok b'" "gcb_list b' = gcb_list b"
    "gcb_capacity b' = max 4 (gcb_capacity b * 2)" "cb_last b' = gcb_size b" "gcb_buffer b' = Live"
    unfolding max4 by auto
  have "gcb_size b' = gcb_size b"
    using arg_cong [OF b'(3), of length] by (simp add: gcb_list_def gcb_size_def)
  with True b' bound last0 show ?thesis
    by (auto simp: gcb_make_room_def gcb_grow_def gcb_size_def)
qed

lemma gcb_emplace_front_ok:
  assumes ok: "gcb_ok b"
  shows "\<exists>i b'. gcb_emplace_front x b = Inr (i, b') \<and> gcb_ok b' \<and> gcb_list b' = x # gcb_list b"
proof -
  from gcb_make_room_ok [OF ok] obtain c where c: "gcb_make_room b = Inr c" "gcb_ok c"
    "gcb_list c = gcb_list b" "gcb_size c + 1 < gcb_capacity c" "gcb_buffer c = Live" by blast
  let ?cap = "gcb_capacity c"
  let ?nf = "(cb_first c + ?cap - 1) mod ?cap"
  let ?c = "c\<lparr>cb_cells := (cb_cells c)[?nf := Some x], cb_first := ?nf\<rparr>"
  have okc: "cb_ok ?cap c" and nf: "?nf < length (cb_cells c)"
    using c(2,4,5) by (auto simp: gcb_ok_def cb_ok_def)
  have "gcb_emplace_front x b = Inr (?nf, ?c)"
    using nf c by (simp add: gcb_emplace_front_def gcb_get_new_first_def)
  moreover have "cb_ok ?cap ?c" "cb_list ?cap ?c = x # gcb_list b"
    using cb_prepend [of ?cap c ?c x] okc c by (auto simp: gcb_list_def gcb_size_def)
  ultimately show ?thesis
    using c(2,5) by (auto simp: gcb_ok_def gcb_list_def)
qed

lemma gcb_emplace_back_ok:
  assumes ok: "gcb_ok b" and room: "gcb_room b"
  shows "\<exists>i b'. gcb_emplace_back x b = Inr (i, b') \<and> gcb_ok b' \<and> gcb_list b' = gcb_list b @ [x]"
proof -
  from gcb_make_room_ok [OF ok] obtain c where c: "gcb_make_room b = Inr c" "gcb_ok c"
    "gcb_list c = gcb_list b" "gcb_size c + 1 < gcb_capacity c" "gcb_buffer c = Live"
    "cb_last c = cb_last b \<or> cb_first b \<noteq> 0" by blast
  have last: "cb_last c = cb_last b"
  proof (cases "cb_first b = 0")
    case False
    then have "gcb_make_room b = Inr b"
      using room by (simp add: gcb_make_room_def gcb_room_def gcb_size_def)
    with c(1) show ?thesis by simp
  qed (use c(6) in auto)
  let ?cap = "gcb_capacity c"
  let ?c = "c\<lparr>cb_cells := (cb_cells c)[cb_last b := Some x], cb_last := (cb_last c + 1) mod ?cap\<rparr>"
  have okc: "cb_ok ?cap c" and nl: "cb_last b < length (cb_cells c)"
    using c(2,4,5) last by (auto simp: gcb_ok_def cb_ok_def)
  have "gcb_emplace_back x b = Inr (cb_last b, ?c)"
    using nl c by (simp add: gcb_emplace_back_def gcb_get_new_last_def Let_def)
  moreover have "cb_ok ?cap ?c" "cb_list ?cap ?c = gcb_list b @ [x]"
    using cb_append [of ?cap c ?c x] okc c last by (auto simp: gcb_list_def gcb_size_def)
  ultimately show ?thesis
    using c(2,5) by (auto simp: gcb_ok_def gcb_list_def)
qed

lemma gcb_pop_fields [simp]:
  "gcb_capacity (cb_pop_back k b) = gcb_capacity b" "gcb_capacity (cb_pop_front k b) = gcb_capacity b"
  "gcb_buffer (cb_pop_back k b) = gcb_buffer b" "gcb_buffer (cb_pop_front k b) = gcb_buffer b"
  by (auto simp: cb_pop_back_def cb_pop_front_def Let_def)

lemma gcb_pop_ok:
  assumes "gcb_ok b"
  shows "gcb_ok (gcb_pop_back b)" "gcb_list (gcb_pop_back b) = butlast (gcb_list b)"
    "gcb_ok (gcb_pop_front b)" "gcb_list (gcb_pop_front b) = tl (gcb_list b)"
proof -
  have pop: "gcb_ok (gcb_pop_back b) \<and> gcb_list (gcb_pop_back b) = butlast (gcb_list b) \<and>
    gcb_ok (gcb_pop_front b) \<and> gcb_list (gcb_pop_front b) = tl (gcb_list b)"
  proof (cases "gcb_buffer b")
    case Null
    with assms show ?thesis
      by (auto simp: gcb_ok_def gcb_pop_back_def gcb_pop_front_def cb_pop_back_def cb_pop_front_def
          gcb_list_def cb_list_def cb_size_def)
  next
    case Live
    with assms cb_pop_back_list [of "gcb_capacity b" b] cb_pop_front_list [of "gcb_capacity b" b]
    show ?thesis by (auto simp: gcb_ok_def gcb_pop_back_def gcb_pop_front_def gcb_list_def)
  next
    case Freed
    with assms show ?thesis by (simp add: gcb_ok_def)
  qed
  then show "gcb_ok (gcb_pop_back b)" "gcb_list (gcb_pop_back b) = butlast (gcb_list b)"
    "gcb_ok (gcb_pop_front b)" "gcb_list (gcb_pop_front b) = tl (gcb_list b)" by auto
qed

lemma gcb_list_live:
  "gcb_ok b \<Longrightarrow> gcb_list b \<noteq> [] \<Longrightarrow> cb_ok (gcb_capacity b) b"
  by (auto simp: gcb_ok_def gcb_list_def cb_list_def cb_size_def split: buffer_ptr.splits)

interpretation gcb: sequence gcb_list gcb_ok gcb_room gcb_emplace_back gcb_pop_back gcb_size gcb_at
proof (unfold_locales, goal_cases)
  case (1 s x)
  then show ?case by (rule gcb_emplace_back_ok)
next
  case (5 s i)
  then have "cb_ok (gcb_capacity s) s" by (intro gcb_list_live) auto
  with 5 show ?case by (simp add: gcb_list_def gcb_at_def cb_at_list)
next
  case (4 s)
  then show ?case by (simp add: gcb_list_def gcb_size_def)
qed (auto simp: gcb_pop_ok)

interpretation gcbd: deque gcb_list gcb_ok gcb_room gcb_emplace_back gcb_pop_back gcb_size gcb_at
  gcb_emplace_front gcb_pop_front cb_front
proof (unfold_locales, goal_cases)
  case (1 s x)
  then show ?case by (intro gcb_emplace_front_ok)
next
  case (4 s)
  then have "cb_ok (gcb_capacity s) s" by (intro gcb_list_live) auto
  with 4 show ?case by (simp add: gcb_list_def cb_front_list)
qed (auto simp: gcb_pop_ok)

section \<open>Properties\<close>


text \<open>
  A \<open>GrowingCircularBuffer\<close> accepts every \<open>push_front\<close>: whatever its contents, capacity and
  offset, the new element becomes the first one, all others stay in order, and popping the whole
  buffer from the front then gives it first.
\<close>

theorem gcb_push_front_grows:
  assumes "gcb_ok b"
  shows "\<exists>i b'. gcb_emplace_front x b = Inr (i, b') \<and> gcb_list b' = x # gcb_list b \<and>
    pop_all (gcb_size b') cb_front gcb_pop_front b' = Inr (x # gcb_list b)"
proof -
  from gcb_emplace_front_ok [OF assms] obtain i b' where
    b': "gcb_emplace_front x b = Inr (i, b')" "gcb_ok b'" "gcb_list b' = x # gcb_list b" by blast
  from gcbd.pop_all_fifo [OF b'(2)] gcb.len_contents [OF b'(2)] b' show ?thesis by auto
qed

theorem gcb_push_front_grows_witness:
  "\<exists>i b'. gcb_emplace_front (7 :: nat) gcb_new = Inr (i, b') \<and> gcb_list b' = [7] \<and>
    pop_all (gcb_size b') cb_front gcb_pop_front b' = Inr [7]"
  using gcb_push_front_grows [OF gcb_new_ok(1), of 7] by (simp add: gcb_new_ok(2))

section \<open>Defects\<close>

text \<open>
  \<open>get_new_first\<close> of the constant buffer tests the new index against \<open>m_first\<close>, not \<open>m_last\<close>: a
  push at the front of a full buffer succeeds and leaves a buffer that reads as empty.
\<close>

lemma cbf_push_front_empties:
  "rbind (push_all cbf_emplace_back [1, 2 :: nat] (cbf_new 3)) (\<lambda>b.
   rbind (cbf_emplace_front 3 b) (\<lambda>(i, b'). Inr (cbf_list b, i, cb_is_empty b', cbf_list b')))
   = Inr ([1, 2], 2, True, [])"
  by code_simp

text \<open>\<open>back()\<close> reads the slot after the last element.\<close>

lemma cb_back_past_end:
  "rbind (cbf_emplace_back (1 :: nat) (cbf_new 3)) (\<lambda>(i, b). cb_back b) = Inl Uninitialized"
  by code_simp

text \<open>
  \<open>emplace_back\<close> of the growing buffer keeps the old index over a reallocation. After a pop at
  the front the element 5 is written to slot 0, over the first element, and the slot counted as
  its own stays raw.
\<close>

lemma gcb_push_back_stale:
  "rbind (push_all gcb_emplace_back [1, 2, 3 :: nat] gcb_new) (\<lambda>a.
   rbind (push_all gcb_emplace_back [4] (gcb_pop_front a)) (\<lambda>b.
   rbind (gcb_emplace_back 5 b) (\<lambda>(i, c). Inr (gcb_list b, i, cb_cells c ! 0, cb_cells c ! 3, gcb_size c))))
   = Inr ([2, 3, 4], 0, Some 5, None, 4)"
  by code_simp

text \<open>\<open>clear\<close> frees the buffer and keeps the pointer: the next push frees it again.\<close>

lemma gcb_clear_double_free:
  "rbind (gcb_emplace_back (1 :: nat) gcb_new) (\<lambda>(i, b).
   rbind (gcb_clear b) (gcb_emplace_back 2)) = Inl Double_Free"
  by code_simp

end
