(* ===== verification/Serialize.thy ===== *)
theory Serialize
  imports Prelude
begin

text \<open>
  \<open>src/Util/Serialize.h\<close> and \<open>ToData\<close> of \<open>src/Util/Util.h\<close>: the byte buffers nodes are saved in.

  \<open>to_data n v\<close> is the object representation of an unsigned integer of \<open>n\<close> bytes on the
  little-endian targets the game is built for. \<open>Read\<close> reinterprets the bytes it finds; a read that
  starts behind the buffer is the exception of \<open>substr\<close> (\<open>Crash\<close>), one that ends behind it reads
  memory outside the view.
\<close>

type_synonym byte = "8 word"

record reader =
  rd_buffer :: "byte list"
  rd_pos :: nat

record writer =
  wr_buffer :: "byte list"
  wr_pos :: nat

definition to_data :: "nat \<Rightarrow> nat \<Rightarrow> byte list" where
  "to_data n v = map (\<lambda>i. word_of_nat (v div 256 ^ i)) [0..<n]"

fun from_data :: "byte list \<Rightarrow> nat" where
  "from_data [] = 0"
| "from_data (b # bs) = unat b + 256 * from_data bs"

definition new_reader :: "byte list \<Rightarrow> reader" where
  "new_reader bs = \<lparr>rd_buffer = bs, rd_pos = 0\<rparr>"

definition new_writer :: "byte list \<Rightarrow> writer" where
  "new_writer bs = \<lparr>wr_buffer = bs, wr_pos = 0\<rparr>"

definition read_object :: "nat \<Rightarrow> reader \<Rightarrow> (nat \<times> reader) res" where
  "read_object n r =
     (if rd_pos r > length (rd_buffer r) then Inl Crash
      else
        let data = take n (drop (rd_pos r) (rd_buffer r))
        in if length data < n then Inl Out_Of_Bounds
           else Inr (from_data data, r\<lparr>rd_pos := rd_pos r + n\<rparr>))"

definition write_object :: "nat \<Rightarrow> nat \<Rightarrow> writer \<Rightarrow> writer" where
  "write_object n v w = w\<lparr>wr_buffer := wr_buffer w @ to_data n v, wr_pos := wr_pos w + n\<rparr>"

text \<open>A record is written field by field; a field is its size and its value.\<close>

definition write_fields :: "(nat \<times> nat) list \<Rightarrow> writer \<Rightarrow> writer" where
  "write_fields fs w = fold (\<lambda>(n, v). write_object n v) fs w"

fun read_fields :: "nat list \<Rightarrow> reader \<Rightarrow> (nat list \<times> reader) res" where
  "read_fields [] r = Inr ([], r)"
| "read_fields (n # ns) r =
     rbind (read_object n r) (\<lambda>(v, r'). rbind (read_fields ns r') (\<lambda>(vs, r''). Inr (v # vs, r'')))"

lemma length_to_data [simp]: "length (to_data n v) = n"
  by (simp add: to_data_def)

lemma to_data_Suc: "to_data (Suc n) v = word_of_nat v # to_data n (v div 256)"
  by (simp add: to_data_def upt_conv_Cons map_Suc_upt [symmetric] div_mult2_eq [symmetric] del: upt_Suc)

lemma from_to_data: "v < 256 ^ n \<Longrightarrow> from_data (to_data n v) = v"
proof (induction n arbitrary: v)
  case 0
  then show ?case by (simp add: to_data_def)
next
  case (Suc n)
  have "v div 256 < 256 ^ n"
    using Suc.prems by (simp add: less_mult_imp_div_less mult.commute)
  then show ?case
    by (simp add: to_data_Suc Suc.IH unat_of_nat take_bit_eq_mod)
qed

lemma read_object_prefix:
  assumes "rd_buffer r = xs @ to_data n v @ ys" "rd_pos r = length xs" "v < 256 ^ n"
  shows "read_object n r = Inr (v, r\<lparr>rd_pos := length xs + n\<rparr>)"
  using assms by (simp add: read_object_def from_to_data)

lemma wr_buffer_fields:
  "wr_buffer (write_fields fs w) = wr_buffer w @ concat (map (\<lambda>(n, v). to_data n v) fs)"
  by (induction fs arbitrary: w) (auto simp: write_fields_def write_object_def)

lemma wr_pos_fields: "wr_pos (write_fields fs w) = wr_pos w + sum_list (map fst fs)"
  by (induction fs arbitrary: w) (auto simp: write_fields_def write_object_def)

lemma read_fields_prefix:
  assumes "\<forall>(n, v) \<in> set fs. v < 256 ^ n"
    and "rd_buffer r = xs @ concat (map (\<lambda>(n, v). to_data n v) fs) @ ys" "rd_pos r = length xs"
  shows "read_fields (map fst fs) r = Inr (map snd fs, r\<lparr>rd_pos := length xs + sum_list (map fst fs)\<rparr>)"
  using assms
proof (induction fs arbitrary: r xs)
  case Nil
  then show ?case by simp
next
  case (Cons f fs)
  obtain n v where f: "f = (n, v)" by force
  let ?r = "r\<lparr>rd_pos := length xs + n\<rparr>"
  have read: "read_object n r = Inr (v, ?r)"
    using Cons.prems f by (intro read_object_prefix) auto
  have rest: "read_fields (map fst fs) ?r
      = Inr (map snd fs, ?r\<lparr>rd_pos := length (xs @ to_data n v) + sum_list (map fst fs)\<rparr>)"
    using Cons.prems f by (intro Cons.IH) auto
  show ?case
    unfolding f using read rest by (simp add: add.assoc)
qed

section \<open>Properties\<close>

text \<open>
  What \<open>Writer\<close> appends to a buffer, \<open>Reader\<close> reads back: for fields of any sizes and values
  that fit them, reading the same sizes from the position where the writer began gives the values
  and leaves the reader where the writer stopped, whatever stands behind.
\<close>

theorem fields_round_trip:
  assumes "\<forall>(n, v) \<in> set fs. v < 256 ^ n"
  shows "read_fields (map fst fs)
      \<lparr>rd_buffer = wr_buffer (write_fields fs (new_writer xs)) @ ys, rd_pos = length xs\<rparr>
    = Inr (map snd fs,
        \<lparr>rd_buffer = wr_buffer (write_fields fs (new_writer xs)) @ ys,
         rd_pos = length xs + wr_pos (write_fields fs (new_writer xs))\<rparr>)"
  using assms
  by (subst read_fields_prefix [where xs = xs and ys = ys])
    (auto simp: wr_buffer_fields wr_pos_fields new_writer_def)

theorem fields_round_trip_witness:
  "read_fields [4, 1] \<lparr>rd_buffer = wr_buffer (write_fields [(4, 70000), (1, 255)] (new_writer [])) @ [9],
     rd_pos = 0\<rparr> = Inr ([70000, 255],
     \<lparr>rd_buffer = wr_buffer (write_fields [(4, 70000), (1, 255)] (new_writer [])) @ [9], rd_pos = 5\<rparr>)"
  using fields_round_trip [of "[(4, 70000), (1, 255)]" "[]" "[9]"] by (simp add: wr_pos_fields new_writer_def)

text \<open>A read at the end of a buffer is not refused: it takes bytes that are not the buffer's.\<close>

lemma read_past_end:
  "read_object 4 (new_reader [1, 2]) = Inl Out_Of_Bounds"
  by code_simp

end
