(* ===== verification/SpatialWorld.thy ===== *)
theory SpatialWorld
  imports Serialize "HOL-Library.AList"
begin

text \<open>
  \<open>src/Spatial3D/SpatialWorld.h\<close>, \<open>SpatialWorld.cpp\<close> and \<open>SpatialTraverse.h\<close>: a world of scales,
  each a hash map from coordinates to nodes, with neighbour, parent and child pointers between the
  nodes.

  Nodes live in a heap \<open>w_heap\<close>, a \<open>NodePtr\<close> is an address, a \<open>ScalePtr\<close> its index in the world.
  A node map is an association list in the map's iteration order, which no theorem depends on.
  Coordinates are integers, wrapped to 32 bits where the code adds or shifts left. Times are
  integers. \<open>'d\<close> is what the other modules add to a node, \<open>'db\<close> the state of the key value store
  (a vendored library): its \<open>Get\<close> and \<open>Set\<close> are arguments of the two I/O tasks.
  The thread checks of the debug build are left out.
\<close>

section \<open>Coordinates\<close>

datatype vec3i = Vec3i (vx: int) (vy: int) (vz: int)
type_synonym ptr = nat

definition wrap32 :: "int \<Rightarrow> int" where
  "wrap32 x = signed_take_bit 31 x"

fun vec_add :: "vec3i \<Rightarrow> vec3i \<Rightarrow> vec3i" where
  "vec_add (Vec3i x y z) (Vec3i a b c) = Vec3i (wrap32 (x + a)) (wrap32 (y + b)) (wrap32 (z + c))"

fun vec_shr :: "vec3i \<Rightarrow> nat \<Rightarrow> vec3i" where
  "vec_shr (Vec3i x y z) k = Vec3i (drop_bit k x) (drop_bit k y) (drop_bit k z)"

fun vec_shl :: "vec3i \<Rightarrow> nat \<Rightarrow> vec3i" where
  "vec_shl (Vec3i x y z) k =
     Vec3i (wrap32 (push_bit k x)) (wrap32 (push_bit k y)) (wrap32 (push_bit k z))"

definition node_neighbour_offsets :: "vec3i list" where
  "node_neighbour_offsets =
     [Vec3i (-1) 0 0, Vec3i 0 (-1) 0, Vec3i 0 0 (-1), Vec3i 0 0 1, Vec3i 0 1 0, Vec3i 1 0 0]"

definition node_child_offsets :: "vec3i list" where
  "node_child_offsets =
     [Vec3i 0 0 0, Vec3i 1 0 0, Vec3i 0 1 0, Vec3i 1 1 0, Vec3i 0 0 1, Vec3i 1 0 1, Vec3i 0 1 1, Vec3i 1 1 1]"

fun GetNodeParentIndex :: "vec3i \<Rightarrow> nat" where
  "GetNodeParentIndex (Vec3i x y z) = nat (and x 1 + and y 1 * 2 + and z 1 * 4)"

text \<open>
  The loops of \<open>ForEachCoordInRegion\<close> count in the components of \<open>start\<close> itself, so each loop also
  returns where it leaves them.
\<close>

function region_loop_z :: "int \<Rightarrow> int \<Rightarrow> int \<Rightarrow> int \<Rightarrow> vec3i list \<times> int" where
  "region_loop_z x y z ez =
     (if z < ez
      then let (visited, z') = region_loop_z x y (z + 1) ez in (Vec3i x y z # visited, z')
      else ([], z))"
  by pat_completeness auto
termination by (relation "measure (\<lambda>(x, y, z, ez). nat (ez - z))") auto

function region_loop_y :: "int \<Rightarrow> int \<Rightarrow> int \<Rightarrow> int \<Rightarrow> int \<Rightarrow> vec3i list \<times> int \<times> int" where
  "region_loop_y x y z ey ez =
     (if y < ey
      then let (visited, z') = region_loop_z x y z ez;
               (rest, y'', z'') = region_loop_y x (y + 1) z' ey ez
           in (visited @ rest, y'', z'')
      else ([], y, z))"
  by pat_completeness auto
termination by (relation "measure (\<lambda>(x, y, z, ey, ez). nat (ey - y))") auto

function region_loop_x :: "int \<Rightarrow> int \<Rightarrow> int \<Rightarrow> int \<Rightarrow> int \<Rightarrow> int \<Rightarrow> vec3i list" where
  "region_loop_x x y z ex ey ez =
     (if x < ex
      then let (visited, y', z') = region_loop_y x y z ey ez
           in visited @ region_loop_x (x + 1) y' z' ex ey ez
      else [])"
  by pat_completeness auto
termination by (relation "measure (\<lambda>(x, y, z, ex, ey, ez). nat (ex - x))") auto

declare region_loop_z.simps [simp del] region_loop_y.simps [simp del] region_loop_x.simps [simp del]

fun ForEachCoordInRegion :: "vec3i \<Rightarrow> vec3i \<Rightarrow> vec3i list" where
  "ForEachCoordInRegion (Vec3i sx sy sz) (Vec3i ex ey ez) =
     region_loop_x (min sx ex) (min sy ey) (min sz ez) (max sx ex) (max sy ey) (max sz ez)"

text \<open>
  \<open>ForEachCoordInSphere\<close> with its floating point results as arguments: the two corners and the test
  whether a node lies in the sphere.
\<close>

fun ForEachCoordInSphere :: "vec3i \<Rightarrow> vec3i \<Rightarrow> (vec3i \<Rightarrow> bool) \<Rightarrow> vec3i list" where
  "ForEachCoordInSphere (Vec3i sx sy sz) (Vec3i ex ey ez) inside =
     filter inside
       (concat (map (\<lambda>x. concat (map (\<lambda>y. map (Vec3i x y) [sz..ez - 1]) [sy..ey - 1])) [sx..ex - 1]))"

section \<open>State\<close>

datatype TaskState = Idle | ReadInProgress | WriteInProgress | ReadDone | WriteDone

datatype NodeState = Invalid | Loading | Loaded | Saving | Unloading

datatype db_status = SUCCESS | NOT_FOUND_ERROR | OTHER_ERROR

record IOTask =
  iot_coord :: "vec3i \<times> nat"
  iot_data :: "byte list"
  iot_status :: db_status
  iot_finished :: bool

definition k_node_no_parent :: nat where
  "k_node_no_parent = 255"

definition k_max_world_scale :: nat where
  "k_max_world_scale = 16"

record 'd Node =
  n_position :: vec3i
  n_scale_index :: nat
  n_parent_index :: nat
  n_children_mask :: "8 word"
  n_neighbour_mask :: "8 word"
  n_parent :: "ptr option"
  n_children :: "nat \<Rightarrow> ptr option"
  n_neighbours :: "nat \<Rightarrow> ptr option"
  n_entities :: "nat list"
  n_state :: NodeState
  n_last_update_time :: int
  n_task_state :: TaskState
  n_task :: "IOTask option"
  n_data :: 'd

record Scale =
  sc_index :: nat
  sc_nodes :: "(vec3i \<times> ptr) list"
  sc_loading_nodes :: "vec3i list"
  sc_unloading_nodes :: "vec3i list"

text \<open>\<open>td_local\<close> and \<open>td_initial\<close> stand for the node type: is \<open>LocalNode\<close> in it, and the fresh extra data.\<close>

record 'd TypeData =
  td_max_scale :: nat
  td_node_size :: nat
  td_node_keepalive :: int
  td_local :: bool
  td_initial :: 'd
  td_serialize_callbacks :: "('d \<Rightarrow> writer \<Rightarrow> writer) list"
  td_deserialize_callbacks :: "('d \<Rightarrow> reader \<Rightarrow> ('d \<times> reader) res) list"
  td_generate_callbacks :: "(vec3i \<times> nat \<Rightarrow> 'd \<Rightarrow> 'd) list"

datatype io_kind = NodeRead | NodeWrite

record ('d, 'db) World =
  w_type :: "'d TypeData"
  w_max_scale :: nat
  w_node_size :: nat
  w_unloading :: bool
  w_node_keepalive :: int
  w_scales :: "Scale list"
  w_database :: 'db
  w_heap :: "ptr \<Rightarrow> 'd Node option"
  w_next :: ptr
  w_pool :: "(ptr \<times> io_kind) list"

definition new_node :: "vec3i \<Rightarrow> nat \<Rightarrow> int \<Rightarrow> 'd \<Rightarrow> 'd Node" where
  "new_node pos s now d =
     \<lparr>n_position = pos, n_scale_index = s, n_parent_index = k_node_no_parent, n_children_mask = 0,
      n_neighbour_mask = 0, n_parent = None, n_children = (\<lambda>_. None), n_neighbours = (\<lambda>_. None),
      n_entities = [], n_state = Loading, n_last_update_time = now, n_task_state = Idle,
      n_task = None, n_data = d\<rparr>"

definition deref :: "('d, 'db) World \<Rightarrow> ptr \<Rightarrow> 'd Node res" where
  "deref w p = (case w_heap w p of None \<Rightarrow> Inl Dangling | Some n \<Rightarrow> Inr n)"

definition modify_node ::
    "ptr \<Rightarrow> ('d Node \<Rightarrow> 'd Node) \<Rightarrow> ('d, 'db) World \<Rightarrow> ('d, 'db) World res" where
  "modify_node p f w = rbind (deref w p) (\<lambda>n. Inr (w\<lparr>w_heap := (w_heap w)(p := Some (f n))\<rparr>))"

definition scale_at :: "('d, 'db) World \<Rightarrow> nat \<Rightarrow> Scale res" where
  "scale_at w s = (if s < length (w_scales w) then Inr (w_scales w ! s) else Inl Dangling)"

definition modify_scale ::
    "nat \<Rightarrow> (Scale \<Rightarrow> Scale) \<Rightarrow> ('d, 'db) World \<Rightarrow> ('d, 'db) World res" where
  "modify_scale s f w =
     rbind (scale_at w s) (\<lambda>sc. Inr (w\<lparr>w_scales := (w_scales w)[s := f sc]\<rparr>))"

definition GetScale :: "('d, 'db) World \<Rightarrow> nat \<Rightarrow> Scale res" where
  "GetScale w s = (if s < w_max_scale w then scale_at w s else Inl Assertion)"

definition GetNode :: "('d, 'db) World \<Rightarrow> vec3i \<Rightarrow> nat \<Rightarrow> ptr option res" where
  "GetNode w pos s =
     (if s < k_max_world_scale then rbind (GetScale w s) (\<lambda>sc. Inr (map_of (sc_nodes sc) pos))
      else Inl Assertion)"

definition WorldForEachScale :: "('d, 'db) World \<Rightarrow> (nat \<Rightarrow> 's \<Rightarrow> 's res) \<Rightarrow> 's \<Rightarrow> 's res" where
  "WorldForEachScale w callback s0 =
     rbind (assert_that (w_max_scale w > 0)) (\<lambda>_.
       rfold (\<lambda>i s. rbind (GetScale w i) (\<lambda>_. callback i s)) [0..<w_max_scale w] s0)"

section \<open>Links\<close>

definition link_neighbour :: "ptr \<Rightarrow> nat \<Rightarrow> nat \<Rightarrow> ('d, 'db) World \<Rightarrow> ('d, 'db) World res" where
  "link_neighbour p s i w =
     rbind (deref w p) (\<lambda>n.
     rbind (GetScale w s) (\<lambda>sc.
       case map_of (sc_nodes sc) (vec_add (n_position n) (node_neighbour_offsets ! i)) of
         None \<Rightarrow> Inr w
       | Some q \<Rightarrow>
           rbind (modify_node p (\<lambda>n. n\<lparr>n_neighbours := (n_neighbours n)(i := Some q),
                                       n_neighbour_mask := set_bit i (n_neighbour_mask n)\<rparr>) w)
             (modify_node q (\<lambda>m. m\<lparr>n_neighbours := (n_neighbours m)(5 - i := Some p),
                                    n_neighbour_mask := set_bit (5 - i) (n_neighbour_mask m)\<rparr>))))"

definition link_parent :: "ptr \<Rightarrow> nat \<Rightarrow> ('d, 'db) World \<Rightarrow> ('d, 'db) World res" where
  "link_parent p s w =
     rbind (deref w p) (\<lambda>n.
     rbind (GetScale w (s + 1)) (\<lambda>sc.
       case map_of (sc_nodes sc) (vec_shr (n_position n) 1) of
         None \<Rightarrow> Inr w
       | Some q \<Rightarrow>
           let c = GetNodeParentIndex (n_position n)
           in if c < 8
              then rbind (modify_node p (\<lambda>n. n\<lparr>n_parent := Some q, n_parent_index := c\<rparr>) w)
                     (modify_node q (\<lambda>m. m\<lparr>n_children := (n_children m)(c := Some p),
                                            n_children_mask := set_bit c (n_children_mask m)\<rparr>))
              else Inl Assertion))"

definition link_child :: "ptr \<Rightarrow> nat \<Rightarrow> nat \<Rightarrow> ('d, 'db) World \<Rightarrow> ('d, 'db) World res" where
  "link_child p s c w =
     rbind (deref w p) (\<lambda>n.
     rbind (GetScale w (s - 1)) (\<lambda>sc.
       case map_of (sc_nodes sc) (vec_add (vec_shl (n_position n) 1) (node_child_offsets ! c)) of
         None \<Rightarrow> Inr w
       | Some q \<Rightarrow>
           rbind (modify_node p (\<lambda>n. n\<lparr>n_children := (n_children n)(c := Some q),
                                       n_children_mask := set_bit c (n_children_mask n)\<rparr>) w)
             (modify_node q (\<lambda>m. m\<lparr>n_parent := Some p, n_parent_index := c\<rparr>))))"

definition LinkNode :: "ptr \<Rightarrow> nat \<Rightarrow> ('d, 'db) World \<Rightarrow> ('d, 'db) World res" where
  "LinkNode p s w =
     rbind (GetScale w s) (\<lambda>_.
     rbind (rfold (link_neighbour p s) [0..<6] w) (\<lambda>w1.
     rbind (if s + 1 < w_max_scale w1 then link_parent p s w1 else Inr w1) (\<lambda>w2.
       if s > 0 then rfold (link_child p s) [0..<8] w2 else Inr w2)))"

definition unlink_neighbour :: "ptr \<Rightarrow> nat \<Rightarrow> ('d, 'db) World \<Rightarrow> ('d, 'db) World res" where
  "unlink_neighbour p i w =
     rbind (deref w p) (\<lambda>n.
       case n_neighbours n i of
         None \<Rightarrow> Inr w
       | Some q \<Rightarrow>
           modify_node q (\<lambda>m. m\<lparr>n_neighbours := (n_neighbours m)(5 - i := None),
                                 n_neighbour_mask := unset_bit (5 - i) (n_neighbour_mask m)\<rparr>) w)"

definition unlink_parent :: "ptr \<Rightarrow> ('d, 'db) World \<Rightarrow> ('d, 'db) World res" where
  "unlink_parent p w =
     rbind (deref w p) (\<lambda>n.
       case n_parent n of
         None \<Rightarrow> Inr w
       | Some q \<Rightarrow>
           let c = n_parent_index n
           in if c < 8
              then modify_node q (\<lambda>m. m\<lparr>n_children := (n_children m)(c := None),
                                         n_children_mask := unset_bit c (n_children_mask m)\<rparr>) w
              else Inl Out_Of_Bounds)"

definition unlink_child :: "ptr \<Rightarrow> nat \<Rightarrow> ('d, 'db) World \<Rightarrow> ('d, 'db) World res" where
  "unlink_child p c w =
     rbind (deref w p) (\<lambda>n.
       case n_children n c of
         None \<Rightarrow> Inr w
       | Some q \<Rightarrow> modify_node q (\<lambda>m. m\<lparr>n_parent := None, n_parent_index := k_node_no_parent\<rparr>) w)"

definition UnlinkNode :: "ptr \<Rightarrow> nat \<Rightarrow> ('d, 'db) World \<Rightarrow> ('d, 'db) World res" where
  "UnlinkNode p s w =
     rbind (rfold (unlink_neighbour p) [0..<6] w) (\<lambda>w1.
     rbind (if s + 1 < w_max_scale w1 then unlink_parent p w1 else Inr w1) (\<lambda>w2.
       if s > 0 then rfold (unlink_child p) [0..<8] w2 else Inr w2))"

section \<open>Reading and writing nodes\<close>

text \<open>The two tasks as the worker pool runs them.\<close>

definition NodeReadIOTask ::
    "('db \<Rightarrow> vec3i \<times> nat \<Rightarrow> db_status \<times> byte list) \<Rightarrow> ptr \<Rightarrow> ('d, 'db) World \<Rightarrow> ('d, 'db) World res" where
  "NodeReadIOTask db_get p w =
     rbind (deref w p) (\<lambda>n.
       case n_task n of
         None \<Rightarrow> Inl Dangling
       | Some t \<Rightarrow>
           let (st, bytes) = db_get (w_database w) (iot_coord t)
           in modify_node p (\<lambda>n. n\<lparr>n_task :=
                Some (t\<lparr>iot_data := bytes, iot_status := st, iot_finished := True\<rparr>)\<rparr>) w)"

definition NodeWriteIOTask ::
    "('db \<Rightarrow> vec3i \<times> nat \<Rightarrow> byte list \<Rightarrow> db_status \<times> 'db) \<Rightarrow> ptr \<Rightarrow> ('d, 'db) World \<Rightarrow> ('d, 'db) World res" where
  "NodeWriteIOTask db_set p w =
     rbind (deref w p) (\<lambda>n.
       case n_task n of
         None \<Rightarrow> Inl Dangling
       | Some t \<Rightarrow>
           let (st, db) = db_set (w_database w) (iot_coord t) (iot_data t)
           in modify_node p (\<lambda>n. n\<lparr>n_task := Some (t\<lparr>iot_status := st, iot_finished := True\<rparr>)\<rparr>)
                (w\<lparr>w_database := db\<rparr>))"

definition run_pool_task ::
    "('db \<Rightarrow> vec3i \<times> nat \<Rightarrow> db_status \<times> byte list) \<Rightarrow>
     ('db \<Rightarrow> vec3i \<times> nat \<Rightarrow> byte list \<Rightarrow> db_status \<times> 'db) \<Rightarrow> nat \<Rightarrow> ('d, 'db) World \<Rightarrow> ('d, 'db) World res" where
  "run_pool_task db_get db_set k w =
     (if k < length (w_pool w)
      then let w' = w\<lparr>w_pool := take k (w_pool w) @ drop (Suc k) (w_pool w)\<rparr>
           in (case w_pool w ! k of
                 (p, NodeRead) \<Rightarrow> NodeReadIOTask db_get p w'
               | (p, NodeWrite) \<Rightarrow> NodeWriteIOTask db_set p w')
      else Inr w)"

definition new_task :: "'d Node \<Rightarrow> IOTask" where
  "new_task n = \<lparr>iot_coord = (n_position n, n_scale_index n), iot_data = [], iot_status = SUCCESS,
                 iot_finished = False\<rparr>"

definition deserialize_node :: "'d TypeData \<Rightarrow> byte list \<Rightarrow> 'd \<Rightarrow> 'd res" where
  "deserialize_node type bytes d =
     rbind (rfold (\<lambda>callback (d, r). callback d r) (td_deserialize_callbacks type) (d, new_reader bytes))
       (\<lambda>(d, r). Inr d)"

definition generate_node :: "'d TypeData \<Rightarrow> vec3i \<times> nat \<Rightarrow> 'd \<Rightarrow> 'd" where
  "generate_node type coord d = fold (\<lambda>callback. callback coord) (td_generate_callbacks type) d"

definition serialize_node :: "'d TypeData \<Rightarrow> 'd \<Rightarrow> byte list" where
  "serialize_node type d = wr_buffer (fold (\<lambda>callback. callback d) (td_serialize_callbacks type) (new_writer []))"

definition ProgressNodeReadTask :: "ptr \<Rightarrow> ('d, 'db) World \<Rightarrow> (bool \<times> ('d, 'db) World) res" where
  "ProgressNodeReadTask p w =
     rbind (deref w p) (\<lambda>n.
       case n_task_state n of
         Idle \<Rightarrow>
           (case n_task n of
              None \<Rightarrow>
                rbind (modify_node p (\<lambda>n. n\<lparr>n_task := Some (new_task n), n_task_state := ReadInProgress\<rparr>) w)
                  (\<lambda>w'. Inr (False, w'\<lparr>w_pool := w_pool w' @ [(p, NodeRead)]\<rparr>))
            | Some t \<Rightarrow> Inr (False, w))
       | ReadInProgress \<Rightarrow>
           (case n_task n of
              None \<Rightarrow> Inl Null_Pointer
            | Some t \<Rightarrow>
                if iot_finished t
                then rbind
                  (case iot_status t of
                     SUCCESS \<Rightarrow> deserialize_node (w_type w) (iot_data t) (n_data n)
                   | NOT_FOUND_ERROR \<Rightarrow>
                       Inr (generate_node (w_type w) (n_position n, n_scale_index n) (n_data n))
                   | OTHER_ERROR \<Rightarrow> Inl Crash)
                  (\<lambda>d. rbind (modify_node p (\<lambda>n. n\<lparr>n_data := d, n_task_state := ReadDone, n_task := None\<rparr>) w)
                    (\<lambda>w'. Inr (False, w')))
                else Inr (True, w))
       | ReadDone \<Rightarrow> Inr (True, w)
       | _ \<Rightarrow> Inr (False, w))"

definition ProgressNodeWriteTask :: "ptr \<Rightarrow> ('d, 'db) World \<Rightarrow> (bool \<times> ('d, 'db) World) res" where
  "ProgressNodeWriteTask p w =
     rbind (deref w p) (\<lambda>n.
       case n_task_state n of
         Idle \<Rightarrow>
           (case n_task n of
              None \<Rightarrow>
                rbind (modify_node p (\<lambda>n. n\<lparr>n_task :=
                    Some ((new_task n)\<lparr>iot_data := serialize_node (w_type w) (n_data n)\<rparr>),
                    n_task_state := WriteInProgress\<rparr>) w)
                  (\<lambda>w'. Inr (False, w'\<lparr>w_pool := w_pool w' @ [(p, NodeWrite)]\<rparr>))
            | Some t \<Rightarrow> Inr (False, w))
       | WriteInProgress \<Rightarrow>
           (case n_task n of
              None \<Rightarrow> Inl Null_Pointer
            | Some t \<Rightarrow>
                if iot_finished t
                then if iot_status t \<noteq> SUCCESS then Inl Crash
                     else rbind (modify_node p (\<lambda>n. n\<lparr>n_task_state := WriteDone, n_task := None\<rparr>) w)
                            (\<lambda>w'. Inr (True, w'))
                else Inr (False, w))
       | WriteDone \<Rightarrow> Inr (True, w)
       | _ \<Rightarrow> Inr (False, w))"

section \<open>Commands\<close>

text \<open>
  The loop of \<open>ScaleDoNodeCommands\<close>: it returns the commands that stay, in order. A command for a
  coordinate without node would insert a null pointer and use it.
\<close>

fun run_commands ::
    "(ptr \<Rightarrow> ('d, 'db) World \<Rightarrow> (bool \<times> ('d, 'db) World) res) \<Rightarrow> nat \<Rightarrow> vec3i list \<Rightarrow>
     ('d, 'db) World \<Rightarrow> (vec3i list \<times> ('d, 'db) World) res" where
  "run_commands callback s [] w = Inr ([], w)"
| "run_commands callback s (pos # rest) w =
     rbind (scale_at w s) (\<lambda>sc.
       case map_of (sc_nodes sc) pos of
         None \<Rightarrow> Inl Null_Pointer
       | Some p \<Rightarrow>
           rbind (callback p w) (\<lambda>(finished, w').
           rbind (run_commands callback s rest w') (\<lambda>(kept, w'').
             Inr (if finished then kept else pos # kept, w''))))"

definition ScaleDoNodeCommands ::
    "nat \<Rightarrow> NodeState \<Rightarrow> (ptr \<Rightarrow> ('d, 'db) World \<Rightarrow> (bool \<times> ('d, 'db) World) res) \<Rightarrow>
     ('d, 'db) World \<Rightarrow> ('d, 'db) World res" where
  "ScaleDoNodeCommands s state callback w =
     (case state of
        Loading \<Rightarrow>
          rbind (scale_at w s) (\<lambda>sc.
          rbind (run_commands callback s (sc_loading_nodes sc) w) (\<lambda>(kept, w').
            modify_scale s (\<lambda>sc. sc\<lparr>sc_loading_nodes := kept\<rparr>) w'))
      | Unloading \<Rightarrow>
          rbind (scale_at w s) (\<lambda>sc.
          rbind (run_commands callback s (sc_unloading_nodes sc) w) (\<lambda>(kept, w').
            modify_scale s (\<lambda>sc. sc\<lparr>sc_unloading_nodes := kept\<rparr>) w'))
      | _ \<Rightarrow> Inl Crash)"

definition finish_load :: "nat \<Rightarrow> int \<Rightarrow> ptr \<Rightarrow> vec3i \<Rightarrow> ('d, 'db) World \<Rightarrow> (bool \<times> ('d, 'db) World) res" where
  "finish_load s now p pos w =
     rbind (modify_node p (\<lambda>n. n\<lparr>n_state := Loaded, n_last_update_time := now\<rparr>) w) (\<lambda>w1.
     rbind (scale_at w1 s) (\<lambda>sc.
     rbind (assert_that (map_of (sc_nodes sc) pos \<noteq> None)) (\<lambda>_.
     rbind (modify_scale s (\<lambda>sc. sc\<lparr>sc_nodes := AList.update pos p (sc_nodes sc)\<rparr>) w1) (\<lambda>w2.
     rbind (LinkNode p (sc_index sc) w2) (\<lambda>w3. Inr (True, w3))))))"

definition load_node :: "nat \<Rightarrow> int \<Rightarrow> ptr \<Rightarrow> ('d, 'db) World \<Rightarrow> (bool \<times> ('d, 'db) World) res" where
  "load_node s now p w =
     rbind (deref w p) (\<lambda>n.
     rbind (assert_that (n_state n = Loading)) (\<lambda>_.
     rbind (if td_local (w_type w) then ProgressNodeReadTask p w else Inr (True, w)) (\<lambda>(read, w1).
       if \<not> read then Inr (False, w1)
       else
         rbind (if td_local (w_type w) then modify_node p (\<lambda>n. n\<lparr>n_task_state := Idle\<rparr>) w1 else Inr w1)
           (finish_load s now p (n_position n)))))"

definition WorldDoNodeLoadCommands :: "int \<Rightarrow> ('d, 'db) World \<Rightarrow> ('d, 'db) World res" where
  "WorldDoNodeLoadCommands now w =
     WorldForEachScale w (\<lambda>s. ScaleDoNodeCommands s Loading (load_node s now)) w"

definition finish_unload :: "nat \<Rightarrow> ptr \<Rightarrow> vec3i \<Rightarrow> ('d, 'db) World \<Rightarrow> (bool \<times> ('d, 'db) World) res" where
  "finish_unload s p pos w =
     rbind (scale_at w s) (\<lambda>sc.
     rbind (UnlinkNode p (sc_index sc) w) (\<lambda>w1.
     rbind (modify_node p (\<lambda>n. n\<lparr>n_state := Invalid\<rparr>) w1) (\<lambda>w2.
     rbind (if td_local (w_type w2) then modify_node p (\<lambda>n. n\<lparr>n_task_state := Idle\<rparr>) w2 else Inr w2) (\<lambda>w3.
     rbind (modify_scale s (\<lambda>sc. sc\<lparr>sc_nodes := AList.delete pos (sc_nodes sc)\<rparr>) w3) (\<lambda>w4.
       Inr (True, w4\<lparr>w_heap := (w_heap w4)(p := None)\<rparr>))))))"

definition unload_node :: "nat \<Rightarrow> ptr \<Rightarrow> ('d, 'db) World \<Rightarrow> (bool \<times> ('d, 'db) World) res" where
  "unload_node s p w =
     rbind (deref w p) (\<lambda>n.
     rbind (assert_that (n_state n = Unloading)) (\<lambda>_.
     rbind (if td_local (w_type w) then ProgressNodeWriteTask p w else Inr (True, w)) (\<lambda>(written, w1).
       if \<not> written then Inr (False, w1) else finish_unload s p (n_position n) w1)))"

definition WorldDoNodeUnloadCommands :: "('d, 'db) World \<Rightarrow> ('d, 'db) World res" where
  "WorldDoNodeUnloadCommands w =
     WorldForEachScale w (\<lambda>s. ScaleDoNodeCommands s Unloading (unload_node s)) w"

definition TouchNode :: "nat \<Rightarrow> int \<Rightarrow> vec3i \<Rightarrow> ('d, 'db) World \<Rightarrow> ('d, 'db) World res" where
  "TouchNode s now pos w =
     rbind (scale_at w s) (\<lambda>sc.
       case map_of (sc_nodes sc) pos of
         Some p \<Rightarrow> modify_node p (\<lambda>n. n\<lparr>n_last_update_time := now\<rparr>) w
       | None \<Rightarrow>
           let p = w_next w;
               n = new_node pos (sc_index sc) now (td_initial (w_type w))
           in modify_scale s (\<lambda>sc. sc\<lparr>sc_nodes := sc_nodes sc @ [(pos, p)],
                                       sc_loading_nodes := sc_loading_nodes sc @ [pos]\<rparr>)
                (w\<lparr>w_heap := (w_heap w)(p := Some n), w_next := Suc p\<rparr>))"

text \<open>A loader sees the scales from \<open>min_lod\<close> to \<open>max_lod\<close>; \<open>l_sphere\<close> is what its position and distance give on a scale.\<close>

record Loader =
  l_min_lod :: nat
  l_max_lod :: nat
  l_sphere :: "nat \<Rightarrow> vec3i \<times> vec3i \<times> (vec3i \<Rightarrow> bool)"

definition LoaderLoadNodes :: "nat \<Rightarrow> int \<Rightarrow> Loader \<Rightarrow> ('d, 'db) World \<Rightarrow> ('d, 'db) World res" where
  "LoaderLoadNodes s now loader w =
     rbind (scale_at w s) (\<lambda>sc.
       if sc_index sc < l_min_lod loader \<or> sc_index sc > l_max_lod loader then Inr w
       else
         let (start, stop, inside) = l_sphere loader (sc_index sc)
         in rfold (TouchNode s now) (ForEachCoordInSphere start stop inside) w)"

definition ScaleLoadNodesAroundLoaders ::
    "nat \<Rightarrow> int \<Rightarrow> Loader list \<Rightarrow> ('d, 'db) World \<Rightarrow> ('d, 'db) World res" where
  "ScaleLoadNodesAroundLoaders s now loaders w = rfold (LoaderLoadNodes s now) loaders w"

definition unload_unutilized :: "nat \<Rightarrow> int \<Rightarrow> vec3i \<times> ptr \<Rightarrow> ('d, 'db) World \<Rightarrow> ('d, 'db) World res" where
  "unload_unutilized s now e w =
     rbind (deref w (snd e)) (\<lambda>n.
       if (w_unloading w \<or> now - n_last_update_time n > w_node_keepalive w) \<and> n_state n = Loaded
       then rbind (modify_node (snd e) (\<lambda>n. n\<lparr>n_state := Unloading\<rparr>) w)
              (modify_scale s (\<lambda>sc. sc\<lparr>sc_unloading_nodes := sc_unloading_nodes sc @ [n_position n]\<rparr>))
       else Inr w)"

definition ScaleUnloadUnutilizedNodes :: "nat \<Rightarrow> int \<Rightarrow> ('d, 'db) World \<Rightarrow> ('d, 'db) World res" where
  "ScaleUnloadUnutilizedNodes s now w =
     rbind (scale_at w s) (\<lambda>sc. rfold (unload_unutilized s now) (sc_nodes sc) w)"

section \<open>The world\<close>

definition UnloadWorld :: "('d, 'db) World \<Rightarrow> ('d, 'db) World" where
  "UnloadWorld w = w\<lparr>w_unloading := True\<rparr>"

definition IsWorldUnloading :: "('d, 'db) World \<Rightarrow> bool" where
  "IsWorldUnloading w = w_unloading w"

definition DestroyWorld :: "('d, 'db) World \<Rightarrow> unit res" where
  "DestroyWorld w =
     WorldForEachScale w (\<lambda>s _. rbind (scale_at w s) (\<lambda>sc.
       assert_that (sc_nodes sc = [] \<and> sc_loading_nodes sc = [] \<and> sc_unloading_nodes sc = []))) ()"

definition new_scale :: "nat \<Rightarrow> Scale" where
  "new_scale i = \<lparr>sc_index = i, sc_nodes = [], sc_loading_nodes = [], sc_unloading_nodes = []\<rparr>"

text \<open>\<open>opened\<close> is the status and the database that opening the region file gives.\<close>

definition CreateWorld :: "'d TypeData \<Rightarrow> db_status \<times> 'db \<Rightarrow> ('d, 'db) World option res" where
  "CreateWorld type opened =
     (if td_max_scale type > k_max_world_scale then Inl Out_Of_Bounds
      else
        let w = \<lparr>w_type = type, w_max_scale = td_max_scale type, w_node_size = td_node_size type mod 256,
                 w_unloading = False, w_node_keepalive = td_node_keepalive type,
                 w_scales = map new_scale [0..<td_max_scale type], w_database = snd opened,
                 w_heap = (\<lambda>_. None), w_next = 0, w_pool = []\<rparr>
        in if td_local type \<and> fst opened \<noteq> SUCCESS
           then rbind (DestroyWorld w) (\<lambda>_. Inr None)
           else Inr (Some w))"

definition ScaleGetNodeCount :: "nat \<Rightarrow> ('d, 'db) World \<Rightarrow> nat res" where
  "ScaleGetNodeCount s w = rbind (scale_at w s) (\<lambda>sc. Inr (length (sc_nodes sc)))"

definition WorldGetNodeCount :: "('d, 'db) World \<Rightarrow> nat res" where
  "WorldGetNodeCount w =
     WorldForEachScale w (\<lambda>s total. rbind (ScaleGetNodeCount s w) (\<lambda>k. Inr (total + k))) 0"

definition ScaleGetEntityCount :: "nat \<Rightarrow> ('d, 'db) World \<Rightarrow> nat res" where
  "ScaleGetEntityCount s w =
     rbind (scale_at w s) (\<lambda>sc.
       rfold (\<lambda>(pos, p) total. rbind (deref w p) (\<lambda>n. Inr (total + length (n_entities n)))) (sc_nodes sc) 0)"

definition WorldGetEntityCount :: "('d, 'db) World \<Rightarrow> nat res" where
  "WorldGetEntityCount w =
     WorldForEachScale w (\<lambda>s total. rbind (ScaleGetEntityCount s w) (\<lambda>k. Inr (total + k))) 0"

definition ScaleForEachEntity :: "nat \<Rightarrow> ('d, 'db) World \<Rightarrow> (nat \<Rightarrow> 's \<Rightarrow> 's res) \<Rightarrow> 's \<Rightarrow> 's res" where
  "ScaleForEachEntity s w callback st =
     rbind (scale_at w s) (\<lambda>sc.
       rfold (\<lambda>(pos, p) st. rbind (deref w p) (\<lambda>n. rfold callback (n_entities n) st)) (sc_nodes sc) st)"

definition WorldForEachEntity :: "('d, 'db) World \<Rightarrow> (nat \<Rightarrow> 's \<Rightarrow> 's res) \<Rightarrow> 's \<Rightarrow> 's res" where
  "WorldForEachEntity w callback st = WorldForEachScale w (\<lambda>s. ScaleForEachEntity s w callback) st"

section \<open>Entities that change node\<close>

text \<open>
  The inner loop of \<open>ScaleUpdateEntityNodes\<close> at index \<open>i\<close> of the entity list. \<open>required e\<close> is the
  coordinate computed from the entity's position. \<open>erase\<close> returns the next entity and the loop
  then steps once more, so it may step over the end. The flag says that the whole function returns.
\<close>

function move_entities ::
    "nat \<Rightarrow> (nat \<Rightarrow> vec3i) \<Rightarrow> ptr \<Rightarrow> nat list \<Rightarrow> nat \<Rightarrow> ('d, 'db) World \<Rightarrow> (bool \<times> ('d, 'db) World) res" where
  "move_entities s required p es i w =
     (if i = length es then Inr (False, w)
      else if i > length es then Inl Out_Of_Bounds
      else
        rbind (deref w p) (\<lambda>n.
          if n_position n = required (es ! i) then Inr (True, w)
          else rbind (scale_at w s) (\<lambda>sc.
            case map_of (sc_nodes sc) (required (es ! i)) of
              None \<Rightarrow> move_entities s required p es (Suc i) w
            | Some q \<Rightarrow>
                let es' = take i es @ drop (Suc i) es
                in rbind (modify_node p (\<lambda>n. n\<lparr>n_entities := es'\<rparr>) w) (\<lambda>w1.
                   rbind (modify_node q (\<lambda>m. m\<lparr>n_entities := n_entities m @ [es ! i]\<rparr>) w1) (\<lambda>w2.
                     move_entities s required p es' (Suc i) w2)))))"
  by pat_completeness auto
termination
  by (relation "measure (\<lambda>(s, required, p, es, i, w). Suc (length es) - i)") auto

declare move_entities.simps [simp del]

fun update_entity_nodes ::
    "nat \<Rightarrow> (nat \<Rightarrow> vec3i) \<Rightarrow> (vec3i \<times> ptr) list \<Rightarrow> ('d, 'db) World \<Rightarrow> ('d, 'db) World res" where
  "update_entity_nodes s required [] w = Inr w"
| "update_entity_nodes s required ((pos, p) # rest) w =
     rbind (deref w p) (\<lambda>n.
     rbind (move_entities s required p (n_entities n) 0 w) (\<lambda>(stop, w').
       if stop then Inr w' else update_entity_nodes s required rest w'))"

definition ScaleUpdateEntityNodes ::
    "nat \<Rightarrow> (nat \<Rightarrow> vec3i) \<Rightarrow> ('d, 'db) World \<Rightarrow> ('d, 'db) World res" where
  "ScaleUpdateEntityNodes s required w =
     rbind (scale_at w s) (\<lambda>sc. update_entity_nodes s required (sc_nodes sc) w)"

text \<open>
  \<open>WorldUpdateEntityScales\<close> is the same loop with the entity's own scale \<open>wanted e\<close>: it leaves a scale
  at the first entity that is where it belongs and otherwise looks for the node on the wanted scale.
\<close>

function rescale_entities ::
    "nat \<Rightarrow> (nat \<Rightarrow> nat) \<Rightarrow> (nat \<Rightarrow> vec3i) \<Rightarrow> ptr \<Rightarrow> nat list \<Rightarrow> nat \<Rightarrow> ('d, 'db) World \<Rightarrow> (bool \<times> ('d, 'db) World) res" where
  "rescale_entities s wanted required p es i w =
     (if i = length es then Inr (False, w)
      else if i > length es then Inl Out_Of_Bounds
      else if s = wanted (es ! i) then Inr (True, w)
      else rbind (GetScale w (wanted (es ! i))) (\<lambda>sc.
        case map_of (sc_nodes sc) (required (es ! i)) of
          None \<Rightarrow> rescale_entities s wanted required p es (Suc i) w
        | Some q \<Rightarrow>
            let es' = take i es @ drop (Suc i) es
            in rbind (modify_node p (\<lambda>n. n\<lparr>n_entities := es'\<rparr>) w) (\<lambda>w1.
               rbind (modify_node q (\<lambda>m. m\<lparr>n_entities := n_entities m @ [es ! i]\<rparr>) w1) (\<lambda>w2.
                 rescale_entities s wanted required p es' (Suc i) w2))))"
  by pat_completeness auto
termination
  by (relation "measure (\<lambda>(s, wanted, required, p, es, i, w). Suc (length es) - i)") auto

declare rescale_entities.simps [simp del]

fun rescale_nodes ::
    "nat \<Rightarrow> (nat \<Rightarrow> nat) \<Rightarrow> (nat \<Rightarrow> vec3i) \<Rightarrow> (vec3i \<times> ptr) list \<Rightarrow> ('d, 'db) World \<Rightarrow> ('d, 'db) World res" where
  "rescale_nodes s wanted required [] w = Inr w"
| "rescale_nodes s wanted required ((pos, p) # rest) w =
     rbind (deref w p) (\<lambda>n.
     rbind (rescale_entities s wanted required p (n_entities n) 0 w) (\<lambda>(stop, w').
       if stop then Inr w' else rescale_nodes s wanted required rest w'))"

definition WorldUpdateEntityScales ::
    "(nat \<Rightarrow> nat) \<Rightarrow> (nat \<Rightarrow> vec3i) \<Rightarrow> ('d, 'db) World \<Rightarrow> ('d, 'db) World res" where
  "WorldUpdateEntityScales wanted required w =
     WorldForEachScale w (\<lambda>s w. rbind (scale_at w s) (\<lambda>sc. rescale_nodes s wanted required (sc_nodes sc) w)) w"

end
