(* ===== verification/SpatialLinks.thy ===== *)
theory SpatialLinks
  imports SpatialWorld
begin

text \<open>
  The pointers between nodes. \<open>nodes_ok\<close> says that the node maps and the heap hold the same nodes,
  \<open>links_ok\<close> that neighbour pointers come in pairs, parent and child pointers agree, the masks tell
  which pointers are set and every pointer leads to the node at the right coordinate, \<open>links_full\<close>
  that no two loaded nodes that touch are left unconnected. \<open>LinkNode\<close> and \<open>UnlinkNode\<close> keep them.
\<close>

section \<open>Coordinates\<close>

fun coords_ok :: "vec3i \<Rightarrow> bool" where
  "coords_ok (Vec3i x y z) \<longleftrightarrow> {x, y, z} \<subseteq> {- (2 ^ 30) ..< 2 ^ 30}"

lemma wrap32_id: "- (2 ^ 31) \<le> x \<Longrightarrow> x < 2 ^ 31 \<Longrightarrow> wrap32 x = x"
  by (simp add: wrap32_def signed_take_bit_int_eq_self)

lemma less_6_cases: "i < 6 \<longleftrightarrow> i = 0 \<or> i = 1 \<or> i = 2 \<or> i = 3 \<or> i = 4 \<or> i = (5 :: nat)"
  by auto

lemma less_8_cases:
  "i < 8 \<longleftrightarrow> i = 0 \<or> i = 1 \<or> i = 2 \<or> i = 3 \<or> i = 4 \<or> i = 5 \<or> i = 6 \<or> i = (7 :: nat)"
  by auto

text \<open>An offset and the one with the mirrored index cancel.\<close>

lemma neighbour_converse:
  assumes "coords_ok v" "i < 6"
  shows "vec_add (vec_add v (node_neighbour_offsets ! i)) (node_neighbour_offsets ! (5 - i)) = v"
  using assms
  by (cases v) (auto simp: less_6_cases node_neighbour_offsets_def wrap32_id)

lemma neighbour_distinct:
  assumes "coords_ok v" "i < 6" "j < 6"
    "vec_add v (node_neighbour_offsets ! i) = vec_add v (node_neighbour_offsets ! j)"
  shows "i = j"
  using assms
  by (cases v) (auto simp: less_6_cases node_neighbour_offsets_def wrap32_id)

lemma neighbour_irrefl: "coords_ok v \<Longrightarrow> i < 6 \<Longrightarrow> vec_add v (node_neighbour_offsets ! i) \<noteq> v"
  by (cases v) (auto simp: less_6_cases node_neighbour_offsets_def wrap32_id)

lemma parent_index_less: "GetNodeParentIndex v < 8"
proof (cases v)
  case (Vec3i x y z)
  have "x mod 2 < 2" "y mod 2 < 2" "z mod 2 < 2" by auto
  then show ?thesis unfolding Vec3i by (simp add: and_one_eq)
qed

text \<open>\<open>GetNodeParentIndex\<close> and \<open>node_child_offsets\<close> are inverse to each other.\<close>

lemma child_of_parent:
  assumes "coords_ok v"
  shows "vec_add (vec_shl (vec_shr v 1) 1) (node_child_offsets ! GetNodeParentIndex v) = v"
proof (cases v)
  case (Vec3i x y z)
  have odd: "k div 2 * 2 + 1 = k" if "k mod 2 = 1" for k :: int using that by presburger
  have m: "x mod 2 = 0 \<or> x mod 2 = 1" "y mod 2 = 0 \<or> y mod 2 = 1" "z mod 2 = 0 \<or> z mod 2 = 1" by auto
  have b: "wrap32 (k div 2 * 2) = k div 2 * 2" if "- (2 ^ 30) \<le> k" "k < 2 ^ 30" for k
    using that by (intro wrap32_id) auto
  have w: "wrap32 x = x" "wrap32 y = y" "wrap32 z = z"
    using assms Vec3i by (auto intro: wrap32_id)
  show ?thesis
    using m assms b [of x] b [of y] b [of z] w unfolding Vec3i
    by (auto simp: odd node_child_offsets_def drop_bit_eq_div push_bit_eq_mult and_one_eq)
qed

lemma parent_of_child:
  assumes "coords_ok v" "c < 8"
  shows "vec_shr (vec_add (vec_shl v 1) (node_child_offsets ! c)) 1 = v"
    "GetNodeParentIndex (vec_add (vec_shl v 1) (node_child_offsets ! c)) = c"
  using assms
  by (cases v; auto simp: less_8_cases node_child_offsets_def drop_bit_eq_div push_bit_eq_mult
      wrap32_id and_one_eq)+

declare coords_ok.simps [simp del] vec_add.simps [simp del] vec_shr.simps [simp del]
  vec_shl.simps [simp del] GetNodeParentIndex.simps [simp del]

section \<open>Reading the heap\<close>

definition loc :: "('d, 'db) World \<Rightarrow> ptr \<Rightarrow> (nat \<times> vec3i) option" where
  "loc w p = map_option (\<lambda>n. (n_scale_index n, n_position n)) (w_heap w p)"

definition nb :: "('d, 'db) World \<Rightarrow> ptr \<Rightarrow> nat \<Rightarrow> ptr option" where
  "nb w p i = (case w_heap w p of None \<Rightarrow> None | Some n \<Rightarrow> n_neighbours n i)"

definition ch :: "('d, 'db) World \<Rightarrow> ptr \<Rightarrow> nat \<Rightarrow> ptr option" where
  "ch w p c = (case w_heap w p of None \<Rightarrow> None | Some n \<Rightarrow> n_children n c)"

definition pa :: "('d, 'db) World \<Rightarrow> ptr \<Rightarrow> (ptr \<times> nat) option" where
  "pa w p = (case w_heap w p of None \<Rightarrow> None
     | Some n \<Rightarrow> map_option (\<lambda>q. (q, n_parent_index n)) (n_parent n))"

definition masks_ok :: "('d, 'db) World \<Rightarrow> bool" where
  "masks_ok w \<longleftrightarrow> (\<forall>p n. w_heap w p = Some n \<longrightarrow>
     (\<forall>i. bit (n_neighbour_mask n) i \<longleftrightarrow> n_neighbours n i \<noteq> None) \<and>
     (\<forall>c. bit (n_children_mask n) c \<longleftrightarrow> n_children n c \<noteq> None))"

text \<open>\<open>near w p i q\<close>: \<open>q\<close> is where neighbour \<open>i\<close> of \<open>p\<close> belongs. \<open>over w q c p\<close>: \<open>p\<close> is child \<open>c\<close> of \<open>q\<close>.\<close>

definition near :: "('d, 'db) World \<Rightarrow> ptr \<Rightarrow> nat \<Rightarrow> ptr \<Rightarrow> bool" where
  "near w p i q \<longleftrightarrow> i < 6 \<and>
     (\<exists>s v. loc w p = Some (s, v) \<and> loc w q = Some (s, vec_add v (node_neighbour_offsets ! i)))"

definition over :: "('d, 'db) World \<Rightarrow> ptr \<Rightarrow> nat \<Rightarrow> ptr \<Rightarrow> bool" where
  "over w q c p \<longleftrightarrow>
     (\<exists>s v. loc w p = Some (s, v) \<and> loc w q = Some (Suc s, vec_shr v 1) \<and> GetNodeParentIndex v = c)"

definition nodes_ok :: "('d, 'db) World \<Rightarrow> bool" where
  "nodes_ok w \<longleftrightarrow>
     length (w_scales w) = w_max_scale w \<and>
     (\<forall>s < w_max_scale w. sc_index (w_scales w ! s) = s \<and> distinct (map fst (sc_nodes (w_scales w ! s))) \<and>
        (\<forall>pos p. map_of (sc_nodes (w_scales w ! s)) pos = Some p \<longleftrightarrow> loc w p = Some (s, pos))) \<and>
     (\<forall>p s pos. loc w p = Some (s, pos) \<longrightarrow> s < w_max_scale w \<and> coords_ok pos \<and> p < w_next w)"

definition links_ok :: "('d, 'db) World \<Rightarrow> bool" where
  "links_ok w \<longleftrightarrow>
     (\<forall>p i q. nb w p i = Some q \<longrightarrow> near w p i q \<and> nb w q (5 - i) = Some p) \<and>
     (\<forall>p q c. pa w p = Some (q, c) \<longleftrightarrow> ch w q c = Some p) \<and>
     (\<forall>p q c. pa w p = Some (q, c) \<longrightarrow> over w q c p) \<and> masks_ok w"

definition linked :: "('d, 'db) World \<Rightarrow> ptr \<Rightarrow> bool" where
  "linked w p \<longleftrightarrow> (\<exists>n. w_heap w p = Some n \<and> n_state n \<in> {Loaded, Unloading})"

definition links_full :: "('d, 'db) World \<Rightarrow> bool" where
  "links_full w \<longleftrightarrow>
     (\<forall>p i q. near w p i q \<and> linked w p \<and> linked w q \<longrightarrow> nb w p i = Some q) \<and>
     (\<forall>q c p. over w q c p \<and> linked w p \<and> linked w q \<longrightarrow> pa w p = Some (q, c))"

lemma loc_inj:
  assumes "nodes_ok w" "loc w p = Some l" "loc w q = Some l"
  shows "p = q"
proof -
  obtain s pos where l: "l = (s, pos)" by force
  with assms have "s < w_max_scale w" unfolding nodes_ok_def by blast
  with assms l have "map_of (sc_nodes (w_scales w ! s)) pos = Some p"
    "map_of (sc_nodes (w_scales w ! s)) pos = Some q"
    unfolding nodes_ok_def by blast+
  then show ?thesis by simp
qed

lemma loc_facts:
  assumes "nodes_ok w" "loc w p = Some (s, pos)"
  shows "s < w_max_scale w" "coords_ok pos" "p < w_next w" "s < length (w_scales w)"
    "map_of (sc_nodes (w_scales w ! s)) pos = Some p" "sc_index (w_scales w ! s) = s"
  using assms unfolding nodes_ok_def by (auto simp del: map_of_eq_Some_iff)

lemma near_unique: "nodes_ok w \<Longrightarrow> near w p i q \<Longrightarrow> near w p i q' \<Longrightarrow> q = q'"
  unfolding near_def by (auto intro: loc_inj)

lemma near_converse:
  assumes "nodes_ok w" "near w p i q"
  shows "near w q (5 - i) p"
  using assms neighbour_converse loc_facts(2) unfolding near_def by fastforce

lemma near_index: "nodes_ok w \<Longrightarrow> near w p i q \<Longrightarrow> near w p j q \<Longrightarrow> i = j"
  unfolding near_def by (auto dest: loc_facts(2) intro: neighbour_distinct)

lemma near_irrefl: "nodes_ok w \<Longrightarrow> \<not> near w p i p"
  unfolding near_def using loc_facts(2) neighbour_irrefl by fastforce

lemma over_parent_unique: "nodes_ok w \<Longrightarrow> over w q c p \<Longrightarrow> over w q' c' p \<Longrightarrow> q = q' \<and> c = c'"
  unfolding over_def by (auto intro: loc_inj)

lemma over_child_unique:
  assumes "nodes_ok w" "over w q c p" "over w q c p'"
  shows "p = p'"
proof -
  from assms obtain s v s' v' where l: "loc w p = Some (s, v)" "loc w q = Some (Suc s, vec_shr v 1)"
    "loc w p' = Some (s', v')" "loc w q = Some (Suc s', vec_shr v' 1)"
    "GetNodeParentIndex v = GetNodeParentIndex v'"
    unfolding over_def by auto
  with child_of_parent [OF loc_facts(2) [OF assms(1) l(1)]]
    child_of_parent [OF loc_facts(2) [OF assms(1) l(3)]]
  have "v = v'" "s = s'" by simp_all
  with l show ?thesis using loc_inj [OF assms(1)] by blast
qed

lemma over_neq: "over w q c p \<Longrightarrow> q \<noteq> p"
  unfolding over_def by auto

text \<open>What a child looks for is what a parent looks for.\<close>

lemma over_down:
  assumes "nodes_ok w" "loc w q = Some (Suc s, v)" "c < 8"
    "loc w p = Some (s, vec_add (vec_shl v 1) (node_child_offsets ! c))"
  shows "over w q c p"
  using assms parent_of_child [OF loc_facts(2) [OF assms(1,2)] assms(3)] unfolding over_def by auto

lemma over_up:
  assumes "nodes_ok w" "over w q c p" "loc w q = Some (Suc s, v)"
  shows "loc w p = Some (s, vec_add (vec_shl v 1) (node_child_offsets ! c))" "c < 8"
  using assms child_of_parent loc_facts(2) parent_index_less unfolding over_def by fastforce+

section \<open>Worlds that differ in pointers only\<close>

definition strip :: "'d Node \<Rightarrow> 'd Node" where
  "strip n = n\<lparr>n_parent := None, n_parent_index := 0, n_children := (\<lambda>_. None), n_children_mask := 0,
               n_neighbours := (\<lambda>_. None), n_neighbour_mask := 0\<rparr>"

definition skel :: "('d, 'db) World \<Rightarrow> ('d, 'db) World \<Rightarrow> bool" where
  "skel w v \<longleftrightarrow> w\<lparr>w_heap := w_heap v\<rparr> = v \<and>
     (\<forall>p. map_option strip (w_heap w p) = map_option strip (w_heap v p))"

lemma strip_fields [simp]:
  "n_position (strip n) = n_position n" "n_scale_index (strip n) = n_scale_index n"
  "n_state (strip n) = n_state n" "n_task (strip n) = n_task n"
  "n_task_state (strip n) = n_task_state n" "n_last_update_time (strip n) = n_last_update_time n"
  "n_data (strip n) = n_data n" "n_entities (strip n) = n_entities n"
  by (simp_all add: strip_def)

lemma strip_eqD:
  "strip n = strip m \<Longrightarrow> n_position n = n_position m" "strip n = strip m \<Longrightarrow> n_scale_index n = n_scale_index m"
  "strip n = strip m \<Longrightarrow> n_state n = n_state m" "strip n = strip m \<Longrightarrow> n_task n = n_task m"
  "strip n = strip m \<Longrightarrow> n_task_state n = n_task_state m"
  by (metis strip_fields)+

lemma skel_refl: "skel w w"
  by (simp add: skel_def)

lemma skel_trans:
  assumes "skel w v" "skel v u"
  shows "skel w u"
proof -
  have "w\<lparr>w_heap := w_heap u\<rparr> = (w\<lparr>w_heap := w_heap v\<rparr>)\<lparr>w_heap := w_heap u\<rparr>" by simp
  also have "\<dots> = u" using assms by (simp add: skel_def)
  finally show ?thesis using assms by (simp add: skel_def)
qed

lemma skel_loc: "skel w v \<Longrightarrow> loc v = loc w"
proof
  fix p
  assume "skel w v"
  then have "map_option strip (w_heap w p) = map_option strip (w_heap v p)" by (simp add: skel_def)
  then show "loc v p = loc w p"
    by (cases "w_heap w p"; cases "w_heap v p") (auto simp: loc_def dest: strip_eqD)
qed

lemma skel_linked: "skel w v \<Longrightarrow> linked v = linked w"
proof
  fix p
  assume "skel w v"
  then have "map_option strip (w_heap w p) = map_option strip (w_heap v p)" by (simp add: skel_def)
  then show "linked v p = linked w p"
    by (cases "w_heap w p"; cases "w_heap v p") (auto simp: linked_def dest: strip_eqD)
qed

lemma skel_fields:
  assumes "skel w v"
  shows "w_scales v = w_scales w" "w_max_scale v = w_max_scale w" "w_next v = w_next w"
    "w_type v = w_type w" "w_pool v = w_pool w" "w_unloading v = w_unloading w"
    "w_node_keepalive v = w_node_keepalive w" "w_database v = w_database w"
proof -
  have b: "w\<lparr>w_heap := w_heap v\<rparr> = v" using assms by (simp add: skel_def)
  from arg_cong [OF b, of w_scales] arg_cong [OF b, of w_max_scale] arg_cong [OF b, of w_next]
    arg_cong [OF b, of w_type] arg_cong [OF b, of w_pool] arg_cong [OF b, of w_unloading]
    arg_cong [OF b, of w_node_keepalive] arg_cong [OF b, of w_database]
  show "w_scales v = w_scales w" "w_max_scale v = w_max_scale w" "w_next v = w_next w"
    "w_type v = w_type w" "w_pool v = w_pool w" "w_unloading v = w_unloading w"
    "w_node_keepalive v = w_node_keepalive w" "w_database v = w_database w"
    by simp_all
qed

lemma skel_nodes_ok: "skel w v \<Longrightarrow> nodes_ok v = nodes_ok w"
  unfolding nodes_ok_def by (simp only: skel_fields skel_loc)

lemma skel_near: "skel w v \<Longrightarrow> near v = near w"
  unfolding near_def fun_eq_iff by (simp only: skel_loc) simp

lemma skel_over: "skel w v \<Longrightarrow> over v = over w"
  unfolding over_def fun_eq_iff by (simp only: skel_loc) simp

lemma loc_live: "loc w p = Some l \<Longrightarrow> \<exists>n. w_heap w p = Some n"
  by (auto simp: loc_def)

lemma near_live: "near w p i q \<Longrightarrow> \<exists>l. loc w q = Some l"
  by (auto simp: near_def)

lemma over_live: "over w q c p \<Longrightarrow> \<exists>l. loc w p = Some l"
  by (auto simp: over_def)

lemma skel_live: "skel w u \<Longrightarrow> loc w q = Some l \<Longrightarrow> \<exists>m. w_heap u q = Some m"
  by (metis loc_live skel_loc)

text \<open>Both nodes of a link are updated in place.\<close>

lemma modify_live:
  "loc w p = Some l \<Longrightarrow> \<exists>n. w_heap w p = Some n \<and> modify_node p f w = Inr (w\<lparr>w_heap := (w_heap w)(p := Some (f n))\<rparr>)"
  by (auto simp: loc_def modify_node_def deref_def)

lemma skel_modify:
  assumes "w_heap w p = Some n" "strip (f n) = strip n"
  shows "skel w (w\<lparr>w_heap := (w_heap w)(p := Some (f n))\<rparr>)"
  using assms by (simp add: skel_def)

lemma modify_two:
  assumes "w_heap w p = Some n" "w_heap w q = Some m" "p \<noteq> q" "strip (f n) = strip n" "strip (g m) = strip m"
  shows "\<exists>v. rbind (modify_node p f w) (modify_node q g) = Inr v \<and> skel w v \<and>
    w_heap v = (w_heap w)(p := Some (f n), q := Some (g m))"
proof -
  let ?v = "w\<lparr>w_heap := (w_heap w)(p := Some (f n))\<rparr>"
  let ?u = "?v\<lparr>w_heap := (w_heap ?v)(q := Some (g m))\<rparr>"
  have "skel w ?u"
    by (rule skel_trans [OF skel_modify skel_modify]) (use assms in auto)
  moreover have "rbind (modify_node p f w) (modify_node q g) = Inr ?u"
    using assms by (simp add: modify_node_def deref_def)
  moreover have "w_heap ?u = (w_heap w)(p := Some (f n), q := Some (g m))" by simp
  ultimately show ?thesis by blast
qed

lemma modify_one:
  assumes "w_heap w p = Some n" "strip (f n) = strip n"
  shows "\<exists>v. modify_node p f w = Inr v \<and> skel w v \<and> w_heap v = (w_heap w)(p := Some (f n))"
  using assms skel_modify [of w p n f] by (simp add: modify_node_def deref_def)

lemma links_ok_skelI:
  assumes "skel w v" "\<forall>p i q. nb v p i = Some q \<longrightarrow> near w p i q \<and> nb v q (5 - i) = Some p"
    "\<forall>p q c. pa v p = Some (q, c) \<longleftrightarrow> ch v q c = Some p"
    "\<forall>p q c. pa v p = Some (q, c) \<longrightarrow> over w q c p" "masks_ok v"
  shows "links_ok v"
  using assms unfolding links_ok_def skel_near [OF assms(1)] skel_over [OF assms(1)] by blast

lemma masks_upd:
  assumes "masks_ok w" "\<And>p n. w_heap v p = Some n \<Longrightarrow> w_heap w p = Some n \<or>
    ((\<forall>i. bit (n_neighbour_mask n) i \<longleftrightarrow> n_neighbours n i \<noteq> None) \<and>
     (\<forall>c. bit (n_children_mask n) c \<longleftrightarrow> n_children n c \<noteq> None))"
  shows "masks_ok v"
  using assms unfolding masks_ok_def by blast

lemma bit_set_mask: "i < 8 \<Longrightarrow> bit (set_bit i (m :: 8 word)) j \<longleftrightarrow> j = i \<or> bit m j"
  by (auto simp: bit_set_bit_iff)

lemma bit_unset_mask: "bit (unset_bit i (m :: 8 word)) j \<longleftrightarrow> j \<noteq> i \<and> bit m j"
  by (auto simp: bit_unset_bit_iff)

lemma links_okD:
  assumes "links_ok w"
  shows "nb w p i = Some q \<Longrightarrow> near w p i q" "nb w p i = Some q \<Longrightarrow> nb w q (5 - i) = Some p"
    "pa w p = Some (q, c) \<longleftrightarrow> ch w q c = Some p" "pa w p = Some (q, c) \<Longrightarrow> over w q c p" "masks_ok w"
  using assms unfolding links_ok_def by blast+

lemma near_loc:
  assumes "nodes_ok w" "loc w p = Some (s, v)" "i < 6"
  shows "map_of (sc_nodes (w_scales w ! s)) (vec_add v (node_neighbour_offsets ! i)) = Some q \<longleftrightarrow> near w p i q"
  using assms unfolding nodes_ok_def near_def by (auto simp del: map_of_eq_Some_iff)

lemma GetScale_ok: "nodes_ok w \<Longrightarrow> s < w_max_scale w \<Longrightarrow> GetScale w s = Inr (w_scales w ! s)"
  by (simp add: GetScale_def scale_at_def nodes_ok_def)

section \<open>Linking\<close>

text \<open>Two ends set to each other keep a paired relation paired.\<close>

lemma pair_link:
  assumes N: "\<forall>a j b. N a j = Some b \<longrightarrow> near w a j b \<and> N b (5 - j) = Some a"
    and ok: "nodes_ok w" and pq: "near w p i q"
    and N': "\<forall>a j. N' a j = (if a = p \<and> j = i then Some q else if a = q \<and> j = 5 - i then Some p else N a j)"
  shows "\<forall>a j b. N' a j = Some b \<longrightarrow> near w a j b \<and> N' b (5 - j) = Some a"
proof (intro allI impI)
  fix a j b
  assume ab: "N' a j = Some b"
  have i: "i < 6" using pq by (simp add: near_def)
  have qp: "near w q (5 - i) p" using ok pq by (rule near_converse)
  show "near w a j b \<and> N' b (5 - j) = Some a"
  proof (cases "a = p \<and> j = i \<or> a = q \<and> j = 5 - i")
    case True
    with ab N' pq qp i near_irrefl [OF ok, of p i] show ?thesis by (auto split: if_splits)
  next
    case False
    then have old: "N a j = Some b" using ab N' by auto
    then have nr: "near w a j b" "N b (5 - j) = Some a" using N by auto
    have j: "j < 6" using nr(1) by (simp add: near_def)
    have "\<not> (b = p \<and> 5 - j = i)" "\<not> (b = q \<and> 5 - j = 5 - i)"
      using False near_unique [OF ok near_converse [OF ok nr(1)], of q]
        near_unique [OF ok near_converse [OF ok nr(1)], of p] pq qp i j by auto
    with nr N' show ?thesis by auto
  qed
qed

definition link_round :: "('d, 'db) World \<Rightarrow> ('d, 'db) World \<Rightarrow> bool" where
  "link_round w w' \<longleftrightarrow> skel w w' \<and> links_ok w' \<and>
     (\<forall>a j b. nb w a j = Some b \<longrightarrow> nb w' a j = Some b) \<and>
     (\<forall>a b. pa w a = Some b \<longrightarrow> pa w' a = Some b)"

lemma link_round_refl: "links_ok w \<Longrightarrow> link_round w w"
  by (simp add: link_round_def skel_refl)

lemma link_round_trans: "link_round w v \<Longrightarrow> link_round v u \<Longrightarrow> link_round w u"
  unfolding link_round_def by (auto intro: skel_trans)

lemma link_neighbour_ok:
  assumes ok: "nodes_ok w" and links: "links_ok w" and p: "loc w p = Some (s, v)" and i: "i < 6"
  shows "yields {} (link_neighbour p s i w)
    (\<lambda>w'. link_round w w' \<and> (\<forall>q. near w p i q \<longrightarrow> nb w' p i = Some q))"
proof -
  from p obtain n where n: "w_heap w p = Some n" "n_position n = v" by (auto simp: loc_def)
  have s: "s < w_max_scale w" using loc_facts(1) [OF ok p] .
  show ?thesis
  proof (cases "map_of (sc_nodes (w_scales w ! s)) (vec_add v (node_neighbour_offsets ! i))")
    case None
    then have "\<not> near w p i q" for q using near_loc [OF ok p i, of q] by simp
    with None n ok s links show ?thesis
      by (simp add: link_neighbour_def deref_def GetScale_ok link_round_refl)
  next
    case (Some q)
    then have pq: "near w p i q" using near_loc [OF ok p i] by simp
    then have neq: "q \<noteq> p" using near_irrefl [OF ok] by metis
    from pq obtain m where m: "w_heap w q = Some m" by (auto simp: near_def loc_def)
    let ?f = "\<lambda>n. n\<lparr>n_neighbours := (n_neighbours n)(i := Some q), n_neighbour_mask := set_bit i (n_neighbour_mask n)\<rparr>"
    let ?g = "\<lambda>m. m\<lparr>n_neighbours := (n_neighbours m)(5 - i := Some p), n_neighbour_mask := set_bit (5 - i) (n_neighbour_mask m)\<rparr>"
    from modify_two [OF n(1) m neq [symmetric], of ?f ?g] obtain u where
      u: "rbind (modify_node p ?f w) (modify_node q ?g) = Inr u" "skel w u"
      "w_heap u = (w_heap w)(p := Some (?f n), q := Some (?g m))"
      by (auto simp: strip_def)
    have run: "link_neighbour p s i w = Inr u"
      using n Some ok s u(1) by (simp add: link_neighbour_def deref_def GetScale_ok)
    have nbs: "\<forall>a j. nb u a j = (if a = p \<and> j = i then Some q else if a = q \<and> j = 5 - i then Some p else nb w a j)"
      using n m neq by (auto simp: nb_def u(3))
    have chs: "ch u = ch w" "pa u = pa w"
      using n m neq by (auto simp: fun_eq_iff ch_def pa_def u(3))
    have "masks_ok u"
      using links_okD(5) [OF links]
    proof (rule masks_upd)
      fix a k
      assume "w_heap u a = Some k"
      then show "w_heap w a = Some k \<or> (\<forall>i. bit (n_neighbour_mask k) i \<longleftrightarrow> n_neighbours k i \<noteq> None) \<and>
        (\<forall>c. bit (n_children_mask k) c \<longleftrightarrow> n_children k c \<noteq> None)"
        using links_okD(5) [OF links] n m i unfolding u(3) masks_ok_def
        by (auto simp: bit_set_mask split: if_splits)
    qed
    then have lk: "links_ok u"
      using pair_link [OF _ ok pq nbs] links chs
      by (intro links_ok_skelI [OF u(2)]) (auto simp: links_ok_def)
    have "nb u a j = Some b" if "nb w a j = Some b" for a j b
      using that nbs near_unique [OF ok pq] near_unique [OF ok near_converse [OF ok pq]]
        links_okD(1) [OF links that] by auto
    then show ?thesis
      using run u(2) lk chs nbs near_unique [OF ok pq] by (auto simp: link_round_def)
  qed
qed

lemma tree_link:
  assumes ok: "nodes_ok w" and links: "links_ok w" and pq: "over w q c p" and u: "skel w u"
    and pas: "pa u = (pa w)(p := Some (q, c))"
    and chs: "\<forall>a j. ch u a j = (if a = q \<and> j = c then Some p else ch w a j)"
    and nbs: "nb u = nb w" and masks: "masks_ok u"
  shows "link_round w u"
proof -
  have uniq: "a = p" if "ch w q c = Some a" for a
    using links_okD(3,4) [OF links] that over_child_unique [OF ok _ pq] by blast
  have mono: "pa u a = Some b" if "pa w a = Some b" for a b
    using that pas links_okD(4) [OF links, of p] over_parent_unique [OF ok pq, of "fst b" "snd b"]
    by (cases b) auto
  have iff: "pa u a = Some (b, j) \<longleftrightarrow> ch u b j = Some a" for a b j
  proof (cases "a = p")
    case True
    have no: "ch w b j \<noteq> Some p" if "\<not> (b = q \<and> j = c)"
      using that links_okD(3) [OF links, of p b j] links_okD(4) [OF links, of p b j]
        over_parent_unique [OF ok pq, of b j] by metis
    show ?thesis
      using True no by (cases "b = q \<and> j = c") (auto simp: pas chs)
  next
    case False
    then have "\<not> (b = q \<and> j = c)" if "ch w b j = Some a"
      using that uniq by blast
    with False show ?thesis using links_okD(3) [OF links, of a b j] by (auto simp: pas chs)
  qed
  have "links_ok u"
  proof (rule links_ok_skelI [OF u])
    show "\<forall>a b j. pa u a = Some (b, j) \<longrightarrow> over w b j a"
      using links_okD(4) [OF links] pq by (simp add: pas)
    show "\<forall>a i b. nb u a i = Some b \<longrightarrow> near w a i b \<and> nb u b (5 - i) = Some a"
      using links_okD(1,2) [OF links] by (simp add: nbs)
  qed (use iff masks in blast)+
  then show ?thesis
    using u mono nbs by (simp add: link_round_def)
qed

lemma link_parent_ok:
  assumes ok: "nodes_ok w" and links: "links_ok w" and p: "loc w p = Some (s, v)"
    and s: "s + 1 < w_max_scale w"
  shows "yields {} (link_parent p s w)
    (\<lambda>w'. link_round w w' \<and> (\<forall>q c. over w q c p \<longrightarrow> pa w' p = Some (q, c)))"
proof -
  from p obtain n where n: "w_heap w p = Some n" "n_position n = v" by (auto simp: loc_def)
  have find: "map_of (sc_nodes (w_scales w ! Suc s)) (vec_shr v 1) = Some q
      \<longleftrightarrow> over w q (GetNodeParentIndex v) p" for q
    using ok p s unfolding nodes_ok_def over_def by (auto simp del: map_of_eq_Some_iff)
  have idx: "c = GetNodeParentIndex v" if "over w q c p" for q c
    using that p by (auto simp: over_def)
  show ?thesis
  proof (cases "map_of (sc_nodes (w_scales w ! Suc s)) (vec_shr v 1)")
    case None
    then have "\<not> over w q c p" for q c using find [of q] idx by auto
    with None n ok s links show ?thesis
      by (simp add: link_parent_def deref_def GetScale_ok link_round_refl)
  next
    case (Some q)
    let ?c = "GetNodeParentIndex v"
    have pq: "over w q ?c p" using Some find [of q] by simp
    then have neq: "q \<noteq> p" by (rule over_neq)
    from pq obtain m where m: "w_heap w q = Some m" by (auto simp: over_def loc_def)
    let ?f = "\<lambda>n. n\<lparr>n_parent := Some q, n_parent_index := ?c\<rparr>"
    let ?g = "\<lambda>m. m\<lparr>n_children := (n_children m)(?c := Some p), n_children_mask := set_bit ?c (n_children_mask m)\<rparr>"
    from modify_two [OF n(1) m neq [symmetric], of ?f ?g] obtain u where
      u: "rbind (modify_node p ?f w) (modify_node q ?g) = Inr u" "skel w u"
      "w_heap u = (w_heap w)(p := Some (?f n), q := Some (?g m))"
      by (auto simp: strip_def)
    have run: "link_parent p s w = Inr u"
      using n Some ok s u(1) parent_index_less [of v] by (simp add: link_parent_def deref_def GetScale_ok)
    have "masks_ok u"
      using links_okD(5) [OF links]
    proof (rule masks_upd)
      fix a k
      assume "w_heap u a = Some k"
      then show "w_heap w a = Some k \<or> (\<forall>i. bit (n_neighbour_mask k) i \<longleftrightarrow> n_neighbours k i \<noteq> None) \<and>
        (\<forall>c. bit (n_children_mask k) c \<longleftrightarrow> n_children k c \<noteq> None)"
        using links_okD(5) [OF links] n m parent_index_less [of v] unfolding u(3) masks_ok_def
        by (auto simp: bit_set_mask split: if_splits)
    qed
    then have "link_round w u"
      using n m neq
      by (intro tree_link [OF ok links pq u(2)]) (auto simp: fun_eq_iff nb_def ch_def pa_def u(3))
    moreover have "pa u p = Some (q, ?c)"
      using neq by (simp add: pa_def u(3))
    ultimately show ?thesis
      using run over_parent_unique [OF ok pq] by auto
  qed
qed

lemma link_child_ok:
  assumes ok: "nodes_ok w" and links: "links_ok w" and p: "loc w p = Some (Suc s, v)" and c: "c < 8"
  shows "yields {} (link_child p (Suc s) c w)
    (\<lambda>w'. link_round w w' \<and> (\<forall>q. over w p c q \<longrightarrow> pa w' q = Some (p, c)))"
proof -
  from p obtain n where n: "w_heap w p = Some n" "n_position n = v" by (auto simp: loc_def)
  have s: "s < w_max_scale w" using loc_facts(1) [OF ok p] by simp
  let ?pos = "vec_add (vec_shl v 1) (node_child_offsets ! c)"
  have find: "map_of (sc_nodes (w_scales w ! s)) ?pos = Some q \<longleftrightarrow> over w p c q" for q
  proof -
    have "map_of (sc_nodes (w_scales w ! s)) ?pos = Some q \<longleftrightarrow> loc w q = Some (s, ?pos)"
      using ok s unfolding nodes_ok_def by (simp del: map_of_eq_Some_iff)
    then show ?thesis using over_down [OF ok p c] over_up(1) [OF ok _ p] by auto
  qed
  show ?thesis
  proof (cases "map_of (sc_nodes (w_scales w ! s)) ?pos")
    case None
    then have "\<not> over w p c q" for q using find [of q] by simp
    with None n ok s links show ?thesis
      by (simp add: link_child_def deref_def GetScale_ok link_round_refl)
  next
    case (Some q)
    then have pq: "over w p c q" using find [of q] by simp
    then have neq: "p \<noteq> q" by (rule over_neq)
    from pq obtain m where m: "w_heap w q = Some m" by (auto simp: over_def loc_def)
    let ?f = "\<lambda>n. n\<lparr>n_children := (n_children n)(c := Some q), n_children_mask := set_bit c (n_children_mask n)\<rparr>"
    let ?g = "\<lambda>m. m\<lparr>n_parent := Some p, n_parent_index := c\<rparr>"
    from modify_two [OF n(1) m neq, of ?f ?g] obtain u where
      u: "rbind (modify_node p ?f w) (modify_node q ?g) = Inr u" "skel w u"
      "w_heap u = (w_heap w)(p := Some (?f n), q := Some (?g m))"
      by (auto simp: strip_def)
    have run: "link_child p (Suc s) c w = Inr u"
      using n Some ok s u(1) by (simp add: link_child_def deref_def GetScale_ok)
    have "masks_ok u"
      using links_okD(5) [OF links]
    proof (rule masks_upd)
      fix a k
      assume "w_heap u a = Some k"
      then show "w_heap w a = Some k \<or> (\<forall>i. bit (n_neighbour_mask k) i \<longleftrightarrow> n_neighbours k i \<noteq> None) \<and>
        (\<forall>c. bit (n_children_mask k) c \<longleftrightarrow> n_children k c \<noteq> None)"
        using links_okD(5) [OF links] n m c unfolding u(3) masks_ok_def
        by (auto simp: bit_set_mask split: if_splits)
    qed
    then have "link_round w u"
      using n m neq
      by (intro tree_link [OF ok links pq u(2)]) (auto simp: fun_eq_iff nb_def ch_def pa_def u(3))
    moreover have "pa u q = Some (p, c)"
      by (simp add: pa_def u(3))
    ultimately show ?thesis
      using run over_child_unique [OF ok pq] by auto
  qed
qed

text \<open>\<open>LinkNode\<close> connects the node with every node around it that exists.\<close>

definition surrounded :: "('d, 'db) World \<Rightarrow> ptr \<Rightarrow> ('d, 'db) World \<Rightarrow> bool" where
  "surrounded w p w' \<longleftrightarrow>
     (\<forall>i q. near w p i q \<longrightarrow> nb w' p i = Some q) \<and>
     (\<forall>q c. over w q c p \<longrightarrow> pa w' p = Some (q, c)) \<and>
     (\<forall>q c. over w p c q \<longrightarrow> pa w' q = Some (p, c))"

lemma link_roundD:
  assumes "link_round w v"
  shows "nodes_ok v = nodes_ok w" "loc v = loc w" "w_max_scale v = w_max_scale w" "links_ok v"
    "near v = near w" "over v = over w" "nb w a j = Some b \<Longrightarrow> nb v a j = Some b"
    "pa w a = Some e \<Longrightarrow> pa v a = Some e" "skel w v"
  using assms skel_nodes_ok skel_loc skel_fields(2) skel_near skel_over unfolding link_round_def by blast+

lemma link_neighbours_ok:
  assumes ok: "nodes_ok w" and links: "links_ok w" and p: "loc w p = Some (s, v)"
  shows "yields {} (rfold (link_neighbour p s) [0..<6] w)
    (\<lambda>w'. link_round w w' \<and> (\<forall>i q. near w p i q \<longrightarrow> nb w' p i = Some q))"
proof -
  have "\<exists>w'. rfold (link_neighbour p s) [0..<6] w = Inr w' \<and> link_round w w' \<and>
      (\<forall>i \<in> set [0..<6]. \<forall>q. near w p i q \<longrightarrow> nb w' p i = Some q) \<and>
      (\<forall>i. (\<forall>q. near w p i q \<longrightarrow> nb w p i = Some q) \<longrightarrow> (\<forall>q. near w p i q \<longrightarrow> nb w' p i = Some q))"
  proof (rule rfold_collect [where Q = "\<lambda>i w'. \<forall>q. near w p i q \<longrightarrow> nb w' p i = Some q"])
    fix i u
    assume "i \<in> set [0..<6]" and u: "link_round w u"
    then have "yields {} (link_neighbour p s i u)
        (\<lambda>w'. link_round u w' \<and> (\<forall>q. near u p i q \<longrightarrow> nb w' p i = Some q))"
      using ok p by (intro link_neighbour_ok) (auto simp: link_roundD)
    then obtain u' where u': "link_neighbour p s i u = Inr u'" "link_round u u'"
      "\<forall>q. near u p i q \<longrightarrow> nb u' p i = Some q" by (auto simp: yields_empty)
    then show "\<exists>s'. link_neighbour p s i u = Inr s' \<and> link_round w s' \<and>
        (\<forall>q. near w p i q \<longrightarrow> nb s' p i = Some q) \<and>
        (\<forall>j. (\<forall>q. near w p j q \<longrightarrow> nb u p j = Some q) \<longrightarrow> (\<forall>q. near w p j q \<longrightarrow> nb s' p j = Some q))"
      using link_round_trans [OF u u'(2)] link_roundD(5) [OF u] link_roundD(7) [OF u'(2)] by auto
  qed (simp add: link_round_refl links)
  then show ?thesis unfolding yields_empty by (auto simp: near_def)
qed

lemma link_children_ok:
  assumes ok: "nodes_ok w" and links: "links_ok w" and p: "loc w p = Some (Suc s, v)"
  shows "yields {} (rfold (link_child p (Suc s)) [0..<8] w)
    (\<lambda>w'. link_round w w' \<and> (\<forall>c q. over w p c q \<longrightarrow> pa w' q = Some (p, c)))"
proof -
  have "\<exists>w'. rfold (link_child p (Suc s)) [0..<8] w = Inr w' \<and> link_round w w' \<and>
      (\<forall>c \<in> set [0..<8]. \<forall>q. over w p c q \<longrightarrow> pa w' q = Some (p, c)) \<and>
      (\<forall>c. (\<forall>q. over w p c q \<longrightarrow> pa w q = Some (p, c)) \<longrightarrow> (\<forall>q. over w p c q \<longrightarrow> pa w' q = Some (p, c)))"
  proof (rule rfold_collect [where Q = "\<lambda>c w'. \<forall>q. over w p c q \<longrightarrow> pa w' q = Some (p, c)"])
    fix c u
    assume "c \<in> set [0..<8]" and u: "link_round w u"
    then have "yields {} (link_child p (Suc s) c u)
        (\<lambda>w'. link_round u w' \<and> (\<forall>q. over u p c q \<longrightarrow> pa w' q = Some (p, c)))"
      using ok p by (intro link_child_ok) (auto simp: link_roundD)
    then obtain u' where u': "link_child p (Suc s) c u = Inr u'" "link_round u u'"
      "\<forall>q. over u p c q \<longrightarrow> pa u' q = Some (p, c)" by (auto simp: yields_empty)
    then show "\<exists>s'. link_child p (Suc s) c u = Inr s' \<and> link_round w s' \<and>
        (\<forall>q. over w p c q \<longrightarrow> pa s' q = Some (p, c)) \<and>
        (\<forall>j. (\<forall>q. over w p j q \<longrightarrow> pa u q = Some (p, j)) \<longrightarrow> (\<forall>q. over w p j q \<longrightarrow> pa s' q = Some (p, j)))"
      using link_round_trans [OF u u'(2)] link_roundD(6) [OF u] link_roundD(8) [OF u'(2)] by auto
  qed (simp add: link_round_refl links)
  then show ?thesis unfolding yields_empty using over_up(2) [OF ok _ p] by auto
qed

lemma LinkNode_ok:
  assumes ok: "nodes_ok w" and links: "links_ok w" and p: "loc w p = Some (s, v)"
  shows "yields {} (LinkNode p s w) (\<lambda>w'. link_round w w' \<and> surrounded w p w')"
proof -
  have s: "s < w_max_scale w" using loc_facts(1) [OF ok p] .
  from link_neighbours_ok [OF ok links p] obtain w1 where w1:
    "rfold (link_neighbour p s) [0..<6] w = Inr w1" "link_round w w1"
    "\<forall>i q. near w p i q \<longrightarrow> nb w1 p i = Some q" by (auto simp: yields_empty)
  note r1 = link_roundD [OF w1(2)]
  have "\<exists>w2. (if s + 1 < w_max_scale w1 then link_parent p s w1 else Inr w1) = Inr w2 \<and>
      link_round w1 w2 \<and> (\<forall>q c. over w q c p \<longrightarrow> pa w2 p = Some (q, c))"
  proof (cases "s + 1 < w_max_scale w1")
    case True
    with link_parent_ok [of w1 p s v] ok p r1 show ?thesis by (auto simp: yields_empty)
  next
    case False
    then have "\<not> over w q c p" for q c
      using p r1(3) loc_facts(1) [OF ok, of q] by (auto simp: over_def)
    with False show ?thesis using link_round_refl [OF r1(4)] by auto
  qed
  then obtain w2 where w2: "(if s + 1 < w_max_scale w1 then link_parent p s w1 else Inr w1) = Inr w2"
    "link_round w1 w2" "\<forall>q c. over w q c p \<longrightarrow> pa w2 p = Some (q, c)" by blast
  note r2 = link_roundD [OF w2(2)]
  have "\<exists>w3. (if s > 0 then rfold (link_child p s) [0..<8] w2 else Inr w2) = Inr w3 \<and>
      link_round w2 w3 \<and> (\<forall>q c. over w p c q \<longrightarrow> pa w3 q = Some (p, c))"
  proof (cases s)
    case 0
    then have "\<not> over w p c q" for q c using p by (auto simp: over_def)
    with 0 show ?thesis using link_round_refl [OF r2(4)] by auto
  next
    case (Suc k)
    with link_children_ok [of w2 p k v] ok p r1 r2 show ?thesis by (auto simp: yields_empty)
  qed
  then obtain w3 where w3: "(if s > 0 then rfold (link_child p s) [0..<8] w2 else Inr w2) = Inr w3"
    "link_round w2 w3" "\<forall>q c. over w p c q \<longrightarrow> pa w3 q = Some (p, c)" by blast
  note r3 = link_roundD [OF w3(2)]
  have "LinkNode p s w = Inr w3"
    using w1(1) w2(1) w3(1) ok s by (simp add: LinkNode_def GetScale_ok)
  moreover have "link_round w w3"
    using link_round_trans [OF link_round_trans [OF w1(2) w2(2)] w3(2)] .
  moreover have "surrounded w p w3"
    using w1(3) w2(3) w3(3) r2(7) r3(7,8) by (auto simp: surrounded_def)
  ultimately show ?thesis by simp
qed

text \<open>With its new node connected a world has no loaded nodes left unconnected.\<close>

lemma links_full_link:
  assumes ok: "nodes_ok w" and full: "links_full w0" and r: "link_round w v" and sur: "surrounded w p v"
    and w0: "near w = near w0" "over w = over w0" "nb w = nb w0" "pa w = pa w0"
      "\<And>a. linked w a \<Longrightarrow> a \<noteq> p \<Longrightarrow> linked w0 a"
  shows "links_full v"
proof -
  have lk: "linked v = linked w" using link_roundD(9) [OF r] by (rule skel_linked)
  have "nb v a i = Some b" if ab: "near w a i b" "linked w a" "linked w b" for a i b
  proof (cases "a = p \<or> b = p")
    case True
    have "near w b (5 - i) a" using ok ab(1) by (rule near_converse)
    with True ab(1) sur have "nb v a i = Some b \<or> nb v b (5 - i) = Some a"
      by (auto simp: surrounded_def)
    moreover have "5 - (5 - i) = i" using ab(1) by (auto simp: near_def)
    ultimately show ?thesis using links_okD(2) [OF link_roundD(4) [OF r]] by metis
  next
    case False
    with full ab w0 have "nb w a i = Some b" by (simp add: links_full_def)
    then show ?thesis by (rule link_roundD(7) [OF r])
  qed
  moreover have "pa v a = Some (b, c)" if ab: "over w b c a" "linked w a" "linked w b" for a b c
  proof (cases "a = p \<or> b = p")
    case True
    with ab(1) sur show ?thesis by (auto simp: surrounded_def)
  next
    case False
    with full ab w0 have "pa w a = Some (b, c)" by (simp add: links_full_def)
    then show ?thesis by (rule link_roundD(8) [OF r])
  qed
  ultimately show ?thesis
    by (simp add: links_full_def lk link_roundD(5,6) [OF r])
qed

section \<open>Unlinking\<close>

definition unlinked :: "('d, 'db) World \<Rightarrow> ptr \<Rightarrow> ('d, 'db) World \<Rightarrow> bool" where
  "unlinked w p v \<longleftrightarrow> skel w v \<and> masks_ok v \<and>
     (\<forall>a j. nb v a j = (if nb w a j = Some p then None else nb w a j)) \<and>
     (\<forall>a c. ch v a c = (if ch w a c = Some p then None else ch w a c)) \<and>
     (\<forall>a. pa v a = (if \<exists>c. pa w a = Some (p, c) then None else pa w a))"

lemma unlink_neighbours_ok:
  assumes ok: "nodes_ok w" and links: "links_ok w" and p: "loc w p = Some (s, v)"
  shows "yields {} (rfold (unlink_neighbour p) [0..<6] w)
    (\<lambda>u. skel w u \<and> masks_ok u \<and> ch u = ch w \<and> pa u = pa w \<and>
         (\<forall>a j. nb u a j = (if nb w a j = Some p then None else nb w a j)))"
proof -
  let ?I = "\<lambda>u. skel w u \<and> masks_ok u \<and> ch u = ch w \<and> pa u = pa w \<and>
    (\<forall>a j. nb u a j = nb w a j \<or> (nb w a j = Some p \<and> nb u a j = None))"
  let ?Q = "\<lambda>i u. \<forall>a. nb w p i = Some a \<longrightarrow> nb u a (5 - i) = None"
  have noself: "nb w p i \<noteq> Some p" for i
    using links_okD(1) [OF links] near_irrefl [OF ok] by blast
  have "\<exists>u. rfold (unlink_neighbour p) [0..<6] w = Inr u \<and> ?I u \<and> (\<forall>i \<in> set [0..<6]. ?Q i u) \<and>
      (\<forall>i. ?Q i w \<longrightarrow> ?Q i u)"
  proof (rule rfold_collect)
    show "?I w" using links_okD(5) [OF links] by (simp add: skel_refl)
  next
    fix i u
    assume "i \<in> set [0..<6]" and I: "?I u"
    then have i: "i < 6" by simp
    have "nb u p i = nb w p i" using I noself by metis
    obtain n where n: "w_heap u p = Some n"
      using p I skel_loc [of w u] by (metis loc_live)
    have nbn: "n_neighbours n i = nb w p i" using \<open>nb u p i = nb w p i\<close> n by (simp add: nb_def)
    show "\<exists>u'. unlink_neighbour p i u = Inr u' \<and> ?I u' \<and> ?Q i u' \<and> (\<forall>j. ?Q j u \<longrightarrow> ?Q j u')"
    proof (cases "nb w p i")
      case None
      with I n nbn show ?thesis by (simp add: unlink_neighbour_def deref_def)
    next
      case (Some q)
      then have qp: "nb w q (5 - i) = Some p" using links_okD(2) [OF links] by blast
      obtain m where m: "w_heap u q = Some m"
        using near_live [OF links_okD(1) [OF links Some]] skel_live [of w u q] I by blast
      let ?g = "\<lambda>m. m\<lparr>n_neighbours := (n_neighbours m)(5 - i := None),
        n_neighbour_mask := unset_bit (5 - i) (n_neighbour_mask m)\<rparr>"
      from modify_one [OF m, of ?g] obtain u' where
        u': "modify_node q ?g u = Inr u'" "skel u u'" "w_heap u' = (w_heap u)(q := Some (?g m))"
        by (auto simp: strip_def)
      have "masks_ok u'"
        using m I unfolding masks_ok_def u'(3) by (auto simp: bit_unset_mask split: if_splits)
      moreover have nbs: "nb u' a j = (if a = q \<and> j = 5 - i then None else nb u a j)" for a j
        using m by (auto simp: nb_def u'(3))
      moreover have "ch u' = ch u" "pa u' = pa u"
        using m by (auto simp: fun_eq_iff ch_def pa_def u'(3))
      ultimately have "?I u'" "?Q i u'" "\<forall>j. ?Q j u \<longrightarrow> ?Q j u'"
        using I qp Some skel_trans [OF _ u'(2)] by auto
      moreover have "unlink_neighbour p i u = Inr u'"
        using n nbn Some u'(1) by (simp add: unlink_neighbour_def deref_def)
      ultimately show ?thesis by blast
    qed
  qed
  then obtain u where u: "rfold (unlink_neighbour p) [0..<6] w = Inr u" "?I u" "\<forall>i < 6. ?Q i u" by auto
  have "nb u a j = None" if aj: "nb w a j = Some p" for a j
  proof -
    have "nb w p (5 - j) = Some a" "j < 6"
      using links_okD(1,2) [OF links aj] by (auto simp: near_def)
    then have "nb u a (5 - (5 - j)) = None" using u(3) [rule_format, of "5 - j" a] by simp
    moreover have "5 - (5 - j) = j" using \<open>j < 6\<close> by simp
    ultimately show ?thesis by simp
  qed
  with u show ?thesis by (auto simp: yields_empty)
qed

lemma unlink_children_ok:
  assumes ok: "nodes_ok w" and sk: "skel w w1" and m1: "masks_ok w1" and p: "loc w p = Some (s, v)"
    and P: "\<And>a c. pa w1 a = Some (p, c) \<longleftrightarrow> ch w1 p c = Some a" "\<And>a c. pa w1 a = Some (p, c) \<Longrightarrow> over w p c a"
  shows "yields {} (rfold (unlink_child p) [0..<8] w1)
    (\<lambda>u. skel w u \<and> masks_ok u \<and> ch u = ch w1 \<and> nb u = nb w1 \<and>
         (\<forall>a. pa u a = (if \<exists>c. pa w1 a = Some (p, c) then None else pa w1 a)))"
proof -
  let ?I = "\<lambda>u. skel w u \<and> masks_ok u \<and> ch u = ch w1 \<and> nb u = nb w1 \<and>
    (\<forall>a. pa u a = pa w1 a \<or> ((\<exists>c. pa w1 a = Some (p, c)) \<and> pa u a = None))"
  let ?Q = "\<lambda>c u. \<forall>a. ch w1 p c = Some a \<longrightarrow> pa u a = None"
  have "\<exists>u. rfold (unlink_child p) [0..<8] w1 = Inr u \<and> ?I u \<and> (\<forall>c \<in> set [0..<8]. ?Q c u) \<and>
      (\<forall>c. ?Q c w1 \<longrightarrow> ?Q c u)"
  proof (rule rfold_collect)
    show "?I w1" using sk m1 by simp
  next
    fix c u
    assume I: "?I u"
    obtain n where n: "w_heap u p = Some n"
      using p I skel_loc [of w u] by (metis loc_live)
    have "n_children n c = ch u p c" using n by (simp add: ch_def)
    then have chn: "n_children n c = ch w1 p c" using I by simp
    show "\<exists>u'. unlink_child p c u = Inr u' \<and> ?I u' \<and> ?Q c u' \<and> (\<forall>j. ?Q j u \<longrightarrow> ?Q j u')"
    proof (cases "ch w1 p c")
      case None
      with I n chn show ?thesis by (simp add: unlink_child_def deref_def)
    next
      case (Some q)
      then have qp: "pa w1 q = Some (p, c)" using P(1) by blast
      obtain m where m: "w_heap u q = Some m"
        using over_live [OF P(2) [OF qp]] skel_live [of w u q] I by blast
      let ?g = "\<lambda>m. m\<lparr>n_parent := None, n_parent_index := k_node_no_parent\<rparr>"
      from modify_one [OF m, of ?g] obtain u' where
        u': "modify_node q ?g u = Inr u'" "skel u u'" "w_heap u' = (w_heap u)(q := Some (?g m))"
        by (auto simp: strip_def)
      have "masks_ok u'"
        using m I unfolding masks_ok_def u'(3) by (auto split: if_splits)
      moreover have "pa u' a = (if a = q then None else pa u a)" for a
        by (auto simp: pa_def u'(3))
      moreover have "ch u' = ch u" "nb u' = nb u"
        using m by (auto simp: fun_eq_iff ch_def nb_def u'(3))
      ultimately have "?I u'" "?Q c u'" "\<forall>j. ?Q j u \<longrightarrow> ?Q j u'"
        using I qp Some skel_trans [OF _ u'(2)] by auto
      moreover have "unlink_child p c u = Inr u'"
        using n chn Some u'(1) by (simp add: unlink_child_def deref_def)
      ultimately show ?thesis by blast
    qed
  qed
  then obtain u where u: "rfold (unlink_child p) [0..<8] w1 = Inr u" "?I u" "\<forall>c < 8. ?Q c u" by auto
  have "pa u a = None" if ac: "pa w1 a = Some (p, c)" for a c
  proof -
    have "c < 8" using P(2) [OF ac] parent_index_less by (auto simp: over_def)
    with u(3) P(1) [of a c] ac show ?thesis by blast
  qed
  then have "\<forall>a. pa u a = (if \<exists>c. pa w1 a = Some (p, c) then None else pa w1 a)"
    using u(2) by auto
  with u show ?thesis unfolding yields_empty by blast
qed

lemma UnlinkNode_ok:
  assumes ok: "nodes_ok w" and links: "links_ok w" and p: "loc w p = Some (s, v)"
  shows "yields {} (UnlinkNode p s w) (unlinked w p)"
proof -
  from unlink_neighbours_ok [OF ok links p] obtain w1 where
    w1: "rfold (unlink_neighbour p) [0..<6] w = Inr w1" "skel w w1" "masks_ok w1" "ch w1 = ch w"
    "pa w1 = pa w" "\<forall>a j. nb w1 a j = (if nb w a j = Some p then None else nb w a j)"
    by (auto simp: yields_empty)
  obtain n where n: "w_heap w1 p = Some n"
    using p w1(2) skel_loc [of w w1] by (metis loc_live)
  have noself: "pa w p \<noteq> Some (p, c)" for c
    using links_okD(4) [OF links] over_neq by blast
  have "\<exists>w2. (if s + 1 < w_max_scale w1 then unlink_parent p w1 else Inr w1) = Inr w2 \<and>
      skel w w2 \<and> masks_ok w2 \<and> nb w2 = nb w1 \<and> pa w2 = pa w \<and>
      (\<forall>a c. ch w2 a c = (if ch w a c = Some p then None else ch w a c))"
  proof (cases "pa w p")
    case None
    then have "pa w1 p = None" using w1(5) by simp
    then have "unlink_parent p w1 = Inr w1"
      using n by (simp add: unlink_parent_def deref_def pa_def)
    moreover have "ch w a c \<noteq> Some p" for a c
      using None links_okD(3) [OF links, of p a c] by simp
    ultimately show ?thesis using w1 by simp
  next
    case (Some e)
    obtain q c where e: "pa w p = Some (q, c)" using Some by (cases e) auto
    then have ov: "over w q c p" by (rule links_okD(4) [OF links])
    have s: "s + 1 < w_max_scale w1"
      using ov p loc_facts(1) [OF ok] skel_fields(2) [OF w1(2)] by (fastforce simp: over_def)
    have c: "c < 8" using ov parent_index_less by (auto simp: over_def)
    have "pa w1 p = Some (q, c)" using e w1(5) by simp
    then have np: "n_parent n = Some q" "n_parent_index n = c"
      using n by (auto simp: pa_def)
    obtain m where m: "w_heap w1 q = Some m"
      using ov skel_loc [OF w1(2)] loc_live [of w1 q] by (auto simp: over_def)
    let ?g = "\<lambda>m. m\<lparr>n_children := (n_children m)(c := None), n_children_mask := unset_bit c (n_children_mask m)\<rparr>"
    from modify_one [OF m, of ?g] obtain u where
      u: "modify_node q ?g w1 = Inr u" "skel w1 u" "w_heap u = (w_heap w1)(q := Some (?g m))"
      by (auto simp: strip_def)
    have "masks_ok u"
      using m w1(3) unfolding masks_ok_def u(3) by (auto simp: bit_unset_mask split: if_splits)
    moreover have "nb u = nb w1" "pa u = pa w1"
      using m by (auto simp: fun_eq_iff nb_def pa_def u(3))
    moreover have "ch u a j = (if a = q \<and> j = c then None else ch w1 a j)" for a j
      using m by (auto simp: ch_def u(3))
    then have "ch u a j = (if ch w a j = Some p then None else ch w a j)" for a j
      using e links_okD(3) [OF links, of p a j] w1(4) by auto
    moreover have "unlink_parent p w1 = Inr u"
      using n np c u(1) by (simp add: unlink_parent_def deref_def)
    ultimately show ?thesis using s skel_trans [OF w1(2) u(2)] w1(5) by auto
  qed
  then obtain w2 where w2: "(if s + 1 < w_max_scale w1 then unlink_parent p w1 else Inr w1) = Inr w2"
    "skel w w2" "masks_ok w2" "nb w2 = nb w1" "pa w2 = pa w"
    "\<forall>a c. ch w2 a c = (if ch w a c = Some p then None else ch w a c)" by blast
  have P: "pa w2 a = Some (p, c) \<longleftrightarrow> ch w2 p c = Some a" "pa w2 a = Some (p, c) \<Longrightarrow> over w p c a" for a c
    using w2(5,6) links_okD(3,4) [OF links] noself by (auto split: if_splits)
  have "\<exists>w3. (if s > 0 then rfold (unlink_child p) [0..<8] w2 else Inr w2) = Inr w3 \<and>
      skel w w3 \<and> masks_ok w3 \<and> ch w3 = ch w2 \<and> nb w3 = nb w2 \<and>
      (\<forall>a. pa w3 a = (if \<exists>c. pa w2 a = Some (p, c) then None else pa w2 a))"
  proof (cases "s > 0")
    case True
    with unlink_children_ok [OF ok w2(2,3) p P] show ?thesis by (auto simp: yields_empty)
  next
    case False
    then have "pa w2 a \<noteq> Some (p, c)" for a c using P(2) p by (auto simp: over_def)
    with False w2 show ?thesis by auto
  qed
  then obtain w3 where w3: "(if s > 0 then rfold (unlink_child p) [0..<8] w2 else Inr w2) = Inr w3"
    "skel w w3" "masks_ok w3" "ch w3 = ch w2" "nb w3 = nb w2"
    "\<forall>a. pa w3 a = (if \<exists>c. pa w2 a = Some (p, c) then None else pa w2 a)" by blast
  have "UnlinkNode p s w = Inr w3"
    using w1(1) w2(1) w3(1) by (simp add: UnlinkNode_def)
  moreover have "unlinked w p w3"
    using w1(6) w2(4,5,6) w3 by (simp add: unlinked_def)
  ultimately show ?thesis by simp
qed

text \<open>
  The pointers survive every step that keeps them, whether it adds an unconnected node or removes
  a node nothing points to.
\<close>

lemma links_ok_extend:
  assumes links: "links_ok w" and same: "nb v = nb w" "ch v = ch w" "pa v = pa w" "masks_ok v"
    and loc: "\<And>p l. loc w p = Some l \<Longrightarrow> loc v p = Some l"
  shows "links_ok v"
proof -
  have "near v a i b" if "near w a i b" for a i b using that loc unfolding near_def by blast
  moreover have "over v b c a" if "over w b c a" for a b c using that loc unfolding over_def by blast
  ultimately show ?thesis
    using links_okD [OF links] unfolding links_ok_def same by (simp add: same)
qed

lemma links_removed:
  assumes links: "links_ok w" and un: "unlinked w p u"
    and loc: "\<And>a. loc v a = (if a = p then None else loc w a)"
    and nbs: "\<And>a j. nb v a j = (if a = p then None else nb u a j)"
    and chs: "\<And>a c. ch v a c = (if a = p then None else ch u a c)"
    and pas: "\<And>a. pa v a = (if a = p then None else pa u a)" and masks: "masks_ok v"
  shows "links_ok v"
proof -
  have nr: "near v a i b \<longleftrightarrow> near w a i b \<and> a \<noteq> p \<and> b \<noteq> p" for a i b by (auto simp: near_def loc)
  have ov: "over v b c a \<longleftrightarrow> over w b c a \<and> a \<noteq> p \<and> b \<noteq> p" for a b c by (auto simp: over_def loc)
  have nb': "nb v a j = Some b \<longleftrightarrow> nb w a j = Some b \<and> a \<noteq> p \<and> b \<noteq> p" for a j b
    using un by (auto simp: unlinked_def nbs)
  have ch': "ch v a c = Some b \<longleftrightarrow> ch w a c = Some b \<and> a \<noteq> p \<and> b \<noteq> p" for a c b
    using un by (auto simp: unlinked_def chs)
  have pa': "pa v a = Some (b, c) \<longleftrightarrow> pa w a = Some (b, c) \<and> a \<noteq> p \<and> b \<noteq> p" for a b c
    using un by (auto simp: unlinked_def pas)
  show ?thesis
    using links_okD [OF links] masks unfolding links_ok_def by (auto simp: nr ov nb' ch' pa')
qed

lemma links_full_removed:
  assumes full: "links_full w" and un: "unlinked w p u"
    and loc: "\<And>a. loc v a = (if a = p then None else loc w a)"
    and nbs: "\<And>a j. nb v a j = (if a = p then None else nb u a j)"
    and pas: "\<And>a. pa v a = (if a = p then None else pa u a)"
    and lk: "\<And>a. linked v a \<Longrightarrow> linked w a \<and> a \<noteq> p"
  shows "links_full v"
proof -
  have nr: "near v a i b \<longleftrightarrow> near w a i b \<and> a \<noteq> p \<and> b \<noteq> p" for a i b by (auto simp: near_def loc)
  have ov: "over v b c a \<longleftrightarrow> over w b c a \<and> a \<noteq> p \<and> b \<noteq> p" for a b c by (auto simp: over_def loc)
  have nb': "nb v a j = Some b \<longleftrightarrow> nb w a j = Some b \<and> a \<noteq> p \<and> b \<noteq> p" for a j b
    using un by (auto simp: unlinked_def nbs)
  have pa': "pa v a = Some (b, c) \<longleftrightarrow> pa w a = Some (b, c) \<and> a \<noteq> p \<and> b \<noteq> p" for a b c
    using un by (auto simp: unlinked_def pas)
  show ?thesis
    using full lk unfolding links_full_def by (simp add: nr ov nb' pa')
qed

end
