(* ===== verification/SpatialLoading.thy ===== *)
theory SpatialLoading
  imports SpatialLinks
begin

text \<open>
  The life of nodes. \<open>world_ok\<close> collects what holds of a world between two operations: the nodes and
  links of \<open>SpatialLinks\<close>, command lists that name exactly the nodes in the states they are for, and
  tasks of the worker pool that belong to live nodes. Each operation of \<open>SpatialWorld\<close> keeps it and
  cannot fail, but for the faults \<open>F\<close> that reading and writing the database may raise.
\<close>

section \<open>The invariant\<close>

definition st_of :: "('d, 'db) World \<Rightarrow> ptr \<Rightarrow> NodeState option" where
  "st_of w p = map_option n_state (w_heap w p)"

definition task_of :: "('d, 'db) World \<Rightarrow> ptr \<Rightarrow> (TaskState \<times> IOTask option) option" where
  "task_of w p = map_option (\<lambda>n. (n_task_state n, n_task n)) (w_heap w p)"

definition state_at :: "('d, 'db) World \<Rightarrow> nat \<Rightarrow> NodeState \<Rightarrow> vec3i set" where
  "state_at w s st = {v. \<exists>p. loc w p = Some (s, v) \<and> st_of w p = Some st}"

definition states_ok :: "('d, 'db) World \<Rightarrow> bool" where
  "states_ok w \<longleftrightarrow> (\<forall>p st. st_of w p = Some st \<longrightarrow> st \<in> {Loading, Loaded, Unloading})"

text \<open>An unfinished task is in the pool, once, and only tasks of live nodes are.\<close>

definition tasks_ok :: "('d, 'db) World \<Rightarrow> bool" where
  "tasks_ok w \<longleftrightarrow> distinct (map fst (w_pool w)) \<and> (td_local (w_type w) \<or> w_pool w = []) \<and>
     (\<forall>p \<in> fst ` set (w_pool w). \<exists>ts t. task_of w p = Some (ts, Some t)) \<and>
     (\<forall>p ts t. task_of w p = Some (ts, Some t) \<longrightarrow> (\<not> iot_finished t \<longleftrightarrow> p \<in> fst ` set (w_pool w))) \<and>
     (\<forall>p ts t. task_of w p = Some (ts, t) \<longrightarrow>
        (ts \<in> {ReadInProgress, WriteInProgress} \<longrightarrow> t \<noteq> None) \<and> (ts = WriteDone \<longrightarrow> t = None))"

definition core_ok :: "('d, 'db) World \<Rightarrow> bool" where
  "core_ok w \<longleftrightarrow> nodes_ok w \<and> links_ok w \<and> links_full w \<and> states_ok w \<and> tasks_ok w"

definition lists_ok :: "('d, 'db) World \<Rightarrow> bool" where
  "lists_ok w \<longleftrightarrow> (\<forall>s < w_max_scale w.
     distinct (sc_loading_nodes (w_scales w ! s)) \<and>
     set (sc_loading_nodes (w_scales w ! s)) = state_at w s Loading \<and>
     distinct (sc_unloading_nodes (w_scales w ! s)) \<and>
     set (sc_unloading_nodes (w_scales w ! s)) = state_at w s Unloading)"

definition world_ok :: "('d, 'db) World \<Rightarrow> bool" where
  "world_ok w \<longleftrightarrow> 0 < w_max_scale w \<and> core_ok w \<and> lists_ok w"

text \<open>\<open>io_safe F type\<close>: reading a node back fails with faults in \<open>F\<close> only, a database error (\<open>Crash\<close>) included.\<close>

definition io_safe :: "fault set \<Rightarrow> 'd TypeData \<Rightarrow> bool" where
  "io_safe F type \<longleftrightarrow> (td_local type \<longrightarrow>
     Crash \<in> F \<and> (\<forall>bytes d. yields F (deserialize_node type bytes d) (\<lambda>_. True)))"

lemma linked_st_of: "linked w p \<longleftrightarrow> st_of w p \<in> {Some Loaded, Some Unloading}"
  by (auto simp: linked_def st_of_def)

lemma st_of_loc: "loc w p = Some l \<Longrightarrow> \<exists>st. st_of w p = Some st"
  by (auto simp: loc_def st_of_def)

lemma skel_tasks:
  assumes "skel w v"
  shows "st_of v = st_of w" "task_of v = task_of w"
proof -
  have "st_of v p = st_of w p \<and> task_of v p = task_of w p" for p
  proof -
    have "map_option strip (w_heap w p) = map_option strip (w_heap v p)" using assms by (simp add: skel_def)
    then show ?thesis
      by (cases "w_heap w p"; cases "w_heap v p") (auto simp: st_of_def task_of_def dest: strip_eqD)
  qed
  then show "st_of v = st_of w" "task_of v = task_of w" by (simp_all only: fun_eq_iff) blast+
qed

text \<open>Updating one node: what does not change it, does not change the view.\<close>

lemma update_keeps:
  assumes "w_heap w p = Some n" "w_heap v = (w_heap w)(p := Some n')"
  shows "n_position n' = n_position n \<Longrightarrow> n_scale_index n' = n_scale_index n \<Longrightarrow> loc v = loc w"
    "n_neighbours n' = n_neighbours n \<Longrightarrow> nb v = nb w"
    "n_children n' = n_children n \<Longrightarrow> ch v = ch w"
    "n_parent n' = n_parent n \<Longrightarrow> n_parent_index n' = n_parent_index n \<Longrightarrow> pa v = pa w"
    "st_of v = (st_of w)(p := Some (n_state n'))"
    "task_of v = (task_of w)(p := Some (n_task_state n', n_task n'))"
  using assms(1)
  unfolding fun_eq_iff loc_def nb_def ch_def pa_def st_of_def task_of_def assms(2)
  by auto

lemma update_masks:
  assumes "w_heap w p = Some n" "w_heap v = (w_heap w)(p := Some n')"
    "n_neighbours n' = n_neighbours n" "n_children n' = n_children n"
    "n_neighbour_mask n' = n_neighbour_mask n" "n_children_mask n' = n_children_mask n"
  shows "masks_ok v = masks_ok w"
proof -
  define M where "M n \<longleftrightarrow> (\<forall>i. bit (n_neighbour_mask n) i \<longleftrightarrow> n_neighbours n i \<noteq> None) \<and>
    (\<forall>c. bit (n_children_mask n) c \<longleftrightarrow> n_children n c \<noteq> None)" for n :: "'a Node"
  have "M n' = M n" unfolding M_def assms(3-6) ..
  then have "(\<forall>q m. w_heap v q = Some m \<longrightarrow> M m) \<longleftrightarrow> (\<forall>q m. w_heap w q = Some m \<longrightarrow> M m)"
    using assms(1) unfolding assms(2) by auto
  then show ?thesis unfolding masks_ok_def M_def .
qed

text \<open>The invariant in terms of the views.\<close>

lemma nodes_ok_cong:
  assumes "w_scales v = w_scales w" "w_max_scale v = w_max_scale w" "w_next v = w_next w" "loc v = loc w"
  shows "nodes_ok v = nodes_ok w"
  using assms by (simp add: nodes_ok_def)

lemma near_cong: "loc v = loc w \<Longrightarrow> near v = near w"
  by (simp add: near_def fun_eq_iff)

lemma over_cong: "loc v = loc w \<Longrightarrow> over v = over w"
  by (simp add: over_def fun_eq_iff)

lemma links_ok_cong:
  assumes "loc v = loc w" "nb v = nb w" "ch v = ch w" "pa v = pa w" "masks_ok v = masks_ok w"
  shows "links_ok v = links_ok w"
  using assms by (simp add: links_ok_def near_cong [OF assms(1)] over_cong [OF assms(1)])

lemma links_full_cong:
  assumes "loc v = loc w" "nb v = nb w" "pa v = pa w" "linked v = linked w"
  shows "links_full v = links_full w"
  using assms by (simp add: links_full_def near_cong [OF assms(1)] over_cong [OF assms(1)])

lemma state_at_cong: "loc v = loc w \<Longrightarrow> st_of v = st_of w \<Longrightarrow> state_at v = state_at w"
  by (simp add: state_at_def fun_eq_iff)

lemma state_at_upd:
  assumes ok: "nodes_ok w" and p: "loc w p = Some (s, v)" and st: "st_of w p = Some a"
    and u: "loc u = loc w" "st_of u = (st_of w)(p := Some b)"
  shows "state_at u s' c = (if s' = s \<and> c = b then insert v (state_at w s' c)
    else if s' = s \<and> c = a then state_at w s' c - {v} else state_at w s' c)"
proof -
  have uniq: "q = p" if "loc w q = Some (s, v)" for q using loc_inj [OF ok that p] .
  have "x \<in> state_at u s' c \<longleftrightarrow> x \<in> (if s' = s \<and> c = b then insert v (state_at w s' c)
    else if s' = s \<and> c = a then state_at w s' c - {v} else state_at w s' c)" for x
  proof (cases "\<exists>q. loc w q = Some (s', x)")
    case True
    then obtain q where q: "loc w q = Some (s', x)" by blast
    have *: "x \<in> state_at w s' c \<longleftrightarrow> st_of w q = Some c" "x \<in> state_at u s' c \<longleftrightarrow> st_of u q = Some c"
      unfolding state_at_def u(1) using q loc_inj [OF ok q] by blast+
    show ?thesis
    proof (cases "q = p")
      case True
      with q p have "s' = s" "x = v" by auto
      with * True st show ?thesis by (auto simp: u(2))
    next
      case False
      with q uniq have "\<not> (s' = s \<and> x = v)" by auto
      with * False show ?thesis by (auto simp: u(2))
    qed
  next
    case False
    then have "\<not> (s' = s \<and> x = v)" "x \<notin> state_at w s' c" "x \<notin> state_at u s' c"
      using p by (auto simp: state_at_def u(1))
    then show ?thesis by auto
  qed
  then show ?thesis by blast
qed

section \<open>Command lists\<close>

definition same_lists :: "('d, 'db) World \<Rightarrow> ('d, 'db) World \<Rightarrow> bool" where
  "same_lists w v \<longleftrightarrow> w_max_scale v = w_max_scale w \<and> w_type v = w_type w \<and>
     w_unloading v = w_unloading w \<and>
     map sc_loading_nodes (w_scales v) = map sc_loading_nodes (w_scales w) \<and>
     map sc_unloading_nodes (w_scales v) = map sc_unloading_nodes (w_scales w)"

lemma same_lists_refl: "same_lists w w"
  by (simp add: same_lists_def)

lemma same_lists_trans: "same_lists w v \<Longrightarrow> same_lists v u \<Longrightarrow> same_lists w u"
  by (simp add: same_lists_def)

lemma same_lists_scales:
  "w_scales v = w_scales w \<Longrightarrow> w_max_scale v = w_max_scale w \<Longrightarrow> w_type v = w_type w \<Longrightarrow>
   w_unloading v = w_unloading w \<Longrightarrow> same_lists w v"
  by (simp add: same_lists_def)

text \<open>
  What the callback of a command list for state \<open>st\<close> on scale \<open>s\<close> owes: it keeps the core invariant
  and the lists, takes the node out of the state when it is done and moves no other node into or out
  of the states that have lists.
\<close>

definition tracked :: "NodeState \<Rightarrow> NodeState set" where
  "tracked st = {Loading, Unloading} \<union> (if st = Unloading then {Loaded} else {})"

lemma tracked_self: "st \<in> {Loading, Unloading} \<Longrightarrow> st \<in> tracked st"
  "Loading \<in> tracked st" "Unloading \<in> tracked st" "Loaded \<in> tracked Unloading"
  by (auto simp: tracked_def)

definition after_command ::
    "nat \<Rightarrow> NodeState \<Rightarrow> vec3i \<Rightarrow> ('d, 'db) World \<Rightarrow> bool \<times> ('d, 'db) World \<Rightarrow> bool" where
  "after_command s st v w r \<longleftrightarrow> core_ok (snd r) \<and> same_lists w (snd r) \<and>
     (\<forall>s' st'. st' \<in> tracked st \<longrightarrow> state_at (snd r) s' st' =
        (if s' = s \<and> st' = st \<and> fst r then state_at w s' st' - {v} else state_at w s' st'))"

definition command_callback ::
    "fault set \<Rightarrow> nat \<Rightarrow> NodeState \<Rightarrow> (ptr \<Rightarrow> ('d, 'db) World \<Rightarrow> (bool \<times> ('d, 'db) World) res) \<Rightarrow>
     'd TypeData \<Rightarrow> bool" where
  "command_callback F s st callback type \<longleftrightarrow>
     (\<forall>w p v. w_type w = type \<and> core_ok w \<and> loc w p = Some (s, v) \<and> st_of w p = Some st \<longrightarrow>
        yields F (callback p w) (after_command s st v w))"

lemma run_commands_ok:
  assumes cb: "command_callback F s st callback (w_type w)" and st: "st \<in> {Loading, Unloading}"
    and core: "core_ok w" and cmds: "set cmds \<subseteq> state_at w s st" "distinct cmds"
  shows "yields F (run_commands callback s cmds w) (\<lambda>(kept, w').
    core_ok w' \<and> same_lists w w' \<and> distinct kept \<and> set kept \<subseteq> set cmds \<and>
    (\<forall>s' st'. st' \<in> tracked st \<longrightarrow> state_at w' s' st' =
       (if s' = s \<and> st' = st then state_at w s' st' - (set cmds - set kept) else state_at w s' st')))"
  using cb core cmds
proof (induction cmds arbitrary: w)
  case Nil
  then show ?case by (simp add: same_lists_refl)
next
  case (Cons v cmds)
  then obtain p where p: "loc w p = Some (s, v)" "st_of w p = Some st"
    by (auto simp: state_at_def)
  have ok: "nodes_ok w" using Cons.prems(2) by (simp add: core_ok_def)
  note lf = loc_facts [OF ok p(1)]
  have cb: "yields F (callback p w) (after_command s st v w)"
    using Cons.prems(1,2) p by (simp add: command_callback_def)
  show ?case
  proof (cases "callback p w")
    case (Inl f)
    with cb lf show ?thesis by (simp add: scale_at_def)
  next
    case (Inr r)
    then obtain fin w1 where r: "callback p w = Inr (fin, w1)" by (cases r) auto
    then have a: "core_ok w1" "same_lists w w1" "\<And>s' st'. st' \<in> tracked st \<Longrightarrow> state_at w1 s' st' =
        (if s' = s \<and> st' = st \<and> fin then state_at w s' st' - {v} else state_at w s' st')"
      using cb by (auto simp: after_command_def)
    have ty: "w_type w1 = w_type w" using a(2) by (simp add: same_lists_def)
    have sub: "set cmds \<subseteq> state_at w1 s st"
      using Cons.prems(3,4) a(3) [OF tracked_self(1) [OF st], of s] by auto
    have ih: "yields F (run_commands callback s cmds w1) (\<lambda>(kept, w').
      core_ok w' \<and> same_lists w1 w' \<and> distinct kept \<and> set kept \<subseteq> set cmds \<and>
      (\<forall>s' st'. st' \<in> tracked st \<longrightarrow> state_at w' s' st' =
         (if s' = s \<and> st' = st then state_at w1 s' st' - (set cmds - set kept) else state_at w1 s' st')))"
      using Cons.IH [of w1] Cons.prems(1,4) a(1) sub by (simp add: ty)
    show ?thesis
    proof (cases "run_commands callback s cmds w1")
      case (Inl f)
      with ih r lf show ?thesis by (simp add: scale_at_def)
    next
      case (Inr e)
      then obtain kept w2 where e: "run_commands callback s cmds w1 = Inr (kept, w2)" by (cases e) auto
      have b: "core_ok w2" "same_lists w1 w2" "distinct kept" "set kept \<subseteq> set cmds"
        "\<And>s' st'. st' \<in> tracked st \<Longrightarrow> state_at w2 s' st' =
          (if s' = s \<and> st' = st then state_at w1 s' st' - (set cmds - set kept) else state_at w1 s' st')"
        using ih by (auto simp: e)
      let ?kept = "if fin then kept else v # kept"
      have "state_at w2 s' st' = (if s' = s \<and> st' = st
          then state_at w s' st' - (set (v # cmds) - set ?kept) else state_at w s' st')"
        if "st' \<in> tracked st" for s' st'
        using a(3) [OF that, of s'] b(5) [OF that, of s'] b(4) Cons.prems(3,4) by auto
      then show ?thesis
        using b a same_lists_trans [OF a(2) b(2)] Cons.prems(4) r e lf by (auto simp: scale_at_def)
    qed
  qed
qed

section \<open>Reading and writing\<close>

definition io_round :: "('d, 'db) World \<Rightarrow> ('d, 'db) World \<Rightarrow> bool" where
  "io_round w v \<longleftrightarrow> w_scales v = w_scales w \<and> w_max_scale v = w_max_scale w \<and> w_type v = w_type w \<and>
     w_next v = w_next w \<and> w_unloading v = w_unloading w \<and> loc v = loc w \<and> nb v = nb w \<and>
     ch v = ch w \<and> pa v = pa w \<and> masks_ok v = masks_ok w \<and> st_of v = st_of w"

lemma io_round_refl: "io_round w w"
  by (simp add: io_round_def)

lemma io_round_trans: "io_round w v \<Longrightarrow> io_round v u \<Longrightarrow> io_round w u"
  by (simp add: io_round_def)

lemma io_roundD:
  assumes "io_round w v"
  shows "nodes_ok v = nodes_ok w" "links_ok v = links_ok w" "links_full v = links_full w"
    "states_ok v = states_ok w" "state_at v = state_at w" "same_lists w v" "loc v = loc w"
    "w_type v = w_type w" "w_max_scale v = w_max_scale w" "w_scales v = w_scales w" "st_of v = st_of w"
proof -
  have e: "w_scales v = w_scales w" "w_max_scale v = w_max_scale w" "w_type v = w_type w"
    "w_next v = w_next w" "w_unloading v = w_unloading w" "loc v = loc w" "nb v = nb w"
    "ch v = ch w" "pa v = pa w" "masks_ok v = masks_ok w" "st_of v = st_of w"
    using assms by (simp_all add: io_round_def)
  have "linked v = linked w" unfolding fun_eq_iff linked_st_of e by simp
  then show "links_full v = links_full w" using e by (intro links_full_cong)
  show "nodes_ok v = nodes_ok w" using e by (intro nodes_ok_cong)
  show "links_ok v = links_ok w" using e by (intro links_ok_cong)
  show "states_ok v = states_ok w" unfolding states_ok_def e ..
  show "state_at v = state_at w" using e by (intro state_at_cong)
  show "same_lists w v" using e by (intro same_lists_scales)
qed (use assms in \<open>simp_all add: io_round_def\<close>)

lemma io_round_update:
  assumes "w_heap w p = Some n" "w_heap v = (w_heap w)(p := Some n')"
    "w_scales v = w_scales w" "w_max_scale v = w_max_scale w" "w_type v = w_type w"
    "w_next v = w_next w" "w_unloading v = w_unloading w"
    "n_position n' = n_position n" "n_scale_index n' = n_scale_index n" "n_neighbours n' = n_neighbours n"
    "n_children n' = n_children n" "n_parent n' = n_parent n" "n_parent_index n' = n_parent_index n"
    "n_neighbour_mask n' = n_neighbour_mask n" "n_children_mask n' = n_children_mask n"
    "n_state n' = n_state n"
  shows "io_round w v"
proof -
  note k = update_keeps [OF assms(1,2)]
  have "st_of v = st_of w"
    using assms(1) unfolding k(5) fun_eq_iff by (simp add: st_of_def assms(16))
  moreover have "masks_ok v = masks_ok w" using assms by (intro update_masks [OF assms(1,2)])
  ultimately show ?thesis
    using k(1-4) assms(3-15) by (simp add: io_round_def)
qed

text \<open>How the task invariant follows a task from its start to its end.\<close>

lemma tasks_okD:
  assumes "tasks_ok w"
  shows "distinct (map fst (w_pool w))" "td_local (w_type w) \<or> w_pool w = []"
    "p \<in> fst ` set (w_pool w) \<Longrightarrow> \<exists>ts t. task_of w p = Some (ts, Some t)"
    "task_of w p = Some (ts, Some t) \<Longrightarrow> \<not> iot_finished t \<longleftrightarrow> p \<in> fst ` set (w_pool w)"
    "task_of w p = Some (ts, t') \<Longrightarrow> ts \<in> {ReadInProgress, WriteInProgress} \<Longrightarrow> t' \<noteq> None"
    "task_of w p = Some (WriteDone, t') \<Longrightarrow> t' = None"
  using assms unfolding tasks_ok_def by blast+

lemma tasks_ok_start:
  assumes ok: "tasks_ok w" and p: "task_of w p = Some (ts, None)" and t: "\<not> iot_finished t"
    and v: "task_of v = (task_of w)(p := Some (ts', Some t))" "w_pool v = w_pool w @ [(p, k)]"
      "w_type v = w_type w" "td_local (w_type w)" "ts' \<noteq> WriteDone"
  shows "tasks_ok v"
proof -
  have "p \<notin> fst ` set (w_pool w)" using tasks_okD(3) [OF ok] p by force
  then show ?thesis
    using ok t unfolding tasks_ok_def v by (auto simp: v(4,5))
qed

lemma tasks_ok_end:
  assumes ok: "tasks_ok w" and p: "task_of w p = Some (ts, t)" and t: "\<And>x. t = Some x \<Longrightarrow> iot_finished x"
    and v: "task_of v = (task_of w)(p := Some (ts', None))" "w_pool v = w_pool w"
      "w_type v = w_type w" "ts' \<notin> {ReadInProgress, WriteInProgress}"
  shows "tasks_ok v"
proof -
  have "p \<notin> fst ` set (w_pool w)"
    using tasks_okD(3,4) [OF ok, of p] p t by fastforce
  then show ?thesis
    using ok v(4) unfolding tasks_ok_def v(1-3) by auto
qed

lemma tasks_ok_idle:
  assumes ok: "tasks_ok w" and p: "task_of w p = Some (ts, t)"
    and v: "task_of v = (task_of w)(p := Some (Idle, t))" "w_pool v = w_pool w" "w_type v = w_type w"
  shows "tasks_ok v"
  unfolding tasks_ok_def v(1-3)
proof (intro conjI ballI allI impI)
  fix q
  assume "q \<in> fst ` set (w_pool w)"
  with tasks_okD(3) [OF ok this] p show "\<exists>ts' x. ((task_of w)(p := Some (Idle, t))) q = Some (ts', Some x)"
    by auto
next
  fix q ts' x
  assume "((task_of w)(p := Some (Idle, t))) q = Some (ts', Some x)"
  then obtain ts'' where "task_of w q = Some (ts'', Some x)" using p by (auto split: if_splits)
  then show "\<not> iot_finished x \<longleftrightarrow> q \<in> fst ` set (w_pool w)" by (rule tasks_okD(4) [OF ok])
next
  fix q ts' x
  assume a: "((task_of w)(p := Some (Idle, t))) q = Some (ts', x)"
  show "x \<noteq> None" if "ts' \<in> {ReadInProgress, WriteInProgress}"
    using a that tasks_okD(5) [OF ok, of q] by (auto split: if_splits)
  show "x = None" if "ts' = WriteDone"
    using a that tasks_okD(6) [OF ok, of q] by (auto split: if_splits)
qed (use tasks_okD(1,2) [OF ok] in blast)+

lemma tasks_ok_new:
  assumes ok: "tasks_ok w" and p: "p \<notin> fst ` set (w_pool w)"
    and v: "task_of v = (task_of w)(p := Some (Idle, None))" "w_pool v = w_pool w" "w_type v = w_type w"
  shows "tasks_ok v"
  unfolding tasks_ok_def v(1-3)
proof (intro conjI ballI allI impI)
  fix q
  assume q: "q \<in> fst ` set (w_pool w)"
  with p have "q \<noteq> p" by blast
  with tasks_okD(3) [OF ok q] show "\<exists>ts x. ((task_of w)(p := Some (Idle, None))) q = Some (ts, Some x)"
    by simp
next
  fix q ts x
  assume "((task_of w)(p := Some (Idle, None))) q = Some (ts, Some x)"
  then have "task_of w q = Some (ts, Some x)" by (simp split: if_splits)
  then show "\<not> iot_finished x \<longleftrightarrow> q \<in> fst ` set (w_pool w)" by (rule tasks_okD(4) [OF ok])
next
  fix q ts x
  assume a: "((task_of w)(p := Some (Idle, None))) q = Some (ts, x)"
  show "x \<noteq> None" if "ts \<in> {ReadInProgress, WriteInProgress}"
    using a that tasks_okD(5) [OF ok, of q] by (auto split: if_splits)
  show "x = None" if "ts = WriteDone"
    using a that tasks_okD(6) [OF ok, of q] by (auto split: if_splits)
qed (use tasks_okD(1,2) [OF ok] in blast)+

lemma ProgressNodeReadTask_ok:
  assumes ok: "tasks_ok w" and p: "w_heap w p = Some n" and loc: "td_local (w_type w)" and io: "io_safe F (w_type w)"
  shows "yields F (ProgressNodeReadTask p w) (\<lambda>(r, v). io_round w v \<and> tasks_ok v)"
proof -
  have tp: "task_of w p = Some (n_task_state n, n_task n)" using p by (simp add: task_of_def)
  show ?thesis
  proof (cases "n_task_state n")
    case Idle
    show ?thesis
    proof (cases "n_task n")
      case None
      let ?n = "n\<lparr>n_task := Some (new_task n), n_task_state := ReadInProgress\<rparr>"
      let ?v = "w\<lparr>w_heap := (w_heap w)(p := Some ?n), w_pool := w_pool w @ [(p, NodeRead)]\<rparr>"
      have "ProgressNodeReadTask p w = Inr (False, ?v)"
        using p Idle None by (simp add: ProgressNodeReadTask_def deref_def modify_node_def)
      moreover have "io_round w ?v" by (rule io_round_update [OF p, where n' = ?n]) auto
      moreover have "task_of ?v = (task_of w)(p := Some (ReadInProgress, Some (new_task n)))"
        by (auto simp: task_of_def)
      then have "tasks_ok ?v"
        using tp None loc by (intro tasks_ok_start [OF ok]) (auto simp: new_task_def)
      ultimately show ?thesis by simp
    qed (use p Idle ok in \<open>simp add: ProgressNodeReadTask_def deref_def io_round_refl\<close>)
  next
    case ReadInProgress
    then obtain t where t: "n_task n = Some t"
      using tasks_okD(5) [OF ok tp] by auto
    show ?thesis
    proof (cases "iot_finished t")
      case True
      let ?m = "case iot_status t of
          SUCCESS \<Rightarrow> deserialize_node (w_type w) (iot_data t) (n_data n)
        | NOT_FOUND_ERROR \<Rightarrow> Inr (generate_node (w_type w) (n_position n, n_scale_index n) (n_data n))
        | OTHER_ERROR \<Rightarrow> Inl Crash"
      let ?v = "\<lambda>d. w\<lparr>w_heap := (w_heap w)(p := Some (n\<lparr>n_data := d, n_task_state := ReadDone, n_task := None\<rparr>))\<rparr>"
      have run: "ProgressNodeReadTask p w = rbind ?m (\<lambda>d. Inr (False, ?v d))"
        using p ReadInProgress t True
        by (simp add: ProgressNodeReadTask_def deref_def modify_node_def)
      have "yields F ?m (\<lambda>_. True)"
        using io loc by (auto simp: io_safe_def split: db_status.split)
      moreover have "io_round w (?v d) \<and> tasks_ok (?v d)" for d
      proof
        show "io_round w (?v d)"
          by (rule io_round_update [OF p, where n' = "n\<lparr>n_data := d, n_task_state := ReadDone, n_task := None\<rparr>"]) auto
        have "task_of (?v d) = (task_of w)(p := Some (ReadDone, None))" by (auto simp: task_of_def)
        then show "tasks_ok (?v d)"
          using tp True t by (intro tasks_ok_end [OF ok]) auto
      qed
      ultimately show ?thesis unfolding run by (intro yields_bind) auto
    qed (use p ReadInProgress t ok in \<open>simp add: ProgressNodeReadTask_def deref_def io_round_refl\<close>)
  qed (use p ok in \<open>simp_all add: ProgressNodeReadTask_def deref_def io_round_refl\<close>)
qed

lemma ProgressNodeWriteTask_ok:
  assumes ok: "tasks_ok w" and p: "w_heap w p = Some n" and loc: "td_local (w_type w)" and io: "io_safe F (w_type w)"
  shows "yields F (ProgressNodeWriteTask p w)
    (\<lambda>(r, v). io_round w v \<and> tasks_ok v \<and> (r \<longrightarrow> p \<notin> fst ` set (w_pool v)))"
proof -
  have tp: "task_of w p = Some (n_task_state n, n_task n)" using p by (simp add: task_of_def)
  have free: "p \<notin> fst ` set (w_pool v)" if "tasks_ok v" "task_of v p = Some (ts, None)" for v :: "('a, 'b) World" and ts
    using tasks_okD(3) [OF that(1), of p] that(2) by auto
  show ?thesis
  proof (cases "n_task_state n")
    case Idle
    show ?thesis
    proof (cases "n_task n")
      case None
      let ?t = "(new_task n)\<lparr>iot_data := serialize_node (w_type w) (n_data n)\<rparr>"
      let ?n = "n\<lparr>n_task := Some ?t, n_task_state := WriteInProgress\<rparr>"
      let ?v = "w\<lparr>w_heap := (w_heap w)(p := Some ?n), w_pool := w_pool w @ [(p, NodeWrite)]\<rparr>"
      have "ProgressNodeWriteTask p w = Inr (False, ?v)"
        using p Idle None by (simp add: ProgressNodeWriteTask_def deref_def modify_node_def)
      moreover have "io_round w ?v" by (rule io_round_update [OF p, where n' = ?n]) auto
      moreover have "task_of ?v = (task_of w)(p := Some (WriteInProgress, Some ?t))"
        by (auto simp: task_of_def)
      then have "tasks_ok ?v"
        using tp None loc by (intro tasks_ok_start [OF ok]) (auto simp: new_task_def)
      ultimately show ?thesis by simp
    qed (use p Idle ok in \<open>simp add: ProgressNodeWriteTask_def deref_def io_round_refl\<close>)
  next
    case WriteInProgress
    then obtain t where t: "n_task n = Some t"
      using tasks_okD(5) [OF ok tp] by auto
    show ?thesis
    proof (cases "iot_finished t")
      case True
      let ?v = "w\<lparr>w_heap := (w_heap w)(p := Some (n\<lparr>n_task_state := WriteDone, n_task := None\<rparr>))\<rparr>"
      have "ProgressNodeWriteTask p w = (if iot_status t \<noteq> SUCCESS then Inl Crash else Inr (True, ?v))"
        using p WriteInProgress t True
        by (simp add: ProgressNodeWriteTask_def deref_def modify_node_def)
      moreover have "Crash \<in> F" using io loc by (simp add: io_safe_def)
      moreover have "io_round w ?v"
        by (rule io_round_update [OF p, where n' = "n\<lparr>n_task_state := WriteDone, n_task := None\<rparr>"]) auto
      moreover have tv: "task_of ?v = (task_of w)(p := Some (WriteDone, None))" by (auto simp: task_of_def)
      then have "tasks_ok ?v"
        using tp True t by (intro tasks_ok_end [OF ok]) auto
      moreover from this have "p \<notin> fst ` set (w_pool ?v)" using tv by (intro free) auto
      ultimately show ?thesis by simp
    qed (use p WriteInProgress t ok in \<open>simp add: ProgressNodeWriteTask_def deref_def io_round_refl\<close>)
  next
    case WriteDone
    then have "p \<notin> fst ` set (w_pool w)" using tasks_okD(6) [OF ok] tp free [OF ok, of WriteDone] by auto
    with p WriteDone ok show ?thesis by (simp add: ProgressNodeWriteTask_def deref_def io_round_refl)
  qed (use p ok in \<open>simp_all add: ProgressNodeWriteTask_def deref_def io_round_refl\<close>)
qed

section \<open>The two commands\<close>

lemma tasks_ok_cong:
  "task_of v = task_of w \<Longrightarrow> w_pool v = w_pool w \<Longrightarrow> w_type v = w_type w \<Longrightarrow> tasks_ok v = tasks_ok w"
  by (simp add: tasks_ok_def)

lemma update_same_entry: "map_of al k = Some v \<Longrightarrow> AList.update k v al = al"
  by (induction al) (auto split: if_splits)

lemma modify_scale_same:
  "s < length (w_scales w) \<Longrightarrow> f (w_scales w ! s) = w_scales w ! s \<Longrightarrow> modify_scale s f w = Inr w"
  by (simp add: modify_scale_def scale_at_def)

lemma core_io_round: "core_ok w \<Longrightarrow> io_round w v \<Longrightarrow> tasks_ok v \<Longrightarrow> core_ok v"
  by (simp add: core_ok_def io_roundD)

lemma st_of_Some: "w_heap w p = Some n \<Longrightarrow> st_of w p = Some (n_state n)"
  by (simp add: st_of_def)

lemma loc_Some: "w_heap w p = Some n \<Longrightarrow> loc w p = Some (n_scale_index n, n_position n)"
  by (simp add: loc_def)

lemma node_of:
  assumes "loc w p = Some (s, v)" "st_of w p = Some st"
  shows "\<exists>n. w_heap w p = Some n \<and> n_scale_index n = s \<and> n_position n = v \<and> n_state n = st"
  using assms by (auto simp: loc_def st_of_def)

lemma finish_loading:
  assumes core: "core_ok w" and p: "w_heap w p = Some n" "n_scale_index n = s" "n_state n = Loading"
  shows "yields {} (finish_load s now p (n_position n) w) (after_command s Loading (n_position n) w)"
proof -
  let ?n = "n\<lparr>n_state := Loaded, n_last_update_time := now\<rparr>"
  let ?w3 = "w\<lparr>w_heap := (w_heap w)(p := Some ?n)\<rparr>"
  note c = core [unfolded core_ok_def]
  have lp: "loc w p = Some (s, n_position n)" using loc_Some [OF p(1)] p(2) by simp
  have k3: "loc ?w3 = loc w" "nb ?w3 = nb w" "ch ?w3 = ch w" "pa ?w3 = pa w" "masks_ok ?w3 = masks_ok w"
    "st_of ?w3 = (st_of w)(p := Some Loaded)" "task_of ?w3 = task_of w"
    using update_keeps [OF p(1), of ?w3 ?n] update_masks [OF p(1), of ?w3 ?n] p(1)
    by (auto simp: task_of_def fun_eq_iff)
  have ok3: "nodes_ok ?w3" using c k3 nodes_ok_cong [of ?w3 w] by simp
  have lk3: "links_ok ?w3" using c links_ok_cong [OF k3(1-5)] by simp
  have lp3: "loc ?w3 p = Some (s, n_position n)" using lp k3(1) by simp
  note lf = loc_facts [OF ok3 lp3]
  from LinkNode_ok [OF ok3 lk3 lp3] obtain w5 where
    w5: "LinkNode p s ?w3 = Inr w5" "link_round ?w3 w5" "surrounded ?w3 p w5" by (auto simp: yields_empty)
  have run: "finish_load s now p (n_position n) w = Inr (True, w5)"
    using p lf w5(1)
    by (simp add: finish_load_def modify_node_def deref_def scale_at_def modify_scale_same update_same_entry)
  note r = link_roundD [OF w5(2)]
  note t5 = skel_tasks [OF r(9)] and f5 = skel_fields [OF r(9)]
  have full: "links_full w5"
  proof (rule links_full_link [OF ok3 _ w5(2,3)])
    show "links_full w" using c by simp
    show "near ?w3 = near w" "over ?w3 = over w" using near_cong over_cong k3(1) by blast+
    show "linked w a" if "linked ?w3 a" "a \<noteq> p" for a
      using that unfolding linked_st_of k3(6) by simp
  qed (rule k3)+
  have "core_ok w5"
    using r(1,4) ok3 full c tasks_ok_cong [of w5 w] t5 f5 k3(6,7)
    by (auto simp: core_ok_def states_ok_def)
  moreover have "same_lists w w5" using f5 by (intro same_lists_scales) simp_all
  moreover have "state_at w5 s' c = (if s' = s \<and> c = Loaded then insert (n_position n) (state_at w s' c)
      else if s' = s \<and> c = Loading then state_at w s' c - {n_position n} else state_at w s' c)" for s' c
    using c lp st_of_Some [OF p(1)] p(3) r(2) t5(1) k3(1,6) by (intro state_at_upd) simp_all
  ultimately show ?thesis unfolding run by (simp add: after_command_def tracked_def)
qed

lemma load_node_ok: 
  assumes io: "io_safe F type"
  shows "command_callback F s Loading (load_node s now) type"
  unfolding command_callback_def
proof (intro allI impI, elim conjE)
  fix w :: "('a, 'b) World" and p v
  assume ty: "w_type w = type" and core: "core_ok w" and lp: "loc w p = Some (s, v)" and sp: "st_of w p = Some Loading"
  obtain n where n: "w_heap w p = Some n" "n_scale_index n = s" "n_position n = v" "n_state n = Loading"
    using lp sp by (auto simp: loc_def st_of_def)
  have tasks: "tasks_ok w" using core by (simp add: core_ok_def)
  let ?m1 = "if td_local (w_type w) then ProgressNodeReadTask p w else Inr (True, w)"
  have m1: "yields F ?m1 (\<lambda>(r, v). io_round w v \<and> tasks_ok v)"
    using ProgressNodeReadTask_ok [OF tasks n(1), of F] io ty tasks by (auto simp: io_round_refl)
  show "yields F (load_node s now p w) (after_command s Loading v w)"
  proof (cases ?m1)
    case (Inl f)
    with m1 show ?thesis
      by (simp only: load_node_def deref_def n option.case rbind_Inr yields_simps rbind_Inl) simp
  next
    case (Inr e)
    then obtain r w1 where e: "?m1 = Inr (r, w1)" by (cases e) auto
    with m1 have io1: "io_round w w1" and t1: "tasks_ok w1" by simp_all
    note d = io_roundD [OF io1]
    have core1: "core_ok w1" using core io1 t1 by (rule core_io_round)
    obtain n1 where n1: "w_heap w1 p = Some n1" "n_scale_index n1 = s" "n_position n1 = v" "n_state n1 = Loading"
      using node_of [of w1 p s v Loading] lp sp d(7,11) by auto
    show ?thesis
    proof (cases r)
      case False
      have "load_node s now p w = Inr (False, w1)"
        using e False by (simp only: load_node_def deref_def n option.case rbind_Inr assert_that_simps) simp
      then show ?thesis using core1 d by (simp add: after_command_def)
    next
      case True
      let ?m2 = "if td_local (w_type w) then modify_node p (\<lambda>n. n\<lparr>n_task_state := Idle\<rparr>) w1 else Inr w1"
      have "\<exists>w2 n2. ?m2 = Inr w2 \<and> io_round w w2 \<and> tasks_ok w2 \<and> w_heap w2 p = Some n2 \<and>
        n_scale_index n2 = s \<and> n_position n2 = v \<and> n_state n2 = Loading"
      proof (cases "td_local (w_type w)")
        case True
        let ?n = "n1\<lparr>n_task_state := Idle\<rparr>"
        let ?w2 = "w1\<lparr>w_heap := (w_heap w1)(p := Some ?n)\<rparr>"
        have "io_round w1 ?w2" by (rule io_round_update [OF n1(1), where n' = ?n]) auto
        moreover have "tasks_ok ?w2"
          using n1(1) by (intro tasks_ok_idle [OF t1, of p "n_task_state n1" "n_task n1"]) (auto simp: task_of_def)
        ultimately show ?thesis
          using True n1 io_round_trans [OF io1] by (auto simp: modify_node_def deref_def)
      qed (use io1 t1 n1 in auto)
      then obtain w2 n2 where w2: "?m2 = Inr w2" "io_round w w2" "tasks_ok w2" and
        n2: "w_heap w2 p = Some n2" "n_scale_index n2 = s" "n_position n2 = v" "n_state n2 = Loading" by blast
      note d2 = io_roundD [OF w2(2)]
      have "core_ok w2" using core w2(2,3) by (rule core_io_round)
      from finish_loading [OF this n2(1,2,4), of now] obtain x where
        x: "finish_load s now p v w2 = Inr x" "after_command s Loading v w2 x"
        by (auto simp: yields_empty n2(3))
      have "load_node s now p w = rbind ?m1 (\<lambda>(read, w1). if \<not> read then Inr (False, w1)
          else rbind (if td_local (w_type w) then modify_node p (\<lambda>n. n\<lparr>n_task_state := Idle\<rparr>) w1 else Inr w1)
            (finish_load s now p v))"
        unfolding load_node_def deref_def n option.case rbind_Inr n(3,4) by simp
      then have run: "load_node s now p w = Inr x"
        using e True w2(1) x(1) by simp
      have "after_command s Loading v w x"
        using x(2) same_lists_trans [OF d2(6)] unfolding after_command_def d2(5) by blast
      with run show ?thesis by simp
    qed
  qed
qed

text \<open>A node that nothing points to is taken out of its scale and destroyed.\<close>

lemma node_removed:
  assumes core: "core_ok w" and p: "w_heap w p = Some n" "n_scale_index n = s" "n_position n = v"
      "n_state n = Unloading" "p \<notin> fst ` set (w_pool w)"
    and un: "unlinked w p u"
    and x: "w_heap x = (w_heap u)(p := None)" "w_pool x = w_pool w" "w_type x = w_type w"
      "w_max_scale x = w_max_scale w" "w_next x = w_next w" "w_unloading x = w_unloading w"
      "w_scales x = (w_scales w)[s := (w_scales w ! s)\<lparr>sc_nodes := AList.delete v (sc_nodes (w_scales w ! s))\<rparr>]"
  shows "after_command s Unloading v w (True, x)"
proof -
  note c = core [unfolded core_ok_def]
  have sk: "skel w u" using un by (simp add: unlinked_def)
  have lp: "loc w p = Some (s, v)" using loc_Some [OF p(1)] p(2,3) by simp
  have ok: "nodes_ok w" using c by simp
  note lf = loc_facts [OF ok lp]
  have loc: "loc x a = (if a = p then None else loc w a)" for a
    unfolding skel_loc [OF sk, symmetric] by (simp add: loc_def x(1))
  have views: "nb x a j = (if a = p then None else nb u a j)" "ch x a j = (if a = p then None else ch u a j)"
    "pa x a = (if a = p then None else pa u a)" for a j
    by (simp_all add: nb_def ch_def pa_def x(1))
  have st: "st_of x a = (if a = p then None else st_of w a)" for a
    unfolding skel_tasks(1) [OF sk, symmetric] by (simp add: st_of_def x(1))
  have ts: "task_of x a = (if a = p then None else task_of w a)" for a
    unfolding skel_tasks(2) [OF sk, symmetric] by (simp add: task_of_def x(1))
  have "masks_ok u" using un by (simp add: unlinked_def)
  then have masks: "masks_ok x"
    by (rule masks_upd) (rule disjI1, auto simp: x(1) split: if_splits)
  have lk: "linked x a \<Longrightarrow> linked w a \<and> a \<noteq> p" for a
    unfolding linked_st_of st by (auto split: if_splits)
  have cl: "links_ok w" "links_full w" "states_ok w" "tasks_ok w" using c by simp_all
  have l: "links_ok x" by (rule links_removed [OF cl(1) un loc views masks])
  have lfull: "links_full x" by (rule links_full_removed [OF cl(2) un loc views(1,3) lk])
  have nodes: "nodes_ok x"
    unfolding nodes_ok_def
  proof (intro conjI allI impI)
    show "length (w_scales x) = w_max_scale x" using ok by (simp add: nodes_ok_def x)
  next
    fix t
    assume "t < w_max_scale x"
    then have t: "t < length (w_scales w)" "t < w_max_scale w" using ok by (simp_all add: nodes_ok_def x)
    have old: "sc_index (w_scales w ! t) = t" "distinct (map fst (sc_nodes (w_scales w ! t)))"
      using ok t by (simp_all add: nodes_ok_def)
    show "sc_index (w_scales x ! t) = t"
      using t old lf(4) by (simp add: x(7) nth_list_update)
    show "distinct (map fst (sc_nodes (w_scales x ! t)))"
      using t old lf(4) by (simp add: x(7) nth_list_update distinct_delete)
    fix pos q
    have "map_of (sc_nodes (w_scales w ! t)) pos = Some q \<longleftrightarrow> loc w q = Some (t, pos)"
      using ok t unfolding nodes_ok_def by (simp del: map_of_eq_Some_iff)
    moreover have "map_of (sc_nodes (w_scales x ! t)) pos
        = (if t = s \<and> pos = v then None else map_of (sc_nodes (w_scales w ! t)) pos)"
      using t lf(4) by (simp add: x(7) nth_list_update delete_conv')
    moreover have "loc w q = Some (s, v) \<longleftrightarrow> q = p" using loc_inj [OF ok _ lp] lp by blast
    ultimately show "map_of (sc_nodes (w_scales x ! t)) pos = Some q \<longleftrightarrow> loc x q = Some (t, pos)"
      unfolding loc using lp by auto
  next
    fix q t pos
    assume "loc x q = Some (t, pos)"
    then have "loc w q = Some (t, pos)" by (simp add: loc split: if_splits)
    from loc_facts [OF ok this] show "t < w_max_scale x" "coords_ok pos" "q < w_next x"
      by (simp_all add: x)
  qed
  have tasks: "tasks_ok x"
    using cl(4) p(5) unfolding tasks_ok_def x(2,3) ts by (simp split: if_split) blast
  have states: "states_ok x" using cl(3) unfolding states_ok_def st by (auto split: if_splits)
  have "same_lists w x"
    by (auto simp: same_lists_def x map_update intro!: list_update_same_conv [THEN iffD2])
      (use lf in \<open>auto simp: list_update_same_conv\<close>)
  moreover have "state_at x s' c = (if s' = s \<and> c = Unloading then state_at w s' c - {v} else state_at w s' c)" for s' c
  proof -
    have "st_of w p = Some Unloading" using st_of_Some [OF p(1)] p(4) by simp
    have mem: "y \<in> state_at x s' c \<longleftrightarrow> (\<exists>q. q \<noteq> p \<and> loc w q = Some (s', y) \<and> st_of w q = Some c)" for y
      unfolding state_at_def loc st by auto
    have uniq: "q = p \<longleftrightarrow> s' = s \<and> y = v" if "loc w q = Some (s', y)" for q y
      using that lp loc_inj [OF ok _ lp, of q] by auto
    have "y \<in> state_at x s' c \<longleftrightarrow> (y \<in> state_at w s' c \<and> \<not> (s' = s \<and> c = Unloading \<and> y = v))" for y
    proof (cases "s' = s \<and> y = v")
      case True
      then have "y \<notin> state_at x s' c" unfolding mem using uniq by blast
      moreover have "y \<notin> state_at w s' c" if "c \<noteq> Unloading"
        using that True uniq \<open>st_of w p = Some Unloading\<close> unfolding state_at_def by fastforce
      ultimately show ?thesis using True by blast
    next
      case False
      then show ?thesis unfolding mem using uniq by (auto simp: state_at_def)
    qed
    then show ?thesis by auto
  qed
  ultimately show ?thesis
    using nodes l lfull states tasks by (simp add: after_command_def core_ok_def)
qed

lemma unload_node_ok:
  assumes io: "io_safe F type"
  shows "command_callback F s Unloading (unload_node s) type"
  unfolding command_callback_def
proof (intro allI impI, elim conjE)
  fix w :: "('a, 'b) World" and p v
  assume ty: "w_type w = type" and core: "core_ok w" and lp: "loc w p = Some (s, v)"
    and sp: "st_of w p = Some Unloading"
  from node_of [OF lp sp] obtain n where
    n: "w_heap w p = Some n" "n_scale_index n = s" "n_position n = v" "n_state n = Unloading" by blast
  have tasks: "tasks_ok w" using core by (simp add: core_ok_def)
  let ?m1 = "if td_local (w_type w) then ProgressNodeWriteTask p w else Inr (True, w)"
  have m1: "yields F ?m1 (\<lambda>(r, v). io_round w v \<and> tasks_ok v \<and> (r \<longrightarrow> p \<notin> fst ` set (w_pool v)))"
    using ProgressNodeWriteTask_ok [OF tasks n(1), of F] io ty tasks tasks_okD(2) [OF tasks]
    by (auto simp: io_round_refl)
  have run: "unload_node s p w = rbind ?m1 (\<lambda>(r, w1). if \<not> r then Inr (False, w1) else finish_unload s p v w1)"
    unfolding unload_node_def deref_def n option.case rbind_Inr n(3,4) by simp
  show "yields F (unload_node s p w) (after_command s Unloading v w)"
  proof (cases ?m1)
    case (Inl f)
    with m1 show ?thesis unfolding run by simp
  next
    case (Inr e)
    then obtain r w1 where e: "?m1 = Inr (r, w1)" by (cases e) auto
    with m1 have io1: "io_round w w1" and t1: "tasks_ok w1" and free: "r \<Longrightarrow> p \<notin> fst ` set (w_pool w1)" by simp_all
    note d = io_roundD [OF io1]
    have core1: "core_ok w1" using core io1 t1 by (rule core_io_round)
    have lp1: "loc w1 p = Some (s, v)" "st_of w1 p = Some Unloading" using lp sp d(7,11) by simp_all
    from node_of [OF lp1] obtain n1 where
      n1: "w_heap w1 p = Some n1" "n_scale_index n1 = s" "n_position n1 = v" "n_state n1 = Unloading" by blast
    have ok1: "nodes_ok w1" "links_ok w1" using core1 by (simp_all add: core_ok_def)
    note lf = loc_facts [OF ok1(1) lp1(1)]
    show ?thesis
    proof (cases r)
      case False
      then show ?thesis using e core1 d unfolding run by (simp add: after_command_def)
    next
      case True
      from UnlinkNode_ok [OF ok1 lp1(1)] obtain u where
        u: "UnlinkNode p s w1 = Inr u" "unlinked w1 p u" by (auto simp: yields_empty)
      have sk: "skel w1 u" using u(2) by (simp add: unlinked_def)
      note f = skel_fields [OF sk]
      obtain m where m: "w_heap u p = Some m" using skel_live [OF sk lp1(1)] by blast
      let ?heap = "(w_heap u)(p := None)"
      let ?scales = "(w_scales w1)[s := (w_scales w1 ! s)\<lparr>sc_nodes := AList.delete v (sc_nodes (w_scales w1 ! s))\<rparr>]"
      let ?x = "u\<lparr>w_heap := ?heap, w_scales := ?scales\<rparr>"
      have "finish_unload s p v w1 = Inr (True, ?x)"
        using m lf(4,6) u(1) f(1)
        by (simp add: finish_unload_def scale_at_def modify_node_def deref_def modify_scale_def)
      moreover have "after_command s Unloading v w1 (True, ?x)"
        using free [OF True] f by (intro node_removed [OF core1 n1 _ u(2)]) simp_all
      then have "after_command s Unloading v w (True, ?x)"
        using same_lists_trans [OF d(6)] unfolding after_command_def d(5) by blast
      ultimately show ?thesis using True e unfolding run by simp
    qed
  qed
qed

section \<open>The operations keep the invariant\<close>

lemma lists_ok_same:
  assumes "same_lists w v" "s < w_max_scale w" "length (w_scales w) = w_max_scale w"
  shows "sc_loading_nodes (w_scales v ! s) = sc_loading_nodes (w_scales w ! s)"
    "sc_unloading_nodes (w_scales v ! s) = sc_unloading_nodes (w_scales w ! s)"
proof -
  have "length (w_scales v) = length (w_scales w)"
    using assms(1) unfolding same_lists_def by (metis length_map)
  moreover have "map sc_loading_nodes (w_scales v) ! s = map sc_loading_nodes (w_scales w) ! s"
    "map sc_unloading_nodes (w_scales v) ! s = map sc_unloading_nodes (w_scales w) ! s"
    using assms(1) by (simp_all add: same_lists_def)
  ultimately show "sc_loading_nodes (w_scales v ! s) = sc_loading_nodes (w_scales w ! s)"
    "sc_unloading_nodes (w_scales v ! s) = sc_unloading_nodes (w_scales w ! s)"
    using assms(2,3) by simp_all
qed

text \<open>Replacing a command list of a scale changes no view.\<close>

lemma core_ok_scales:
  assumes core: "core_ok w" and s: "s < w_max_scale w"
    and f: "\<And>sc. sc_index (f sc) = sc_index sc" "\<And>sc. sc_nodes (f sc) = sc_nodes sc"
    and v: "v = w\<lparr>w_scales := (w_scales w)[s := f (w_scales w ! s)]\<rparr>"
  shows "core_ok v" "state_at v = state_at w" "nb v = nb w"
proof -
  have h: "loc v = loc w" "nb v = nb w" "ch v = ch w" "pa v = pa w" "masks_ok v = masks_ok w"
    "st_of v = st_of w" "task_of v = task_of w"
    by (simp_all add: v fun_eq_iff loc_def nb_def ch_def pa_def masks_ok_def st_of_def task_of_def)
  have len: "length (w_scales w) = w_max_scale w" using core by (simp add: core_ok_def nodes_ok_def)
  have sc: "sc_index (w_scales v ! t) = sc_index (w_scales w ! t)" "sc_nodes (w_scales v ! t) = sc_nodes (w_scales w ! t)" for t
    using s len by (auto simp: v nth_list_update f)
  have "linked v = linked w" unfolding fun_eq_iff linked_st_of h by simp
  then have "links_full v = links_full w" using h by (intro links_full_cong)
  moreover have "links_ok v = links_ok w" using h by (intro links_ok_cong)
  moreover have "nodes_ok v = nodes_ok w" unfolding nodes_ok_def sc h by (simp add: v)
  moreover have "tasks_ok v = tasks_ok w" using h by (intro tasks_ok_cong) (simp_all add: v)
  moreover have "states_ok v = states_ok w" unfolding states_ok_def h ..
  ultimately show "core_ok v" using core by (simp add: core_ok_def)
  show "state_at v = state_at w" using h by (intro state_at_cong)
  show "nb v = nb w" by (rule h)
qed

definition same_setup :: "('d, 'db) World \<Rightarrow> ('d, 'db) World \<Rightarrow> bool" where
  "same_setup w v \<longleftrightarrow> w_type v = w_type w \<and> w_max_scale v = w_max_scale w \<and> w_unloading v = w_unloading w"

lemma ScaleDoNodeCommands_ok:
  assumes ok: "world_ok w" and s: "s < w_max_scale w" and st: "st \<in> {Loading, Unloading}"
    and cb: "command_callback F s st callback (w_type w)"
  shows "yields F (ScaleDoNodeCommands s st callback w) (\<lambda>v. world_ok v \<and> same_setup w v \<and>
    (\<forall>s' st'. st' \<in> tracked st \<longrightarrow> state_at v s' st' \<subseteq> state_at w s' st' \<and>
       ((s', st') \<noteq> (s, st) \<longrightarrow> state_at v s' st' = state_at w s' st')))"
proof -
  have core: "core_ok w" and lists: "lists_ok w" and pos: "0 < w_max_scale w"
    using ok by (simp_all add: world_ok_def)
  have len: "length (w_scales w) = w_max_scale w" using core by (simp add: core_ok_def nodes_ok_def)
  define cmds where "cmds = (if st = Loading then sc_loading_nodes (w_scales w ! s) else sc_unloading_nodes (w_scales w ! s))"
  define upd where "upd kept sc = (if st = Loading then sc\<lparr>sc_loading_nodes := kept\<rparr> else sc\<lparr>sc_unloading_nodes := kept\<rparr>)"
    for kept and sc :: Scale
  have c: "set cmds = state_at w s st" "distinct cmds"
    using lists s st by (auto simp: lists_ok_def cmds_def)
  have run: "ScaleDoNodeCommands s st callback w
      = rbind (run_commands callback s cmds w) (\<lambda>(kept, w'). modify_scale s (upd kept) w')"
  proof (cases "st = Loading")
    case True
    have "upd kept = sc_loading_nodes_update (\<lambda>_. kept)" for kept by (simp add: fun_eq_iff upd_def True)
    with True s len show ?thesis by (simp add: ScaleDoNodeCommands_def scale_at_def cmds_def)
  next
    case False
    with st have st: "st = Unloading" by simp
    have "upd kept = sc_unloading_nodes_update (\<lambda>_. kept)" for kept by (simp add: fun_eq_iff upd_def st)
    with st s len show ?thesis by (simp add: ScaleDoNodeCommands_def scale_at_def cmds_def)
  qed
  have cmd: "yields F (run_commands callback s cmds w) (\<lambda>(kept, w').
    core_ok w' \<and> same_lists w w' \<and> distinct kept \<and> set kept \<subseteq> set cmds \<and>
    (\<forall>s' st'. st' \<in> tracked st \<longrightarrow> state_at w' s' st' =
       (if s' = s \<and> st' = st then state_at w s' st' - (set cmds - set kept) else state_at w s' st')))"
    using c by (intro run_commands_ok [OF cb st core]) auto
  show ?thesis
    unfolding run using cmd
  proof (rule yields_bind)
    fix r
    assume r: "case r of (kept, w') \<Rightarrow> core_ok w' \<and> same_lists w w' \<and> distinct kept \<and> set kept \<subseteq> set cmds \<and>
      (\<forall>s' st'. st' \<in> tracked st \<longrightarrow> state_at w' s' st' =
         (if s' = s \<and> st' = st then state_at w s' st' - (set cmds - set kept) else state_at w s' st'))"
    obtain kept w' where rw: "r = (kept, w')" by force
    have w': "core_ok w'" "same_lists w w'" "distinct kept" "set kept \<subseteq> set cmds"
      "\<And>s' st'. st' \<in> tracked st \<Longrightarrow> state_at w' s' st' =
         (if s' = s \<and> st' = st then state_at w s' st' - (set cmds - set kept) else state_at w s' st')"
      using r rw by auto
    have s': "s < w_max_scale w'" "length (w_scales w') = w_max_scale w'"
      using w'(1,2) s by (simp_all add: same_lists_def core_ok_def nodes_ok_def)
    let ?v = "w'\<lparr>w_scales := (w_scales w')[s := upd kept (w_scales w' ! s)]\<rparr>"
    have "core_ok ?v" "state_at ?v = state_at w'"
      using core_ok_scales [OF w'(1) s'(1), of "upd kept" ?v] by (auto simp: upd_def)
    moreover have "lists_ok ?v"
      unfolding lists_ok_def
    proof (intro allI impI)
      fix t
      assume "t < w_max_scale ?v"
      then have t: "t < w_max_scale w" "t < w_max_scale w'" using w'(2) by (simp_all add: same_lists_def)
      have kept: "state_at w' s st = set kept"
        using w'(4) w'(5) [OF tracked_self(1) [OF st], of s] c(1) by auto
      have old: "distinct (sc_loading_nodes (w_scales w ! t))" "distinct (sc_unloading_nodes (w_scales w ! t))"
        "set (sc_loading_nodes (w_scales w ! t)) = state_at w t Loading"
        "set (sc_unloading_nodes (w_scales w ! t)) = state_at w t Unloading"
        using lists t(1) by (simp_all add: lists_ok_def)
      show "distinct (sc_loading_nodes (w_scales ?v ! t)) \<and>
        set (sc_loading_nodes (w_scales ?v ! t)) = state_at ?v t Loading \<and>
        distinct (sc_unloading_nodes (w_scales ?v ! t)) \<and>
        set (sc_unloading_nodes (w_scales ?v ! t)) = state_at ?v t Unloading"
        using old w'(3) w'(5) [OF tracked_self(2), of t] w'(5) [OF tracked_self(3), of t] kept st s'
          lists_ok_same [OF w'(2) t(1) len] \<open>state_at ?v = state_at w'\<close>
        by (cases "t = s") (auto simp: upd_def)
    qed
    moreover have "same_setup w ?v" "0 < w_max_scale ?v"
      using w'(2) pos by (auto simp: same_setup_def same_lists_def)
    moreover have "\<forall>s' st'. st' \<in> tracked st \<longrightarrow> state_at ?v s' st' \<subseteq> state_at w s' st' \<and>
       ((s', st') \<noteq> (s, st) \<longrightarrow> state_at ?v s' st' = state_at w s' st')"
      using w'(5) \<open>state_at ?v = state_at w'\<close> by (auto split: if_splits)
    ultimately show "yields F (case r of (kept, w') \<Rightarrow> modify_scale s (upd kept) w') (\<lambda>v. world_ok v \<and> same_setup w v \<and>
        (\<forall>s' st'. st' \<in> tracked st \<longrightarrow> state_at v s' st' \<subseteq> state_at w s' st' \<and>
           ((s', st') \<noteq> (s, st) \<longrightarrow> state_at v s' st' = state_at w s' st')))"
      using s' by (simp add: rw modify_scale_def scale_at_def world_ok_def)
  qed
qed

lemma same_setup_refl: "same_setup w w"
  by (simp add: same_setup_def)

lemma same_setup_trans: "same_setup w v \<Longrightarrow> same_setup v u \<Longrightarrow> same_setup w u"
  by (simp add: same_setup_def)

lemma world_okD:
  assumes "world_ok w"
  shows "core_ok w" "lists_ok w" "0 < w_max_scale w" "nodes_ok w" "links_ok w" "links_full w"
    "states_ok w" "tasks_ok w" "length (w_scales w) = w_max_scale w"
proof -
  show *: "core_ok w" "lists_ok w" "0 < w_max_scale w" "nodes_ok w" "links_ok w" "links_full w"
    "states_ok w" "tasks_ok w"
    using assms by (simp_all add: world_ok_def core_ok_def)
  from *(4) show "length (w_scales w) = w_max_scale w" by (simp add: nodes_ok_def)
qed

text \<open>A loop over the scales whose invariant may mention how far it has come.\<close>

lemma WorldForEachScale_ok:
  assumes ok: "nodes_ok w" "0 < w_max_scale w" "I 0 u"
    and step: "\<And>s v. s < w_max_scale w \<Longrightarrow> I s v \<Longrightarrow> yields F (f s v) (I (Suc s))"
  shows "yields F (WorldForEachScale w f u) (I (w_max_scale w))"
proof -
  have "yields F (rfold (\<lambda>i s. rbind (GetScale w i) (\<lambda>_. f i s)) [0..<w_max_scale w] u) (I (w_max_scale w))"
    by (rule yields_rfold_upt) (use ok step GetScale_ok [OF ok(1)] in simp_all)
  then show ?thesis using ok(2) by (simp add: WorldForEachScale_def)
qed

lemma world_commands_ok:
  assumes ok: "world_ok w" and st: "st \<in> {Loading, Unloading}"
    and cb: "\<And>s. command_callback F s st (callback s) (w_type w)"
  shows "yields F (WorldForEachScale w (\<lambda>s. ScaleDoNodeCommands s st (callback s)) w) (\<lambda>v. world_ok v \<and> same_setup w v \<and>
    (\<forall>s st'. st' \<in> tracked st \<longrightarrow> state_at v s st' \<subseteq> state_at w s st' \<and>
       (st' \<noteq> st \<longrightarrow> state_at v s st' = state_at w s st')))"
proof (rule WorldForEachScale_ok [where I = "\<lambda>i v. world_ok v \<and> same_setup w v \<and>
    (\<forall>s st'. st' \<in> tracked st \<longrightarrow> state_at v s st' \<subseteq> state_at w s st' \<and>
       (st' \<noteq> st \<longrightarrow> state_at v s st' = state_at w s st'))"])
  fix s v
  assume s: "s < w_max_scale w" and v: "world_ok v \<and> same_setup w v \<and>
    (\<forall>s st'. st' \<in> tracked st \<longrightarrow> state_at v s st' \<subseteq> state_at w s st' \<and>
       (st' \<noteq> st \<longrightarrow> state_at v s st' = state_at w s st'))"
  have "yields F (ScaleDoNodeCommands s st (callback s) v) (\<lambda>x. world_ok x \<and> same_setup v x \<and>
    (\<forall>s' st'. st' \<in> tracked st \<longrightarrow> state_at x s' st' \<subseteq> state_at v s' st' \<and>
       ((s', st') \<noteq> (s, st) \<longrightarrow> state_at x s' st' = state_at v s' st')))"
    using cb v s by (intro ScaleDoNodeCommands_ok st) (auto simp: same_setup_def)
  then show "yields F (ScaleDoNodeCommands s st (callback s) v) (\<lambda>x. world_ok x \<and> same_setup w x \<and>
    (\<forall>s st'. st' \<in> tracked st \<longrightarrow> state_at x s st' \<subseteq> state_at w s st' \<and>
       (st' \<noteq> st \<longrightarrow> state_at x s st' = state_at w s st')))"
  proof (rule yields_mono [OF _ subset_refl])
    fix x
    assume x: "world_ok x \<and> same_setup v x \<and>
      (\<forall>s' st'. st' \<in> tracked st \<longrightarrow> state_at x s' st' \<subseteq> state_at v s' st' \<and>
         ((s', st') \<noteq> (s, st) \<longrightarrow> state_at x s' st' = state_at v s' st'))"
    show "world_ok x \<and> same_setup w x \<and>
      (\<forall>s st'. st' \<in> tracked st \<longrightarrow> state_at x s st' \<subseteq> state_at w s st' \<and>
         (st' \<noteq> st \<longrightarrow> state_at x s st' = state_at w s st'))"
    proof (intro conjI allI impI)
      have "same_setup w v" "same_setup v x" using v x by simp_all
      then show "same_setup w x" by (rule same_setup_trans)
      fix t st'
      assume st': "st' \<in> tracked st"
      have v': "state_at v t st' \<subseteq> state_at w t st'" "st' \<noteq> st \<Longrightarrow> state_at v t st' = state_at w t st'"
        using v [THEN conjunct2, THEN conjunct2, rule_format, OF st'] by blast+
      have x': "state_at x t st' \<subseteq> state_at v t st'" "st' \<noteq> st \<Longrightarrow> state_at x t st' = state_at v t st'"
        using x [THEN conjunct2, THEN conjunct2, rule_format, OF st', of t] by blast+
      show "state_at x t st' \<subseteq> state_at w t st'" using v'(1) x'(1) by (rule subset_trans [rotated])
      show "state_at x t st' = state_at w t st'" if "st' \<noteq> st"
        using v'(2) x'(2) that by simp
    qed (use x in simp)
  qed
qed (use ok world_okD(3,4) [OF ok] in \<open>simp_all add: same_setup_refl\<close>)

lemma WorldDoNodeLoadCommands_ok:
  assumes "world_ok w" "io_safe F (w_type w)"
  shows "yields F (WorldDoNodeLoadCommands now w) (\<lambda>v. world_ok v \<and> same_setup w v)"
  unfolding WorldDoNodeLoadCommands_def
  by (rule yields_mono [OF world_commands_ok [OF assms(1) _ load_node_ok [OF assms(2)]] subset_refl]) auto

lemma WorldDoNodeUnloadCommands_ok:
  assumes "world_ok w" "io_safe F (w_type w)"
  shows "yields F (WorldDoNodeUnloadCommands w) (\<lambda>v. world_ok v \<and> same_setup w v \<and>
    (\<forall>s. state_at v s Loading = state_at w s Loading \<and> state_at v s Loaded = state_at w s Loaded))"
  unfolding WorldDoNodeUnloadCommands_def
  by (rule yields_mono [OF world_commands_ok [OF assms(1) _ unload_node_ok [OF assms(2)]] subset_refl])
    (simp_all add: tracked_self)

lemma task_of_live: "task_of w p = Some t \<Longrightarrow> \<exists>n. w_heap w p = Some n"
  by (auto simp: task_of_def)

lemma fresh_views:
  assumes "nodes_ok w" "tasks_ok w"
  shows "w_heap w (w_next w) = None" "w_next w \<notin> fst ` set (w_pool w)"
proof -
  show heap: "w_heap w (w_next w) = None"
  proof (cases "w_heap w (w_next w)")
    case (Some n)
    from loc_facts(3) [OF assms(1) loc_Some [OF Some]] show ?thesis by simp
  qed
  show "w_next w \<notin> fst ` set (w_pool w)"
  proof
    assume "w_next w \<in> fst ` set (w_pool w)"
    from tasks_okD(3) [OF assms(2) this] heap show False by (simp add: task_of_def)
  qed
qed

text \<open>A new node without links.\<close>

lemma node_added:
  assumes ok: "world_ok w" and s: "s < w_max_scale w" and pos: "coords_ok pos"
    and new: "map_of (sc_nodes (w_scales w ! s)) pos = None"
    and v: "v = w\<lparr>w_heap := (w_heap w)(w_next w := Some (new_node pos s now d)), w_next := Suc (w_next w),
      w_scales := (w_scales w)[s := (w_scales w ! s)\<lparr>sc_nodes := sc_nodes (w_scales w ! s) @ [(pos, w_next w)],
        sc_loading_nodes := sc_loading_nodes (w_scales w ! s) @ [pos]\<rparr>]\<rparr>"
  shows "world_ok v" "same_setup w v"
proof -
  let ?p = "w_next w"
  note o = world_okD [OF ok]
  note fresh = fresh_views [OF o(4,8)]
  have h: "loc v = (loc w)(?p := Some (s, pos))" "st_of v = (st_of w)(?p := Some Loading)"
    "task_of v = (task_of w)(?p := Some (Idle, None))"
    by (auto simp: v fun_eq_iff loc_def st_of_def task_of_def new_node_def)
  have l: "nb v = nb w" "ch v = ch w" "pa v = pa w"
    using fresh(1) by (auto simp: v fun_eq_iff nb_def ch_def pa_def new_node_def)
  have lp: "loc w ?p = None" "st_of w ?p = None" using fresh(1) by (simp_all add: loc_def st_of_def)
  have ext: "loc w q = Some e \<Longrightarrow> loc v q = Some e" for q e using lp by (auto simp: h)
  have masks: "masks_ok v"
    using links_okD(5) [OF o(5)] by (rule masks_upd) (auto simp: v new_node_def split: if_splits)
  have links: "links_ok v" using o(5) l masks ext by (rule links_ok_extend)
  have none: "loc w q \<noteq> Some (s, pos)" for q
    using o(4) s new unfolding nodes_ok_def by (metis option.distinct(1))
  have sc: "t < w_max_scale w \<Longrightarrow> w_scales v ! t = (if t = s
      then (w_scales w ! s)\<lparr>sc_nodes := sc_nodes (w_scales w ! s) @ [(pos, ?p)],
        sc_loading_nodes := sc_loading_nodes (w_scales w ! s) @ [pos]\<rparr>
      else w_scales w ! t)" for t
    using o(9) by (simp add: v nth_list_update)
  have nodes: "nodes_ok v"
    unfolding nodes_ok_def
  proof (intro conjI allI impI)
    show "length (w_scales v) = w_max_scale v" using o(9) by (simp add: v)
  next
    fix t
    assume "t < w_max_scale v"
    then have t: "t < w_max_scale w" by (simp add: v)
    have old: "sc_index (w_scales w ! t) = t" "distinct (map fst (sc_nodes (w_scales w ! t)))"
      using o(4) t by (simp_all add: nodes_ok_def)
    show "sc_index (w_scales v ! t) = t" using old sc [OF t] by (cases "t = s") simp_all
    have "pos \<notin> fst ` set (sc_nodes (w_scales w ! s))" using new by (simp add: map_of_eq_None_iff)
    then show "distinct (map fst (sc_nodes (w_scales v ! t)))" using old sc [OF t] by (cases "t = s") simp_all
    fix x q
    have "map_of (sc_nodes (w_scales w ! t)) x = Some q \<longleftrightarrow> loc w q = Some (t, x)"
      using o(4) t unfolding nodes_ok_def by (simp del: map_of_eq_Some_iff)
    moreover have "map_of (sc_nodes (w_scales v ! t)) x
        = (if t = s \<and> x = pos then Some ?p else map_of (sc_nodes (w_scales w ! t)) x)"
      using sc [OF t] new by (auto simp: map_add_def split: option.splits)
    ultimately show "map_of (sc_nodes (w_scales v ! t)) x = Some q \<longleftrightarrow> loc v q = Some (t, x)"
      unfolding h using none [of q] lp by auto
  next
    fix q t x
    assume "loc v q = Some (t, x)"
    then show "t < w_max_scale v" "coords_ok x" "q < w_next v"
      using s pos loc_facts(1-3) [OF o(4), of q t x] unfolding h by (auto simp: v split: if_splits)
  qed
  have lk: "linked v a \<Longrightarrow> linked w a \<and> a \<noteq> ?p" for a
    unfolding linked_st_of h by (auto split: if_splits)
  have full: "links_full v"
    unfolding links_full_def
  proof (intro conjI allI impI; elim conjE)
    fix a i b
    assume "near v a i b" and lab: "linked v a" "linked v b"
    then have "near w a i b" using lk by (auto simp: near_def h split: if_splits)
    then show "nb v a i = Some b" using o(6) lk [OF lab(1)] lk [OF lab(2)] unfolding links_full_def l by blast
  next
    fix a c b
    assume "over v b c a" and lab: "linked v a" "linked v b"
    then have "over w b c a" using lk by (auto simp: over_def h split: if_splits)
    then show "pa v a = Some (b, c)" using o(6) lk [OF lab(1)] lk [OF lab(2)] unfolding links_full_def l by blast
  qed
  have tasks: "tasks_ok v"
    by (rule tasks_ok_new [OF o(8) fresh(2) h(3)]) (simp_all add: v)
  have states: "states_ok v" using o(7) unfolding states_ok_def h by (auto split: if_splits)
  have st: "state_at v t c = (if t = s \<and> c = Loading then insert pos (state_at w t c) else state_at w t c)" for t c
  proof -
    have "y \<in> state_at v t c \<longleftrightarrow> (t = s \<and> c = Loading \<and> y = pos) \<or> y \<in> state_at w t c" for y
    proof -
      have up: "y \<in> state_at v t c" if "y \<in> state_at w t c"
      proof -
        from that obtain q where q: "loc w q = Some (t, y)" "st_of w q = Some c" by (auto simp: state_at_def)
        then have "q \<noteq> ?p" using lp by auto
        with q show ?thesis by (auto simp: state_at_def h)
      qed
      have new: "y \<in> state_at v t c" if "t = s" "c = Loading" "y = pos"
        using that by (auto simp: state_at_def h)
      have "(t = s \<and> c = Loading \<and> y = pos) \<or> y \<in> state_at w t c" if "y \<in> state_at v t c"
        using that by (auto simp: state_at_def h split: if_splits)
      with up new show ?thesis by blast
    qed
    then show ?thesis by auto
  qed
  have "pos \<notin> state_at w s c" for c using none by (auto simp: state_at_def)
  then have "lists_ok v"
    using o(2) sc unfolding lists_ok_def st by (auto simp: v)
  then show "world_ok v"
    using o(3) nodes links full states tasks by (simp add: world_ok_def core_ok_def v)
  show "same_setup w v" by (simp add: same_setup_def v)
qed

lemma update_node_ok:
  assumes ok: "world_ok w" and n: "w_heap w p = Some n"
    and v: "v = w\<lparr>w_heap := (w_heap w)(p := Some n')\<rparr>" and r: "io_round w v"
    and t: "task_of v = task_of w"
  shows "world_ok v" "same_setup w v"
proof -
  note d = io_roundD [OF r] and o = world_okD [OF ok]
  have "tasks_ok v" using o(8) tasks_ok_cong [OF t] by (simp add: v)
  then show "world_ok v"
    using o d core_io_round [OF o(1) r] by (simp add: world_ok_def lists_ok_def v)
  show "same_setup w v" by (simp add: same_setup_def v)
qed

lemma TouchNode_ok:
  assumes ok: "world_ok w" and s: "s < w_max_scale w" and pos: "coords_ok pos"
  shows "yields {} (TouchNode s now pos w) (\<lambda>v. world_ok v \<and> same_setup w v)"
proof -
  note o = world_okD [OF ok]
  show ?thesis
  proof (cases "map_of (sc_nodes (w_scales w ! s)) pos")
    case None
    have "sc_index (w_scales w ! s) = s" using o(4) s by (simp add: nodes_ok_def)
    with None s o(9) node_added [OF ok s pos None refl] show ?thesis
      by (simp add: TouchNode_def scale_at_def modify_scale_def Let_def)
  next
    case (Some p)
    then have "loc w p = Some (s, pos)" using o(4) s unfolding nodes_ok_def by blast
    then obtain n where n: "w_heap w p = Some n" using loc_live by blast
    let ?n = "n\<lparr>n_last_update_time := now\<rparr>"
    let ?v = "w\<lparr>w_heap := (w_heap w)(p := Some ?n)\<rparr>"
    have r: "io_round w ?v" by (rule io_round_update [OF n, where n' = ?n]) auto
    have "task_of ?v = task_of w" using n by (auto simp: task_of_def fun_eq_iff)
    from update_node_ok [OF ok n refl r this] Some n s o(9) show ?thesis
      by (simp add: TouchNode_def scale_at_def modify_node_def deref_def)
  qed
qed

lemma LoaderLoadNodes_ok:
  assumes ok: "world_ok w" and s: "s < w_max_scale w"
    and sphere: "\<And>start stop inside. l_sphere loader s = (start, stop, inside) \<Longrightarrow>
      \<forall>v \<in> set (ForEachCoordInSphere start stop inside). coords_ok v"
  shows "yields {} (LoaderLoadNodes s now loader w) (\<lambda>v. world_ok v \<and> same_setup w v)"
proof -
  note o = world_okD [OF ok]
  obtain start stop inside where sp: "l_sphere loader s = (start, stop, inside)" by (cases "l_sphere loader s") auto
  have "yields {} (rfold (TouchNode s now) (ForEachCoordInSphere start stop inside) w) (\<lambda>v. world_ok v \<and> same_setup w v)"
  proof (rule yields_rfold)
    fix x v
    assume "x \<in> set (ForEachCoordInSphere start stop inside)" "world_ok v \<and> same_setup w v"
    with TouchNode_ok [of v s x now] sphere [OF sp] s
    show "yields {} (TouchNode s now x v) (\<lambda>v. world_ok v \<and> same_setup w v)"
      by (auto simp: yields_empty same_setup_def)
  qed (use ok in \<open>simp add: same_setup_refl\<close>)
  then show ?thesis
    using s o(4,9) ok by (simp add: LoaderLoadNodes_def scale_at_def nodes_ok_def sp same_setup_refl)
qed

lemma unload_unutilized_ok:
  assumes ok: "world_ok w" and p: "loc w p = Some (s, pos)"
  shows "yields {} (unload_unutilized s now (pos, p) w)
    (\<lambda>v. world_ok v \<and> same_setup w v \<and> loc v = loc w \<and>
      st_of v = (st_of w)(p := (if (w_unloading w \<or> (\<exists>n. w_heap w p = Some n \<and>
          now - n_last_update_time n > w_node_keepalive w)) \<and> st_of w p = Some Loaded
        then Some Unloading else st_of w p)))"
proof -
  note o = world_okD [OF ok]
  note lf = loc_facts [OF o(4) p]
  from p obtain n where n: "w_heap w p = Some n" "n_position n = pos" "n_scale_index n = s" by (auto simp: loc_def)
  let ?c = "(w_unloading w \<or> now - n_last_update_time n > w_node_keepalive w) \<and> n_state n = Loaded"
  show ?thesis
  proof (cases ?c)
    case False
    then have "st_of w = (st_of w)(p := (if (w_unloading w \<or> (\<exists>n. w_heap w p = Some n \<and>
          now - n_last_update_time n > w_node_keepalive w)) \<and> st_of w p = Some Loaded
        then Some Unloading else st_of w p))"
      using n(1) by (auto simp: st_of_def fun_eq_iff)
    with False n(1) ok show ?thesis
      unfolding unload_unutilized_def deref_def by (auto simp: same_setup_refl)
  next
    case True
    let ?n = "n\<lparr>n_state := Unloading\<rparr>"
    let ?u = "w\<lparr>w_heap := (w_heap w)(p := Some ?n)\<rparr>"
    let ?f = "\<lambda>sc. sc\<lparr>sc_unloading_nodes := sc_unloading_nodes sc @ [pos]\<rparr>"
    let ?v = "?u\<lparr>w_scales := (w_scales ?u)[s := ?f (w_scales ?u ! s)]\<rparr>"
    have k: "loc ?u = loc w" "nb ?u = nb w" "ch ?u = ch w" "pa ?u = pa w" "masks_ok ?u = masks_ok w"
      "st_of ?u = (st_of w)(p := Some Unloading)" "task_of ?u = task_of w"
      using update_keeps [OF n(1), of ?u ?n] update_masks [OF n(1), of ?u ?n] n(1)
      by (auto simp: task_of_def fun_eq_iff)
    have stp: "st_of w p = Some Loaded" using True n(1) by (simp add: st_of_def)
    have "linked ?u = linked w"
      unfolding fun_eq_iff linked_st_of k(6) using stp by simp
    then have "links_full ?u" using links_full_cong [OF k(1,2,4)] o(6) by simp
    moreover have "nodes_ok ?u" using nodes_ok_cong [of ?u w] k(1) o(4) by simp
    moreover have "links_ok ?u" using links_ok_cong [OF k(1-5)] o(5) by simp
    moreover have "tasks_ok ?u" using tasks_ok_cong [OF k(7)] o(8) by simp
    moreover have "states_ok ?u" using o(7) unfolding states_ok_def k(6) by auto
    ultimately have core: "core_ok ?u" by (simp add: core_ok_def)
    have su: "s < w_max_scale ?u" using lf(1) by simp
    note cs = core_ok_scales [OF core su, of ?f, OF _ _ refl]
    have hv: "loc ?v = loc w" "st_of ?v = (st_of w)(p := Some Unloading)"
      unfolding k(1) [symmetric] k(6) [symmetric] by (simp_all add: loc_def st_of_def fun_eq_iff)
    have st: "state_at ?v s' c = (if s' = s \<and> c = Unloading then insert pos (state_at w s' c)
        else if s' = s \<and> c = Loaded then state_at w s' c - {pos} else state_at w s' c)" for s' c
      using hv by (intro state_at_upd [OF o(4) p stp])
    have "pos \<notin> state_at w s Unloading"
      using loc_inj [OF o(4) p] stp by (auto simp: state_at_def)
    then have "lists_ok ?v"
      using o(2) lf(1,4) unfolding lists_ok_def st by (auto simp: nth_list_update)
    then have "world_ok ?v" using cs(1) o(3) by (simp add: world_ok_def)
    moreover have "unload_unutilized s now (pos, p) w = Inr ?v"
      using True n lf(4) by (simp add: unload_unutilized_def deref_def modify_node_def modify_scale_def scale_at_def)
    moreover have "(w_unloading w \<or> (\<exists>n. w_heap w p = Some n \<and> now - n_last_update_time n > w_node_keepalive w))"
      using True n(1) by auto
    ultimately show ?thesis using hv stp by (simp add: same_setup_def)
  qed
qed

lemma scale_entry:
  assumes "nodes_ok w" "s < w_max_scale w" "(pos, p) \<in> set (sc_nodes (w_scales w ! s))"
  shows "loc w p = Some (s, pos)"
  using assms unfolding nodes_ok_def by auto

lemma ScaleUnloadUnutilizedNodes_ok:
  assumes ok: "world_ok w" and s: "s < w_max_scale w"
  shows "yields {} (ScaleUnloadUnutilizedNodes s now w)
    (\<lambda>v. world_ok v \<and> same_setup w v \<and> loc v = loc w)"
proof -
  note o = world_okD [OF ok]
  have "yields {} (rfold (unload_unutilized s now) (sc_nodes (w_scales w ! s)) w)
      (\<lambda>v. world_ok v \<and> same_setup w v \<and> loc v = loc w)"
  proof (rule yields_rfold)
    fix e v
    assume e: "e \<in> set (sc_nodes (w_scales w ! s))" and v: "world_ok v \<and> same_setup w v \<and> loc v = loc w"
    obtain pos p where ep: "e = (pos, p)" by force
    have "loc v p = Some (s, pos)" using scale_entry [OF o(4) s] e v ep by simp
    then show "yields {} (unload_unutilized s now e v) (\<lambda>x. world_ok x \<and> same_setup w x \<and> loc x = loc w)"
      using unload_unutilized_ok [of v p s pos now] v same_setup_trans unfolding ep yields_empty by metis
  qed (use ok in \<open>simp add: same_setup_refl\<close>)
  then show ?thesis using s o(9) by (simp add: ScaleUnloadUnutilizedNodes_def scale_at_def)
qed

lemma UnloadWorld_ok: "world_ok w \<Longrightarrow> world_ok (UnloadWorld w)"
proof -
  assume ok: "world_ok w"
  let ?v = "UnloadWorld w"
  have h: "loc ?v = loc w" "nb ?v = nb w" "ch ?v = ch w" "pa ?v = pa w" "masks_ok ?v = masks_ok w"
    "st_of ?v = st_of w" "task_of ?v = task_of w"
    by (simp_all add: UnloadWorld_def fun_eq_iff loc_def nb_def ch_def pa_def masks_ok_def st_of_def task_of_def)
  have "linked ?v = linked w" unfolding fun_eq_iff linked_st_of h by simp
  then have "links_full ?v = links_full w" using h by (intro links_full_cong)
  moreover have "links_ok ?v = links_ok w" using h by (intro links_ok_cong)
  moreover have "nodes_ok ?v = nodes_ok w" using h by (intro nodes_ok_cong) (simp_all add: UnloadWorld_def)
  moreover have "tasks_ok ?v = tasks_ok w" using h by (intro tasks_ok_cong) (simp_all add: UnloadWorld_def)
  moreover have "states_ok ?v = states_ok w" unfolding states_ok_def h ..
  moreover have "state_at ?v = state_at w" using h by (intro state_at_cong)
  ultimately show "world_ok ?v"
    using ok by (simp add: world_ok_def core_ok_def lists_ok_def UnloadWorld_def)
qed

text \<open>A task of the worker pool finishes.\<close>

lemma run_pool_task_ok:
  assumes ok: "world_ok w"
  shows "yields {} (run_pool_task db_get db_set k w) (\<lambda>v. world_ok v \<and> same_setup w v)"
proof (cases "k < length (w_pool w)")
  case False
  with ok show ?thesis by (simp add: run_pool_task_def same_setup_refl)
next
  case True
  note o = world_okD [OF ok]
  obtain p kind where e: "w_pool w ! k = (p, kind)" by force
  have split: "w_pool w = take k (w_pool w) @ (p, kind) # drop (Suc k) (w_pool w)"
    using True e by (metis id_take_nth_drop)
  let ?pool = "take k (w_pool w) @ drop (Suc k) (w_pool w)"
  have dist: "distinct (map fst (w_pool w))" by (rule tasks_okD(1) [OF o(8)])
  have pool: "fst ` set ?pool = fst ` set (w_pool w) - {p}" "distinct (map fst ?pool)"
  proof -
    have "distinct (map fst (take k (w_pool w) @ (p, kind) # drop (Suc k) (w_pool w)))"
      using dist split by metis
    then have d: "distinct (map fst ?pool)" "p \<notin> fst ` set ?pool" by auto
    have "fst ` set (w_pool w) = insert p (fst ` set ?pool)"
      by (subst split) auto
    with d show "fst ` set ?pool = fst ` set (w_pool w) - {p}" "distinct (map fst ?pool)" by auto
  qed
  have "p \<in> fst ` set (w_pool w)" using True e by (metis fst_conv image_eqI nth_mem)
  from tasks_okD(3) [OF o(8) this] obtain ts t where tp: "task_of w p = Some (ts, Some t)" by blast
  then obtain n where n: "w_heap w p = Some n" "n_task_state n = ts" "n_task n = Some t"
    by (auto simp: task_of_def)
  have done_ok: "world_ok v \<and> same_setup w v"
    if v: "v = w\<lparr>w_pool := ?pool, w_database := db, w_heap := (w_heap w)(p := Some (n\<lparr>n_task := Some t'\<rparr>))\<rparr>"
      and fin: "iot_finished t'" for v t' db
  proof -
    have r: "io_round w v"
      by (rule io_round_update [OF n(1), where n' = "n\<lparr>n_task := Some t'\<rparr>"]) (simp_all add: v)
    note d = io_roundD [OF r]
    have tv: "task_of v = (task_of w)(p := Some (ts, Some t'))"
      using n by (auto simp: v task_of_def fun_eq_iff)
    have pv: "w_pool v = ?pool" "w_type v = w_type w" by (simp_all add: v)
    have "tasks_ok v"
      unfolding tasks_ok_def tv pv pool(1)
    proof (intro conjI ballI allI impI)
      fix q
      assume "q \<in> fst ` set (w_pool w) - {p}"
      with tasks_okD(3) [OF o(8), of q] show "\<exists>a b. ((task_of w)(p := Some (ts, Some t'))) q = Some (a, Some b)" by auto
    next
      fix q a b
      assume a: "((task_of w)(p := Some (ts, Some t'))) q = Some (a, Some b)"
      show "\<not> iot_finished b \<longleftrightarrow> q \<in> fst ` set (w_pool w) - {p}"
      proof (cases "q = p")
        case True
        with a fin show ?thesis by simp
      next
        case False
        with a tasks_okD(4) [OF o(8), of q a b] show ?thesis by simp
      qed
    next
      fix q a b
      assume a: "((task_of w)(p := Some (ts, Some t'))) q = Some (a, b)"
      show "b \<noteq> None" if "a \<in> {ReadInProgress, WriteInProgress}"
        using a that tasks_okD(5) [OF o(8), of q] by (auto split: if_splits)
      show "b = None" if "a = WriteDone"
        using a that tasks_okD(6) [OF o(8), of q] tp by (auto split: if_splits)
    next
      show "td_local (w_type w) \<or> ?pool = []" using tasks_okD(2) [OF o(8)] by auto
    qed (use pool(2) in simp)
    then have "world_ok v"
      using core_io_round [OF o(1) r] o(2,3) d by (simp add: world_ok_def lists_ok_def)
    then show ?thesis using d(8,9) by (simp add: same_setup_def v)
  qed
  show ?thesis
  proof (cases kind)
    case NodeRead
    obtain st bytes where g: "db_get (w_database w) (iot_coord t) = (st, bytes)" by force
    have "run_pool_task db_get db_set k w = Inr (w\<lparr>w_pool := ?pool, w_database := w_database w,
        w_heap := (w_heap w)(p := Some (n\<lparr>n_task := Some (t\<lparr>iot_data := bytes, iot_status := st, iot_finished := True\<rparr>)\<rparr>))\<rparr>)"
      using True e NodeRead n g
      by (simp add: run_pool_task_def NodeReadIOTask_def deref_def modify_node_def Let_def)
    then show ?thesis by (simp only: yields_simps) (rule done_ok [OF refl], simp)
  next
    case NodeWrite
    obtain st db where g: "db_set (w_database w) (iot_coord t) (iot_data t) = (st, db)" by force
    have "run_pool_task db_get db_set k w = Inr (w\<lparr>w_pool := ?pool, w_database := db,
        w_heap := (w_heap w)(p := Some (n\<lparr>n_task := Some (t\<lparr>iot_status := st, iot_finished := True\<rparr>)\<rparr>))\<rparr>)"
      using True e NodeWrite n g
      by (simp add: run_pool_task_def NodeWriteIOTask_def deref_def modify_node_def Let_def)
    then show ?thesis by (simp only: yields_simps) (rule done_ok [OF refl], simp)
  qed
qed

end
