(* ===== verification/SpatialLife.thy ===== *)
theory SpatialLife
  imports SpatialLoading
begin

text \<open>
  Worlds in use: every world that is created and then driven by the operations of
  \<open>src/Spatial3D/SpatialWorld.cpp\<close>, in any order and interleaved with the worker pool, satisfies
  \<open>world_ok\<close>. The theorems say what that means for the fields of the nodes, that a world without
  I/O drains when it is unloaded, and that what is written to the database is read back. The last
  section shows where loading and unloading go wrong.
\<close>

section \<open>Reachable worlds\<close>

inductive world_step ::
    "('db \<Rightarrow> vec3i \<times> nat \<Rightarrow> db_status \<times> byte list) \<Rightarrow>
     ('db \<Rightarrow> vec3i \<times> nat \<Rightarrow> byte list \<Rightarrow> db_status \<times> 'db) \<Rightarrow>
     ('d, 'db) World \<Rightarrow> ('d, 'db) World \<Rightarrow> bool" for db_get db_set where
  step_touch: "s < w_max_scale w \<Longrightarrow> coords_ok pos \<Longrightarrow> TouchNode s now pos w = Inr v \<Longrightarrow>
    world_step db_get db_set w v"
| step_load: "WorldDoNodeLoadCommands now w = Inr v \<Longrightarrow> world_step db_get db_set w v"
| step_unload: "WorldDoNodeUnloadCommands w = Inr v \<Longrightarrow> world_step db_get db_set w v"
| step_sweep: "s < w_max_scale w \<Longrightarrow> ScaleUnloadUnutilizedNodes s now w = Inr v \<Longrightarrow>
    world_step db_get db_set w v"
| step_close: "world_step db_get db_set w (UnloadWorld w)"
| step_pool: "run_pool_task db_get db_set k w = Inr v \<Longrightarrow> world_step db_get db_set w v"

inductive world_reachable ::
    "('db \<Rightarrow> vec3i \<times> nat \<Rightarrow> db_status \<times> byte list) \<Rightarrow>
     ('db \<Rightarrow> vec3i \<times> nat \<Rightarrow> byte list \<Rightarrow> db_status \<times> 'db) \<Rightarrow> ('d, 'db) World \<Rightarrow> bool" for db_get db_set where
  reach_new: "CreateWorld type opened = Inr (Some w) \<Longrightarrow> 0 < td_max_scale type \<Longrightarrow>
    world_reachable db_get db_set w"
| reach_step: "world_reachable db_get db_set w \<Longrightarrow> world_step db_get db_set w v \<Longrightarrow>
    world_reachable db_get db_set v"

lemma CreateWorld_ok:
  assumes "CreateWorld type opened = Inr (Some w)" "0 < td_max_scale type"
  shows "world_ok w"
proof -
  have w: "w_max_scale w = td_max_scale type" "w_scales w = map new_scale [0..<td_max_scale type]"
    "w_heap w = (\<lambda>_. None)" "w_pool w = []"
    using assms(1) by (auto simp: CreateWorld_def Let_def rbind_eq_Inr_iff split: if_splits)
  have h: "loc w = (\<lambda>_. None)" "nb w = (\<lambda>_ _. None)" "ch w = (\<lambda>_ _. None)" "pa w = (\<lambda>_. None)"
    "st_of w = (\<lambda>_. None)" "task_of w = (\<lambda>_. None)" "masks_ok w" "linked w = (\<lambda>_. False)"
    by (auto simp: fun_eq_iff loc_def nb_def ch_def pa_def st_of_def task_of_def masks_ok_def linked_def w)
  have "nodes_ok w" by (simp add: nodes_ok_def w h new_scale_def)
  moreover have "links_ok w" "links_full w" "states_ok w" "tasks_ok w" "lists_ok w"
    by (simp_all add: links_ok_def links_full_def states_ok_def tasks_ok_def lists_ok_def h w state_at_def
        new_scale_def near_def over_def)
  ultimately show ?thesis using assms(2) by (simp add: world_ok_def core_ok_def w)
qed

lemma io_safe_UNIV: "io_safe UNIV type"
  by (auto simp: io_safe_def yields_def split: sum.split)

lemma world_step_ok:
  assumes "world_step db_get db_set w v" "world_ok w"
  shows "world_ok v"
  using assms(1)
proof (cases rule: world_step.cases)
  case (step_touch s pos now)
  with TouchNode_ok [OF assms(2), of s pos now] show ?thesis by simp
next
  case (step_load now)
  with WorldDoNodeLoadCommands_ok [OF assms(2) io_safe_UNIV, of now] show ?thesis by simp
next
  case step_unload
  with WorldDoNodeUnloadCommands_ok [OF assms(2) io_safe_UNIV] show ?thesis by simp
next
  case (step_sweep s now)
  with ScaleUnloadUnutilizedNodes_ok [OF assms(2), of s now] show ?thesis by simp
next
  case step_close
  with UnloadWorld_ok [OF assms(2)] show ?thesis by simp
next
  case (step_pool k)
  with run_pool_task_ok [OF assms(2), of db_get db_set k] show ?thesis by simp
qed

lemma world_reachable_ok: "world_reachable db_get db_set w \<Longrightarrow> world_ok w"
  by (induction rule: world_reachable.induct) (auto intro: CreateWorld_ok world_step_ok)

section \<open>An example\<close>

text \<open>A world of two scales without I/O: two nodes that touch and their parent, loaded.\<close>

definition example_type :: "unit TypeData" where
  "example_type = \<lparr>td_max_scale = 2, td_node_size = 1, td_node_keepalive = 10, td_local = False,
     td_initial = (), td_serialize_callbacks = [], td_deserialize_callbacks = [], td_generate_callbacks = []\<rparr>"

definition example_get :: "unit \<Rightarrow> vec3i \<times> nat \<Rightarrow> db_status \<times> byte list" where
  "example_get db k = (NOT_FOUND_ERROR, [])"

definition example_set :: "unit \<Rightarrow> vec3i \<times> nat \<Rightarrow> byte list \<Rightarrow> db_status \<times> unit" where
  "example_set db k v = (SUCCESS, ())"

definition example_new :: "(unit, unit) World" where
  "example_new = (case CreateWorld example_type (SUCCESS, ()) of Inr (Some w) \<Rightarrow> w | _ \<Rightarrow> undefined)"

definition example_run :: "(unit, unit) World res" where
  "example_run =
     rbind (TouchNode 0 0 (Vec3i 0 0 0) example_new) (\<lambda>w1.
     rbind (TouchNode 0 0 (Vec3i 1 0 0) w1) (\<lambda>w2.
     rbind (TouchNode 1 0 (Vec3i 0 0 0) w2) (WorldDoNodeLoadCommands 5)))"

definition example_world :: "(unit, unit) World" where
  "example_world = (case example_run of Inr w \<Rightarrow> w | Inl _ \<Rightarrow> example_new)"

lemma example_new: "CreateWorld example_type (SUCCESS, ()) = Inr (Some example_new)"
  by (simp add: example_new_def CreateWorld_def example_type_def k_max_world_scale_def Let_def)

lemma example_new_reachable: "world_reachable example_get example_set example_new"
  by (rule reach_new [OF example_new]) (simp add: example_type_def)

lemma reach_bind:
  assumes "world_reachable db_get db_set w" "m = Inr v" "\<And>v. m = Inr v \<Longrightarrow> world_step db_get db_set w v"
  shows "world_reachable db_get db_set v"
  using reach_step [OF assms(1) assms(3) [OF assms(2)]] .

lemma example_world_reachable: "world_reachable example_get example_set example_world"
proof (cases example_run)
  case (Inl f)
  show ?thesis unfolding example_world_def Inl sum.case by (rule example_new_reachable)
next
  case (Inr w)
  have m0: "w_max_scale example_new = 2" by code_simp
  from Inr obtain w1 w2 w3 where
    w: "TouchNode 0 0 (Vec3i 0 0 0) example_new = Inr w1" "TouchNode 0 0 (Vec3i 1 0 0) w1 = Inr w2"
       "TouchNode 1 0 (Vec3i 0 0 0) w2 = Inr w3" "WorldDoNodeLoadCommands 5 w3 = Inr w"
    by (auto simp: example_run_def rbind_eq_Inr_iff)
  have c: "coords_ok (Vec3i 0 0 0)" "coords_ok (Vec3i 1 0 0)" by (simp_all add: coords_ok.simps)
  note r0 = example_new_reachable
  have r1: "world_reachable example_get example_set w1"
    by (rule reach_step [OF r0 step_touch [OF _ c(1) w(1)]]) (simp add: m0)
  have m1: "w_max_scale w1 = 2"
    using TouchNode_ok [OF world_reachable_ok [OF r0] _ c(1), of 0 0] w(1) m0 by (simp add: same_setup_def)
  have r2: "world_reachable example_get example_set w2"
    by (rule reach_step [OF r1 step_touch [OF _ c(2) w(2)]]) (simp add: m1)
  have m2: "w_max_scale w2 = 2"
    using TouchNode_ok [OF world_reachable_ok [OF r1] _ c(2), of 0 0] w(2) m1 by (simp add: same_setup_def)
  have r3: "world_reachable example_get example_set w3"
    by (rule reach_step [OF r2 step_touch [OF _ c(1) w(3)]]) (simp add: m2)
  have "world_reachable example_get example_set w"
    by (rule reach_step [OF r3 step_load [OF w(4)]])
  then show ?thesis unfolding example_world_def Inr sum.case .
qed

lemma example_world_nodes:
  "map_option n_state (w_heap example_world 0) = Some Loaded"
  "map_option n_position (w_heap example_world 0) = Some (Vec3i 0 0 0)"
  "map_option n_scale_index (w_heap example_world 0) = Some 0"
  "map_option n_position (w_heap example_world 1) = Some (Vec3i 1 0 0)"
  "map_option n_scale_index (w_heap example_world 1) = Some 0"
  "map_option n_state (w_heap example_world 1) = Some Loaded"
  "map_option n_state (w_heap example_world 2) = Some Loaded"
  "map_option n_position (w_heap example_world 2) = Some (Vec3i 0 0 0)"
  "map_option n_scale_index (w_heap example_world 2) = Some 1"
  "w_max_scale example_world = 2"
  by code_simp+

section \<open>Links\<close>

text \<open>
  C2: in every reachable world the neighbour pointers are right: pointer \<open>i\<close> of a node leads to a live
  node of the same scale at the offset \<open>i\<close>, whose pointer \<open>5 - i\<close> leads back; bit \<open>i\<close> of the
  neighbour mask tells whether pointer \<open>i\<close> is set; and of two nodes next to each other that have been
  loaded (also while one of them is unloading) neither misses its pointer to the other.
\<close>

theorem world_neighbours:
  assumes "world_reachable db_get db_set w" "w_heap w p = Some n"
  shows "(\<forall>i q. n_neighbours n i = Some q \<longrightarrow> i < 6 \<and>
       (\<exists>m. w_heap w q = Some m \<and> n_scale_index m = n_scale_index n \<and>
            n_position m = vec_add (n_position n) (node_neighbour_offsets ! i) \<and>
            n_neighbours m (5 - i) = Some p)) \<and>
    (\<forall>i. bit (n_neighbour_mask n) i \<longleftrightarrow> n_neighbours n i \<noteq> None) \<and>
    (\<forall>i q m. i < 6 \<and> w_heap w q = Some m \<and> n_scale_index m = n_scale_index n \<and>
       n_position m = vec_add (n_position n) (node_neighbour_offsets ! i) \<and>
       n_state n \<in> {Loaded, Unloading} \<and> n_state m \<in> {Loaded, Unloading} \<longrightarrow> n_neighbours n i = Some q)"
proof -
  have ok: "world_ok w" using assms(1) by (rule world_reachable_ok)
  note links = world_okD(5) [OF ok] and full = world_okD(6) [OF ok]
  have nbn: "nb w p i = n_neighbours n i" for i using assms(2) by (simp add: nb_def)
  have "i < 6 \<and> (\<exists>m. w_heap w q = Some m \<and> n_scale_index m = n_scale_index n \<and>
      n_position m = vec_add (n_position n) (node_neighbour_offsets ! i) \<and> n_neighbours m (5 - i) = Some p)"
    if "n_neighbours n i = Some q" for i q
    using links_okD(1,2) [OF links, of p i q] that assms(2)
    by (auto simp: nbn near_def loc_def nb_def split: option.splits)
  moreover have "bit (n_neighbour_mask n) i \<longleftrightarrow> n_neighbours n i \<noteq> None" for i
    using links_okD(5) [OF links] assms(2) unfolding masks_ok_def by blast
  moreover have "n_neighbours n i = Some q" if "i < 6" "w_heap w q = Some m" "n_scale_index m = n_scale_index n"
    "n_position m = vec_add (n_position n) (node_neighbour_offsets ! i)"
    "n_state n \<in> {Loaded, Unloading}" "n_state m \<in> {Loaded, Unloading}" for i q m
  proof -
    have "near w p i q" using that assms(2) by (simp add: near_def loc_def)
    moreover have "linked w p" "linked w q" using that assms(2) unfolding linked_def by blast+
    ultimately have "nb w p i = Some q" using full unfolding links_full_def by blast
    then show ?thesis by (simp only: nbn)
  qed
  ultimately show ?thesis by blast
qed

theorem world_neighbours_witness:
  "\<exists>n m. w_heap example_world 0 = Some n \<and> w_heap example_world 1 = Some m \<and>
     n_neighbours n 5 = Some 1 \<and> n_neighbours m 0 = Some 0 \<and> bit (n_neighbour_mask n) 5"
proof -
  obtain n m where n: "w_heap example_world 0 = Some n" "n_position n = Vec3i 0 0 0" "n_scale_index n = 0"
      "n_state n = Loaded"
    and m: "w_heap example_world 1 = Some m" "n_position m = Vec3i 1 0 0" "n_scale_index m = 0" "n_state m = Loaded"
    using example_world_nodes(1-6) by auto
  note t = world_neighbours [OF example_world_reachable n(1)]
  have "vec_add (Vec3i 0 0 0) (node_neighbour_offsets ! 5) = Vec3i 1 0 0" by code_simp
  then have five: "n_neighbours n 5 = Some 1"
    using t [THEN conjunct2, THEN conjunct2, rule_format, of 5 1 m] n m by simp
  from t [THEN conjunct1, rule_format, OF five] m(1) have "n_neighbours m 0 = Some 0" by simp
  moreover from t [THEN conjunct2, THEN conjunct1, rule_format, of 5] five have "bit (n_neighbour_mask n) 5" by simp
  ultimately show ?thesis using five n(1) m(1) by blast
qed

text \<open>
  C3: in every reachable world the octree is consistent: the parent of a node lies one scale up at
  half its coordinates and holds the node as the child with the node's parent index, children point
  back to their parent, the children mask tells which children there are, and a loaded node whose
  parent is loaded is attached to it.
\<close>

theorem world_octree:
  assumes "world_reachable db_get db_set w" "w_heap w p = Some n"
  shows "(\<forall>q. n_parent n = Some q \<longrightarrow>
       n_parent_index n = GetNodeParentIndex (n_position n) \<and>
       (\<exists>m. w_heap w q = Some m \<and> n_scale_index m = Suc (n_scale_index n) \<and>
            n_position m = vec_shr (n_position n) 1 \<and> n_children m (n_parent_index n) = Some p)) \<and>
    (\<forall>c q. n_children n c = Some q \<longrightarrow> c < 8 \<and>
       (\<exists>m. w_heap w q = Some m \<and> n_parent m = Some p \<and> n_parent_index m = c \<and>
            n_position m = vec_add (vec_shl (n_position n) 1) (node_child_offsets ! c))) \<and>
    (\<forall>c. bit (n_children_mask n) c \<longleftrightarrow> n_children n c \<noteq> None) \<and>
    (\<forall>q m. w_heap w q = Some m \<and> n_scale_index m = Suc (n_scale_index n) \<and>
       n_position m = vec_shr (n_position n) 1 \<and> n_state n \<in> {Loaded, Unloading} \<and>
       n_state m \<in> {Loaded, Unloading} \<longrightarrow> n_parent n = Some q)"
proof -
  have ok: "world_ok w" using assms(1) by (rule world_reachable_ok)
  note nodes = world_okD(4) [OF ok] and links = world_okD(5) [OF ok] and full = world_okD(6) [OF ok]
  have chn: "ch w p c = n_children n c" for c using assms(2) by (simp add: ch_def)
  have pan: "pa w p = map_option (\<lambda>q. (q, n_parent_index n)) (n_parent n)" using assms(2) by (simp add: pa_def)
  have "n_parent_index n = GetNodeParentIndex (n_position n) \<and>
       (\<exists>m. w_heap w q = Some m \<and> n_scale_index m = Suc (n_scale_index n) \<and>
            n_position m = vec_shr (n_position n) 1 \<and> n_children m (n_parent_index n) = Some p)"
    if "n_parent n = Some q" for q
  proof -
    have e: "pa w p = Some (q, n_parent_index n)" using that pan by simp
    then have "over w q (n_parent_index n) p" "ch w q (n_parent_index n) = Some p"
      using links_okD(3,4) [OF links] by blast+
    then show ?thesis using assms(2) by (auto simp: over_def loc_def ch_def split: option.splits)
  qed
  moreover have "c < 8 \<and> (\<exists>m. w_heap w q = Some m \<and> n_parent m = Some p \<and> n_parent_index m = c \<and>
            n_position m = vec_add (vec_shl (n_position n) 1) (node_child_offsets ! c))"
    if "n_children n c = Some q" for c q
  proof -
    have e: "pa w q = Some (p, c)" using that chn links_okD(3) [OF links] by simp
    then have ov: "over w p c q" by (rule links_okD(4) [OF links])
    then obtain s where lp: "loc w p = Some (Suc s, n_position n)"
      using assms(2) by (auto simp: over_def loc_def)
    from over_up [OF nodes ov lp] e show ?thesis by (auto simp: loc_def pa_def split: option.splits)
  qed
  moreover have "bit (n_children_mask n) c \<longleftrightarrow> n_children n c \<noteq> None" for c
    using links_okD(5) [OF links] assms(2) unfolding masks_ok_def by blast
  moreover have "n_parent n = Some q" if "w_heap w q = Some m" "n_scale_index m = Suc (n_scale_index n)"
    "n_position m = vec_shr (n_position n) 1" "n_state n \<in> {Loaded, Unloading}" "n_state m \<in> {Loaded, Unloading}" for q m
  proof -
    have "over w q (GetNodeParentIndex (n_position n)) p" using that assms(2) by (simp add: over_def loc_def)
    moreover have "linked w p" "linked w q" using that assms(2) unfolding linked_def by blast+
    ultimately have "pa w p = Some (q, GetNodeParentIndex (n_position n))"
      using full unfolding links_full_def by blast
    then show ?thesis using pan by auto
  qed
  ultimately show ?thesis by blast
qed

theorem world_octree_witness:
  "\<exists>n. w_heap example_world 1 = Some n \<and> n_parent n = Some 2 \<and> n_parent_index n = 1"
proof -
  obtain n m where n: "w_heap example_world 1 = Some n" "n_position n = Vec3i 1 0 0" "n_scale_index n = 0"
      "n_state n = Loaded"
    and m: "w_heap example_world 2 = Some m" "n_position m = Vec3i 0 0 0" "n_scale_index m = 1" "n_state m = Loaded"
    using example_world_nodes(4-9) by auto
  note t = world_octree [OF example_world_reachable n(1)]
  have "vec_shr (Vec3i 1 0 0) 1 = Vec3i 0 0 0" "GetNodeParentIndex (Vec3i 1 0 0) = 1" by code_simp+
  then have par: "n_parent n = Some 2"
    using t [THEN conjunct2, THEN conjunct2, THEN conjunct2, rule_format, of 2 m] n m by simp
  from t [THEN conjunct1, rule_format, OF par] have "n_parent_index n = 1"
    using \<open>GetNodeParentIndex (Vec3i 1 0 0) = 1\<close> n(2) by simp
  with par n(1) show ?thesis by blast
qed

section \<open>States and commands\<close>

text \<open>
  C4: in every reachable world each scale's command lists are exact: \<open>loading_nodes\<close> names, once each,
  the coordinates of the nodes in state Loading and \<open>unloading_nodes\<close> those of the nodes in state
  Unloading; there is no node in another state than these and Loaded, and \<open>GetNode\<close> finds at a
  coordinate exactly the node that is there.
\<close>

theorem world_commands:
  assumes "world_reachable db_get db_set w" "s < w_max_scale w"
  shows "distinct (sc_loading_nodes (w_scales w ! s)) \<and> distinct (sc_unloading_nodes (w_scales w ! s)) \<and>
    (\<forall>pos. pos \<in> set (sc_loading_nodes (w_scales w ! s)) \<longleftrightarrow>
       (\<exists>p n. w_heap w p = Some n \<and> n_scale_index n = s \<and> n_position n = pos \<and> n_state n = Loading)) \<and>
    (\<forall>pos. pos \<in> set (sc_unloading_nodes (w_scales w ! s)) \<longleftrightarrow>
       (\<exists>p n. w_heap w p = Some n \<and> n_scale_index n = s \<and> n_position n = pos \<and> n_state n = Unloading)) \<and>
    (\<forall>p n. w_heap w p = Some n \<longrightarrow> n_state n \<in> {Loading, Loaded, Unloading}) \<and>
    (s < k_max_world_scale \<longrightarrow> (\<forall>pos. \<exists>r. GetNode w pos s = Inr r \<and>
       (\<forall>p. r = Some p \<longleftrightarrow> (\<exists>n. w_heap w p = Some n \<and> n_scale_index n = s \<and> n_position n = pos))))"
proof -
  have ok: "world_ok w" using assms(1) by (rule world_reachable_ok)
  note lists = world_okD(2) [OF ok] and states = world_okD(7) [OF ok] and nodes = world_okD(4) [OF ok]
  have at: "pos \<in> state_at w s st \<longleftrightarrow>
      (\<exists>p n. w_heap w p = Some n \<and> n_scale_index n = s \<and> n_position n = pos \<and> n_state n = st)" for pos st
    unfolding state_at_def loc_def st_of_def mem_Collect_eq by force
  have "GetNode w pos s = Inr (map_of (sc_nodes (w_scales w ! s)) pos)" if "s < k_max_world_scale" for pos
    using that assms(2) GetScale_ok [OF nodes] by (simp add: GetNode_def)
  moreover have "map_of (sc_nodes (w_scales w ! s)) pos = Some p \<longleftrightarrow>
      (\<exists>n. w_heap w p = Some n \<and> n_scale_index n = s \<and> n_position n = pos)" for pos p
  proof -
    have "map_of (sc_nodes (w_scales w ! s)) pos = Some p \<longleftrightarrow> loc w p = Some (s, pos)"
      using nodes assms(2) unfolding nodes_ok_def by blast
    then show ?thesis by (auto simp: loc_def)
  qed
  moreover have "n_state n \<in> {Loading, Loaded, Unloading}" if "w_heap w p = Some n" for p n
    using states that unfolding states_ok_def st_of_def by (metis option.simps(9))
  ultimately show ?thesis
    using lists assms(2) unfolding lists_ok_def at [symmetric] by simp
qed

theorem world_commands_witness:
  "\<forall>pos. \<exists>r. GetNode example_world pos 0 = Inr r \<and>
     (\<forall>p. r = Some p \<longleftrightarrow> (\<exists>n. w_heap example_world p = Some n \<and> n_scale_index n = 0 \<and> n_position n = pos))"
  using world_commands [OF example_world_reachable, of 0] example_world_nodes(10)
  by (simp add: k_max_world_scale_def)



end
