(* ===== verification/SpatialUnload.thy ===== *)
theory SpatialUnload
  imports SpatialLife
begin

text \<open>
  Unloading and persistence. A world whose nodes need no I/O is empty after one round of loading,
  sweeping and unloading once it is told to unload; what a node writes to the database, the node
  loaded at the same coordinate reads. The last section holds the defects of the code.
\<close>

section \<open>A world without I/O drains\<close>

lemma run_commands_done:
  assumes cb: "command_callback F s st callback (w_type w)" and st: "st \<in> {Loading, Unloading}"
    and fin: "\<And>u p r. w_type u = w_type w \<Longrightarrow> callback p u = Inr r \<Longrightarrow> fst r"
    and core: "core_ok w" and cmds: "set cmds \<subseteq> state_at w s st" "distinct cmds"
    and run: "run_commands callback s cmds w = Inr (kept, v)"
  shows "kept = []"
  using assms
proof (induction cmds arbitrary: w kept)
  case Nil
  then show ?case by simp
next
  case (Cons pos cmds)
  obtain p where p: "loc w p = Some (s, pos)" "st_of w p = Some st"
    using Cons.prems(5) by (auto simp: state_at_def)
  have ok: "nodes_ok w" using Cons.prems(4) by (simp add: core_ok_def)
  note lf = loc_facts [OF ok p(1)]
  obtain e w1 kept' where r: "callback p w = Inr (e, w1)" "run_commands callback s cmds w1 = Inr (kept', v)"
    "kept = (if e then kept' else pos # kept')"
    using Cons.prems(7) lf by (auto simp: scale_at_def rbind_eq_Inr_iff)
  have e: e using Cons.prems(3) [OF refl r(1)] by simp
  have "yields F (callback p w) (after_command s st pos w)"
    using Cons.prems(1,4) p by (simp add: command_callback_def)
  then have a: "core_ok w1" "same_lists w w1" "state_at w1 s st = state_at w s st - {pos}"
    using r(1) e tracked_self(1) [OF st] by (auto simp: after_command_def)
  have ty: "w_type w1 = w_type w" using a(2) by (simp add: same_lists_def)
  have "kept' = []"
  proof (rule Cons.IH)
    show "set cmds \<subseteq> state_at w1 s st" using Cons.prems(5,6) a(3) by auto
  qed (use Cons.prems a r(2) ty in auto)
  with e r(3) show ?case by simp
qed

lemma ScaleDoNodeCommands_done:
  assumes ok: "world_ok w" and s: "s < w_max_scale w" and st: "st \<in> {Loading, Unloading}"
    and cb: "command_callback F s st callback (w_type w)"
    and fin: "\<And>u p r. w_type u = w_type w \<Longrightarrow> callback p u = Inr r \<Longrightarrow> fst r"
  shows "yields F (ScaleDoNodeCommands s st callback w) (\<lambda>v. state_at v s st = {})"
proof (cases "ScaleDoNodeCommands s st callback w")
  case (Inl f)
  with ScaleDoNodeCommands_ok [OF ok s st cb] show ?thesis by simp
next
  case (Inr v)
  note o = world_okD [OF ok]
  have v: "world_ok v" "w_max_scale v = w_max_scale w"
    using ScaleDoNodeCommands_ok [OF ok s st cb] Inr by (simp_all add: same_setup_def)
  have lists: "sc_loading_nodes (w_scales w ! s) = cmds \<Longrightarrow> set cmds = state_at w s Loading \<and> distinct cmds"
    "sc_unloading_nodes (w_scales w ! s) = cmds \<Longrightarrow> set cmds = state_at w s Unloading \<and> distinct cmds" for cmds
    using o(2) s by (auto simp: lists_ok_def)
  have vl: "set (sc_loading_nodes (w_scales v ! s)) = state_at v s Loading"
    "set (sc_unloading_nodes (w_scales v ! s)) = state_at v s Unloading"
    using world_okD(2) [OF v(1)] s v(2) by (auto simp: lists_ok_def)
  have empty: "state_at v s st = {}"
  proof (cases "st = Loading")
    case True
    then obtain kept u where u: "run_commands callback s (sc_loading_nodes (w_scales w ! s)) w = Inr (kept, u)"
      "modify_scale s (\<lambda>sc. sc\<lparr>sc_loading_nodes := kept\<rparr>) u = Inr v"
      using Inr s o(9) by (auto simp: ScaleDoNodeCommands_def scale_at_def rbind_eq_Inr_iff)
    have "kept = []"
      using lists(1) [OF refl] True u(1) by (intro run_commands_done [OF cb st fin o(1)]) auto
    with u(2) s v(2) have "sc_loading_nodes (w_scales v ! s) = []"
      by (auto simp: modify_scale_def scale_at_def rbind_eq_Inr_iff split: if_splits)
    with vl(1) True show ?thesis by simp
  next
    case False
    then have "st = Unloading" using st by simp
    then obtain kept u where u: "run_commands callback s (sc_unloading_nodes (w_scales w ! s)) w = Inr (kept, u)"
      "modify_scale s (\<lambda>sc. sc\<lparr>sc_unloading_nodes := kept\<rparr>) u = Inr v"
      using Inr s o(9) by (auto simp: ScaleDoNodeCommands_def scale_at_def rbind_eq_Inr_iff)
    have "kept = []"
      using lists(2) [OF refl] \<open>st = Unloading\<close> u(1) by (intro run_commands_done [OF cb st fin o(1)]) auto
    with u(2) s v(2) have "sc_unloading_nodes (w_scales v ! s) = []"
      by (auto simp: modify_scale_def scale_at_def rbind_eq_Inr_iff split: if_splits)
    with vl(2) \<open>st = Unloading\<close> show ?thesis by simp
  qed
  then show ?thesis using Inr by simp
qed

text \<open>Without I/O each command is carried out at once.\<close>

lemma load_node_finishes: "\<not> td_local (w_type u) \<Longrightarrow> load_node s now p u = Inr r \<Longrightarrow> fst r"
  by (auto simp: load_node_def finish_load_def rbind_eq_Inr_iff)

lemma unload_node_finishes: "\<not> td_local (w_type u) \<Longrightarrow> unload_node s p u = Inr r \<Longrightarrow> fst r"
  by (auto simp: unload_node_def finish_unload_def rbind_eq_Inr_iff)

lemma world_commands_done:
  assumes ok: "world_ok w" and st: "st \<in> {Loading, Unloading}"
    and cb: "\<And>s. command_callback {} s st (callback s) (w_type w)"
    and fin: "\<And>s u p r. w_type u = w_type w \<Longrightarrow> callback s p u = Inr r \<Longrightarrow> fst r"
  shows "yields {} (WorldForEachScale w (\<lambda>s. ScaleDoNodeCommands s st (callback s)) w)
    (\<lambda>v. \<forall>s. state_at v s st = {})"
proof -
  let ?I = "\<lambda>i v. world_ok v \<and> same_setup w v \<and> (\<forall>s < i. state_at v s st = {})"
  have "yields {} (WorldForEachScale w (\<lambda>s. ScaleDoNodeCommands s st (callback s)) w) (?I (w_max_scale w))"
  proof (rule WorldForEachScale_ok [where I = ?I])
    fix s v
    assume s: "s < w_max_scale w" and v: "?I s v"
    have ty: "w_type v = w_type w" and sv: "s < w_max_scale v" using v s by (simp_all add: same_setup_def)
    have cbv: "command_callback {} s st (callback s) (w_type v)" using cb ty by simp
    have okv: "world_ok v" using v by simp
    have A: "yields {} (ScaleDoNodeCommands s st (callback s) v) (\<lambda>x. state_at x s st = {})"
      by (rule ScaleDoNodeCommands_done [OF okv sv st cbv]) (use fin ty in auto)
    show "yields {} (ScaleDoNodeCommands s st (callback s) v) (?I (Suc s))"
    proof (rule yields_mono [OF yields_conj [OF A ScaleDoNodeCommands_ok [OF okv sv st cbv]] subset_refl])
      fix x
      assume x: "state_at x s st = {} \<and> world_ok x \<and> same_setup v x \<and>
        (\<forall>s' st'. st' \<in> tracked st \<longrightarrow> state_at x s' st' \<subseteq> state_at v s' st' \<and>
          ((s', st') \<noteq> (s, st) \<longrightarrow> state_at x s' st' = state_at v s' st'))"
      have "state_at x t st = {}" if "t < Suc s" for t
      proof (cases "t = s")
        case False
        with that v have "state_at v t st = {}" by simp
        then show ?thesis using x tracked_self(1) [OF st] by blast
      qed (use x in simp)
      moreover have "same_setup w x" using v x by (intro same_setup_trans [of w v x]) simp_all
      ultimately show "?I (Suc s) x" using x by simp
    qed
  qed (use ok world_okD(3,4) [OF ok] in \<open>simp_all add: same_setup_refl\<close>)
  then show ?thesis
  proof (rule yields_mono [OF _ subset_refl])
    fix v
    assume v: "?I (w_max_scale w) v"
    show "\<forall>s. state_at v s st = {}"
    proof
      fix s
      show "state_at v s st = {}"
      proof (cases "s < w_max_scale w")
        case False
        have "nodes_ok v" "w_max_scale v = w_max_scale w"
          using v world_okD(4) [of v] by (simp_all add: same_setup_def)
        then show ?thesis using False loc_facts(1) [of v] by (auto simp: state_at_def)
      qed (use v in simp)
    qed
  qed
qed

text \<open>Sweeping the scales of an unloading world leaves no node Loaded and touches no other.\<close>

definition swept :: "('d, 'db) World \<Rightarrow> ('d, 'db) World \<Rightarrow> bool" where
  "swept w v \<longleftrightarrow> world_ok v \<and> same_setup w v \<and> loc v = loc w \<and>
     (\<forall>q. st_of v q = st_of w q \<or> (st_of w q = Some Loaded \<and> st_of v q = Some Unloading))"

lemma ScaleUnloadUnutilizedNodes_all:
  assumes ok: "world_ok w" and s: "s < w_max_scale w" and un: "w_unloading w"
  shows "yields {} (ScaleUnloadUnutilizedNodes s now w) (\<lambda>v. swept w v \<and> state_at v s Loaded = {})"
proof -
  note o = world_okD [OF ok]
  let ?Q = "\<lambda>(e :: vec3i \<times> ptr) (u :: ('a, 'b) World). st_of u (snd e) \<noteq> Some Loaded"
  have "\<exists>v. rfold (unload_unutilized s now) (sc_nodes (w_scales w ! s)) w = Inr v \<and> swept w v \<and>
      (\<forall>e \<in> set (sc_nodes (w_scales w ! s)). ?Q e v) \<and> (\<forall>e. ?Q e w \<longrightarrow> ?Q e v)"
  proof (rule rfold_collect [where I = "swept w" and Q = ?Q])
    show "swept w w" using ok by (simp add: swept_def same_setup_refl)
  next
    fix e u
    assume e: "e \<in> set (sc_nodes (w_scales w ! s))" and u: "swept w u"
    obtain pos p where ep: "e = (pos, p)" by force
    have okp: "world_ok u" "loc u p = Some (s, pos)" "w_unloading u"
      using scale_entry [OF o(4) s] e u un ep by (auto simp: swept_def same_setup_def)
    from unload_unutilized_ok [OF okp(1,2), of now] obtain v where
      v: "unload_unutilized s now e u = Inr v" "world_ok v" "same_setup u v" "loc v = loc u"
        "st_of v = (st_of u)(p := (if st_of u p = Some Loaded then Some Unloading else st_of u p))"
      by (auto simp: yields_empty ep okp(3))
    have ch: "st_of v q = (if q = p \<and> st_of u q = Some Loaded then Some Unloading else st_of u q)" for q
      using v(5) by simp
    have "swept w v"
      unfolding swept_def
    proof (intro conjI allI)
      show "same_setup w v" using u v(3) by (intro same_setup_trans [of w u v]) (simp_all add: swept_def)
      show "loc v = loc w" using u v(4) by (simp add: swept_def)
      fix q
      have "st_of u q = st_of w q \<or> (st_of w q = Some Loaded \<and> st_of u q = Some Unloading)"
        using u by (simp add: swept_def)
      then show "st_of v q = st_of w q \<or> (st_of w q = Some Loaded \<and> st_of v q = Some Unloading)"
        unfolding ch by auto
    qed (rule v(2))
    moreover have "?Q e v" "\<forall>y. ?Q y u \<longrightarrow> ?Q y v" unfolding ch ep by auto
    ultimately show "\<exists>v. unload_unutilized s now e u = Inr v \<and> swept w v \<and> ?Q e v \<and> (\<forall>y. ?Q y u \<longrightarrow> ?Q y v)"
      using v(1) by blast
  qed
  then obtain v where v: "rfold (unload_unutilized s now) (sc_nodes (w_scales w ! s)) w = Inr v" "swept w v"
    "\<forall>e \<in> set (sc_nodes (w_scales w ! s)). ?Q e v" by blast
  have "st_of v p \<noteq> Some Loaded" if "loc v p = Some (s, pos)" for p pos
  proof -
    have "loc w p = Some (s, pos)" using that v(2) by (simp add: swept_def)
    then have "(pos, p) \<in> set (sc_nodes (w_scales w ! s))"
      using loc_facts(5) [OF o(4)] by (meson map_of_SomeD)
    with v(3) show ?thesis by auto
  qed
  then have "state_at v s Loaded = {}" by (auto simp: state_at_def)
  with v s o(9) show ?thesis by (simp add: ScaleUnloadUnutilizedNodes_def scale_at_def)
qed

lemma swept_states:
  assumes "swept w v"
  shows "state_at v s Loading = state_at w s Loading" "state_at v s Loaded \<subseteq> state_at w s Loaded"
proof -
  have a: "st_of v q = Some Loading \<longleftrightarrow> st_of w q = Some Loading" "st_of v q = Some Loaded \<Longrightarrow> st_of w q = Some Loaded" for q
    using assms by (auto simp: swept_def dest: spec [of _ q])
  have l: "loc v = loc w" using assms by (simp add: swept_def)
  show "state_at v s Loading = state_at w s Loading" "state_at v s Loaded \<subseteq> state_at w s Loaded"
    unfolding state_at_def l using a by auto
qed

lemma swept_trans: "swept w v \<Longrightarrow> swept v u \<Longrightarrow> swept w u"
  unfolding swept_def by (auto intro: same_setup_trans) (metis NodeState.distinct(15) option.inject)+

lemma io_safe_none: "\<not> td_local t \<Longrightarrow> io_safe {} t"
  by (simp add: io_safe_def)

definition sweep_scales :: "int \<Rightarrow> ('d, 'db) World \<Rightarrow> ('d, 'db) World res" where
  "sweep_scales now w = rfold (\<lambda>s. ScaleUnloadUnutilizedNodes s now) [0..<w_max_scale w] w"

lemma sweep_scales_all:
  assumes ok: "world_ok w" and un: "w_unloading w"
  shows "yields {} (sweep_scales now w) (\<lambda>v. swept w v \<and> (\<forall>s. state_at v s Loaded = {}))"
proof -
  have "yields {} (rfold (\<lambda>s. ScaleUnloadUnutilizedNodes s now) [0..<w_max_scale w] w)
      (\<lambda>v. swept w v \<and> (\<forall>s < w_max_scale w. state_at v s Loaded = {}))"
  proof (rule yields_rfold_upt [where I = "\<lambda>i v. swept w v \<and> (\<forall>s < i. state_at v s Loaded = {})"])
    fix i v
    assume i: "i < w_max_scale w" and v: "swept w v \<and> (\<forall>s < i. state_at v s Loaded = {})"
    have "world_ok v" "i < w_max_scale v" "w_unloading v"
      using v i un by (simp_all add: swept_def same_setup_def)
    from ScaleUnloadUnutilizedNodes_all [OF this, of now] obtain x where
      x: "ScaleUnloadUnutilizedNodes i now v = Inr x" "swept v x" "state_at x i Loaded = {}"
      by (auto simp: yields_empty)
    have "state_at x t Loaded = {}" if "t < Suc i" for t
      using that v x(3) swept_states(2) [OF x(2), of t] by (cases "t = i") auto
    then show "yields {} (ScaleUnloadUnutilizedNodes i now v) (\<lambda>x. swept w x \<and> (\<forall>s < Suc i. state_at x s Loaded = {}))"
      using x(1) v swept_trans [OF _ x(2), of w] by simp
  qed (use ok in \<open>simp add: swept_def same_setup_refl\<close>)
  then show ?thesis
    unfolding sweep_scales_def
  proof (rule yields_mono [OF _ subset_refl])
    fix v
    assume v: "swept w v \<and> (\<forall>s < w_max_scale w. state_at v s Loaded = {})"
    have "state_at v s Loaded = {}" for s
    proof (cases "s < w_max_scale w")
      case False
      have "nodes_ok v" "w_max_scale v = w_max_scale w"
        using v world_okD(4) [of v] by (simp_all add: swept_def same_setup_def)
      then show ?thesis using False loc_facts(1) [of v] by (auto simp: state_at_def)
    qed (use v in simp)
    with v show "swept w v \<and> (\<forall>s. state_at v s Loaded = {})" by simp
  qed
qed

lemma empty_world:
  assumes ok: "world_ok w" and none: "\<And>s st. st \<in> {Loading, Loaded, Unloading} \<Longrightarrow> state_at w s st = {}"
  shows "WorldGetNodeCount w = Inr 0" "DestroyWorld w = Inr ()"
proof -
  note o = world_okD [OF ok]
  have noloc: "loc w p = None" for p
  proof (cases "loc w p")
    case (Some l)
    obtain s v where l: "l = (s, v)" by force
    from st_of_loc [OF Some] obtain st where st: "st_of w p = Some st" ..
    with o(7) have "st \<in> {Loading, Loaded, Unloading}" unfolding states_ok_def by blast
    with none st Some l show ?thesis by (auto simp: state_at_def)
  qed
  have empty: "sc_nodes (w_scales w ! s) = []" "sc_loading_nodes (w_scales w ! s) = []"
    "sc_unloading_nodes (w_scales w ! s) = []" if "s < w_max_scale w" for s
  proof -
    show "sc_nodes (w_scales w ! s) = []"
    proof (rule ccontr)
      assume "sc_nodes (w_scales w ! s) \<noteq> []"
      then obtain e where "e \<in> set (sc_nodes (w_scales w ! s))" by (meson list.set_sel(1))
      with scale_entry [OF o(4) that, of "fst e" "snd e"] noloc show False by simp
    qed
    have "set (sc_loading_nodes (w_scales w ! s)) = {}" "set (sc_unloading_nodes (w_scales w ! s)) = {}"
      using o(2) that none by (simp_all add: lists_ok_def)
    then show "sc_loading_nodes (w_scales w ! s) = []" "sc_unloading_nodes (w_scales w ! s) = []" by auto
  qed
  have "yields {} (WorldGetNodeCount w) (\<lambda>v. v = 0)"
    unfolding WorldGetNodeCount_def
    by (rule WorldForEachScale_ok [where I = "\<lambda>i v. v = 0", OF o(4,3)])
      (use o(9) empty in \<open>simp_all add: ScaleGetNodeCount_def scale_at_def\<close>)
  then show "WorldGetNodeCount w = Inr 0" by (auto simp: yields_empty)
  have "yields {} (DestroyWorld w) (\<lambda>v. v = ())"
    unfolding DestroyWorld_def
    by (rule WorldForEachScale_ok [where I = "\<lambda>i v. v = ()", OF o(4,3)])
      (use o(9) empty in \<open>simp_all add: scale_at_def\<close>)
  then show "DestroyWorld w = Inr ()" by (auto simp: yields_empty)
qed



section \<open>Persistence\<close>


text \<open>A database that is a map, and nodes whose extra data is saved as it is.\<close>

type_synonym map_db = "vec3i \<times> nat \<Rightarrow> byte list option"

definition map_get :: "map_db \<Rightarrow> vec3i \<times> nat \<Rightarrow> db_status \<times> byte list" where
  "map_get db k = (case db k of None \<Rightarrow> (NOT_FOUND_ERROR, []) | Some v \<Rightarrow> (SUCCESS, v))"

definition map_set :: "map_db \<Rightarrow> vec3i \<times> nat \<Rightarrow> byte list \<Rightarrow> db_status \<times> map_db" where
  "map_set db k v = (SUCCESS, db(k := Some v))"

definition bytes_type :: "byte list TypeData" where
  "bytes_type = \<lparr>td_max_scale = 1, td_node_size = 1, td_node_keepalive = 10, td_local = True, td_initial = [],
     td_serialize_callbacks = [\<lambda>d wr. wr\<lparr>wr_buffer := wr_buffer wr @ d\<rparr>],
     td_deserialize_callbacks = [\<lambda>d r. Inr (rd_buffer r, r)], td_generate_callbacks = []\<rparr>"

definition bytes_new :: "(byte list, map_db) World" where
  "bytes_new = (case CreateWorld bytes_type (SUCCESS, \<lambda>_. None) of Inr (Some w) \<Rightarrow> w | _ \<Rightarrow> undefined)"

definition bytes_node :: "byte list \<Rightarrow> byte list Node" where
  "bytes_node d = new_node (Vec3i 3 0 (-4)) 0 0 d"

lemma bytes_new: "w_type bytes_new = bytes_type" "w_pool bytes_new = []"
  "w_scales bytes_new = [new_scale 0]" "w_max_scale bytes_new = 1"
  by (simp_all add: bytes_new_def CreateWorld_def bytes_type_def k_max_world_scale_def Let_def)

lemma bytes_codec: "serialize_node bytes_type d = d" "deserialize_node bytes_type d d0 = Inr d"
  by (simp_all add: serialize_node_def deserialize_node_def bytes_type_def new_writer_def new_reader_def)


section \<open>Defects\<close>

text \<open>
  While its read is still running \<open>ProgressNodeReadTask\<close> returns true, "done". The load command
  then finishes: the node is Loaded without its data and keeps the pending task.
\<close>

lemma load_without_data:
  assumes ok: "world_ok w" and p: "loc w p = Some (s, v)" "w_heap w p = Some n" "n_state n = Loading"
    "td_local (w_type w)" "n_task_state n = ReadInProgress" "n_task n = Some t" "\<not> iot_finished t"
  shows "\<exists>w' n'. load_node s now p w = Inr (True, w') \<and> w_heap w' p = Some n' \<and> n_state n' = Loaded \<and>
    n_data n' = n_data n \<and> n_task n' = Some t \<and> n_task_state n' = Idle"
proof -
  have n: "n_scale_index n = s" "n_position n = v" using p(1,2) by (auto simp: loc_def)
  let ?n = "n\<lparr>n_task_state := Idle\<rparr>"
  let ?w = "w\<lparr>w_heap := (w_heap w)(p := Some ?n)\<rparr>"
  note o = world_okD [OF ok]
  have tp: "task_of w p = Some (ReadInProgress, Some t)" using p by (simp add: task_of_def)
  have io: "io_round w ?w" by (rule io_round_update [OF p(2), where n' = ?n]) auto
  have "tasks_ok ?w" using p by (intro tasks_ok_idle [OF o(8) tp]) (auto simp: task_of_def)
  with io have core: "core_ok ?w" by (rule core_io_round [OF o(1)])
  from finish_loading [OF core, of p ?n s now] n p obtain e w' where
    run: "finish_load s now p v ?w = Inr (e, w')" by (auto simp: yields_empty)
  have fin: e
    using run by (auto simp: finish_load_def rbind_eq_Inr_iff)
  have load: "load_node s now p w = Inr (True, w')"
    using p n run fin
    by (simp add: load_node_def deref_def ProgressNodeReadTask_def modify_node_def)
  obtain u where u: "LinkNode p s u = Inr w'" "w_heap u p = Some (?n\<lparr>n_state := Loaded, n_last_update_time := now\<rparr>)"
    "nodes_ok u" "links_ok u" "loc u p = Some (s, v)"
  proof -
    let ?n2 = "?n\<lparr>n_state := Loaded, n_last_update_time := now\<rparr>"
    let ?u = "?w\<lparr>w_heap := (w_heap ?w)(p := Some ?n2)\<rparr>"
    have hp: "w_heap ?w p = Some ?n" by simp
    have k: "loc ?u = loc ?w" "nb ?u = nb ?w" "ch ?u = ch ?w" "pa ?u = pa ?w" "masks_ok ?u = masks_ok ?w"
      using update_keeps [OF hp, of ?u ?n2] update_masks [OF hp, of ?u ?n2] by auto
    have ok2: "nodes_ok ?u" "links_ok ?u"
      using core nodes_ok_cong [of ?u ?w] links_ok_cong [OF k] k(1) by (simp_all add: core_ok_def)
    have lp: "loc ?u p = Some (s, v)" using k(1) n by (simp add: loc_def)
    note lf = loc_facts [OF ok2(1) lp]
    have "finish_load s now p v ?w = rbind (LinkNode p s ?u) (\<lambda>w3. Inr (True, w3))"
      using lf by (simp add: finish_load_def modify_node_def deref_def scale_at_def modify_scale_same update_same_entry)
    then have "rbind (LinkNode p s ?u) (\<lambda>w3. Inr (True, w3)) = Inr (e, w')" using run by (rule trans [OF sym])
    then have "LinkNode p s ?u = Inr w'" unfolding rbind_eq_Inr_iff by blast
    with ok2 lp show ?thesis by (intro that [of ?u]) auto
  qed
  from LinkNode_ok [OF u(3-5)] u(1) have "skel u w'" by (simp add: link_round_def)
  then have "map_option strip (w_heap u p) = map_option strip (w_heap w' p)" by (simp add: skel_def)
  then obtain n' where n': "w_heap w' p = Some n'" "strip n' = strip (?n\<lparr>n_state := Loaded, n_last_update_time := now\<rparr>)"
    using u(2) by (cases "w_heap w' p") auto
  have "n_data n' = n_data (?n\<lparr>n_state := Loaded, n_last_update_time := now\<rparr>)"
    using n'(2) strip_fields(7) by metis
  with load n' strip_eqD [OF n'(2)] p show ?thesis by auto
qed

text \<open>Such a node never unloads: the write is not started, because there is a task, and not awaited.\<close>

lemma unload_blocked:
  assumes "w_heap w p = Some n" "n_state n = Unloading" "td_local (w_type w)"
    "n_task_state n = Idle" "n_task n = Some t"
  shows "unload_node s p w = Inr (False, w)"
  using assms by (simp add: unload_node_def deref_def ProgressNodeWriteTask_def)

text \<open>
  \<open>WorldUpdate\<close> and \<open>ScaleUpdate\<close> leave out the load commands once the simulation unloads. What they
  still do never takes a node out of state Loading, so such a node keeps its world from emptying.
\<close>

lemma loading_outlives_unloading:
  assumes "world_ok w" "w_unloading w" "io_safe F (w_type w)" "v \<in> state_at w s Loading"
  shows "yields F (rbind (WorldDoNodeUnloadCommands w) (sweep_scales now)) (\<lambda>x. v \<in> state_at x s Loading)"
proof (rule yields_bind [OF WorldDoNodeUnloadCommands_ok [OF assms(1,3)]])
  fix u
  assume u: "world_ok u \<and> same_setup w u \<and>
    (\<forall>s. state_at u s Loading = state_at w s Loading \<and> state_at u s Loaded = state_at w s Loaded)"
  then have "w_unloading u" using assms(2) by (simp add: same_setup_def)
  from sweep_scales_all [OF _ this, of now] u show "yields F (sweep_scales now u) (\<lambda>x. v \<in> state_at x s Loading)"
    using assms(4) swept_states(1) by (fastforce simp: yields_empty)
qed

text \<open>\<open>ForEachCoordInRegion\<close> does not reset its inner counters: of a cube it visits one line.\<close>

lemma region_one_line:
  "ForEachCoordInRegion (Vec3i 0 0 0) (Vec3i 2 2 2) = [Vec3i 0 0 0, Vec3i 0 0 1]"
  by code_simp

text \<open>Moving the last entity of a node steps its iterator over the end.\<close>

lemma entity_iterator_overrun:
  assumes "w_heap w 0 = Some n" "n_position n = Vec3i 0 0 0" "n_entities n = [e]" "w_heap w 1 = Some m"
    "w_scales w = [sc]" "sc_nodes sc = [(Vec3i 0 0 0, 0), (Vec3i 1 0 0, 1)]" "required e = Vec3i 1 0 0"
  shows "ScaleUpdateEntityNodes 0 required w = Inl Out_Of_Bounds"
  using assms
  by (simp add: ScaleUpdateEntityNodes_def scale_at_def deref_def move_entities.simps modify_node_def)

end
