(* ===== verification/VariantTypes.thy ===== *)
theory VariantTypes
  imports Prelude
begin

text \<open>
  \<open>src/Commands/GodotCommandBuffer.h\<close> and \<open>GodotCommandBuffer.cpp\<close>: the types an argument of a command can
  have, on the three sides of the encoding: the C++ type, the tag in the buffer and the type of the
  engine's variant. \<open>'p\<close> stands for the values of the engine's types other than nil, booleans and
  integers.
\<close>

section \<open>Types\<close>

datatype (plugins only: code) VariantType =
    VT_NIL | VT_TRUE | VT_FALSE | VT_UINT8 | VT_UINT16 | VT_UINT32 | VT_UINT64 | VT_INT8 | VT_INT16
    | VT_INT32 | VT_INT64 | VT_FLOAT32 | VT_FLOAT64 | VT_STRING | VT_VECTOR2 | VT_VECTOR2I
    | VT_RECT2 | VT_RECT2I | VT_VECTOR3 | VT_VECTOR3I | VT_TRANSFORM2D | VT_VECTOR4 | VT_VECTOR4I
    | VT_PLANE | VT_QUATERNION | VT_AABB | VT_BASIS | VT_TRANSFORM3D | VT_PROJECTION | VT_COLOR
    | VT_STRING_NAME | VT_NODE_PATH | VT_RID | VT_OBJECT | VT_REFCOUNTED | VT_CALLABLE | VT_SIGNAL
    | VT_DICTIONARY | VT_ARRAY | VT_PACKED_BYTE_ARRAY | VT_PACKED_INT32_ARRAY
    | VT_PACKED_INT64_ARRAY | VT_PACKED_FLOAT32_ARRAY | VT_PACKED_FLOAT64_ARRAY
    | VT_PACKED_STRING_ARRAY | VT_PACKED_VECTOR2_ARRAY | VT_PACKED_VECTOR3_ARRAY
    | VT_PACKED_COLOR_ARRAY | VT_PACKED_VECTOR4_ARRAY

text \<open>\<open>godot::Variant::Type\<close>\<close>

datatype (plugins only: code) GodotType =
    GT_NIL | GT_BOOL | GT_INT | GT_FLOAT | GT_STRING | GT_VECTOR2 | GT_VECTOR2I | GT_RECT2
    | GT_RECT2I | GT_VECTOR3 | GT_VECTOR3I | GT_TRANSFORM2D | GT_VECTOR4 | GT_VECTOR4I | GT_PLANE
    | GT_QUATERNION | GT_AABB | GT_BASIS | GT_TRANSFORM3D | GT_PROJECTION | GT_COLOR
    | GT_STRING_NAME | GT_NODE_PATH | GT_RID | GT_OBJECT | GT_CALLABLE | GT_SIGNAL | GT_DICTIONARY
    | GT_ARRAY | GT_PACKED_BYTE_ARRAY | GT_PACKED_INT32_ARRAY | GT_PACKED_INT64_ARRAY
    | GT_PACKED_FLOAT32_ARRAY | GT_PACKED_FLOAT64_ARRAY | GT_PACKED_STRING_ARRAY
    | GT_PACKED_VECTOR2_ARRAY | GT_PACKED_VECTOR3_ARRAY | GT_PACKED_COLOR_ARRAY
    | GT_PACKED_VECTOR4_ARRAY

datatype 'p Variant = VNil | VBool bool | VInt int | VData GodotType 'p

definition get_type :: "'p Variant \<Rightarrow> GodotType" where
  "get_type v = (case v of VNil \<Rightarrow> GT_NIL | VBool _ \<Rightarrow> GT_BOOL | VInt _ \<Rightarrow> GT_INT | VData t _ \<Rightarrow> t)"

text \<open>The C++ types that have a \<open>GetVariantType\<close>.\<close>

datatype (plugins only: code) CxxType =
    Cxx_uint8_t | Cxx_uint16_t | Cxx_uint32_t | Cxx_uint64_t | Cxx_int8_t | Cxx_int16_t
    | Cxx_int32_t | Cxx_int64_t | Cxx_float | Cxx_double | Cxx_String | Cxx_Vector2 | Cxx_Vector2i
    | Cxx_Rect2 | Cxx_Rect2i | Cxx_Vector3 | Cxx_Vector3i | Cxx_Transform2D | Cxx_Vector4
    | Cxx_Vector4i | Cxx_Plane | Cxx_Quaternion | Cxx_AABB | Cxx_Basis | Cxx_Transform3D
    | Cxx_Projection | Cxx_Color | Cxx_StringName | Cxx_NodePath | Cxx_RID | Cxx_ObjectID
    | Cxx_Callable | Cxx_Signal | Cxx_Dictionary | Cxx_Array | Cxx_PackedByteArray
    | Cxx_PackedInt32Array | Cxx_PackedInt64Array | Cxx_PackedFloat32Array | Cxx_PackedFloat64Array
    | Cxx_PackedStringArray | Cxx_PackedVector2Array | Cxx_PackedVector3Array
    | Cxx_PackedColorArray | Cxx_PackedVector4Array

fun GetVariantType :: "CxxType \<Rightarrow> VariantType" where
  "GetVariantType Cxx_uint8_t = VT_UINT8"
| "GetVariantType Cxx_uint16_t = VT_UINT16"
| "GetVariantType Cxx_uint32_t = VT_UINT32"
| "GetVariantType Cxx_uint64_t = VT_UINT64"
| "GetVariantType Cxx_int8_t = VT_INT8"
| "GetVariantType Cxx_int16_t = VT_INT16"
| "GetVariantType Cxx_int32_t = VT_INT32"
| "GetVariantType Cxx_int64_t = VT_INT64"
| "GetVariantType Cxx_float = VT_FLOAT32"
| "GetVariantType Cxx_double = VT_FLOAT64"
| "GetVariantType Cxx_String = VT_STRING"
| "GetVariantType Cxx_Vector2 = VT_VECTOR2"
| "GetVariantType Cxx_Vector2i = VT_VECTOR2I"
| "GetVariantType Cxx_Rect2 = VT_RECT2"
| "GetVariantType Cxx_Rect2i = VT_RECT2I"
| "GetVariantType Cxx_Vector3 = VT_VECTOR3"
| "GetVariantType Cxx_Vector3i = VT_VECTOR3I"
| "GetVariantType Cxx_Transform2D = VT_TRANSFORM2D"
| "GetVariantType Cxx_Vector4 = VT_VECTOR4"
| "GetVariantType Cxx_Vector4i = VT_VECTOR4I"
| "GetVariantType Cxx_Plane = VT_PLANE"
| "GetVariantType Cxx_Quaternion = VT_QUATERNION"
| "GetVariantType Cxx_AABB = VT_AABB"
| "GetVariantType Cxx_Basis = VT_BASIS"
| "GetVariantType Cxx_Transform3D = VT_TRANSFORM3D"
| "GetVariantType Cxx_Projection = VT_PROJECTION"
| "GetVariantType Cxx_Color = VT_COLOR"
| "GetVariantType Cxx_StringName = VT_STRING_NAME"
| "GetVariantType Cxx_NodePath = VT_NODE_PATH"
| "GetVariantType Cxx_RID = VT_RID"
| "GetVariantType Cxx_ObjectID = VT_UINT64"
| "GetVariantType Cxx_Callable = VT_CALLABLE"
| "GetVariantType Cxx_Signal = VT_SIGNAL"
| "GetVariantType Cxx_Dictionary = VT_DICTIONARY"
| "GetVariantType Cxx_Array = VT_ARRAY"
| "GetVariantType Cxx_PackedByteArray = VT_PACKED_BYTE_ARRAY"
| "GetVariantType Cxx_PackedInt32Array = VT_PACKED_INT32_ARRAY"
| "GetVariantType Cxx_PackedInt64Array = VT_PACKED_INT64_ARRAY"
| "GetVariantType Cxx_PackedFloat32Array = VT_PACKED_FLOAT32_ARRAY"
| "GetVariantType Cxx_PackedFloat64Array = VT_PACKED_FLOAT64_ARRAY"
| "GetVariantType Cxx_PackedStringArray = VT_PACKED_STRING_ARRAY"
| "GetVariantType Cxx_PackedVector2Array = VT_PACKED_VECTOR2_ARRAY"
| "GetVariantType Cxx_PackedVector3Array = VT_PACKED_VECTOR3_ARRAY"
| "GetVariantType Cxx_PackedColorArray = VT_PACKED_COLOR_ARRAY"
| "GetVariantType Cxx_PackedVector4Array = VT_PACKED_VECTOR4_ARRAY"

text \<open>The cases of \<open>WriteGenericVariant\<close> that write a value of an engine type.\<close>

fun write_tag :: "GodotType \<Rightarrow> VariantType option" where
  "write_tag GT_FLOAT = Some VT_FLOAT64"
| "write_tag GT_STRING = Some VT_STRING"
| "write_tag GT_VECTOR2 = Some VT_VECTOR2"
| "write_tag GT_VECTOR2I = Some VT_VECTOR2I"
| "write_tag GT_RECT2 = Some VT_RECT2"
| "write_tag GT_RECT2I = Some VT_RECT2I"
| "write_tag GT_VECTOR3 = Some VT_VECTOR3"
| "write_tag GT_VECTOR3I = Some VT_VECTOR3I"
| "write_tag GT_TRANSFORM2D = Some VT_TRANSFORM2D"
| "write_tag GT_VECTOR4 = Some VT_VECTOR4"
| "write_tag GT_VECTOR4I = Some VT_VECTOR4I"
| "write_tag GT_PLANE = Some VT_PLANE"
| "write_tag GT_QUATERNION = Some VT_QUATERNION"
| "write_tag GT_AABB = Some VT_AABB"
| "write_tag GT_BASIS = Some VT_BASIS"
| "write_tag GT_TRANSFORM3D = Some VT_TRANSFORM3D"
| "write_tag GT_PROJECTION = Some VT_PROJECTION"
| "write_tag GT_COLOR = Some VT_COLOR"
| "write_tag GT_STRING_NAME = Some VT_STRING_NAME"
| "write_tag GT_NODE_PATH = Some VT_NODE_PATH"
| "write_tag GT_RID = Some VT_RID"
| "write_tag GT_OBJECT = Some VT_OBJECT"
| "write_tag GT_CALLABLE = Some VT_CALLABLE"
| "write_tag GT_SIGNAL = Some VT_SIGNAL"
| "write_tag GT_DICTIONARY = Some VT_DICTIONARY"
| "write_tag GT_ARRAY = Some VT_ARRAY"
| "write_tag GT_PACKED_BYTE_ARRAY = Some VT_PACKED_BYTE_ARRAY"
| "write_tag GT_PACKED_INT32_ARRAY = Some VT_PACKED_INT32_ARRAY"
| "write_tag GT_PACKED_INT64_ARRAY = Some VT_PACKED_INT64_ARRAY"
| "write_tag GT_PACKED_FLOAT32_ARRAY = Some VT_PACKED_FLOAT32_ARRAY"
| "write_tag GT_PACKED_FLOAT64_ARRAY = Some VT_PACKED_FLOAT64_ARRAY"
| "write_tag GT_PACKED_STRING_ARRAY = Some VT_PACKED_STRING_ARRAY"
| "write_tag GT_PACKED_VECTOR2_ARRAY = Some VT_PACKED_VECTOR2_ARRAY"
| "write_tag GT_PACKED_VECTOR3_ARRAY = Some VT_PACKED_VECTOR3_ARRAY"
| "write_tag GT_PACKED_COLOR_ARRAY = Some VT_PACKED_COLOR_ARRAY"
| "write_tag GT_PACKED_VECTOR4_ARRAY = Some VT_PACKED_VECTOR4_ARRAY"
| "write_tag _ = None"

text \<open>The cases of \<open>ReadVariant\<close>: the type of the variant a tagged value becomes.\<close>

fun read_type :: "VariantType \<Rightarrow> GodotType" where
  "read_type VT_NIL = GT_NIL"
| "read_type VT_TRUE = GT_BOOL"
| "read_type VT_FALSE = GT_BOOL"
| "read_type VT_UINT8 = GT_INT"
| "read_type VT_UINT16 = GT_INT"
| "read_type VT_UINT32 = GT_INT"
| "read_type VT_UINT64 = GT_INT"
| "read_type VT_INT8 = GT_INT"
| "read_type VT_INT16 = GT_INT"
| "read_type VT_INT32 = GT_INT"
| "read_type VT_INT64 = GT_INT"
| "read_type VT_FLOAT32 = GT_FLOAT"
| "read_type VT_FLOAT64 = GT_FLOAT"
| "read_type VT_STRING = GT_STRING"
| "read_type VT_VECTOR2 = GT_VECTOR2"
| "read_type VT_VECTOR2I = GT_VECTOR2I"
| "read_type VT_RECT2 = GT_RECT2"
| "read_type VT_RECT2I = GT_RECT2I"
| "read_type VT_VECTOR3 = GT_VECTOR3"
| "read_type VT_VECTOR3I = GT_VECTOR3I"
| "read_type VT_TRANSFORM2D = GT_TRANSFORM2D"
| "read_type VT_VECTOR4 = GT_VECTOR4"
| "read_type VT_VECTOR4I = GT_VECTOR4I"
| "read_type VT_PLANE = GT_PLANE"
| "read_type VT_QUATERNION = GT_QUATERNION"
| "read_type VT_AABB = GT_AABB"
| "read_type VT_BASIS = GT_BASIS"
| "read_type VT_TRANSFORM3D = GT_TRANSFORM3D"
| "read_type VT_PROJECTION = GT_PROJECTION"
| "read_type VT_COLOR = GT_COLOR"
| "read_type VT_STRING_NAME = GT_STRING_NAME"
| "read_type VT_NODE_PATH = GT_NODE_PATH"
| "read_type VT_RID = GT_RID"
| "read_type VT_OBJECT = GT_OBJECT"
| "read_type VT_REFCOUNTED = GT_OBJECT"
| "read_type VT_CALLABLE = GT_CALLABLE"
| "read_type VT_SIGNAL = GT_SIGNAL"
| "read_type VT_DICTIONARY = GT_DICTIONARY"
| "read_type VT_ARRAY = GT_ARRAY"
| "read_type VT_PACKED_BYTE_ARRAY = GT_PACKED_BYTE_ARRAY"
| "read_type VT_PACKED_INT32_ARRAY = GT_PACKED_INT32_ARRAY"
| "read_type VT_PACKED_INT64_ARRAY = GT_PACKED_INT64_ARRAY"
| "read_type VT_PACKED_FLOAT32_ARRAY = GT_PACKED_FLOAT32_ARRAY"
| "read_type VT_PACKED_FLOAT64_ARRAY = GT_PACKED_FLOAT64_ARRAY"
| "read_type VT_PACKED_STRING_ARRAY = GT_PACKED_STRING_ARRAY"
| "read_type VT_PACKED_VECTOR2_ARRAY = GT_PACKED_VECTOR2_ARRAY"
| "read_type VT_PACKED_VECTOR3_ARRAY = GT_PACKED_VECTOR3_ARRAY"
| "read_type VT_PACKED_COLOR_ARRAY = GT_PACKED_COLOR_ARRAY"
| "read_type VT_PACKED_VECTOR4_ARRAY = GT_PACKED_VECTOR4_ARRAY"

end
