(* ===== verification/CommandStorage.thy ===== *)
theory CommandStorage
  imports Prelude
begin

text \<open>
  \<open>Storage\<close> and \<open>WriteType\<close> of \<open>src/Commands/CommandBufferEntry.h\<close>: the byte vector both kinds of command buffer
  write their commands to. A byte is the start of an object, another byte of one, or the start of
  one whose destructor has run.
\<close>

datatype 'i slot = Start 'i | Tail | Dead

type_synonym 'i storage = "'i slot list"

definition WriteType :: "nat \<Rightarrow> 'i \<Rightarrow> 'i storage" where
  "WriteType n x = Start x # replicate (n - 1) Tail"

text \<open>Reading an object through a pointer into the buffer.\<close>

definition slot_at :: "'i storage \<Rightarrow> nat \<Rightarrow> 'i res" where
  "slot_at data pos =
     (if pos < length data
      then (case data ! pos of Start x \<Rightarrow> Inr x | Tail \<Rightarrow> Inl Uninitialized | Dead \<Rightarrow> Inl Dangling)
      else Inl Out_Of_Bounds)"

lemma length_WriteType [simp]: "0 < n \<Longrightarrow> length (WriteType n x) = n"
  by (simp add: WriteType_def)

lemma WriteType_nonempty [simp]: "WriteType n x \<noteq> []"
  by (simp add: WriteType_def)

lemma slot_at_written [simp]: "slot_at (pre @ WriteType n x @ rest) (length pre) = Inr x"
  by (simp add: slot_at_def WriteType_def nth_append)

text \<open>The bytes of an object after its destructor.\<close>

definition destroyed :: "nat \<Rightarrow> 'i storage" where
  "destroyed n = Dead # replicate (n - 1) Tail"

lemma length_destroyed [simp]: "0 < n \<Longrightarrow> length (destroyed n) = n"
  by (simp add: destroyed_def)

lemma destroy_written [simp]:
  "(pre @ WriteType n x @ rest)[length pre := Dead] = pre @ destroyed n @ rest"
  by (simp add: WriteType_def destroyed_def list_update_append)

end
