(* ===== verification/GodotCommandBuffer.thy ===== *)
theory GodotCommandBuffer
  imports VariantTypes CommandStorage
begin

text \<open>
  \<open>src/Commands/GodotCommandBuffer.h\<close>, \<open>GodotCommandBuffer.cpp\<close>: a byte buffer of commands, each a header with the command's name
  and argument count followed by the tagged arguments.

  The sizes of the engine's types are parameters (\<open>layout\<close>), at least one byte each. \<open>'p\<close> stands
  for the values of the engine's types other than nil, booleans and integers. What a call of a
  command does to the world \<open>'o\<close> is the argument \<open>callp\<close>; its error results are only printed.
\<close>

section \<open>The buffer\<close>

datatype 'p content = IntV int | DataV 'p

datatype 'p item = Header string nat | Tag VariantType | Val "'p content"

type_synonym 'p bytes = "'p item storage"

record layout =
  l_command :: nat
  l_type :: "VariantType \<Rightarrow> nat"

definition size_command :: "layout \<Rightarrow> nat" where
  "size_command L = max 1 (l_command L)"

definition size_type :: "layout \<Rightarrow> VariantType \<Rightarrow> nat" where
  "size_type L t = max 1 (l_type L t)"

record 'p GodotCommandBuffer =
  m_data :: "'p bytes"
  m_start :: nat
  m_num_commands :: nat

text \<open>The conversion of an integer to the type it is stored in, and back to a 64-bit variant.\<close>

definition cast_int :: "VariantType \<Rightarrow> int \<Rightarrow> int" where
  "cast_int t i =
     (case t of
        VT_UINT8 \<Rightarrow> take_bit 8 i | VT_UINT16 \<Rightarrow> take_bit 16 i | VT_UINT32 \<Rightarrow> take_bit 32 i
      | VT_UINT64 \<Rightarrow> take_bit 64 i | VT_INT8 \<Rightarrow> signed_take_bit 7 i | VT_INT16 \<Rightarrow> signed_take_bit 15 i
      | VT_INT32 \<Rightarrow> signed_take_bit 31 i | _ \<Rightarrow> signed_take_bit 63 i)"

definition write_value :: "layout \<Rightarrow> VariantType \<Rightarrow> 'p content \<Rightarrow> 'p bytes" where
  "write_value L t v = WriteType 1 (Tag t) @ WriteType (size_type L t) (Val v)"

definition write_int :: "layout \<Rightarrow> VariantType \<Rightarrow> int \<Rightarrow> 'p bytes" where
  "write_int L t i = write_value L t (IntV (cast_int t i))"

definition WriteGenericVariant :: "layout \<Rightarrow> 'p Variant \<Rightarrow> 'p bytes" where
  "WriteGenericVariant L v =
     (case v of
        VNil \<Rightarrow> WriteType 1 (Tag VT_NIL)
      | VBool b \<Rightarrow> WriteType 1 (Tag (if b then VT_TRUE else VT_FALSE))
      | VInt i \<Rightarrow>
          (if i < 0
           then if i \<ge> - (2 ^ 7) then write_int L VT_INT8 i
                else if i \<ge> - (2 ^ 15) then write_int L VT_INT16 i
                else if i \<ge> - (2 ^ 31) then write_int L VT_INT32 i
                else write_int L VT_INT64 i
           else if i \<le> 2 ^ 8 - 1 then write_int L VT_UINT8 i
                else if i \<le> 2 ^ 16 - 1 then write_int L VT_UINT16 i
                else if i \<le> 2 ^ 32 - 1 then write_int L VT_UINT32 i
                else write_int L VT_UINT64 i)
      | VData t p \<Rightarrow>
          (case write_tag t of Some vt \<Rightarrow> write_value L vt (DataV p) | None \<Rightarrow> WriteType 1 (Tag VT_NIL)))"

text \<open>The argument of the C++ overload: \<open>WriteVariant\<close> chooses by its static type.\<close>

datatype 'p cxx_arg =
    ArgBool bool
  | ArgVariant "'p Variant"
  | ArgRef 'p
  | ArgObject 'p
  | ArgInt CxxType int
  | ArgData CxxType 'p

definition WriteVariant :: "layout \<Rightarrow> 'p cxx_arg \<Rightarrow> 'p bytes" where
  "WriteVariant L a =
     (case a of
        ArgBool b \<Rightarrow> WriteType 1 (Tag (if b then VT_TRUE else VT_FALSE))
      | ArgVariant v \<Rightarrow> WriteGenericVariant L v
      | ArgRef p \<Rightarrow> write_value L VT_REFCOUNTED (DataV p)
      | ArgObject p \<Rightarrow> write_value L VT_OBJECT (DataV p)
      | ArgInt t i \<Rightarrow> write_int L (GetVariantType t) i
      | ArgData t p \<Rightarrow> write_value L (GetVariantType t) (DataV p))"

section \<open>Reading\<close>

text \<open>
  Both readers return the new position, the buffer with the value they moved out destroyed, and the
  argument, which stays nil when the buffer ends too early.
\<close>

definition ReadVariantInternal ::
    "layout \<Rightarrow> VariantType \<Rightarrow> 'p bytes \<Rightarrow> nat \<Rightarrow> nat \<Rightarrow> (nat \<times> 'p bytes \<times> 'p Variant) res" where
  "ReadVariantInternal L t data pos stop =
     (if pos + size_type L t > stop then Inr (stop, data, VNil)
      else rbind (slot_at data pos) (\<lambda>x.
        case x of
          Val v \<Rightarrow>
            Inr (pos + size_type L t, data[pos := Dead],
                 case v of IntV i \<Rightarrow> VInt (signed_take_bit 63 i) | DataV p \<Rightarrow> VData (read_type t) p)
        | _ \<Rightarrow> Inl Uninitialized))"

definition ReadVariant ::
    "layout \<Rightarrow> 'p bytes \<Rightarrow> nat \<Rightarrow> nat \<Rightarrow> (nat \<times> 'p bytes \<times> 'p Variant) res" where
  "ReadVariant L data pos stop =
     (if pos + 1 > stop then Inr (stop, data, VNil)
      else rbind (slot_at data pos) (\<lambda>x.
        case x of
          Tag t \<Rightarrow>
            (if t = VT_NIL then Inr (pos + 1, data, VNil)
             else if t = VT_TRUE then Inr (pos + 1, data, VBool True)
             else if t = VT_FALSE then Inr (pos + 1, data, VBool False)
             else ReadVariantInternal L t data (pos + 1) stop)
        | _ \<Rightarrow> Inl Uninitialized))"

text \<open>The loop over the arguments; \<open>None\<close> is the early return when a read went over the end.\<close>

fun read_args ::
    "layout \<Rightarrow> nat \<Rightarrow> 'p bytes \<Rightarrow> nat \<Rightarrow> nat \<Rightarrow> (nat \<times> 'p bytes \<times> 'p Variant list option) res" where
  "read_args L 0 data pos stop = Inr (pos, data, Some [])"
| "read_args L (Suc n) data pos stop =
     rbind (ReadVariant L data pos stop) (\<lambda>(pos', data', v).
       if pos' > stop then Inr (stop, data', None)
       else rbind (read_args L n data' pos' stop) (\<lambda>(pos'', data'', vs).
         Inr (pos'', data'', map_option (\<lambda>vs. v # vs) vs)))"

definition ProcessCommand ::
    "layout \<Rightarrow> (string \<Rightarrow> 'p Variant list \<Rightarrow> 'o \<Rightarrow> 'o) \<Rightarrow> nat \<Rightarrow> nat \<Rightarrow> 'p bytes \<Rightarrow> 'o \<Rightarrow>
     (nat \<times> 'p bytes \<times> 'o) res" where
  "ProcessCommand L callp pos stop data st =
     (if \<not> stop \<ge> pos then Inl Assertion
      else if pos + size_command L > stop then Inr (stop, data, st)
      else rbind (slot_at data pos) (\<lambda>x.
        case x of
          Header name argcount \<Rightarrow>
            if name = [] then Inl Assertion
            else if argcount > 16 then Inr (stop, data, st)
            else rbind (read_args L argcount data (pos + size_command L) stop) (\<lambda>(pos', data', args).
              case args of
                None \<Rightarrow> Inr (stop, data', st)
              | Some args \<Rightarrow> Inr (pos', data'[pos := Dead], callp name args st))
        | _ \<Rightarrow> Inl Uninitialized))"

definition SkipCommand ::
    "layout \<Rightarrow> nat \<Rightarrow> nat \<Rightarrow> 'p bytes \<Rightarrow> (nat \<times> 'p bytes) res" where
  "SkipCommand L pos stop data =
     (if pos + size_command L > stop then Inr (stop, data)
      else rbind (slot_at data pos) (\<lambda>x.
        case x of
          Header name argcount \<Rightarrow>
            if name = [] then Inl Assertion
            else if argcount > 16 then Inr (stop, data)
            else rbind (read_args L argcount data (pos + size_command L) stop) (\<lambda>(pos', data', args).
              case args of
                None \<Rightarrow> Inr (stop, data')
              | Some args \<Rightarrow> Inr (pos', data'[pos := Dead]))
        | _ \<Rightarrow> Inl Uninitialized))"

text \<open>A command that is processed or skipped moves the position forward, never beyond the end.\<close>

lemma ReadVariantInternal_pos:
  "ReadVariantInternal L t data pos stop = Inr (pos', data', v) \<Longrightarrow> pos \<le> stop \<Longrightarrow> pos \<le> pos' \<and> pos' \<le> stop"
  by (cases "slot_at data pos") (auto simp: ReadVariantInternal_def split: if_splits item.splits)

lemma ReadVariant_pos:
  assumes "ReadVariant L data pos stop = Inr (pos', data', v)" "pos \<le> stop"
  shows "pos \<le> pos' \<and> pos' \<le> stop"
  using assms
  by (cases "slot_at data pos")
    (auto simp: ReadVariant_def dest!: ReadVariantInternal_pos split: if_splits item.splits)

lemma read_args_pos:
  "read_args L n data pos stop = Inr (pos', data', vs) \<Longrightarrow> pos \<le> stop \<Longrightarrow> pos \<le> pos' \<and> pos' \<le> stop"
proof (induction n arbitrary: data pos pos' data' vs)
  case 0
  then show ?case by simp
next
  case (Suc n)
  from Suc.prems(1) obtain p1 d1 v where r: "ReadVariant L data pos stop = Inr (p1, d1, v)"
    by (auto simp: rbind_eq_Inr_iff)
  have le: "pos \<le> p1 \<and> p1 \<le> stop" using ReadVariant_pos [OF r Suc.prems(2)] .
  then obtain vs' where "read_args L n d1 p1 stop = Inr (pos', data', vs')"
    using Suc.prems(1) r by (auto simp: rbind_eq_Inr_iff)
  from Suc.IH [OF this] le show ?case by simp
qed

lemma size_command_pos: "0 < size_command L"
  by (simp add: size_command_def)

text \<open>
  What a command makes of the buffer does not depend on whether it is processed or skipped; what
  both do to the position is one lemma.
\<close>

definition take_command ::
    "layout \<Rightarrow> nat \<Rightarrow> nat \<Rightarrow> 'p bytes \<Rightarrow> (nat \<times> 'p bytes \<times> (string \<times> 'p Variant list) option) res" where
  "take_command L pos stop data =
     (if pos + size_command L > stop then Inr (stop, data, None)
      else rbind (slot_at data pos) (\<lambda>x.
        case x of
          Header name argcount \<Rightarrow>
            if name = [] then Inl Assertion
            else if argcount > 16 then Inr (stop, data, None)
            else rbind (read_args L argcount data (pos + size_command L) stop) (\<lambda>(pos', data', args).
              case args of
                None \<Rightarrow> Inr (stop, data', None)
              | Some args \<Rightarrow> Inr (pos', data'[pos := Dead], Some (name, args)))
        | _ \<Rightarrow> Inl Uninitialized))"

lemma ProcessCommand_take:
  "ProcessCommand L callp pos stop data st =
     (if \<not> stop \<ge> pos then Inl Assertion
      else rbind (take_command L pos stop data) (\<lambda>(pos', data', c).
        Inr (pos', data', case c of None \<Rightarrow> st | Some (name, args) \<Rightarrow> callp name args st)))"
  by (cases "slot_at data pos")
    (auto simp: ProcessCommand_def take_command_def rbind_assoc intro!: rbind_cong split: item.split option.split)

lemma SkipCommand_take:
  "SkipCommand L pos stop data =
     rbind (take_command L pos stop data) (\<lambda>(pos', data', c). Inr (pos', data'))"
  by (cases "slot_at data pos")
    (auto simp: SkipCommand_def take_command_def rbind_assoc intro!: rbind_cong split: item.split option.split)

lemma take_command_pos:
  assumes "take_command L pos stop data = Inr (pos', data', c)"
  shows "pos' \<le> stop" "pos < stop \<Longrightarrow> pos < pos'" "stop \<le> pos \<Longrightarrow> pos' = stop"
proof -
  have args: "pos + size_command L \<le> pos' \<and> pos' \<le> stop"
    if "read_args L n data (pos + size_command L) stop = Inr (pos', data'', vs)"
      "\<not> stop < pos + size_command L" for n pos' data'' vs
    using read_args_pos [OF that(1)] that(2) by simp
  have all: "pos' \<le> stop \<and> (pos < stop \<longrightarrow> pos < pos') \<and> (stop \<le> pos \<longrightarrow> pos' = stop)"
    using assms size_command_pos [of L]
    by (cases "slot_at data pos")
      (auto simp: take_command_def rbind_eq_Inr_iff dest!: args split: if_splits item.splits option.splits)
  show "pos' \<le> stop" "pos < stop \<Longrightarrow> pos < pos'" "stop \<le> pos \<Longrightarrow> pos' = stop"
    using all by simp_all
qed

lemma ProcessCommand_pos:
  assumes "ProcessCommand L callp pos stop data st = Inr (pos', data', st')"
  shows "pos \<le> stop" "pos' \<le> stop" "pos < stop \<Longrightarrow> pos < pos'"
  using assms take_command_pos [of L pos stop data]
  by (auto simp: ProcessCommand_take rbind_eq_Inr_iff split: if_splits)

lemma SkipCommand_pos:
  assumes "SkipCommand L pos stop data = Inr (pos', data')"
  shows "pos' \<le> stop" "pos < stop \<Longrightarrow> pos < pos'" "stop \<le> pos \<Longrightarrow> pos' = stop"
  using assms take_command_pos [of L pos stop data]
  by (auto simp: SkipCommand_take rbind_eq_Inr_iff)

section \<open>GodotCommandBuffer\<close>

definition gcmd_new :: "'p GodotCommandBuffer" where
  "gcmd_new = \<lparr>m_data = [], m_start = 0, m_num_commands = 0\<rparr>"

text \<open>The loop of \<open>ProcessCommands\<close>, with the number of commands processed so far.\<close>

function process_loop ::
    "layout \<Rightarrow> (string \<Rightarrow> 'p Variant list \<Rightarrow> 'o \<Rightarrow> 'o) \<Rightarrow> nat \<Rightarrow> nat \<Rightarrow> nat \<Rightarrow> nat \<Rightarrow> 'p bytes \<Rightarrow> 'o \<Rightarrow>
     (nat \<times> nat \<times> 'p bytes \<times> 'o) res" where
  "process_loop L callp most n pos stop data st =
     (if pos = stop then Inr (n, pos, data, st)
      else rbind (ProcessCommand L callp pos stop data st) (\<lambda>(pos', data', st').
        if n + 1 = most then Inr (n + 1, pos', data', st')
        else process_loop L callp most (n + 1) pos' stop data' st'))"
  by pat_completeness auto
termination
proof (relation "measure (\<lambda>(L, callp, most, n, pos, stop, data, st). stop - pos)", goal_cases)
  case (2 L callp most n pos stop data st x pos' y data' st')
  then have "pos < stop" "pos < pos'"
    using ProcessCommand_pos [of L callp pos stop data st pos' data' st'] by auto
  then show ?case by simp
qed simp

declare process_loop.simps [simp del]

definition ProcessCommands ::
    "layout \<Rightarrow> (string \<Rightarrow> 'p Variant list \<Rightarrow> 'o \<Rightarrow> 'o) \<Rightarrow> nat \<Rightarrow> 'p GodotCommandBuffer \<Rightarrow> 'o \<Rightarrow>
     (nat \<times> 'p GodotCommandBuffer \<times> 'o) res" where
  "ProcessCommands L callp most b st =
     (if m_num_commands b = 0 then Inr (0, b, st)
      else rbind (process_loop L callp most 0 (m_start b) (length (m_data b)) (m_data b) st)
        (\<lambda>(n, pos, data, st').
          if m_num_commands b \<ge> n
          then Inr (n, b\<lparr>m_data := data, m_start := pos, m_num_commands := m_num_commands b - n\<rparr>, st')
          else Inl Assertion))"

definition NumCommands :: "'p GodotCommandBuffer \<Rightarrow> nat" where
  "NumCommands b = m_num_commands b"

function clear_loop :: "layout \<Rightarrow> nat \<Rightarrow> nat \<Rightarrow> 'p bytes \<Rightarrow> 'p bytes res" where
  "clear_loop L pos stop data =
     (if pos = stop then Inr data
      else rbind (SkipCommand L pos stop data) (\<lambda>(pos', data'). clear_loop L pos' stop data'))"
  by pat_completeness auto
termination
proof (relation "measure (\<lambda>(L, pos, stop, data). if pos \<le> stop then stop - pos else 1)", goal_cases)
  case (2 L pos stop data x pos' data')
  then show ?case
    using SkipCommand_pos [of L pos stop data pos' data'] by (cases "pos < stop") auto
qed simp

declare clear_loop.simps [simp del]

definition Clear :: "layout \<Rightarrow> 'p GodotCommandBuffer \<Rightarrow> 'p GodotCommandBuffer res" where
  "Clear L b =
     rbind (clear_loop L (m_start b) (length (m_data b)) (m_data b)) (\<lambda>_.
       Inr \<lparr>m_data = [], m_start = 0, m_num_commands = 0\<rparr>)"

definition ShrinkToFit :: "'p GodotCommandBuffer \<Rightarrow> 'p GodotCommandBuffer" where
  "ShrinkToFit b = b"

text \<open>Move assignment: the target is cleared first, the source is left empty.\<close>

definition gcmd_move ::
    "layout \<Rightarrow> 'p GodotCommandBuffer \<Rightarrow> 'p GodotCommandBuffer \<Rightarrow> ('p GodotCommandBuffer \<times> 'p GodotCommandBuffer) res" where
  "gcmd_move L this other =
     rbind (Clear L this) (\<lambda>_. Inr (other, \<lparr>m_data = [], m_start = 0, m_num_commands = 0\<rparr>))"

definition AddCommandVararg ::
    "layout \<Rightarrow> string \<Rightarrow> 'p Variant list \<Rightarrow> 'p GodotCommandBuffer \<Rightarrow> 'p GodotCommandBuffer res" where
  "AddCommandVararg L command args b =
     (if command = [] \<or> m_start b \<noteq> 0 then Inl Assertion
      else Inr (b\<lparr>m_data := m_data b @ WriteType (size_command L) (Header command (length args)) @
                             concat (map (WriteGenericVariant L) args),
                  m_num_commands := m_num_commands b + 1\<rparr>))"

text \<open>The count in the header is 8 bits wide.\<close>

definition AddCommand ::
    "layout \<Rightarrow> string \<Rightarrow> 'p cxx_arg list \<Rightarrow> 'p GodotCommandBuffer \<Rightarrow> 'p GodotCommandBuffer res" where
  "AddCommand L command args b =
     (if command = [] \<or> m_start b \<noteq> 0 then Inl Assertion
      else Inr (b\<lparr>m_data := m_data b @ WriteType (size_command L) (Header command (length args mod 256)) @
                             concat (map (WriteVariant L) args),
                  m_num_commands := m_num_commands b + 1\<rparr>))"

end
