(* ===== verification/CommandEntry.thy ===== *)
theory CommandEntry
  imports Prelude
begin

text \<open>
  The contract of a command buffer, as the command server of \<open>src/Commands/CommandServer.cpp\<close> uses it through
  \<open>CommandBufferEntryBase\<close> of \<open>src/Commands/CommandBufferEntry.h\<close>: a sequence of commands that is consumed
  from the front, a bounded number at a time.
\<close>

section \<open>The virtual methods\<close>

record ('b, 'id, 'o) CommandBufferEntryBase =
  v_NumCommands :: "'b \<Rightarrow> nat"
  v_ProcessCommands :: "'id \<Rightarrow> nat \<Rightarrow> 'b \<Rightarrow> 'o \<Rightarrow> (nat \<times> 'b \<times> 'o) res"
  v_Clear :: "'b \<Rightarrow> 'b res"
  v_ShrinkToFit :: "'b \<Rightarrow> 'b"

text \<open>\<open>k_process_all_commands\<close> is 0: how many of \<open>n\<close> commands a call with the limit \<open>most\<close> runs.\<close>

definition k_process_all_commands :: nat where
  "k_process_all_commands = 0"

definition served :: "nat \<Rightarrow> nat \<Rightarrow> nat" where
  "served most n = (if most = k_process_all_commands then n else min most n)"

lemma served_le [simp]: "served most n \<le> n"
  by (simp add: served_def)

lemma served_0 [simp]: "served most 0 = 0"
  using served_le [of most 0] by simp

lemma served_pos: "0 < n \<Longrightarrow> 0 < served most n"
  by (simp add: served_def k_process_all_commands_def)

lemma served_all [simp]: "served k_process_all_commands n = n" "served 0 n = n"
  by (simp_all add: served_def k_process_all_commands_def)

section \<open>The contract\<close>

text \<open>
  \<open>rep b cs\<close>: the buffer holds the commands \<open>cs\<close>, in the order they were added; \<open>run\<close> is what one
  command does to the world when it runs on an object.
\<close>

locale command_buffer =
  fixes rep :: "'b \<Rightarrow> 'c list \<Rightarrow> bool"
    and num :: "'b \<Rightarrow> nat"
    and process :: "'id \<Rightarrow> nat \<Rightarrow> 'b \<Rightarrow> 'o \<Rightarrow> (nat \<times> 'b \<times> 'o) res"
    and clear :: "'b \<Rightarrow> 'b res"
    and shrink :: "'b \<Rightarrow> 'b"
    and run :: "'id \<Rightarrow> 'c \<Rightarrow> 'o \<Rightarrow> 'o"
  assumes num_rep: "rep b cs \<Longrightarrow> num b = length cs"
    and process_rep: "rep b cs \<Longrightarrow> \<exists>b'. process obj most b st =
        Inr (served most (length cs), b', fold (run obj) (take (served most (length cs)) cs) st) \<and>
      rep b' (drop (served most (length cs)) cs)"
    and clear_rep: "rep b cs \<Longrightarrow> \<exists>b'. clear b = Inr b' \<and> rep b' []"
    and shrink_rep: "rep b cs \<Longrightarrow> rep (shrink b) cs"
begin

text \<open>Consuming a buffer in slices is consuming it in one call.\<close>

lemma process_slices:
  assumes "rep b cs" "\<forall>m \<in> set ms. 0 < m"
  shows "\<exists>b'. rfold (\<lambda>m (b, st). rbind (process obj m b st) (\<lambda>(_, b', st'). Inr (b', st'))) ms (b, st) =
      Inr (b', fold (run obj) (take (sum_list ms) cs) st) \<and> rep b' (drop (sum_list ms) cs)"
  using assms
proof (induction ms arbitrary: b cs st)
  case Nil
  then show ?case by auto
next
  case (Cons m ms)
  have m: "take (served m (length cs)) cs = take m cs" "drop (served m (length cs)) cs = drop m cs"
    using Cons.prems(2) by (auto simp: served_def k_process_all_commands_def min_def)
  from process_rep [OF Cons.prems(1), of obj m st] obtain b1 where b1:
    "process obj m b st = Inr (served m (length cs), b1, fold (run obj) (take m cs) st)" "rep b1 (drop m cs)"
    unfolding m by blast
  from Cons.IH [OF b1(2), of "fold (run obj) (take m cs) st"] Cons.prems(2) b1(1) show ?case
    by (auto simp: take_add add.commute)
qed

lemma process_empty: "rep b [] \<Longrightarrow> \<exists>b'. process obj most b st = Inr (0, b', st) \<and> rep b' []"
  using process_rep [of b "[]" obj most st] by simp

end

section \<open>TCommandBufferEntry\<close>

text \<open>An entry holds a buffer of one of two kinds and passes every call on to it.\<close>

datatype ('g, 't) CommandBufferEntry = GodotEntry 'g | TypedEntry 't

definition TCommandBufferEntry ::
    "('g, 'id, 'o) CommandBufferEntryBase \<Rightarrow> ('t, 'id, 'o) CommandBufferEntryBase \<Rightarrow>
     (('g, 't) CommandBufferEntry, 'id, 'o) CommandBufferEntryBase" where
  "TCommandBufferEntry G T =
     \<lparr>v_NumCommands = (\<lambda>e. case e of GodotEntry b \<Rightarrow> v_NumCommands G b | TypedEntry b \<Rightarrow> v_NumCommands T b),
      v_ProcessCommands = (\<lambda>obj most e st.
        case e of
          GodotEntry b \<Rightarrow> rbind (v_ProcessCommands G obj most b st) (\<lambda>(n, b', st'). Inr (n, GodotEntry b', st'))
        | TypedEntry b \<Rightarrow> rbind (v_ProcessCommands T obj most b st) (\<lambda>(n, b', st'). Inr (n, TypedEntry b', st'))),
      v_Clear = (\<lambda>e.
        case e of
          GodotEntry b \<Rightarrow> rbind (v_Clear G b) (\<lambda>b'. Inr (GodotEntry b'))
        | TypedEntry b \<Rightarrow> rbind (v_Clear T b) (\<lambda>b'. Inr (TypedEntry b'))),
      v_ShrinkToFit = (\<lambda>e.
        case e of GodotEntry b \<Rightarrow> GodotEntry (v_ShrinkToFit G b) | TypedEntry b \<Rightarrow> TypedEntry (v_ShrinkToFit T b))\<rparr>"

definition entry_rep ::
    "('g \<Rightarrow> 'c list \<Rightarrow> bool) \<Rightarrow> ('t \<Rightarrow> 'd list \<Rightarrow> bool) \<Rightarrow> ('g, 't) CommandBufferEntry \<Rightarrow> ('c + 'd) list \<Rightarrow> bool" where
  "entry_rep rg rt e cs =
     (case e of
        GodotEntry b \<Rightarrow> \<exists>gs. cs = map Inl gs \<and> rg b gs
      | TypedEntry b \<Rightarrow> \<exists>ts. cs = map Inr ts \<and> rt b ts)"

definition entry_run :: "('id \<Rightarrow> 'c \<Rightarrow> 'o \<Rightarrow> 'o) \<Rightarrow> ('id \<Rightarrow> 'd \<Rightarrow> 'o \<Rightarrow> 'o) \<Rightarrow> 'id \<Rightarrow> 'c + 'd \<Rightarrow> 'o \<Rightarrow> 'o" where
  "entry_run f g obj c = (case c of Inl x \<Rightarrow> f obj x | Inr y \<Rightarrow> g obj y)"

text \<open>A record of methods that keeps the contract, and that both kinds together keep it.\<close>

definition keeps_contract ::
    "('b \<Rightarrow> 'c list \<Rightarrow> bool) \<Rightarrow> ('b, 'id, 'o) CommandBufferEntryBase \<Rightarrow> ('id \<Rightarrow> 'c \<Rightarrow> 'o \<Rightarrow> 'o) \<Rightarrow> bool" where
  "keeps_contract rep V run \<longleftrightarrow>
     command_buffer rep (v_NumCommands V) (v_ProcessCommands V) (v_Clear V) (v_ShrinkToFit V) run"

lemma fold_run_Inl: "fold (entry_run f g obj) (map Inl xs) = fold (f obj) xs"
  by (rule ext, induction xs) (auto simp: entry_run_def fold_map comp_def)

lemma fold_run_Inr: "fold (entry_run f g obj) (map Inr xs) = fold (g obj) xs"
  by (rule ext, induction xs) (auto simp: entry_run_def fold_map comp_def)

lemma entry_contract:
  assumes g: "keeps_contract rg G f" and t: "keeps_contract rt T g"
  shows "keeps_contract (entry_rep rg rt) (TCommandBufferEntry G T) (entry_run f g)"
proof -
  note cg = g [unfolded keeps_contract_def] and ct = t [unfolded keeps_contract_def]
  show ?thesis
    unfolding keeps_contract_def
  proof (unfold_locales, goal_cases)
    case (1 b cs)
    then show ?case
      using command_buffer.num_rep [OF cg] command_buffer.num_rep [OF ct]
      by (auto simp: TCommandBufferEntry_def entry_rep_def split: CommandBufferEntry.splits)
  next
    case (2 b cs obj most st)
    show ?case
    proof (cases b)
      case (GodotEntry x)
      then obtain gs where gs: "cs = map Inl gs" "rg x gs" using 2 by (auto simp: entry_rep_def)
      from command_buffer.process_rep [OF cg gs(2), of obj most st]
      show ?thesis using gs(1) GodotEntry
        by (auto simp: TCommandBufferEntry_def entry_rep_def take_map drop_map fold_run_Inl)
    next
      case (TypedEntry x)
      then obtain ts where ts: "cs = map Inr ts" "rt x ts" using 2 by (auto simp: entry_rep_def)
      from command_buffer.process_rep [OF ct ts(2), of obj most st]
      show ?thesis using ts(1) TypedEntry
        by (auto simp: TCommandBufferEntry_def entry_rep_def take_map drop_map fold_run_Inr)
    qed
  next
    case (3 b cs)
    show ?case
    proof (cases b)
      case (GodotEntry x)
      then obtain gs where "cs = map Inl gs" "rg x gs" using 3 by (auto simp: entry_rep_def)
      with command_buffer.clear_rep [OF cg this(2)] GodotEntry show ?thesis
        by (auto simp: TCommandBufferEntry_def entry_rep_def)
    next
      case (TypedEntry x)
      then obtain ts where "cs = map Inr ts" "rt x ts" using 3 by (auto simp: entry_rep_def)
      with command_buffer.clear_rep [OF ct this(2)] TypedEntry show ?thesis
        by (auto simp: TCommandBufferEntry_def entry_rep_def)
    qed
  next
    case (4 b cs)
    then show ?case
      using command_buffer.shrink_rep [OF cg] command_buffer.shrink_rep [OF ct]
      by (auto simp: TCommandBufferEntry_def entry_rep_def split: CommandBufferEntry.splits)
  qed
qed

end
