(* ===== verification/GodotCommands.thy ===== *)
theory GodotCommands
  imports GodotCommandBuffer CommandEntry
begin

text \<open>
  What a \<open>GodotCommandBuffer\<close> holds: the abstraction of its bytes to the list of the commands added to
  it, the round trip of every argument through the encoding, and the buffer as an instance of the
  command buffer contract.
\<close>

section \<open>The arguments\<close>

text \<open>The bytes \<open>bs\<close>, wherever they stand, are read as the argument \<open>v\<close> and destroyed.\<close>

definition encodes :: "layout \<Rightarrow> 'p bytes \<Rightarrow> 'p Variant \<Rightarrow> bool" where
  "encodes L bs v \<longleftrightarrow>
     (\<forall>pre rest. \<exists>ds. length ds = length bs \<and>
        ReadVariant L (pre @ bs @ rest) (length pre) (length (pre @ bs @ rest))
          = Inr (length pre + length bs, pre @ ds @ rest, v))"

text \<open>The values a variant can have: 64-bit integers, and data of the types the switch knows.\<close>

definition variant_ok :: "'p Variant \<Rightarrow> bool" where
  "variant_ok v = (case v of VInt i \<Rightarrow> - (2 ^ 63) \<le> i \<and> i < 2 ^ 63 | VData t p \<Rightarrow> write_tag t \<noteq> None | _ \<Rightarrow> True)"

lemma size_type_pos: "0 < size_type L t"
  by (simp add: size_type_def)

lemma encodes_tag:
  assumes "t = VT_NIL \<and> v = VNil \<or> t = VT_TRUE \<and> v = VBool True \<or> t = VT_FALSE \<and> v = VBool False"
  shows "encodes L (WriteType 1 (Tag t)) v"
proof -
  have "ReadVariant L (pre @ WriteType 1 (Tag t) @ rest) (length pre) (length (pre @ WriteType 1 (Tag t) @ rest))
    = Inr (length pre + 1, pre @ WriteType 1 (Tag t) @ rest, v)" for pre rest
    using assms by (auto simp: ReadVariant_def)
  then show ?thesis unfolding encodes_def by (metis length_WriteType zero_less_one)
qed

lemma encodes_value:
  assumes "t \<notin> {VT_NIL, VT_TRUE, VT_FALSE}"
    and "(case c of IntV i \<Rightarrow> VInt (signed_take_bit 63 i) | DataV p \<Rightarrow> VData (read_type t) p) = v"
  shows "encodes L (write_value L t c) v"
  unfolding encodes_def
proof (intro allI)
  fix pre rest :: "'a bytes"
  let ?tag = "WriteType (Suc 0) (Tag t) :: 'a bytes" and ?val = "WriteType (size_type L t) (Val c)"
  let ?d = "pre @ ?tag @ ?val @ rest"
  have tag: "slot_at ?d (length pre) = Inr (Tag t)"
    using slot_at_written [of pre "Suc 0" "Tag t" "?val @ rest"] by simp
  have val: "slot_at ?d (Suc (length pre)) = Inr (Val c)"
    using slot_at_written [of "pre @ ?tag" "size_type L t" "Val c" rest] by simp
  have upd: "?d[Suc (length pre) := Dead] = pre @ ?tag @ destroyed (size_type L t) @ rest"
    using destroy_written [of "pre @ ?tag" "size_type L t" "Val c" rest] by simp
  have "ReadVariant L ?d (length pre) (length ?d) =
      Inr (length pre + (1 + size_type L t), pre @ (?tag @ destroyed (size_type L t)) @ rest, v)"
    using assms size_type_pos [of L t]
    by (simp add: ReadVariant_def ReadVariantInternal_def tag val upd)
  then show "\<exists>ds. length ds = length (write_value L t c) \<and>
      ReadVariant L (pre @ write_value L t c @ rest) (length pre) (length (pre @ write_value L t c @ rest))
        = Inr (length pre + length (write_value L t c), pre @ ds @ rest, v)"
    using size_type_pos [of L t] by (intro exI [of _ "?tag @ destroyed (size_type L t)"]) (simp add: write_value_def)
qed

text \<open>An integer survives the narrowing to the type chosen for it and the widening back.\<close>

lemma read_write_tag:
  "write_tag g = Some t \<Longrightarrow> read_type t = g \<and> t \<notin> {VT_NIL, VT_TRUE, VT_FALSE}"
  by (cases g) auto

lemma signed_take_bit_id:
  "- (2 ^ n) \<le> i \<Longrightarrow> i < 2 ^ n \<Longrightarrow> signed_take_bit n (i :: int) = i"
  by (simp add: signed_take_bit_int_eq_self_iff)

lemma encodes_int:
  assumes "- (2 ^ 63) \<le> i" "i < 2 ^ 63" "t \<notin> {VT_NIL, VT_TRUE, VT_FALSE}" "cast_int t i = i"
  shows "encodes L (write_int L t i) (VInt i)"
  unfolding write_int_def by (rule encodes_value [OF assms(3)]) (use signed_take_bit_id [OF assms(1,2)] assms(4) in simp)

lemma cast_unsigned:
  "0 \<le> i \<Longrightarrow> i < 2 ^ 8 \<Longrightarrow> cast_int VT_UINT8 i = i"
  "0 \<le> i \<Longrightarrow> i < 2 ^ 16 \<Longrightarrow> cast_int VT_UINT16 i = i"
  "0 \<le> i \<Longrightarrow> i < 2 ^ 32 \<Longrightarrow> cast_int VT_UINT32 i = i"
  "0 \<le> i \<Longrightarrow> i < 2 ^ 64 \<Longrightarrow> cast_int VT_UINT64 i = i"
  by (simp_all add: cast_int_def take_bit_int_eq_self)

lemma cast_signed:
  "- (2 ^ 7) \<le> i \<Longrightarrow> i < 2 ^ 7 \<Longrightarrow> cast_int VT_INT8 i = i"
  "- (2 ^ 15) \<le> i \<Longrightarrow> i < 2 ^ 15 \<Longrightarrow> cast_int VT_INT16 i = i"
  "- (2 ^ 31) \<le> i \<Longrightarrow> i < 2 ^ 31 \<Longrightarrow> cast_int VT_INT32 i = i"
  "- (2 ^ 63) \<le> i \<Longrightarrow> i < 2 ^ 63 \<Longrightarrow> cast_int VT_INT64 i = i"
  by (simp_all add: cast_int_def signed_take_bit_id)

lemma encodes_generic:
  assumes "variant_ok v"
  shows "encodes L (WriteGenericVariant L v) v"
proof (cases v)
  case VNil
  then show ?thesis using encodes_tag [of VT_NIL v L] by (simp add: WriteGenericVariant_def)
next
  case (VBool b)
  then show ?thesis
    using encodes_tag [of "if b then VT_TRUE else VT_FALSE" v L] by (simp add: WriteGenericVariant_def)
next
  case (VInt i)
  then have i: "- (2 ^ 63) \<le> i" "i < 2 ^ 63" using assms by (simp_all add: variant_ok_def)
  consider "i < 0" "- (2 ^ 7) \<le> i" | "i < - (2 ^ 7)" "- (2 ^ 15) \<le> i" | "i < - (2 ^ 15)" "- (2 ^ 31) \<le> i"
    | "i < - (2 ^ 31)" | "0 \<le> i" "i \<le> 2 ^ 8 - 1" | "2 ^ 8 - 1 < i" "i \<le> 2 ^ 16 - 1"
    | "2 ^ 16 - 1 < i" "i \<le> 2 ^ 32 - 1" | "2 ^ 32 - 1 < i"
    by fastforce
  then obtain t where t: "t \<notin> {VT_NIL, VT_TRUE, VT_FALSE}" "cast_int t i = i"
    "WriteGenericVariant L v = write_int L t i"
  proof cases
    case 1 then show thesis using that [of VT_INT8] cast_signed(1) [of i] by (simp add: WriteGenericVariant_def VInt)
  next
    case 2 then show thesis using that [of VT_INT16] cast_signed(2) [of i] by (simp add: WriteGenericVariant_def VInt)
  next
    case 3 then show thesis using that [of VT_INT32] cast_signed(3) [of i] by (simp add: WriteGenericVariant_def VInt)
  next
    case 4 then show thesis using that [of VT_INT64] cast_signed(4) [OF i] by (simp add: WriteGenericVariant_def VInt)
  next
    case 5 then show thesis using that [of VT_UINT8] cast_unsigned(1) [of i] by (simp add: WriteGenericVariant_def VInt)
  next
    case 6 then show thesis using that [of VT_UINT16] cast_unsigned(2) [of i] by (simp add: WriteGenericVariant_def VInt)
  next
    case 7 then show thesis using that [of VT_UINT32] cast_unsigned(3) [of i] by (simp add: WriteGenericVariant_def VInt)
  next
    case 8 then show thesis using that [of VT_UINT64] cast_unsigned(4) [of i] i by (simp add: WriteGenericVariant_def VInt)
  qed
  with encodes_int [OF i] show ?thesis by (simp add: VInt)
next
  case (VData t p)
  then obtain vt where vt: "write_tag t = Some vt" using assms by (auto simp: variant_ok_def)
  with read_write_tag [OF vt] show ?thesis
    unfolding VData WriteGenericVariant_def Variant.case vt option.case
    by (intro encodes_value) auto
qed


text \<open>The C++ overload converts each argument to a variant as well.\<close>

definition cxx_value :: "'p cxx_arg \<Rightarrow> 'p Variant" where
  "cxx_value a =
     (case a of
        ArgBool b \<Rightarrow> VBool b
      | ArgVariant v \<Rightarrow> v
      | ArgRef p \<Rightarrow> VData GT_OBJECT p
      | ArgObject p \<Rightarrow> VData GT_OBJECT p
      | ArgInt t i \<Rightarrow> VInt (signed_take_bit 63 (cast_int (GetVariantType t) i))
      | ArgData t p \<Rightarrow> VData (read_type (GetVariantType t)) p)"

definition cxx_ok :: "'p cxx_arg \<Rightarrow> bool" where
  "cxx_ok a = (case a of ArgVariant v \<Rightarrow> variant_ok v | _ \<Rightarrow> True)"

lemma GetVariantType_value: "GetVariantType t \<notin> {VT_NIL, VT_TRUE, VT_FALSE}"
  by (cases t) auto

lemma encodes_cxx:
  assumes "cxx_ok a"
  shows "encodes L (WriteVariant L a) (cxx_value a)"
  using assms encodes_tag [of VT_TRUE "VBool True" L] encodes_tag [of VT_FALSE "VBool False" L]
  by (auto simp: WriteVariant_def cxx_value_def cxx_ok_def write_int_def
      intro!: encodes_value encodes_generic GetVariantType_value split: cxx_arg.split)

section \<open>The commands\<close>

text \<open>The bytes of one command: its header and its arguments.\<close>

definition command_bytes :: "layout \<Rightarrow> 'p bytes \<Rightarrow> string \<times> 'p Variant list \<Rightarrow> bool" where
  "command_bytes L bytes c \<longleftrightarrow>
     fst c \<noteq> [] \<and> length (snd c) \<le> 16 \<and>
     (\<exists>bss. list_all2 (encodes L) bss (snd c) \<and>
        bytes = WriteType (size_command L) (Header (fst c) (length (snd c))) @ concat bss)"

text \<open>
  The buffer holds \<open>cs\<close>: behind the bytes that were consumed come those of the commands, and the
  count is theirs.
\<close>

definition gcmd_rep :: "layout \<Rightarrow> 'p GodotCommandBuffer \<Rightarrow> (string \<times> 'p Variant list) list \<Rightarrow> bool" where
  "gcmd_rep L b cs \<longleftrightarrow>
     (\<exists>bss. list_all2 (command_bytes L) bss cs \<and> m_start b \<le> length (m_data b) \<and>
        drop (m_start b) (m_data b) = concat bss) \<and> m_num_commands b = length cs"

lemma read_args_encoded:
  assumes "list_all2 (encodes L) bss vs"
  shows "\<exists>ds. length ds = length (concat bss) \<and>
    read_args L (length vs) (pre @ concat bss @ rest) (length pre) (length (pre @ concat bss @ rest))
      = Inr (length pre + length (concat bss), pre @ ds @ rest, Some vs)"
  using assms
proof (induction bss vs arbitrary: pre rule: list_all2_induct)
  case Nil
  then show ?case by simp
next
  case (Cons bs bss v vs)
  from Cons(1) [unfolded encodes_def, rule_format, of pre "concat bss @ rest"] obtain ds where
    ds: "length ds = length bs"
    "ReadVariant L (pre @ bs @ concat bss @ rest) (length pre) (length (pre @ bs @ concat bss @ rest))
       = Inr (length pre + length bs, pre @ ds @ concat bss @ rest, v)" by blast
  from Cons(3) [of "pre @ ds"] obtain es where
    "length es = length (concat bss)"
    "read_args L (length vs) (pre @ ds @ concat bss @ rest) (length pre + length bs) (length (pre @ bs @ concat bss @ rest))
       = Inr (length pre + length bs + length (concat bss), pre @ ds @ es @ rest, Some vs)"
    using ds(1) by auto
  with ds show ?case by (intro exI [of _ "ds @ es"]) (simp add: add.assoc)
qed

lemma take_command_encoded:
  assumes "command_bytes L bytes (name, args)"
  shows "\<exists>ds. length ds = length bytes \<and>
    take_command L (length pre) (length (pre @ bytes @ rest)) (pre @ bytes @ rest)
      = Inr (length pre + length bytes, pre @ ds @ rest, Some (name, args))"
proof -
  from assms obtain bss where c: "name \<noteq> []" "length args \<le> 16" "list_all2 (encodes L) bss args"
    "bytes = WriteType (size_command L) (Header name (length args)) @ concat bss"
    by (auto simp: command_bytes_def)
  let ?h = "WriteType (size_command L) (Header name (length args)) :: 'a bytes"
  from read_args_encoded [OF c(3), of "pre @ ?h" rest] obtain ds where
    ds: "length ds = length (concat bss)"
    "read_args L (length args) (pre @ ?h @ concat bss @ rest) (length pre + size_command L)
       (length (pre @ ?h @ concat bss @ rest))
     = Inr (length pre + size_command L + length (concat bss), pre @ ?h @ ds @ rest, Some args)"
    using size_command_pos [of L] by auto
  have h: "slot_at (pre @ ?h @ concat bss @ rest) (length pre) = Inr (Header name (length args))"
    by simp
  have "take_command L (length pre) (length (pre @ bytes @ rest)) (pre @ bytes @ rest)
      = Inr (length pre + length bytes, pre @ (destroyed (size_command L) @ ds) @ rest, Some (name, args))"
    using ds(2) c(1,2) size_command_pos [of L] unfolding c(4)
    by (simp add: take_command_def h)
  then show ?thesis using ds(1) c(4) size_command_pos [of L]
    by (intro exI [of _ "destroyed (size_command L) @ ds"]) simp
qed

lemma command_bytes_nonempty: "command_bytes L bytes c \<Longrightarrow> bytes \<noteq> []"
  by (auto simp: command_bytes_def)

section \<open>Processing and clearing\<close>

lemma process_loop_encoded:
  assumes "list_all2 (command_bytes L) bss cs" "most = 0 \<or> n < most"
  shows "\<exists>ds. length ds = length (concat (take (served (most - n) (length cs)) bss)) \<and>
    process_loop L callp most n (length pre) (length (pre @ concat bss)) (pre @ concat bss) st =
      Inr (n + served (most - n) (length cs), length pre + length ds,
           pre @ ds @ concat (drop (served (most - n) (length cs)) bss),
           fold (\<lambda>c. callp (fst c) (snd c)) (take (served (most - n) (length cs)) cs) st)"
  using assms
proof (induction bss cs arbitrary: pre n st rule: list_all2_induct)
  case Nil
  then show ?case by (simp add: process_loop.simps)
next
  case (Cons bytes bss c cs)
  obtain name args where c: "c = (name, args)" by (cases c)
  from take_command_encoded [OF Cons(1) [unfolded c], of pre "concat bss"] obtain ds where
    ds: "length ds = length bytes"
    "take_command L (length pre) (length (pre @ bytes @ concat bss)) (pre @ bytes @ concat bss)
       = Inr (length pre + length bytes, pre @ ds @ concat bss, Some (name, args))" by blast
  let ?stop = "length (pre @ bytes @ concat bss)" and ?st = "callp name args st"
  have one: "ProcessCommand L callp (length pre) ?stop (pre @ bytes @ concat bss) st
      = Inr (length pre + length bytes, pre @ ds @ concat bss, ?st)"
    using ds(2) by (simp add: ProcessCommand_take)
  have ne: "bytes \<noteq> []" using command_bytes_nonempty [OF Cons(1)] by simp
  have loop: "process_loop L callp most n (length pre) ?stop (pre @ bytes @ concat bss) st =
      (if n + 1 = most then Inr (n + 1, length pre + length bytes, pre @ ds @ concat bss, ?st)
       else process_loop L callp most (n + 1) (length pre + length bytes) ?stop (pre @ ds @ concat bss) ?st)"
    using ne one by (subst process_loop.simps) simp
  show ?case
  proof (cases "n + 1 = most")
    case True
    then have "served (most - n) (Suc (length cs)) = 1" by (auto simp: served_def k_process_all_commands_def)
    then show ?thesis using loop ds(1) True by (intro exI [of _ ds]) (simp add: c)
  next
    case False
    let ?k = "served (most - (n + 1)) (length cs)"
    have k: "served (most - n) (Suc (length cs)) = Suc ?k"
      using False Cons.prems by (auto simp: served_def k_process_all_commands_def)
    have "most = 0 \<or> n + 1 < most" using False Cons.prems by auto
    from Cons(3) [OF this, of "pre @ ds" ?st] obtain es where
      es: "length es = length (concat (take ?k bss))"
      "process_loop L callp most (n + 1) (length pre + length bytes) ?stop (pre @ ds @ concat bss) ?st =
        Inr (n + 1 + ?k, length pre + length bytes + length es, pre @ ds @ es @ concat (drop ?k bss),
             fold (\<lambda>c. callp (fst c) (snd c)) (take ?k cs) ?st)"
      using ds(1) by auto
    then show ?thesis using loop ds(1) False k
      by (intro exI [of _ "ds @ es"]) (simp add: c add.assoc)
  qed
qed

lemma ProcessCommands_rep:
  assumes "gcmd_rep L b cs"
  shows "\<exists>b'. ProcessCommands L callp most b st =
      Inr (served most (length cs), b', fold (\<lambda>c. callp (fst c) (snd c)) (take (served most (length cs)) cs) st) \<and>
    gcmd_rep L b' (drop (served most (length cs)) cs)"
proof (cases "cs = []")
  case True
  then show ?thesis using assms by (auto simp: ProcessCommands_def gcmd_rep_def)
next
  case False
  let ?k = "served most (length cs)"
  from assms obtain bss where
    b: "list_all2 (command_bytes L) bss cs" "m_start b \<le> length (m_data b)"
      "drop (m_start b) (m_data b) = concat bss" "m_num_commands b = length cs"
    by (auto simp: gcmd_rep_def)
  let ?pre = "take (m_start b) (m_data b)"
  have d: "m_data b = ?pre @ concat bss" and p: "length ?pre = m_start b"
    using b(2,3) by (metis append_take_drop_id, simp)
  have "most = 0 \<or> 0 < most" by auto
  from process_loop_encoded [OF b(1) this, where pre = ?pre and callp = callp and st = st] obtain ds where
    ds: "length ds = length (concat (take ?k bss))"
    "process_loop L callp most 0 (m_start b) (length (m_data b)) (m_data b) st =
      Inr (?k, m_start b + length ds, ?pre @ ds @ concat (drop ?k bss),
           fold (\<lambda>c. callp (fst c) (snd c)) (take ?k cs) st)"
    using that unfolding d [symmetric] p by auto
  let ?b = "b\<lparr>m_data := ?pre @ ds @ concat (drop ?k bss), m_start := m_start b + length ds,
              m_num_commands := m_num_commands b - ?k\<rparr>"
  have "ProcessCommands L callp most b st =
      Inr (?k, ?b, fold (\<lambda>c. callp (fst c) (snd c)) (take ?k cs) st)"
    using False b(4) ds(2) by (simp add: ProcessCommands_def)
  moreover have "gcmd_rep L ?b (drop ?k cs)"
    using b(1,2,4) by (auto simp: gcmd_rep_def p intro!: exI [of _ "drop ?k bss"] list_all2_dropI)
  ultimately show ?thesis by blast
qed

lemma clear_loop_encoded:
  assumes "list_all2 (command_bytes L) bss cs"
  shows "\<exists>data. clear_loop L (length pre) (length (pre @ concat bss)) (pre @ concat bss) = Inr data"
  using assms
proof (induction bss cs arbitrary: pre rule: list_all2_induct)
  case Nil
  then show ?case by (simp add: clear_loop.simps)
next
  case (Cons bytes bss c cs)
  obtain name args where c: "c = (name, args)" by (cases c)
  from take_command_encoded [OF Cons(1) [unfolded c], of pre "concat bss"] obtain ds where
    ds: "length ds = length bytes"
    "take_command L (length pre) (length (pre @ bytes @ concat bss)) (pre @ bytes @ concat bss)
       = Inr (length pre + length bytes, pre @ ds @ concat bss, Some (name, args))" by blast
  from Cons(3) [of "pre @ ds"] ds show ?case
    using command_bytes_nonempty [OF Cons(1)] by (subst clear_loop.simps) (auto simp: SkipCommand_take)
qed

lemma Clear_rep:
  assumes "gcmd_rep L b cs"
  shows "\<exists>b'. Clear L b = Inr b' \<and> gcmd_rep L b' []"
proof -
  from assms obtain bss where b: "list_all2 (command_bytes L) bss cs" "m_start b \<le> length (m_data b)"
      "drop (m_start b) (m_data b) = concat bss"
    by (auto simp: gcmd_rep_def)
  from clear_loop_encoded [OF b(1), of "take (m_start b) (m_data b)"] b(2,3)
  obtain data where "clear_loop L (m_start b) (length (m_data b)) (m_data b) = Inr data"
    by (metis append_take_drop_id length_take min.absorb2)
  then show ?thesis by (auto simp: Clear_def gcmd_rep_def)
qed

section \<open>Adding\<close>

text \<open>A fresh buffer, or one that was cleared, takes commands; one that was partly processed does not.\<close>

definition gcmd_open :: "layout \<Rightarrow> 'p GodotCommandBuffer \<Rightarrow> (string \<times> 'p Variant list) list \<Rightarrow> bool" where
  "gcmd_open L b cs \<longleftrightarrow> gcmd_rep L b cs \<and> m_start b = 0"

lemma gcmd_new_open: "gcmd_open L gcmd_new []"
  by (simp add: gcmd_open_def gcmd_rep_def gcmd_new_def)

lemma gcmd_append:
  assumes "gcmd_open L b cs" "command_bytes L bytes c"
  shows "gcmd_open L (b\<lparr>m_data := m_data b @ bytes, m_num_commands := m_num_commands b + 1\<rparr>) (cs @ [c])"
proof -
  from assms(1) obtain bss where "list_all2 (command_bytes L) bss cs" "m_data b = concat bss"
    "m_num_commands b = length cs" "m_start b = 0"
    by (auto simp: gcmd_open_def gcmd_rep_def)
  with assms(2) show ?thesis
    unfolding gcmd_open_def gcmd_rep_def by (auto intro!: exI [of _ "bss @ [bytes]"] list_all2_appendI)
qed

definition command_ok :: "string \<times> 'p Variant list \<Rightarrow> bool" where
  "command_ok c \<longleftrightarrow> fst c \<noteq> [] \<and> length (snd c) \<le> 16 \<and> (\<forall>v \<in> set (snd c). variant_ok v)"

lemma AddCommandVararg_open:
  assumes "gcmd_open L b cs" "command_ok (name, args)"
  shows "\<exists>b'. AddCommandVararg L name args b = Inr b' \<and> gcmd_open L b' (cs @ [(name, args)])"
proof -
  have "list_all2 (encodes L) (map (WriteGenericVariant L) args) args"
    using assms(2) by (auto simp: command_ok_def list_all2_conv_all_nth intro!: encodes_generic)
  then have "command_bytes L (WriteType (size_command L) (Header name (length args)) @
      concat (map (WriteGenericVariant L) args)) (name, args)"
    using assms(2) by (auto simp: command_bytes_def command_ok_def)
  from gcmd_append [OF assms(1) this] show ?thesis
    using assms by (simp add: AddCommandVararg_def gcmd_open_def command_ok_def)
qed

lemma AddCommand_open:
  assumes "gcmd_open L b cs" "name \<noteq> []" "length args \<le> 16" "\<forall>a \<in> set args. cxx_ok a"
  shows "\<exists>b'. AddCommand L name args b = Inr b' \<and> gcmd_open L b' (cs @ [(name, map cxx_value args)])"
proof -
  have "list_all2 (encodes L) (map (WriteVariant L) args) (map cxx_value args)"
    using assms(4) by (auto simp: list_all2_conv_all_nth intro!: encodes_cxx)
  then have "command_bytes L (WriteType (size_command L) (Header name (length args mod 256)) @
      concat (map (WriteVariant L) args)) (name, map cxx_value args)"
    using assms(2,3) by (auto simp: command_bytes_def)
  from gcmd_append [OF assms(1) this] show ?thesis
    using assms by (simp add: AddCommand_def gcmd_open_def)
qed

section \<open>The contract\<close>

definition GodotEntryMethods ::
    "layout \<Rightarrow> ('id \<Rightarrow> string \<Rightarrow> 'p Variant list \<Rightarrow> 'o \<Rightarrow> 'o) \<Rightarrow> ('p GodotCommandBuffer, 'id, 'o) CommandBufferEntryBase" where
  "GodotEntryMethods L callp =
     \<lparr>v_NumCommands = NumCommands, v_ProcessCommands = (\<lambda>obj. ProcessCommands L (callp obj)),
      v_Clear = Clear L, v_ShrinkToFit = ShrinkToFit\<rparr>"

interpretation gcmd: command_buffer
  "gcmd_rep L" NumCommands "\<lambda>obj. ProcessCommands L (callp obj)" "Clear L" ShrinkToFit
  "\<lambda>obj c. callp obj (fst c) (snd c)" for L callp
proof (unfold_locales, goal_cases)
  case (1 b cs)
  then show ?case by (auto simp: gcmd_rep_def NumCommands_def)
next
  case (2 b cs obj most st)
  then show ?case by (rule ProcessCommands_rep)
next
  case (3 b cs)
  then show ?case by (rule Clear_rep)
next
  case (4 b cs)
  then show ?case by (simp add: ShrinkToFit_def)
qed

lemma GodotEntryMethods_contract:
  "keeps_contract (gcmd_rep L) (GodotEntryMethods L callp) (\<lambda>obj c. callp obj (fst c) (snd c))"
  by (simp add: keeps_contract_def GodotEntryMethods_def gcmd.command_buffer_axioms)

section \<open>Properties\<close>

lemma AddCommands_open:
  assumes "gcmd_open L b ds" "\<forall>c \<in> set cs. command_ok c"
  shows "\<exists>b'. rfold (\<lambda>c. AddCommandVararg L (fst c) (snd c)) cs b = Inr b' \<and> gcmd_open L b' (ds @ cs)"
  using assms
proof (induction cs arbitrary: b ds)
  case Nil
  then show ?case by simp
next
  case (Cons c cs)
  from AddCommandVararg_open [OF Cons.prems(1), of "fst c" "snd c"] Cons.prems(2) obtain b1 where
    "AddCommandVararg L (fst c) (snd c) b = Inr b1" "gcmd_open L b1 (ds @ [c])" by auto
  with Cons.IH [OF this(2)] Cons.prems(2) show ?case by simp
qed


text \<open>A layout with small objects, for concrete runs.\<close>

definition small_layout :: layout where
  "small_layout = \<lparr>l_command = 3, l_type = (\<lambda>t. if t = VT_UINT8 \<or> t = VT_INT8 then 1 else 4)\<rparr>"


text \<open>
  The limit of 16 arguments is only checked when a command is processed. A command with 17 that the
  C++ overload stored makes the buffer skip everything behind it, counts as one, and leaves a count
  that no further call of \<open>ProcessCommands\<close> reduces.
\<close>

definition crowded_buffer :: "nat GodotCommandBuffer res" where
  "crowded_buffer =
     rbind (AddCommand small_layout ''a'' (replicate 17 (ArgBool True)) gcmd_new) (AddCommand small_layout ''b'' [])"

lemma too_many_arguments_stall:
  "rbind crowded_buffer (\<lambda>b. rbind (ProcessCommands small_layout (\<lambda>n as l. n # l) 0 b []) (\<lambda>(n, b1, l).
     rbind (ProcessCommands small_layout (\<lambda>n as l. n # l) 0 b1 l) (\<lambda>(n', b2, l').
       Inr (n, l, NumCommands b1, n', l', b2 = b1)))) = Inr (1, [], 1, 0, [], True)"
  by code_simp

end
