(* ===== verification/TypedCommandBuffer.thy ===== *)
theory TypedCommandBuffer
  imports CommandStorage
begin

text \<open>
  \<open>src/Commands/TypedCommandBuffer.h\<close> and \<open>TypedCommandBuffer.cpp\<close>: a byte buffer of calls of C++ methods, each a
  pointer to the method's reader followed by the tuple of its arguments. \<open>'m\<close> names the methods,
  \<open>'a\<close> the argument tuples; \<open>invoke\<close> is what a call of a method does to the world \<open>'o\<close>. The sizes
  are parameters, at least one byte each.
\<close>

datatype ('m, 'a) titem = TCommand 'm | ArgStorage 'a

record 'm tlayout =
  tl_pointer :: nat
  tl_args :: "'m \<Rightarrow> nat"

definition size_pointer :: "'m tlayout \<Rightarrow> nat" where
  "size_pointer L = max 1 (tl_pointer L)"

definition size_args :: "'m tlayout \<Rightarrow> 'm \<Rightarrow> nat" where
  "size_args L m = max 1 (tl_args L m)"

record ('m, 'a) TCommandBuffer =
  t_data :: "('m, 'a) titem storage"
  t_start :: nat
  t_num_commands :: nat

section \<open>One command\<close>

definition ReadType :: "nat \<Rightarrow> ('m, 'a) titem storage \<Rightarrow> nat \<Rightarrow> nat \<Rightarrow> (nat \<times> ('m, 'a) titem) res" where
  "ReadType n data pos stop =
     (if \<not> pos + n \<le> stop then Inl Assertion
      else rbind (slot_at data pos) (\<lambda>x. Inr (pos + n, x)))"

definition DestroyType :: "nat \<Rightarrow> ('m, 'a) titem storage \<Rightarrow> nat \<Rightarrow> nat \<Rightarrow> (nat \<times> ('m, 'a) titem storage) res" where
  "DestroyType n data pos stop =
     (if \<not> pos + n \<le> stop then Inl Assertion
      else rbind (slot_at data pos) (\<lambda>_. Inr (pos + n, data[pos := Dead])))"

text \<open>\<open>DefaultCommand::Read\<close> of one method\<close>

definition DefaultCommand_Read ::
    "'m tlayout \<Rightarrow> ('m \<Rightarrow> 'a \<Rightarrow> 'o \<Rightarrow> 'o) \<Rightarrow> 'm \<Rightarrow> nat \<Rightarrow> nat \<Rightarrow> bool \<Rightarrow> ('m, 'a) titem storage \<Rightarrow> 'o \<Rightarrow>
     (nat \<times> ('m, 'a) titem storage \<times> 'o) res" where
  "DefaultCommand_Read L invoke m pos stop execute data st =
     rbind (if execute
            then rbind (ReadType (size_args L m) data pos stop) (\<lambda>(_, x).
              case x of ArgStorage a \<Rightarrow> Inr (invoke m a st) | _ \<Rightarrow> Inl Uninitialized)
            else Inr st) (\<lambda>st'.
     rbind (DestroyType (size_args L m) data pos stop) (\<lambda>(pos', data').
       Inr (pos', data', st')))"

definition DefaultCommand_Write :: "'m tlayout \<Rightarrow> 'm \<Rightarrow> 'a \<Rightarrow> ('m, 'a) titem storage" where
  "DefaultCommand_Write L m a = WriteType (size_pointer L) (TCommand m) @ WriteType (size_args L m) (ArgStorage a)"

definition TProcessCommand ::
    "'m tlayout \<Rightarrow> ('m \<Rightarrow> 'a \<Rightarrow> 'o \<Rightarrow> 'o) \<Rightarrow> nat \<Rightarrow> nat \<Rightarrow> bool \<Rightarrow> ('m, 'a) titem storage \<Rightarrow> 'o \<Rightarrow>
     (nat \<times> ('m, 'a) titem storage \<times> 'o) res" where
  "TProcessCommand L invoke pos stop execute data st =
     rbind (ReadType (size_pointer L) data pos stop) (\<lambda>(pos', x).
       case x of
         TCommand m \<Rightarrow> DefaultCommand_Read L invoke m pos' stop execute data st
       | _ \<Rightarrow> Inl Uninitialized)"

lemma size_pos: "0 < size_pointer L" "0 < size_args L m"
  by (simp_all add: size_pointer_def size_args_def)

lemma TProcessCommand_pos:
  assumes "TProcessCommand L invoke pos stop execute data st = Inr (pos', data', st')"
  shows "pos < pos'" "pos' \<le> stop"
proof -
  have "pos < pos' \<and> pos' \<le> stop"
    using assms size_pos(1) [of L]
    by (auto simp: TProcessCommand_def DefaultCommand_Read_def ReadType_def DestroyType_def
        elim!: rbind_InrE split: if_splits titem.split_asm)
  then show "pos < pos'" "pos' \<le> stop" by simp_all
qed

section \<open>TCommandBuffer\<close>

definition tcmd_new :: "('m, 'a) TCommandBuffer" where
  "tcmd_new = \<lparr>t_data = [], t_start = 0, t_num_commands = 0\<rparr>"

definition TAddCommand :: "'m tlayout \<Rightarrow> 'm \<Rightarrow> 'a \<Rightarrow> ('m, 'a) TCommandBuffer \<Rightarrow> ('m, 'a) TCommandBuffer res" where
  "TAddCommand L m a b =
     (if t_start b \<noteq> 0 then Inl Assertion
      else Inr (b\<lparr>t_data := t_data b @ DefaultCommand_Write L m a,
                  t_num_commands := t_num_commands b + 1\<rparr>))"

function tprocess_loop ::
    "'m tlayout \<Rightarrow> ('m \<Rightarrow> 'a \<Rightarrow> 'o \<Rightarrow> 'o) \<Rightarrow> nat \<Rightarrow> nat \<Rightarrow> nat \<Rightarrow> nat \<Rightarrow> ('m, 'a) titem storage \<Rightarrow> 'o \<Rightarrow>
     (nat \<times> nat \<times> ('m, 'a) titem storage \<times> 'o) res" where
  "tprocess_loop L invoke most n pos stop data st =
     (if pos = stop then Inr (n, pos, data, st)
      else rbind (TProcessCommand L invoke pos stop True data st) (\<lambda>(pos', data', st').
        if n + 1 = most then Inr (n + 1, pos', data', st')
        else tprocess_loop L invoke most (n + 1) pos' stop data' st'))"
  by pat_completeness auto
termination
proof (relation "measure (\<lambda>(L, invoke, most, n, pos, stop, data, st). stop - pos)", goal_cases)
  case (2 L invoke most n pos stop data st x pos' y data' st')
  then show ?case using TProcessCommand_pos [of L invoke pos stop True data st pos' data' st'] by auto
qed simp

declare tprocess_loop.simps [simp del]

definition ProcessCommandsUntyped ::
    "'m tlayout \<Rightarrow> ('m \<Rightarrow> 'a \<Rightarrow> 'o \<Rightarrow> 'o) \<Rightarrow> nat \<Rightarrow> ('m, 'a) TCommandBuffer \<Rightarrow> 'o \<Rightarrow>
     (nat \<times> ('m, 'a) TCommandBuffer \<times> 'o) res" where
  "ProcessCommandsUntyped L invoke most b st =
     (if t_num_commands b = 0 then Inr (0, b, st)
      else rbind (tprocess_loop L invoke most 0 (t_start b) (length (t_data b)) (t_data b) st)
        (\<lambda>(n, pos, data, st').
          if t_num_commands b \<ge> n
          then Inr (n, b\<lparr>t_data := data, t_start := pos, t_num_commands := t_num_commands b - n\<rparr>, st')
          else Inl Assertion))"

definition TNumCommands :: "('m, 'a) TCommandBuffer \<Rightarrow> nat" where
  "TNumCommands b = t_num_commands b"

text \<open>The calls of \<open>Clear\<close> do not execute, so the world they pass on is irrelevant.\<close>

function tclear_loop :: "'m tlayout \<Rightarrow> nat \<Rightarrow> nat \<Rightarrow> ('m, 'a) titem storage \<Rightarrow> ('m, 'a) titem storage res" where
  "tclear_loop L pos stop data =
     (if pos = stop then Inr data
      else rbind (TProcessCommand L (\<lambda>_ _ u. u) pos stop False data ()) (\<lambda>(pos', data', _).
        tclear_loop L pos' stop data'))"
  by pat_completeness auto
termination
proof (relation "measure (\<lambda>(L, pos, stop, data). stop - pos)", goal_cases)
  case (2 L pos stop data x pos' y data' u)
  then have "pos < pos'" "pos' \<le> stop"
    using TProcessCommand_pos [of L "\<lambda>_ _ u. u" pos stop False data "()" pos' data' u] by auto
  then show ?case by simp
qed simp

declare tclear_loop.simps [simp del]

definition TClear :: "'m tlayout \<Rightarrow> ('m, 'a) TCommandBuffer \<Rightarrow> ('m, 'a) TCommandBuffer res" where
  "TClear L b =
     rbind (tclear_loop L (t_start b) (length (t_data b)) (t_data b)) (\<lambda>_.
       Inr \<lparr>t_data = [], t_start = 0, t_num_commands = 0\<rparr>)"

definition TShrinkToFit :: "('m, 'a) TCommandBuffer \<Rightarrow> ('m, 'a) TCommandBuffer" where
  "TShrinkToFit b = b"

text \<open>Move assignment: the target is cleared first, the source is left empty.\<close>

definition tcmd_move ::
    "'m tlayout \<Rightarrow> ('m, 'a) TCommandBuffer \<Rightarrow> ('m, 'a) TCommandBuffer \<Rightarrow>
     (('m, 'a) TCommandBuffer \<times> ('m, 'a) TCommandBuffer) res" where
  "tcmd_move L this other =
     rbind (TClear L this) (\<lambda>_. Inr (other, \<lparr>t_data = [], t_start = 0, t_num_commands = 0\<rparr>))"

end
