(* ===== verification/TypedCommands.thy ===== *)
theory TypedCommands
  imports TypedCommandBuffer CommandEntry
begin

text \<open>
  A \<open>TCommandBuffer\<close> holds the method calls added to it: the abstraction of its bytes, and the buffer as
  an instance of the command buffer contract.
\<close>

section \<open>The commands in the bytes\<close>

definition tcmd_bytes :: "'m tlayout \<Rightarrow> ('m \<times> 'a) list \<Rightarrow> ('m, 'a) titem storage" where
  "tcmd_bytes L cs = concat (map (\<lambda>(m, a). DefaultCommand_Write L m a) cs)"

definition tcmd_rep :: "'m tlayout \<Rightarrow> ('m, 'a) TCommandBuffer \<Rightarrow> ('m \<times> 'a) list \<Rightarrow> bool" where
  "tcmd_rep L b cs \<longleftrightarrow>
     t_start b \<le> length (t_data b) \<and> drop (t_start b) (t_data b) = tcmd_bytes L cs \<and>
     t_num_commands b = length cs"

lemma tcmd_bytes_simps [simp]:
  "tcmd_bytes L [] = []"
  "tcmd_bytes L ((m, a) # cs) =
     WriteType (size_pointer L) (TCommand m) @ WriteType (size_args L m) (ArgStorage a) @ tcmd_bytes L cs"
  "tcmd_bytes L (cs @ ds) = tcmd_bytes L cs @ tcmd_bytes L ds"
  by (simp_all add: tcmd_bytes_def DefaultCommand_Write_def)

text \<open>One command at the position where its bytes begin.\<close>

lemma TProcessCommand_written:
  assumes "data = pre @ WriteType (size_pointer L) (TCommand m) @ WriteType (size_args L m) (ArgStorage a) @ rest"
  shows "TProcessCommand L invoke (length pre) (length data) execute data st =
    Inr (length pre + size_pointer L + size_args L m,
         pre @ (WriteType (size_pointer L) (TCommand m) @ destroyed (size_args L m)) @ rest,
         if execute then invoke m a st else st)"
proof -
  let ?p = "WriteType (size_pointer L) (TCommand m) :: ('a, 'b) titem storage"
  have ptr: "slot_at data (length pre) = Inr (TCommand m)" by (simp add: assms)
  have arg: "slot_at data (length pre + size_pointer L) = Inr (ArgStorage a)"
    using slot_at_written [of "pre @ ?p" "size_args L m" "ArgStorage a" rest] size_pos(1) [of L] by (simp add: assms)
  have upd: "data[length pre + size_pointer L := Dead] = pre @ (?p @ destroyed (size_args L m)) @ rest"
    using destroy_written [of "pre @ ?p" "size_args L m" "ArgStorage a" rest] size_pos(1) [of L] by (simp add: assms)
  have len: "length pre + size_pointer L + size_args L m \<le> length data"
    using size_pos [of L] by (simp add: assms)
  show ?thesis
    using len by (simp add: TProcessCommand_def DefaultCommand_Read_def ReadType_def DestroyType_def ptr arg upd)
qed

lemma tprocess_loop_encoded:
  assumes "most = 0 \<or> n < most"
  shows "\<exists>ds. length ds = length (tcmd_bytes L (take (served (most - n) (length cs)) cs)) \<and>
    tprocess_loop L invoke most n (length pre) (length (pre @ tcmd_bytes L cs)) (pre @ tcmd_bytes L cs) st =
      Inr (n + served (most - n) (length cs), length pre + length ds,
           pre @ ds @ tcmd_bytes L (drop (served (most - n) (length cs)) cs),
           fold (\<lambda>(m, a). invoke m a) (take (served (most - n) (length cs)) cs) st)"
  using assms
proof (induction cs arbitrary: pre n st)
  case Nil
  then show ?case by (simp add: tprocess_loop.simps)
next
  case (Cons c cs)
  obtain m a where c: "c = (m, a)" by (cases c)
  let ?data = "pre @ tcmd_bytes L (c # cs)"
  let ?ds = "WriteType (size_pointer L) (TCommand m) @ destroyed (size_args L m) :: ('a, 'b) titem storage"
  let ?next = "length pre + size_pointer L + size_args L m"
  have len: "length ?ds = size_pointer L + size_args L m" using size_pos [of L] by simp
  have one: "TProcessCommand L invoke (length pre) (length ?data) True ?data st =
      Inr (?next, pre @ ?ds @ tcmd_bytes L cs, invoke m a st)"
    by (subst TProcessCommand_written [where rest = "tcmd_bytes L cs" and m = m and a = a]) (simp_all add: c)
  have loop: "tprocess_loop L invoke most n (length pre) (length ?data) ?data st =
      (if n + 1 = most then Inr (n + 1, ?next, pre @ ?ds @ tcmd_bytes L cs, invoke m a st)
       else tprocess_loop L invoke most (n + 1) ?next (length ?data) (pre @ ?ds @ tcmd_bytes L cs) (invoke m a st))"
    using size_pos [of L] by (subst tprocess_loop.simps, subst one) (simp add: c)
  show ?case
  proof (cases "n + 1 = most")
    case True
    then have "served (most - n) (Suc (length cs)) = 1" by (auto simp: served_def k_process_all_commands_def)
    then show ?thesis using loop True len size_pos [of L] by (intro exI [of _ ?ds]) (simp add: c)
  next
    case False
    let ?k = "served (most - (n + 1)) (length cs)"
    have k: "served (most - n) (Suc (length cs)) = Suc ?k"
      using False Cons.prems by (auto simp: served_def k_process_all_commands_def)
    have "most = 0 \<or> n + 1 < most" using False Cons.prems by auto
    from Cons.IH [OF this, of "pre @ ?ds" "invoke m a st"] obtain es where
      es: "length es = length (tcmd_bytes L (take ?k cs))"
      "tprocess_loop L invoke most (n + 1) ?next (length ?data) (pre @ ?ds @ tcmd_bytes L cs) (invoke m a st) =
        Inr (n + 1 + ?k, ?next + length es, pre @ ?ds @ es @ tcmd_bytes L (drop ?k cs),
             fold (\<lambda>(m, a). invoke m a) (take ?k cs) (invoke m a st))"
      using len size_pos [of L] by (auto simp: c add.assoc)
    then show ?thesis using loop False k len size_pos [of L]
      by (intro exI [of _ "?ds @ es"]) (simp add: c add.assoc)
  qed
qed

lemma tcmd_split:
  assumes "tcmd_rep L b cs"
  shows "t_data b = take (t_start b) (t_data b) @ tcmd_bytes L cs" "length (take (t_start b) (t_data b)) = t_start b"
  using assms unfolding tcmd_rep_def by (metis append_take_drop_id, simp)

lemma ProcessCommandsUntyped_rep:
  assumes "tcmd_rep L b cs"
  shows "\<exists>b'. ProcessCommandsUntyped L invoke most b st =
      Inr (served most (length cs), b', fold (\<lambda>(m, a). invoke m a) (take (served most (length cs)) cs) st) \<and>
    tcmd_rep L b' (drop (served most (length cs)) cs)"
proof (cases "cs = []")
  case True
  then show ?thesis using assms by (auto simp: ProcessCommandsUntyped_def tcmd_rep_def)
next
  case False
  let ?k = "served most (length cs)" and ?pre = "take (t_start b) (t_data b)"
  note d = tcmd_split [OF assms]
  have num: "t_num_commands b = length cs" "t_start b \<le> length (t_data b)" using assms by (simp_all add: tcmd_rep_def)
  have "most = 0 \<or> 0 < most" by auto
  from tprocess_loop_encoded [OF this, where pre = ?pre and cs = cs and L = L and invoke = invoke and st = st]
  obtain ds where ds: "length ds = length (tcmd_bytes L (take ?k cs))"
    "tprocess_loop L invoke most 0 (t_start b) (length (t_data b)) (t_data b) st =
      Inr (?k, t_start b + length ds, ?pre @ ds @ tcmd_bytes L (drop ?k cs),
           fold (\<lambda>(m, a). invoke m a) (take ?k cs) st)"
    using that unfolding d(1) [symmetric] d(2) by auto
  let ?b = "b\<lparr>t_data := ?pre @ ds @ tcmd_bytes L (drop ?k cs), t_start := t_start b + length ds,
              t_num_commands := t_num_commands b - ?k\<rparr>"
  have "ProcessCommandsUntyped L invoke most b st =
      Inr (?k, ?b, fold (\<lambda>(m, a). invoke m a) (take ?k cs) st)"
    using False num ds(2) by (simp add: ProcessCommandsUntyped_def)
  moreover have "tcmd_rep L ?b (drop ?k cs)" using num by (simp add: tcmd_rep_def)
  ultimately show ?thesis by blast
qed

lemma tclear_loop_encoded:
  "\<exists>data. tclear_loop L (length pre) (length (pre @ tcmd_bytes L cs)) (pre @ tcmd_bytes L cs) = Inr data"
proof (induction cs arbitrary: pre)
  case Nil
  then show ?case by (simp add: tclear_loop.simps)
next
  case (Cons c cs)
  obtain m a where c: "c = (m, a)" by (cases c)
  let ?data = "pre @ tcmd_bytes L (c # cs)"
  let ?ds = "WriteType (size_pointer L) (TCommand m) @ destroyed (size_args L m) :: ('a, 'b) titem storage"
  have one: "TProcessCommand L (\<lambda>_ _ u. u) (length pre) (length ?data) False ?data () =
      Inr (length pre + size_pointer L + size_args L m, pre @ ?ds @ tcmd_bytes L cs, ())"
    by (subst TProcessCommand_written [where rest = "tcmd_bytes L cs" and m = m and a = a]) (simp_all add: c)
  have "tclear_loop L (length pre) (length ?data) ?data =
      tclear_loop L (length pre + size_pointer L + size_args L m) (length ?data) (pre @ ?ds @ tcmd_bytes L cs)"
    using size_pos [of L] by (subst tclear_loop.simps, subst one) (simp add: c)
  with Cons.IH [of "pre @ ?ds"] show ?case using size_pos [of L] by (auto simp: c add.assoc)
qed

lemma TClear_rep:
  assumes "tcmd_rep L b cs"
  shows "\<exists>b'. TClear L b = Inr b' \<and> tcmd_rep L b' []"
proof -
  note d = tcmd_split [OF assms]
  from tclear_loop_encoded [of L "take (t_start b) (t_data b)" cs] obtain data where
    "tclear_loop L (t_start b) (length (t_data b)) (t_data b) = Inr data"
    unfolding d(1) [symmetric] d(2) by blast
  then show ?thesis by (simp add: TClear_def tcmd_rep_def)
qed

section \<open>The contract\<close>

definition TypedEntryMethods ::
    "'m tlayout \<Rightarrow> ('id \<Rightarrow> 'm \<Rightarrow> 'a \<Rightarrow> 'o \<Rightarrow> 'o) \<Rightarrow> (('m, 'a) TCommandBuffer, 'id, 'o) CommandBufferEntryBase" where
  "TypedEntryMethods L invoke =
     \<lparr>v_NumCommands = TNumCommands, v_ProcessCommands = (\<lambda>obj. ProcessCommandsUntyped L (invoke obj)),
      v_Clear = TClear L, v_ShrinkToFit = TShrinkToFit\<rparr>"

interpretation tcmd: command_buffer
  "tcmd_rep L" TNumCommands "\<lambda>obj. ProcessCommandsUntyped L (invoke obj)" "TClear L" TShrinkToFit
  "\<lambda>obj (m, a). invoke obj m a" for L invoke
proof (unfold_locales, goal_cases)
  case (1 b cs)
  then show ?case by (simp add: tcmd_rep_def TNumCommands_def)
next
  case (2 b cs obj most st)
  then show ?case by (rule ProcessCommandsUntyped_rep)
next
  case (3 b cs)
  then show ?case by (rule TClear_rep)
next
  case (4 b cs)
  then show ?case by (simp add: TShrinkToFit_def)
qed

lemma TypedEntryMethods_contract:
  "keeps_contract (tcmd_rep L) (TypedEntryMethods L invoke) (\<lambda>obj (m, a). invoke obj m a)"
  by (simp add: keeps_contract_def TypedEntryMethods_def tcmd.command_buffer_axioms)

section \<open>Properties\<close>

lemma TAddCommands_rep:
  assumes "tcmd_rep L b ds" "t_start b = 0"
  shows "\<exists>b'. rfold (\<lambda>(m, a). TAddCommand L m a) cs b = Inr b' \<and> tcmd_rep L b' (ds @ cs) \<and> t_start b' = 0"
  using assms
proof (induction cs arbitrary: b ds)
  case Nil
  then show ?case by simp
next
  case (Cons c cs)
  obtain m a where c: "c = (m, a)" by (cases c)
  obtain b1 where "TAddCommand L m a b = Inr b1" "tcmd_rep L b1 (ds @ [c])" "t_start b1 = 0"
    using Cons.prems by (auto simp: TAddCommand_def tcmd_rep_def DefaultCommand_Write_def c)
  with Cons.IH [OF this(2,3)] show ?case by (simp add: c)
qed

text \<open>
  C16: method calls added to a fresh \<open>TCommandBuffer\<close> and processed in slices of any sizes are made in
  order, each once, with its arguments, up to the number the slices allow; the count is that of the
  remaining ones, and what remains can be cleared without being called.
\<close>

theorem typed_commands_round_trip:
  assumes "\<forall>m \<in> set ms. 0 < m"
  shows "\<exists>b b'. rfold (\<lambda>(m, a). TAddCommand L m a) cs tcmd_new = Inr b \<and>
    rfold (\<lambda>m (b, st). rbind (ProcessCommandsUntyped L invoke m b st) (\<lambda>(_, b', st'). Inr (b', st'))) ms (b, st) =
      Inr (b', fold (\<lambda>(m, a). invoke m a) (take (sum_list ms) cs) st) \<and>
    TNumCommands b' = length cs - sum_list ms \<and> TClear L b' = Inr tcmd_new"
proof -
  have "tcmd_rep L tcmd_new []" by (simp add: tcmd_rep_def tcmd_new_def)
  from TAddCommands_rep [OF this, of cs] obtain b where
    b: "rfold (\<lambda>(m, a). TAddCommand L m a) cs tcmd_new = Inr b" "tcmd_rep L b cs"
    by (auto simp: tcmd_new_def)
  from tcmd.process_slices [OF b(2) assms, of "\<lambda>_. invoke" undefined st] obtain b' where
    b': "rfold (\<lambda>m (b, st). rbind (ProcessCommandsUntyped L invoke m b st) (\<lambda>(_, b', st'). Inr (b', st'))) ms (b, st) =
      Inr (b', fold (\<lambda>(m, a). invoke m a) (take (sum_list ms) cs) st)" "tcmd_rep L b' (drop (sum_list ms) cs)"
    by auto
  from TClear_rep [OF b'(2)] have "TClear L b' = Inr tcmd_new"
    by (auto simp: TClear_def tcmd_new_def rbind_eq_Inr_iff)
  with b(1) b' tcmd.num_rep [OF b'(2)] show ?thesis by auto
qed

theorem typed_commands_round_trip_witness:
  "\<exists>b b'. rfold (\<lambda>(m, a). TAddCommand \<lparr>tl_pointer = 8, tl_args = (\<lambda>m. m)\<rparr> m a) [(1, ''x''), (4, ''y''), (2, ''z'')] tcmd_new = Inr b \<and>
    rfold (\<lambda>m (b, st). rbind (ProcessCommandsUntyped \<lparr>tl_pointer = 8, tl_args = (\<lambda>m. m)\<rparr> (\<lambda>m a l. l @ [(m, a)]) m b st)
        (\<lambda>(_, b', st'). Inr (b', st'))) [1, 1] (b, []) = Inr (b', [(1 :: nat, ''x''), (4, ''y'')]) \<and>
    TNumCommands b' = 1 \<and> TClear \<lparr>tl_pointer = 8, tl_args = (\<lambda>m. m)\<rparr> b' = Inr tcmd_new"
  using typed_commands_round_trip [of "[1, 1]" "\<lparr>tl_pointer = 8, tl_args = (\<lambda>m. m)\<rparr>"
      "[(1 :: nat, ''x''), (4, ''y''), (2, ''z'')]" "\<lambda>m a l. l @ [(m, a)]" "[]"]
  by simp

end
