(* ===== verification/CommandServer.thy ===== *)
theory CommandServer
  imports GodotCommands TypedCommands
begin

text \<open>
  \<open>src/Commands/CommandServer.h\<close> and \<open>CommandServer.cpp\<close>: the queues of command buffers for the main thread and for
  the render thread, and the loop that runs them.

  Object ids are naturals, 0 the invalid one. \<open>alive st i\<close> tells whether the engine's object database
  finds object \<open>i\<close> in the world \<open>st\<close>; times are integers in milliseconds, read from the list of
  clock values \<open>now\<close>. What other threads, or the commands themselves, add while a flush runs
  is the list \<open>arrivals\<close>: its \<open>k\<close>-th element is what has come in before the \<open>k\<close>-th round.
\<close>

section \<open>State\<close>

record 'b Entry =
  e_object_id :: nat
  e_added_time :: int
  e_buffer :: 'b

text \<open>\<open>current_buffer\<close> is \<open>None\<close> as long as it holds no buffer.\<close>

record 'b State =
  s_command_buffers :: "'b Entry list"
  s_num_commands :: nat
  s_lifetime_commands :: nat
  s_flushing_in_progress :: bool
  s_buffer_in_progress :: bool
  s_current_buffer :: "'b Entry option"

definition new_State :: "'b State" where
  "new_State = \<lparr>s_command_buffers = [], s_num_commands = 0, s_lifetime_commands = 0,
     s_flushing_in_progress = False, s_buffer_in_progress = False, s_current_buffer = None\<rparr>"

record 'b CommandServer =
  m_state :: "'b State"
  m_rendering_state :: "'b State"

definition k_max_commands_per_iter :: nat where "k_max_commands_per_iter = 64"

definition k_max_time_per_flush :: int where "k_max_time_per_flush = 100"

definition k_max_time_per_render_flush :: int where "k_max_time_per_render_flush = 10"

section \<open>Adding\<close>

text \<open>The part of \<open>AddCommandBuffer\<close> under the lock.\<close>

definition AddEntry :: "('b, nat, 'o) CommandBufferEntryBase \<Rightarrow> 'b Entry \<Rightarrow> 'b State \<Rightarrow> 'b State" where
  "AddEntry V e s =
     s\<lparr>s_command_buffers := s_command_buffers s @ [e],
       s_num_commands := s_num_commands s + v_NumCommands V (e_buffer e),
       s_lifetime_commands := s_lifetime_commands s + v_NumCommands V (e_buffer e)\<rparr>"

definition AddCommandBuffer ::
    "('b, nat, 'o) CommandBufferEntryBase \<Rightarrow> nat \<Rightarrow> int \<Rightarrow> nat \<Rightarrow> 'b \<Rightarrow> 'b CommandServer \<Rightarrow> 'b CommandServer res" where
  "AddCommandBuffer V rendering_id time object_id buffer srv =
     (if object_id = 0 then Inl Assertion
      else if v_NumCommands V buffer = 0 then Inr srv
      else
        let e = \<lparr>e_object_id = object_id, e_added_time = time, e_buffer = buffer\<rparr>
        in if rendering_id = object_id
           then Inr (srv\<lparr>m_rendering_state := AddEntry V e (m_rendering_state srv)\<rparr>)
           else Inr (srv\<lparr>m_state := AddEntry V e (m_state srv)\<rparr>))"

definition HasCommandsLeft :: "'b CommandServer \<Rightarrow> bool" where
  "HasCommandsLeft srv \<longleftrightarrow>
     (if length (s_command_buffers (m_rendering_state srv)) > 0 then True
      else if length (s_command_buffers (m_state srv)) > 0 then True
      else False)"

text \<open>The destructor asserts that nothing is left.\<close>

definition destroy_server :: "'b CommandServer \<Rightarrow> unit res" where
  "destroy_server srv = assert_that (\<not> HasCommandsLeft srv)"

section \<open>Flushing\<close>

text \<open>The next buffer, when none is in progress; \<open>None\<close> is the \<open>break\<close> on an empty queue.\<close>

definition next_buffer :: "'b State \<Rightarrow> 'b State option" where
  "next_buffer s =
     (if \<not> s_buffer_in_progress s
      then case s_command_buffers s of
             [] \<Rightarrow> None
           | e # es \<Rightarrow> Some (s\<lparr>s_current_buffer := Some e, s_command_buffers := es, s_buffer_in_progress := True\<rparr>)
      else Some s)"

text \<open>
  The rest of one round of the loop: the commands processed and the new state, or \<open>None\<close> for the
  \<open>break\<close> when the time is over.
\<close>

definition flush_buffer ::
    "('b, nat, 'o) CommandBufferEntryBase \<Rightarrow> ('o \<Rightarrow> nat \<Rightarrow> bool) \<Rightarrow> nat option \<Rightarrow> int \<Rightarrow> int \<Rightarrow> 'b State \<Rightarrow> 'o \<Rightarrow>
     (nat \<times> 'b State \<times> 'o) option res" where
  "flush_buffer V alive object_override end_time current_time s st =
     (case s_current_buffer s of
        None \<Rightarrow> Inl Null_Pointer
      | Some e \<Rightarrow>
          let force_commands = current_time - e_added_time e > 5000
          in if \<not> force_commands \<and> current_time \<ge> end_time then Inr None
             else
               let iter_commands = (if force_commands then k_process_all_commands else k_max_commands_per_iter)
               in rbind
                 (case object_override of
                    Some obj \<Rightarrow>
                      if v_NumCommands V (e_buffer e) > 0
                      then rbind (v_ProcessCommands V obj iter_commands (e_buffer e) st) (\<lambda>(n, b, st').
                             Inr (n, s\<lparr>s_current_buffer := Some (e\<lparr>e_buffer := b\<rparr>)\<rparr>, b, st'))
                      else Inl Assertion
                  | None \<Rightarrow>
                      if e_object_id e = 0 then Inl Assertion
                      else if alive st (e_object_id e)
                      then if v_NumCommands V (e_buffer e) > 0
                           then rbind (v_ProcessCommands V (e_object_id e) iter_commands (e_buffer e) st) (\<lambda>(n, b, st').
                                  Inr (n, s\<lparr>s_current_buffer := Some (e\<lparr>e_buffer := b\<rparr>)\<rparr>, b, st'))
                           else Inl Assertion
                      else rbind (v_Clear V (e_buffer e)) (\<lambda>b.
                             let b' = v_ShrinkToFit V b
                             in Inr (0, s\<lparr>s_current_buffer := Some (e\<lparr>e_buffer := b'\<rparr>), s_buffer_in_progress := False\<rparr>, b', st)))
                 (\<lambda>(n, s', b, st').
                   Inr (Some (n, if v_NumCommands V b = 0 then s'\<lparr>s_buffer_in_progress := False\<rparr> else s', st'))))"

text \<open>The loop; \<open>None\<close> when the fuel is not enough.\<close>

fun flush_loop ::
    "('b, nat, 'o) CommandBufferEntryBase \<Rightarrow> ('o \<Rightarrow> nat \<Rightarrow> bool) \<Rightarrow> nat option \<Rightarrow> int \<Rightarrow> nat \<Rightarrow>
     (nat \<Rightarrow> int) \<Rightarrow> (nat \<Rightarrow> 'b Entry list) \<Rightarrow> nat \<Rightarrow> nat \<Rightarrow> 'b State \<Rightarrow> 'o \<Rightarrow> (nat \<times> nat \<times> 'b State \<times> 'o) option res" where
  "flush_loop V alive ovr end_time 0 now arrivals k processed s st = Inr None"
| "flush_loop V alive ovr end_time (Suc fuel) now arrivals k processed s st =
     (let s0 = fold (AddEntry V) (arrivals k) s
      in case next_buffer s0 of
           None \<Rightarrow> Inr (Some (Suc k, processed, s0, st))
         | Some s1 \<Rightarrow>
             rbind (flush_buffer V alive ovr end_time (now k) s1 st) (\<lambda>r.
               case r of
                 None \<Rightarrow> Inr (Some (Suc k, processed, s1, st))
               | Some (n, s2, st') \<Rightarrow>
                   flush_loop V alive ovr end_time fuel now arrivals (Suc k) (processed + n) s2 st'))"

text \<open>The result carries the number of rounds begun, so that what arrived is known.\<close>

definition FlushState ::
    "('b, nat, 'o) CommandBufferEntryBase \<Rightarrow> ('o \<Rightarrow> nat \<Rightarrow> bool) \<Rightarrow> nat option \<Rightarrow> int \<Rightarrow> int \<Rightarrow> nat \<Rightarrow>
     (nat \<Rightarrow> int) \<Rightarrow> (nat \<Rightarrow> 'b Entry list) \<Rightarrow> 'b State \<Rightarrow> 'o \<Rightarrow> (nat \<times> 'b State \<times> 'o) option res" where
  "FlushState V alive object_override max_flush_time start fuel now arrivals s st =
     (if s_flushing_in_progress s then Inr (Some (0, s, st))
      else rbind (flush_loop V alive object_override (start + max_flush_time) fuel now arrivals 0 0
                   (s\<lparr>s_flushing_in_progress := True\<rparr>) st) (\<lambda>r.
        case r of
          None \<Rightarrow> Inr None
        | Some (k, processed, s', st') \<Rightarrow>
            if s_num_commands s' \<ge> processed
            then Inr (Some (k, s'\<lparr>s_flushing_in_progress := False, s_num_commands := s_num_commands s' - processed\<rparr>, st'))
            else Inl Assertion))"

text \<open>\<open>Flush\<close> itself, and the flush it makes the render thread run.\<close>

definition Flush ::
    "('b, nat, 'o) CommandBufferEntryBase \<Rightarrow> ('o \<Rightarrow> nat \<Rightarrow> bool) \<Rightarrow> int \<Rightarrow> nat \<Rightarrow> (nat \<Rightarrow> int) \<Rightarrow> (nat \<Rightarrow> 'b Entry list) \<Rightarrow>
     'b CommandServer \<Rightarrow> 'o \<Rightarrow> ('b CommandServer \<times> 'o) option res" where
  "Flush V alive start fuel now arrivals srv st =
     rbind (FlushState V alive None k_max_time_per_flush start fuel now arrivals (m_state srv) st)
       (\<lambda>r. Inr (map_option (\<lambda>(_, s, st'). (srv\<lparr>m_state := s\<rparr>, st')) r))"

definition RenderingFlush ::
    "('b, nat, 'o) CommandBufferEntryBase \<Rightarrow> ('o \<Rightarrow> nat \<Rightarrow> bool) \<Rightarrow> nat \<Rightarrow> int \<Rightarrow> nat \<Rightarrow> (nat \<Rightarrow> int) \<Rightarrow> (nat \<Rightarrow> 'b Entry list) \<Rightarrow>
     'b CommandServer \<Rightarrow> 'o \<Rightarrow> ('b CommandServer \<times> 'o) option res" where
  "RenderingFlush V alive rendering_id start fuel now arrivals srv st =
     rbind (FlushState V alive (Some rendering_id) k_max_time_per_render_flush start fuel now arrivals
             (m_rendering_state srv) st)
       (\<lambda>r. Inr (map_option (\<lambda>(_, s, st'). (srv\<lparr>m_rendering_state := s\<rparr>, st')) r))"

end
