(* ===== verification/CommandFlow.thy ===== *)
theory CommandFlow
  imports CommandServer
begin

text \<open>
  What the command server does with the commands: it is a queue of batches of commands that is run
  from the front. The abstract queue lists, for each buffer, the object and the commands that are
  left; a flush performs a sequence of batches on it.
\<close>

section \<open>The abstract server\<close>

type_synonym 'c queue = "(nat \<times> 'c list) list"

text \<open>What one round does: it runs commands on an object, or drops those of an object that is gone.\<close>

datatype 'c batch = Ran nat "'c list" | Dropped nat "'c list"

fun batch_commands :: "'c batch \<Rightarrow> (nat \<times> 'c) list" where
  "batch_commands (Ran i cs) = map (Pair i) cs"
| "batch_commands (Dropped i cs) = map (Pair i) cs"

text \<open>The world after a sequence of batches, if each of them is justified.\<close>

fun perform ::
    "('o \<Rightarrow> nat \<Rightarrow> bool) \<Rightarrow> (nat \<Rightarrow> 'c \<Rightarrow> 'o \<Rightarrow> 'o) \<Rightarrow> nat option \<Rightarrow> 'c batch list \<Rightarrow> 'o \<Rightarrow> 'o option" where
  "perform alive run ovr [] st = Some st"
| "perform alive run ovr (Ran i cs # bs) st =
     (case ovr of
        Some obj \<Rightarrow> perform alive run ovr bs (fold (run obj) cs st)
      | None \<Rightarrow> if alive st i then perform alive run ovr bs (fold (run i) cs st) else None)"
| "perform alive run ovr (Dropped i cs # bs) st =
     (if ovr = None \<and> \<not> alive st i then perform alive run ovr bs st else None)"

fun ran :: "'c batch \<Rightarrow> nat" where
  "ran (Ran i cs) = length cs"
| "ran (Dropped i cs) = 0"

definition flat :: "'c queue \<Rightarrow> (nat \<times> 'c) list" where
  "flat q = concat (map (\<lambda>(i, cs). map (Pair i) cs) q)"

lemma flat_simps [simp]:
  "flat [] = []" "flat ((i, cs) # q) = map (Pair i) cs @ flat q" "flat (p @ q) = flat p @ flat q"
  by (simp_all add: flat_def)

lemma flat_nothing [simp]: "flat (concat (map (\<lambda>_. []) xs)) = []"
  by (induction xs) auto

lemma perform_append:
  "perform alive run ovr (bs @ cs) st =
     (case perform alive run ovr bs st of None \<Rightarrow> None | Some st' \<Rightarrow> perform alive run ovr cs st')"
  by (induction alive run ovr bs st rule: perform.induct) (auto split: option.splits)

section \<open>The simulation\<close>

definition holds :: "('b \<Rightarrow> 'c list \<Rightarrow> bool) \<Rightarrow> 'b Entry \<Rightarrow> nat \<times> 'c list \<Rightarrow> bool" where
  "holds rep e q \<longleftrightarrow> e_object_id e = fst q \<and> fst q \<noteq> 0 \<and> snd q \<noteq> [] \<and> rep (e_buffer e) (snd q)"

text \<open>
  The state holds the queue \<open>q\<close>: the buffer in progress first, then the queued ones; the count
  covers all of their commands and \<open>n\<close> that were processed since it was last reduced.
\<close>

definition current :: "'b State \<Rightarrow> 'b Entry list" where
  "current s = (if s_buffer_in_progress s then (case s_current_buffer s of None \<Rightarrow> [] | Some e \<Rightarrow> [e]) else [])"

lemma current_update [simp]:
  "current (s\<lparr>s_flushing_in_progress := b\<rparr>) = current s" "current (s\<lparr>s_num_commands := n\<rparr>) = current s"
  by (simp_all add: current_def)

definition state_rep :: "('b \<Rightarrow> 'c list \<Rightarrow> bool) \<Rightarrow> nat \<Rightarrow> 'b State \<Rightarrow> 'c queue \<Rightarrow> bool" where
  "state_rep rep n s q \<longleftrightarrow>
     list_all2 (holds rep) (current s @ s_command_buffers s) q \<and>
     (s_buffer_in_progress s \<longrightarrow> s_current_buffer s \<noteq> None) \<and>
     length (flat q) + n \<le> s_num_commands s"

locale command_server = command_buffer rep "v_NumCommands V" "v_ProcessCommands V" "v_Clear V" "v_ShrinkToFit V" run
  for rep :: "'b \<Rightarrow> 'c list \<Rightarrow> bool"
    and V :: "('b, nat, 'o) CommandBufferEntryBase"
    and run :: "nat \<Rightarrow> 'c \<Rightarrow> 'o \<Rightarrow> 'o"
begin

lemma AddEntry_rep:
  assumes "state_rep rep n s q" "holds rep e c"
  shows "state_rep rep n (AddEntry V e s) (q @ [c])"
proof -
  have "v_NumCommands V (e_buffer e) = length (snd c)" using assms(2) num_rep by (simp add: holds_def)
  moreover have "list_all2 (holds rep) ((current s @ s_command_buffers s) @ [e]) (q @ [c])"
    using assms by (intro list_all2_appendI) (simp_all add: state_rep_def)
  moreover have "current (AddEntry V e s) = current s" by (simp add: current_def AddEntry_def)
  ultimately show ?thesis
    using assms(1) by (cases c) (auto simp: state_rep_def AddEntry_def)
qed

lemma AddEntries_rep:
  assumes "state_rep rep n s q" "list_all2 (holds rep) es a"
  shows "state_rep rep n (fold (AddEntry V) es s) (q @ a)"
  using assms(2,1)
proof (induction es a arbitrary: s q rule: list_all2_induct)
  case Nil
  then show ?case by simp
next
  case (Cons e es c a)
  from Cons(3) [OF AddEntry_rep [OF Cons(4,1)]] show ?case by simp
qed

lemma next_buffer_rep:
  assumes "state_rep rep n s q"
  shows "next_buffer s = None \<longleftrightarrow> q = []"
    and "next_buffer s = Some s1 \<Longrightarrow> state_rep rep n s1 q \<and> s_buffer_in_progress s1"
proof -
  show "next_buffer s = None \<longleftrightarrow> q = []"
    using assms by (auto simp: next_buffer_def state_rep_def current_def split: list.splits option.splits)
  show "state_rep rep n s1 q \<and> s_buffer_in_progress s1" if "next_buffer s = Some s1"
    using assms that
    by (auto simp: next_buffer_def state_rep_def current_def split: list.splits option.splits if_splits)
qed

text \<open>One round: it stops, runs a non-empty batch from the front, or drops the first buffer.\<close>

lemma flush_buffer_rep:
  assumes s: "state_rep rep n s q" "s_buffer_in_progress s"
  obtains (stop) "flush_buffer V alive ovr stop now s st = Inr None" "stop \<le> now"
  | (ran) i cs q' k b s' where "q = (i, cs) # q'" "0 < k" "k \<le> length cs" "b = Ran i (take k cs)"
      "ovr = None \<longrightarrow> alive st i"
      "flush_buffer V alive ovr stop now s st = Inr (Some (k, s', fold (run (case ovr of Some j \<Rightarrow> j | None \<Rightarrow> i)) (take k cs) st))"
      "state_rep rep (n + k) s' (if k = length cs then q' else (i, drop k cs) # q')"
  | (dropped) i cs q' s' where "q = (i, cs) # q'" "cs \<noteq> []" "ovr = None" "\<not> alive st i"
      "flush_buffer V alive ovr stop now s st = Inr (Some (0, s', st))" "state_rep rep n s' q'"
proof -
  from s obtain e where e: "s_current_buffer s = Some e" "current s = [e]"
    by (auto simp: state_rep_def current_def)
  with s(1) obtain i cs q' where q: "q = (i, cs) # q'" "holds rep e (i, cs)" "list_all2 (holds rep) (s_command_buffers s) q'"
    by (auto simp: state_rep_def list_all2_Cons1)
  then have h: "e_object_id e = i" "i \<noteq> 0" "cs \<noteq> []" "rep (e_buffer e) cs" by (simp_all add: holds_def)
  have num: "v_NumCommands V (e_buffer e) = length cs" using num_rep [OF h(4)] .
  let ?force = "now - e_added_time e > 5000"
  let ?most = "if ?force then k_process_all_commands else k_max_commands_per_iter"
  let ?obj = "case ovr of Some j \<Rightarrow> j | None \<Rightarrow> i"
  have le: "length (flat q') + length cs + n \<le> s_num_commands s" using s(1) q(1) by (simp add: state_rep_def)
  show thesis
  proof (cases "\<not> ?force \<and> now \<ge> stop")
    case True
    then show ?thesis using stop e by (simp add: flush_buffer_def)
  next
    case time: False
    show ?thesis
    proof (cases "ovr = None \<and> \<not> alive st i")
      case True
      obtain b where b: "v_Clear V (e_buffer e) = Inr b" "rep b []" using clear_rep [OF h(4)] by blast
      let ?s' = "s\<lparr>s_current_buffer := Some (e\<lparr>e_buffer := v_ShrinkToFit V b\<rparr>), s_buffer_in_progress := False\<rparr>"
      have "v_NumCommands V (v_ShrinkToFit V b) = 0" using num_rep [OF shrink_rep [OF b(2)]] by simp
      then have "flush_buffer V alive ovr stop now s st = Inr (Some (0, ?s', st))"
        using time True e h b(1) by (simp add: flush_buffer_def Let_def)
      moreover have "state_rep rep n ?s' q'" using q(3) le by (simp add: state_rep_def current_def)
      ultimately show ?thesis using dropped q(1) h(3) True by blast
    next
      case False
      define k where "k = served ?most (length cs)"
      from process_rep [OF h(4), of ?obj ?most st] obtain b where
        b: "v_ProcessCommands V ?obj ?most (e_buffer e) st = Inr (k, b, fold (run ?obj) (take k cs) st)"
        "rep b (drop k cs)" unfolding k_def by blast
      have k: "0 < k" "k \<le> length cs" unfolding k_def using h(3) served_pos [of "length cs" ?most] by auto
      have "v_NumCommands V b = length cs - k" using num_rep [OF b(2)] by simp
      then have nb: "v_NumCommands V b = 0 \<longleftrightarrow> k = length cs" using k(2) by linarith
      let ?s1 = "s\<lparr>s_current_buffer := Some (e\<lparr>e_buffer := b\<rparr>)\<rparr>"
      let ?s' = "if k = length cs then ?s1\<lparr>s_buffer_in_progress := False\<rparr> else ?s1"
      have "flush_buffer V alive ovr stop now s st = Inr (Some (k, ?s', fold (run ?obj) (take k cs) st))"
      proof (cases ovr)
        case None
        then show ?thesis using time False e h b(1) num nb by (simp add: flush_buffer_def Let_def)
      next
        case (Some j)
        then show ?thesis using time e h b(1) num nb by (simp add: flush_buffer_def Let_def)
      qed
      moreover have "state_rep rep (n + k) ?s' (if k = length cs then q' else (i, drop k cs) # q')"
        using q(3) le k s(2) b(2) h by (auto simp: state_rep_def current_def holds_def)
      moreover have "ovr = None \<longrightarrow> alive st i" using False by auto
      ultimately show ?thesis using ran [OF q(1) k refl] by blast
    qed
  qed
qed

text \<open>
  The loop. \<open>arr k\<close> is the abstract queue of what arrives before round \<open>k\<close>. With more fuel than
  there are rounds with arrivals and commands to run, the loop ends; it has performed batches on
  the queue and what arrived in the rounds it began, first come first served, and if it ended before
  the time was over the queue is empty.
\<close>

lemma flush_loop_rep:
  assumes "state_rep rep n s q" "\<forall>j. list_all2 (holds rep) (arrivals j) (arr j)" "\<forall>j \<ge> N. arrivals j = []"
    and "N - k + length (flat q) + length (flat (concat (map arr [k..<N]))) < fuel"
  shows "\<exists>k' n' s' st' bs q'.
    flush_loop V alive ovr stop fuel now arrivals k n s st = Inr (Some (k', n', s', st')) \<and> k < k' \<and>
    perform alive run ovr bs st = Some st' \<and> n' = n + sum_list (map ran bs) \<and> state_rep rep n' s' q' \<and>
    concat (map batch_commands bs) @ flat q' = flat q @ flat (concat (map arr [k..<k'])) \<and>
    ((\<forall>j. now j < stop) \<longrightarrow> q' = [])"
  using assms(1,4)
proof (induction fuel arbitrary: k n s q st)
  case 0
  then show ?case by simp
next
  case (Suc fuel)
  let ?s0 = "fold (AddEntry V) (arrivals k) s" and ?q0 = "q @ arr k"
  have r0: "state_rep rep n ?s0 ?q0" by (rule AddEntries_rep [OF Suc.prems(1) assms(2) [rule_format]])
  have arr0: "arr j = []" if "j \<ge> N" for j
    using assms(2) [rule_format, of j] assms(3) that by simp
  have "length (flat (arr k)) + length (flat (concat (map arr [Suc k..<N]))) = length (flat (concat (map arr [k..<N])))"
    if "k < N" using that by (simp add: upt_conv_Cons)
  then have fuel: "N - Suc k + length (flat ?q0) + length (flat (concat (map arr [Suc k..<N]))) < Suc fuel"
    using Suc.prems(2) arr0 [of k] by (cases "k < N") auto
  have upto: "flat (concat (map arr [k..<k'])) = flat (arr k) @ flat (concat (map arr [Suc k..<k']))" if "k < k'" for k'
    using that by (simp add: upt_conv_Cons)
  show ?case
  proof (cases "next_buffer ?s0")
    case None
    then have "?q0 = []" using next_buffer_rep(1) [OF r0] by simp
    with None r0 show ?thesis
      by (intro exI [of _ "Suc k"] exI [of _ n] exI [of _ ?s0] exI [of _ st] exI [of _ "[]"]) simp
  next
    case (Some s1)
    then have s1: "state_rep rep n s1 ?q0" "s_buffer_in_progress s1" using next_buffer_rep(2) [OF r0] by simp_all
    show ?thesis
    proof (cases rule: flush_buffer_rep [OF s1, of alive ovr stop "now k" st, case_names stop ran dropped])
      case stop
      moreover have "\<not> (\<forall>j. now j < stop)" using stop(2) by (metis not_le)
      ultimately show ?thesis using Some s1(1)
        by - (rule exI [of _ "Suc k"], rule exI [of _ n], rule exI [of _ s1], rule exI [of _ st],
            rule exI [of _ "[]"], rule exI [of _ ?q0], auto)
    next
      case (ran i cs q' m b s')
      let ?q1 = "if m = length cs then q' else (i, drop m cs) # q'"
      let ?st1 = "fold (run (case ovr of Some j \<Rightarrow> j | None \<Rightarrow> i)) (take m cs) st"
      have take_drop: "map (Pair i) (take m cs) @ map (Pair i) (drop m cs) = map (Pair i) cs"
        by (simp flip: map_append)
      have f: "flat ?q0 = map (Pair i) (take m cs) @ flat ?q1"
        using ran(1,3) take_drop by (auto simp flip: append_assoc)
      have "length (flat ?q1) < length (flat ?q0)" unfolding f using ran(2,3) by auto
      with fuel have "N - Suc k + length (flat ?q1) + length (flat (concat (map arr [Suc k..<N]))) < fuel" by linarith
      from Suc.IH [OF ran(7) this, of ?st1] obtain k' n' s'' st' bs q'' where IH:
        "flush_loop V alive ovr stop fuel now arrivals (Suc k) (n + m) s' ?st1 = Inr (Some (k', n', s'', st'))"
        "Suc k < k'" "perform alive run ovr bs ?st1 = Some st'" "n' = n + m + sum_list (map ran bs)" "state_rep rep n' s'' q''"
        "concat (map batch_commands bs) @ flat q'' = flat ?q1 @ flat (concat (map arr [Suc k..<k']))"
        "(\<forall>j. now j < stop) \<longrightarrow> q'' = []" by blast
      have perf: "perform alive run ovr (Ran i (take m cs) # bs) st = Some st'"
        using IH(3) ran(5) by (auto split: option.splits)
      have "concat (map batch_commands (Ran i (take m cs) # bs)) @ flat q''
          = flat ?q0 @ flat (concat (map arr [Suc k..<k']))"
        by (simp only: list.map concat.simps batch_commands.simps append_assoc IH(6) f)
      also have "\<dots> = flat q @ flat (concat (map arr [k..<k']))" using upto [of k'] IH(2) by simp
      finally have conc: "concat (map batch_commands (Ran i (take m cs) # bs)) @ flat q''
          = flat q @ flat (concat (map arr [k..<k']))" .
      have "flush_loop V alive ovr stop (Suc fuel) now arrivals k n s st = Inr (Some (k', n', s'', st'))"
        using Some ran(6) IH(1) by simp
      with IH perf conc ran(3) show ?thesis
        by (intro exI [of _ k'] exI [of _ n'] exI [of _ s''] exI [of _ st'] exI [of _ "Ran i (take m cs) # bs"] exI [of _ q''])
          simp
    next
      case (dropped i cs q' s')
      have f: "flat ?q0 = map (Pair i) cs @ flat q'" using dropped(1) by simp
      have "length (flat q') < length (flat ?q0)" unfolding f using dropped(2) by simp
      with fuel have "N - Suc k + length (flat q') + length (flat (concat (map arr [Suc k..<N]))) < fuel" by linarith
      from Suc.IH [OF dropped(6) this, of st] obtain k' n' s'' st' bs q'' where IH:
        "flush_loop V alive ovr stop fuel now arrivals (Suc k) n s' st = Inr (Some (k', n', s'', st'))"
        "Suc k < k'" "perform alive run ovr bs st = Some st'" "n' = n + sum_list (map ran bs)" "state_rep rep n' s'' q''"
        "concat (map batch_commands bs) @ flat q'' = flat q' @ flat (concat (map arr [Suc k..<k']))"
        "(\<forall>j. now j < stop) \<longrightarrow> q'' = []" by blast
      have "concat (map batch_commands (Dropped i cs # bs)) @ flat q''
          = flat ?q0 @ flat (concat (map arr [Suc k..<k']))"
        by (simp only: list.map concat.simps batch_commands.simps append_assoc IH(6) f)
      also have "\<dots> = flat q @ flat (concat (map arr [k..<k']))" using upto [of k'] IH(2) by simp
      finally have conc: "concat (map batch_commands (Dropped i cs # bs)) @ flat q''
          = flat q @ flat (concat (map arr [k..<k']))" .
      have "flush_loop V alive ovr stop (Suc fuel) now arrivals k n s st = Inr (Some (k', n', s'', st'))"
        using Some dropped(5) IH(1) by simp
      with IH conc dropped(3,4) show ?thesis
        by (intro exI [of _ k'] exI [of _ n'] exI [of _ s''] exI [of _ st'] exI [of _ "Dropped i cs # bs"] exI [of _ q'']) simp
    qed
  qed
qed

end

section \<open>The server on its two kinds of buffer\<close>

definition server_methods ::
    "layout \<Rightarrow> 'm tlayout \<Rightarrow> (nat \<Rightarrow> string \<Rightarrow> 'p Variant list \<Rightarrow> 'o \<Rightarrow> 'o) \<Rightarrow> (nat \<Rightarrow> 'm \<Rightarrow> 'a \<Rightarrow> 'o \<Rightarrow> 'o) \<Rightarrow>
     (('p GodotCommandBuffer, ('m, 'a) TCommandBuffer) CommandBufferEntry, nat, 'o) CommandBufferEntryBase" where
  "server_methods L T callp invoke = TCommandBufferEntry (GodotEntryMethods L callp) (TypedEntryMethods T invoke)"

definition server_rep ::
    "layout \<Rightarrow> 'm tlayout \<Rightarrow> ('p GodotCommandBuffer, ('m, 'a) TCommandBuffer) CommandBufferEntry \<Rightarrow>
     ((string \<times> 'p Variant list) + ('m \<times> 'a)) list \<Rightarrow> bool" where
  "server_rep L T = entry_rep (gcmd_rep L) (tcmd_rep T)"

definition server_run ::
    "(nat \<Rightarrow> string \<Rightarrow> 'p Variant list \<Rightarrow> 'o \<Rightarrow> 'o) \<Rightarrow> (nat \<Rightarrow> 'm \<Rightarrow> 'a \<Rightarrow> 'o \<Rightarrow> 'o) \<Rightarrow>
     nat \<Rightarrow> (string \<times> 'p Variant list) + ('m \<times> 'a) \<Rightarrow> 'o \<Rightarrow> 'o" where
  "server_run callp invoke = entry_run (\<lambda>obj c. callp obj (fst c) (snd c)) (\<lambda>obj (m, a). invoke obj m a)"

interpretation entries: command_server "server_rep L T" "server_methods L T callp invoke" "server_run callp invoke"
  for L T callp invoke
  unfolding command_server_def server_rep_def server_methods_def server_run_def
  using entry_contract [OF GodotEntryMethods_contract TypedEntryMethods_contract, unfolded keeps_contract_def] .

lemma flush_runs_in_order:
  assumes "state_rep (server_rep L T) 0 s q" "\<not> s_flushing_in_progress s"
    and "\<forall>j. list_all2 (holds (server_rep L T)) (arrivals j) (arr j)" "\<forall>j \<ge> N. arrivals j = []"
    and "N + length (flat q) + length (flat (concat (map arr [0..<N]))) < fuel"
  shows "\<exists>k s' st' bs q'.
    FlushState (server_methods L T callp invoke) alive ovr max_time start fuel now arrivals s st = Inr (Some (k, s', st')) \<and>
    perform alive (server_run callp invoke) ovr bs st = Some st' \<and>
    concat (map batch_commands bs) @ flat q' = flat q @ flat (concat (map arr [0..<k])) \<and>
    state_rep (server_rep L T) 0 s' q' \<and> \<not> s_flushing_in_progress s'"
proof -
  let ?s = "s\<lparr>s_flushing_in_progress := True\<rparr>"
  have s: "state_rep (server_rep L T) 0 ?s q" using assms(1) by (simp add: state_rep_def)
  have fuel: "N - 0 + length (flat q) + length (flat (concat (map arr [0..<N]))) < fuel" using assms(5) by simp
  from entries.flush_loop_rep [OF s assms(3,4) fuel, of callp invoke alive ovr "start + max_time" now st]
  obtain k n s' st' bs q' where l:
    "flush_loop (server_methods L T callp invoke) alive ovr (start + max_time) fuel now arrivals 0 0 ?s st
      = Inr (Some (k, n, s', st'))"
    "perform alive (server_run callp invoke) ovr bs st = Some st'" "state_rep (server_rep L T) n s' q'"
    "concat (map batch_commands bs) @ flat q' = flat q @ flat (concat (map arr [0..<k]))" by blast
  let ?s' = "s'\<lparr>s_flushing_in_progress := False, s_num_commands := s_num_commands s' - n\<rparr>"
  have "FlushState (server_methods L T callp invoke) alive ovr max_time start fuel now arrivals s st = Inr (Some (k, ?s', st'))"
    using l(1,3) assms(2) by (simp add: FlushState_def state_rep_def)
  moreover have "state_rep (server_rep L T) 0 ?s' q'" using l(3) by (auto simp: state_rep_def)
  ultimately show ?thesis using l(2,4) by (intro exI conjI) auto
qed


text \<open>A server with one buffer of each kind, for concrete runs.\<close>

definition log_call :: "nat \<Rightarrow> string \<Rightarrow> nat Variant list \<Rightarrow> (nat \<times> string) list \<Rightarrow> (nat \<times> string) list" where
  "log_call obj name args st = st @ [(obj, name)]"

definition log_invoke :: "nat \<Rightarrow> string \<Rightarrow> nat \<Rightarrow> (nat \<times> string) list \<Rightarrow> (nat \<times> string) list" where
  "log_invoke obj m a st = st @ [(obj, m)]"

definition example_layout :: "string tlayout" where
  "example_layout = \<lparr>tl_pointer = 2, tl_args = (\<lambda>_. 1)\<rparr>"

definition example_godot :: "nat GodotCommandBuffer" where
  "example_godot =
     \<lparr>m_data = WriteType 3 (Header ''a'' 0) @ WriteType 3 (Header ''b'' 0), m_start = 0, m_num_commands = 2\<rparr>"

definition example_typed :: "(string, nat) TCommandBuffer" where
  "example_typed =
     \<lparr>t_data = tcmd_bytes example_layout [(''c'', 1)], t_start = 0, t_num_commands = 1\<rparr>"

definition example_state ::
    "(nat GodotCommandBuffer, (string, nat) TCommandBuffer) CommandBufferEntry State" where
  "example_state = new_State\<lparr>
     s_command_buffers :=
       [\<lparr>e_object_id = 5, e_added_time = 0, e_buffer = GodotEntry example_godot\<rparr>,
        \<lparr>e_object_id = 6, e_added_time = 0, e_buffer = TypedEntry example_typed\<rparr>],
     s_num_commands := 3\<rparr>"

lemma example_state_rep:
  "state_rep (server_rep small_layout example_layout) 0 example_state
     [(5, [Inl (''a'', []), Inl (''b'', [])]), (6, [Inr (''c'', 1)])]"
proof -
  let ?bs = "[WriteType 3 (Header ''a'' 0), WriteType 3 (Header ''b'' 0)] :: nat bytes list"
  have "list_all2 (command_bytes small_layout) ?bs [(''a'', []), (''b'', [])]"
    by (auto simp: command_bytes_def small_layout_def size_command_def)
  then have "gcmd_rep small_layout example_godot [(''a'', []), (''b'', [])]"
    by (auto simp: gcmd_rep_def example_godot_def intro!: exI [of _ ?bs])
  moreover have "tcmd_rep example_layout example_typed [(''c'', 1)]"
    by (simp add: tcmd_rep_def example_typed_def)
  ultimately show ?thesis
    by (auto simp: state_rep_def current_def example_state_def new_State_def holds_def server_rep_def entry_rep_def
        intro!: exI [of _ "[(''a'', []), (''b'', [])]"] exI [of _ "[(''c'', 1)]"])
qed




section \<open>Behaviours beside the contract\<close>

text \<open>
  \<open>HasCommandsLeft\<close> does not look at the buffer in progress: after a flush that took a buffer and had
  no time left for it, commands remain and it reports none, so the destructor's assertion passes.
\<close>

lemma in_progress_not_counted:
  "case FlushState (server_methods small_layout example_layout log_call log_invoke) (\<lambda>_ _. True) None 100 0 4 (\<lambda>_. 100) (\<lambda>_. [])
      (example_state\<lparr>s_command_buffers := take 1 (s_command_buffers example_state)\<rparr>) [] of
    Inr (Some (_, s', st')) \<Rightarrow>
      st' = [] \<and> s_num_commands s' = 3 \<and> \<not> HasCommandsLeft \<lparr>m_state = s', m_rendering_state = new_State\<rparr> \<and>
      destroy_server \<lparr>m_state = s', m_rendering_state = new_State\<rparr> = Inr ()
  | _ \<Rightarrow> False"
  by code_simp

text \<open>Commands dropped because their object is gone are never taken off \<open>num_commands\<close>.\<close>

lemma dropped_stay_counted:
  "case FlushState (server_methods small_layout example_layout log_call log_invoke) (\<lambda>_ _. False) None 100 0 4 (\<lambda>_. 0) (\<lambda>_. [])
      example_state [] of
    Inr (Some (_, s', st')) \<Rightarrow> st' = [] \<and> s_command_buffers s' = [] \<and> s_num_commands s' = 3
  | _ \<Rightarrow> False"
  by code_simp

text \<open>
  A buffer that has skipped over a command with too many arguments keeps a count that processing
  does not reduce. Once it is five seconds old the time is no longer looked at, and the loop never
  ends.
\<close>

definition stalled_buffer :: "nat GodotCommandBuffer" where
  "stalled_buffer = \<lparr>m_data = WriteType 3 (Header ''a'' 17), m_start = 3, m_num_commands = 1\<rparr>"

lemma crowded_buffer_stalls:
  "rbind crowded_buffer (\<lambda>b. rbind (ProcessCommands small_layout (\<lambda>n as l. n # l) 0 b []) (\<lambda>(n, b1, l).
     Inr (m_start b1 = length (m_data b1), m_num_commands b1))) = Inr (True, 1)"
  by code_simp

lemma stalled_flush_never_ends:
  assumes "s_buffer_in_progress s" "s_current_buffer s = Some e" "e_object_id e \<noteq> 0"
    and "e_buffer e = GodotEntry b" "m_start b = length (m_data b)" "0 < m_num_commands b"
    and "\<forall>j. now j - e_added_time e > 5000" "alive st (e_object_id e)"
  shows "flush_loop (server_methods L T callp invoke) alive None stop fuel now (\<lambda>_. []) k n s st = Inr None"
proof (induction fuel arbitrary: k)
  case 0
  show ?case by simp
next
  case (Suc fuel)
  have "process_loop L (callp (e_object_id e)) 0 0 (m_start b) (length (m_data b)) (m_data b) st = Inr (0, m_start b, m_data b, st)"
    using assms(5) by (simp add: process_loop.simps)
  then have "ProcessCommands L (callp (e_object_id e)) 0 b st = Inr (0, b, st)"
    using assms(6) by (simp add: ProcessCommands_def)
  moreover have "s\<lparr>s_current_buffer := Some e\<rparr> = s" "e\<lparr>e_buffer := GodotEntry b\<rparr> = e" using assms(2,4) by auto
  ultimately have "flush_buffer (server_methods L T callp invoke) alive None stop (now k) s st = Inr (Some (0, s, st))"
    using assms
    by (simp add: flush_buffer_def server_methods_def TCommandBufferEntry_def GodotEntryMethods_def NumCommands_def
        k_process_all_commands_def)
  then show ?case using assms(1) Suc by (simp add: next_buffer_def)
qed

end
