(* ===== verification/CommandWriter.thy ===== *)
theory CommandWriter
  imports CommandFlow
begin

text \<open>
  \<open>src/Commands/CommandWriter.h\<close> and \<open>CommandWriter.cpp\<close>: the object through which scripts write commands for the
  command server. The engine's conversions of a variant to an object id and to a name are the
  parameters \<open>to_id\<close> and \<open>to_name\<close>; \<open>caller\<close> is the thread that calls.
\<close>

section \<open>The writer\<close>

datatype CallError =
    CALL_OK
  | CALL_ERROR_INVALID_METHOD
  | CALL_ERROR_INVALID_ARGUMENT nat
  | CALL_ERROR_TOO_MANY_ARGUMENTS nat nat
  | CALL_ERROR_TOO_FEW_ARGUMENTS nat nat

record 'p CommandWriter =
  m_owner_id :: nat
  m_object_id :: nat
  m_command_buffer :: "'p GodotCommandBuffer"

definition new_CommandWriter :: "'p CommandWriter" where
  "new_CommandWriter = \<lparr>m_owner_id = 0, m_object_id = 0, m_command_buffer = gcmd_new\<rparr>"

definition MakeWriter :: "('p Variant \<Rightarrow> nat) \<Rightarrow> nat \<Rightarrow> 'p Variant \<Rightarrow> 'p CommandWriter option" where
  "MakeWriter to_id caller object =
     (if get_type object \<noteq> GT_OBJECT then None
      else Some (new_CommandWriter\<lparr>m_owner_id := caller, m_object_id := to_id object\<rparr>))"

definition GetOwningThread :: "'p CommandWriter \<Rightarrow> nat" where "GetOwningThread w = m_owner_id w"

definition GetObject :: "'p CommandWriter \<Rightarrow> nat" where "GetObject w = m_object_id w"

text \<open>The error is what the caller passes in, unless a check sets it; \<open>None\<close> is a null argument array.\<close>

definition add_command_vararg ::
    "layout \<Rightarrow> ('p Variant \<Rightarrow> string) \<Rightarrow> nat \<Rightarrow> 'p Variant list option \<Rightarrow> int \<Rightarrow> CallError \<Rightarrow> 'p CommandWriter \<Rightarrow>
     (CallError \<times> 'p CommandWriter) res" where
  "add_command_vararg L to_name caller args argcount error w =
     (if m_owner_id w \<noteq> caller then Inr (CALL_ERROR_INVALID_METHOD, w)
      else if argcount \<le> 0 then Inr (CALL_ERROR_TOO_FEW_ARGUMENTS 0 1, w)
      else if argcount > 15 then Inr (CALL_ERROR_TOO_MANY_ARGUMENTS 16 15, w)
      else case args of
        None \<Rightarrow> Inr (CALL_ERROR_INVALID_ARGUMENT 0, w)
      | Some args \<Rightarrow>
          if length args < nat argcount then Inl Out_Of_Bounds
          else rbind (AddCommandVararg L (to_name (hd args)) (take (nat (argcount - 1)) (tl args)) (m_command_buffer w))
            (\<lambda>b. Inr (error, w\<lparr>m_command_buffer := b\<rparr>)))"

text \<open>The entry takes the buffer over; the writer keeps an empty one.\<close>

definition WriterFlush ::
    "(('p GodotCommandBuffer, 't) CommandBufferEntry, nat, 'o) CommandBufferEntryBase \<Rightarrow> nat \<Rightarrow> int \<Rightarrow> nat \<Rightarrow>
     'p CommandWriter \<Rightarrow> ('p GodotCommandBuffer, 't) CommandBufferEntry CommandServer \<Rightarrow>
     ('p CommandWriter \<times> ('p GodotCommandBuffer, 't) CommandBufferEntry CommandServer) res" where
  "WriterFlush V rendering_id time caller w srv =
     (if m_object_id w = 0 then Inl Assertion
      else if m_owner_id w \<noteq> caller then Inr (w, srv)
      else rbind (AddCommandBuffer V rendering_id time (m_object_id w) (GodotEntry (m_command_buffer w)) srv)
        (\<lambda>srv'. Inr (w\<lparr>m_command_buffer := gcmd_new\<rparr>, srv')))"

definition destroy_writer ::
    "(('p GodotCommandBuffer, 't) CommandBufferEntry, nat, 'o) CommandBufferEntryBase \<Rightarrow> nat \<Rightarrow> int \<Rightarrow>
     'p CommandWriter \<Rightarrow> ('p GodotCommandBuffer, 't) CommandBufferEntry CommandServer \<Rightarrow>
     ('p GodotCommandBuffer, 't) CommandBufferEntry CommandServer res" where
  "destroy_writer V rendering_id time w srv =
     AddCommandBuffer V rendering_id time (m_object_id w) (GodotEntry (m_command_buffer w)) srv"

text \<open>The getters under the names scripts call them by.\<close>

definition bound_getters :: "(string \<times> ('p CommandWriter \<Rightarrow> nat)) list" where
  "bound_getters = [(''get_owner_thread'', GetObject), (''get_object'', GetObject)]"

section \<open>Properties\<close>

text \<open>What a script adds in one call: a command name and at most 14 arguments.\<close>

definition script_call_ok :: "('p Variant \<Rightarrow> string) \<Rightarrow> 'p Variant list \<Rightarrow> bool" where
  "script_call_ok to_name as \<longleftrightarrow>
     as \<noteq> [] \<and> length as \<le> 15 \<and> to_name (hd as) \<noteq> [] \<and> (\<forall>v \<in> set (tl as). variant_ok v)"

definition script_call :: "layout \<Rightarrow> ('p Variant \<Rightarrow> string) \<Rightarrow> nat \<Rightarrow> 'p Variant list \<Rightarrow> 'p CommandWriter \<Rightarrow> 'p CommandWriter res" where
  "script_call L to_name caller as w =
     rbind (add_command_vararg L to_name caller (Some as) (int (length as)) CALL_OK w) (\<lambda>(_, w'). Inr w')"

lemma script_call_open:
  assumes "gcmd_open L (m_command_buffer w) cs" "script_call_ok to_name as" "m_owner_id w = caller"
  shows "\<exists>w'. script_call L to_name caller as w = Inr w' \<and>
    gcmd_open L (m_command_buffer w') (cs @ [(to_name (hd as), tl as)]) \<and>
    m_owner_id w' = caller \<and> m_object_id w' = m_object_id w"
proof -
  have "command_ok (to_name (hd as), tl as)" using assms(2) by (auto simp: command_ok_def script_call_ok_def)
  from AddCommandVararg_open [OF assms(1) this] obtain b where
    "AddCommandVararg L (to_name (hd as)) (tl as) (m_command_buffer w) = Inr b"
    "gcmd_open L b (cs @ [(to_name (hd as), tl as)])" by blast
  moreover have "as \<noteq> []" "length as \<le> 15" "nat (int (length as) - 1) = length (tl as)"
    using assms(2) by (auto simp: script_call_ok_def nat_diff_distrib)
  ultimately show ?thesis using assms(3) by (simp add: script_call_def add_command_vararg_def)
qed

lemma script_calls_open:
  assumes "gcmd_open L (m_command_buffer w) cs" "\<forall>as \<in> set ass. script_call_ok to_name as" "m_owner_id w = caller"
  shows "\<exists>w'. rfold (script_call L to_name caller) ass w = Inr w' \<and>
    gcmd_open L (m_command_buffer w') (cs @ map (\<lambda>as. (to_name (hd as), tl as)) ass) \<and>
    m_owner_id w' = caller \<and> m_object_id w' = m_object_id w"
  using assms
proof (induction ass arbitrary: w cs)
  case Nil
  then show ?case by simp
next
  case (Cons as ass)
  from script_call_open [OF Cons.prems(1) _ Cons.prems(3), of to_name as] Cons.prems(2) obtain w1 where
    "script_call L to_name caller as w = Inr w1"
    "gcmd_open L (m_command_buffer w1) (cs @ [(to_name (hd as), tl as)])"
    "m_owner_id w1 = caller" "m_object_id w1 = m_object_id w" by auto
  with Cons.IH [OF this(2) _ this(3)] Cons.prems(2) show ?case by auto
qed

text \<open>
  C17: commands that scripts write through a writer reach the server. If the thread that made the
  writer for an object adds any calls with a name and up to 14 arguments and flushes, the server's
  queue for that object's thread gains exactly these commands, in order, for that object, at its
  end; the writer is empty again; and a writer used by another thread changes nothing.
\<close>

theorem writer_delivers:
  assumes "get_type object = GT_OBJECT" "to_id object \<noteq> 0" "to_id object \<noteq> rendering_id"
    and "ass \<noteq> []" "\<forall>as \<in> set ass. script_call_ok to_name as"
    and "state_rep (server_rep L T) 0 (m_state srv) q" "other \<noteq> caller"
  shows "\<exists>w w1 w2 srv'. MakeWriter to_id caller object = Some w \<and>
    rfold (script_call L to_name caller) ass w = Inr w1 \<and>
    WriterFlush (server_methods L T callp invoke) rendering_id time caller w1 srv = Inr (w2, srv') \<and>
    state_rep (server_rep L T) 0 (m_state srv')
      (q @ [(to_id object, map (\<lambda>as. Inl (to_name (hd as), tl as)) ass)]) \<and>
    m_rendering_state srv' = m_rendering_state srv \<and> w2 = w \<and>
    WriterFlush (server_methods L T callp invoke) rendering_id time other w1 srv = Inr (w1, srv) \<and>
    (\<forall>args n. add_command_vararg L to_name other args n CALL_OK w1 = Inr (CALL_ERROR_INVALID_METHOD, w1))"
proof -
  let ?w = "new_CommandWriter\<lparr>m_owner_id := caller, m_object_id := to_id object\<rparr>"
  let ?cs = "map (\<lambda>as. (to_name (hd as), tl as)) ass"
  have w: "MakeWriter to_id caller object = Some ?w" using assms(1) by (simp add: MakeWriter_def)
  have "gcmd_open L (m_command_buffer ?w) []" using gcmd_new_open [of L] by (simp add: new_CommandWriter_def)
  from script_calls_open [OF this assms(5), of caller] obtain w1 where
    w1: "rfold (script_call L to_name caller) ass ?w = Inr w1" "gcmd_open L (m_command_buffer w1) ?cs"
    "m_owner_id w1 = caller" "m_object_id w1 = to_id object" by (auto simp: new_CommandWriter_def)
  have rep: "gcmd_rep L (m_command_buffer w1) ?cs" using w1(2) by (simp add: gcmd_open_def)
  let ?e = "\<lparr>e_object_id = to_id object, e_added_time = time, e_buffer = GodotEntry (m_command_buffer w1)\<rparr>"
  have e: "holds (server_rep L T) ?e (to_id object, map Inl ?cs)"
    using rep assms(2,4) by (auto simp: holds_def server_rep_def entry_rep_def intro!: exI [of _ ?cs])
  have num: "v_NumCommands (server_methods L T callp invoke) (GodotEntry (m_command_buffer w1)) = length ass"
    using rep by (simp add: server_methods_def TCommandBufferEntry_def GodotEntryMethods_def NumCommands_def gcmd_rep_def)
  let ?s = "AddEntry (server_methods L T callp invoke) ?e (m_state srv)"
  have "state_rep (server_rep L T) 0 ?s (q @ [(to_id object, map Inl ?cs)])"
    by (rule entries.AddEntry_rep [OF assms(6) e])
  moreover have "WriterFlush (server_methods L T callp invoke) rendering_id time caller w1 srv = Inr (?w, srv\<lparr>m_state := ?s\<rparr>)"
    using w1(3,4) assms(2,3,4) num by (auto simp: WriterFlush_def AddCommandBuffer_def Let_def new_CommandWriter_def)
  moreover have "WriterFlush (server_methods L T callp invoke) rendering_id time other w1 srv = Inr (w1, srv)"
    using w1(3,4) assms(2,7) by (simp add: WriterFlush_def)
  moreover have "add_command_vararg L to_name other args n CALL_OK w1 = Inr (CALL_ERROR_INVALID_METHOD, w1)" for args n
    using w1(3) assms(7) by (simp add: add_command_vararg_def)
  ultimately show ?thesis
    using w w1(1) by (intro exI [of _ ?w] exI [of _ w1] exI [of _ ?w] exI [of _ "srv\<lparr>m_state := ?s\<rparr>"]) (simp add: comp_def)
qed

definition name_of :: "nat Variant \<Rightarrow> string" where
  "name_of v = (case v of VData t n \<Rightarrow> replicate n CHR ''x'' | _ \<Rightarrow> [])"

theorem writer_delivers_witness:
  "\<exists>w w1 w2 srv'. MakeWriter (\<lambda>v. case v of VData t n \<Rightarrow> n | _ \<Rightarrow> 0) 1 (VData GT_OBJECT (7 :: nat)) = Some w \<and>
    rfold (script_call small_layout name_of 1) [[VData GT_STRING 2, VInt 3]] w = Inr w1 \<and>
    WriterFlush (server_methods small_layout example_layout log_call log_invoke) 9 0 1 w1
      \<lparr>m_state = example_state, m_rendering_state = new_State\<rparr> = Inr (w2, srv') \<and>
    state_rep (server_rep small_layout example_layout) 0 (m_state srv')
      [(5, [Inl (''a'', []), Inl (''b'', [])]), (6, [Inr (''c'', 1 :: nat)]), (7, [Inl (''xx'', [VInt 3])])] \<and>
    m_rendering_state srv' = new_State \<and> w2 = w \<and>
    WriterFlush (server_methods small_layout example_layout log_call log_invoke) 9 0 2 w1
      \<lparr>m_state = example_state, m_rendering_state = new_State\<rparr> = Inr (w1, \<lparr>m_state = example_state, m_rendering_state = new_State\<rparr>) \<and>
    (\<forall>args n. add_command_vararg small_layout name_of 2 args n CALL_OK w1 = Inr (CALL_ERROR_INVALID_METHOD, w1))"
  using writer_delivers [of "VData GT_OBJECT (7 :: nat)" "\<lambda>v. case v of VData t n \<Rightarrow> n | _ \<Rightarrow> 0" 9
      "[[VData GT_STRING 2, VInt 3]]" name_of small_layout example_layout
      "\<lparr>m_state = example_state, m_rendering_state = new_State\<rparr>"
      "[(5, [Inl (''a'', []), Inl (''b'', [])]), (6, [Inr (''c'', 1)])]" 2 1 log_call log_invoke 0]
    example_state_rep
  by (simp add: get_type_def script_call_ok_def name_of_def variant_ok_def numeral_2_eq_2)

text \<open>\<open>get_owner_thread\<close> is bound to the getter of the object.\<close>

lemma owner_thread_getter:
  "\<exists>f. map_of bound_getters ''get_owner_thread'' = Some f \<and>
    f (new_CommandWriter\<lparr>m_owner_id := 1, m_object_id := 7\<rparr>) \<noteq> GetOwningThread (new_CommandWriter\<lparr>m_owner_id := 1, m_object_id := 7\<rparr>)"
  by (simp add: bound_getters_def GetObject_def GetOwningThread_def)

text \<open>A writer that was not made for an object cannot be destroyed.\<close>

lemma unbound_writer_destroyed: "destroy_writer V rendering_id time new_CommandWriter srv = Inl Assertion"
  by (simp add: destroy_writer_def AddCommandBuffer_def new_CommandWriter_def)

end
