(* ===== verification/PolyType.thy ===== *)
theory PolyType
  imports CommandStorage
begin

text \<open>
  \<open>src/Util/Poly.h\<close>: structs whose components are chosen at run time. A \<open>PolyType\<close> lays the components of
  its type id out in one block of memory; a poly is such a block, with a header that points to its
  type.

  The components' types are numbered; \<open>k_type_info\<close> gives for each its size and what its default
  constructor yields, \<open>None\<close> for an entry that was left zero. \<open>'v\<close> stands for the values of all
  component types. Type ids are bit sets, written as naturals. Offsets are 16 bits wide, as in the
  code.
\<close>

unbundle bit_operations_syntax

section \<open>Memory\<close>

type_synonym ptr = nat

text \<open>What a component's bytes hold; a moved-from object is still there but has no value.\<close>

datatype 'v poly_item = HeaderItem ptr | Comp nat 'v | MovedFrom nat

record 'v poly_heap =
  ph_blocks :: "ptr \<Rightarrow> 'v poly_item storage option"
  ph_next :: ptr

definition poly_malloc :: "nat \<Rightarrow> 'v poly_heap \<Rightarrow> ptr \<times> 'v poly_heap" where
  "poly_malloc n h =
     (ph_next h, h\<lparr>ph_blocks := (ph_blocks h)(ph_next h := Some (replicate n Tail)), ph_next := Suc (ph_next h)\<rparr>)"

definition poly_free :: "ptr \<Rightarrow> 'v poly_heap \<Rightarrow> 'v poly_heap res" where
  "poly_free p h =
     (case ph_blocks h p of None \<Rightarrow> Inl Double_Free | Some _ \<Rightarrow> Inr (h\<lparr>ph_blocks := (ph_blocks h)(p := None)\<rparr>))"

definition load_item :: "ptr \<Rightarrow> nat \<Rightarrow> 'v poly_heap \<Rightarrow> 'v poly_item res" where
  "load_item p off h = (case ph_blocks h p of None \<Rightarrow> Inl Dangling | Some data \<Rightarrow> slot_at data off)"

text \<open>Placement new of an object of \<open>n\<close> bytes.\<close>

definition store_item :: "ptr \<Rightarrow> nat \<Rightarrow> nat \<Rightarrow> 'v poly_item \<Rightarrow> 'v poly_heap \<Rightarrow> 'v poly_heap res" where
  "store_item p off n x h =
     (case ph_blocks h p of
        None \<Rightarrow> Inl Dangling
      | Some data \<Rightarrow>
          if off + n > length data then Inl Out_Of_Bounds
          else Inr (h\<lparr>ph_blocks := (ph_blocks h)(p := Some (take off data @ WriteType n x @ drop (off + n) data))\<rparr>))"

definition mark_dead :: "ptr \<Rightarrow> nat \<Rightarrow> 'v poly_heap \<Rightarrow> 'v poly_heap res" where
  "mark_dead p off h =
     (case ph_blocks h p of
        None \<Rightarrow> Inl Dangling
      | Some data \<Rightarrow> Inr (h\<lparr>ph_blocks := (ph_blocks h)(p := Some (data[off := Dead]))\<rparr>))"

section \<open>Types\<close>

record 'v PolyTypeInfo =
  ti_construct :: "'v option"
  ti_size :: nat

definition MakeTypeInfo :: "'v \<Rightarrow> nat \<Rightarrow> 'v PolyTypeInfo" where
  "MakeTypeInfo v n = \<lparr>ti_construct = Some v, ti_size = n\<rparr>"

definition ComponentConstruct :: "'v PolyTypeInfo list \<Rightarrow> nat \<Rightarrow> ptr \<Rightarrow> nat \<Rightarrow> 'v poly_heap \<Rightarrow> 'v poly_heap res" where
  "ComponentConstruct k_type_info i p off h =
     (case ti_construct (k_type_info ! i) of
        None \<Rightarrow> Inl Null_Pointer
      | Some v \<Rightarrow> store_item p off (ti_size (k_type_info ! i)) (Comp i v) h)"

text \<open>Destruction also tells which value was destroyed.\<close>

definition ComponentDestruct :: "'v PolyTypeInfo list \<Rightarrow> nat \<Rightarrow> ptr \<Rightarrow> nat \<Rightarrow> 'v poly_heap \<Rightarrow> ('v poly_heap \<times> 'v) res" where
  "ComponentDestruct k_type_info i p off h =
     (case ti_construct (k_type_info ! i) of
        None \<Rightarrow> Inl Null_Pointer
      | Some _ \<Rightarrow>
          rbind (load_item p off h) (\<lambda>x.
            case x of
              Comp j v \<Rightarrow> if j = i then rbind (mark_dead p off h) (\<lambda>h'. Inr (h', v)) else Inl Uninitialized
            | _ \<Rightarrow> Inl Uninitialized))"

definition ComponentMove :: "'v PolyTypeInfo list \<Rightarrow> nat \<Rightarrow> ptr \<Rightarrow> nat \<Rightarrow> ptr \<Rightarrow> nat \<Rightarrow> 'v poly_heap \<Rightarrow> 'v poly_heap res" where
  "ComponentMove k_type_info i from from_off to to_off h =
     (case ti_construct (k_type_info ! i) of
        None \<Rightarrow> Inl Null_Pointer
      | Some _ \<Rightarrow>
          rbind (load_item from from_off h) (\<lambda>x.
            case x of
              Comp j v \<Rightarrow>
                if j = i
                then rbind (store_item to to_off (ti_size (k_type_info ! i)) (Comp i v) h)
                       (store_item from from_off (ti_size (k_type_info ! i)) (MovedFrom i))
                else Inl Uninitialized
            | _ \<Rightarrow> Inl Uninitialized))"

definition k_invalid_offset :: "16 word" where "k_invalid_offset = - 1"

record PolyType =
  pt_address :: ptr
  pt_id :: nat
  pt_type_offsets :: "16 word list"
  pt_total_size :: "16 word"
  pt_created :: "ptr list"

definition CreateTypeID :: "nat list \<Rightarrow> nat" where
  "CreateTypeID types = fold set_bit types 0"

definition IsIDEmpty :: "nat \<Rightarrow> bool" where
  "IsIDEmpty type_id \<longleftrightarrow> type_id = CreateTypeID [0]"

definition AddType :: "'v PolyTypeInfo list \<Rightarrow> nat \<Rightarrow> PolyType \<Rightarrow> PolyType res" where
  "AddType k_type_info index t =
     (if pt_created t \<noteq> [] then Inl Assertion
      else if \<not> index < length k_type_info then Inl Assertion
      else if pt_type_offsets t ! index \<noteq> k_invalid_offset then Inl Assertion
      else Inr (t\<lparr>pt_type_offsets := (pt_type_offsets t)[index := pt_total_size t],
                  pt_id := set_bit index (pt_id t),
                  pt_total_size := pt_total_size t + of_nat (ti_size (k_type_info ! index))\<rparr>))"

text \<open>The header is component 0.\<close>

definition new_PolyType :: "'v PolyTypeInfo list \<Rightarrow> ptr \<Rightarrow> PolyType res" where
  "new_PolyType k_type_info address =
     AddType k_type_info 0
       \<lparr>pt_address = address, pt_id = 0, pt_type_offsets = replicate (length k_type_info) k_invalid_offset,
        pt_total_size = 0, pt_created = []\<rparr>"

definition destroy_PolyType :: "PolyType \<Rightarrow> unit res" where
  "destroy_PolyType t = assert_that (pt_created t = [])"

definition HasTypes :: "nat \<Rightarrow> nat \<Rightarrow> bool" where
  "HasTypes partial_id type_id \<longleftrightarrow> type_id AND partial_id = partial_id"

definition OffsetOf :: "nat \<Rightarrow> PolyType \<Rightarrow> nat" where
  "OffsetOf i t = unat (pt_type_offsets t ! i)"

definition GetSize :: "PolyType \<Rightarrow> nat" where
  "GetSize t = unat (pt_total_size t)"

definition PolyGet :: "nat \<Rightarrow> ptr \<Rightarrow> PolyType \<Rightarrow> 'v poly_heap \<Rightarrow> 'v poly_item res" where
  "PolyGet i poly t h =
     (if OffsetOf i t = 0 then Inl Assertion
      else if poly \<notin> set (pt_created t) then Inl Assertion
      else load_item poly (OffsetOf i t) h)"

section \<open>Polys\<close>

definition AllocatePoly :: "'v PolyTypeInfo list \<Rightarrow> PolyType \<Rightarrow> 'v poly_heap \<Rightarrow> (ptr \<times> PolyType \<times> 'v poly_heap) res" where
  "AllocatePoly k_type_info t h =
     (if \<not> pt_total_size t > 0 then Inl Assertion
      else
        let (poly, h1) = poly_malloc (GetSize t) h
        in rbind (store_item poly 0 (ti_size (k_type_info ! 0)) (HeaderItem (pt_address t)) h1) (\<lambda>h2.
             Inr (poly, t\<lparr>pt_created := List.insert poly (pt_created t)\<rparr>, h2)))"

definition DeallocatePoly :: "ptr \<Rightarrow> PolyType \<Rightarrow> 'v poly_heap \<Rightarrow> (PolyType \<times> 'v poly_heap) res" where
  "DeallocatePoly poly t h =
     (if poly \<notin> set (pt_created t) then Inl Assertion
      else rbind (poly_free poly h) (\<lambda>h'. Inr (t\<lparr>pt_created := remove1 poly (pt_created t)\<rparr>, h')))"

definition ConstructPoly :: "'v PolyTypeInfo list \<Rightarrow> ptr \<Rightarrow> PolyType \<Rightarrow> 'v poly_heap \<Rightarrow> 'v poly_heap res" where
  "ConstructPoly k_type_info poly t h =
     (if poly \<notin> set (pt_created t) then Inl Assertion
      else rfold (\<lambda>i h.
             if pt_type_offsets t ! i \<noteq> k_invalid_offset
             then ComponentConstruct k_type_info i poly (OffsetOf i t) h else Inr h)
           [1..<length k_type_info] h)"

definition DestructPoly :: "'v PolyTypeInfo list \<Rightarrow> ptr \<Rightarrow> PolyType \<Rightarrow> 'v poly_heap \<Rightarrow> ('v poly_heap \<times> 'v list) res" where
  "DestructPoly k_type_info poly t h =
     (if poly \<notin> set (pt_created t) then Inl Assertion
      else rfold (\<lambda>i (h, vs).
             if pt_type_offsets t ! i \<noteq> k_invalid_offset
             then rbind (ComponentDestruct k_type_info i poly (OffsetOf i t) h) (\<lambda>(h', v). Inr (h', vs @ [v]))
             else Inr (h, vs))
           [1..<length k_type_info] (h, []))"

definition CreatePoly :: "'v PolyTypeInfo list \<Rightarrow> PolyType \<Rightarrow> 'v poly_heap \<Rightarrow> (ptr \<times> PolyType \<times> 'v poly_heap) res" where
  "CreatePoly k_type_info t h =
     rbind (AllocatePoly k_type_info t h) (\<lambda>(poly, t', h1).
     rbind (ConstructPoly k_type_info poly t' h1) (\<lambda>h2. Inr (poly, t', h2)))"

definition DestroyPoly :: "'v PolyTypeInfo list \<Rightarrow> ptr \<Rightarrow> PolyType \<Rightarrow> 'v poly_heap \<Rightarrow> (PolyType \<times> 'v poly_heap) res" where
  "DestroyPoly k_type_info poly t h =
     rbind (DestructPoly k_type_info poly t h) (\<lambda>(h1, _). DeallocatePoly poly t h1)"

section \<open>The type id as a set of bits\<close>

lemma bit_CreateTypeID: "bit (CreateTypeID ord) i \<longleftrightarrow> i \<in> set ord"
proof -
  have "bit (fold set_bit ord n) i \<longleftrightarrow> i \<in> set ord \<or> bit n i" for n :: nat
    by (induction ord arbitrary: n) (auto simp: bit_set_bit_iff)
  then show ?thesis by (simp add: CreateTypeID_def)
qed

end
