(* ===== verification/PolyLayout.thy ===== *)
theory PolyLayout
  imports PolyType
begin

text \<open>
  The layout of a \<open>PolyType\<close>: components in the order they were added, each in a byte range of its own,
  and what a poly's memory holds component by component. While the total size fits its 16 bits every
  operation on a poly acts on the cell of its component only.
\<close>

section \<open>Order and offsets\<close>

definition comp_size :: "'v PolyTypeInfo list \<Rightarrow> nat \<Rightarrow> nat" where
  "comp_size infos i = ti_size (infos ! i)"

definition total_size :: "'v PolyTypeInfo list \<Rightarrow> nat list \<Rightarrow> nat" where
  "total_size infos ord = sum_list (map (comp_size infos) ord)"

definition comp_offset :: "'v PolyTypeInfo list \<Rightarrow> nat list \<Rightarrow> nat \<Rightarrow> nat" where
  "comp_offset infos ord i = total_size infos (takeWhile (\<lambda>j. j \<noteq> i) ord)"

definition types_ok :: "'v PolyTypeInfo list \<Rightarrow> nat list \<Rightarrow> bool" where
  "types_ok infos ord \<longleftrightarrow>
     distinct ord \<and> ord \<noteq> [] \<and> hd ord = 0 \<and>
     (\<forall>i \<in> set ord. i < length infos \<and> 0 < comp_size infos i \<and> ti_construct (infos ! i) \<noteq> None) \<and>
     total_size infos ord < 65535"

text \<open>The type has the components of \<open>ord\<close>, added in that order.\<close>

definition laid_out :: "'v PolyTypeInfo list \<Rightarrow> nat list \<Rightarrow> PolyType \<Rightarrow> bool" where
  "laid_out infos ord t \<longleftrightarrow>
     pt_id t = CreateTypeID ord \<and> length (pt_type_offsets t) = length infos \<and>
     (\<forall>i < length infos. pt_type_offsets t ! i =
        (if i \<in> set ord then of_nat (comp_offset infos ord i) else k_invalid_offset)) \<and>
     pt_total_size t = of_nat (total_size infos ord)"

lemma total_size_simps [simp]:
  "total_size infos [] = 0" "total_size infos (i # is) = comp_size infos i + total_size infos is"
  "total_size infos (is @ js) = total_size infos is + total_size infos js"
  by (simp_all add: total_size_def)

lemma takeWhile_found [simp]: "i \<notin> set xs \<Longrightarrow> takeWhile (\<lambda>j. j \<noteq> i) (xs @ i # ys) = xs"
  by (induction xs) auto

lemma unat_16 [simp]: "n < 65536 \<Longrightarrow> unat (of_nat n :: 16 word) = n"
  by (simp add: unat_of_nat)

lemma CreateTypeID_append: "CreateTypeID (ord @ [i]) = set_bit i (CreateTypeID ord)"
  by (simp add: CreateTypeID_def)

lemma in_order:
  assumes "i \<in> set ord"
  obtains as bs where "ord = as @ i # bs" "comp_offset infos ord i = total_size infos as" "i \<notin> set as"
proof -
  obtain as bs where o: "ord = as @ i # bs" "i \<notin> set as" using split_list_first [OF assms] by blast
  then have "takeWhile (\<lambda>j. j \<noteq> i) ord = as" by simp
  with o that show thesis by (auto simp: comp_offset_def)
qed

lemma comp_offset_append:
  "i \<in> set ord \<Longrightarrow> comp_offset infos (ord @ [j]) i = comp_offset infos ord i"
  "j \<notin> set ord \<Longrightarrow> comp_offset infos (ord @ [j]) j = total_size infos ord"
  by (auto simp: comp_offset_def)

lemma comp_offset_end:
  assumes "i \<in> set ord"
  shows "comp_offset infos ord i + comp_size infos i \<le> total_size infos ord"
  by (rule in_order [OF assms, of infos]) simp

lemma comp_ranges_disjoint:
  assumes "i \<in> set ord" "j \<in> set ord" "i \<noteq> j"
  shows "comp_offset infos ord i + comp_size infos i \<le> comp_offset infos ord j \<or>
         comp_offset infos ord j + comp_size infos j \<le> comp_offset infos ord i"
proof -
  obtain as bs where o: "ord = as @ i # bs" "comp_offset infos ord i = total_size infos as" "i \<notin> set as"
    using in_order [OF assms(1)] by blast
  show ?thesis
  proof (cases "j \<in> set as")
    case True
    then obtain cs ds where "as = cs @ j # ds" "j \<notin> set cs" using split_list_first by metis
    then have "comp_offset infos ord j = total_size infos cs" using o(1) by (simp add: comp_offset_def)
    then show ?thesis using o(2) \<open>as = cs @ j # ds\<close> by simp
  next
    case False
    have "takeWhile (\<lambda>x. x \<noteq> j) ord = as @ i # takeWhile (\<lambda>x. x \<noteq> j) bs"
      unfolding o(1) using False assms(3) by (subst takeWhile_append2) auto
    then show ?thesis using o(2) by (simp add: comp_offset_def)
  qed
qed

section \<open>Adding types\<close>

lemma new_PolyType_ok:
  assumes "infos \<noteq> []"
  shows "\<exists>t. new_PolyType infos a = Inr t \<and> laid_out infos [0] t \<and> pt_created t = [] \<and> pt_address t = a"
  using assms
  by (auto simp: new_PolyType_def AddType_def laid_out_def CreateTypeID_def comp_offset_def comp_size_def
      nth_list_update)

lemma AddType_ok:
  assumes "laid_out infos ord t" "pt_created t = []" "i < length infos" "i \<notin> set ord"
  shows "\<exists>t'. AddType infos i t = Inr t' \<and> laid_out infos (ord @ [i]) t' \<and> pt_created t' = [] \<and>
    pt_address t' = pt_address t"
  using assms
  by (auto simp: AddType_def laid_out_def CreateTypeID_append nth_list_update comp_offset_append comp_size_def)

lemma AddTypes_ok:
  assumes "laid_out infos ord t" "pt_created t = []" "\<forall>i \<in> set is. i < length infos" "distinct (ord @ is)"
  shows "\<exists>t'. rfold (AddType infos) is t = Inr t' \<and> laid_out infos (ord @ is) t' \<and> pt_created t' = [] \<and>
    pt_address t' = pt_address t"
  using assms
proof (induction "is" arbitrary: ord t)
  case Nil
  then show ?case by simp
next
  case (Cons i "is")
  from AddType_ok [OF Cons.prems(1,2), of i] Cons.prems(3,4) obtain t1 where
    "AddType infos i t = Inr t1" "laid_out infos (ord @ [i]) t1" "pt_created t1 = []" "pt_address t1 = pt_address t"
    by auto
  with Cons.IH [OF this(2,3)] Cons.prems(3,4) show ?case by auto
qed

text \<open>The offsets, read as numbers: exact, and never the invalid one.\<close>

lemma laid_out_offset:
  assumes "types_ok infos ord" "laid_out infos ord t" "i \<in> set ord"
  shows "OffsetOf i t = comp_offset infos ord i" "pt_type_offsets t ! i \<noteq> k_invalid_offset"
proof -
  have i: "i < length infos" using assms(1,3) by (auto simp: types_ok_def)
  have b: "comp_offset infos ord i < 65535"
    using comp_offset_end [OF assms(3), of infos] assms(1) by (simp add: types_ok_def)
  have o: "pt_type_offsets t ! i = of_nat (comp_offset infos ord i)" using assms(2,3) i by (simp add: laid_out_def)
  show u: "OffsetOf i t = comp_offset infos ord i"
    using b by (simp add: OffsetOf_def o)
  show "pt_type_offsets t ! i \<noteq> k_invalid_offset"
  proof
    assume "pt_type_offsets t ! i = k_invalid_offset"
    then have "OffsetOf i t = 65535" by (simp add: OffsetOf_def k_invalid_offset_def unsigned_minus_1_eq_mask mask_eq_exp_minus_1)
    with u b show False by simp
  qed
qed

lemma laid_out_absent:
  "laid_out infos ord t \<Longrightarrow> i < length infos \<Longrightarrow> i \<notin> set ord \<Longrightarrow> pt_type_offsets t ! i = k_invalid_offset"
  by (simp add: laid_out_def)

lemma laid_out_size:
  assumes "types_ok infos ord" "laid_out infos ord t"
  shows "GetSize t = total_size infos ord"
  using assms by (simp add: GetSize_def laid_out_def types_ok_def)

section \<open>Blocks\<close>

text \<open>A component's cell: never written, holding an object, or destroyed.\<close>

datatype 'v cell = Raw | Live "'v poly_item" | Gone

fun cell_bytes :: "nat \<Rightarrow> 'v cell \<Rightarrow> 'v poly_item storage" where
  "cell_bytes n Raw = replicate n Tail"
| "cell_bytes n (Live x) = WriteType n x"
| "cell_bytes n Gone = destroyed n"

definition block :: "'v PolyTypeInfo list \<Rightarrow> nat list \<Rightarrow> (nat \<Rightarrow> 'v cell) \<Rightarrow> 'v poly_item storage" where
  "block infos ord c = concat (map (\<lambda>i. cell_bytes (comp_size infos i) (c i)) ord)"

lemma length_cell_bytes [simp]: "0 < n \<Longrightarrow> length (cell_bytes n c) = n"
  by (cases c) simp_all

lemma length_block: "(\<And>i. i \<in> set ord \<Longrightarrow> 0 < comp_size infos i) \<Longrightarrow> length (block infos ord c) = total_size infos ord"
  by (induction ord) (simp_all add: block_def)

lemma block_raw: "block infos ord (\<lambda>_. Raw) = replicate (total_size infos ord) Tail"
  by (induction ord) (simp_all add: block_def replicate_add)

lemma block_cong: "(\<And>i. i \<in> set ord \<Longrightarrow> c i = d i) \<Longrightarrow> block infos ord c = block infos ord d"
  unfolding block_def by (metis (no_types, lifting) map_cong)

lemma block_split:
  assumes "types_ok infos ord" "i \<in> set ord"
  obtains pre post where
    "\<And>x. block infos ord (c(i := x)) = pre @ cell_bytes (comp_size infos i) x @ post"
    "block infos ord c = pre @ cell_bytes (comp_size infos i) (c i) @ post"
    "length pre = comp_offset infos ord i" "0 < comp_size infos i"
proof -
  obtain as bs where o: "ord = as @ i # bs" "comp_offset infos ord i = total_size infos as" "i \<notin> set as"
    using in_order [OF assms(2)] by blast
  have d: "i \<notin> set bs" and pos: "\<And>j. j \<in> set ord \<Longrightarrow> 0 < comp_size infos j"
    using assms(1) o(1) by (auto simp: types_ok_def)
  have "block infos ord (c(i := x)) = block infos as c @ cell_bytes (comp_size infos i) x @ block infos bs c" for x
  proof -
    have "block infos as (c(i := x)) = block infos as c" "block infos bs (c(i := x)) = block infos bs c"
      by (rule block_cong; use o(3) d in auto)+
    then show ?thesis unfolding o(1) by (simp add: block_def)
  qed
  moreover have "block infos ord c = block infos as c @ cell_bytes (comp_size infos i) (c i) @ block infos bs c"
    by (simp add: o(1) block_def)
  moreover have "length (block infos as c) = comp_offset infos ord i"
    using length_block [of as infos c] pos o(2) by (simp add: o(1))
  ultimately show thesis using that pos [OF assms(2)] by blast
qed

text \<open>The heap holds a poly at \<open>p\<close> with the given cells.\<close>

definition holds_block :: "'v PolyTypeInfo list \<Rightarrow> nat list \<Rightarrow> 'v poly_heap \<Rightarrow> ptr \<Rightarrow> (nat \<Rightarrow> 'v cell) \<Rightarrow> bool" where
  "holds_block infos ord h p c \<longleftrightarrow> ph_blocks h p = Some (block infos ord c)"

definition set_cells :: "'v PolyTypeInfo list \<Rightarrow> nat list \<Rightarrow> ptr \<Rightarrow> (nat \<Rightarrow> 'v cell) \<Rightarrow> 'v poly_heap \<Rightarrow> 'v poly_heap" where
  "set_cells infos ord p c h = h\<lparr>ph_blocks := (ph_blocks h)(p := Some (block infos ord c))\<rparr>"

lemma set_cells_simps [simp]:
  "holds_block infos ord (set_cells infos ord p c h) p c"
  "ph_blocks (set_cells infos ord p c h) q = (if q = p then Some (block infos ord c) else ph_blocks h q)"
  "ph_next (set_cells infos ord p c h) = ph_next h"
  "set_cells infos ord p d (set_cells infos ord p c h) = set_cells infos ord p d h"
  by (auto simp: holds_block_def set_cells_def)

lemma load_cell:
  assumes "types_ok infos ord" "i \<in> set ord" "holds_block infos ord h p c"
  shows "c i = Live x \<Longrightarrow> load_item p (comp_offset infos ord i) h = Inr x"
proof -
  assume x: "c i = Live x"
  obtain pre post where b: "block infos ord c = pre @ cell_bytes (comp_size infos i) (c i) @ post"
    "length pre = comp_offset infos ord i"
    using block_split [OF assms(1,2)] by blast
  then show ?thesis
    using assms(3) slot_at_written [of pre "comp_size infos i" x post] x by (simp add: load_item_def holds_block_def)
qed

lemma store_cell:
  assumes "types_ok infos ord" "i \<in> set ord" "holds_block infos ord h p c"
  shows "store_item p (comp_offset infos ord i) (comp_size infos i) x h = Inr (set_cells infos ord p (c(i := Live x)) h)"
proof -
  obtain pre post where b: "\<And>x. block infos ord (c(i := x)) = pre @ cell_bytes (comp_size infos i) x @ post"
    "block infos ord c = pre @ cell_bytes (comp_size infos i) (c i) @ post"
    "length pre = comp_offset infos ord i" "0 < comp_size infos i"
    using block_split [OF assms(1,2)] by blast
  have "take (comp_offset infos ord i) (block infos ord c) = pre"
    "drop (comp_offset infos ord i + comp_size infos i) (block infos ord c) = post"
    using b(2,3,4) by simp_all
  then show ?thesis
    using assms(3) b by (simp add: store_item_def holds_block_def set_cells_def)
qed

lemma kill_cell:
  assumes "types_ok infos ord" "i \<in> set ord" "holds_block infos ord h p c" "c i = Live x"
  shows "mark_dead p (comp_offset infos ord i) h = Inr (set_cells infos ord p (c(i := Gone)) h)"
proof -
  obtain pre post where b: "\<And>x. block infos ord (c(i := x)) = pre @ cell_bytes (comp_size infos i) x @ post"
    "block infos ord c = pre @ cell_bytes (comp_size infos i) (c i) @ post"
    "length pre = comp_offset infos ord i" "0 < comp_size infos i"
    using block_split [OF assms(1,2)] by blast
  have "(block infos ord c)[length pre := Dead] = pre @ destroyed (comp_size infos i) @ post"
    using destroy_written [of pre "comp_size infos i" x post] b(2) assms(4) by simp
  then show ?thesis using assms(3) b(1) [of Gone] b(3)
    by (simp add: mark_dead_def holds_block_def set_cells_def)
qed

section \<open>Operations on a poly\<close>

text \<open>The components of a poly of the type, other than its header, from the lowest index up.\<close>

definition parts :: "'v PolyTypeInfo list \<Rightarrow> nat list \<Rightarrow> nat list" where
  "parts infos ord = filter (\<lambda>i. i \<in> set ord) [1..<length infos]"

lemma set_parts: "types_ok infos ord \<Longrightarrow> set (parts infos ord) = set ord - {0}"
  by (auto simp: parts_def types_ok_def)

lemma types_okD:
  assumes "types_ok infos ord"
  shows "distinct ord" "0 \<in> set ord" "i \<in> set ord \<Longrightarrow> i < length infos" "i \<in> set ord \<Longrightarrow> 0 < comp_size infos i"
    "i \<in> set ord \<Longrightarrow> ti_construct (infos ! i) \<noteq> None" "0 < total_size infos ord" "total_size infos ord < 65535"
proof -
  show z: "0 \<in> set ord" using assms by (cases ord) (auto simp: types_ok_def)
  show "0 < total_size infos ord" using comp_offset_end [OF z, of infos] assms z by (force simp: types_ok_def)
qed (use assms in \<open>auto simp: types_ok_def\<close>)

definition default_of :: "'v PolyTypeInfo list \<Rightarrow> nat \<Rightarrow> 'v" where
  "default_of infos i = (case ti_construct (infos ! i) of Some v \<Rightarrow> v | None \<Rightarrow> undefined)"

lemma ComponentConstruct_cell:
  assumes "types_ok infos ord" "i \<in> set ord" "holds_block infos ord h p c"
  shows "ComponentConstruct infos i p (comp_offset infos ord i) h =
    Inr (set_cells infos ord p (c(i := Live (Comp i (default_of infos i)))) h)"
  using types_okD(5) [OF assms(1,2)] store_cell [OF assms]
  by (auto simp: ComponentConstruct_def default_of_def comp_size_def)

lemma ComponentDestruct_cell:
  assumes "types_ok infos ord" "i \<in> set ord" "holds_block infos ord h p c" "c i = Live (Comp i v)"
  shows "ComponentDestruct infos i p (comp_offset infos ord i) h = Inr (set_cells infos ord p (c(i := Gone)) h, v)"
  using types_okD(5) [OF assms(1,2)] load_cell [OF assms] kill_cell [OF assms]
  by (auto simp: ComponentDestruct_def)

lemma ComponentMove_cell:
  assumes "types_ok infos ord" "i \<in> set ord" "holds_block infos ord h p c" "c i = Live (Comp i v)"
    and "types_ok infos ord'" "i \<in> set ord'" "holds_block infos ord' h q d" "p \<noteq> q"
  shows "ComponentMove infos i p (comp_offset infos ord i) q (comp_offset infos ord' i) h =
    Inr (set_cells infos ord p (c(i := Live (MovedFrom i))) (set_cells infos ord' q (d(i := Live (Comp i v))) h))"
proof -
  have "holds_block infos ord (set_cells infos ord' q (d(i := Live (Comp i v))) h) p c"
    using assms(3,8) by (simp add: holds_block_def)
  then show ?thesis
    using types_okD(5) [OF assms(1,2)] load_cell [OF assms(1-4)] store_cell [OF assms(5-7)]
      store_cell [OF assms(1,2)]
    by (auto simp: ComponentMove_def comp_size_def)
qed

text \<open>Allocation gives a fresh block that holds the header only.\<close>

definition fresh_cells :: "ptr \<Rightarrow> nat \<Rightarrow> 'v cell" where
  "fresh_cells a = (\<lambda>_. Raw)(0 := Live (HeaderItem a))"

lemma AllocatePoly_ok:
  assumes "types_ok infos ord" "laid_out infos ord t"
  shows "AllocatePoly infos t h =
    Inr (ph_next h, t\<lparr>pt_created := List.insert (ph_next h) (pt_created t)\<rparr>,
         set_cells infos ord (ph_next h) (fresh_cells (pt_address t)) (h\<lparr>ph_next := Suc (ph_next h)\<rparr>))"
proof -
  let ?h = "snd (poly_malloc (GetSize t) h)"
  have hd: "comp_offset infos ord 0 = 0"
    using assms(1) by (cases ord) (auto simp: comp_offset_def types_ok_def)
  have size: "GetSize t = total_size infos ord" by (rule laid_out_size [OF assms])
  have "pt_total_size t \<noteq> 0" using size types_okD(6) [OF assms(1)] by (auto simp: GetSize_def)
  then have pos: "pt_total_size t > 0" by (simp add: word_gt_0)
  have "holds_block infos ord ?h (ph_next h) (\<lambda>_. Raw)"
    by (simp add: holds_block_def poly_malloc_def size block_raw)
  from store_cell [OF assms(1) types_okD(2) [OF assms(1)] this, of "HeaderItem (pt_address t)"]
  show ?thesis
    using pos by (simp add: AllocatePoly_def poly_malloc_def hd comp_size_def fresh_cells_def set_cells_def)
qed

definition built_cells :: "'v PolyTypeInfo list \<Rightarrow> nat list \<Rightarrow> (nat \<Rightarrow> 'v cell) \<Rightarrow> nat \<Rightarrow> 'v cell" where
  "built_cells infos ord c i = (if i \<in> set ord \<and> i \<noteq> 0 then Live (Comp i (default_of infos i)) else c i)"

lemma ConstructPoly_ok:
  assumes ok: "types_ok infos ord" and t: "laid_out infos ord t" and p: "p \<in> set (pt_created t)"
    and h: "holds_block infos ord h p c"
  shows "ConstructPoly infos p t h = Inr (set_cells infos ord p (built_cells infos ord c) h)"
proof -
  let ?f = "\<lambda>i h. if pt_type_offsets t ! i \<noteq> k_invalid_offset
                  then ComponentConstruct infos i p (OffsetOf i t) h else Inr h"
  let ?c = "\<lambda>m i. if i < m then built_cells infos ord c i else c i"
  have "rfold ?f [1..<m] h = Inr (set_cells infos ord p (?c m) h)" if "1 \<le> m" "m \<le> length infos" for m
    using that
  proof (induction m rule: nat_induct_at_least)
    case base
    have "?c 1 = c" by (auto simp: built_cells_def)
    then show ?case using h by (simp add: set_cells_def holds_block_def fun_upd_idem)
  next
    case (Suc m)
    let ?h = "set_cells infos ord p (?c m) h"
    have IH: "rfold ?f [1..<m] h = Inr ?h" using Suc by simp
    have "?f m ?h = Inr (set_cells infos ord p (?c (Suc m)) h)"
    proof (cases "m \<in> set ord")
      case True
      have "(?c m)(m := Live (Comp m (default_of infos m))) = ?c (Suc m)"
        using True Suc.hyps by (auto simp: built_cells_def)
      then show ?thesis
        using laid_out_offset [OF ok t True] ComponentConstruct_cell [OF ok True, of ?h p "?c m"] by simp
    next
      case False
      have "?c m = ?c (Suc m)" using False by (auto simp: built_cells_def less_Suc_eq)
      then show ?thesis using laid_out_absent [OF t _ False] Suc.prems by simp
    qed
    then show ?case using IH Suc.hyps by (simp add: rfold_append)
  qed
  from this [of "length infos"] have
    "rfold ?f [1..<length infos] h = Inr (set_cells infos ord p (?c (length infos)) h)"
    using types_okD(2,3) [OF ok] by fastforce
  moreover have "?c (length infos) = built_cells infos ord c"
    using types_okD(3) [OF ok] by (auto simp: built_cells_def)
  ultimately show ?thesis using p by (simp add: ConstructPoly_def)
qed

definition live_parts :: "nat list \<Rightarrow> (nat \<Rightarrow> 'v cell) \<Rightarrow> (nat \<Rightarrow> 'v) \<Rightarrow> bool" where
  "live_parts ord c v \<longleftrightarrow> (\<forall>i \<in> set ord. i \<noteq> 0 \<longrightarrow> c i = Live (Comp i (v i)))"

lemma DestructPoly_ok:
  assumes ok: "types_ok infos ord" and t: "laid_out infos ord t" and p: "p \<in> set (pt_created t)"
    and h: "holds_block infos ord h p c" and v: "live_parts ord c v"
  shows "\<exists>d. DestructPoly infos p t h = Inr (set_cells infos ord p d h, map v (parts infos ord)) \<and> d 0 = c 0"
proof -
  let ?f = "\<lambda>i (h, vs). if pt_type_offsets t ! i \<noteq> k_invalid_offset
             then rbind (ComponentDestruct infos i p (OffsetOf i t) h) (\<lambda>(h', v). Inr (h', vs @ [v]))
             else Inr (h, vs)"
  let ?c = "\<lambda>m i. if i < m \<and> i \<in> set ord \<and> i \<noteq> 0 then Gone else c i"
  let ?vs = "\<lambda>m. map v (filter (\<lambda>i. i \<in> set ord) [1..<m])"
  have "rfold ?f [1..<m] (h, []) = Inr (set_cells infos ord p (?c m) h, ?vs m)" if "1 \<le> m" "m \<le> length infos" for m
    using that
  proof (induction m rule: nat_induct_at_least)
    case base
    have "?c 1 = c" by auto
    then show ?case using h by (simp add: set_cells_def holds_block_def fun_upd_idem)
  next
    case (Suc m)
    let ?h = "set_cells infos ord p (?c m) h"
    have IH: "rfold ?f [1..<m] (h, []) = Inr (?h, ?vs m)" using Suc by simp
    have "?f m (?h, ?vs m) = Inr (set_cells infos ord p (?c (Suc m)) h, ?vs (Suc m))"
    proof (cases "m \<in> set ord")
      case True
      have e: "(?c m)(m := Gone) = ?c (Suc m)" using True Suc.hyps by auto
      have "?c m m = Live (Comp m (v m))" using v True Suc.hyps by (simp add: live_parts_def)
      with ComponentDestruct_cell [OF ok True, of ?h p "?c m"] have
        "ComponentDestruct infos m p (OffsetOf m t) ?h = Inr (set_cells infos ord p (?c (Suc m)) h, v m)"
        using laid_out_offset(1) [OF ok t True] by (simp only: e set_cells_simps simp_thms)
      then show ?thesis
        using laid_out_offset [OF ok t True] True Suc.hyps by simp
    next
      case False
      have "?c m = ?c (Suc m)" using False by (auto simp: less_Suc_eq)
      then show ?thesis using laid_out_absent [OF t _ False] Suc.prems False by simp
    qed
    then show ?case using IH Suc.hyps by (simp add: rfold_append)
  qed
  from this [of "length infos"] have
    "rfold ?f [1..<length infos] (h, []) = Inr (set_cells infos ord p (?c (length infos)) h, ?vs (length infos))"
    using types_okD(2,3) [OF ok] by fastforce
  then show ?thesis using p by (intro exI [of _ "?c (length infos)"]) (auto simp: DestructPoly_def parts_def)
qed

lemma DeallocatePoly_ok:
  assumes "p \<in> set (pt_created t)" "ph_blocks h p \<noteq> None"
  shows "DeallocatePoly p t h =
    Inr (t\<lparr>pt_created := remove1 p (pt_created t)\<rparr>, h\<lparr>ph_blocks := (ph_blocks h)(p := None)\<rparr>)"
  using assms by (auto simp: DeallocatePoly_def poly_free_def)

section \<open>Properties\<close>

text \<open>
  C13: types added to a \<open>PolyType\<close> one by one, in any order, each get a byte range of their own behind the
  header: as long as the sizes add up to less than 65535, no two ranges overlap, none is taken for
  missing, all lie inside the size reported for the poly, and the type id names exactly them.
\<close>

theorem poly_layout:
  assumes "types_ok infos (0 # ts)"
  shows "\<exists>t0 t. new_PolyType infos a = Inr t0 \<and> rfold (AddType infos) ts t0 = Inr t \<and>
    GetSize t = total_size infos (0 # ts) \<and>
    (\<forall>i. bit (pt_id t) i \<longleftrightarrow> i \<in> set (0 # ts)) \<and>
    (\<forall>i \<in> set (0 # ts). pt_type_offsets t ! i \<noteq> k_invalid_offset \<and>
       OffsetOf i t + comp_size infos i \<le> GetSize t) \<and>
    (\<forall>i \<in> set (0 # ts). \<forall>j \<in> set (0 # ts). i \<noteq> j \<longrightarrow>
       {OffsetOf i t..<OffsetOf i t + comp_size infos i} \<inter> {OffsetOf j t..<OffsetOf j t + comp_size infos j} = {})"
proof -
  have d: "distinct (0 # ts)" "\<forall>i \<in> set ts. i < length infos" "infos \<noteq> []" using assms by (auto simp: types_ok_def)
  obtain t0 where t0: "new_PolyType infos a = Inr t0" "laid_out infos [0] t0" "pt_created t0 = []"
    using new_PolyType_ok [OF d(3)] by blast
  obtain t where t: "rfold (AddType infos) ts t0 = Inr t" "laid_out infos (0 # ts) t"
    using AddTypes_ok [OF t0(2,3) d(2)] d(1) by auto
  note off = laid_out_offset [OF assms t(2)] and size = laid_out_size [OF assms t(2)]
  have "{OffsetOf i t..<OffsetOf i t + comp_size infos i} \<inter> {OffsetOf j t..<OffsetOf j t + comp_size infos j} = {}"
    if "i \<in> set (0 # ts)" "j \<in> set (0 # ts)" "i \<noteq> j" for i j
    using comp_ranges_disjoint [OF that, of infos] that by (auto simp: off simp del: set_simps)
  moreover have "pt_type_offsets t ! i \<noteq> k_invalid_offset \<and> OffsetOf i t + comp_size infos i \<le> GetSize t"
    if "i \<in> set (0 # ts)" for i
    using off [OF that] comp_offset_end [OF that, of infos] size by simp
  moreover have "bit (pt_id t) i \<longleftrightarrow> i \<in> set (0 # ts)" for i
    using t(2) by (simp only: laid_out_def bit_CreateTypeID)
  ultimately show ?thesis using t0(1) t(1) size by blast
qed

definition example_infos :: "nat PolyTypeInfo list" where
  "example_infos = [MakeTypeInfo 0 8, MakeTypeInfo 10 4, MakeTypeInfo 20 16, MakeTypeInfo 30 1]"

theorem poly_layout_witness:
  "\<exists>t0 t. new_PolyType example_infos 5 = Inr t0 \<and> rfold (AddType example_infos) [3, 1] t0 = Inr t \<and>
    GetSize t = 13 \<and>
    (\<forall>i. bit (pt_id t) i \<longleftrightarrow> i \<in> set [0, 3, 1]) \<and>
    (\<forall>i \<in> set [0, 3, 1]. pt_type_offsets t ! i \<noteq> k_invalid_offset \<and>
       OffsetOf i t + comp_size example_infos i \<le> GetSize t) \<and>
    (\<forall>i \<in> set [0, 3, 1]. \<forall>j \<in> set [0, 3, 1]. i \<noteq> j \<longrightarrow>
       {OffsetOf i t..<OffsetOf i t + comp_size example_infos i} \<inter>
       {OffsetOf j t..<OffsetOf j t + comp_size example_infos j} = {})"
proof -
  have ok: "types_ok example_infos [0, 3, 1]"
    by (simp add: types_ok_def example_infos_def MakeTypeInfo_def comp_size_def)
  have size: "total_size example_infos [0, 3, 1] = 13"
    by (simp add: example_infos_def MakeTypeInfo_def comp_size_def)
  show ?thesis using poly_layout [OF ok, of 5] unfolding size .
qed

text \<open>
  The size is kept in 16 bits and wraps: components that add up to 65536 bytes or more are laid out
  in a smaller block, over one another.
\<close>

lemma poly_size_wraps:
  assumes "laid_out infos ord t"
  shows "GetSize t = total_size infos ord mod 65536"
  using assms by (simp add: GetSize_def laid_out_def unat_of_nat)

end
