(* ===== verification/PolyFactory.thy ===== *)
theory PolyFactory
  imports PolyLayout "HOL-Library.AList" "HOL-Library.Multiset"
begin

text \<open>
  \<open>src/Util/PolyFactory.h\<close>: the registry of polys of one component set. It keeps an archetype (a \<open>PolyType\<close>
  with callbacks) per type id in use, an entry with a reference count per poly, and moves a poly to
  another archetype when its types change.

  \<open>'k\<close> are the poly ids and \<open>'e\<close> the callbacks. The hash maps are association lists; their order
  stands for the maps' iteration order. \<open>releases v\<close> are the ids of the polys whose references the
  component value \<open>v\<close> holds: its destruction gives them back. They are given back when the loop that
  destroys components is done; they change reference counts only.
\<close>

section \<open>State\<close>

datatype PolyEvent = BeginLoad | BeginUnload | MainUpdate | TaskUpdate

record 'e ArchetypeEntry =
  ae_type :: PolyType
  ae_callbacks :: "PolyEvent \<Rightarrow> 'e list"
  ae_refcount :: nat
  ae_polys :: "ptr list"

record PolyEntry =
  pe_type_id :: nat
  pe_archetype :: ptr
  pe_header :: ptr
  pe_refcount :: nat

record ('k, 'v, 'e) PolyFactory =
  pf_heap :: "'v poly_heap"
  pf_archetypes :: "(nat \<times> 'e ArchetypeEntry) list"
  pf_entries :: "('k \<times> PolyEntry) list"
  pf_callbacks :: "(nat \<times> (PolyEvent \<times> 'e) list) list"

definition new_PolyFactory :: "('k, 'v, 'e) PolyFactory" where
  "new_PolyFactory =
     \<lparr>pf_heap = \<lparr>ph_blocks = (\<lambda>_. None), ph_next = 0\<rparr>, pf_archetypes = [], pf_entries = [], pf_callbacks = []\<rparr>"

text \<open>A \<open>size_t\<close> counter\<close>

definition decrement :: "nat \<Rightarrow> nat" where
  "decrement n = (if n = 0 then 2 ^ 64 - 1 else n - 1)"

text \<open>The archetype a pointer leads to.\<close>

definition archetype_at :: "ptr \<Rightarrow> ('k, 'v, 'e) PolyFactory \<Rightarrow> 'e ArchetypeEntry res" where
  "archetype_at a F =
     (case filter (\<lambda>(_, ae). pt_address (ae_type ae) = a) (pf_archetypes F) of
        [] \<Rightarrow> Inl Dangling
      | (_, ae) # _ \<Rightarrow> Inr ae)"

text \<open>\<open>header->archetype\<close>\<close>

definition header_archetype :: "ptr \<Rightarrow> ('k, 'v, 'e) PolyFactory \<Rightarrow> (ptr \<times> 'e ArchetypeEntry) res" where
  "header_archetype p F =
     rbind (load_item p 0 (pf_heap F)) (\<lambda>x.
       case x of HeaderItem a \<Rightarrow> rbind (archetype_at a F) (\<lambda>ae. Inr (a, ae)) | _ \<Rightarrow> Inl Uninitialized)"

section \<open>Archetypes\<close>

definition Archetype_AddCallback :: "PolyEvent \<Rightarrow> 'e \<Rightarrow> 'e ArchetypeEntry \<Rightarrow> 'e ArchetypeEntry" where
  "Archetype_AddCallback event callback ae =
     ae\<lparr>ae_callbacks := (ae_callbacks ae)(event := ae_callbacks ae event @ [callback])\<rparr>"

text \<open>The callbacks that are called, in order.\<close>

definition Archetype_DoEvent :: "PolyEvent \<Rightarrow> 'e ArchetypeEntry \<Rightarrow> 'e list" where
  "Archetype_DoEvent event ae = ae_callbacks ae event"

definition InitType ::
    "'v PolyTypeInfo list \<Rightarrow> (nat \<times> (PolyEvent \<times> 'e) list) list \<Rightarrow> nat \<Rightarrow> ptr \<Rightarrow> 'e ArchetypeEntry res" where
  "InitType infos callbacks type_id a =
     rbind (new_PolyType infos a) (\<lambda>t0.
     rbind (rfold (\<lambda>i t. if bit type_id i then AddType infos i t else Inr t) [1..<length infos] t0) (\<lambda>t.
       let ae = \<lparr>ae_type = t, ae_callbacks = (\<lambda>_. []), ae_refcount = 0, ae_polys = []\<rparr>
       in Inr (fold (\<lambda>(types, entries) ae.
                 if HasTypes types type_id
                 then fold (\<lambda>(event, callback). Archetype_AddCallback event callback) entries ae
                 else ae) callbacks ae)))"

text \<open>\<open>AllocatePoly\<close> of the factory; a new archetype takes an address of its own.\<close>

definition FAllocatePoly ::
    "'v PolyTypeInfo list \<Rightarrow> nat \<Rightarrow> ('k, 'v, 'e) PolyFactory \<Rightarrow> (ptr \<times> ('k, 'v, 'e) PolyFactory) res" where
  "FAllocatePoly infos type_id F =
     rbind (case map_of (pf_archetypes F) type_id of
              Some ae \<Rightarrow> Inr (ae, pf_heap F)
            | None \<Rightarrow>
                rbind (InitType infos (pf_callbacks F) type_id (ph_next (pf_heap F))) (\<lambda>ae.
                  Inr (ae, (pf_heap F)\<lparr>ph_next := Suc (ph_next (pf_heap F))\<rparr>)))
       (\<lambda>(ae, h).
     rbind (AllocatePoly infos (ae_type ae) h) (\<lambda>(poly, t, h').
       Inr (poly, F\<lparr>pf_heap := h',
         pf_archetypes := AList.update type_id
           (ae\<lparr>ae_type := t, ae_refcount := ae_refcount ae + 1, ae_polys := ae_polys ae @ [poly]\<rparr>) (pf_archetypes F)\<rparr>)))"

definition FDeallocatePoly :: "nat \<Rightarrow> ptr \<Rightarrow> ('k, 'v, 'e) PolyFactory \<Rightarrow> ('k, 'v, 'e) PolyFactory res" where
  "FDeallocatePoly type_id poly F =
     (case map_of (pf_archetypes F) type_id of
        None \<Rightarrow> Inl Dangling
      | Some ae \<Rightarrow>
          rbind (DeallocatePoly poly (ae_type ae) (pf_heap F)) (\<lambda>(t, h).
            let ae' = ae\<lparr>ae_type := t, ae_refcount := decrement (ae_refcount ae),
                        ae_polys := filter (\<lambda>q. q \<noteq> poly) (ae_polys ae)\<rparr>
            in if ae_refcount ae' = 0
               then rbind (destroy_PolyType t) (\<lambda>_.
                      Inr (F\<lparr>pf_heap := h, pf_archetypes := AList.delete type_id (pf_archetypes F)\<rparr>))
               else Inr (F\<lparr>pf_heap := h, pf_archetypes := AList.update type_id ae' (pf_archetypes F)\<rparr>)))"

section \<open>References\<close>

definition add_ref :: "'k \<Rightarrow> ('k, 'v, 'e) PolyFactory \<Rightarrow> ('k, 'v, 'e) PolyFactory res" where
  "add_ref pid F =
     (case map_of (pf_entries F) pid of
        None \<Rightarrow> Inl Dangling
      | Some e \<Rightarrow> Inr (F\<lparr>pf_entries := AList.update pid (e\<lparr>pe_refcount := pe_refcount e + 1\<rparr>) (pf_entries F)\<rparr>))"

definition drop_ref :: "'k \<Rightarrow> ('k, 'v, 'e) PolyFactory \<Rightarrow> ('k, 'v, 'e) PolyFactory res" where
  "drop_ref pid F =
     (case map_of (pf_entries F) pid of
        None \<Rightarrow> Inl Dangling
      | Some e \<Rightarrow> Inr (F\<lparr>pf_entries := AList.update pid (e\<lparr>pe_refcount := decrement (pe_refcount e)\<rparr>) (pf_entries F)\<rparr>))"

definition RefHas :: "nat \<Rightarrow> 'k \<Rightarrow> ('k, 'v, 'e) PolyFactory \<Rightarrow> bool res" where
  "RefHas types pid F =
     (case map_of (pf_entries F) pid of None \<Rightarrow> Inl Dangling | Some e \<Rightarrow> Inr (HasTypes types (pe_type_id e)))"

definition RefGet :: "nat \<Rightarrow> 'k \<Rightarrow> ('k, 'v, 'e) PolyFactory \<Rightarrow> 'v poly_item res" where
  "RefGet i pid F =
     rbind (RefHas (CreateTypeID [i]) pid F) (\<lambda>has.
       if \<not> has then Inl Assertion
       else case map_of (pf_entries F) pid of
         None \<Rightarrow> Inl Dangling
       | Some e \<Rightarrow>
           rbind (archetype_at (pe_archetype e) F) (\<lambda>ae. PolyGet i (pe_header e) (ae_type ae) (pf_heap F)))"

definition RefTryGet :: "nat \<Rightarrow> 'k \<Rightarrow> ('k, 'v, 'e) PolyFactory \<Rightarrow> 'v poly_item option res" where
  "RefTryGet i pid F =
     rbind (RefHas (CreateTypeID [i]) pid F) (\<lambda>has.
       if has then rbind (RefGet i pid F) (\<lambda>x. Inr (Some x)) else Inr None)"

text \<open>Assigning through the reference that \<open>Get\<close> or \<open>operator->*\<close> gives.\<close>

definition RefAssign :: "'v PolyTypeInfo list \<Rightarrow> nat \<Rightarrow> 'v \<Rightarrow> 'k \<Rightarrow> ('k, 'v, 'e) PolyFactory \<Rightarrow> ('k, 'v, 'e) PolyFactory res" where
  "RefAssign infos i v pid F =
     rbind (RefGet i pid F) (\<lambda>_.
       case map_of (pf_entries F) pid of
         None \<Rightarrow> Inl Dangling
       | Some e \<Rightarrow>
           rbind (archetype_at (pe_archetype e) F) (\<lambda>ae.
           rbind (store_item (pe_header e) (OffsetOf i (ae_type ae)) (ti_size (infos ! i)) (Comp i v) (pf_heap F)) (\<lambda>h.
             Inr (F\<lparr>pf_heap := h\<rparr>))))"

section \<open>Operations\<close>

definition GetPoly ::
    "'v PolyTypeInfo list \<Rightarrow> 'k \<Rightarrow> nat \<Rightarrow> ('k, 'v, 'e) PolyFactory \<Rightarrow> ('k, 'v, 'e) PolyFactory res" where
  "GetPoly infos pid initial_types F =
     (case map_of (pf_entries F) pid of
        Some _ \<Rightarrow> add_ref pid F
      | None \<Rightarrow>
          let type_id = initial_types OR CreateTypeID [0]
          in rbind (FAllocatePoly infos type_id F) (\<lambda>(poly, F1).
             rbind (header_archetype poly F1) (\<lambda>(a, ae).
               if type_id \<noteq> pt_id (ae_type ae) then Inl Assertion
               else rbind (ConstructPoly infos poly (ae_type ae) (pf_heap F1)) (\<lambda>h.
                 add_ref pid (F1\<lparr>pf_heap := h,
                   pf_entries := AList.update pid
                     \<lparr>pe_type_id = type_id, pe_archetype = a, pe_header = poly, pe_refcount = 0\<rparr> (pf_entries F1)\<rparr>)))))"

text \<open>The loop of \<open>UpdatePolyType\<close> over the components; it collects what is destroyed.\<close>

definition convert_part ::
    "'v PolyTypeInfo list \<Rightarrow> ptr \<Rightarrow> PolyType \<Rightarrow> ptr \<Rightarrow> PolyType \<Rightarrow> nat \<Rightarrow> 'v poly_heap \<times> 'v list \<Rightarrow> ('v poly_heap \<times> 'v list) res" where
  "convert_part infos old_poly old_type new_poly new_type i = (\<lambda>(h, vs).
     if pt_type_offsets old_type ! i \<noteq> k_invalid_offset
     then if pt_type_offsets new_type ! i \<noteq> k_invalid_offset
          then rbind (ComponentMove infos i old_poly (OffsetOf i old_type) new_poly (OffsetOf i new_type) h) (\<lambda>h'.
                 Inr (h', vs))
          else rbind (ComponentDestruct infos i old_poly (OffsetOf i old_type) h) (\<lambda>(h', v). Inr (h', vs @ [v]))
     else if pt_type_offsets new_type ! i \<noteq> k_invalid_offset
          then rbind (ComponentConstruct infos i new_poly (OffsetOf i new_type) h) (\<lambda>h'. Inr (h', vs))
          else Inr (h, vs))"

definition release_all :: "('v \<Rightarrow> 'k list) \<Rightarrow> 'v list \<Rightarrow> ('k, 'v, 'e) PolyFactory \<Rightarrow> ('k, 'v, 'e) PolyFactory res" where
  "release_all releases vs F = rfold drop_ref (concat (map releases vs)) F"

definition UpdatePolyType ::
    "'v PolyTypeInfo list \<Rightarrow> ('v \<Rightarrow> 'k list) \<Rightarrow> ptr \<Rightarrow> nat \<Rightarrow> nat \<Rightarrow> ('k, 'v, 'e) PolyFactory \<Rightarrow>
     (ptr \<times> ('k, 'v, 'e) PolyFactory) res" where
  "UpdatePolyType infos releases old_poly old_type_id new_type_id F =
     (if new_type_id = old_type_id then Inr (old_poly, F)
      else
        rbind (FAllocatePoly infos new_type_id F) (\<lambda>(new_poly, F1).
        rbind (header_archetype old_poly F1) (\<lambda>(a, old_ae).
        rbind (header_archetype new_poly F1) (\<lambda>(b, new_ae).
          if a = b then Inl Assertion
          else
            rbind (rfold (convert_part infos old_poly (ae_type old_ae) new_poly (ae_type new_ae))
                     [1..<length infos] (pf_heap F1, [])) (\<lambda>(h, vs).
            rbind (release_all releases vs (F1\<lparr>pf_heap := h\<rparr>)) (\<lambda>F2.
            rbind (FDeallocatePoly old_type_id old_poly F2) (\<lambda>F3.
              Inr (new_poly, F3))))))))"

text \<open>The end of \<open>SetTypes\<close> and \<open>AddTypes\<close>\<close>

definition change_types ::
    "'v PolyTypeInfo list \<Rightarrow> ('v \<Rightarrow> 'k list) \<Rightarrow> 'k \<Rightarrow> (nat \<Rightarrow> nat) \<Rightarrow> ('k, 'v, 'e) PolyFactory \<Rightarrow> ('k, 'v, 'e) PolyFactory res" where
  "change_types infos releases pid new_types F =
     (case map_of (pf_entries F) pid of
        None \<Rightarrow> Inr F
      | Some e \<Rightarrow>
          let new_type_id = new_types (pe_type_id e)
          in rbind (UpdatePolyType infos releases (pe_header e) (pe_type_id e) new_type_id F) (\<lambda>(new_poly, F1).
             rbind (header_archetype new_poly F1) (\<lambda>(a, _).
               case map_of (pf_entries F1) pid of
                 None \<Rightarrow> Inl Dangling
               | Some e' \<Rightarrow>
                   Inr (F1\<lparr>pf_entries := AList.update pid
                     (e'\<lparr>pe_type_id := new_type_id, pe_archetype := a, pe_header := new_poly\<rparr>) (pf_entries F1)\<rparr>))))"

definition SetTypes ::
    "'v PolyTypeInfo list \<Rightarrow> ('v \<Rightarrow> 'k list) \<Rightarrow> 'k \<Rightarrow> nat \<Rightarrow> ('k, 'v, 'e) PolyFactory \<Rightarrow> ('k, 'v, 'e) PolyFactory res" where
  "SetTypes infos releases pid new_type_id = change_types infos releases pid (\<lambda>_. new_type_id OR CreateTypeID [0])"

definition AddTypes ::
    "'v PolyTypeInfo list \<Rightarrow> ('v \<Rightarrow> 'k list) \<Rightarrow> 'k \<Rightarrow> nat \<Rightarrow> ('k, 'v, 'e) PolyFactory \<Rightarrow> ('k, 'v, 'e) PolyFactory res" where
  "AddTypes infos releases pid new_types = change_types infos releases pid (\<lambda>old. old OR new_types)"

text \<open>The polys the callback is called for, in order.\<close>

definition Iterate :: "nat \<Rightarrow> ('k, 'v, 'e) PolyFactory \<Rightarrow> ptr list" where
  "Iterate types F =
     concat (map (\<lambda>(type_id, ae). if HasTypes types type_id then ae_polys ae else []) (pf_archetypes F))"

fun visit :: "ptr list \<Rightarrow> nat list \<Rightarrow> ptr list res" where
  "visit polys [] = Inr []"
| "visit polys (i # is) =
     (if i < length polys then rbind (visit polys is) (\<lambda>ps. Inr (polys ! i # ps)) else Inl Out_Of_Bounds)"

definition WorkerIterate :: "nat \<Rightarrow> nat \<Rightarrow> nat \<Rightarrow> ('k, 'v, 'e) PolyFactory \<Rightarrow> ptr list res" where
  "WorkerIterate types worker_count worker_index F =
     rfold (\<lambda>(type_id, ae) ps.
       if HasTypes types type_id
       then if worker_count = 0 then Inl Div_By_Zero
            else let len = length (ae_polys ae);
                     len_per_worker = len div worker_count;
                     begin_pos = worker_index * len_per_worker;
                     end_pos = len + worker_index * len_per_worker + len_per_worker
                 in rbind (visit (ae_polys ae) [begin_pos..<end_pos]) (\<lambda>qs. Inr (ps @ qs))
       else Inr ps) (pf_archetypes F) []"

definition AddCallback :: "nat \<Rightarrow> PolyEvent \<Rightarrow> 'e \<Rightarrow> ('k, 'v, 'e) PolyFactory \<Rightarrow> ('k, 'v, 'e) PolyFactory" where
  "AddCallback types event callback F =
     F\<lparr>pf_callbacks :=
         AList.update types ((case map_of (pf_callbacks F) types of None \<Rightarrow> [] | Some es \<Rightarrow> es) @ [(event, callback)])
           (pf_callbacks F),
       pf_archetypes :=
         map (\<lambda>(type_id, ae). (type_id, if HasTypes types type_id then Archetype_AddCallback event callback ae else ae))
           (pf_archetypes F)\<rparr>"

definition GetCount :: "('k, 'v, 'e) PolyFactory \<Rightarrow> nat" where
  "GetCount F = length (pf_entries F)"

text \<open>One round of \<open>Cleanup\<close>, for the entry the iterator is at.\<close>

definition cleanup_entry ::
    "'v PolyTypeInfo list \<Rightarrow> ('v \<Rightarrow> 'k list) \<Rightarrow> 'k \<Rightarrow> ('k, 'v, 'e) PolyFactory \<Rightarrow> ('k, 'v, 'e) PolyFactory res" where
  "cleanup_entry infos releases pid F =
     (case map_of (pf_entries F) pid of
        None \<Rightarrow> Inl Dangling
      | Some e \<Rightarrow>
          if pe_refcount e = 0
          then rbind (archetype_at (pe_archetype e) F) (\<lambda>ae.
               rbind (DestructPoly infos (pe_header e) (ae_type ae) (pf_heap F)) (\<lambda>(h, vs).
               rbind (release_all releases vs (F\<lparr>pf_heap := h\<rparr>)) (\<lambda>F1.
               rbind (FDeallocatePoly (pe_type_id e) (pe_header e) F1) (\<lambda>F2.
                 Inr (F2\<lparr>pf_entries := AList.delete pid (pf_entries F2)\<rparr>)))))
          else Inr F)"

definition Cleanup ::
    "'v PolyTypeInfo list \<Rightarrow> ('v \<Rightarrow> 'k list) \<Rightarrow> ('k, 'v, 'e) PolyFactory \<Rightarrow> ('k, 'v, 'e) PolyFactory res" where
  "Cleanup infos releases F = rfold (cleanup_entry infos releases) (map fst (pf_entries F)) F"

definition DoEvent :: "PolyEvent \<Rightarrow> 'k \<Rightarrow> ('k, 'v, 'e) PolyFactory \<Rightarrow> 'e list res" where
  "DoEvent event pid F =
     (case map_of (pf_entries F) pid of
        None \<Rightarrow> Inl Dangling
      | Some e \<Rightarrow> rbind (archetype_at (pe_archetype e) F) (\<lambda>ae. Inr (Archetype_DoEvent event ae)))"

end
