(* ===== verification/PolyStore.thy ===== *)
theory PolyStore
  imports PolyFactory
begin

text \<open>
  The memory and the archetypes of a \<open>PolyFactory\<close>: which block belongs to which archetype and what its cells
  hold, as a map \<open>P\<close> from pointers. Allocation, deallocation and the operations on components act on
  this map as expected.
\<close>

section \<open>Type ids\<close>

definition order :: "'v PolyTypeInfo list \<Rightarrow> nat \<Rightarrow> nat list" where
  "order infos tid = 0 # filter (bit tid) [1..<length infos]"

definition valid_types :: "'v PolyTypeInfo list \<Rightarrow> nat \<Rightarrow> bool" where
  "valid_types infos tid \<longleftrightarrow> types_ok infos (order infos tid) \<and> CreateTypeID (order infos tid) = tid"

lemma bit_order: "valid_types infos tid \<Longrightarrow> bit tid i \<longleftrightarrow> i \<in> set (order infos tid)"
  unfolding valid_types_def by (metis bit_CreateTypeID)

lemma parts_order: "valid_types infos tid \<Longrightarrow> parts infos (order infos tid) = filter (bit tid) [1..<length infos]"
  unfolding parts_def by (rule filter_cong) (simp_all add: bit_order)

definition registered :: "(nat \<times> (PolyEvent \<times> 'e) list) list \<Rightarrow> PolyEvent \<Rightarrow> nat \<Rightarrow> 'e list" where
  "registered cbs ev tid =
     concat (map (\<lambda>(types, es). if HasTypes types tid then map snd (filter (\<lambda>x. fst x = ev) es) else []) cbs)"

section \<open>The invariant\<close>

type_synonym 'v store = "ptr \<Rightarrow> (nat \<times> (nat \<Rightarrow> 'v cell)) option"

definition arch_ok ::
    "'v PolyTypeInfo list \<Rightarrow> (nat \<times> (PolyEvent \<times> 'e) list) list \<Rightarrow> 'v store \<Rightarrow> nat \<Rightarrow> 'e ArchetypeEntry \<Rightarrow> bool" where
  "arch_ok infos cbs P tid ae \<longleftrightarrow>
     valid_types infos tid \<and> laid_out infos (order infos tid) (ae_type ae) \<and>
     distinct (ae_polys ae) \<and> ae_polys ae \<noteq> [] \<and> set (ae_polys ae) = {p. \<exists>c. P p = Some (tid, c)} \<and>
     distinct (pt_created (ae_type ae)) \<and> set (pt_created (ae_type ae)) = set (ae_polys ae) \<and>
     ae_refcount ae = length (ae_polys ae) \<and>
     (\<forall>ev. mset (ae_callbacks ae ev) = mset (registered cbs ev tid))"

definition poly_ok ::
    "'v PolyTypeInfo list \<Rightarrow> ('k, 'v, 'e) PolyFactory \<Rightarrow> ptr \<Rightarrow> nat \<Rightarrow> (nat \<Rightarrow> 'v cell) \<Rightarrow> bool" where
  "poly_ok infos F p tid c \<longleftrightarrow>
     p < ph_next (pf_heap F) \<and> holds_block infos (order infos tid) (pf_heap F) p c \<and>
     (\<exists>ae. map_of (pf_archetypes F) tid = Some ae \<and> c 0 = Live (HeaderItem (pt_address (ae_type ae))))"

definition store_ok :: "'v PolyTypeInfo list \<Rightarrow> ('k, 'v, 'e) PolyFactory \<Rightarrow> 'v store \<Rightarrow> bool" where
  "store_ok infos F P \<longleftrightarrow>
     distinct (map fst (pf_archetypes F)) \<and>
     (\<forall>tid ae. map_of (pf_archetypes F) tid = Some ae \<longrightarrow>
        arch_ok infos (pf_callbacks F) P tid ae \<and> pt_address (ae_type ae) < ph_next (pf_heap F)) \<and>
     (\<forall>t1 a1 t2 a2. map_of (pf_archetypes F) t1 = Some a1 \<longrightarrow> map_of (pf_archetypes F) t2 = Some a2 \<longrightarrow>
        pt_address (ae_type a1) = pt_address (ae_type a2) \<longrightarrow> t1 = t2) \<and>
     (\<forall>p tid c. P p = Some (tid, c) \<longrightarrow> poly_ok infos F p tid c) \<and>
     (\<forall>p. P p = None \<longrightarrow> ph_blocks (pf_heap F) p = None)"

lemma store_okD:
  assumes "store_ok infos F P"
  shows "distinct (map fst (pf_archetypes F))"
    "map_of (pf_archetypes F) tid = Some ae \<Longrightarrow> arch_ok infos (pf_callbacks F) P tid ae"
    "map_of (pf_archetypes F) tid = Some ae \<Longrightarrow> pt_address (ae_type ae) < ph_next (pf_heap F)"
    "map_of (pf_archetypes F) t1 = Some a1 \<Longrightarrow> map_of (pf_archetypes F) t2 = Some a2 \<Longrightarrow>
      pt_address (ae_type a1) = pt_address (ae_type a2) \<Longrightarrow> t1 = t2"
    "P p = Some (tid, c) \<Longrightarrow> poly_ok infos F p tid c"
    "P p = None \<Longrightarrow> ph_blocks (pf_heap F) p = None"
  using assms unfolding store_ok_def by blast+

lemma store_new: "store_ok infos new_PolyFactory Map.empty"
  by (simp add: store_ok_def new_PolyFactory_def)

lemma archetype_of_poly:
  assumes "store_ok infos F P" "P p = Some (tid, c)"
  obtains ae where "map_of (pf_archetypes F) tid = Some ae" "arch_ok infos (pf_callbacks F) P tid ae"
    "c 0 = Live (HeaderItem (pt_address (ae_type ae)))" "p \<in> set (ae_polys ae)" "p \<in> set (pt_created (ae_type ae))"
    "valid_types infos tid" "laid_out infos (order infos tid) (ae_type ae)"
proof -
  obtain ae where ae: "map_of (pf_archetypes F) tid = Some ae" "c 0 = Live (HeaderItem (pt_address (ae_type ae)))"
    using store_okD(5) [OF assms] by (auto simp: poly_ok_def)
  note ok = store_okD(2) [OF assms(1) ae(1)]
  have "p \<in> set (ae_polys ae)" using ok assms(2) by (auto simp: arch_ok_def)
  then show thesis using that ae ok by (auto simp: arch_ok_def)
qed

lemma filter_unique:
  "x \<in> set xs \<Longrightarrow> Q x \<Longrightarrow> (\<And>y. y \<in> set xs \<Longrightarrow> Q y \<Longrightarrow> y = x) \<Longrightarrow> \<exists>ys. filter Q xs = x # ys"
proof (cases "filter Q xs")
  case Nil
  assume "x \<in> set xs" "Q x"
  then show ?thesis using Nil by (auto simp: filter_empty_conv)
next
  case (Cons y ys)
  assume u: "\<And>y. y \<in> set xs \<Longrightarrow> Q y \<Longrightarrow> y = x"
  have "y \<in> set (filter Q xs)" using Cons by simp
  then have "y = x" using u [of y] by simp
  then show ?thesis using Cons by simp
qed

lemma archetype_at_ok:
  assumes "store_ok infos F P" "map_of (pf_archetypes F) tid = Some ae"
  shows "archetype_at (pt_address (ae_type ae)) F = Inr ae"
proof -
  let ?Q = "\<lambda>(_ :: nat, x :: 'c ArchetypeEntry). pt_address (ae_type x) = pt_address (ae_type ae)"
  have "y = (tid, ae)" if y: "y \<in> set (pf_archetypes F)" "?Q y" for y
  proof -
    obtain t a where ta: "y = (t, a)" by (cases y)
    with y have m: "map_of (pf_archetypes F) t = Some a" using store_okD(1) [OF assms(1)] by simp
    have "t = tid" by (rule store_okD(4) [OF assms(1) m assms(2)]) (use y(2) ta in simp)
    with m assms(2) ta show ?thesis by simp
  qed
  moreover have "(tid, ae) \<in> set (pf_archetypes F)" using assms(2) by (rule map_of_SomeD)
  moreover have "?Q (tid, ae)" by simp
  ultimately have "\<exists>ys. filter ?Q (pf_archetypes F) = (tid, ae) # ys" by (metis (no_types) filter_unique)
  then obtain ys where "filter ?Q (pf_archetypes F) = (tid, ae) # ys" ..
  then show ?thesis by (simp add: archetype_at_def)
qed

lemma valid_zero: "valid_types infos tid \<Longrightarrow> 0 \<in> set (order infos tid)"
  by (simp add: order_def)

lemma valid_ok: "valid_types infos tid \<Longrightarrow> types_ok infos (order infos tid)"
  by (simp add: valid_types_def)

lemma header_archetype_ok:
  assumes "store_ok infos F P" "P p = Some (tid, c)" "map_of (pf_archetypes F) tid = Some ae"
  shows "header_archetype p F = Inr (pt_address (ae_type ae), ae)"
proof -
  have v: "valid_types infos tid" using store_okD(2) [OF assms(1,3)] by (simp add: arch_ok_def)
  have p: "holds_block infos (order infos tid) (pf_heap F) p c" "c 0 = Live (HeaderItem (pt_address (ae_type ae)))"
    using store_okD(5) [OF assms(1,2)] assms(3) by (auto simp: poly_ok_def)
  have "comp_offset infos (order infos tid) 0 = 0" by (simp add: comp_offset_def order_def)
  with load_cell [OF valid_ok [OF v] valid_zero [OF v] p] show ?thesis
    using archetype_at_ok [OF assms(1,3)] by (simp add: header_archetype_def)
qed

section \<open>New archetypes\<close>

lemma rfold_if: "rfold (\<lambda>i s. if Q i then f i s else Inr s) xs s = rfold f (filter Q xs) s"
  by (induction xs arbitrary: s) (auto intro!: rbind_cong)

lemma add_callbacks:
  "ae_callbacks (fold (\<lambda>(event, callback). Archetype_AddCallback event callback) es ae) ev =
     ae_callbacks ae ev @ map snd (filter (\<lambda>x. fst x = ev) es)"
  "ae_type (fold (\<lambda>(event, callback). Archetype_AddCallback event callback) es ae) = ae_type ae"
  "ae_refcount (fold (\<lambda>(event, callback). Archetype_AddCallback event callback) es ae) = ae_refcount ae"
  "ae_polys (fold (\<lambda>(event, callback). Archetype_AddCallback event callback) es ae) = ae_polys ae"
  by (induction es arbitrary: ae) (auto simp: Archetype_AddCallback_def)

lemma init_callbacks:
  fixes cbs :: "(nat \<times> (PolyEvent \<times> 'e) list) list" and tid :: nat
  defines "f \<equiv> \<lambda>(types, entries) ae. if HasTypes types tid
     then fold (\<lambda>(event, callback). Archetype_AddCallback event callback) entries ae else ae"
  shows "ae_callbacks (fold f cbs ae) ev = ae_callbacks ae ev @ registered cbs ev tid"
    "ae_type (fold f cbs ae) = ae_type ae" "ae_refcount (fold f cbs ae) = ae_refcount ae"
    "ae_polys (fold f cbs ae) = ae_polys ae"
  unfolding f_def by (induction cbs arbitrary: ae) (auto simp: add_callbacks registered_def)

lemma InitType_ok:
  assumes "valid_types infos tid"
  shows "\<exists>ae. InitType infos cbs tid a = Inr ae \<and> laid_out infos (order infos tid) (ae_type ae) \<and>
    pt_created (ae_type ae) = [] \<and> pt_address (ae_type ae) = a \<and> ae_refcount ae = 0 \<and> ae_polys ae = [] \<and>
    (\<forall>ev. ae_callbacks ae ev = registered cbs ev tid)"
proof -
  have ne: "infos \<noteq> []" using types_okD(3) [OF valid_ok [OF assms] valid_zero [OF assms]] by auto
  obtain t0 where t0: "new_PolyType infos a = Inr t0" "laid_out infos [0] t0" "pt_created t0 = []" "pt_address t0 = a"
    using new_PolyType_ok [OF ne] by blast
  have "\<forall>i \<in> set (filter (bit tid) [1..<length infos]). i < length infos"
    "distinct ([0] @ filter (bit tid) [1..<length infos])" by auto
  from AddTypes_ok [OF t0(2,3) this] obtain t where
    t: "rfold (AddType infos) (filter (bit tid) [1..<length infos]) t0 = Inr t" "laid_out infos (order infos tid) t"
    "pt_created t = []" "pt_address t = a" using t0(4) by (auto simp: order_def)
  let ?ae = "\<lparr>ae_type = t, ae_callbacks = (\<lambda>_. []), ae_refcount = 0, ae_polys = []\<rparr>"
  show ?thesis
    using t0(1) t init_callbacks [where cbs = cbs and tid = tid and ae = ?ae]
    by (simp add: InitType_def rfold_if Let_def)
qed

section \<open>Allocation\<close>

definition same_entries :: "('k, 'v, 'e) PolyFactory \<Rightarrow> ('k, 'v, 'e) PolyFactory \<Rightarrow> bool" where
  "same_entries F G \<longleftrightarrow> pf_entries G = pf_entries F \<and> pf_callbacks G = pf_callbacks F"

lemma map_of_update: "map_of (AList.update k v al) k' = (if k' = k then Some v else map_of al k')"
  by (simp add: update_conv')

lemma map_of_delete: "map_of (AList.delete k al) k' = (if k' = k then None else map_of al k')"
  by (simp add: delete_conv')

lemma FAllocatePoly_ok:
  assumes S: "store_ok infos F P" and v: "valid_types infos tid"
  shows "\<exists>p F' a. FAllocatePoly infos tid F = Inr (p, F') \<and> P p = None \<and> same_entries F F' \<and>
    store_ok infos F' (P(p := Some (tid, fresh_cells a)))"
proof -
  let ?h = "pf_heap F"
  note ok = valid_ok [OF v]
  have "\<exists>ae h. (case map_of (pf_archetypes F) tid of Some ae \<Rightarrow> Inr (ae, ?h)
      | None \<Rightarrow> rbind (InitType infos (pf_callbacks F) tid (ph_next ?h)) (\<lambda>ae. Inr (ae, ?h\<lparr>ph_next := Suc (ph_next ?h)\<rparr>)))
        = Inr (ae, h) \<and>
    laid_out infos (order infos tid) (ae_type ae) \<and> distinct (ae_polys ae) \<and>
    set (ae_polys ae) = {p. \<exists>c. P p = Some (tid, c)} \<and> distinct (pt_created (ae_type ae)) \<and>
    set (pt_created (ae_type ae)) = set (ae_polys ae) \<and> ae_refcount ae = length (ae_polys ae) \<and>
    (\<forall>ev. mset (ae_callbacks ae ev) = mset (registered (pf_callbacks F) ev tid)) \<and>
    ph_blocks h = ph_blocks ?h \<and> ph_next ?h \<le> ph_next h \<and> pt_address (ae_type ae) < ph_next h \<and>
    (\<forall>t2 a2. map_of (pf_archetypes F) t2 = Some a2 \<longrightarrow> t2 \<noteq> tid \<longrightarrow> pt_address (ae_type a2) \<noteq> pt_address (ae_type ae)) \<and>
    (\<forall>ae0. map_of (pf_archetypes F) tid = Some ae0 \<longrightarrow> ae0 = ae)"
  proof (cases "map_of (pf_archetypes F) tid")
    case None
    have "{p. \<exists>c. P p = Some (tid, c)} = {}" using store_okD(5) [OF S] None by (fastforce simp: poly_ok_def)
    moreover have "pt_address (ae_type a2) \<noteq> ph_next ?h" if "map_of (pf_archetypes F) t2 = Some a2" for t2 a2
      using store_okD(3) [OF S that] by simp
    ultimately show ?thesis using InitType_ok [OF v, of "pf_callbacks F" "ph_next ?h"] None by auto
  next
    case (Some ae)
    then show ?thesis using store_okD(2,3,4) [OF S] by (auto simp: arch_ok_def)
  qed
  then obtain ae h where A:
    "(case map_of (pf_archetypes F) tid of Some ae \<Rightarrow> Inr (ae, ?h)
      | None \<Rightarrow> rbind (InitType infos (pf_callbacks F) tid (ph_next ?h)) (\<lambda>ae. Inr (ae, ?h\<lparr>ph_next := Suc (ph_next ?h)\<rparr>)))
        = Inr (ae, h)"
    "laid_out infos (order infos tid) (ae_type ae)" "distinct (ae_polys ae)"
    "set (ae_polys ae) = {p. \<exists>c. P p = Some (tid, c)}" "distinct (pt_created (ae_type ae))"
    "set (pt_created (ae_type ae)) = set (ae_polys ae)" "ae_refcount ae = length (ae_polys ae)"
    "\<forall>ev. mset (ae_callbacks ae ev) = mset (registered (pf_callbacks F) ev tid)"
    "ph_blocks h = ph_blocks ?h" "ph_next ?h \<le> ph_next h" "pt_address (ae_type ae) < ph_next h"
    "\<forall>t2 a2. map_of (pf_archetypes F) t2 = Some a2 \<longrightarrow> t2 \<noteq> tid \<longrightarrow> pt_address (ae_type a2) \<noteq> pt_address (ae_type ae)"
    "\<forall>ae0. map_of (pf_archetypes F) tid = Some ae0 \<longrightarrow> ae0 = ae" by blast
  let ?p = "ph_next h" and ?a = "pt_address (ae_type ae)"
  have fresh: "P ?p = None"
  proof (cases "P ?p")
    case (Some tc)
    then show ?thesis using store_okD(5) [OF S, of ?p "fst tc" "snd tc"] A(10) by (simp add: poly_ok_def)
  qed simp
  let ?h' = "set_cells infos (order infos tid) ?p (fresh_cells ?a) (h\<lparr>ph_next := Suc ?p\<rparr>)"
  let ?t = "(ae_type ae)\<lparr>pt_created := List.insert ?p (pt_created (ae_type ae))\<rparr>"
  let ?ae = "ae\<lparr>ae_type := ?t, ae_refcount := ae_refcount ae + 1, ae_polys := ae_polys ae @ [?p]\<rparr>"
  let ?F = "F\<lparr>pf_heap := ?h', pf_archetypes := AList.update tid ?ae (pf_archetypes F)\<rparr>"
  let ?P = "P(?p := Some (tid, fresh_cells ?a))"
  have run: "FAllocatePoly infos tid F = Inr (?p, ?F)"
    using A(1) AllocatePoly_ok [OF ok A(2), of h] by (simp add: FAllocatePoly_def)
  have notin: "?p \<notin> set (ae_polys ae)" using A(4) fresh by auto
  have new: "arch_ok infos (pf_callbacks F) ?P tid ?ae"
    using A v notin fresh by (auto simp: arch_ok_def laid_out_def)
  have old: "arch_ok infos (pf_callbacks F) ?P t2 a2" if "map_of (pf_archetypes F) t2 = Some a2" "t2 \<noteq> tid" for t2 a2
    using store_okD(2) [OF S that(1)] that(2) fresh by (auto simp: arch_ok_def)
  have poly: "poly_ok infos ?F p t c" if "P p = Some (t, c)" for p t c
  proof -
    have "p \<noteq> ?p" using that fresh by auto
    then show ?thesis
      using store_okD(5) [OF S that] A(9,10,13) by (auto simp: poly_ok_def holds_block_def map_of_update)
  qed
  have "store_ok infos ?F ?P"
    unfolding store_ok_def
  proof (intro conjI allI impI)
    show "distinct (map fst (pf_archetypes ?F))" using store_okD(1) [OF S] by (simp add: distinct_update)
  next
    fix t ae' assume "map_of (pf_archetypes ?F) t = Some ae'"
    then show "arch_ok infos (pf_callbacks ?F) ?P t ae'" "pt_address (ae_type ae') < ph_next (pf_heap ?F)"
      using new old store_okD(3) [OF S, of t ae'] A(10,11) by (auto simp: map_of_update split: if_splits)
  next
    fix t1 a1 t2 a2
    assume "map_of (pf_archetypes ?F) t1 = Some a1" "map_of (pf_archetypes ?F) t2 = Some a2"
      "pt_address (ae_type a1) = pt_address (ae_type a2)"
    then show "t1 = t2"
      using A(12) [rule_format, of t1 a1] A(12) [rule_format, of t2 a2] store_okD(4) [OF S, of t1 a1 t2 a2]
      by (cases "t1 = tid"; cases "t2 = tid") (auto simp: map_of_update)
  next
    fix p t c assume "?P p = Some (t, c)"
    then show "poly_ok infos ?F p t c"
    proof (cases "p = ?p")
      case True
      with \<open>?P p = Some (t, c)\<close> have "t = tid" "c = fresh_cells ?a" by simp_all
      with True show ?thesis by (simp add: poly_ok_def map_of_update fresh_cells_def holds_block_def)
    next
      case False
      with \<open>?P p = Some (t, c)\<close> show ?thesis by (intro poly) simp
    qed
  next
    fix p assume "?P p = None"
    then show "ph_blocks (pf_heap ?F) p = None" using store_okD(6) [OF S] A(9) by (auto split: if_splits)
  qed
  with run fresh show ?thesis by (auto simp: same_entries_def)
qed

section \<open>Deallocation\<close>

lemma decrement_Suc [simp]: "0 < n \<Longrightarrow> decrement n = n - 1"
  by (simp add: decrement_def)

lemma length_filter_neq: "distinct xs \<Longrightarrow> x \<in> set xs \<Longrightarrow> length (filter (\<lambda>y. y \<noteq> x) xs) = length xs - 1"
proof (induction xs)
  case (Cons a xs)
  show ?case
  proof (cases "a = x")
    case True
    then have "filter (\<lambda>y. y \<noteq> x) xs = xs" using Cons.prems by (auto simp: filter_id_conv)
    with True show ?thesis by simp
  next
    case False
    then have "x \<in> set xs" using Cons.prems by simp
    with Cons False show ?thesis by (cases xs) auto
  qed
qed simp

lemma distinct_singleton: "distinct xs \<Longrightarrow> set xs = {x} \<Longrightarrow> xs = [x]"
  by (cases xs; cases "tl xs") auto

lemma FDeallocatePoly_ok:
  assumes S: "store_ok infos F P" and p: "P p = Some (tid, c)"
  shows "\<exists>F'. FDeallocatePoly tid p F = Inr F' \<and> same_entries F F' \<and> store_ok infos F' (P(p := None))"
proof -
  obtain ae where ae: "map_of (pf_archetypes F) tid = Some ae" "arch_ok infos (pf_callbacks F) P tid ae"
    "p \<in> set (ae_polys ae)" "p \<in> set (pt_created (ae_type ae))"
    using archetype_of_poly [OF S p] by blast
  have blk: "ph_blocks (pf_heap F) p \<noteq> None" using store_okD(5) [OF S p] by (simp add: poly_ok_def holds_block_def)
  let ?t = "(ae_type ae)\<lparr>pt_created := remove1 p (pt_created (ae_type ae))\<rparr>"
  let ?h = "(pf_heap F)\<lparr>ph_blocks := (ph_blocks (pf_heap F))(p := None)\<rparr>"
  let ?ae = "ae\<lparr>ae_type := ?t, ae_refcount := decrement (ae_refcount ae), ae_polys := filter (\<lambda>q. q \<noteq> p) (ae_polys ae)\<rparr>"
  let ?P = "P(p := None)"
  have d: "distinct (ae_polys ae)" "set (ae_polys ae) = {q. \<exists>c. P q = Some (tid, c)}" "ae_refcount ae = length (ae_polys ae)"
    "distinct (pt_created (ae_type ae))" "set (pt_created (ae_type ae)) = set (ae_polys ae)"
    using ae(2) by (simp_all add: arch_ok_def)
  have count: "ae_refcount ?ae = length (ae_polys ?ae)"
    using d(1,3) length_filter_neq [OF d(1) ae(3)] length_pos_if_in_set [OF ae(3)] by simp
  have left: "{q. \<exists>c. ?P q = Some (tid, c)} = set (ae_polys ae) - {p}" using d(2) by auto
  have old: "arch_ok infos (pf_callbacks F) ?P t2 a2" if "map_of (pf_archetypes F) t2 = Some a2" "t2 \<noteq> tid" for t2 a2
    using store_okD(2) [OF S that(1)] that(2) p by (auto simp: arch_ok_def)
  have new: "arch_ok infos (pf_callbacks F) ?P tid ?ae" if "ae_polys ?ae \<noteq> []"
  proof -
    have "laid_out infos (order infos tid) ?t" using ae(2) by (simp add: arch_ok_def laid_out_def)
    moreover have "set (pt_created ?t) = set (ae_polys ?ae)" "set (ae_polys ?ae) = {q. \<exists>c. ?P q = Some (tid, c)}"
      unfolding left using d(4,5) by auto
    ultimately show ?thesis
      using ae(2) d(1,4) count that by (simp add: arch_ok_def)
  qed
  have poly: "poly_ok infos G q t c'"
    if "P q = Some (t, c')" "q \<noteq> p" "pf_heap G = ?h" "map_of (pf_archetypes G) t = Some a"
      "map_of (pf_archetypes F) t = Some a0" "pt_address (ae_type a) = pt_address (ae_type a0)" for G q t c' a a0
    using store_okD(5) [OF S that(1)] that(2-6) by (auto simp: poly_ok_def holds_block_def)
  have dead: "ph_blocks ?h q = None" if "?P q = None" for q using store_okD(6) [OF S, of q] that by (auto split: if_splits)
  show ?thesis
  proof (cases "ae_refcount ?ae = 0")
    case True
    then have "filter (\<lambda>q. q \<noteq> p) (ae_polys ae) = []" using count by simp
    then have "\<forall>q \<in> set (ae_polys ae). q = p" by (simp add: filter_empty_conv)
    then have "set (ae_polys ae) = {p}" using ae(3) by blast
    then have none: "ae_polys ae = [p]" using distinct_singleton [OF d(1)] by simp
    then have "pt_created (ae_type ae) = [p]" using distinct_singleton [OF d(4), of p] d(5) by simp
    then have "pt_created ?t = []" by simp
    let ?F = "F\<lparr>pf_heap := ?h, pf_archetypes := AList.delete tid (pf_archetypes F)\<rparr>"
    have run: "FDeallocatePoly tid p F = Inr ?F"
      using ae(1) DeallocatePoly_ok [OF ae(4) blk] True \<open>pt_created ?t = []\<close>
      by (simp add: FDeallocatePoly_def destroy_PolyType_def)
    have tids: "t \<noteq> tid" if "P q = Some (t, c')" "q \<noteq> p" for q t c' using that d(2) none by auto
    have "store_ok infos ?F ?P"
      unfolding store_ok_def
    proof (intro conjI allI impI)
      show "distinct (map fst (pf_archetypes ?F))" using store_okD(1) [OF S] by (simp add: distinct_delete)
    next
      fix t ae' assume "map_of (pf_archetypes ?F) t = Some ae'"
      then show "arch_ok infos (pf_callbacks ?F) ?P t ae'" "pt_address (ae_type ae') < ph_next (pf_heap ?F)"
        using old store_okD(3) [OF S, of t ae'] by (auto simp: map_of_delete split: if_splits)
    next
      fix t1 a1 t2 a2
      assume "map_of (pf_archetypes ?F) t1 = Some a1" "map_of (pf_archetypes ?F) t2 = Some a2"
        "pt_address (ae_type a1) = pt_address (ae_type a2)"
      then show "t1 = t2" using store_okD(4) [OF S, of t1 a1 t2 a2] by (auto simp: map_of_delete split: if_splits)
    next
      fix q t c' assume "?P q = Some (t, c')"
      then have q: "P q = Some (t, c')" "q \<noteq> p" by (auto split: if_splits)
      obtain a where "map_of (pf_archetypes F) t = Some a" using archetype_of_poly [OF S q(1)] by blast
      with q tids [OF q] show "poly_ok infos ?F q t c'" by (intro poly) (auto simp: map_of_delete)
    next
      fix q assume "?P q = None"
      then show "ph_blocks (pf_heap ?F) q = None" using dead by simp
    qed
    with run show ?thesis by (auto simp: same_entries_def)
  next
    case False
    then have ne: "ae_polys ?ae \<noteq> []" using count by auto
    let ?F = "F\<lparr>pf_heap := ?h, pf_archetypes := AList.update tid ?ae (pf_archetypes F)\<rparr>"
    have run: "FDeallocatePoly tid p F = Inr ?F"
      using ae(1) DeallocatePoly_ok [OF ae(4) blk] False by (simp add: FDeallocatePoly_def Let_def)
    have "store_ok infos ?F ?P"
      unfolding store_ok_def
    proof (intro conjI allI impI)
      show "distinct (map fst (pf_archetypes ?F))" using store_okD(1) [OF S] by (simp add: distinct_update)
    next
      fix t ae' assume "map_of (pf_archetypes ?F) t = Some ae'"
      then show "arch_ok infos (pf_callbacks ?F) ?P t ae'" "pt_address (ae_type ae') < ph_next (pf_heap ?F)"
        using old new [OF ne] store_okD(3) [OF S] ae(1) by (auto simp: map_of_update split: if_splits)
    next
      fix t1 a1 t2 a2
      assume A: "map_of (pf_archetypes ?F) t1 = Some a1" "map_of (pf_archetypes ?F) t2 = Some a2"
        "pt_address (ae_type a1) = pt_address (ae_type a2)"
      have before: "\<exists>b. map_of (pf_archetypes F) t = Some b \<and> pt_address (ae_type b) = pt_address (ae_type a)"
        if "map_of (pf_archetypes ?F) t = Some a" for t a
        using that ae(1) by (cases "t = tid") (auto simp: map_of_update)
      obtain b1 b2 where "map_of (pf_archetypes F) t1 = Some b1" "map_of (pf_archetypes F) t2 = Some b2"
        "pt_address (ae_type b1) = pt_address (ae_type b2)"
        using before [OF A(1)] before [OF A(2)] A(3) by auto
      then show "t1 = t2" by (rule store_okD(4) [OF S])
    next
      fix q t c' assume "?P q = Some (t, c')"
      then have q: "P q = Some (t, c')" "q \<noteq> p" by (auto split: if_splits)
      obtain a where "map_of (pf_archetypes F) t = Some a" using archetype_of_poly [OF S q(1)] by blast
      show "poly_ok infos ?F q t c'"
      proof (cases "t = tid")
        case True
        have m: "map_of (pf_archetypes ?F) t = Some ?ae" "map_of (pf_archetypes F) t = Some ae"
          using True ae(1) by (simp_all add: map_of_update)
        show ?thesis by (rule poly [OF q _ m]) simp_all
      next
        case False
        have m: "map_of (pf_archetypes ?F) t = Some a" using \<open>map_of (pf_archetypes F) t = Some a\<close> False
          by (simp add: map_of_update)
        show ?thesis by (rule poly [OF q _ m \<open>map_of (pf_archetypes F) t = Some a\<close>]) simp_all
      qed
    next
      fix q assume "?P q = None"
      then show "ph_blocks (pf_heap ?F) q = None" using dead by simp
    qed
    with run show ?thesis by (auto simp: same_entries_def)
  qed
qed

section \<open>Changing a poly's cells\<close>

lemma store_set_cells:
  assumes S: "store_ok infos F P" and p: "P p = Some (tid, c)" and d: "d 0 = c 0"
  shows "store_ok infos (F\<lparr>pf_heap := set_cells infos (order infos tid) p d (pf_heap F)\<rparr>) (P(p := Some (tid, d)))"
    (is "store_ok infos ?F ?P")
proof -
  have same: "{q. \<exists>c. ?P q = Some (t, c)} = {q. \<exists>c. P q = Some (t, c)}" for t using p by auto
  show ?thesis
    unfolding store_ok_def
  proof (intro conjI allI impI)
    show "distinct (map fst (pf_archetypes ?F))" using store_okD(1) [OF S] by simp
  next
    fix t ae assume "map_of (pf_archetypes ?F) t = Some ae"
    then show "arch_ok infos (pf_callbacks ?F) ?P t ae" "pt_address (ae_type ae) < ph_next (pf_heap ?F)"
      using store_okD(2,3) [OF S, of t ae] same [of t] by (auto simp: arch_ok_def)
  next
    fix t1 a1 t2 a2
    assume "map_of (pf_archetypes ?F) t1 = Some a1" "map_of (pf_archetypes ?F) t2 = Some a2"
      "pt_address (ae_type a1) = pt_address (ae_type a2)"
    then show "t1 = t2" using store_okD(4) [OF S, of t1 a1 t2 a2] by simp
  next
    fix q t c' assume q: "?P q = Some (t, c')"
    show "poly_ok infos ?F q t c'"
    proof (cases "q = p")
      case True
      then show ?thesis using q store_okD(5) [OF S p] d by (auto simp: poly_ok_def)
    next
      case False
      then show ?thesis using q store_okD(5) [OF S, of q t c'] by (auto simp: poly_ok_def holds_block_def)
    qed
  next
    fix q assume "?P q = None"
    then show "ph_blocks (pf_heap ?F) q = None" using store_okD(6) [OF S, of q] by (auto split: if_splits)
  qed
qed

end
