(* ===== verification/PolyConvert.thy ===== *)
theory PolyConvert
  imports PolyStore
begin

text \<open>
  The loop of \<open>UpdatePolyType\<close> (\<open>src/Util/PolyFactory.h\<close>) on the cells of two polys: components of both types are moved,
  those of the new type only are default constructed, those of the old type only are destroyed.
\<close>

lemma set_cells_commute:
  "p \<noteq> q \<Longrightarrow> set_cells infos o1 p c (set_cells infos o2 q d h) = set_cells infos o2 q d (set_cells infos o1 p c h)"
  by (simp add: set_cells_def fun_upd_twist)

lemma set_cells_idem: "holds_block infos ord h p c \<Longrightarrow> set_cells infos ord p c h = h"
  by (simp add: set_cells_def holds_block_def fun_upd_idem)

definition emptied :: "nat list \<Rightarrow> nat list \<Rightarrow> (nat \<Rightarrow> 'v cell) \<Rightarrow> nat \<Rightarrow> nat \<Rightarrow> 'v cell" where
  "emptied old new c m i =
     (if i < m \<and> i \<noteq> 0 \<and> i \<in> set old then if i \<in> set new then Live (MovedFrom i) else Gone else c i)"

definition filled ::
    "'v PolyTypeInfo list \<Rightarrow> nat list \<Rightarrow> nat list \<Rightarrow> (nat \<Rightarrow> 'v) \<Rightarrow> (nat \<Rightarrow> 'v cell) \<Rightarrow> nat \<Rightarrow> nat \<Rightarrow> 'v cell" where
  "filled infos old new v d m i =
     (if i < m \<and> i \<noteq> 0 \<and> i \<in> set new
      then Live (Comp i (if i \<in> set old then v i else default_of infos i)) else d i)"

lemma emptied_other: "m \<notin> set old \<Longrightarrow> emptied old new c (Suc m) = emptied old new c m"
  by (auto simp: emptied_def less_Suc_eq)

lemma filled_other: "m \<notin> set new \<Longrightarrow> filled infos old new v d (Suc m) = filled infos old new v d m"
  by (auto simp: filled_def less_Suc_eq)

lemma emptied_next:
  "0 < m \<Longrightarrow> m \<in> set old \<Longrightarrow>
   emptied old new c (Suc m) = (emptied old new c m)(m := if m \<in> set new then Live (MovedFrom m) else Gone)"
  by (auto simp: emptied_def)

lemma filled_next:
  "0 < m \<Longrightarrow> m \<in> set new \<Longrightarrow> filled infos old new v d (Suc m) =
   (filled infos old new v d m)(m := Live (Comp m (if m \<in> set old then v m else default_of infos m)))"
  by (auto simp: filled_def)

definition converting ::
    "'v PolyTypeInfo list \<Rightarrow> nat list \<Rightarrow> nat list \<Rightarrow> PolyType \<Rightarrow> PolyType \<Rightarrow> ptr \<Rightarrow> ptr \<Rightarrow> (nat \<Rightarrow> 'v cell) \<Rightarrow> (nat \<Rightarrow> 'v) \<Rightarrow> bool" where
  "converting infos old new s t p q c v \<longleftrightarrow>
     types_ok infos old \<and> laid_out infos old s \<and> types_ok infos new \<and> laid_out infos new t \<and>
     live_parts old c v \<and> p \<noteq> q"

lemma convertingD:
  assumes "converting infos old new s t p q c v"
  shows "types_ok infos old" "laid_out infos old s" "types_ok infos new" "laid_out infos new t"
    "live_parts old c v" "p \<noteq> q"
  using assms by (simp_all add: converting_def)

definition both_cells ::
    "'v PolyTypeInfo list \<Rightarrow> nat list \<Rightarrow> nat list \<Rightarrow> ptr \<Rightarrow> ptr \<Rightarrow> (nat \<Rightarrow> 'v cell) \<Rightarrow> (nat \<Rightarrow> 'v cell) \<Rightarrow> (nat \<Rightarrow> 'v) \<Rightarrow>
     nat \<Rightarrow> 'v poly_heap \<Rightarrow> 'v poly_heap" where
  "both_cells infos old new p q c d v m h =
     set_cells infos old p (emptied old new c m) (set_cells infos new q (filled infos old new v d m) h)"

lemma before: "live_parts old c v \<Longrightarrow> 0 < m \<Longrightarrow> m \<in> set old \<Longrightarrow> emptied old new c m m = Live (Comp m (v m))"
  by (simp add: emptied_def live_parts_def)

lemma holds_both:
  "holds_block infos old (both_cells infos old new p q c d v m h) p (emptied old new c m)"
  "p \<noteq> q \<Longrightarrow> holds_block infos new (both_cells infos old new p q c d v m h) q (filled infos old new v d m)"
  by (simp_all add: holds_block_def both_cells_def)

lemma convert_moved:
  assumes C: "converting infos old new s t p q c v" and m: "0 < m" "m \<in> set old" "m \<in> set new"
  shows "convert_part infos p s q t m (both_cells infos old new p q c d v m h, vs) = Inr (both_cells infos old new p q c d v (Suc m) h, vs)"
proof -
  note D = convertingD [OF C]
  note off = laid_out_offset [OF D(1,2) m(2)] laid_out_offset [OF D(3,4) m(3)]
  have "ComponentMove infos m p (OffsetOf m s) q (OffsetOf m t) (both_cells infos old new p q c d v m h) = Inr (both_cells infos old new p q c d v (Suc m) h)"
    using ComponentMove_cell [OF D(1) m(2) holds_both(1) before [OF D(5) m(1,2)] D(3) m(3) holds_both(2) [OF D(6)] D(6)] m D(6)
    by (simp add: both_cells_def off emptied_next filled_next set_cells_commute)
  then show ?thesis using off by (simp add: convert_part_def)
qed

lemma convert_gone:
  assumes C: "converting infos old new s t p q c v" and m: "0 < m" "m \<in> set old" "m \<notin> set new" "m < length infos"
  shows "convert_part infos p s q t m (both_cells infos old new p q c d v m h, vs) = Inr (both_cells infos old new p q c d v (Suc m) h, vs @ [v m])"
proof -
  note D = convertingD [OF C]
  note off = laid_out_offset [OF D(1,2) m(2)] laid_out_absent [OF D(4) m(4,3)]
  have "ComponentDestruct infos m p (OffsetOf m s) (both_cells infos old new p q c d v m h) = Inr (both_cells infos old new p q c d v (Suc m) h, v m)"
    using ComponentDestruct_cell [OF D(1) m(2) holds_both(1) before [OF D(5) m(1,2)]] m
    by (simp add: both_cells_def off emptied_next filled_other)
  then show ?thesis using off by (simp add: convert_part_def)
qed

lemma convert_new:
  assumes C: "converting infos old new s t p q c v" and m: "0 < m" "m \<notin> set old" "m \<in> set new" "m < length infos"
  shows "convert_part infos p s q t m (both_cells infos old new p q c d v m h, vs) = Inr (both_cells infos old new p q c d v (Suc m) h, vs)"
proof -
  note D = convertingD [OF C]
  note off = laid_out_absent [OF D(2) m(4,2)] laid_out_offset [OF D(3,4) m(3)]
  have "ComponentConstruct infos m q (OffsetOf m t) (both_cells infos old new p q c d v m h) = Inr (both_cells infos old new p q c d v (Suc m) h)"
    using ComponentConstruct_cell [OF D(3) m(3) holds_both(2) [OF D(6)], of old c d v m h] m D(6)
    by (simp add: both_cells_def off filled_next emptied_other set_cells_commute)
  then show ?thesis using off by (simp add: convert_part_def)
qed

lemma convert_none:
  assumes C: "converting infos old new s t p q c v" and m: "m \<notin> set old" "m \<notin> set new" "m < length infos"
  shows "convert_part infos p s q t m (both_cells infos old new p q c d v m h, vs) = Inr (both_cells infos old new p q c d v (Suc m) h, vs)"
  using laid_out_absent [OF convertingD(2) [OF C] m(3,1)] laid_out_absent [OF convertingD(4) [OF C] m(3,2)] m
  by (simp add: convert_part_def both_cells_def emptied_other filled_other)

lemma convert_loop:
  assumes C: "converting infos old new s t p q c v"
    and h: "holds_block infos old h p c" "holds_block infos new h q d" and m: "1 \<le> m" "m \<le> length infos"
  shows "rfold (convert_part infos p s q t) [1..<m] (h, []) =
    Inr (both_cells infos old new p q c d v m h, map v (filter (\<lambda>i. i \<in> set old \<and> i \<notin> set new) [1..<m]))"
  using m
proof (induction m rule: nat_induct_at_least)
  case base
  have "emptied old new c 1 = c" "filled infos old new v d 1 = d" by (auto simp: emptied_def filled_def)
  then show ?case using set_cells_idem [OF h(1)] set_cells_idem [OF h(2)] by (simp add: both_cells_def)
next
  case (Suc m)
  then have "0 < m" "m < length infos" by simp_all
  with Suc show ?case
    by (cases "m \<in> set old"; cases "m \<in> set new")
      (simp_all add: rfold_append convert_moved [OF C] convert_gone [OF C] convert_new [OF C] convert_none [OF C])
qed

lemma convert_all:
  assumes C: "converting infos old new s t p q c v"
    and h: "holds_block infos old h p c" "holds_block infos new h q d"
  shows "rfold (convert_part infos p s q t) [1..<length infos] (h, []) =
    Inr (both_cells infos old new p q c d v (length infos) h,
      map v (filter (\<lambda>i. i \<in> set old \<and> i \<notin> set new) [1..<length infos]))"
proof -
  have "0 < length infos" using types_okD(2,3) [OF convertingD(1) [OF C]] by fastforce
  then have "1 \<le> length infos" by (simp add: Suc_le_eq)
  then show ?thesis by (rule convert_loop [OF C h _ order_refl])
qed

lemma filled_all:
  "types_ok infos new \<Longrightarrow>
   live_parts new (filled infos old new v d (length infos)) (\<lambda>i. if i \<in> set old then v i else default_of infos i)"
  using types_okD(3) by (fastforce simp add: live_parts_def filled_def)

lemma kept_headers: "emptied old new c m 0 = c 0" "filled infos old new v d m 0 = d 0"
  by (simp_all add: emptied_def filled_def)

end
