(* ===== verification/PolySpec.thy ===== *)
theory PolySpec
  imports PolyStore
begin

text \<open>
  What \<open>PolyFactory\<close> promises, without archetypes or memory: a list of entities, each with its type id, the
  values of its components and a reference count, and the callbacks registered so far. A fault of the
  specification is a fault of the code.
\<close>

record 'v Entity =
  en_types :: nat
  en_value :: "nat \<Rightarrow> 'v"
  en_refs :: nat

record ('k, 'v, 'e) EntitySpec =
  es_entities :: "('k \<times> 'v Entity) list"
  es_listeners :: "(nat \<times> PolyEvent \<times> 'e) list"

definition sp_new :: "('k, 'v, 'e) EntitySpec" where
  "sp_new = \<lparr>es_entities = [], es_listeners = []\<rparr>"

definition sp_put :: "'k \<Rightarrow> 'v Entity \<Rightarrow> ('k, 'v, 'e) EntitySpec \<Rightarrow> ('k, 'v, 'e) EntitySpec" where
  "sp_put pid e A = A\<lparr>es_entities := AList.update pid e (es_entities A)\<rparr>"

definition sp_add_ref :: "'k \<Rightarrow> ('k, 'v, 'e) EntitySpec \<Rightarrow> ('k, 'v, 'e) EntitySpec res" where
  "sp_add_ref pid A =
     (case map_of (es_entities A) pid of
        None \<Rightarrow> Inl Dangling
      | Some e \<Rightarrow> Inr (sp_put pid (e\<lparr>en_refs := en_refs e + 1\<rparr>) A))"

definition sp_drop_ref :: "'k \<Rightarrow> ('k, 'v, 'e) EntitySpec \<Rightarrow> ('k, 'v, 'e) EntitySpec res" where
  "sp_drop_ref pid A =
     (case map_of (es_entities A) pid of
        None \<Rightarrow> Inl Dangling
      | Some e \<Rightarrow> Inr (sp_put pid (e\<lparr>en_refs := decrement (en_refs e)\<rparr>) A))"

definition sp_release :: "'k list \<Rightarrow> ('k, 'v, 'e) EntitySpec \<Rightarrow> ('k, 'v, 'e) EntitySpec res" where
  "sp_release pids A = rfold sp_drop_ref pids A"

text \<open>A poly is created with default components, once.\<close>

definition sp_get :: "'v PolyTypeInfo list \<Rightarrow> 'k \<Rightarrow> nat \<Rightarrow> ('k, 'v, 'e) EntitySpec \<Rightarrow> ('k, 'v, 'e) EntitySpec" where
  "sp_get infos pid types A =
     (case map_of (es_entities A) pid of
        Some e \<Rightarrow> sp_put pid (e\<lparr>en_refs := en_refs e + 1\<rparr>) A
      | None \<Rightarrow> sp_put pid \<lparr>en_types = types OR 1, en_value = default_of infos, en_refs = 1\<rparr> A)"

text \<open>The components that a change of types removes, from the lowest index up.\<close>

definition removed :: "'v PolyTypeInfo list \<Rightarrow> nat \<Rightarrow> nat \<Rightarrow> nat list" where
  "removed infos old new = filter (\<lambda>i. bit old i \<and> \<not> bit new i) [1..<length infos]"

definition retype :: "'v PolyTypeInfo list \<Rightarrow> nat \<Rightarrow> 'v Entity \<Rightarrow> 'v Entity" where
  "retype infos new e =
     e\<lparr>en_types := new, en_value := (\<lambda>i. if bit (en_types e) i then en_value e i else default_of infos i)\<rparr>"

definition sp_change ::
    "'v PolyTypeInfo list \<Rightarrow> ('v \<Rightarrow> 'k list) \<Rightarrow> 'k \<Rightarrow> (nat \<Rightarrow> nat) \<Rightarrow> ('k, 'v, 'e) EntitySpec \<Rightarrow>
     ('k, 'v, 'e) EntitySpec res" where
  "sp_change infos releases pid f A =
     (case map_of (es_entities A) pid of
        None \<Rightarrow> Inr A
      | Some e \<Rightarrow>
          let new = f (en_types e)
          in rbind (sp_release (concat (map (releases \<circ> en_value e) (removed infos (en_types e) new))) A) (\<lambda>A'.
               case map_of (es_entities A') pid of
                 None \<Rightarrow> Inl Dangling
               | Some e' \<Rightarrow> Inr (sp_put pid (retype infos new e') A')))"

definition sp_read :: "nat \<Rightarrow> 'k \<Rightarrow> ('k, 'v, 'e) EntitySpec \<Rightarrow> 'v res" where
  "sp_read i pid A =
     (case map_of (es_entities A) pid of
        None \<Rightarrow> Inl Dangling
      | Some e \<Rightarrow> if i \<noteq> 0 \<and> bit (en_types e) i then Inr (en_value e i) else Inl Assertion)"

definition sp_assign :: "nat \<Rightarrow> 'v \<Rightarrow> 'k \<Rightarrow> ('k, 'v, 'e) EntitySpec \<Rightarrow> ('k, 'v, 'e) EntitySpec res" where
  "sp_assign i v pid A =
     (case map_of (es_entities A) pid of
        None \<Rightarrow> Inl Dangling
      | Some e \<Rightarrow> if i \<noteq> 0 \<and> bit (en_types e) i then Inr (sp_put pid (e\<lparr>en_value := (en_value e)(i := v)\<rparr>) A)
                  else Inl Assertion)"

definition sp_listen :: "nat \<Rightarrow> PolyEvent \<Rightarrow> 'e \<Rightarrow> ('k, 'v, 'e) EntitySpec \<Rightarrow> ('k, 'v, 'e) EntitySpec" where
  "sp_listen types event callback A = A\<lparr>es_listeners := es_listeners A @ [(types, event, callback)]\<rparr>"

definition listening :: "(nat \<times> PolyEvent \<times> 'e) list \<Rightarrow> PolyEvent \<Rightarrow> nat \<Rightarrow> 'e list" where
  "listening ls ev tid = map (snd \<circ> snd) (filter (\<lambda>(types, event, _). event = ev \<and> HasTypes types tid) ls)"

definition held :: "'v PolyTypeInfo list \<Rightarrow> ('v \<Rightarrow> 'k list) \<Rightarrow> 'v Entity \<Rightarrow> 'k list" where
  "held infos releases e = concat (map (releases \<circ> en_value e) (filter (bit (en_types e)) [1..<length infos]))"

definition sp_cleanup_entry ::
    "'v PolyTypeInfo list \<Rightarrow> ('v \<Rightarrow> 'k list) \<Rightarrow> 'k \<Rightarrow> ('k, 'v, 'e) EntitySpec \<Rightarrow> ('k, 'v, 'e) EntitySpec res" where
  "sp_cleanup_entry infos releases pid A =
     (case map_of (es_entities A) pid of
        None \<Rightarrow> Inl Dangling
      | Some e \<Rightarrow>
          if en_refs e = 0
          then rbind (sp_release (held infos releases e) A) (\<lambda>A'.
                 Inr (A'\<lparr>es_entities := AList.delete pid (es_entities A')\<rparr>))
          else Inr A)"

definition sp_cleanup ::
    "'v PolyTypeInfo list \<Rightarrow> ('v \<Rightarrow> 'k list) \<Rightarrow> ('k, 'v, 'e) EntitySpec \<Rightarrow> ('k, 'v, 'e) EntitySpec res" where
  "sp_cleanup infos releases A = rfold (sp_cleanup_entry infos releases) (map fst (es_entities A)) A"

section \<open>Sequences of operations\<close>

datatype ('k, 'v, 'e) FactoryOp =
    OpGet 'k nat
  | OpReference 'k
  | OpRelease 'k
  | OpSetTypes 'k nat
  | OpAddTypes 'k nat
  | OpAssign 'k nat 'v
  | OpListen nat PolyEvent 'e
  | OpCleanup

fun factory_op ::
    "'v PolyTypeInfo list \<Rightarrow> ('v \<Rightarrow> 'k list) \<Rightarrow> ('k, 'v, 'e) FactoryOp \<Rightarrow> ('k, 'v, 'e) PolyFactory \<Rightarrow>
     ('k, 'v, 'e) PolyFactory res" where
  "factory_op infos releases (OpGet pid types) F = GetPoly infos pid types F"
| "factory_op infos releases (OpReference pid) F = add_ref pid F"
| "factory_op infos releases (OpRelease pid) F = drop_ref pid F"
| "factory_op infos releases (OpSetTypes pid types) F = SetTypes infos releases pid types F"
| "factory_op infos releases (OpAddTypes pid types) F = AddTypes infos releases pid types F"
| "factory_op infos releases (OpAssign pid i v) F = RefAssign infos i v pid F"
| "factory_op infos releases (OpListen types event callback) F = Inr (AddCallback types event callback F)"
| "factory_op infos releases OpCleanup F = Cleanup infos releases F"

fun spec_op ::
    "'v PolyTypeInfo list \<Rightarrow> ('v \<Rightarrow> 'k list) \<Rightarrow> ('k, 'v, 'e) FactoryOp \<Rightarrow> ('k, 'v, 'e) EntitySpec \<Rightarrow>
     ('k, 'v, 'e) EntitySpec res" where
  "spec_op infos releases (OpGet pid types) A = Inr (sp_get infos pid types A)"
| "spec_op infos releases (OpReference pid) A = sp_add_ref pid A"
| "spec_op infos releases (OpRelease pid) A = sp_drop_ref pid A"
| "spec_op infos releases (OpSetTypes pid types) A = sp_change infos releases pid (\<lambda>_. types OR 1) A"
| "spec_op infos releases (OpAddTypes pid types) A = sp_change infos releases pid (\<lambda>old. old OR types) A"
| "spec_op infos releases (OpAssign pid i v) A = sp_assign i v pid A"
| "spec_op infos releases (OpListen types event callback) A = Inr (sp_listen types event callback A)"
| "spec_op infos releases OpCleanup A = sp_cleanup infos releases A"

text \<open>The component types in use; ids name only these.\<close>

definition within :: "nat list \<Rightarrow> nat \<Rightarrow> bool" where
  "within all tid \<longleftrightarrow> (\<forall>i. bit tid i \<longrightarrow> i \<in> set all)"

fun op_within :: "nat list \<Rightarrow> ('k, 'v, 'e) FactoryOp \<Rightarrow> bool" where
  "op_within all (OpGet pid types) = within all types"
| "op_within all (OpSetTypes pid types) = within all types"
| "op_within all (OpAddTypes pid types) = within all types"
| "op_within all _ = True"

lemma within_or: "within all a \<Longrightarrow> within all b \<Longrightarrow> within all (a OR b)"
  by (auto simp: within_def bit_or_iff)

lemma within_one: "types_ok infos all \<Longrightarrow> within all 1"
  using types_okD(2) [of infos all] by (auto simp: within_def bit_1_iff simp del: One_nat_def)

lemma total_size_subset:
  assumes "distinct xs" "distinct ys" "set xs \<subseteq> set ys"
  shows "total_size infos xs \<le> total_size infos ys"
  using assms by (simp add: total_size_def sum_list_distinct_conv_sum_set sum_mono2)

lemma within_valid:
  assumes ok: "types_ok infos all" and w: "within all tid" and z: "bit tid 0"
  shows "valid_types infos tid"
proof -
  have s: "set (order infos tid) = {i. bit tid i}"
    using w z types_okD(3) [OF ok] by (fastforce simp: order_def within_def)
  have d: "distinct (order infos tid)" by (simp add: order_def)
  have sub: "set (order infos tid) \<subseteq> set all" using w by (auto simp: s within_def)
  have "total_size infos (order infos tid) < 65535"
    using total_size_subset [OF d types_okD(1) [OF ok] sub, of infos] types_okD(7) [OF ok] by simp
  moreover have "order infos tid \<noteq> []" "hd (order infos tid) = 0" by (simp_all add: order_def)
  ultimately have "types_ok infos (order infos tid)"
    using d sub types_okD(3,4,5) [OF ok] unfolding types_ok_def by blast
  moreover have "CreateTypeID (order infos tid) = tid"
    by (rule bit_eqI) (simp add: bit_CreateTypeID s)
  ultimately show ?thesis by (simp add: valid_types_def)
qed

end
