(* ===== verification/PolyRefinement.thy ===== *)
theory PolyRefinement
  imports PolyConvert PolySpec
begin

text \<open>
  \<open>PolyFactory\<close> refines \<open>PolySpec\<close>: every operation gives the result, or the fault, of its specification.
\<close>

section \<open>Representation\<close>

definition erel :: "'v PolyTypeInfo list \<Rightarrow> 'v store \<Rightarrow> PolyEntry \<Rightarrow> 'v Entity \<Rightarrow> bool" where
  "erel infos P pe e \<longleftrightarrow>
     en_types e = pe_type_id pe \<and> en_refs e = pe_refcount pe \<and>
     (\<exists>c. P (pe_header pe) = Some (en_types e, c) \<and> live_parts (order infos (en_types e)) c (en_value e) \<and>
        c 0 = Live (HeaderItem (pe_archetype pe)))"

definition ents ::
    "'v PolyTypeInfo list \<Rightarrow> 'v store \<Rightarrow> ('k \<times> PolyEntry) list \<Rightarrow> ('k \<times> 'v Entity) list \<Rightarrow> bool" where
  "ents infos P es as \<longleftrightarrow>
     distinct (map fst es) \<and> map fst es = map fst as \<and>
     (\<forall>k pe e. map_of es k = Some pe \<longrightarrow> map_of as k = Some e \<longrightarrow> erel infos P pe e)"

definition owned :: "'v store \<Rightarrow> ('k \<times> PolyEntry) list \<Rightarrow> bool" where
  "owned P es \<longleftrightarrow>
     (\<forall>p. P p \<noteq> None \<longrightarrow> (\<exists>k pe. map_of es k = Some pe \<and> pe_header pe = p)) \<and>
     (\<forall>k1 k2 e1 e2. map_of es k1 = Some e1 \<longrightarrow> map_of es k2 = Some e2 \<longrightarrow> pe_header e1 = pe_header e2 \<longrightarrow> k1 = k2)"

definition rep_at ::
    "'v PolyTypeInfo list \<Rightarrow> nat list \<Rightarrow> 'v store \<Rightarrow> ('k, 'v, 'e) PolyFactory \<Rightarrow> ('k, 'v, 'e) EntitySpec \<Rightarrow> bool" where
  "rep_at infos all P F A \<longleftrightarrow>
     store_ok infos F P \<and> ents infos P (pf_entries F) (es_entities A) \<and> owned P (pf_entries F) \<and>
     (\<forall>k e. map_of (es_entities A) k = Some e \<longrightarrow> within all (en_types e) \<and> bit (en_types e) 0) \<and>
     (\<forall>ev tid. mset (registered (pf_callbacks F) ev tid) = mset (listening (es_listeners A) ev tid))"

definition rep :: "'v PolyTypeInfo list \<Rightarrow> nat list \<Rightarrow> ('k, 'v, 'e) PolyFactory \<Rightarrow> ('k, 'v, 'e) EntitySpec \<Rightarrow> bool" where
  "rep infos all F A \<longleftrightarrow> (\<exists>P. rep_at infos all P F A)"

definition agree :: "('a \<Rightarrow> 'b \<Rightarrow> bool) \<Rightarrow> 'a res \<Rightarrow> 'b res \<Rightarrow> bool" where
  "agree R x y \<longleftrightarrow>
     (case x of Inl e \<Rightarrow> y = Inl e | Inr a \<Rightarrow> (case y of Inl _ \<Rightarrow> False | Inr b \<Rightarrow> R a b))"

lemma agree_simps [simp]:
  "agree R (Inl e) y \<longleftrightarrow> y = Inl e"
  "agree R x (Inl e) \<longleftrightarrow> x = Inl e"
  "agree R (Inr a) (Inr b) \<longleftrightarrow> R a b"
  by (auto simp: agree_def split: sum.splits)

lemma agree_Inr: "agree R x (Inr b) \<longleftrightarrow> (\<exists>a. x = Inr a \<and> R a b)"
  by (cases x) auto

lemma agree_mono: "agree R x y \<Longrightarrow> (\<And>a b. R a b \<Longrightarrow> S a b) \<Longrightarrow> agree S x y"
  by (auto simp: agree_def split: sum.splits)

lemma agree_bind:
  "agree R x y \<Longrightarrow> (\<And>a b. R a b \<Longrightarrow> agree S (f a) (g b)) \<Longrightarrow> agree S (rbind x f) (rbind y g)"
  by (cases x; cases y) auto

lemma rep_atD:
  assumes "rep_at infos all P F A"
  shows "store_ok infos F P" "ents infos P (pf_entries F) (es_entities A)" "owned P (pf_entries F)"
    "map_of (es_entities A) k = Some e \<Longrightarrow> within all (en_types e)"
    "map_of (es_entities A) k = Some e \<Longrightarrow> bit (en_types e) 0"
    "mset (registered (pf_callbacks F) ev tid) = mset (listening (es_listeners A) ev tid)"
  using assms unfolding rep_at_def by blast+

lemma ents_none: "ents infos P es as \<Longrightarrow> map_of es k = None \<longleftrightarrow> map_of as k = None"
  by (simp add: ents_def map_of_eq_None_iff flip: set_map)

lemma ents_some:
  assumes "ents infos P es as"
  shows "map_of as k = Some e \<Longrightarrow> \<exists>pe. map_of es k = Some pe \<and> erel infos P pe e"
    "map_of es k = Some pe \<Longrightarrow> \<exists>e. map_of as k = Some e \<and> erel infos P pe e"
  using ents_none [OF assms, of k] assms unfolding ents_def by (metis not_None_eq)+

lemma ents_update:
  assumes "ents infos P es as" "erel infos P' pe e"
    and "\<And>k x y. k \<noteq> pid \<Longrightarrow> map_of es k = Some x \<Longrightarrow> erel infos P x y \<Longrightarrow> erel infos P' x y"
  shows "ents infos P' (AList.update pid pe es) (AList.update pid e as)"
  using assms by (auto simp: ents_def distinct_update update_keys map_of_update)

lemma ents_delete:
  assumes "ents infos P es as"
    and "\<And>k x y. k \<noteq> pid \<Longrightarrow> map_of es k = Some x \<Longrightarrow> erel infos P x y \<Longrightarrow> erel infos P' x y"
  shows "ents infos P' (AList.delete pid es) (AList.delete pid as)"
  using assms by (auto simp: ents_def distinct_removeAll delete_keys map_of_delete)

text \<open>Entries keep their polys when only their counts change.\<close>

definition same_headers :: "('k \<times> PolyEntry) list \<Rightarrow> ('k \<times> PolyEntry) list \<Rightarrow> bool" where
  "same_headers es es' \<longleftrightarrow>
     (\<forall>k. map_option (\<lambda>pe. (pe_type_id pe, pe_archetype pe, pe_header pe)) (map_of es' k) =
          map_option (\<lambda>pe. (pe_type_id pe, pe_archetype pe, pe_header pe)) (map_of es k))"

lemma same_headersD:
  assumes "same_headers es es'"
  shows "map_of es k = Some pe \<Longrightarrow> \<exists>pe'. map_of es' k = Some pe' \<and> pe_type_id pe' = pe_type_id pe \<and>
      pe_archetype pe' = pe_archetype pe \<and> pe_header pe' = pe_header pe"
    "map_of es' k = Some pe' \<Longrightarrow> \<exists>pe. map_of es k = Some pe \<and> pe_type_id pe' = pe_type_id pe \<and>
      pe_archetype pe' = pe_archetype pe \<and> pe_header pe' = pe_header pe"
  using assms by (cases "map_of es k"; auto simp: same_headers_def dest!: spec [of _ k])+

lemma same_headers_trans: "same_headers a b \<Longrightarrow> same_headers b c \<Longrightarrow> same_headers a c"
  by (simp add: same_headers_def)

lemma ownedD:
  assumes "owned P es"
  shows "P p = Some x \<Longrightarrow> \<exists>k pe. map_of es k = Some pe \<and> pe_header pe = p"
    "map_of es k1 = Some e1 \<Longrightarrow> map_of es k2 = Some e2 \<Longrightarrow> pe_header e1 = pe_header e2 \<Longrightarrow> k1 = k2"
  using assms unfolding owned_def by blast+

lemma owned_same:
  assumes "owned P es" "same_headers es es'"
  shows "owned P es'"
  unfolding owned_def
proof (intro conjI allI impI)
  fix p assume "P p \<noteq> None"
  then obtain k pe where k: "map_of es k = Some pe" "pe_header pe = p" using ownedD(1) [OF assms(1)] by blast
  from same_headersD(1) [OF assms(2) k(1)] k(2) show "\<exists>k pe. map_of es' k = Some pe \<and> pe_header pe = p" by auto
next
  fix k1 k2 e1 e2
  assume e: "map_of es' k1 = Some e1" "map_of es' k2 = Some e2" "pe_header e1 = pe_header e2"
  obtain f1 f2 where "map_of es k1 = Some f1" "pe_header e1 = pe_header f1"
    "map_of es k2 = Some f2" "pe_header e2 = pe_header f2"
    using same_headersD(2) [OF assms(2) e(1)] same_headersD(2) [OF assms(2) e(2)] by auto
  then show "k1 = k2" using e(3) ownedD(2) [OF assms(1)] by auto
qed

section \<open>References\<close>

text \<open>What a change of counts leaves as it is.\<close>

definition counts_only :: "('k, 'v, 'e) EntitySpec \<Rightarrow> ('k, 'v, 'e) EntitySpec \<Rightarrow> bool" where
  "counts_only A A' \<longleftrightarrow>
     es_listeners A' = es_listeners A \<and> map fst (es_entities A') = map fst (es_entities A) \<and>
     (\<forall>k. map_option (\<lambda>e. (en_types e, en_value e)) (map_of (es_entities A') k) =
          map_option (\<lambda>e. (en_types e, en_value e)) (map_of (es_entities A) k))"

lemma counts_onlyD:
  assumes "counts_only A A'"
  shows "map_of (es_entities A) k = Some e \<Longrightarrow>
      \<exists>e'. map_of (es_entities A') k = Some e' \<and> en_types e' = en_types e \<and> en_value e' = en_value e"
    "map_of (es_entities A') k = Some e' \<Longrightarrow>
      \<exists>e. map_of (es_entities A) k = Some e \<and> en_types e' = en_types e \<and> en_value e' = en_value e"
  using assms by (cases "map_of (es_entities A) k"; auto simp: counts_only_def dest!: spec [of _ k])+

lemma counts_only_trans: "counts_only A B \<Longrightarrow> counts_only B C \<Longrightarrow> counts_only A C"
  by (simp add: counts_only_def)

lemma counts_only_put:
  "map_of (es_entities A) pid = Some e \<Longrightarrow> counts_only A (sp_put pid (e\<lparr>en_refs := n\<rparr>) A)"
  by (auto simp: counts_only_def sp_put_def map_of_update update_keys dest: map_of_SomeD intro: rev_image_eqI)

text \<open>The relation while counts change: the heap is left alone.\<close>

definition counted ::
    "'v PolyTypeInfo list \<Rightarrow> 'v store \<Rightarrow> ('k, 'v, 'e) PolyFactory \<Rightarrow> ('k, 'v, 'e) EntitySpec \<Rightarrow>
     ('k, 'v, 'e) PolyFactory \<Rightarrow> ('k, 'v, 'e) EntitySpec \<Rightarrow> bool" where
  "counted infos P F A F' A' \<longleftrightarrow>
     (\<exists>es. F' = F\<lparr>pf_entries := es\<rparr> \<and> ents infos P es (es_entities A') \<and> same_headers (pf_entries F) es) \<and>
     counts_only A A'"

lemma counted_refl: "ents infos P (pf_entries F) (es_entities A) \<Longrightarrow> counted infos P F A F A"
  by (auto simp: counted_def same_headers_def counts_only_def intro!: exI [of _ "pf_entries F"])

lemma counted_trans:
  assumes "counted infos P F A F1 A1" "counted infos P F1 A1 F2 A2"
  shows "counted infos P F A F2 A2"
proof -
  obtain e1 e2 where "F1 = F\<lparr>pf_entries := e1\<rparr>" "same_headers (pf_entries F) e1" "F2 = F\<lparr>pf_entries := e2\<rparr>"
    "same_headers e1 e2" "ents infos P e2 (es_entities A2)"
    using assms by (auto simp: counted_def)
  then have "F2 = F\<lparr>pf_entries := e2\<rparr> \<and> ents infos P e2 (es_entities A2) \<and> same_headers (pf_entries F) e2"
    using same_headers_trans by blast
  then show ?thesis using assms counts_only_trans by (auto simp: counted_def)
qed

lemma counted_step:
  assumes "ents infos P (pf_entries F) (es_entities A)" "map_of (pf_entries F) pid = Some pe"
    "map_of (es_entities A) pid = Some e" "n = m"
  shows "counted infos P F A (F\<lparr>pf_entries := AList.update pid (pe\<lparr>pe_refcount := n\<rparr>) (pf_entries F)\<rparr>)
    (sp_put pid (e\<lparr>en_refs := m\<rparr>) A)"
proof -
  have "erel infos P pe e" using assms(1-3) by (auto simp: ents_def)
  then have "erel infos P (pe\<lparr>pe_refcount := n\<rparr>) (e\<lparr>en_refs := m\<rparr>)" using assms(4) by (auto simp: erel_def)
  then have "ents infos P (AList.update pid (pe\<lparr>pe_refcount := n\<rparr>) (pf_entries F))
    (AList.update pid (e\<lparr>en_refs := m\<rparr>) (es_entities A))"
    by (rule ents_update [OF assms(1)])
  moreover have "same_headers (pf_entries F) (AList.update pid (pe\<lparr>pe_refcount := n\<rparr>) (pf_entries F))"
    using assms(2) by (simp add: same_headers_def map_of_update)
  ultimately show ?thesis using counts_only_put [OF assms(3)] by (auto simp: counted_def sp_put_def)
qed

lemma add_ref_sim:
  assumes "ents infos P (pf_entries F) (es_entities A)"
  shows "agree (counted infos P F A) (add_ref pid F) (sp_add_ref pid A)"
proof (cases "map_of (es_entities A) pid")
  case None
  then show ?thesis using ents_none [OF assms, of pid] by (simp add: add_ref_def sp_add_ref_def)
next
  case (Some e)
  then obtain pe where pe: "map_of (pf_entries F) pid = Some pe" "erel infos P pe e"
    using ents_some(1) [OF assms] by blast
  then have "pe_refcount pe + 1 = en_refs e + 1" by (simp add: erel_def)
  from counted_step [OF assms pe(1) Some this] show ?thesis by (simp add: add_ref_def sp_add_ref_def Some pe(1))
qed

lemma drop_ref_sim:
  assumes "ents infos P (pf_entries F) (es_entities A)"
  shows "agree (counted infos P F A) (drop_ref pid F) (sp_drop_ref pid A)"
proof (cases "map_of (es_entities A) pid")
  case None
  then show ?thesis using ents_none [OF assms, of pid] by (simp add: drop_ref_def sp_drop_ref_def)
next
  case (Some e)
  then obtain pe where pe: "map_of (pf_entries F) pid = Some pe" "erel infos P pe e"
    using ents_some(1) [OF assms] by blast
  then have "decrement (pe_refcount pe) = decrement (en_refs e)" by (simp add: erel_def)
  from counted_step [OF assms pe(1) Some this] show ?thesis by (simp add: drop_ref_def sp_drop_ref_def Some pe(1))
qed

lemma drop_refs_sim:
  assumes "ents infos P (pf_entries F) (es_entities A)"
  shows "agree (counted infos P F A) (rfold drop_ref pids F) (sp_release pids A)"
  using assms
proof (induction pids arbitrary: F A)
  case Nil
  then show ?case by (simp add: sp_release_def counted_refl)
next
  case (Cons pid pids)
  have "agree (counted infos P F A) (rfold drop_ref pids F1) (sp_release pids A1)"
    if c: "counted infos P F A F1 A1" for F1 A1
  proof -
    have "ents infos P (pf_entries F1) (es_entities A1)" using c by (auto simp: counted_def)
    from Cons.IH [OF this] show ?thesis
      by (cases "rfold drop_ref pids F1"; cases "sp_release pids A1") (auto intro: counted_trans [OF c])
  qed
  from agree_bind [OF drop_ref_sim [OF Cons.prems] this] show ?case by (simp add: sp_release_def)
qed

lemma store_entries: "store_ok infos (F\<lparr>pf_entries := es\<rparr>) P = store_ok infos F P"
  by (simp add: store_ok_def poly_ok_def)

lemma counted_rep:
  assumes "rep_at infos all P F A" "counted infos P F A F' A'"
  shows "rep_at infos all P F' A'"
proof -
  note R = rep_atD [OF assms(1)]
  obtain es where es: "F' = F\<lparr>pf_entries := es\<rparr>" "ents infos P es (es_entities A')" "same_headers (pf_entries F) es"
    and c: "counts_only A A'"
    using assms(2) by (auto simp: counted_def)
  have "within all (en_types e') \<and> bit (en_types e') 0" if "map_of (es_entities A') k = Some e'" for k e'
    using counts_onlyD(2) [OF c that] R(4,5) by auto
  moreover have "es_listeners A' = es_listeners A" using c by (simp add: counts_only_def)
  ultimately show ?thesis
    using R(1,6) es(2) owned_same [OF R(3) es(3)] by (simp add: rep_at_def es(1) store_entries)
qed

lemma rep_counted:
  assumes "rep_at infos all P F A" "agree (counted infos P F A) x y"
  shows "agree (rep infos all) x y"
  using assms counted_rep by (cases x; cases y) (fastforce simp: rep_def)+

section \<open>Replacing one poly\<close>

lemma put_rel:
  assumes E: "ents infos P es (es_entities A)" and O: "owned P es" and new: "erel infos P' pe e"
    and others: "\<And>k x. k \<noteq> pid \<Longrightarrow> map_of es k = Some x \<Longrightarrow>
      P' (pe_header x) = P (pe_header x) \<and> pe_header x \<noteq> pe_header pe"
    and cover: "\<And>q y. P' q = Some y \<Longrightarrow> q \<noteq> pe_header pe \<Longrightarrow>
      \<exists>k x. k \<noteq> pid \<and> map_of es k = Some x \<and> pe_header x = q"
  shows "ents infos P' (AList.update pid pe es) (es_entities (sp_put pid e A))" "owned P' (AList.update pid pe es)"
proof -
  have "erel infos P' x y" if "k \<noteq> pid" "map_of es k = Some x" "erel infos P x y" for k x y
    using others [OF that(1,2)] that(3) by (auto simp: erel_def)
  then show "ents infos P' (AList.update pid pe es) (es_entities (sp_put pid e A))"
    using ents_update [OF E new] by (simp add: sp_put_def)
  show "owned P' (AList.update pid pe es)"
    unfolding owned_def
  proof (intro conjI allI impI)
    fix q assume "P' q \<noteq> None"
    then show "\<exists>k x. map_of (AList.update pid pe es) k = Some x \<and> pe_header x = q"
    proof (cases "q = pe_header pe")
      case True
      then show ?thesis by (intro exI [of _ pid]) (simp add: map_of_update)
    next
      case False
      then obtain k x where "k \<noteq> pid" "map_of es k = Some x" "pe_header x = q" using cover \<open>P' q \<noteq> None\<close> by blast
      then show ?thesis by (intro exI [of _ k]) (simp add: map_of_update)
    qed
  next
    fix k1 k2 e1 e2
    assume e: "map_of (AList.update pid pe es) k1 = Some e1" "map_of (AList.update pid pe es) k2 = Some e2"
      "pe_header e1 = pe_header e2"
    show "k1 = k2"
    proof (cases "k1 = pid \<or> k2 = pid")
      case True
      then show ?thesis using e others [of k1 e1] others [of k2 e2] by (auto simp: map_of_update split: if_splits)
    next
      case False
      then show ?thesis using e ownedD(2) [OF O, of k1 e1 k2 e2] by (simp add: map_of_update)
    qed
  qed
qed

lemma put_rep:
  assumes R: "rep_at infos all P F A" and S: "store_ok infos F' P'"
    and c: "counts_only A A'" and cb: "pf_callbacks F' = pf_callbacks F"
    and es: "ents infos P es (es_entities A')" "owned P es" "pf_entries F' = AList.update pid pe es"
    and e: "erel infos P' pe e" and t: "within all (en_types e)" "bit (en_types e) 0"
    and others: "\<And>k x. k \<noteq> pid \<Longrightarrow> map_of es k = Some x \<Longrightarrow>
      P' (pe_header x) = P (pe_header x) \<and> pe_header x \<noteq> pe_header pe"
    and cover: "\<And>q y. P' q = Some y \<Longrightarrow> q \<noteq> pe_header pe \<Longrightarrow>
      \<exists>k x. k \<noteq> pid \<and> map_of es k = Some x \<and> pe_header x = q"
  shows "rep_at infos all P' F' (sp_put pid e A')"
proof -
  note D = rep_atD [OF R]
  have EO: "ents infos P' (pf_entries F') (es_entities (sp_put pid e A'))" "owned P' (pf_entries F')"
    unfolding es(3) by (rule put_rel [OF es(1,2) e], fact others, fact cover)+
  have "within all (en_types y) \<and> bit (en_types y) 0" if "map_of (es_entities (sp_put pid e A')) k = Some y" for k y
  proof (cases "k = pid")
    case False
    then have "map_of (es_entities A') k = Some y" using that by (simp add: sp_put_def map_of_update)
    then show ?thesis using counts_onlyD(2) [OF c] D(4,5) by fastforce
  qed (use that t in \<open>simp add: sp_put_def map_of_update\<close>)
  moreover have "es_listeners (sp_put pid e A') = es_listeners A" using c by (simp add: counts_only_def sp_put_def)
  ultimately show ?thesis using S EO D(6) by (simp add: rep_at_def cb)
qed

lemma counts_only_refl: "counts_only A A"
  by (simp add: counts_only_def)

lemma CreateTypeID_header [simp]: "CreateTypeID [0] = 1"
  by (rule bit_eqI) (auto simp: bit_CreateTypeID bit_1_iff simp del: One_nat_def)

lemma update_twice [simp]: "AList.update k v (AList.update k w al) = AList.update k v al"
  by (induction al) auto

lemma sp_put_twice [simp]: "sp_put k v (sp_put k w A) = sp_put k v A"
  by (simp add: sp_put_def)

section \<open>GetPoly\<close>

lemma bit_header: "bit (types OR 1 :: nat) 0"
  by (simp add: bit_or_iff bit_1_iff del: One_nat_def bit_0)

lemma fresh_header: "fresh_cells a 0 = Live (HeaderItem b) \<Longrightarrow> a = b"
  by (simp add: fresh_cells_def)

lemma live_built: "live_parts ord (built_cells infos ord c) (default_of infos)"
  by (simp add: live_parts_def built_cells_def)

lemma GetPoly_new_sim:
  assumes ok: "types_ok infos all" and w: "within all types" and R: "rep_at infos all P F A"
    and none: "map_of (es_entities A) pid = None"
  shows "agree (rep infos all) (GetPoly infos pid types F) (Inr (sp_get infos pid types A))"
proof -
  let ?tid = "types OR 1"
  note D = rep_atD [OF R]
  have t: "within all ?tid" "bit ?tid 0" using w within_one [OF ok] bit_header by (simp_all add: within_or)
  have v: "valid_types infos ?tid" by (rule within_valid [OF ok t])
  have none': "map_of (pf_entries F) pid = None" using ents_none [OF D(2)] none by simp
  obtain p F1 a where alloc: "FAllocatePoly infos ?tid F = Inr (p, F1)" "P p = None" "same_entries F F1"
    "store_ok infos F1 (P(p := Some (?tid, fresh_cells a)))" (is "store_ok infos F1 ?P1")
    using FAllocatePoly_ok [OF D(1) v] by blast
  have P1: "?P1 p = Some (?tid, fresh_cells a)" by simp
  obtain ae where ae: "map_of (pf_archetypes F1) ?tid = Some ae" "p \<in> set (pt_created (ae_type ae))"
    "laid_out infos (order infos ?tid) (ae_type ae)" "a = pt_address (ae_type ae)"
    using archetype_of_poly [OF alloc(4) P1] by (metis fresh_header)
  have "pt_id (ae_type ae) = ?tid" using ae(3) v by (simp add: laid_out_def valid_types_def)
  have hb: "holds_block infos (order infos ?tid) (pf_heap F1) p (fresh_cells a)"
    using store_okD(5) [OF alloc(4) P1] by (simp add: poly_ok_def)
  let ?c = "built_cells infos (order infos ?tid) (fresh_cells a)"
  let ?h = "set_cells infos (order infos ?tid) p ?c (pf_heap F1)"
  let ?pe = "\<lparr>pe_type_id = ?tid, pe_archetype = pt_address (ae_type ae), pe_header = p, pe_refcount = 0\<rparr>"
  let ?e = "\<lparr>en_types = ?tid, en_value = default_of infos, en_refs = 0\<rparr>"
  let ?F2 = "F1\<lparr>pf_heap := ?h, pf_entries := AList.update pid ?pe (pf_entries F1)\<rparr>"
  have run: "GetPoly infos pid types F = add_ref pid ?F2"
    using none' alloc(1) header_archetype_ok [OF alloc(4) P1 ae(1)] \<open>pt_id (ae_type ae) = ?tid\<close>
      ConstructPoly_ok [OF valid_ok [OF v] ae(3,2) hb]
    by (simp add: GetPoly_def Let_def)
  have same: "pf_entries F1 = pf_entries F" "pf_callbacks F1 = pf_callbacks F"
    using alloc(3) by (simp_all add: same_entries_def)
  let ?P2 = "P(p := Some (?tid, ?c))"
  have "?c 0 = fresh_cells a 0" by (simp add: built_cells_def)
  from store_set_cells [OF alloc(4) P1, of ?c, OF this] have S: "store_ok infos ?F2 ?P2"
    using store_entries [where F = "F1\<lparr>pf_heap := ?h\<rparr>"] by (simp only: fun_upd_upd)
  have "?c 0 = Live (HeaderItem (pt_address (ae_type ae)))" using ae(4) by (simp add: built_cells_def fresh_cells_def)
  then have e: "erel infos ?P2 ?pe ?e" using live_built by (auto simp: erel_def)
  have old: "P (pe_header x) \<noteq> None" if "map_of (pf_entries F) k = Some x" for k x
    using ents_some(2) [OF D(2) that] by (auto simp: erel_def)
  have others: "?P2 (pe_header x) = P (pe_header x) \<and> pe_header x \<noteq> pe_header ?pe"
    if "k \<noteq> pid" "map_of (pf_entries F) k = Some x" for k x
    using old [OF that(2)] alloc(2) by auto
  have cover: "\<exists>k x. k \<noteq> pid \<and> map_of (pf_entries F) k = Some x \<and> pe_header x = q"
    if q: "?P2 q = Some y" "q \<noteq> pe_header ?pe" for q y
  proof -
    have "P q = Some y" using q by simp
    then obtain k x where k: "map_of (pf_entries F) k = Some x" "pe_header x = q"
      using ownedD(1) [OF D(3)] by blast
    then have "k \<noteq> pid" using none' by auto
    with k show ?thesis by blast
  qed
  have R2: "rep_at infos all ?P2 ?F2 (sp_put pid ?e A)"
    by (rule put_rep [OF R S counts_only_refl _ D(2,3) _ e]; (fact others | fact cover | use t same in simp))
  from rep_counted [OF R2 add_ref_sim [OF rep_atD(2) [OF R2]], of pid] none show ?thesis
    unfolding run by (simp add: sp_get_def sp_add_ref_def sp_put_def map_of_update)
qed

lemma GetPoly_sim:
  assumes ok: "types_ok infos all" and w: "within all types" and R: "rep_at infos all P F A"
  shows "agree (rep infos all) (GetPoly infos pid types F) (Inr (sp_get infos pid types A))"
proof (cases "map_of (es_entities A) pid")
  case None
  then show ?thesis by (rule GetPoly_new_sim [OF assms])
next
  case (Some e)
  then obtain pe where "map_of (pf_entries F) pid = Some pe" using ents_some(1) [OF rep_atD(2) [OF R]] by blast
  then show ?thesis
    using rep_counted [OF R add_ref_sim [OF rep_atD(2) [OF R]], of pid] Some
    by (simp add: GetPoly_def sp_get_def sp_add_ref_def)
qed

section \<open>SetTypes and AddTypes\<close>

lemma store_setting:
  "store_ok infos F P \<Longrightarrow> P p = Some (tid, c) \<Longrightarrow> d 0 = c 0 \<Longrightarrow>
   F' = F\<lparr>pf_heap := set_cells infos (order infos tid) p d (pf_heap F)\<rparr> \<Longrightarrow> store_ok infos F' (P(p := Some (tid, d)))"
  using store_set_cells by blast

lemma update_same: "map_of al k = Some v \<Longrightarrow> AList.update k v al = al"
  by (induction al) (auto split: if_splits)

lemma removed_order:
  assumes "valid_types infos old" "valid_types infos new"
  shows "filter (\<lambda>i. i \<in> set (order infos old) \<and> i \<notin> set (order infos new)) [1..<length infos] = removed infos old new"
  unfolding removed_def using bit_order [OF assms(1)] bit_order [OF assms(2)] by simp

lemma live_retype:
  assumes "valid_types infos (en_types e)" "live_parts ord c (\<lambda>i. if i \<in> set (order infos (en_types e)) then en_value e i else default_of infos i)"
  shows "live_parts ord c (en_value (retype infos new e))"
  using assms bit_order [OF assms(1)] by (simp add: live_parts_def retype_def)

lemma live_retype_same:
  assumes "valid_types infos (en_types e)" "live_parts (order infos (en_types e)) c (en_value e)"
  shows "live_parts (order infos (en_types e)) c (en_value (retype infos (en_types e) e))"
  using assms(2) bit_order [OF assms(1)] by (simp add: live_parts_def retype_def)

lemma rep_lookup:
  assumes R: "rep_at infos all P F A" and e: "map_of (es_entities A) pid = Some e" and ok: "types_ok infos all"
  obtains pe c ae where "map_of (pf_entries F) pid = Some pe" "erel infos P pe e"
    "P (pe_header pe) = Some (en_types e, c)" "live_parts (order infos (en_types e)) c (en_value e)"
    "c 0 = Live (HeaderItem (pe_archetype pe))" "valid_types infos (en_types e)"
    "map_of (pf_archetypes F) (en_types e) = Some ae" "pe_archetype pe = pt_address (ae_type ae)"
    "pe_type_id pe = en_types e" "pe_refcount pe = en_refs e"
proof -
  note D = rep_atD [OF R]
  obtain pe where pe: "map_of (pf_entries F) pid = Some pe" "erel infos P pe e"
    using ents_some(1) [OF D(2) e] by blast
  from pe(2) have r: "pe_type_id pe = en_types e" "pe_refcount pe = en_refs e" by (simp_all add: erel_def)
  from pe(2) obtain c where c: "P (pe_header pe) = Some (en_types e, c)"
    "live_parts (order infos (en_types e)) c (en_value e)" "c 0 = Live (HeaderItem (pe_archetype pe))"
    unfolding erel_def by blast
  obtain ae where "map_of (pf_archetypes F) (en_types e) = Some ae" "c 0 = Live (HeaderItem (pt_address (ae_type ae)))"
    by (rule archetype_of_poly [OF D(1) c(1)])
  moreover from this(2) c(3) have "pe_archetype pe = pt_address (ae_type ae)" by simp
  ultimately show thesis using that pe r c within_valid [OF ok D(4,5) [OF e]] by blast
qed

lemma change_same_sim:
  assumes ok: "types_ok infos all" and R: "rep_at infos all P F A" and e: "map_of (es_entities A) pid = Some e"
    and same: "f (en_types e) = en_types e"
  shows "agree (rep infos all) (change_types infos releases pid f F) (sp_change infos releases pid f A)"
proof -
  note D = rep_atD [OF R]
  obtain pe c ae where L: "map_of (pf_entries F) pid = Some pe" "erel infos P pe e"
    "P (pe_header pe) = Some (en_types e, c)" "live_parts (order infos (en_types e)) c (en_value e)"
    "c 0 = Live (HeaderItem (pe_archetype pe))" "valid_types infos (en_types e)"
    "map_of (pf_archetypes F) (en_types e) = Some ae" "pe_archetype pe = pt_address (ae_type ae)"
    "pe_type_id pe = en_types e" "pe_refcount pe = en_refs e"
    by (rule rep_lookup [OF R e ok])
  let ?e = "retype infos (en_types e) e"
  have "change_types infos releases pid f F =
    Inr (F\<lparr>pf_entries := AList.update pid (pe\<lparr>pe_type_id := en_types e, pe_archetype := pt_address (ae_type ae),
      pe_header := pe_header pe\<rparr>) (pf_entries F)\<rparr>)"
    using L(1,9) same header_archetype_ok [OF D(1) L(3,7)] by (simp add: change_types_def UpdatePolyType_def)
  moreover have "pe\<lparr>pe_type_id := en_types e, pe_archetype := pt_address (ae_type ae), pe_header := pe_header pe\<rparr> = pe"
    using L(8,9) by simp
  ultimately have run: "change_types infos releases pid f F = Inr F" using update_same [OF L(1)] by simp
  have "removed infos (en_types e) (en_types e) = []" by (simp add: removed_def)
  then have spec: "sp_change infos releases pid f A = Inr (sp_put pid ?e A)"
    using e same by (simp add: sp_change_def sp_release_def)
  have e': "erel infos P pe ?e"
    using L(3,5,9,10) live_retype_same [OF L(6,4)] by (auto simp: erel_def retype_def)
  have others: "P (pe_header x) = P (pe_header x) \<and> pe_header x \<noteq> pe_header pe"
    if "k \<noteq> pid" "map_of (pf_entries F) k = Some x" for k x
    using ownedD(2) [OF D(3) that(2) L(1)] that(1) by auto
  have cover: "\<exists>k x. k \<noteq> pid \<and> map_of (pf_entries F) k = Some x \<and> pe_header x = q"
    if "P q = Some y" "q \<noteq> pe_header pe" for q y
    using ownedD(1) [OF D(3) that(1)] that(2) L(1) by (metis option.inject)
  have "en_types ?e = en_types e" by (simp add: retype_def)
  then have "rep_at infos all P F (sp_put pid ?e A)"
    using D(4,5) [OF e] update_same [OF L(1)]
    by (intro put_rep [OF R D(1) counts_only_refl refl D(2,3) _ e' _ _ others cover]) simp_all
  then show ?thesis using run spec by (auto simp: rep_def)
qed

text \<open>What \<open>UpdatePolyType\<close> has done when it comes to releasing what the destroyed components held.\<close>

lemma update_start:
  assumes ok: "types_ok infos all" and R: "rep_at infos all P F A" and e: "map_of (es_entities A) pid = Some e"
    and new: "N \<noteq> en_types e" "within all N" "bit N 0" and pe: "map_of (pf_entries F) pid = Some pe"
  shows "\<exists>p F2 cT cN. P p = None \<and> same_entries F F2 \<and>
    UpdatePolyType infos releases (pe_header pe) (pe_type_id pe) N F =
      rbind (release_all releases (map (en_value e) (removed infos (en_types e) N)) F2) (\<lambda>F3.
      rbind (FDeallocatePoly (en_types e) (pe_header pe) F3) (\<lambda>F4. Inr (p, F4))) \<and>
    store_ok infos F2 (P(p := Some (N, cN), pe_header pe := Some (en_types e, cT))) \<and>
    live_parts (order infos N) cN (en_value (retype infos N e))"
proof -
  note D = rep_atD [OF R]
  obtain c ae0 where L: "P (pe_header pe) = Some (en_types e, c)" "live_parts (order infos (en_types e)) c (en_value e)"
    "valid_types infos (en_types e)" "pe_type_id pe = en_types e"
    using rep_lookup [OF R e ok] pe by (metis option.inject)
  let ?q = "pe_header pe" and ?T = "en_types e" and ?oT = "order infos (en_types e)" and ?oN = "order infos N"
  have vN: "valid_types infos N" by (rule within_valid [OF ok new(2,3)])
  obtain p F1 a where alloc: "FAllocatePoly infos N F = Inr (p, F1)" "P p = None" "same_entries F F1"
    "store_ok infos F1 (P(p := Some (N, fresh_cells a)))" (is "store_ok infos F1 ?P1")
    using FAllocatePoly_ok [OF D(1) vN] by blast
  have qp: "?q \<noteq> p" using L(1) alloc(2) by auto
  have Pq: "?P1 ?q = Some (?T, c)" and Pp: "?P1 p = Some (N, fresh_cells a)" using L(1) qp by simp_all
  obtain aT where aT: "map_of (pf_archetypes F1) ?T = Some aT" "laid_out infos ?oT (ae_type aT)"
    by (rule archetype_of_poly [OF alloc(4) Pq])
  obtain aN where aN: "map_of (pf_archetypes F1) N = Some aN" "laid_out infos ?oN (ae_type aN)"
    by (rule archetype_of_poly [OF alloc(4) Pp])
  have ne: "pt_address (ae_type aT) \<noteq> pt_address (ae_type aN)"
    using store_okD(4) [OF alloc(4) aT(1) aN(1)] new(1) by auto
  have C: "converting infos ?oT ?oN (ae_type aT) (ae_type aN) ?q p c (en_value e)"
    using aT(2) aN(2) L(2) qp valid_ok [OF L(3)] valid_ok [OF vN] by (simp add: converting_def)
  have hold: "holds_block infos ?oT (pf_heap F1) ?q c" "holds_block infos ?oN (pf_heap F1) p (fresh_cells a)"
    using store_okD(5) [OF alloc(4) Pq] store_okD(5) [OF alloc(4) Pp] by (simp_all add: poly_ok_def)
  let ?cT = "emptied ?oT ?oN c (length infos)" and ?cN = "filled infos ?oT ?oN (en_value e) (fresh_cells a) (length infos)"
  let ?h = "both_cells infos ?oT ?oN ?q p c (fresh_cells a) (en_value e) (length infos) (pf_heap F1)"
  let ?F2 = "F1\<lparr>pf_heap := ?h\<rparr>"
  have run: "UpdatePolyType infos releases ?q (pe_type_id pe) N F =
      rbind (release_all releases (map (en_value e) (removed infos ?T N)) ?F2) (\<lambda>F3.
      rbind (FDeallocatePoly ?T ?q F3) (\<lambda>F4. Inr (p, F4)))"
    using L(4) new(1) alloc(1) header_archetype_ok [OF alloc(4) Pq aT(1)] header_archetype_ok [OF alloc(4) Pp aN(1)]
      ne convert_all [OF C hold] removed_order [OF L(3) vN]
    by (simp add: UpdatePolyType_def)
  have "store_ok infos (F1\<lparr>pf_heap := set_cells infos ?oN p ?cN (pf_heap F1)\<rparr>) (?P1(p := Some (N, ?cN)))"
    by (rule store_set_cells [OF alloc(4) Pp]) (simp add: kept_headers)
  then have S1: "store_ok infos (F1\<lparr>pf_heap := set_cells infos ?oN p ?cN (pf_heap F1)\<rparr>) (P(p := Some (N, ?cN)))"
    by (simp only: fun_upd_upd)
  have "(P(p := Some (N, ?cN))) ?q = Some (?T, c)" using L(1) qp by simp
  then have "store_ok infos ?F2 (P(p := Some (N, ?cN), ?q := Some (?T, ?cT)))"
    by (rule store_setting [OF S1]) (simp_all add: both_cells_def kept_headers)
  moreover have "live_parts ?oN ?cN (en_value (retype infos N e))"
    by (rule live_retype [OF L(3) filled_all [OF valid_ok [OF vN]]])
  moreover have "same_entries F ?F2" using alloc(3) by (simp add: same_entries_def)
  ultimately show ?thesis using alloc(2) run by blast
qed

lemma change_new_sim:
  assumes ok: "types_ok infos all" and R: "rep_at infos all P F A" and e: "map_of (es_entities A) pid = Some e"
    and new: "f (en_types e) \<noteq> en_types e" "within all (f (en_types e))" "bit (f (en_types e)) 0"
  shows "agree (rep infos all) (change_types infos releases pid f F) (sp_change infos releases pid f A)"
proof -
  let ?N = "f (en_types e)" and ?T = "en_types e"
  note D = rep_atD [OF R]
  obtain pe where pe: "map_of (pf_entries F) pid = Some pe" "pe_type_id pe = ?T" "pe_refcount pe = en_refs e"
    using ents_some(1) [OF D(2) e] by (auto simp: erel_def)
  obtain c where Pq: "P (pe_header pe) = Some (?T, c)"
    using ents_some(1) [OF D(2) e] pe(1) by (auto simp: erel_def)
  let ?q = "pe_header pe" and ?vs = "map (en_value e) (removed infos ?T ?N)"
  obtain p F2 cT cN where U: "P p = None" "same_entries F F2"
    "UpdatePolyType infos releases ?q (pe_type_id pe) ?N F =
      rbind (release_all releases ?vs F2) (\<lambda>F3. rbind (FDeallocatePoly ?T ?q F3) (\<lambda>F4. Inr (p, F4)))"
    "store_ok infos F2 (P(p := Some (?N, cN), ?q := Some (?T, cT)))"
    "live_parts (order infos ?N) cN (en_value (retype infos ?N e))"
    using update_start [OF ok R e new pe(1)] by blast
  let ?P2 = "P(p := Some (?N, cN), ?q := Some (?T, cT))" and ?P3 = "P(p := Some (?N, cN), ?q := None)"
  have ents2: "ents infos P (pf_entries F2) (es_entities A)" using D(2) U(2) by (simp add: same_entries_def)
  have qp: "?q \<noteq> p" using Pq U(1) by auto
  let ?k = "\<lambda>F3. rbind (FDeallocatePoly ?T ?q F3) (\<lambda>F4. rbind (header_archetype p F4) (\<lambda>(a, _).
      case map_of (pf_entries F4) pid of
        None \<Rightarrow> Inl Dangling
      | Some e' \<Rightarrow> Inr (F4\<lparr>pf_entries := AList.update pid
          (e'\<lparr>pe_type_id := ?N, pe_archetype := a, pe_header := p\<rparr>) (pf_entries F4)\<rparr>)))"
  have run: "change_types infos releases pid f F = rbind (release_all releases ?vs F2) ?k"
    using U(3) pe(1,2) by (simp add: change_types_def Let_def rbind_assoc)
  have spec: "sp_change infos releases pid f A = rbind (sp_release (concat (map releases ?vs)) A) (\<lambda>A'.
      case map_of (es_entities A') pid of None \<Rightarrow> Inl Dangling | Some e' \<Rightarrow> Inr (sp_put pid (retype infos ?N e') A'))"
    using e by (simp add: sp_change_def Let_def comp_def)
  have rest: "agree (rep infos all) (?k F3) (case map_of (es_entities A') pid of
      None \<Rightarrow> Inl Dangling | Some e' \<Rightarrow> Inr (sp_put pid (retype infos ?N e') A'))"
    if C: "counted infos P F2 A F3 A'" for F3 A'
  proof -
    obtain es where es: "F3 = F2\<lparr>pf_entries := es\<rparr>" "ents infos P es (es_entities A')"
      "same_headers (pf_entries F) es" and co: "counts_only A A'"
      using C U(2) by (auto simp: counted_def same_entries_def)
    obtain e' where e': "map_of (es_entities A') pid = Some e'" "en_types e' = ?T" "en_value e' = en_value e"
      using counts_onlyD(1) [OF co e] by blast
    obtain pe' where pe': "map_of es pid = Some pe'" "pe_header pe' = ?q" "erel infos P pe' e'"
      using ents_some(1) [OF es(2) e'(1)] same_headersD(2) [OF es(3)] pe(1) by fastforce
    have S3: "store_ok infos F3 ?P2" using U(4) es(1) by (simp add: store_entries)
    obtain F4 where F4: "FDeallocatePoly ?T ?q F3 = Inr F4" "same_entries F3 F4" "store_ok infos F4 ?P3"
      using FDeallocatePoly_ok [OF S3, of ?q ?T cT] by auto
    have Pp: "?P3 p = Some (?N, cN)" using qp by simp
    obtain ae where ae: "map_of (pf_archetypes F4) ?N = Some ae" "cN 0 = Live (HeaderItem (pt_address (ae_type ae)))"
      by (rule archetype_of_poly [OF F4(3) Pp])
    let ?pe = "pe'\<lparr>pe_type_id := ?N, pe_archetype := pt_address (ae_type ae), pe_header := p\<rparr>"
    let ?F5 = "F4\<lparr>pf_entries := AList.update pid ?pe es\<rparr>" and ?e = "retype infos ?N e'"
    have ent4: "pf_entries F4 = es" "pf_callbacks F4 = pf_callbacks F"
      using F4(2) es(1) U(2) by (simp_all add: same_entries_def)
    have res: "?k F3 = Inr ?F5"
      using F4(1) header_archetype_ok [OF F4(3) Pp ae(1)] pe'(1) by (simp add: ent4)
    have "en_value ?e = en_value (retype infos ?N e)" "en_types ?e = ?N" "en_refs ?e = pe_refcount pe'"
      using e' pe'(3) by (auto simp: retype_def erel_def)
    then have er: "erel infos ?P3 ?pe ?e" using Pp ae(2) U(5) by (simp add: erel_def)
    have O: "owned P es" by (rule owned_same [OF D(3) es(3)])
    have others: "?P3 (pe_header x) = P (pe_header x) \<and> pe_header x \<noteq> pe_header ?pe"
      if x: "k \<noteq> pid" "map_of es k = Some x" for k x
    proof -
      have "pe_header x \<noteq> ?q" using ownedD(2) [OF O x(2) pe'(1)] x(1) pe'(2) by auto
      moreover have "pe_header x \<noteq> p" using ents_some(2) [OF es(2) x(2)] U(1) by (auto simp: erel_def)
      ultimately show ?thesis by simp
    qed
    have cover: "\<exists>k x. k \<noteq> pid \<and> map_of es k = Some x \<and> pe_header x = r" if r: "?P3 r = Some y" "r \<noteq> pe_header ?pe" for r y
    proof -
      have "r \<noteq> ?q" "P r = Some y" using r by (auto split: if_splits)
      moreover from ownedD(1) [OF O this(2)] obtain k x where k: "map_of es k = Some x" "pe_header x = r" by blast
      ultimately have "k \<noteq> pid" using pe'(1,2) by auto
      with k show ?thesis by blast
    qed
    have S5: "store_ok infos ?F5 ?P3" using F4(3) by (simp add: store_entries)
    have "rep_at infos all ?P3 ?F5 (sp_put pid ?e A')"
      by (rule put_rep [OF R S5 co _ es(2) O _ er];
        (fact others | fact cover | simp add: ent4(2) new(2,3) \<open>en_types ?e = ?N\<close>))
    then show ?thesis using res e'(1) by (auto simp: rep_def)
  qed
  show ?thesis
    unfolding run spec release_all_def
    by (rule agree_bind [OF drop_refs_sim [OF ents2] rest])
qed

lemma change_sim:
  assumes ok: "types_ok infos all" and R: "rep_at infos all P F A"
    and w: "\<And>e. map_of (es_entities A) pid = Some e \<Longrightarrow> within all (f (en_types e)) \<and> bit (f (en_types e)) 0"
  shows "agree (rep infos all) (change_types infos releases pid f F) (sp_change infos releases pid f A)"
proof (cases "map_of (es_entities A) pid")
  case None
  then show ?thesis using ents_none [OF rep_atD(2) [OF R], of pid] R
    by (auto simp: change_types_def sp_change_def rep_def)
next
  case (Some e)
  then show ?thesis
    using change_same_sim [where f = f, OF ok R Some] change_new_sim [where f = f, OF ok R Some] w [OF Some] by blast
qed

end
