(* ===== verification/PolySimulation.thy ===== *)
theory PolySimulation
  imports PolyRefinement
begin

text \<open>
  The rest of the refinement: access to components, callbacks and \<open>Cleanup\<close>; and what it gives for the callers
  of a \<open>PolyFactory\<close>.
\<close>

section \<open>Components\<close>

lemma HasTypes_iff: "HasTypes partial tid \<longleftrightarrow> (\<forall>i. bit partial i \<longrightarrow> bit tid i)"
  unfolding HasTypes_def by (auto simp: bit_eq_iff bit_and_iff)

lemma HasTypes_single: "HasTypes (CreateTypeID [i]) tid \<longleftrightarrow> bit tid i"
  by (simp add: HasTypes_iff bit_CreateTypeID)

lemma comp_offset_pos:
  assumes ok: "types_ok infos ord" and i: "i \<in> set ord"
  shows "comp_offset infos ord i = 0 \<longleftrightarrow> i = 0"
proof -
  obtain as bs where o: "ord = as @ i # bs" "comp_offset infos ord i = total_size infos as" "i \<notin> set as"
    by (rule in_order [OF i])
  have hd: "hd ord = 0" using ok by (simp add: types_ok_def)
  show ?thesis
  proof (cases as)
    case Nil
    then show ?thesis using o hd by simp
  next
    case (Cons a as')
    then have "a = 0" "0 < comp_size infos a" "i \<noteq> a" using o hd types_okD(4) [OF ok, of a] by auto
    then show ?thesis using o(2) Cons by simp
  qed
qed

lemma RefGet_sim:
  assumes ok: "types_ok infos all" and R: "rep_at infos all P F A"
  shows "agree (\<lambda>x v. x = Comp i v) (RefGet i pid F) (sp_read i pid A)"
proof (cases "map_of (es_entities A) pid")
  case None
  then show ?thesis using ents_none [OF rep_atD(2) [OF R], of pid] by (simp add: RefGet_def RefHas_def sp_read_def)
next
  case (Some e)
  note D = rep_atD [OF R]
  obtain pe c ae where L: "map_of (pf_entries F) pid = Some pe" "P (pe_header pe) = Some (en_types e, c)"
    "live_parts (order infos (en_types e)) c (en_value e)" "valid_types infos (en_types e)"
    "map_of (pf_archetypes F) (en_types e) = Some ae" "pe_archetype pe = pt_address (ae_type ae)"
    "pe_type_id pe = en_types e"
    by (rule rep_lookup [OF R Some ok])
  obtain ae' where "map_of (pf_archetypes F) (en_types e) = Some ae'" "pe_header pe \<in> set (pt_created (ae_type ae'))"
    "laid_out infos (order infos (en_types e)) (ae_type ae')"
    by (rule archetype_of_poly [OF D(1) L(2)])
  with L(5) have t: "pe_header pe \<in> set (pt_created (ae_type ae))"
    "laid_out infos (order infos (en_types e)) (ae_type ae)" by simp_all
  show ?thesis
  proof (cases "bit (en_types e) i")
    case False
    then show ?thesis using L(1,7) Some by (simp add: RefGet_def RefHas_def sp_read_def HasTypes_single)
  next
    case True
    then have i: "i \<in> set (order infos (en_types e))" using bit_order [OF L(4)] by simp
    note off = laid_out_offset(1) [OF valid_ok [OF L(4)] t(2) i] comp_offset_pos [OF valid_ok [OF L(4)] i]
    have "holds_block infos (order infos (en_types e)) (pf_heap F) (pe_header pe) c"
      using store_okD(5) [OF D(1) L(2)] by (simp add: poly_ok_def)
    from load_cell [OF valid_ok [OF L(4)] i this] have
      "i \<noteq> 0 \<Longrightarrow> load_item (pe_header pe) (OffsetOf i (ae_type ae)) (pf_heap F) = Inr (Comp i (en_value e i))"
      using L(3) i off(1) by (simp add: live_parts_def)
    then show ?thesis
      using L(1,6,7) True Some t(1) off archetype_at_ok [OF D(1) L(5)]
      by (auto simp: RefGet_def RefHas_def sp_read_def HasTypes_single PolyGet_def)
  qed
qed

lemma live_assign:
  "live_parts ord c v \<Longrightarrow> live_parts ord (c(i := Live (Comp i x))) (v(i := x))"
  by (simp add: live_parts_def)

lemma RefAssign_sim:
  assumes ok: "types_ok infos all" and R: "rep_at infos all P F A"
  shows "agree (rep infos all) (RefAssign infos i x pid F) (sp_assign i x pid A)"
proof (cases "sp_read i pid A")
  case (Inl err)
  then have "RefGet i pid F = Inl err" using RefGet_sim [OF ok R, of i pid] by simp
  moreover have "sp_assign i x pid A = Inl err"
    using Inl by (auto simp: sp_read_def sp_assign_def split: option.splits if_splits)
  ultimately show ?thesis by (simp add: RefAssign_def)
next
  case (Inr y)
  note D = rep_atD [OF R]
  obtain e where e: "map_of (es_entities A) pid = Some e" "i \<noteq> 0" "bit (en_types e) i"
    using Inr by (auto simp: sp_read_def split: option.splits if_splits)
  have get: "RefGet i pid F = Inr (Comp i y)" using RefGet_sim [OF ok R, of i pid] Inr by (simp add: agree_Inr)
  obtain pe c ae where L: "map_of (pf_entries F) pid = Some pe" "P (pe_header pe) = Some (en_types e, c)"
    "live_parts (order infos (en_types e)) c (en_value e)" "c 0 = Live (HeaderItem (pe_archetype pe))"
    "valid_types infos (en_types e)" "map_of (pf_archetypes F) (en_types e) = Some ae"
    "pe_archetype pe = pt_address (ae_type ae)" "pe_type_id pe = en_types e" "pe_refcount pe = en_refs e"
    by (rule rep_lookup [OF R e(1) ok])
  let ?o = "order infos (en_types e)" and ?q = "pe_header pe"
  have "laid_out infos ?o (ae_type ae)" using archetype_of_poly [OF D(1) L(2)] L(6) by (metis option.inject)
  moreover have i: "i \<in> set ?o" using bit_order [OF L(5)] e(3) by simp
  ultimately have off: "OffsetOf i (ae_type ae) = comp_offset infos ?o i"
    using laid_out_offset(1) [OF valid_ok [OF L(5)]] by blast
  have hb: "holds_block infos ?o (pf_heap F) ?q c" using store_okD(5) [OF D(1) L(2)] by (simp add: poly_ok_def)
  let ?c = "c(i := Live (Comp i x))" and ?e = "e\<lparr>en_value := (en_value e)(i := x)\<rparr>"
  let ?F = "F\<lparr>pf_heap := set_cells infos ?o ?q ?c (pf_heap F)\<rparr>" and ?P = "P(?q := Some (en_types e, ?c))"
  have run: "RefAssign infos i x pid F = Inr ?F"
    using get L(1,7) archetype_at_ok [OF D(1) L(6)] store_cell [OF valid_ok [OF L(5)] i hb, of "Comp i x"]
    by (simp add: RefAssign_def off comp_size_def)
  have S: "store_ok infos ?F ?P" using store_set_cells [OF D(1) L(2)] e(2) by simp
  have er: "erel infos ?P pe ?e" using L live_assign [OF L(3)] e(2) by (auto simp: erel_def)
  have others: "?P (pe_header y) = P (pe_header y) \<and> pe_header y \<noteq> pe_header pe"
    if "k \<noteq> pid" "map_of (pf_entries F) k = Some y" for k y
    using ownedD(2) [OF D(3) that(2) L(1)] that(1) by auto
  have cover: "\<exists>k y. k \<noteq> pid \<and> map_of (pf_entries F) k = Some y \<and> pe_header y = r" if r: "?P r = Some z" "r \<noteq> pe_header pe" for r z
  proof -
    have "P r = Some z" using r by simp
    then obtain k y where "map_of (pf_entries F) k = Some y" "pe_header y = r" using ownedD(1) [OF D(3)] by blast
    moreover from this r(2) L(1) have "k \<noteq> pid" by auto
    ultimately show ?thesis by blast
  qed
  have ent: "pf_entries ?F = AList.update pid pe (pf_entries F)" using update_same [OF L(1)] by simp
  have "rep_at infos all ?P ?F (sp_put pid ?e A)"
    by (rule put_rep [OF R S counts_only_refl _ D(2,3) ent er];
        (fact others | fact cover | use D(4,5) [OF e(1)] in simp))
  then show ?thesis using run e by (auto simp: sp_assign_def rep_def)
qed

section \<open>Callbacks\<close>

lemma registered_update:
  "mset (registered (AList.update types ((case map_of cbs types of None \<Rightarrow> [] | Some es \<Rightarrow> es) @ [(event, callback)]) cbs) ev tid) =
   mset (registered cbs ev tid) + (if event = ev \<and> HasTypes types tid then {#callback#} else {#})"
  by (induction cbs) (auto simp: registered_def)

lemma map_of_map_key: "map_of (map (\<lambda>(k, x). (k, g k x)) al) k = map_option (g k) (map_of al k)"
  by (induction al) auto

lemma AddCallback_store:
  assumes S: "store_ok infos F P"
  shows "store_ok infos (AddCallback types event callback F) P" (is "store_ok infos ?F P")
proof -
  let ?g = "\<lambda>tid ae. if HasTypes types tid then Archetype_AddCallback event callback ae else ae"
  have look: "map_of (pf_archetypes ?F) tid = map_option (?g tid) (map_of (pf_archetypes F) tid)" for tid
    using map_of_map_key [of ?g "pf_archetypes F" tid] by (simp add: AddCallback_def)
  have type: "ae_type (?g tid ae) = ae_type ae" for tid ae by (simp add: Archetype_AddCallback_def)
  have heap: "pf_heap ?F = pf_heap F" by (simp add: AddCallback_def)
  have arch: "arch_ok infos (pf_callbacks ?F) P tid (?g tid ae)" if "arch_ok infos (pf_callbacks F) P tid ae" for tid ae
    using that registered_update [of types "pf_callbacks F" event callback]
    by (auto simp: arch_ok_def AddCallback_def Archetype_AddCallback_def)
  show ?thesis
    unfolding store_ok_def
  proof (intro conjI allI impI)
    have "map fst (pf_archetypes ?F) = map fst (pf_archetypes F)" by (auto simp: AddCallback_def)
    then show "distinct (map fst (pf_archetypes ?F))" using store_okD(1) [OF S] by simp
  next
    fix tid ae assume "map_of (pf_archetypes ?F) tid = Some ae"
    then obtain b where b: "map_of (pf_archetypes F) tid = Some b" "ae = ?g tid b" by (auto simp: look)
    show "arch_ok infos (pf_callbacks ?F) P tid ae" using arch [OF store_okD(2) [OF S b(1)]] b(2) by simp
    show "pt_address (ae_type ae) < ph_next (pf_heap ?F)"
      using store_okD(3) [OF S b(1)] unfolding b(2) type heap .
  next
    fix t1 a1 t2 a2
    assume a: "map_of (pf_archetypes ?F) t1 = Some a1" "map_of (pf_archetypes ?F) t2 = Some a2"
      "pt_address (ae_type a1) = pt_address (ae_type a2)"
    obtain b1 where b1: "map_of (pf_archetypes F) t1 = Some b1" "a1 = ?g t1 b1" using a(1) by (auto simp: look)
    obtain b2 where b2: "map_of (pf_archetypes F) t2 = Some b2" "a2 = ?g t2 b2" using a(2) by (auto simp: look)
    show "t1 = t2" by (rule store_okD(4) [OF S b1(1) b2(1)]) (use a(3) in \<open>simp only: b1(2) b2(2) type\<close>)
  next
    fix p tid c assume "P p = Some (tid, c)"
    from store_okD(5) [OF S this] obtain b where
      b: "map_of (pf_archetypes F) tid = Some b" "c 0 = Live (HeaderItem (pt_address (ae_type b)))"
      and h: "p < ph_next (pf_heap F)" "holds_block infos (order infos tid) (pf_heap F) p c"
      by (auto simp: poly_ok_def)
    have "map_of (pf_archetypes ?F) tid = Some (?g tid b)" by (simp add: look b(1))
    moreover have "c 0 = Live (HeaderItem (pt_address (ae_type (?g tid b))))" unfolding type by (rule b(2))
    ultimately show "poly_ok infos ?F p tid c" unfolding poly_ok_def heap using h by blast
  next
    fix p assume "P p = None"
    then show "ph_blocks (pf_heap ?F) p = None" unfolding heap by (rule store_okD(6) [OF S])
  qed
qed

lemma AddCallback_sim:
  assumes "rep_at infos all P F A"
  shows "rep infos all (AddCallback types event callback F) (sp_listen types event callback A)"
proof -
  note D = rep_atD [OF assms]
  let ?F = "AddCallback types event callback F"
  have "mset (registered (pf_callbacks ?F) ev tid) = mset (listening (es_listeners (sp_listen types event callback A)) ev tid)"
    for ev tid
    using registered_update [of types "pf_callbacks F" event callback ev tid] D(6) [of ev tid]
    by (auto simp: AddCallback_def sp_listen_def listening_def)
  then have "rep_at infos all P ?F (sp_listen types event callback A)"
    using AddCallback_store [OF D(1)] D(2-5) by (simp add: rep_at_def sp_listen_def) (simp add: AddCallback_def)
  then show ?thesis by (auto simp: rep_def)
qed

section \<open>Cleanup\<close>

lemma held_parts:
  "valid_types infos (en_types e) \<Longrightarrow>
   concat (map releases (map (en_value e) (parts infos (order infos (en_types e))))) = held infos releases e"
  by (simp add: held_def parts_order comp_def)

lemma cleanup_gone_sim:
  assumes ok: "types_ok infos all" and R: "rep_at infos all P F A"
    and e: "map_of (es_entities A) pid = Some e" "en_refs e = 0"
  shows "agree (rep infos all) (cleanup_entry infos releases pid F) (sp_cleanup_entry infos releases pid A)"
proof -
  note D = rep_atD [OF R]
  obtain pe c ae where L: "map_of (pf_entries F) pid = Some pe" "P (pe_header pe) = Some (en_types e, c)"
    "live_parts (order infos (en_types e)) c (en_value e)" "valid_types infos (en_types e)"
    "map_of (pf_archetypes F) (en_types e) = Some ae" "pe_archetype pe = pt_address (ae_type ae)"
    "pe_type_id pe = en_types e" "pe_refcount pe = en_refs e"
    by (rule rep_lookup [OF R e(1) ok])
  obtain ae' where "map_of (pf_archetypes F) (en_types e) = Some ae'" "pe_header pe \<in> set (pt_created (ae_type ae'))"
    "laid_out infos (order infos (en_types e)) (ae_type ae')"
    by (rule archetype_of_poly [OF D(1) L(2)])
  with L(5) have t: "pe_header pe \<in> set (pt_created (ae_type ae))"
    "laid_out infos (order infos (en_types e)) (ae_type ae)" by simp_all
  let ?q = "pe_header pe" and ?T = "en_types e" and ?o = "order infos (en_types e)"
  have hb: "holds_block infos ?o (pf_heap F) ?q c" using store_okD(5) [OF D(1) L(2)] by (simp add: poly_ok_def)
  have z: "0 \<notin> set (parts infos ?o)" by (simp add: parts_def)
  obtain d where d: "DestructPoly infos ?q (ae_type ae) (pf_heap F) =
      Inr (set_cells infos ?o ?q d (pf_heap F), map (en_value e) (parts infos ?o))" "d 0 = c 0"
    using DestructPoly_ok [OF valid_ok [OF L(4)] t(2,1) hb L(3)] by blast
  let ?F1 = "F\<lparr>pf_heap := set_cells infos ?o ?q d (pf_heap F)\<rparr>" and ?P1 = "P(?q := Some (?T, d))"
  let ?k = "\<lambda>F1. rbind (FDeallocatePoly ?T ?q F1) (\<lambda>F2. Inr (F2\<lparr>pf_entries := AList.delete pid (pf_entries F2)\<rparr>))"
  have run: "cleanup_entry infos releases pid F = rbind (rfold drop_ref (held infos releases e) ?F1) ?k"
    using L(1,6,7,8) e(2) archetype_at_ok [OF D(1) L(5)] d(1) held_parts [OF L(4), of releases]
    by (simp add: cleanup_entry_def release_all_def)
  have S1: "store_ok infos ?F1 ?P1" by (rule store_set_cells [where d = d, OF D(1) L(2) d(2)])
  have E1: "ents infos P (pf_entries ?F1) (es_entities A)" using D(2) by simp
  have rest: "agree (rep infos all) (?k F2) (Inr (A'\<lparr>es_entities := AList.delete pid (es_entities A')\<rparr>))"
    if C: "counted infos P ?F1 A F2 A'" for F2 A'
  proof -
    obtain es where es: "F2 = ?F1\<lparr>pf_entries := es\<rparr>" "ents infos P es (es_entities A')"
      "same_headers (pf_entries F) es" and co: "counts_only A A'"
      using C by (auto simp: counted_def)
    have "store_ok infos F2 ?P1" unfolding es(1) store_entries by (rule S1)
    moreover have "?P1 ?q = Some (?T, d)" by simp
    ultimately obtain F3 where F3: "FDeallocatePoly ?T ?q F2 = Inr F3" "same_entries F2 F3" "store_ok infos F3 (?P1(?q := None))"
      using FDeallocatePoly_ok by blast
    let ?P = "P(?q := None)" and ?F3 = "F3\<lparr>pf_entries := AList.delete pid es\<rparr>"
    let ?A = "A'\<lparr>es_entities := AList.delete pid (es_entities A')\<rparr>"
    have S: "store_ok infos ?F3 ?P" using F3(3) unfolding store_entries by (simp only: fun_upd_upd)
    obtain pe' where pe': "map_of es pid = Some pe'" "pe_header pe' = ?q"
      using same_headersD(1) [OF es(3) L(1)] by blast
    have O: "owned P es" by (rule owned_same [OF D(3) es(3)])
    have away: "pe_header x \<noteq> ?q" if "k \<noteq> pid" "map_of es k = Some x" for k x
      using ownedD(2) [OF O that(2) pe'(1)] that(1) pe'(2) by auto
    have keep: "erel infos ?P x y" if "k \<noteq> pid" "map_of es k = Some x" "erel infos P x y" for k x y
      using away [OF that(1,2)] that(3) by (auto simp: erel_def)
    have "ents infos ?P (AList.delete pid es) (es_entities ?A)"
      using ents_delete [OF es(2) keep] by simp
    moreover have "owned ?P (AList.delete pid es)"
      unfolding owned_def
    proof (intro conjI allI impI)
      fix r assume "?P r \<noteq> None"
      then obtain y where "P r = Some y" "r \<noteq> ?q" by (auto split: if_splits)
      then obtain k x where k: "map_of es k = Some x" "pe_header x = r" using ownedD(1) [OF O] by blast
      then have "k \<noteq> pid" using pe' \<open>r \<noteq> ?q\<close> by auto
      with k show "\<exists>k x. map_of (AList.delete pid es) k = Some x \<and> pe_header x = r"
        by (intro exI [of _ k]) (simp add: map_of_delete)
    next
      fix k1 k2 e1 e2
      assume "map_of (AList.delete pid es) k1 = Some e1" "map_of (AList.delete pid es) k2 = Some e2"
        "pe_header e1 = pe_header e2"
      then show "k1 = k2" using ownedD(2) [OF O, of k1 e1 k2 e2] by (auto simp: map_of_delete split: if_splits)
    qed
    moreover have "within all (en_types y) \<and> bit (en_types y) 0" if "map_of (es_entities ?A) k = Some y" for k y
    proof -
      have "map_of (es_entities A') k = Some y" using that by (simp add: map_of_delete split: if_splits)
      from counts_onlyD(2) [OF co this] show ?thesis using D(4,5) by auto
    qed
    moreover have "pf_callbacks F3 = pf_callbacks F" "pf_entries F3 = es" using F3(2) es(1) by (simp_all add: same_entries_def)
    moreover have "es_listeners ?A = es_listeners A" using co by (simp add: counts_only_def)
    ultimately have "rep_at infos all ?P ?F3 ?A" using S D(6) by (simp add: rep_at_def)
    then show ?thesis using F3(1) \<open>pf_entries F3 = es\<close> by (auto simp: rep_def)
  qed
  have "sp_cleanup_entry infos releases pid A =
    rbind (sp_release (held infos releases e) A) (\<lambda>A'. Inr (A'\<lparr>es_entities := AList.delete pid (es_entities A')\<rparr>))"
    using e by (simp add: sp_cleanup_entry_def)
  then show ?thesis
    unfolding run by (simp only:) (rule agree_bind [OF drop_refs_sim [OF E1] rest])
qed

lemma cleanup_entry_sim:
  assumes ok: "types_ok infos all" and R: "rep infos all F A"
  shows "agree (rep infos all) (cleanup_entry infos releases pid F) (sp_cleanup_entry infos releases pid A)"
proof -
  obtain P where P: "rep_at infos all P F A" using R by (auto simp: rep_def)
  note E = rep_atD(2) [OF P]
  show ?thesis
  proof (cases "map_of (es_entities A) pid")
    case None
    then show ?thesis using ents_none [OF E, of pid] by (simp add: cleanup_entry_def sp_cleanup_entry_def)
  next
    case (Some e)
    then obtain pe where "map_of (pf_entries F) pid = Some pe" "pe_refcount pe = en_refs e"
      using ents_some(1) [OF E] by (fastforce simp: erel_def)
    then show ?thesis
      using cleanup_gone_sim [OF ok P Some] R Some
      by (cases "en_refs e = 0") (simp_all add: cleanup_entry_def sp_cleanup_entry_def)
  qed
qed

lemma agree_fold:
  assumes "\<And>x a b. R a b \<Longrightarrow> agree R (f x a) (g x b)" "R a b"
  shows "agree R (rfold f xs a) (rfold g xs b)"
  using assms(2)
proof (induction xs arbitrary: a b)
  case (Cons x xs)
  show ?case unfolding rfold.simps by (rule agree_bind [OF assms(1) [OF Cons.prems] Cons.IH])
qed simp

lemma rep_keys: "rep infos all F A \<Longrightarrow> map fst (pf_entries F) = map fst (es_entities A)"
  by (auto simp: rep_def rep_at_def ents_def)

lemma Cleanup_sim:
  assumes "types_ok infos all" "rep infos all F A"
  shows "agree (rep infos all) (Cleanup infos releases F) (sp_cleanup infos releases A)"
  unfolding Cleanup_def sp_cleanup_def rep_keys [OF assms(2)]
  by (rule agree_fold [OF cleanup_entry_sim [OF assms(1)] assms(2)])

section \<open>All operations\<close>

lemma rep_new: "rep infos all new_PolyFactory sp_new"
  unfolding rep_def rep_at_def
  by (rule exI [of _ Map.empty])
    (simp add: store_new, simp add: new_PolyFactory_def sp_new_def ents_def owned_def registered_def listening_def)

lemma step_sim:
  assumes ok: "types_ok infos all" and w: "op_within all op" and R: "rep infos all F A"
  shows "agree (rep infos all) (factory_op infos releases op F) (spec_op infos releases op A)"
proof -
  obtain P where P: "rep_at infos all P F A" using R by (auto simp: rep_def)
  note E = rep_atD(2) [OF P]
  show ?thesis
  proof (cases op)
    case (OpGet pid types)
    then show ?thesis using GetPoly_sim [OF ok _ P] w by simp
  next
    case (OpReference pid)
    then show ?thesis using rep_counted [OF P add_ref_sim [OF E]] by simp
  next
    case (OpRelease pid)
    then show ?thesis using rep_counted [OF P drop_ref_sim [OF E]] by simp
  next
    case (OpSetTypes pid types)
    then have "within all (types OR 1)" using w within_or [OF _ within_one [OF ok]] by simp
    then show ?thesis
      unfolding OpSetTypes factory_op.simps spec_op.simps SetTypes_def CreateTypeID_header
      by (intro change_sim [OF ok P] conjI bit_header)
  next
    case (OpAddTypes pid types)
    then have "within all types" using w by simp
    then have "within all (en_types e OR types) \<and> bit (en_types e OR types) 0" if "map_of (es_entities A) pid = Some e" for e
      using within_or [OF rep_atD(4) [OF P that]] rep_atD(5) [OF P that] by (simp add: bit_or_iff del: bit_0)
    then show ?thesis
      unfolding OpAddTypes factory_op.simps spec_op.simps AddTypes_def by (rule change_sim [OF ok P])
  next
    case (OpAssign pid i v)
    then show ?thesis using RefAssign_sim [OF ok P] by simp
  next
    case (OpListen types event callback)
    then show ?thesis using AddCallback_sim [OF P] by simp
  next
    case OpCleanup
    then show ?thesis using Cleanup_sim [OF ok R] by simp
  qed
qed

lemma steps_sim:
  assumes ok: "types_ok infos all" and w: "\<forall>op \<in> set ops. op_within all op" and R: "rep infos all F A"
  shows "agree (rep infos all) (rfold (factory_op infos releases) ops F) (rfold (spec_op infos releases) ops A)"
  using w R
proof (induction ops arbitrary: F A)
  case (Cons op ops)
  have "agree (rep infos all) (rfold (factory_op infos releases) ops F1) (rfold (spec_op infos releases) ops A1)"
    if "rep infos all F1 A1" for F1 A1
    using Cons.IH [OF _ that] Cons.prems(1) by simp
  moreover have "op_within all op" using Cons.prems(1) by simp
  ultimately show ?case unfolding rfold.simps by (intro agree_bind [OF step_sim [OF ok _ Cons.prems(2)]])
qed simp

end
