(* ===== verification/PolyOwnership.thy ===== *)
theory PolyOwnership
  imports PolySimulation
begin

text \<open>
  Reference counts: every entity's count is the number of \<open>Ref\<close>s to it, those that callers hold (the multiset
  \<open>ext\<close>) and those that lie in components. Callers that release only what they hold keep this so, and
  then no operation meets an entity that is gone.
\<close>

section \<open>Counting\<close>

definition counted_by :: "'k multiset \<Rightarrow> ('k, 'v, 'e) EntitySpec \<Rightarrow> bool" where
  "counted_by M A \<longleftrightarrow>
     distinct (map fst (es_entities A)) \<and>
     (\<forall>k. case map_of (es_entities A) k of None \<Rightarrow> count M k = 0 | Some e \<Rightarrow> en_refs e = count M k)"

definition all_held :: "'v PolyTypeInfo list \<Rightarrow> ('v \<Rightarrow> 'k list) \<Rightarrow> ('k, 'v, 'e) EntitySpec \<Rightarrow> 'k multiset" where
  "all_held infos releases A = mset (concat (map (held infos releases \<circ> snd) (es_entities A)))"

definition accounted ::
    "'v PolyTypeInfo list \<Rightarrow> ('v \<Rightarrow> 'k list) \<Rightarrow> 'k multiset \<Rightarrow> ('k, 'v, 'e) EntitySpec \<Rightarrow> bool" where
  "accounted infos releases ext A \<longleftrightarrow> counted_by (ext + all_held infos releases A) A"

text \<open>What an operation does to the references that its callers hold; \<open>None\<close> if they have no right to it.\<close>

fun owned_after ::
    "('v \<Rightarrow> 'k list) \<Rightarrow> ('k, 'v, 'e) EntitySpec \<Rightarrow> ('k, 'v, 'e) FactoryOp \<Rightarrow> 'k multiset \<Rightarrow> 'k multiset option" where
  "owned_after releases A (OpGet pid types) ext = Some (add_mset pid ext)"
| "owned_after releases A (OpReference pid) ext =
     (if map_of (es_entities A) pid = None then None else Some (add_mset pid ext))"
| "owned_after releases A (OpRelease pid) ext = (if pid \<in># ext then Some (ext - {#pid#}) else None)"
| "owned_after releases A (OpAssign pid i v) ext =
     (case sp_read i pid A of
        Inl _ \<Rightarrow> None
      | Inr old \<Rightarrow>
          if mset (releases v) \<subseteq># ext + mset (releases old)
          then Some (ext + mset (releases old) - mset (releases v)) else None)"
| "owned_after releases A _ ext = Some ext"

fun owned_run ::
    "'v PolyTypeInfo list \<Rightarrow> ('v \<Rightarrow> 'k list) \<Rightarrow> ('k, 'v, 'e) FactoryOp list \<Rightarrow> ('k, 'v, 'e) EntitySpec \<Rightarrow> 'k multiset \<Rightarrow>
     'k multiset option" where
  "owned_run infos releases [] A ext = Some ext"
| "owned_run infos releases (op # ops) A ext =
     (case owned_after releases A op ext of
        None \<Rightarrow> None
      | Some ext' \<Rightarrow>
          (case spec_op infos releases op A of
             Inl _ \<Rightarrow> None
           | Inr A' \<Rightarrow> owned_run infos releases ops A' ext'))"

lemma counted_by_at:
  assumes "counted_by M A"
  shows "map_of (es_entities A) k = Some e \<Longrightarrow> en_refs e = count M k"
    "map_of (es_entities A) k = None \<Longrightarrow> count M k = 0"
    "distinct (map fst (es_entities A))"
proof -
  have c: "case map_of (es_entities A) k of None \<Rightarrow> count M k = 0 | Some e \<Rightarrow> en_refs e = count M k"
    using assms unfolding counted_by_def by blast
  show "map_of (es_entities A) k = Some e \<Longrightarrow> en_refs e = count M k" using c by simp
  show "map_of (es_entities A) k = None \<Longrightarrow> count M k = 0" using c by simp
  show "distinct (map fst (es_entities A))" using assms by (simp add: counted_by_def)
qed

lemma counted_by_put:
  assumes "counted_by M A" "\<And>k. k \<noteq> pid \<Longrightarrow> count M' k = count M k" "en_refs e = count M' pid"
  shows "counted_by M' (sp_put pid e A)"
  using assms counted_by_at(1,2) [OF assms(1)]
  by (auto simp: counted_by_def sp_put_def map_of_update distinct_update split: option.splits)

lemma counted_by_delete:
  assumes "counted_by M A" "\<And>k. k \<noteq> pid \<Longrightarrow> count M' k = count M k" "count M' pid = 0"
  shows "counted_by M' (A\<lparr>es_entities := AList.delete pid (es_entities A)\<rparr>)"
  using assms counted_by_at(1,2) [OF assms(1)]
  by (auto simp: counted_by_def map_of_delete distinct_delete split: option.splits)

lemma all_held_put:
  assumes "distinct (map fst (es_entities A))" "map_of (es_entities A) pid = Some e"
  shows "all_held infos releases (sp_put pid e' A) + mset (held infos releases e) =
    all_held infos releases A + mset (held infos releases e')"
proof -
  have "mset (concat (map (held infos releases \<circ> snd) (AList.update pid e' xs))) + mset (held infos releases e) =
    mset (concat (map (held infos releases \<circ> snd) xs)) + mset (held infos releases e')"
    if "distinct (map fst xs)" "map_of xs pid = Some e" for xs
    using that by (induction xs) (auto split: if_splits simp: ac_simps)
  from this [OF assms] show ?thesis by (simp add: all_held_def sp_put_def)
qed

lemma all_held_new:
  "map_of (es_entities A) pid = None \<Longrightarrow>
   all_held infos releases (sp_put pid e A) = all_held infos releases A + mset (held infos releases e)"
proof -
  have "AList.update pid e xs = xs @ [(pid, e)]" if "map_of xs pid = None" for xs :: "('b \<times> 'a Entity) list"
    using that by (induction xs) (auto split: if_splits)
  then show "map_of (es_entities A) pid = None \<Longrightarrow> ?thesis" by (simp add: all_held_def sp_put_def)
qed

lemma delete_absent: "map_of al k = None \<Longrightarrow> AList.delete k al = al"
  by (induction al) (auto split: if_splits)

lemma all_held_delete:
  assumes "distinct (map fst (es_entities A))" "map_of (es_entities A) pid = Some e"
  shows "all_held infos releases (A\<lparr>es_entities := AList.delete pid (es_entities A)\<rparr>) + mset (held infos releases e) =
    all_held infos releases A"
proof -
  have "mset (concat (map (held infos releases \<circ> snd) (AList.delete pid xs))) + mset (held infos releases e) =
    mset (concat (map (held infos releases \<circ> snd) xs))"
    if "distinct (map fst xs)" "map_of xs pid = Some e" for xs
    using that
  proof (induction xs)
    case (Cons x xs)
    then show ?case
      by (cases "fst x = pid") (auto simp: delete_absent map_of_eq_None_iff ac_simps)
  qed simp
  from this [OF assms] show ?thesis by (simp add: all_held_def)
qed

lemma held_in_all:
  assumes "map_of (es_entities A) pid = Some e"
  shows "mset (held infos releases e) \<subseteq># all_held infos releases A"
proof -
  have "mset (held infos releases e) \<subseteq># mset (concat (map (held infos releases \<circ> snd) xs))"
    if "map_of xs pid = Some e" for xs
    using that by (induction xs) (auto split: if_splits intro: subset_mset.add_increasing)
  then show ?thesis using assms by (simp add: all_held_def)
qed

text \<open>Entities that differ in their counts only hold the same references.\<close>

lemma map_snd_keys: "distinct (map fst xs) \<Longrightarrow> map (f \<circ> snd) xs = map (\<lambda>k. f (the (map_of xs k))) (map fst xs)"
  by auto

lemma all_held_counts:
  assumes "counts_only A A'" "distinct (map fst (es_entities A))"
  shows "all_held infos releases A' = all_held infos releases A"
proof -
  have d: "distinct (map fst (es_entities A'))" "map fst (es_entities A') = map fst (es_entities A)"
    using assms by (simp_all add: counts_only_def)
  have "held infos releases (the (map_of (es_entities A') k)) = held infos releases (the (map_of (es_entities A) k))"
    if k: "k \<in> set (map fst (es_entities A))" for k
  proof -
    have "map_of (es_entities A) k \<noteq> None" using k by (simp add: map_of_eq_None_iff)
    then obtain e where e: "map_of (es_entities A) k = Some e" by blast
    from counts_onlyD(1) [OF assms(1) e] e show ?thesis by (auto simp: held_def)
  qed
  then have "map (held infos releases \<circ> snd) (es_entities A') = map (held infos releases \<circ> snd) (es_entities A)"
    unfolding map_snd_keys [OF d(1)] map_snd_keys [OF assms(2)] d(2) by (rule map_cong [OF refl])
  then show ?thesis by (simp add: all_held_def)
qed

section \<open>Operations\<close>

lemma mset_regroup: "r \<subseteq># H \<Longrightarrow> ext + (H - r) + r = (ext + H :: 'a multiset)"
  by (metis add.assoc subset_mset.diff_add)

lemma mset_remainder:
  fixes H' :: "'a multiset"
  assumes "H' + h = H + h'" "h = h' + r"
  shows "H' = H - r"
proof -
  have "H' + r + h' = H + h'" using assms by (simp add: ac_simps)
  then have "H' + r = H" by simp
  then show ?thesis by auto
qed

lemma mset_swap:
  fixes H' :: "'a multiset"
  assumes "H' + h = H + h'" "h' + old = h + new"
  shows "H' + old = H + new"
proof (rule multiset_eqI)
  fix k
  show "count (H' + old) k = count (H + new) k"
    using arg_cong [OF assms(1), of "\<lambda>M. count M k"] arg_cong [OF assms(2), of "\<lambda>M. count M k"] by simp
qed

lemma mset_exchange:
  fixes H' :: "'a multiset"
  assumes "new \<subseteq># ext + old" "H' + old = H + new"
  shows "ext + old - new + H' = ext + H"
proof (rule multiset_eqI)
  fix k
  have "count new k \<le> count ext k + count old k" using mset_subset_eq_count [OF assms(1), of k] by simp
  moreover have "count H' k + count old k = count H k + count new k"
    using arg_cong [OF assms(2), of "\<lambda>M. count M k"] by simp
  ultimately show "count (ext + old - new + H') k = count (ext + H) k" by simp
qed

lemma drop_counted:
  assumes "counted_by (M + {#pid#}) A"
  shows "\<exists>A'. sp_drop_ref pid A = Inr A' \<and> counted_by M A' \<and> counts_only A A'"
proof -
  obtain e where e: "map_of (es_entities A) pid = Some e"
    using counted_by_at(2) [OF assms, of pid] by (cases "map_of (es_entities A) pid") auto
  then have r: "en_refs e = count M pid + 1" using counted_by_at(1) [OF assms e] by simp
  have "counted_by M (sp_put pid (e\<lparr>en_refs := decrement (en_refs e)\<rparr>) A)"
    by (rule counted_by_put [OF assms]) (simp_all add: r)
  then show ?thesis using counts_only_put [OF e] by (simp add: sp_drop_ref_def e)
qed

lemma release_counted:
  assumes "counted_by (M + mset pids) A"
  shows "\<exists>A'. sp_release pids A = Inr A' \<and> counted_by M A' \<and> counts_only A A'"
  using assms
proof (induction pids arbitrary: A)
  case Nil
  then show ?case by (simp add: sp_release_def counts_only_refl)
next
  case (Cons pid pids)
  have "counted_by ((M + mset pids) + {#pid#}) A" using Cons.prems by simp
  from drop_counted [OF this] obtain A1 where
    "sp_drop_ref pid A = Inr A1" "counted_by (M + mset pids) A1" "counts_only A A1" by blast
  moreover from Cons.IH [OF this(2)] obtain A2 where
    "sp_release pids A1 = Inr A2" "counted_by M A2" "counts_only A1 A2" by blast
  ultimately show ?case using counts_only_trans by (auto simp: sp_release_def)
qed

text \<open>Default components hold no references.\<close>

definition blank :: "'v PolyTypeInfo list \<Rightarrow> ('v \<Rightarrow> 'k list) \<Rightarrow> bool" where
  "blank infos releases \<longleftrightarrow> (\<forall>i < length infos. releases (default_of infos i) = [])"

lemma held_default: "blank infos releases \<Longrightarrow> held infos releases \<lparr>en_types = t, en_value = default_of infos, en_refs = n\<rparr> = []"
  by (auto simp: held_def blank_def)

lemma held_refs [simp]: "held infos releases (e\<lparr>en_refs := n\<rparr>) = held infos releases e"
  by (simp add: held_def)

lemma held_retype:
  assumes "blank infos releases"
  shows "mset (held infos releases e) = mset (held infos releases (retype infos new e)) +
    mset (concat (map (releases \<circ> en_value e) (removed infos (en_types e) new)))"
proof -
  let ?e = "retype infos new e"
  have "mset (concat (map (releases \<circ> en_value e) (filter (bit (en_types e)) xs))) =
      mset (concat (map (releases \<circ> en_value ?e) (filter (bit new) xs))) +
      mset (concat (map (releases \<circ> en_value e) (filter (\<lambda>i. bit (en_types e) i \<and> \<not> bit new i) xs)))"
    if "set xs \<subseteq> {..<length infos}" for xs
    using assms that by (induction xs) (auto simp: retype_def blank_def)
  moreover have "set [1..<length infos] \<subseteq> {..<length infos}" by auto
  ultimately show ?thesis by (simp add: held_def removed_def retype_def)
qed

lemma held_assign:
  assumes "bit (en_types e) i" "i \<noteq> 0" "i < length infos"
  shows "mset (held infos releases (e\<lparr>en_value := (en_value e)(i := v)\<rparr>)) + mset (releases (en_value e i)) =
    mset (held infos releases e) + mset (releases v)"
proof -
  have "mset (concat (map (releases \<circ> (en_value e)(i := v)) (filter (bit (en_types e)) xs))) + mset (releases (en_value e i)) =
      mset (concat (map (releases \<circ> en_value e) (filter (bit (en_types e)) xs))) + mset (releases v)"
    if "distinct xs" "i \<in> set xs" for xs
    using that
  proof (induction xs)
    case (Cons x xs)
    show ?case
    proof (cases "x = i")
      case True
      then have eq: "map (releases \<circ> (en_value e)(i := v)) (filter (bit (en_types e)) xs) =
        map (releases \<circ> en_value e) (filter (bit (en_types e)) xs)"
        using Cons.prems(1) by (intro map_cong) auto
      have f: "filter (bit (en_types e)) (x # xs) = i # filter (bit (en_types e)) xs" using True assms(1) by simp
      show ?thesis unfolding f list.map eq by (simp add: ac_simps)
    next
      case False
      then show ?thesis using Cons by (auto simp: ac_simps)
    qed
  qed simp
  from this [of "[1..<length infos]"] show ?thesis using assms by (simp add: held_def)
qed

lemma accounted_get:
  assumes acc: "accounted infos releases ext A" and b: "blank infos releases"
  shows "accounted infos releases (add_mset pid ext) (sp_get infos pid types A)"
proof (cases "map_of (es_entities A) pid")
  case None
  let ?e = "\<lparr>en_types = types OR 1, en_value = default_of infos, en_refs = 1\<rparr>"
  note c = acc [unfolded accounted_def]
  have "all_held infos releases (sp_put pid ?e A) = all_held infos releases A"
    using all_held_new [OF None] held_default [OF b] by simp
  moreover have "counted_by (add_mset pid (ext + all_held infos releases A)) (sp_put pid ?e A)"
    using counted_by_at(2) [OF c None] by (intro counted_by_put [OF c]) simp_all
  ultimately show ?thesis using None by (simp add: accounted_def sp_get_def)
next
  case (Some e)
  let ?e = "e\<lparr>en_refs := en_refs e + 1\<rparr>"
  note c = acc [unfolded accounted_def]
  have "all_held infos releases (sp_put pid ?e A) = all_held infos releases A"
    using all_held_put [OF counted_by_at(3) [OF c] Some, of infos releases ?e] by simp
  moreover have "counted_by (add_mset pid (ext + all_held infos releases A)) (sp_put pid ?e A)"
    using counted_by_at(1) [OF c Some] by (intro counted_by_put [OF c]) simp_all
  ultimately show ?thesis using Some by (simp add: accounted_def sp_get_def)
qed

lemma accounted_add_ref:
  assumes acc: "accounted infos releases ext A" and e: "map_of (es_entities A) pid = Some e"
  shows "\<exists>A'. sp_add_ref pid A = Inr A' \<and> accounted infos releases (add_mset pid ext) A'"
proof -
  let ?e = "e\<lparr>en_refs := en_refs e + 1\<rparr>"
  note c = acc [unfolded accounted_def]
  have "all_held infos releases (sp_put pid ?e A) = all_held infos releases A"
    using all_held_put [OF counted_by_at(3) [OF c] e, of infos releases ?e] by simp
  moreover have "counted_by (add_mset pid (ext + all_held infos releases A)) (sp_put pid ?e A)"
    using counted_by_at(1) [OF c e] by (intro counted_by_put [OF c]) simp_all
  ultimately show ?thesis using e by (simp add: accounted_def sp_add_ref_def)
qed

lemma accounted_drop:
  assumes acc: "accounted infos releases ext A" and own: "pid \<in># ext"
  shows "\<exists>A'. sp_drop_ref pid A = Inr A' \<and> accounted infos releases (ext - {#pid#}) A'"
proof -
  have "counted_by ((ext - {#pid#} + all_held infos releases A) + {#pid#}) A"
    using acc own by (simp add: accounted_def)
  from drop_counted [OF this] show ?thesis
    using all_held_counts counted_by_at(3) [OF acc [unfolded accounted_def]] by (fastforce simp: accounted_def)
qed

lemma accounted_change:
  assumes acc: "accounted infos releases ext A" and b: "blank infos releases"
  shows "\<exists>A'. sp_change infos releases pid f A = Inr A' \<and> accounted infos releases ext A'"
proof (cases "map_of (es_entities A) pid")
  case None
  then show ?thesis using acc by (simp add: sp_change_def)
next
  case (Some e)
  let ?N = "f (en_types e)" and ?H = "all_held infos releases"
  let ?r = "concat (map (releases \<circ> en_value e) (removed infos (en_types e) ?N))"
  note d = counted_by_at(3) [OF acc [unfolded accounted_def]]
  note h = held_retype [OF b, of e ?N]
  have "mset ?r \<subseteq># mset (held infos releases e)" using h by simp
  then have sub: "mset ?r \<subseteq># ?H A" using held_in_all [OF Some, of infos releases] by (rule subset_mset.order_trans)
  have "counted_by (ext + (?H A - mset ?r) + mset ?r) A"
    using acc unfolding accounted_def mset_regroup [OF sub] .
  from release_counted [OF this] obtain A1 where
    A1: "sp_release ?r A = Inr A1" "counted_by (ext + (?H A - mset ?r)) A1" "counts_only A A1" by blast
  obtain e1 where e1: "map_of (es_entities A1) pid = Some e1" "en_types e1 = en_types e" "en_value e1 = en_value e"
    using counts_onlyD(1) [OF A1(3) Some] by blast
  let ?e = "retype infos ?N e1"
  have held: "held infos releases ?e = held infos releases (retype infos ?N e)" "held infos releases e1 = held infos releases e"
    using e1 by (simp_all add: held_def retype_def cong: if_cong)
  have "counted_by (ext + (?H A - mset ?r)) (sp_put pid ?e A1)"
    using counted_by_at(1) [OF A1(2) e1(1)] by (intro counted_by_put [OF A1(2)]) (simp_all add: retype_def)
  moreover have "?H (sp_put pid ?e A1) + mset (held infos releases e) = ?H A + mset (held infos releases (retype infos ?N e))"
    using all_held_put [OF counted_by_at(3) [OF A1(2)] e1(1), of infos releases ?e] all_held_counts [OF A1(3) d, of infos releases]
    by (simp add: held)
  then have "?H (sp_put pid ?e A1) = ?H A - mset ?r" using h by (rule mset_remainder)
  ultimately show ?thesis using Some A1(1) e1(1) by (simp add: sp_change_def accounted_def Let_def)
qed

lemma accounted_assign:
  assumes acc: "accounted infos releases ext A" and ok: "types_ok infos all"
    and w: "\<And>e. map_of (es_entities A) pid = Some e \<Longrightarrow> within all (en_types e)"
    and own: "owned_after releases A (OpAssign pid i v) ext = Some ext'"
  shows "\<exists>A'. sp_assign i v pid A = Inr A' \<and> accounted infos releases ext' A'"
proof -
  obtain e where e: "map_of (es_entities A) pid = Some e" "i \<noteq> 0" "bit (en_types e) i"
    using own by (auto simp: sp_read_def split: option.splits if_splits)
  then have x: "mset (releases v) \<subseteq># ext + mset (releases (en_value e i))"
    "ext' = ext + mset (releases (en_value e i)) - mset (releases v)"
    using own by (auto simp: sp_read_def split: if_splits)
  have i: "i < length infos" using w [OF e(1)] e(3) types_okD(3) [OF ok] by (auto simp: within_def)
  let ?e = "e\<lparr>en_value := (en_value e)(i := v)\<rparr>" and ?H = "all_held infos releases"
  note c = acc [unfolded accounted_def]
  have "?H (sp_put pid ?e A) + mset (held infos releases e) = ?H A + mset (held infos releases ?e)"
    by (rule all_held_put [OF counted_by_at(3) [OF c] e(1)])
  then have "?H (sp_put pid ?e A) + mset (releases (en_value e i)) = ?H A + mset (releases v)"
    using held_assign [OF e(3,2) i, of releases v] by (rule mset_swap)
  then have "ext' + ?H (sp_put pid ?e A) = ext + ?H A"
    unfolding x(2) by (rule mset_exchange [OF x(1)])
  moreover have "counted_by (ext + ?H A) (sp_put pid ?e A)"
    using counted_by_at(1) [OF c e(1)] by (intro counted_by_put [OF c]) simp_all
  ultimately show ?thesis using e by (simp add: accounted_def sp_assign_def)
qed

section \<open>Cleanup\<close>

text \<open>What remains of the entities is as before, up to counts.\<close>

definition remains :: "'k set \<Rightarrow> ('k, 'v, 'e) EntitySpec \<Rightarrow> ('k, 'v, 'e) EntitySpec \<Rightarrow> bool" where
  "remains K A A' \<longleftrightarrow>
     es_listeners A' = es_listeners A \<and>
     (\<forall>k e'. map_of (es_entities A') k = Some e' \<longrightarrow>
        (\<exists>e. map_of (es_entities A) k = Some e \<and> en_types e' = en_types e \<and> en_value e' = en_value e)) \<and>
     (\<forall>k. k \<notin> K \<longrightarrow> map_of (es_entities A) k \<noteq> None \<longrightarrow> map_of (es_entities A') k \<noteq> None)"

lemma remains_refl: "remains K A A"
  by (simp add: remains_def)

lemma remains_trans:
  assumes "remains {k} A B" "remains K B C"
  shows "remains (insert k K) A C"
proof -
  have "\<exists>e. map_of (es_entities A) x = Some e \<and> en_types e' = en_types e \<and> en_value e' = en_value e"
    if "map_of (es_entities C) x = Some e'" for x e'
  proof -
    obtain e1 where e1: "map_of (es_entities B) x = Some e1" "en_types e' = en_types e1" "en_value e' = en_value e1"
      using assms(2) \<open>map_of (es_entities C) x = Some e'\<close> unfolding remains_def by blast
    obtain e where "map_of (es_entities A) x = Some e" "en_types e1 = en_types e" "en_value e1 = en_value e"
      using assms(1) e1(1) unfolding remains_def by blast
    with e1 show ?thesis by simp
  qed
  moreover have "map_of (es_entities C) x \<noteq> None" if "x \<notin> insert k K" "map_of (es_entities A) x \<noteq> None" for x
    using assms that unfolding remains_def by blast
  ultimately show ?thesis using assms by (simp add: remains_def)
qed

lemma accounted_cleanup_entry:
  assumes acc: "accounted infos releases ext A" and e: "map_of (es_entities A) pid = Some e"
  shows "\<exists>A'. sp_cleanup_entry infos releases pid A = Inr A' \<and> accounted infos releases ext A' \<and>
    remains {pid} A A' \<and> all_held infos releases A' \<subseteq># all_held infos releases A \<and>
    (en_refs e = 0 \<longrightarrow> map_of (es_entities A') pid = None)"
proof (cases "en_refs e = 0")
  case False
  then show ?thesis using acc e by (simp add: sp_cleanup_entry_def remains_refl)
next
  case True
  let ?H = "all_held infos releases" and ?h = "held infos releases e"
  note c = acc [unfolded accounted_def]
  have sub: "mset ?h \<subseteq># ?H A" by (rule held_in_all [OF e])
  have "counted_by (ext + (?H A - mset ?h) + mset ?h) A"
    using acc unfolding accounted_def mset_regroup [OF sub] .
  from release_counted [OF this] obtain A1 where
    A1: "sp_release ?h A = Inr A1" "counted_by (ext + (?H A - mset ?h)) A1" "counts_only A A1" by blast
  obtain e1 where e1: "map_of (es_entities A1) pid = Some e1" "en_types e1 = en_types e" "en_value e1 = en_value e"
    using counts_onlyD(1) [OF A1(3) e] by blast
  let ?A = "A1\<lparr>es_entities := AList.delete pid (es_entities A1)\<rparr>"
  have "held infos releases e1 = ?h" using e1 by (simp add: held_def)
  then have H: "?H ?A + mset ?h = ?H A"
    using all_held_delete [OF counted_by_at(3) [OF A1(2)] e1(1), of infos releases]
      all_held_counts [OF A1(3) counted_by_at(3) [OF c], of infos releases] by simp
  then have H': "?H ?A = ?H A - mset ?h" by (metis add_diff_cancel_right')
  have "count (ext + ?H A) pid = 0" using counted_by_at(1) [OF c e] True by simp
  then have "counted_by (ext + (?H A - mset ?h)) ?A" by (intro counted_by_delete [OF A1(2)]) simp_all
  then have "accounted infos releases ext ?A" by (simp only: accounted_def H')
  moreover have "remains {pid} A ?A"
    unfolding remains_def
  proof (intro conjI allI impI)
    show "es_listeners ?A = es_listeners A" using A1(3) by (simp add: counts_only_def)
  next
    fix k e' assume "map_of (es_entities ?A) k = Some e'"
    then have "map_of (es_entities A1) k = Some e'" by (simp add: map_of_delete split: if_splits)
    then show "\<exists>e. map_of (es_entities A) k = Some e \<and> en_types e' = en_types e \<and> en_value e' = en_value e"
      by (rule counts_onlyD(2) [OF A1(3)])
  next
    fix k assume k: "k \<notin> {pid}" "map_of (es_entities A) k \<noteq> None"
    then obtain e' where "map_of (es_entities A1) k = Some e'" using counts_onlyD(1) [OF A1(3)] by blast
    then show "map_of (es_entities ?A) k \<noteq> None" using k(1) by (simp add: map_of_delete)
  qed
  moreover have "?H ?A \<subseteq># ?H A" using H by (metis mset_subset_eq_add_left)
  ultimately show ?thesis using True e A1(1) by (auto simp: sp_cleanup_entry_def map_of_delete)
qed

lemma accounted_cleanup_loop:
  assumes "distinct ks" "\<forall>k \<in> set ks. map_of (es_entities A) k \<noteq> None" "accounted infos releases ext A"
  shows "\<exists>A'. rfold (sp_cleanup_entry infos releases) ks A = Inr A' \<and> accounted infos releases ext A' \<and>
    remains (set ks) A A' \<and>
    (\<forall>k \<in> set ks. count (ext + all_held infos releases A) k = 0 \<longrightarrow> map_of (es_entities A') k = None)"
  using assms
proof (induction ks arbitrary: A)
  case Nil
  then show ?case by (simp add: remains_refl)
next
  case (Cons k ks)
  obtain e where e: "map_of (es_entities A) k = Some e" using Cons.prems(2) by auto
  obtain A1 where A1: "sp_cleanup_entry infos releases k A = Inr A1" "accounted infos releases ext A1"
    "remains {k} A A1" "all_held infos releases A1 \<subseteq># all_held infos releases A"
    "en_refs e = 0 \<longrightarrow> map_of (es_entities A1) k = None"
    using accounted_cleanup_entry [OF Cons.prems(3) e] by (elim exE conjE) (rule that; assumption)
  have "\<forall>x \<in> set ks. map_of (es_entities A1) x \<noteq> None"
  proof
    fix x assume "x \<in> set ks"
    then have "x \<notin> {k}" "map_of (es_entities A) x \<noteq> None" using Cons.prems(1,2) by auto
    then show "map_of (es_entities A1) x \<noteq> None" using A1(3) unfolding remains_def by blast
  qed
  from Cons.IH [OF _ this A1(2)] Cons.prems(1) obtain A2 where
    A2: "rfold (sp_cleanup_entry infos releases) ks A1 = Inr A2" "accounted infos releases ext A2" "remains (set ks) A1 A2"
    "\<forall>x \<in> set ks. count (ext + all_held infos releases A1) x = 0 \<longrightarrow> map_of (es_entities A2) x = None"
    by auto
  have "map_of (es_entities A2) k = None" if "count (ext + all_held infos releases A) k = 0"
  proof -
    have "en_refs e = 0" using counted_by_at(1) [OF Cons.prems(3) [unfolded accounted_def] e] that by simp
    then have "map_of (es_entities A1) k = None" using A1(5) by blast
    moreover have "\<exists>e. map_of (es_entities A1) k = Some e" if "map_of (es_entities A2) k = Some e'" for e'
      using A2(3) that unfolding remains_def by blast
    ultimately show ?thesis by (cases "map_of (es_entities A2) k") auto
  qed
  moreover have "map_of (es_entities A2) x = None"
    if "x \<in> set ks" "count (ext + all_held infos releases A) x = 0" for x
    using A2(4) that mset_subset_eq_count [OF A1(4), of x] by simp
  ultimately show ?case using A1(1,3) A2(1-3) remains_trans by auto
qed

lemma accounted_cleanup:
  assumes acc: "accounted infos releases ext A"
  shows "\<exists>A'. sp_cleanup infos releases A = Inr A' \<and> accounted infos releases ext A' \<and> remains UNIV A A' \<and>
    (\<forall>k e. map_of (es_entities A) k = Some e \<longrightarrow> en_refs e = 0 \<longrightarrow> map_of (es_entities A') k = None)"
proof -
  note c = acc [unfolded accounted_def]
  have "\<forall>k \<in> set (map fst (es_entities A)). map_of (es_entities A) k \<noteq> None" by (simp add: map_of_eq_None_iff)
  from accounted_cleanup_loop [OF counted_by_at(3) [OF c] this acc] obtain A' where
    A': "sp_cleanup infos releases A = Inr A'" "accounted infos releases ext A'" "remains (set (map fst (es_entities A))) A A'"
    "\<forall>k \<in> set (map fst (es_entities A)). count (ext + all_held infos releases A) k = 0 \<longrightarrow> map_of (es_entities A') k = None"
    unfolding sp_cleanup_def by blast
  have "map_of (es_entities A') k = None" if "map_of (es_entities A) k = Some e" "en_refs e = 0" for k e
    using A'(4) counted_by_at(1) [OF c that(1)] that map_of_SomeD [OF that(1)] by force
  moreover have "remains UNIV A A'" using A'(3) by (simp add: remains_def)
  ultimately show ?thesis using A'(1,2) by blast
qed

section \<open>Any operation\<close>

lemma accounted_new: "accounted infos releases {#} sp_new"
  by (simp add: accounted_def counted_by_def all_held_def sp_new_def)

lemma accounted_step:
  assumes ok: "types_ok infos all" and b: "blank infos releases" and acc: "accounted infos releases ext A"
    and w: "\<And>k e. map_of (es_entities A) k = Some e \<Longrightarrow> within all (en_types e)"
    and own: "owned_after releases A op ext = Some ext'"
  shows "\<exists>A'. spec_op infos releases op A = Inr A' \<and> accounted infos releases ext' A'"
proof (cases op)
  case (OpGet pid types)
  then show ?thesis using accounted_get [OF acc b, of pid types] own by auto
next
  case (OpReference pid)
  then show ?thesis using accounted_add_ref [OF acc] own by (cases "map_of (es_entities A) pid") auto
next
  case (OpRelease pid)
  then show ?thesis using accounted_drop [OF acc] own by (auto split: if_splits)
next
  case (OpSetTypes pid types)
  then show ?thesis using accounted_change [OF acc b] own by simp
next
  case (OpAddTypes pid types)
  then show ?thesis using accounted_change [OF acc b] own by simp
next
  case (OpAssign pid i v)
  then show ?thesis using accounted_assign [OF acc ok w] own by simp
next
  case (OpListen types event callback)
  have "es_entities (sp_listen types event callback A) = es_entities A" by (simp add: sp_listen_def)
  then have "accounted infos releases ext (sp_listen types event callback A)"
    using acc by (metis accounted_def counted_by_def all_held_def)
  with OpListen show ?thesis using own by simp
next
  case OpCleanup
  then show ?thesis using accounted_cleanup [OF acc] own by auto
qed

text \<open>Callers that keep to the rules never meet a fault, and the counts stay right.\<close>

lemma owned_run_ok:
  assumes ok: "types_ok infos all" and b: "blank infos releases"
  shows "\<lbrakk>\<forall>op \<in> set ops. op_within all op; rep infos all F A; accounted infos releases ext A;
    owned_run infos releases ops A ext = Some ext'\<rbrakk> \<Longrightarrow>
    \<exists>F' A'. rfold (factory_op infos releases) ops F = Inr F' \<and> rfold (spec_op infos releases) ops A = Inr A' \<and>
      rep infos all F' A' \<and> accounted infos releases ext' A'"
proof (induction ops arbitrary: F A ext)
  case (Cons op ops)
  obtain ext1 where e1: "owned_after releases A op ext = Some ext1"
    using Cons.prems(4) by (auto split: option.splits)
  have w: "within all (en_types e)" if "map_of (es_entities A) k = Some e" for k e
    using Cons.prems(2) that by (auto simp: rep_def dest: rep_atD(4))
  have "\<exists>A1. spec_op infos releases op A = Inr A1 \<and> accounted infos releases ext1 A1"
    by (rule accounted_step [OF ok b Cons.prems(3) _ e1]) (rule w)
  then obtain A1 where A1: "spec_op infos releases op A = Inr A1" "accounted infos releases ext1 A1" by blast
  have "op_within all op" using Cons.prems(1) by simp
  from step_sim [OF ok this Cons.prems(2), of releases] A1(1) obtain F1 where
    F1: "factory_op infos releases op F = Inr F1" "rep infos all F1 A1" by (auto simp: agree_Inr)
  have "\<forall>op \<in> set ops. op_within all op" "owned_run infos releases ops A1 ext1 = Some ext'"
    using Cons.prems(1,4) e1 A1(1) by simp_all
  from Cons.IH [OF this(1) F1(2) A1(2) this(2)] F1(1) A1(1) show ?case by auto
qed simp

end
