(* ===== verification/PolyProperties.thy ===== *)
theory PolyProperties
  imports PolyOwnership
begin

text \<open>What \<open>src/Util/PolyFactory.h\<close> guarantees to its callers.\<close>

section \<open>Observations\<close>

lemma RefGet_rep:
  assumes "types_ok infos all" "rep infos all F A"
  shows "RefGet i pid F = (case sp_read i pid A of Inl err \<Rightarrow> Inl err | Inr v \<Rightarrow> Inr (Comp i v))"
proof -
  obtain P where "rep_at infos all P F A" using assms(2) by (auto simp: rep_def)
  from RefGet_sim [OF assms(1) this, of i pid] show ?thesis by (cases "sp_read i pid A") (auto simp: agree_Inr)
qed

lemma RefHas_rep:
  assumes "rep infos all F A"
  shows "RefHas types pid F = (case map_of (es_entities A) pid of None \<Rightarrow> Inl Dangling | Some e \<Rightarrow> Inr (HasTypes types (en_types e)))"
proof -
  obtain P where P: "ents infos P (pf_entries F) (es_entities A)" using assms by (auto simp: rep_def rep_at_def)
  show ?thesis
    using ents_none [OF P, of pid] ents_some(1) [OF P, of pid]
    by (cases "map_of (es_entities A) pid") (fastforce simp: RefHas_def erel_def)+
qed

lemma entry_rep: "rep infos all F A \<Longrightarrow> map_of (pf_entries F) pid = None \<longleftrightarrow> map_of (es_entities A) pid = None"
  by (auto simp: rep_def rep_at_def ents_none)

lemma run_rep:
  assumes "types_ok infos all" "\<forall>op \<in> set ops. op_within all op"
    "rfold (factory_op infos releases) ops new_PolyFactory = Inr F"
  obtains A where "rfold (spec_op infos releases) ops sp_new = Inr A" "rep infos all F A"
  using steps_sim [OF assms(1,2) rep_new, of releases] assms(3)
  by (cases "rfold (spec_op infos releases) ops sp_new") auto

lemma run_succeeds:
  assumes "types_ok infos all" "\<forall>op \<in> set ops. op_within all op"
    "rfold (spec_op infos releases) ops sp_new = Inr A"
  obtains F where "rfold (factory_op infos releases) ops new_PolyFactory = Inr F" "rep infos all F A"
  using steps_sim [OF assms(1,2) rep_new, of releases] assms(3) by (auto simp: agree_Inr)

lemma release_ok:
  "\<forall>k \<in> set pids. map_of (es_entities A) k \<noteq> None \<Longrightarrow> \<exists>A'. sp_release pids A = Inr A' \<and> counts_only A A'"
proof (induction pids arbitrary: A)
  case Nil
  then show ?case by (simp add: sp_release_def counts_only_refl)
next
  case (Cons pid pids)
  obtain e where e: "map_of (es_entities A) pid = Some e" using Cons.prems by auto
  let ?A = "sp_put pid (e\<lparr>en_refs := decrement (en_refs e)\<rparr>) A"
  have c: "counts_only A ?A" by (rule counts_only_put [OF e])
  have "\<forall>k \<in> set pids. map_of (es_entities ?A) k \<noteq> None"
    using Cons.prems by (auto simp: sp_put_def map_of_update)
  from Cons.IH [OF this] obtain A' where "sp_release pids ?A = Inr A'" "counts_only ?A A'" by blast
  then show ?case using e counts_only_trans [OF c] by (auto simp: sp_release_def sp_drop_ref_def)
qed

text \<open>Only \<open>AddCallback\<close> changes what is listened to.\<close>

lemma release_keeps_listeners: "sp_release pids A = Inr A' \<Longrightarrow> es_listeners A' = es_listeners A"
proof (induction pids arbitrary: A)
  case (Cons pid pids)
  then obtain A1 where A1: "sp_drop_ref pid A = Inr A1" "sp_release pids A1 = Inr A'"
    by (auto simp: sp_release_def rbind_eq_Inr_iff)
  then have "es_listeners A1 = es_listeners A" by (auto simp: sp_drop_ref_def sp_put_def split: option.splits)
  then show ?case using Cons.IH [OF A1(2)] by simp
qed (simp add: sp_release_def)

lemma cleanup_keeps_listeners:
  "rfold (sp_cleanup_entry infos releases) ks A = Inr A' \<Longrightarrow> es_listeners A' = es_listeners A"
proof (induction ks arbitrary: A)
  case (Cons k ks)
  then obtain A1 where A1: "sp_cleanup_entry infos releases k A = Inr A1" "rfold (sp_cleanup_entry infos releases) ks A1 = Inr A'"
    by (auto simp: rbind_eq_Inr_iff)
  then have "es_listeners A1 = es_listeners A"
    by (auto simp: sp_cleanup_entry_def rbind_eq_Inr_iff split: option.splits if_splits dest: release_keeps_listeners)
  then show ?case using Cons.IH [OF A1(2)] by simp
qed simp

lemma change_keeps_listeners:
  assumes "sp_change infos releases pid f A = Inr A'"
  shows "es_listeners A' = es_listeners A"
proof (cases "map_of (es_entities A) pid")
  case None
  then show ?thesis using assms by (simp add: sp_change_def)
next
  case (Some e)
  let ?r = "concat (map (releases \<circ> en_value e) (removed infos (en_types e) (f (en_types e))))"
  obtain A1 where A1: "sp_release ?r A = Inr A1"
    using assms Some by (auto simp: sp_change_def Let_def rbind_eq_Inr_iff)
  then have "es_listeners A' = es_listeners A1"
    using assms Some by (auto simp: sp_change_def Let_def sp_put_def split: option.splits)
  also have "\<dots> = es_listeners A" by (rule release_keeps_listeners [OF A1])
  finally show ?thesis .
qed

lemma spec_keeps_listeners:
  assumes "spec_op infos releases op A = Inr A'" "\<And>types event callback. op \<noteq> OpListen types event callback"
  shows "es_listeners A' = es_listeners A"
  using assms
  by (cases op)
    (auto simp: sp_get_def sp_add_ref_def sp_drop_ref_def sp_assign_def sp_cleanup_def sp_put_def
      rbind_eq_Inr_iff split: option.splits if_splits dest: change_keeps_listeners cleanup_keeps_listeners)

section \<open>Properties\<close>


lemma within_CreateTypeID: "within all (CreateTypeID ts) \<longleftrightarrow> set ts \<subseteq> set all"
  by (auto simp: within_def bit_CreateTypeID)

lemma example_types_ok: "types_ok example_infos [0, 1, 2, 3]"
  by (simp add: types_ok_def example_infos_def MakeTypeInfo_def comp_size_def)

definition example_ops :: "(nat, nat, nat) FactoryOp list" where
  "example_ops = [OpListen (CreateTypeID [1]) MainUpdate 42, OpGet 7 (CreateTypeID [1, 2]), OpGet 8 (CreateTypeID [2]),
    OpAssign 7 2 25]"

lemma example_within: "\<forall>op \<in> set example_ops. op_within [0, 1, 2, 3] op"
  by (simp add: example_ops_def within_CreateTypeID)


text \<open>
  C9: a change of types keeps the value of every component that stays, gives a default value to every
  component that is new, takes away the others, and leaves the components of all other polys alone.
\<close>

theorem set_types_keeps_values:
  assumes ok: "types_ok infos all" and w: "\<forall>op \<in> set ops. op_within all op" and t: "within all types"
    and run: "rfold (factory_op infos releases) ops new_PolyFactory = Inr F"
    and pid: "map_of (pf_entries F) pid \<noteq> None"
    and refs: "\<forall>i v k. RefGet i pid F = Inr (Comp i v) \<longrightarrow> k \<in> set (releases v) \<longrightarrow> map_of (pf_entries F) k \<noteq> None"
  shows "\<exists>F'. SetTypes infos releases pid types F = Inr F' \<and>
    (\<forall>i. i \<noteq> 0 \<longrightarrow> RefGet i pid F' =
       (if \<not> bit types i then Inl Assertion
        else if RefHas (CreateTypeID [i]) pid F = Inr True then RefGet i pid F
        else Inr (Comp i (default_of infos i)))) \<and>
    (\<forall>q i. q \<noteq> pid \<longrightarrow> RefGet i q F' = RefGet i q F)"
proof -
  obtain A where A: "rep infos all F A" by (rule run_rep [OF ok w run])
  obtain P where P: "rep_at infos all P F A" using A by (auto simp: rep_def)
  obtain e where e: "map_of (es_entities A) pid = Some e" using pid entry_rep [OF A, of pid] by auto
  note read = RefGet_rep [OF ok A]
  let ?N = "types OR 1" and ?r = "concat (map (releases \<circ> en_value e) (removed infos (en_types e) (types OR 1)))"
  have "map_of (es_entities A) k \<noteq> None" if k: "k \<in> set ?r" for k
  proof -
    obtain i where i: "i \<in> set (removed infos (en_types e) ?N)" "k \<in> set (releases (en_value e i))" using k by auto
    then have "RefGet i pid F = Inr (Comp i (en_value e i))" using e by (simp add: read sp_read_def removed_def)
    then have "map_of (pf_entries F) k \<noteq> None" using refs i(2) by blast
    then show ?thesis using entry_rep [OF A, of k] by simp
  qed
  then obtain A1 where A1: "sp_release ?r A = Inr A1" "counts_only A A1" using release_ok [of ?r A] by blast
  obtain e1 where e1: "map_of (es_entities A1) pid = Some e1" "en_types e1 = en_types e" "en_value e1 = en_value e"
    using counts_onlyD(1) [OF A1(2) e] by blast
  let ?A = "sp_put pid (retype infos ?N e1) A1"
  have chg: "sp_change infos releases pid (\<lambda>_. ?N) A = Inr ?A" using e A1(1) e1(1) by (simp add: sp_change_def Let_def)
  have "within all ?N" using t within_one [OF ok] by (rule within_or)
  then have "agree (rep infos all) (SetTypes infos releases pid types F) (Inr ?A)"
    using change_sim [OF ok P, of pid "\<lambda>_. ?N" releases] bit_header chg by (simp add: SetTypes_def del: One_nat_def)
  then obtain F' where F': "SetTypes infos releases pid types F = Inr F'" "rep infos all F' ?A" by (auto simp: agree_Inr)
  note read' = RefGet_rep [OF ok F'(2)]
  have "RefGet i pid F' = (if \<not> bit types i then Inl Assertion
      else if RefHas (CreateTypeID [i]) pid F = Inr True then RefGet i pid F else Inr (Comp i (default_of infos i)))"
    if "i \<noteq> 0" for i
    using that e e1 unfolding read read' RefHas_rep [OF A]
    by (auto simp: sp_read_def sp_put_def map_of_update retype_def HasTypes_single bit_or_iff bit_1_iff simp del: One_nat_def)
  moreover have "RefGet i q F' = RefGet i q F" if "q \<noteq> pid" for i q
  proof -
    have "map_of (es_entities ?A) q = map_of (es_entities A1) q" using that by (simp add: sp_put_def map_of_update)
    moreover have "sp_read i q A1 = sp_read i q A"
      using A1(2) by (cases "map_of (es_entities A) q"; cases "map_of (es_entities A1) q")
        (auto simp: sp_read_def counts_only_def dest!: spec [of _ q])
    ultimately show ?thesis unfolding read read' by (simp add: sp_read_def)
  qed
  ultimately show ?thesis using F'(1) by blast
qed

lemma example_run:
  "\<exists>A. rfold (spec_op example_infos (\<lambda>_. [])) example_ops sp_new = Inr A \<and>
    (\<exists>e. map_of (es_entities A) 7 = Some e \<and> en_types e = CreateTypeID [1, 2] OR 1 \<and> en_value e 2 = 25)"
  by (simp add: example_ops_def sp_new_def sp_get_def sp_put_def sp_listen_def sp_assign_def bit_or_iff bit_CreateTypeID)

theorem set_types_keeps_values_witness:
  "\<exists>F F'. rfold (factory_op example_infos (\<lambda>_. [])) example_ops new_PolyFactory = Inr F \<and>
    SetTypes example_infos (\<lambda>_. []) 7 (CreateTypeID [2, 3]) F = Inr F' \<and>
    RefGet 2 7 F' = Inr (Comp 2 25) \<and> RefGet 3 7 F' = Inr (Comp 3 30) \<and> RefGet 1 7 F' = Inl Assertion"
proof -
  obtain A e where A: "rfold (spec_op example_infos (\<lambda>_. [])) example_ops sp_new = Inr A"
    "map_of (es_entities A) 7 = Some e" "en_types e = CreateTypeID [1, 2] OR 1" "en_value e 2 = 25"
    using example_run by blast
  obtain F where F: "rfold (factory_op example_infos (\<lambda>_. [])) example_ops new_PolyFactory = Inr F"
    "rep example_infos [0, 1, 2, 3] F A"
    by (rule run_succeeds [OF example_types_ok example_within A(1)])
  have w: "within [0, 1, 2, 3] (CreateTypeID [2, 3])" by (simp add: within_CreateTypeID)
  have pid: "map_of (pf_entries F) 7 \<noteq> None" using entry_rep [OF F(2), of 7] A(2) by simp
  have refs: "\<forall>i v k. RefGet i 7 F = Inr (Comp i v) \<longrightarrow> k \<in> set [] \<longrightarrow> map_of (pf_entries F) k \<noteq> None" by simp
  obtain F' where F': "SetTypes example_infos (\<lambda>_. []) 7 (CreateTypeID [2, 3]) F = Inr F'"
    "\<forall>i. i \<noteq> 0 \<longrightarrow> RefGet i 7 F' = (if \<not> bit (CreateTypeID [2, 3]) i then Inl Assertion
        else if RefHas (CreateTypeID [i]) 7 F = Inr True then RefGet i 7 F else Inr (Comp i (default_of example_infos i)))"
    using set_types_keeps_values [OF example_types_ok example_within w F(1) pid refs] by blast
  have "RefGet 2 7 F = Inr (Comp 2 25)" "RefHas (CreateTypeID [2]) 7 F = Inr True" "RefHas (CreateTypeID [3]) 7 F = Inr False"
    using A(2-4) by (auto simp: RefGet_rep [OF example_types_ok F(2)] RefHas_rep [OF F(2)] sp_read_def HasTypes_single
        bit_or_iff bit_CreateTypeID bit_1_iff simp del: One_nat_def)
  moreover have "default_of example_infos 3 = 30" by (simp add: default_of_def example_infos_def MakeTypeInfo_def)
  ultimately show ?thesis using F(1) F'(1) F'(2) [rule_format, of 1] F'(2) [rule_format, of 2] F'(2) [rule_format, of 3]
    by (auto simp: bit_CreateTypeID)
qed

text \<open>
  C11: \<open>Iterate\<close> visits every poly that has all the given components, visits it once, and visits no other.
\<close>

theorem iterate_visits_once:
  assumes ok: "types_ok infos all" and w: "\<forall>op \<in> set ops. op_within all op"
    and run: "rfold (factory_op infos releases) ops new_PolyFactory = Inr F"
  shows "distinct (Iterate types F) \<and>
    set (Iterate types F) = {pe_header pe | pe. \<exists>pid. map_of (pf_entries F) pid = Some pe \<and> RefHas types pid F = Inr True}"
proof -
  obtain A where "rep infos all F A" by (rule run_rep [OF ok w run])
  then obtain P where P: "rep_at infos all P F A" by (auto simp: rep_def)
  note D = rep_atD [OF P]
  let ?polys = "\<lambda>xs. concat (map (\<lambda>(tid, ae). if HasTypes types tid then ae_polys ae else []) xs)"
  have "distinct (?polys xs) \<and> set (?polys xs) = {p. \<exists>tid ae c. (tid, ae) \<in> set xs \<and> HasTypes types tid \<and> P p = Some (tid, c)}"
    if "distinct (map fst xs)"
      "\<forall>(tid, ae) \<in> set xs. distinct (ae_polys ae) \<and> set (ae_polys ae) = {p. \<exists>c. P p = Some (tid, c)}" for xs
    using that
  proof (induction xs)
    case (Cons x xs)
    obtain tid ae where x: "x = (tid, ae)" by (cases x)
    have "set (ae_polys ae) \<inter> set (?polys xs) = {}"
      using Cons x by (force simp: image_iff)
    then show ?case using Cons x by auto
  qed simp
  moreover have "\<forall>(tid, ae) \<in> set (pf_archetypes F). distinct (ae_polys ae) \<and> set (ae_polys ae) = {p. \<exists>c. P p = Some (tid, c)}"
    using store_okD(2) [OF D(1)] store_okD(1) [OF D(1)] by (auto simp: arch_ok_def)
  ultimately have I: "distinct (Iterate types F)"
    "set (Iterate types F) = {p. \<exists>tid ae c. (tid, ae) \<in> set (pf_archetypes F) \<and> HasTypes types tid \<and> P p = Some (tid, c)}"
    using store_okD(1) [OF D(1)] unfolding Iterate_def by blast+
  have has: "RefHas types pid F = Inr True \<longleftrightarrow> HasTypes types (pe_type_id pe)" if "map_of (pf_entries F) pid = Some pe" for pid pe
    using that by (simp add: RefHas_def)
  have "p \<in> set (Iterate types F) \<longleftrightarrow> (\<exists>pe. p = pe_header pe \<and> (\<exists>pid. map_of (pf_entries F) pid = Some pe \<and>
      RefHas types pid F = Inr True))" for p
  proof
    assume "p \<in> set (Iterate types F)"
    then obtain tid c where t: "HasTypes types tid" "P p = Some (tid, c)" using I(2) by blast
    then obtain pid pe where "map_of (pf_entries F) pid = Some pe" "pe_header pe = p" using ownedD(1) [OF D(3)] by blast
    moreover from this ents_some(2) [OF D(2)] t(2) have "pe_type_id pe = tid" by (fastforce simp: erel_def)
    ultimately show "\<exists>pe. p = pe_header pe \<and> (\<exists>pid. map_of (pf_entries F) pid = Some pe \<and> RefHas types pid F = Inr True)"
      using t(1) has by blast
  next
    assume "\<exists>pe. p = pe_header pe \<and> (\<exists>pid. map_of (pf_entries F) pid = Some pe \<and> RefHas types pid F = Inr True)"
    then obtain pe pid where pe: "p = pe_header pe" "map_of (pf_entries F) pid = Some pe" "HasTypes types (pe_type_id pe)"
      using has by blast
    then obtain c where c: "P p = Some (pe_type_id pe, c)" using ents_some(2) [OF D(2) pe(2)] by (auto simp: erel_def)
    obtain ae where "map_of (pf_archetypes F) (pe_type_id pe) = Some ae" by (rule archetype_of_poly [OF D(1) c])
    then show "p \<in> set (Iterate types F)" using I(2) c pe(3) map_of_SomeD by fast
  qed
  then show ?thesis using I(1) by blast
qed

theorem iterate_visits_once_witness:
  "\<exists>F. rfold (factory_op example_infos (\<lambda>_. [])) example_ops new_PolyFactory = Inr F \<and>
    distinct (Iterate (CreateTypeID [1]) F) \<and>
    set (Iterate (CreateTypeID [1]) F) =
      {pe_header pe | pe. \<exists>pid. map_of (pf_entries F) pid = Some pe \<and> RefHas (CreateTypeID [1]) pid F = Inr True}"
proof -
  obtain A where A: "rfold (spec_op example_infos (\<lambda>_. [])) example_ops sp_new = Inr A" using example_run by blast
  obtain F where F: "rfold (factory_op example_infos (\<lambda>_. [])) example_ops new_PolyFactory = Inr F"
    by (rule run_succeeds [OF example_types_ok example_within A])
  with iterate_visits_once [OF example_types_ok example_within F, of "CreateTypeID [1]"] show ?thesis by blast
qed

fun listeners :: "PolyEvent \<Rightarrow> nat \<Rightarrow> ('k, 'v, 'e) FactoryOp list \<Rightarrow> 'e list" where
  "listeners ev tid [] = []"
| "listeners ev tid (OpListen types event callback # ops) =
     (if event = ev \<and> HasTypes types tid then [callback] else []) @ listeners ev tid ops"
| "listeners ev tid (_ # ops) = listeners ev tid ops"

lemma spec_listeners:
  "rfold (spec_op infos releases) ops A = Inr A' \<Longrightarrow>
   listening (es_listeners A') ev tid = listening (es_listeners A) ev tid @ listeners ev tid ops"
proof (induction ops arbitrary: A)
  case (Cons op ops)
  obtain A1 where A1: "spec_op infos releases op A = Inr A1" "rfold (spec_op infos releases) ops A1 = Inr A'"
    using Cons.prems by (auto simp: rbind_eq_Inr_iff)
  have "listening (es_listeners A1) ev tid = listening (es_listeners A) ev tid @ listeners ev tid [op]"
    using A1(1) spec_keeps_listeners [of infos releases op A A1]
    by (cases op) (auto simp: sp_listen_def listening_def)
  moreover have "listeners ev tid (op # ops) = listeners ev tid [op] @ listeners ev tid ops" by (cases op) simp_all
  ultimately show ?case using Cons.IH [OF A1(2)] by simp
qed simp

text \<open>
  C12: an event of a poly runs the callbacks that were added for it and ask for no component the poly lacks,
  each as often as it was added, whether they were added before the poly existed or after.
\<close>

theorem events_reach_listeners:
  assumes ok: "types_ok infos all" and w: "\<forall>op \<in> set ops. op_within all op"
    and run: "rfold (factory_op infos releases) ops new_PolyFactory = Inr F"
    and pid: "map_of (pf_entries F) pid = Some pe"
  shows "\<exists>callbacks. DoEvent event pid F = Inr callbacks \<and> mset callbacks = mset (listeners event (pe_type_id pe) ops)"
proof -
  obtain A where A: "rfold (spec_op infos releases) ops sp_new = Inr A" "rep infos all F A" by (rule run_rep [OF ok w run])
  obtain P where P: "rep_at infos all P F A" using A(2) by (auto simp: rep_def)
  note D = rep_atD [OF P]
  obtain e where e: "map_of (es_entities A) pid = Some e" using pid entry_rep [OF A(2), of pid] by auto
  obtain ae where ae: "map_of (pf_archetypes F) (en_types e) = Some ae" "pe_archetype pe = pt_address (ae_type ae)"
    "pe_type_id pe = en_types e"
    using rep_lookup [OF P e ok] pid by (metis option.inject)
  have "mset (ae_callbacks ae event) = mset (registered (pf_callbacks F) event (en_types e))"
    using store_okD(2) [OF D(1) ae(1)] by (simp add: arch_ok_def)
  also have "\<dots> = mset (listening (es_listeners A) event (en_types e))" by (rule D(6))
  also have "listening (es_listeners A) event (en_types e) = listeners event (en_types e) ops"
    using spec_listeners [OF A(1), of event "en_types e"] by (simp add: sp_new_def listening_def)
  finally show ?thesis
    using pid ae(2,3) archetype_at_ok [OF D(1) ae(1)] by (simp add: DoEvent_def Archetype_DoEvent_def)
qed

theorem events_reach_listeners_witness:
  "\<exists>F pe callbacks. rfold (factory_op example_infos (\<lambda>_. [])) example_ops new_PolyFactory = Inr F \<and>
    map_of (pf_entries F) 7 = Some pe \<and> DoEvent MainUpdate 7 F = Inr callbacks \<and>
    mset callbacks = mset (listeners MainUpdate (pe_type_id pe) example_ops)"
proof -
  obtain A e where A: "rfold (spec_op example_infos (\<lambda>_. [])) example_ops sp_new = Inr A" "map_of (es_entities A) 7 = Some e"
    using example_run by blast
  obtain F where F: "rfold (factory_op example_infos (\<lambda>_. [])) example_ops new_PolyFactory = Inr F"
    "rep example_infos [0, 1, 2, 3] F A"
    by (rule run_succeeds [OF example_types_ok example_within A(1)])
  obtain pe where "map_of (pf_entries F) 7 = Some pe" using entry_rep [OF F(2), of 7] A(2) by auto
  with events_reach_listeners [OF example_types_ok example_within F(1) this, of MainUpdate] F(1) show ?thesis by blast
qed

lemma held_exists:
  assumes ok: "types_ok infos all" and R: "rep infos all F A" and acc: "accounted infos releases ext A"
    and get: "RefGet i pid F = Inr (Comp i v)" and k: "k \<in> set (releases v)"
  shows "map_of (pf_entries F) k \<noteq> None"
proof -
  obtain e where e: "map_of (es_entities A) pid = Some e" "i \<noteq> 0" "bit (en_types e) i" "v = en_value e i"
    using get by (auto simp: RefGet_rep [OF ok R] sp_read_def split: option.splits if_splits)
  obtain P where "rep_at infos all P F A" using R by (auto simp: rep_def)
  from rep_atD(4) [OF this e(1)] have "within all (en_types e)" .
  then have "i < length infos" using e(3) types_okD(3) [OF ok] by (auto simp: within_def)
  then have "k \<in> set (held infos releases e)" using e k by (auto simp: held_def Suc_le_eq intro!: exI [of _ i])
  then have "k \<in># all_held infos releases A"
    by (rule mset_subset_eqD [OF held_in_all [OF e(1)], of _ infos releases, unfolded set_mset_mset])
  then have "count (ext + all_held infos releases A) k \<noteq> 0" by simp
  then have "map_of (es_entities A) k \<noteq> None" using counted_by_at(2) [OF acc [unfolded accounted_def], of k] by metis
  then show ?thesis using entry_rep [OF R, of k] by simp
qed


definition example_refs :: "nat \<Rightarrow> nat list" where
  "example_refs v = (if v = 25 then [8] else [])"

definition chain_ops :: "(nat, nat, nat) FactoryOp list" where
  "chain_ops = [OpGet 8 (CreateTypeID [2]), OpGet 7 (CreateTypeID [1, 2]), OpAssign 7 2 25, OpGet 9 (CreateTypeID [3]),
    OpReference 9]"

lemma example_blank: "blank example_infos example_refs"
proof -
  have "i < length example_infos \<Longrightarrow> i = 0 \<or> i = 1 \<or> i = 2 \<or> i = 3" for i by (auto simp: example_infos_def)
  then show ?thesis
    by (fastforce simp: blank_def example_refs_def default_of_def example_infos_def MakeTypeInfo_def)
qed

lemma chain_within: "\<forall>op \<in> set chain_ops. op_within [0, 1, 2, 3] op"
  by (simp add: chain_ops_def within_CreateTypeID)

lemma default_example [simp]: "default_of example_infos (Suc 0) = 10" "default_of example_infos 2 = 20"
    "default_of example_infos 3 = 30"
  by (simp_all add: default_of_def example_infos_def MakeTypeInfo_def)

lemma chain_owned: "owned_run example_infos example_refs chain_ops sp_new {#} = Some {#7, 9, 9#}"
  by (simp add: chain_ops_def sp_new_def sp_get_def sp_put_def sp_assign_def sp_add_ref_def sp_read_def bit_or_iff
      bit_CreateTypeID example_refs_def)


text \<open>
  C10: \<open>Cleanup\<close> removes every poly without references; a poly that a caller holds a reference to stays, with all
  its components' values, and what the remaining components refer to stays as well.
\<close>

theorem cleanup_removes_unreferenced:
  assumes ok: "types_ok infos all" and b: "blank infos releases" and w: "\<forall>op \<in> set ops. op_within all op"
    and own: "owned_run infos releases ops sp_new {#} = Some ext"
    and run: "rfold (factory_op infos releases) ops new_PolyFactory = Inr F"
  shows "\<exists>F'. Cleanup infos releases F = Inr F' \<and>
    (\<forall>pid pe. map_of (pf_entries F) pid = Some pe \<longrightarrow> pe_refcount pe = 0 \<longrightarrow> map_of (pf_entries F') pid = None) \<and>
    (\<forall>pid i. pid \<in># ext \<longrightarrow> RefGet i pid F' = RefGet i pid F) \<and>
    (\<forall>pid i v k. RefGet i pid F' = Inr (Comp i v) \<longrightarrow> k \<in> set (releases v) \<longrightarrow> map_of (pf_entries F') k \<noteq> None)"
proof -
  obtain A where A: "rep infos all F A" "accounted infos releases ext A"
    using owned_run_ok [OF ok b w rep_new accounted_new own] run by auto
  obtain A' where A': "sp_cleanup infos releases A = Inr A'" "accounted infos releases ext A'" "remains UNIV A A'"
    "\<forall>k e. map_of (es_entities A) k = Some e \<longrightarrow> en_refs e = 0 \<longrightarrow> map_of (es_entities A') k = None"
    using accounted_cleanup [OF A(2)] by blast
  obtain F' where F': "Cleanup infos releases F = Inr F'" "rep infos all F' A'"
    using Cleanup_sim [OF ok A(1), of releases] A'(1) by (auto simp: agree_Inr)
  obtain P where P: "ents infos P (pf_entries F) (es_entities A)" using A(1) by (auto simp: rep_def rep_at_def)
  have gone: "map_of (pf_entries F') pid = None" if q: "map_of (pf_entries F) pid = Some pe" "pe_refcount pe = 0" for pid pe
  proof -
    obtain e where "map_of (es_entities A) pid = Some e" "en_refs e = 0"
      using ents_some(2) [OF P q(1)] q(2) by (auto simp: erel_def)
    then show ?thesis using A'(4) entry_rep [OF F'(2)] by blast
  qed
  have stays: "RefGet i pid F' = RefGet i pid F" if q: "pid \<in># ext" for pid i
  proof -
    obtain e' where e': "map_of (es_entities A') pid = Some e'"
      using counted_by_at(2) [OF A'(2) [unfolded accounted_def], of pid] q
      by (cases "map_of (es_entities A') pid") (auto simp: count_eq_zero_iff)
    then obtain e where "map_of (es_entities A) pid = Some e" "en_types e' = en_types e" "en_value e' = en_value e"
      using A'(3) unfolding remains_def by blast
    with e' show ?thesis by (simp add: RefGet_rep [OF ok A(1)] RefGet_rep [OF ok F'(2)] sp_read_def)
  qed
  show ?thesis using F'(1) gone stays held_exists [OF ok F'(2) A'(2)] by blast
qed

theorem cleanup_removes_unreferenced_witness:
  "\<exists>F F'. rfold (factory_op example_infos example_refs) chain_ops new_PolyFactory = Inr F \<and>
    Cleanup example_infos example_refs F = Inr F' \<and> RefGet 2 7 F' = RefGet 2 7 F"
proof -
  obtain F where F: "rfold (factory_op example_infos example_refs) chain_ops new_PolyFactory = Inr F"
    using owned_run_ok [OF example_types_ok example_blank chain_within rep_new accounted_new chain_owned] by blast
  have "7 \<in># {#7, 9, 9 :: nat#}" by simp
  then show ?thesis
    using cleanup_removes_unreferenced [OF example_types_ok example_blank chain_within chain_owned F] F by blast
qed

section \<open>Observed on the model\<close>

text \<open>
  \<open>Cleanup\<close> goes through the polys once. When the poly it removes held the last reference to one that it has
  passed already, that one stays, without references, until the next \<open>Cleanup\<close>.
  \<open>SimulationUninitialize\<close> calls it once and asserts that nothing is left.
\<close>

lemma cleanup_leaves_chains:
  "\<exists>F F'. rfold (factory_op example_infos example_refs)
      [OpGet 8 (CreateTypeID [2]), OpGet 7 (CreateTypeID [1, 2]), OpAssign 7 2 25, OpRelease 7] new_PolyFactory = Inr F \<and>
    Cleanup example_infos example_refs F = Inr F' \<and> GetCount F' = 1"
    (is "\<exists>F F'. rfold _ ?ops _ = _ \<and> _")
proof -
  have run: "rfold (spec_op example_infos example_refs) ?ops sp_new =
      Inr \<lparr>es_entities = [(8, \<lparr>en_types = CreateTypeID [2] OR 1, en_value = default_of example_infos, en_refs = 1\<rparr>),
        (7, \<lparr>en_types = CreateTypeID [1, 2] OR 1, en_value = (default_of example_infos)(2 := 25), en_refs = 0\<rparr>)],
        es_listeners = []\<rparr>" (is "_ = Inr ?A")
    by (simp add: sp_new_def sp_get_def sp_put_def sp_assign_def sp_drop_ref_def bit_or_iff bit_CreateTypeID)
  have l: "[1..<length example_infos] = [1, 2, 3]" by (simp add: example_infos_def upt_rec)
  have h: "held example_infos example_refs (snd (es_entities ?A ! 1)) = [8]"
    by (simp add: held_def l bit_or_iff bit_CreateTypeID bit_1_iff example_refs_def default_example [unfolded One_nat_def [symmetric]]
      del: One_nat_def)
  have clean: "sp_cleanup example_infos example_refs ?A =
      Inr \<lparr>es_entities = [(8, \<lparr>en_types = CreateTypeID [2] OR 1, en_value = default_of example_infos, en_refs = 0\<rparr>)],
        es_listeners = []\<rparr>" (is "_ = Inr ?B")
    using h by (simp add: sp_cleanup_def sp_cleanup_entry_def sp_release_def sp_drop_ref_def sp_put_def)
  have w: "\<forall>op \<in> set ?ops. op_within [0, 1, 2, 3] op" by (simp add: within_CreateTypeID)
  obtain F where F: "rfold (factory_op example_infos example_refs) ?ops new_PolyFactory = Inr F"
    "rep example_infos [0, 1, 2, 3] F ?A"
    by (rule run_succeeds [OF example_types_ok w run])
  obtain F' where F': "Cleanup example_infos example_refs F = Inr F'" "rep example_infos [0, 1, 2, 3] F' ?B"
    using Cleanup_sim [OF example_types_ok F(2), of example_refs] clean by (auto simp: agree_Inr)
  have "GetCount F' = 1" using arg_cong [OF rep_keys [OF F'(2)], of length] by (simp add: GetCount_def)
  with F(1) F'(1) show ?thesis by blast
qed

text \<open>
  \<open>WorkerIterate\<close> computes the end of a worker's share from the end of the polys, so every worker with a share
  that is not empty, or with an index that is not zero, runs past them.
\<close>

lemma visit_past_end: "length polys \<le> n \<Longrightarrow> n \<in> set is \<Longrightarrow> visit polys is = Inl Out_Of_Bounds"
proof (induction "is")
  case (Cons i "is")
  then show ?case by (cases "i = n") auto
qed simp

lemma worker_runs_past_the_end:
  assumes "pf_archetypes F = [(tid, ae)]" "HasTypes types tid" "0 < n" "n \<le> length (ae_polys ae)"
  shows "WorkerIterate types n index F = Inl Out_Of_Bounds"
proof -
  let ?l = "length (ae_polys ae)" and ?s = "length (ae_polys ae) div n"
  have "0 < ?s" using assms(3,4) by (simp add: div_greater_zero_iff)
  then have "?l + index * ?s \<in> set [index * ?s..<?l + index * ?s + ?s]" by simp
  from visit_past_end [OF _ this, of "ae_polys ae"] show ?thesis
    using assms by (simp add: WorkerIterate_def Let_def)
qed

text \<open>A component that a change of types moved stays behind as a moved-from object in the memory that is freed.\<close>

lemma moved_components_not_destroyed:
  "0 < i \<Longrightarrow> i < m \<Longrightarrow> i \<in> set old \<Longrightarrow> i \<in> set new \<Longrightarrow> emptied old new c m i = Live (MovedFrom i)"
  by (simp add: emptied_def)

end
