(* ===== verification/TinyOctree.thy ===== *)
theory TinyOctree
  imports Prelude "HOL-Library.Word" "HOL-Library.Sublist"
begin

text \<open>
  \<open>src/Util/TinyOctree.h\<close>: an octree whose nodes lie one behind the other in one growing block of memory and point
  to each other by 16-bit byte distances.

  The block is only ever extended by whole nodes, at its end or in front, so it is modelled as the
  list of the nodes it holds; a byte offset that is not the start of a node, or leads to a node of
  the other kind, is a fault. \<open>d\<close> is \<open>k_depth\<close>, \<open>isz\<close> is \<open>sizeof(ItemNode)\<close> and \<open>inval\<close> is \<open>k_invalid_item\<close>;
  \<open>sizeof(OffsetNode)\<close> is 16.
\<close>

unbundle bit_operations_syntax

section \<open>Nodes and memory\<close>

type_synonym opos = "int \<times> int \<times> int"

datatype 'v onode = OffsetNode "16 word list" | ItemNode "'v list"

definition slot_index :: "bool \<Rightarrow> bool \<Rightarrow> bool \<Rightarrow> nat" where
  "slot_index x y z = 4 * of_bool x + 2 * of_bool y + of_bool z"

fun node_size :: "nat \<Rightarrow> 'v onode \<Rightarrow> nat" where
  "node_size isz (OffsetNode _) = 16"
| "node_size isz (ItemNode _) = isz"

definition data_size :: "nat \<Rightarrow> 'v onode list \<Rightarrow> nat" where
  "data_size isz data = sum_list (map (node_size isz) data)"

fun node_at :: "nat \<Rightarrow> 'v onode list \<Rightarrow> nat \<Rightarrow> 'v onode res" where
  "node_at isz [] off = Inl Out_Of_Bounds"
| "node_at isz (n # ns) off =
     (if off = 0 then Inr n
      else if off < node_size isz n then Inl Uninitialized
      else node_at isz ns (off - node_size isz n))"

fun write_node :: "nat \<Rightarrow> 'v onode list \<Rightarrow> nat \<Rightarrow> 'v onode \<Rightarrow> 'v onode list" where
  "write_node isz [] off m = []"
| "write_node isz (n # ns) off m =
     (if off = 0 then m # ns else n # write_node isz ns (off - node_size isz n) m)"

definition GetOffsetNode :: "nat \<Rightarrow> 'v onode list \<Rightarrow> nat \<Rightarrow> 16 word list res" where
  "GetOffsetNode isz data off =
     rbind (node_at isz data off) (\<lambda>n. case n of OffsetNode os \<Rightarrow> Inr os | ItemNode _ \<Rightarrow> Inl Uninitialized)"

definition GetItemNode :: "nat \<Rightarrow> 'v onode list \<Rightarrow> nat \<Rightarrow> 'v list res" where
  "GetItemNode isz data off =
     rbind (node_at isz data off) (\<lambda>n. case n of ItemNode items \<Rightarrow> Inr items | OffsetNode _ \<Rightarrow> Inl Uninitialized)"

definition empty_offset_node :: "'v onode" where
  "empty_offset_node = OffsetNode (replicate 8 (- 1))"

definition empty_item_node :: "'v \<Rightarrow> 'v onode" where
  "empty_item_node inval = ItemNode (replicate 8 inval)"

definition EmplaceNode :: "nat \<Rightarrow> 'v onode \<Rightarrow> 'v onode list \<Rightarrow> 16 word \<times> 'v onode list" where
  "EmplaceNode isz n data = (of_nat (data_size isz data), data @ [n])"

section \<open>The octree\<close>

record 'v octree =
  to_start_depth :: nat
  to_x_mask :: int
  to_y_mask :: int
  to_z_mask :: int
  to_single_item :: 'v
  to_data :: "'v onode list"

definition new_octree :: "nat \<Rightarrow> 'v \<Rightarrow> 'v octree" where
  "new_octree d inval = \<lparr>to_start_depth = d, to_x_mask = 0, to_y_mask = 0, to_z_mask = 0, to_single_item = inval, to_data = []\<rparr>"

text \<open>The masks are \<open>uint8_t\<close>.\<close>

definition byte :: "int \<Rightarrow> int" where
  "byte n = n mod 256"

definition cut_off :: "nat \<Rightarrow> int \<Rightarrow> int" where
  "cut_off k n = push_bit k (drop_bit k n)"

definition PosInBounds :: "nat \<Rightarrow> opos \<Rightarrow> 'v octree \<Rightarrow> bool" where
  "PosInBounds d pos t =
     (case pos of (x, y, z) \<Rightarrow>
        let cut_off_bits = d - to_start_depth t
        in cut_off cut_off_bits x = to_x_mask t \<and> cut_off cut_off_bits y = to_y_mask t \<and>
           cut_off cut_off_bits z = to_z_mask t)"

definition PosInOctree :: "nat \<Rightarrow> opos \<Rightarrow> bool" where
  "PosInOctree d pos =
     (case pos of (x, y, z) \<Rightarrow> 0 \<le> x \<and> x < push_bit d 1 \<and> 0 \<le> y \<and> y < push_bit d 1 \<and> 0 \<le> z \<and> z < push_bit d 1)"

text \<open>The child that holds the position, at the level of the given bit.\<close>

definition child_index :: "opos \<Rightarrow> int \<Rightarrow> nat" where
  "child_index pos b =
     (case pos of (x, y, z) \<Rightarrow> slot_index (x AND b \<noteq> 0) (y AND b \<noteq> 0) (z AND b \<noteq> 0))"

definition mask_pos :: "'v octree \<Rightarrow> opos" where
  "mask_pos t = (to_x_mask t, to_y_mask t, to_z_mask t)"

definition AddNewRoot :: "nat \<Rightarrow> nat \<Rightarrow> 'v \<Rightarrow> 'v octree \<Rightarrow> 'v octree res" where
  "AddNewRoot d isz inval t =
     (if to_start_depth t = 0 then Inl Assertion
      else
        let start = to_start_depth t - 1; k = d - start
        in rbind
          (if start = d - 1
           then if to_data t \<noteq> [] then Inl Assertion
                else Inr [ItemNode ((replicate 8 inval)[child_index (mask_pos t) 1 := to_single_item t])]
           else Inr (OffsetNode ((replicate 8 (- 1))[child_index (mask_pos t) (push_bit (k - 1) 1) := 16]) # to_data t))
          (\<lambda>data.
             Inr (t\<lparr>to_start_depth := start, to_data := data,
                    to_x_mask := byte (cut_off k (to_x_mask t)),
                    to_y_mask := byte (cut_off k (to_y_mask t)),
                    to_z_mask := byte (cut_off k (to_z_mask t))\<rparr>)))"

function grow_roots :: "nat \<Rightarrow> nat \<Rightarrow> 'v \<Rightarrow> opos \<Rightarrow> 'v octree \<Rightarrow> 'v octree res" where
  "grow_roots d isz inval pos t =
     (if PosInBounds d pos t then Inr t
      else if to_start_depth t = 0 then Inl Assertion
      else rbind (AddNewRoot d isz inval t) (grow_roots d isz inval pos))"
  by pat_completeness auto

termination
  by (relation "measure (\<lambda>(d, isz, inval, pos, t). to_start_depth t)")
    (auto simp: AddNewRoot_def Let_def rbind_eq_Inr_iff split: if_splits)

declare grow_roots.simps [simp del]

text \<open>
  The loop of \<open>Set\<close> over the depths and what follows it; the first argument is the number of levels above
  the leaf that are left, \<open>k_depth - 1 - depth\<close>.
\<close>

fun set_loop ::
    "nat \<Rightarrow> nat \<Rightarrow> 'v \<Rightarrow> opos \<Rightarrow> 'v \<Rightarrow> int \<Rightarrow> 16 word \<Rightarrow> 'v onode list \<Rightarrow> 'v onode list res" where
  "set_loop 0 isz inval pos v b off data =
     rbind (GetItemNode isz data (unat off)) (\<lambda>items.
       Inr (write_node isz data (unat off) (ItemNode (items[child_index pos b := v]))))"
| "set_loop (Suc n) isz inval pos v b off data =
     rbind (GetOffsetNode isz data (unat off)) (\<lambda>os.
       let i = child_index pos b
       in if os ! i = - 1
          then if v = inval then Inr data
               else
                 let (new_off, data1) =
                       EmplaceNode isz (if n = 0 then empty_item_node inval else empty_offset_node) data;
                     child = new_off - off
                 in rbind (GetOffsetNode isz data1 (unat off)) (\<lambda>os1.
                      set_loop n isz inval pos v (b div 2) (off + child)
                        (write_node isz data1 (unat off) (OffsetNode (os1[i := child]))))
          else set_loop n isz inval pos v (b div 2) (off + os ! i) data)"

definition Set_item :: "nat \<Rightarrow> nat \<Rightarrow> 'v \<Rightarrow> opos \<Rightarrow> 'v \<Rightarrow> 'v octree \<Rightarrow> 'v octree res" where
  "Set_item d isz inval pos v t =
     (if \<not> PosInOctree d pos then Inr t
      else if to_start_depth t = d \<and> to_data t \<noteq> [] then Inl Assertion
      else if to_start_depth t = d \<and> to_single_item t = inval
      then (case pos of (x, y, z) \<Rightarrow>
              Inr (t\<lparr>to_single_item := v, to_x_mask := byte x, to_y_mask := byte y, to_z_mask := byte z\<rparr>))
      else if to_start_depth t = d \<and> v = inval \<and> PosInBounds d pos t
      then Inr (t\<lparr>to_single_item := inval, to_x_mask := 0, to_y_mask := 0, to_z_mask := 0\<rparr>)
      else
        rbind (grow_roots d isz inval pos t) (\<lambda>t1.
          if to_start_depth t1 = d
          then if to_data t1 \<noteq> [] then Inl Assertion else Inr (t1\<lparr>to_single_item := v\<rparr>)
          else
            rbind (set_loop (d - 1 - to_start_depth t1) isz inval pos v (push_bit (d - to_start_depth t1 - 1) 1) 0 (to_data t1))
              (\<lambda>data. Inr (t1\<lparr>to_data := data\<rparr>))))"

fun get_loop :: "nat \<Rightarrow> nat \<Rightarrow> 'v \<Rightarrow> opos \<Rightarrow> int \<Rightarrow> nat \<Rightarrow> 'v onode list \<Rightarrow> 'v res" where
  "get_loop 0 isz inval pos b p data =
     rbind (GetItemNode isz data p) (\<lambda>items. Inr (items ! child_index pos b))"
| "get_loop (Suc n) isz inval pos b p data =
     rbind (GetOffsetNode isz data p) (\<lambda>os.
       let offset = os ! child_index pos b
       in if offset = - 1 then Inr inval else get_loop n isz inval pos (b div 2) (p + unat offset) data)"

definition Get_item :: "nat \<Rightarrow> nat \<Rightarrow> 'v \<Rightarrow> opos \<Rightarrow> 'v octree \<Rightarrow> 'v res" where
  "Get_item d isz inval pos t =
     (if \<not> PosInOctree d pos then Inr inval
      else if \<not> PosInBounds d pos t then Inr inval
      else if to_start_depth t = d
      then if to_data t \<noteq> [] then Inl Assertion else Inr (to_single_item t)
      else get_loop (d - 1 - to_start_depth t) isz inval pos (push_bit (d - to_start_depth t - 1) 1) 0 (to_data t))"

definition OctreeClear :: "nat \<Rightarrow> 'v \<Rightarrow> 'v octree \<Rightarrow> 'v octree" where
  "OctreeClear d inval t = new_octree d inval"

section \<open>Iteration\<close>

text \<open>The loops over \<open>x\<close>, \<open>y\<close> and \<open>z\<close>, and the order they go in.\<close>

definition corners :: "(int \<times> int \<times> int) list" where
  "corners = [(x, y, z). x \<leftarrow> [0, 1], y \<leftarrow> [0, 1], z \<leftarrow> [0, 1]]"

definition pos_add :: "opos \<Rightarrow> opos \<Rightarrow> opos" where
  "pos_add p q = (case p of (x, y, z) \<Rightarrow> case q of (a, b, c) \<Rightarrow> (x + a, y + b, z + c))"

definition pos_shift :: "opos \<Rightarrow> nat \<Rightarrow> opos" where
  "pos_shift p n = (case p of (x, y, z) \<Rightarrow> (push_bit n x, push_bit n y, push_bit n z))"

definition corner_index :: "opos \<Rightarrow> nat" where
  "corner_index c = (case c of (x, y, z) \<Rightarrow> slot_index (x \<noteq> 0) (y \<noteq> 0) (z \<noteq> 0))"

definition IterateLeaf :: "nat \<Rightarrow> 'v \<Rightarrow> 'v onode list \<Rightarrow> nat \<Rightarrow> opos \<Rightarrow> (opos \<times> 'v) list res" where
  "IterateLeaf isz inval data p pos =
     rbind (GetItemNode isz data p) (\<lambda>items.
       Inr (concat (map (\<lambda>c. let item = items ! corner_index c
                             in if item = inval then [] else [(pos_add pos c, item)]) corners)))"

definition visit_children ::
    "(nat \<Rightarrow> opos \<Rightarrow> (opos \<times> 'v) list res) \<Rightarrow> 16 word list \<Rightarrow> nat \<Rightarrow> nat \<Rightarrow> opos \<Rightarrow> (opos \<times> 'v) list res" where
  "visit_children visit_child node shift p pos =
     rfold (\<lambda>c visited.
       let offset = node ! corner_index c
       in if offset = - 1 then Inr visited
          else rbind (visit_child (p + unat offset) (pos_add pos (pos_shift c shift))) (\<lambda>xs. Inr (visited @ xs)))
       corners []"

text \<open>The first argument is the number of levels between this node's children and the leaves, \<open>k_depth - 1 - child_depth\<close>.\<close>

fun IterateBranch :: "nat \<Rightarrow> nat \<Rightarrow> 'v \<Rightarrow> 'v onode list \<Rightarrow> nat \<Rightarrow> opos \<Rightarrow> (opos \<times> 'v) list res" where
  "IterateBranch 0 isz inval data p pos =
     rbind (GetOffsetNode isz data p) (\<lambda>node. visit_children (IterateLeaf isz inval data) node 1 p pos)"
| "IterateBranch (Suc n) isz inval data p pos =
     rbind (GetOffsetNode isz data p) (\<lambda>node. visit_children (IterateBranch n isz inval data) node (n + 2) p pos)"

definition Iterate_items :: "nat \<Rightarrow> nat \<Rightarrow> 'v \<Rightarrow> 'v octree \<Rightarrow> (opos \<times> 'v) list res" where
  "Iterate_items d isz inval t =
     (if to_start_depth t = d
      then if to_data t \<noteq> [] then Inl Assertion
           else Inr (if to_single_item t \<noteq> inval then [(mask_pos t, to_single_item t)] else [])
      else if to_start_depth t = d - 1 then IterateLeaf isz inval (to_data t) 0 (mask_pos t)
      else IterateBranch (d - 2 - to_start_depth t) isz inval (to_data t) 0 (mask_pos t))"

text \<open>\<open>m_single_item\<close> is not among the members that are swapped.\<close>

definition OctreeShrinkToFit :: "nat \<Rightarrow> nat \<Rightarrow> 'v \<Rightarrow> 'v octree \<Rightarrow> 'v octree res" where
  "OctreeShrinkToFit d isz inval t =
     (if to_data t = [] then if to_start_depth t \<noteq> d then Inl Assertion else Inr t
      else if \<not> to_start_depth t < d then Inl Assertion
      else
        rbind (Iterate_items d isz inval t) (\<lambda>xs.
        rbind (rfold (\<lambda>(pos, item). Set_item d isz inval pos item) xs (new_octree d inval)) (\<lambda>t'.
          Inr (t\<lparr>to_start_depth := to_start_depth t', to_x_mask := to_x_mask t', to_y_mask := to_y_mask t',
                 to_z_mask := to_z_mask t', to_data := to_data t'\<rparr>))))"

end
