(* ===== verification/TinyOctreeNodes.thy ===== *)
theory TinyOctreeNodes
  imports TinyOctree
begin

text \<open>
  The nodes of a \<open>TinyOctree\<close> as a tree: which node each path of child indices leads to. Adding a node changes
  the paths through it only, since no two paths lead to one node.
\<close>

section \<open>Memory\<close>

lemma data_size_simps [simp]:
  "data_size isz [] = 0" "data_size isz (n # ns) = node_size isz n + data_size isz ns"
  "data_size isz (xs @ ys) = data_size isz xs + data_size isz ys"
  by (simp_all add: data_size_def)

lemma node_size_pos: "0 < isz \<Longrightarrow> 0 < node_size isz n"
  by (cases n) simp_all

lemma node_at_bound: "node_at isz data off = Inr n \<Longrightarrow> 0 < isz \<Longrightarrow> off + node_size isz n \<le> data_size isz data"
  by (induction isz data off rule: node_at.induct) (auto split: if_splits)

lemma node_at_append: "off < data_size isz xs \<Longrightarrow> node_at isz (xs @ ys) off = node_at isz xs off"
  by (induction isz xs off rule: node_at.induct) auto

lemma node_at_end: "0 < isz \<Longrightarrow> node_at isz (xs @ [n]) (data_size isz xs) = Inr n"
proof (induction xs)
  case (Cons a xs)
  then show ?case using node_size_pos [of isz a] by simp
qed simp

lemma node_at_shift: "0 < isz \<Longrightarrow> node_at isz (n # ns) (node_size isz n + off) = node_at isz ns off"
  using node_size_pos [of isz n] by simp

lemma write_node_size:
  "node_at isz data off = Inr n \<Longrightarrow> node_size isz m = node_size isz n \<Longrightarrow>
   data_size isz (write_node isz data off m) = data_size isz data"
  by (induction isz data off rule: node_at.induct) (auto split: if_splits)

lemma node_at_write:
  "node_at isz data off = Inr n \<Longrightarrow> node_size isz m = node_size isz n \<Longrightarrow> 0 < isz \<Longrightarrow>
   node_at isz (write_node isz data off m) off' = (if off' = off then Inr m else node_at isz data off')"
proof (induction isz data off arbitrary: off' rule: node_at.induct)
  case (2 isz k ns off)
  show ?case
  proof (cases "off = 0")
    case True
    then show ?thesis using 2 node_size_pos [of isz k] by auto
  next
    case False
    then have "\<not> off < node_size isz k" "node_at isz ns (off - node_size isz k) = Inr n"
      using "2.prems"(1) by (auto split: if_splits)
    then show ?thesis using False 2 node_size_pos [of isz k] by auto
  qed
qed simp

section \<open>Paths\<close>

definition child_of :: "nat \<Rightarrow> 'v onode list \<Rightarrow> nat \<Rightarrow> nat \<Rightarrow> nat option" where
  "child_of isz data off i =
     (case node_at isz data off of
        Inr (OffsetNode os) \<Rightarrow> if 8 \<le> i \<or> os ! i = - 1 then None else Some (off + unat (os ! i))
      | _ \<Rightarrow> None)"

definition follow :: "(nat \<Rightarrow> nat \<Rightarrow> nat option) \<Rightarrow> nat list \<Rightarrow> nat option" where
  "follow f p = foldl (\<lambda>m i. case m of None \<Rightarrow> None | Some off \<Rightarrow> f off i) (Some 0) p"

lemma follow_simps [simp]:
  "follow f [] = Some 0"
  "follow f (p @ [i]) = (case follow f p of None \<Rightarrow> None | Some off \<Rightarrow> f off i)"
  by (simp_all add: follow_def)

text \<open>A new edge, to a node without children, at a node that one path leads to.\<close>

lemma follow_new_edge:
  assumes o: "follow f p = Some a" "f a i = None"
    and unique: "\<And>q. follow f q = Some a \<Longrightarrow> q = p"
    and same: "\<And>q b j. follow f q = Some b \<Longrightarrow> b \<noteq> a \<or> j \<noteq> i \<Longrightarrow> g b j = f b j"
    and new: "g a i = Some l" "\<And>j. g l j = None"
  shows "follow g q = (if prefix (p @ [i]) q then if q = p @ [i] then Some l else None else follow f q)"
proof (induction q rule: rev_induct)
  case Nil
  then show ?case by simp
next
  case (snoc j q)
  consider (beyond) "prefix (p @ [i]) q" | (edge) "\<not> prefix (p @ [i]) q" "q @ [j] = p @ [i]"
    | (other) "\<not> prefix (p @ [i]) q" "q @ [j] \<noteq> p @ [i]" by blast
  then show ?case
  proof cases
    case beyond
    then have "q @ [j] \<noteq> p @ [i]" by (metis butlast_snoc prefix_length_le length_append_singleton Suc_n_not_le_n)
    then show ?thesis using beyond snoc new(2) by (auto split: option.splits)
  next
    case edge
    then show ?thesis using snoc o(1) new(1) by simp
  next
    case other
    then have np: "\<not> prefix (p @ [i]) (q @ [j])" by (auto simp: prefix_snoc)
    have "follow g q = follow f q" using snoc other(1) by simp
    moreover have "g b j = f b j" if "follow f q = Some b" for b
      using same [OF that] unique [of q] that other(2) by blast
    ultimately show ?thesis using np by (auto split: option.splits)
  qed
qed

section \<open>Well-formed trees\<close>

definition paths :: "nat \<Rightarrow> nat list set" where
  "paths n = {p. length p = n \<and> set p \<subseteq> {..<8}}"

definition reached :: "nat \<Rightarrow> 'v onode list \<Rightarrow> nat \<Rightarrow> nat list set" where
  "reached isz data n = {p \<in> paths n. follow (child_of isz data) p \<noteq> None}"

text \<open>A tree with \<open>h\<close> levels of offset nodes above its leaves.\<close>

definition tree_ok :: "nat \<Rightarrow> 'v onode list \<Rightarrow> nat \<Rightarrow> bool" where
  "tree_ok isz data h \<longleftrightarrow>
     (\<forall>p off. follow (child_of isz data) p = Some off \<longrightarrow>
        p \<in> (\<Union>n \<le> h. paths n) \<and>
        (if length p < h then \<exists>os. node_at isz data off = Inr (OffsetNode os) \<and> length os = 8
         else \<exists>items. node_at isz data off = Inr (ItemNode items) \<and> length items = 8)) \<and>
     (\<forall>p q off. follow (child_of isz data) p = Some off \<longrightarrow> follow (child_of isz data) q = Some off \<longrightarrow> p = q) \<and>
     data_size isz data = 16 * (\<Sum>n < h. card (reached isz data n)) + isz * card (reached isz data h)"

lemma tree_okD:
  assumes "tree_ok isz data h" "follow (child_of isz data) p = Some off"
  shows "set p \<subseteq> {..<8}" "length p \<le> h"
    "length p < h \<Longrightarrow> \<exists>os. node_at isz data off = Inr (OffsetNode os) \<and> length os = 8"
    "\<not> length p < h \<Longrightarrow> \<exists>items. node_at isz data off = Inr (ItemNode items) \<and> length items = 8"
    "follow (child_of isz data) q = Some off \<Longrightarrow> p = q"
proof -
  have "p \<in> (\<Union>n \<le> h. paths n)" using assms unfolding tree_ok_def by blast
  then show "set p \<subseteq> {..<8}" "length p \<le> h" by (auto simp: paths_def)
  show "length p < h \<Longrightarrow> \<exists>os. node_at isz data off = Inr (OffsetNode os) \<and> length os = 8"
    "\<not> length p < h \<Longrightarrow> \<exists>items. node_at isz data off = Inr (ItemNode items) \<and> length items = 8"
    using assms unfolding tree_ok_def by presburger+
  show "follow (child_of isz data) q = Some off \<Longrightarrow> p = q" using assms unfolding tree_ok_def by blast
qed

lemma tree_okI:
  assumes "\<And>p off. follow (child_of isz data) p = Some off \<Longrightarrow> p \<in> (\<Union>n \<le> h. paths n) \<and>
      (if length p < h then \<exists>os. node_at isz data off = Inr (OffsetNode os) \<and> length os = 8
       else \<exists>items. node_at isz data off = Inr (ItemNode items) \<and> length items = 8)"
    and "\<And>p q off. follow (child_of isz data) p = Some off \<Longrightarrow> follow (child_of isz data) q = Some off \<Longrightarrow> p = q"
    and "data_size isz data = 16 * (\<Sum>n < h. card (reached isz data n)) + isz * card (reached isz data h)"
  shows "tree_ok isz data h"
  unfolding tree_ok_def using assms by blast

text \<open>The memory a tree can need.\<close>

definition capacity :: "nat \<Rightarrow> nat \<Rightarrow> nat" where
  "capacity isz h = 16 * (\<Sum>n < h. 8 ^ n) + isz * 8 ^ h"

lemma finite_paths: "finite (paths n)" and card_paths: "card (paths n) = 8 ^ n"
proof -
  have eq: "paths n = {p. set p \<subseteq> {..<8} \<and> length p = n}" by (auto simp: paths_def)
  show "finite (paths n)" unfolding eq by (rule finite_lists_length_eq) simp
  show "card (paths n) = 8 ^ n" unfolding eq by (subst card_lists_length_eq) simp_all
qed

lemma finite_reached: "finite (reached isz data n)"
  by (rule finite_subset [OF _ finite_paths [of n]]) (auto simp: reached_def)

lemma card_reached: "card (reached isz data n) \<le> 8 ^ n"
  unfolding card_paths [symmetric] by (rule card_mono [OF finite_paths]) (auto simp: reached_def)

lemma tree_capacity: "tree_ok isz data h \<Longrightarrow> data_size isz data \<le> capacity isz h"
  unfolding tree_ok_def capacity_def by (simp add: add_mono sum_mono card_reached)

lemma capacity_mono: "16 \<le> isz \<Longrightarrow> h \<le> k \<Longrightarrow> capacity isz h \<le> capacity isz k"
proof (induction k)
  case (Suc k)
  have "capacity isz k \<le> capacity isz (Suc k)" by (simp add: capacity_def algebra_simps)
  with Suc show ?case by (cases "h = Suc k") auto
qed simp

text \<open>What a path leads to that ends in a leaf, and the item there.\<close>

definition item_at :: "nat \<Rightarrow> 'v \<Rightarrow> 'v onode list \<Rightarrow> nat list \<Rightarrow> nat \<Rightarrow> 'v" where
  "item_at isz inval data p j =
     (case follow (child_of isz data) p of
        None \<Rightarrow> inval
      | Some off \<Rightarrow> (case node_at isz data off of Inr (ItemNode items) \<Rightarrow> items ! j | _ \<Rightarrow> inval))"

section \<open>Changing an item\<close>

lemma child_of_write_item:
  assumes "node_at isz data off = Inr (ItemNode items)" "0 < isz"
  shows "child_of isz (write_node isz data off (ItemNode items')) = child_of isz data"
  using assms by (intro ext) (simp add: child_of_def node_at_write)

lemma write_item_ok:
  assumes T: "tree_ok isz data h" and p: "follow (child_of isz data) p = Some off" "length p = h"
    and n: "node_at isz data off = Inr (ItemNode items)" and j: "j < 8" and isz: "0 < isz"
  shows "tree_ok isz (write_node isz data off (ItemNode (items[j := v]))) h"
    "item_at isz inval (write_node isz data off (ItemNode (items[j := v]))) q i =
      (if q = p \<and> i = j then v else item_at isz inval data q i)"
proof -
  let ?data = "write_node isz data off (ItemNode (items[j := v]))"
  note c = child_of_write_item [OF n isz]
  have len: "length items = 8" using tree_okD(4) [OF T p(1)] p(2) n by auto
  have at: "node_at isz ?data off' = (if off' = off then Inr (ItemNode (items[j := v])) else node_at isz data off')" for off'
    by (rule node_at_write [OF n _ isz]) simp
  have s: "data_size isz ?data = data_size isz data" by (rule write_node_size [OF n]) simp
  have A: "q \<in> (\<Union>n \<le> h. paths n) \<and> (if length q < h then \<exists>os. node_at isz ?data o' = Inr (OffsetNode os) \<and> length os = 8
      else \<exists>items. node_at isz ?data o' = Inr (ItemNode items) \<and> length items = 8)"
    if q: "follow (child_of isz data) q = Some o'" for q o'
  proof (cases "o' = off")
    case True
    then have "q = p" using tree_okD(5) [OF T p(1), of q] q by simp
    then show ?thesis using p(2) tree_okD(1) [OF T p(1)] len by (auto simp: True at paths_def)
  next
    case False
    then show ?thesis using q T by (simp add: at tree_ok_def)
  qed
  have B: "data_size isz ?data = 16 * (\<Sum>n < h. card (reached isz ?data n)) + isz * card (reached isz ?data h)"
    using T unfolding tree_ok_def reached_def c s by blast
  show "tree_ok isz ?data h"
    by (rule tree_okI [OF _ _ B]; unfold c; (rule A tree_okD(5) [OF T]; assumption))
  show "item_at isz inval ?data q i = (if q = p \<and> i = j then v else item_at isz inval data q i)"
  proof (cases "q = p")
    case True
    then show ?thesis using p n len j by (simp add: item_at_def c at nth_list_update)
  next
    case False
    then have "follow (child_of isz data) q \<noteq> Some off" using tree_okD(5) [OF T p(1), of q] by auto
    then show ?thesis using False by (cases "follow (child_of isz data) q") (simp_all add: item_at_def c at)
  qed
qed

section \<open>Adding a node\<close>

text \<open>The offset, relative to its parent, that is stored for a node at the end.\<close>

lemma child_offset:
  assumes "off < l" "l < 65535"
  shows "off + unat (of_nat l - (of_nat off :: 16 word)) = l" "of_nat l - (of_nat off :: 16 word) \<noteq> - 1"
proof -
  have "(of_nat l :: 16 word) - of_nat off = of_nat (l - off)" using assms by (simp add: of_nat_diff)
  moreover have u: "unat (of_nat (l - off) :: 16 word) = l - off"
    by (subst unat_of_nat) (use assms in simp)
  ultimately show "off + unat (of_nat l - (of_nat off :: 16 word)) = l" using assms by simp
  have "unat (- 1 :: 16 word) = 65535" by (simp add: unsigned_minus_1_eq_mask mask_eq_exp_minus_1)
  then have "(of_nat (l - off) :: 16 word) \<noteq> - 1" using u assms by (metis diff_le_self leD less_imp_le_nat order_trans)
  with \<open>of_nat l - of_nat off = of_nat (l - off)\<close> show "of_nat l - (of_nat off :: 16 word) \<noteq> - 1" by simp
qed

definition new_node :: "nat \<Rightarrow> 'v \<Rightarrow> 'v onode" where
  "new_node n inval = (if n = 0 then empty_item_node inval else empty_offset_node)"

lemma child_of_new:
  "node_at isz data off = Inr (new_node n inval) \<Longrightarrow> child_of isz data off j = None"
  by (auto simp: child_of_def new_node_def empty_item_node_def empty_offset_node_def)

definition with_node ::
    "nat \<Rightarrow> 'v \<Rightarrow> nat \<Rightarrow> nat \<Rightarrow> 16 word list \<Rightarrow> nat \<Rightarrow> 'v onode list \<Rightarrow> 'v onode list" where
  "with_node isz inval n off os i data =
     write_node isz (data @ [new_node n inval]) off
       (OffsetNode (os[i := of_nat (data_size isz data) - of_nat off]))"

text \<open>The offset node \<open>off\<close> gets a new child at index \<open>i\<close>.\<close>

definition can_add :: "nat \<Rightarrow> 'v onode list \<Rightarrow> nat \<Rightarrow> nat list \<Rightarrow> nat \<Rightarrow> 16 word list \<Rightarrow> nat \<Rightarrow> bool" where
  "can_add isz data h p off os i \<longleftrightarrow>
     tree_ok isz data h \<and> follow (child_of isz data) p = Some off \<and> length p < h \<and>
     node_at isz data off = Inr (OffsetNode os) \<and> os ! i = - 1 \<and> i < 8 \<and> 0 < isz \<and> data_size isz data < 65535"

lemma can_addD:
  assumes "can_add isz data h p off os i"
  shows "tree_ok isz data h" "follow (child_of isz data) p = Some off" "length p < h"
    "node_at isz data off = Inr (OffsetNode os)" "os ! i = - 1" "i < 8" "0 < isz" "data_size isz data < 65535"
    "off < data_size isz data" "length os = 8" "set p \<subseteq> {..<8}"
proof -
  show "tree_ok isz data h" "follow (child_of isz data) p = Some off" "length p < h"
    "node_at isz data off = Inr (OffsetNode os)" "os ! i = - 1" "i < 8" "0 < isz" "data_size isz data < 65535"
    using assms by (simp_all add: can_add_def)
  then show "off < data_size isz data" using node_at_bound [of isz data off "OffsetNode os"] by simp
  show "length os = 8" "set p \<subseteq> {..<8}" using assms tree_okD(1,3) unfolding can_add_def by fastforce+
qed

lemma with_node_at:
  assumes "can_add isz data h p off os i"
  shows "node_at isz (with_node isz inval n off os i data) b =
    (if b = off then Inr (OffsetNode (os[i := of_nat (data_size isz data) - of_nat off]))
     else node_at isz (data @ [new_node n inval]) b)"
proof -
  note D = can_addD [OF assms]
  have "node_at isz (data @ [new_node n inval]) off = Inr (OffsetNode os)"
    using node_at_append [OF D(9)] D(4) by simp
  from node_at_write [OF this _ D(7)] show ?thesis by (simp add: with_node_def)
qed

lemma with_node_size:
  assumes "can_add isz data h p off os i"
  shows "data_size isz (with_node isz inval n off os i data) = data_size isz data + node_size isz (new_node n inval)"
proof -
  note D = can_addD [OF assms]
  have "node_at isz (data @ [new_node n inval]) off = Inr (OffsetNode os)"
    using node_at_append [OF D(9)] D(4) by simp
  from write_node_size [OF this] show ?thesis by (simp add: with_node_def)
qed

lemma with_node_old:
  assumes C: "can_add isz data h p off os i" and q: "follow (child_of isz data) q = Some b"
  shows "b < data_size isz data" "b \<noteq> off \<Longrightarrow> node_at isz (with_node isz inval n off os i data) b = node_at isz data b"
proof -
  note D = can_addD [OF C]
  obtain m where "node_at isz data b = Inr m" using tree_okD(3,4) [OF D(1) q] by blast
  then show b: "b < data_size isz data" using node_at_bound [OF _ D(7)] node_size_pos [OF D(7), of m] by fastforce
  show "b \<noteq> off \<Longrightarrow> node_at isz (with_node isz inval n off os i data) b = node_at isz data b"
    by (simp add: with_node_at [OF C] node_at_append [OF b])
qed

lemma with_node_follow:
  assumes C: "can_add isz data h p off os i"
  shows "follow (child_of isz (with_node isz inval n off os i data)) q =
    (if prefix (p @ [i]) q then if q = p @ [i] then Some (data_size isz data) else None
     else follow (child_of isz data) q)"
proof (rule follow_new_edge)
  note D = can_addD [OF C]
  show "follow (child_of isz data) p = Some off" by (rule D(2))
  show "child_of isz data off i = None" using D(4,5) by (simp add: child_of_def)
  show "follow (child_of isz data) q = Some off \<Longrightarrow> q = p" for q using tree_okD(5) [OF D(1,2)] by blast
  show "child_of isz (with_node isz inval n off os i data) b j = child_of isz data b j"
    if "follow (child_of isz data) q = Some b" "b \<noteq> off \<or> j \<noteq> i" for q b j
    using with_node_old [OF C that(1)] that(2) D(4)
    by (cases "b = off") (auto simp: child_of_def with_node_at [OF C])
  show "child_of isz (with_node isz inval n off os i data) off i = Some (data_size isz data)"
    using child_offset [OF D(9,8)] D(6,10) by (simp add: child_of_def with_node_at [OF C])
  have "node_at isz (with_node isz inval n off os i data) (data_size isz data) = Inr (new_node n inval)"
    using D(9) node_at_end [OF D(7)] by (simp add: with_node_at [OF C])
  then show "child_of isz (with_node isz inval n off os i data) (data_size isz data) j = None" for j
    by (rule child_of_new)
qed

lemma no_path:
  assumes C: "can_add isz data h p off os i" and q: "prefix (p @ [i]) q"
  shows "follow (child_of isz data) q = None"
proof -
  note D = can_addD [OF C]
  have none: "child_of isz data off i = None" using D(4,5) by (simp add: child_of_def)
  have "follow (child_of isz data) ((p @ [i]) @ r) = None" for r
  proof (induction r rule: rev_induct)
    case Nil
    then show ?case using D(2) none by simp
  next
    case (snoc x r)
    then show ?case using follow_simps(2) [of "child_of isz data" "(p @ [i]) @ r" x] by simp
  qed
  then show ?thesis using q by (auto simp: prefix_def)
qed

lemma with_node_reached:
  assumes C: "can_add isz data h p off os i"
  shows "card (reached isz (with_node isz inval n off os i data) m) =
    card (reached isz data m) + (if m = Suc (length p) then 1 else 0)"
proof -
  note D = can_addD [OF C]
  let ?new = "p @ [i]"
  have eq: "reached isz (with_node isz inval n off os i data) m =
    (if m = Suc (length p) then insert ?new (reached isz data m) else reached isz data m)"
    using no_path [OF C] D(6,11) by (auto simp: reached_def with_node_follow [OF C] paths_def split: if_splits)
  have "follow (child_of isz data) ?new = None" by (rule no_path [OF C]) simp
  then have "?new \<notin> reached isz data m" by (simp add: reached_def del: follow_simps)
  then show ?thesis unfolding eq using finite_reached [of isz data m] by auto
qed

lemma with_node_ok:
  assumes C: "can_add isz data h p off os i"
  defines "n \<equiv> h - Suc (length p)"
  shows "tree_ok isz (with_node isz inval n off os i data) h" (is "tree_ok isz ?data h")
proof (rule tree_okI)
  note D = can_addD [OF C] and F = with_node_follow [OF C]
  let ?l = "data_size isz data"
  have at_new: "node_at isz ?data ?l = Inr (new_node n inval)"
    using D(9) node_at_end [OF D(7)] by (simp add: with_node_at [OF C])
  show "q \<in> (\<Union>n \<le> h. paths n) \<and>
      (if length q < h then \<exists>os. node_at isz ?data b = Inr (OffsetNode os) \<and> length os = 8
       else \<exists>items. node_at isz ?data b = Inr (ItemNode items) \<and> length items = 8)"
    if q: "follow (child_of isz ?data) q = Some b" for q b
  proof (cases "prefix (p @ [i]) q")
    case True
    then have "q = p @ [i]" "b = ?l" using q by (auto simp: F split: if_splits)
    then show ?thesis
      using at_new D(3,6,11) by (auto simp: paths_def n_def new_node_def empty_item_node_def empty_offset_node_def)
  next
    case False
    then have f: "follow (child_of isz data) q = Some b" using q by (simp add: F)
    note T = tree_okD [OF D(1) f]
    have "q \<in> (\<Union>n \<le> h. paths n)" using T(1,2) by (auto simp: paths_def)
    moreover have "length q < h \<and> node_at isz ?data b = Inr (OffsetNode (os[i := of_nat ?l - of_nat off]))" if "b = off"
      using that D(3) tree_okD(5) [OF D(1,2)] f by (auto simp: with_node_at [OF C])
    moreover have "node_at isz ?data b = node_at isz data b" if "b \<noteq> off" using with_node_old(2) [OF C f that] .
    ultimately show ?thesis using T(3,4) D(10) by (cases "b = off") auto
  qed
  show "q = r" if "follow (child_of isz ?data) q = Some b" "follow (child_of isz ?data) r = Some b" for q r b
    using that with_node_old(1) [OF C, of _ b] tree_okD(5) [OF D(1), of q b r] by (fastforce simp: F split: if_splits)
  show "data_size isz ?data = 16 * (\<Sum>n < h. card (reached isz ?data n)) + isz * card (reached isz ?data h)"
  proof -
    have "(\<Sum>n < h. card (reached isz ?data n)) =
        (\<Sum>n < h. card (reached isz data n)) + (if Suc (length p) < h then 1 else 0)"
      by (simp add: with_node_reached [OF C] sum.distrib)
    moreover have "data_size isz data = 16 * (\<Sum>n < h. card (reached isz data n)) + isz * card (reached isz data h)"
      using D(1) by (simp add: tree_ok_def)
    ultimately show ?thesis
      using D(3) by (auto simp: with_node_size [OF C] with_node_reached [OF C] n_def new_node_def empty_item_node_def
          empty_offset_node_def algebra_simps)
  qed
qed

lemma with_node_item:
  assumes C: "can_add isz data h p off os i" and j: "j < 8"
  shows "item_at isz inval (with_node isz inval n off os i data) q j = item_at isz inval data q j"
proof -
  note D = can_addD [OF C] and F = with_node_follow [OF C]
  let ?data = "with_node isz inval n off os i data" and ?l = "data_size isz data"
  have at_new: "node_at isz ?data ?l = Inr (new_node n inval)"
    using D(9) node_at_end [OF D(7)] by (simp add: with_node_at [OF C])
  show ?thesis
  proof (cases "prefix (p @ [i]) q")
    case True
    then have "follow (child_of isz data) q = None" by (rule no_path [OF C])
    then show ?thesis
      using True at_new j by (auto simp: item_at_def F new_node_def empty_item_node_def empty_offset_node_def)
  next
    case False
    show ?thesis
    proof (cases "follow (child_of isz data) q")
      case None
      then show ?thesis using False by (simp add: item_at_def F)
    next
      case (Some b)
      then show ?thesis
        using False with_node_old(2) [OF C Some] D(4) by (cases "b = off") (auto simp: item_at_def F with_node_at [OF C])
    qed
  qed
qed

end
