(* ===== verification/TinyOctreeMap.thy ===== *)
theory TinyOctreeMap
  imports TinyOctreeNodes
begin

text \<open>
  A \<open>TinyOctree\<close> is a map from positions to items: \<open>Set\<close> changes the one entry it is asked to, however the tree
  has to grow for it.
\<close>

section \<open>The loops over the levels\<close>

fun path :: "opos \<Rightarrow> nat \<Rightarrow> nat list" where
  "path pos 0 = []"
| "path pos (Suc n) = child_index pos (2 ^ Suc n) # path pos n"

lemma child_index_less: "child_index pos b < 8"
  by (cases pos) (simp add: child_index_def slot_index_def)

lemma child_of_node:
  "node_at isz data a = Inr (OffsetNode os) \<Longrightarrow> j < 8 \<Longrightarrow>
   child_of isz data a j = (if os ! j = - 1 then None else Some (a + unat (os ! j)))"
  by (simp add: child_of_def)

lemma follow_none: "follow f p = None \<Longrightarrow> follow f (p @ q) = None"
proof (induction q rule: rev_induct)
  case (snoc x q)
  then show ?case using follow_simps(2) [of f "p @ q" x] by simp
qed simp

lemma get_loop_ok:
  assumes "tree_ok isz data h" "follow (child_of isz data) p = Some a" "length p + n = h"
  shows "get_loop n isz inval pos (2 ^ n) a data = Inr (item_at isz inval data (p @ path pos n) (child_index pos 1))"
  using assms
proof (induction n arbitrary: p a)
  case 0
  then obtain items where "node_at isz data a = Inr (ItemNode items)" using tree_okD(4) [OF 0(1,2)] by auto
  then show ?case using 0 by (simp add: GetItemNode_def item_at_def)
next
  case (Suc n)
  let ?i = "child_index pos (2 ^ Suc n)"
  obtain os where os: "node_at isz data a = Inr (OffsetNode os)" using tree_okD(3) [OF Suc.prems(1,2)] Suc.prems(3) by auto
  have step: "follow (child_of isz data) (p @ [?i]) = (if os ! ?i = - 1 then None else Some (a + unat (os ! ?i)))"
    using Suc.prems(2) child_of_node [OF os child_index_less, of pos "2 ^ Suc n"] by simp
  show ?case
  proof (cases "os ! ?i = - 1")
    case True
    then have "follow (child_of isz data) (p @ [?i]) = None" using step by simp
    from follow_none [OF this] have "follow (child_of isz data) ((p @ [?i]) @ path pos n) = None" .
    then show ?thesis using True os by (simp add: GetOffsetNode_def Let_def item_at_def)
  next
    case False
    then have "follow (child_of isz data) (p @ [?i]) = Some (a + unat (os ! ?i))" using step by simp
    from Suc.IH [OF Suc.prems(1) this] Suc.prems(3) have
      "get_loop n isz inval pos (2 ^ n) (a + unat (os ! ?i)) data =
       Inr (item_at isz inval data (p @ path pos (Suc n)) (child_index pos 1))" by simp
    then show ?thesis using False os by (simp add: GetOffsetNode_def Let_def)
  qed
qed

lemma set_loop_ok:
  assumes "tree_ok isz data h" "follow (child_of isz data) p = Some (unat off)" "length p + n = h"
    and cap: "capacity isz h < 65535" and isz: "0 < isz"
  shows "\<exists>data'. set_loop n isz inval pos v (2 ^ n) off data = Inr data' \<and> tree_ok isz data' h \<and>
    (\<forall>q j. j < 8 \<longrightarrow> item_at isz inval data' q j =
       (if q = p @ path pos n \<and> j = child_index pos 1 then v else item_at isz inval data q j))"
  using assms(1-3)
proof (induction n arbitrary: p off data)
  case 0
  let ?i = "child_index pos 1"
  obtain items where it: "node_at isz data (unat off) = Inr (ItemNode items)"
    using tree_okD(4) [OF 0(1,2)] 0(3) by auto
  let ?data = "write_node isz data (unat off) (ItemNode (items[?i := v]))"
  have "length p = h" using 0(3) by simp
  note w = write_item_ok [OF 0(1,2) this it child_index_less [of pos 1] isz, where v = v]
  have "set_loop 0 isz inval pos v (2 ^ 0) off data = Inr ?data" using it by (simp add: GetItemNode_def)
  then show ?case using w by auto
next
  case (Suc n)
  let ?i = "child_index pos (2 ^ Suc n)" and ?l = "data_size isz data"
  obtain os where os: "node_at isz data (unat off) = Inr (OffsetNode os)"
    using tree_okD(3) [OF Suc.prems(1,2)] Suc.prems(3) by auto
  have l: "?l < 65535" using tree_capacity [OF Suc.prems(1)] cap by simp
  have step: "follow (child_of isz data) (p @ [?i]) = (if os ! ?i = - 1 then None else Some (unat off + unat (os ! ?i)))"
    using Suc.prems(2) child_of_node [OF os child_index_less, of pos "2 ^ Suc n"] by simp
  show ?case
  proof (cases "os ! ?i = - 1")
    case False
    then have f: "follow (child_of isz data) (p @ [?i]) = Some (unat off + unat (os ! ?i))" using step by simp
    obtain m where "node_at isz data (unat off + unat (os ! ?i)) = Inr m" using tree_okD(3,4) [OF Suc.prems(1) f] by blast
    from node_at_bound [OF this isz] l have "unat off + unat (os ! ?i) < 65536" by simp
    then have "unat (off + os ! ?i) = unat off + unat (os ! ?i)" by (simp add: unat_word_ariths)
    with f have f': "follow (child_of isz data) (p @ [?i]) = Some (unat (off + os ! ?i))" by simp
    have "length (p @ [?i]) + n = h" using Suc.prems(3) by simp
    from Suc.IH [OF Suc.prems(1) f' this] show ?thesis using False os by (simp add: GetOffsetNode_def Let_def)
  next
    case True
    show ?thesis
    proof (cases "v = inval")
      case v: True
      have "follow (child_of isz data) (p @ [?i]) = None" using step True by simp
      from follow_none [OF this] have "follow (child_of isz data) ((p @ [?i]) @ path pos n) = None" .
      then have "item_at isz inval data (p @ path pos (Suc n)) j = inval" for j by (simp add: item_at_def)
      then show ?thesis using True v os Suc.prems(1) by (simp add: GetOffsetNode_def Let_def)
    next
      case v: False
      have C: "can_add isz data h p (unat off) os ?i"
        using Suc.prems os True isz l child_index_less by (simp add: can_add_def)
      note D = can_addD [OF C]
      have n: "h - Suc (length p) = n" using Suc.prems(3) by simp
      let ?data = "with_node isz inval n (unat off) os ?i data" and ?off = "off + (of_nat ?l - off)"
      have T: "tree_ok isz ?data h" using with_node_ok [OF C, of inval] by (simp add: n)
      have "unat ?off = ?l" using l by (simp add: unat_of_nat)
      then have f: "follow (child_of isz ?data) (p @ [?i]) = Some (unat ?off)" by (simp only: with_node_follow [OF C]) simp
      have "length (p @ [?i]) + n = h" using Suc.prems(3) by simp
      from Suc.IH [OF T f this] obtain data' where
        data': "set_loop n isz inval pos v (2 ^ n) ?off ?data = Inr data'" "tree_ok isz data' h"
        "\<forall>q j. j < 8 \<longrightarrow> item_at isz inval data' q j =
           (if q = (p @ [?i]) @ path pos n \<and> j = child_index pos 1 then v else item_at isz inval ?data q j)" by blast
      have "set_loop (Suc n) isz inval pos v (2 ^ Suc n) off data = set_loop n isz inval pos v (2 ^ n) ?off ?data"
        using True v os node_at_append [OF D(9)]
        by (simp add: GetOffsetNode_def Let_def EmplaceNode_def with_node_def new_node_def)
      then show ?thesis using data' with_node_item [OF C, of _ inval] by auto
    qed
  qed
qed

section \<open>A new root\<close>

lemma follow_root:
  fixes data :: "'v onode list"
  assumes "0 < isz" "i < 8"
  defines "data' \<equiv> OffsetNode ((replicate 8 (- 1))[i := 16]) # data"
  shows "follow (child_of isz data') (j # p) = (if j = i then map_option ((+) 16) (follow (child_of isz data) p) else None)"
proof (induction p rule: rev_induct)
  case Nil
  have "child_of isz data' 0 j = (if j = i then Some 16 else None)"
    using assms(2) by (auto simp: child_of_def data'_def nth_list_update)
  then show ?case using follow_simps(2) [of "child_of isz data'" "[]" j] by simp
next
  case (snoc k p)
  have "child_of isz data' (16 + a) k = map_option ((+) 16) (child_of isz data a k)" for a
    using node_at_shift [OF assms(1), of "OffsetNode ((replicate 8 (- 1))[i := 16])" data a]
    by (simp add: child_of_def data'_def split: sum.splits onode.splits)
  then show ?case
    using snoc follow_simps(2) [of "child_of isz data'" "j # p" k] by (auto split: option.splits)
qed

lemma root_ok:
  fixes data :: "'v onode list"
  assumes T: "tree_ok isz data h" and isz: "0 < isz" and i: "i < 8"
  defines "data' \<equiv> OffsetNode ((replicate 8 (- 1))[i := 16]) # data"
  shows "tree_ok isz data' (Suc h)"
    "item_at isz inval data' (j # p) x = (if j = i then item_at isz inval data p x else inval)"
proof -
  note F = follow_root [OF isz i, of data, folded data'_def]
  have at: "node_at isz data' (16 + a) = node_at isz data a" for a
    using node_at_shift [OF isz, of "OffsetNode ((replicate 8 (- 1))[i := 16])" data a] by (simp add: data'_def)
  have zero: "node_at isz data' 0 = Inr (OffsetNode ((replicate 8 (- 1))[i := 16]))" by (simp add: data'_def)
  have reach: "reached isz data' 0 = {[]}" "reached isz data' (Suc n) = (#) i ` reached isz data n" for n
  proof -
    show "reached isz data' 0 = {[]}" by (auto simp: reached_def paths_def)
    show "reached isz data' (Suc n) = (#) i ` reached isz data n"
      using i by (auto simp: reached_def paths_def length_Suc_conv F split: if_splits)
  qed
  have card: "card (reached isz data' (Suc n)) = card (reached isz data n)" for n
    unfolding reach(2) by (rule card_image) (simp add: inj_on_def)
  show "tree_ok isz data' (Suc h)"
  proof (rule tree_okI)
    show "q \<in> (\<Union>n \<le> Suc h. paths n) \<and>
        (if length q < Suc h then \<exists>os. node_at isz data' b = Inr (OffsetNode os) \<and> length os = 8
         else \<exists>items. node_at isz data' b = Inr (ItemNode items) \<and> length items = 8)"
      if q: "follow (child_of isz data') q = Some b" for q b
    proof (cases q)
      case Nil
      then show ?thesis using q zero by (auto simp: paths_def)
    next
      case (Cons j p)
      then obtain a where a: "j = i" "follow (child_of isz data) p = Some a" "b = 16 + a"
        using q by (auto simp: F split: if_splits)
      show ?thesis using tree_okD(1-4) [OF T a(2)] Cons a i by (auto simp: at paths_def)
    qed
    show "q = r" if "follow (child_of isz data') q = Some b" "follow (child_of isz data') r = Some b" for q r b
      using that tree_okD(5) [OF T] by (cases q; cases r) (auto simp: F split: if_splits)
    have "data_size isz data = 16 * (\<Sum>n < h. card (reached isz data n)) + isz * card (reached isz data h)"
      using T by (simp add: tree_ok_def)
    then show "data_size isz data' = 16 * (\<Sum>n < Suc h. card (reached isz data' n)) + isz * card (reached isz data' (Suc h))"
      unfolding sum.lessThan_Suc_shift card reach(1) by (simp add: data'_def)
  qed
  show "item_at isz inval data' (j # p) x = (if j = i then item_at isz inval data p x else inval)"
    by (auto simp: item_at_def F at split: option.splits)
qed

lemma leaf_ok:
  assumes "0 < isz" "length items = 8"
  shows "tree_ok isz [ItemNode items] 0" "item_at isz inval [ItemNode items] [] x = items ! x"
proof -
  have c: "child_of isz [ItemNode items] a j = None" for a j by (simp add: child_of_def)
  have F: "follow (child_of isz [ItemNode items]) p = (if p = [] then Some 0 else None)" for p
    by (cases p rule: rev_cases) (auto simp: c split: option.splits)
  have "reached isz [ItemNode items] 0 = {[]}" by (auto simp: reached_def paths_def)
  then show "tree_ok isz [ItemNode items] 0"
    using assms by (intro tree_okI) (auto simp: F paths_def split: if_splits)
  show "item_at isz inval [ItemNode items] [] x = items ! x" by (simp add: item_at_def)
qed

end
