(* ===== verification/TinyOctreeSet.thy ===== *)
theory TinyOctreeSet
  imports TinyOctreeMap
begin

text \<open>Positions and the operations of a whole \<open>TinyOctree\<close>.\<close>

section \<open>Positions\<close>

lemma bit_and_exp: "(n :: int) AND 2 ^ m \<noteq> 0 \<longleftrightarrow> bit n m"
  by (simp add: and_exp_eq_0_iff_not_bit)

lemma slot_index_inj: "slot_index a b c = slot_index x y z \<longleftrightarrow> a = x \<and> b = y \<and> c = z"
  by (cases a; cases b; cases c; cases x; cases y; cases z) (simp_all add: slot_index_def)

lemma child_index_eq:
  "child_index (x, y, z) (2 ^ m) = child_index (a, b, c) (2 ^ m) \<longleftrightarrow>
   bit x m = bit a m \<and> bit y m = bit b m \<and> bit z m = bit c m"
  by (simp add: child_index_def slot_index_inj bit_and_exp)

lemma path_eq: "path p n = path q n \<longleftrightarrow> (\<forall>m \<in> {1..n}. child_index p (2 ^ m) = child_index q (2 ^ m))"
proof (induction n)
  case (Suc n)
  have "{1..Suc n} = insert (Suc n) {1..n}" by auto
  then show ?case using Suc by simp
qed simp

lemma same_leaf:
  "path p n = path q n \<and> child_index p 1 = child_index q 1 \<longleftrightarrow> (\<forall>m \<le> n. child_index p (2 ^ m) = child_index q (2 ^ m))"
proof -
  have "{..n} = insert 0 {1..n}" by auto
  then have "(\<forall>m \<le> n. child_index p (2 ^ m) = child_index q (2 ^ m)) \<longleftrightarrow>
      child_index p 1 = child_index q 1 \<and> (\<forall>m \<in> {1..n}. child_index p (2 ^ m) = child_index q (2 ^ m))"
    by (metis (no_types, lifting) atMost_iff insert_iff power_0)
  then show ?thesis by (auto simp: path_eq)
qed

lemma cut_off_bit: "bit (cut_off k n) m \<longleftrightarrow> k \<le> m \<and> bit n m"
  by (auto simp: cut_off_def bit_push_bit_iff bit_drop_bit_eq)

lemma cut_off_eq: "cut_off k x = cut_off k y \<longleftrightarrow> (\<forall>m \<ge> k. bit x m = bit y m)"
  by (auto simp: bit_eq_iff cut_off_bit)

lemma cut_off_fixed: "cut_off k n = n \<longleftrightarrow> (\<forall>m < k. \<not> bit n m)"
  by (simp add: bit_eq_iff cut_off_bit) (metis not_le)

lemma cut_off_0 [simp]: "cut_off 0 n = n"
  by (simp add: cut_off_def)

lemma cut_off_bounds: "0 \<le> n \<Longrightarrow> 0 \<le> cut_off k n \<and> cut_off k n \<le> n"
  by (simp add: cut_off_def push_bit_eq_mult drop_bit_eq_div flip: minus_mod_eq_div_mult)
    (simp add: zmod_le_nonneg_dividend)

lemma cut_off_small: "0 \<le> n \<Longrightarrow> n < 2 ^ k \<Longrightarrow> cut_off k n = 0"
  by (simp add: cut_off_def push_bit_eq_mult drop_bit_eq_div)

lemma byte_small: "0 \<le> n \<Longrightarrow> n < 256 \<Longrightarrow> byte n = n"
  by (simp add: byte_def)

definition mask_ok :: "nat \<Rightarrow> nat \<Rightarrow> int \<Rightarrow> bool" where
  "mask_ok d k m \<longleftrightarrow> 0 \<le> m \<and> m < 2 ^ d \<and> cut_off k m = m"

definition coords :: "(int \<Rightarrow> bool) \<Rightarrow> opos \<Rightarrow> bool" where
  "coords Q p \<longleftrightarrow> (case p of (x, y, z) \<Rightarrow> Q x \<and> Q y \<and> Q z)"

definition within_bits :: "nat \<Rightarrow> opos \<Rightarrow> opos \<Rightarrow> bool" where
  "within_bits k p q \<longleftrightarrow> (\<forall>m \<ge> k. child_index p (2 ^ m) = child_index q (2 ^ m))"

lemma within_bits_cut:
  "coords (\<lambda>n. cut_off k n = n) q \<Longrightarrow> within_bits k p q \<longleftrightarrow>
   (case p of (x, y, z) \<Rightarrow> case q of (a, b, c) \<Rightarrow> cut_off k x = a \<and> cut_off k y = b \<and> cut_off k z = c)"
proof (cases p; cases q)
  fix x y z a b c assume q: "p = (x, y, z)" "q = (a, b, c)" "coords (\<lambda>n. cut_off k n = n) q"
  then have c: "cut_off k a = a" "cut_off k b = b" "cut_off k c = c" by (simp_all add: coords_def)
  have "within_bits k p q \<longleftrightarrow> cut_off k x = cut_off k a \<and> cut_off k y = cut_off k b \<and> cut_off k z = cut_off k c"
    unfolding within_bits_def q(1,2) child_index_eq cut_off_eq by blast
  then show ?thesis unfolding c by (simp add: q(1,2))
qed

section \<open>The invariant\<close>

definition oct_ok :: "nat \<Rightarrow> nat \<Rightarrow> 'v octree \<Rightarrow> bool" where
  "oct_ok d isz t \<longleftrightarrow>
     to_start_depth t \<le> d \<and> coords (mask_ok d (d - to_start_depth t)) (mask_pos t) \<and>
     (if to_start_depth t = d then to_data t = []
      else tree_ok isz (to_data t) (d - 1 - to_start_depth t))"

text \<open>The template parameters: the masks have eight bits, the offsets sixteen.\<close>

definition params_ok :: "nat \<Rightarrow> nat \<Rightarrow> bool" where
  "params_ok d isz \<longleftrightarrow> d \<le> 8 \<and> 16 \<le> isz \<and> capacity isz (d - 1) < 65535"

definition holds_at :: "nat \<Rightarrow> nat \<Rightarrow> 'v \<Rightarrow> 'v octree \<Rightarrow> opos \<Rightarrow> 'v" where
  "holds_at d isz inval t pos =
     (if \<not> within_bits (d - to_start_depth t) pos (mask_pos t) then inval
      else if to_start_depth t = d then to_single_item t
      else item_at isz inval (to_data t) (path pos (d - 1 - to_start_depth t)) (child_index pos 1))"

lemma oct_okD:
  assumes "oct_ok d isz t"
  shows "to_start_depth t \<le> d" "coords (mask_ok d (d - to_start_depth t)) (mask_pos t)"
    "to_start_depth t = d \<Longrightarrow> to_data t = []"
    "to_start_depth t < d \<Longrightarrow> tree_ok isz (to_data t) (d - 1 - to_start_depth t)"
  using assms by (auto simp: oct_ok_def)

lemma PosInBounds_within:
  assumes "oct_ok d isz t"
  shows "PosInBounds d pos t \<longleftrightarrow> within_bits (d - to_start_depth t) pos (mask_pos t)"
proof -
  have "coords (\<lambda>n. cut_off (d - to_start_depth t) n = n) (mask_pos t)"
    using oct_okD(2) [OF assms] by (auto simp: coords_def mask_ok_def)
  from within_bits_cut [OF this, of pos] show ?thesis
    by (cases pos) (simp add: PosInBounds_def mask_pos_def Let_def)
qed

lemma Get_item_ok:
  assumes "oct_ok d isz t"
  shows "Get_item d isz inval pos t = Inr (if PosInOctree d pos then holds_at d isz inval t pos else inval)"
proof (cases "to_start_depth t = d")
  case True
  then show ?thesis
    using oct_okD(3) [OF assms] PosInBounds_within [OF assms, of pos] by (simp add: Get_item_def holds_at_def)
next
  case False
  then have lt: "to_start_depth t < d" using oct_okD(1) [OF assms] by simp
  have "get_loop (d - 1 - to_start_depth t) isz inval pos (2 ^ (d - 1 - to_start_depth t)) 0 (to_data t) =
      Inr (item_at isz inval (to_data t) ([] @ path pos (d - 1 - to_start_depth t)) (child_index pos 1))"
    by (rule get_loop_ok [OF oct_okD(4) [OF assms lt]]) simp_all
  moreover have "push_bit (d - to_start_depth t - 1) 1 = (2 ^ (d - 1 - to_start_depth t) :: int)"
    by (simp add: push_bit_eq_mult)
  ultimately show ?thesis
    using False PosInBounds_within [OF assms, of pos] by (simp add: Get_item_def holds_at_def)
qed

section \<open>Growing\<close>

lemma within_bits_mask: "within_bits k p (case q of (a, b, c) \<Rightarrow> (cut_off k a, cut_off k b, cut_off k c)) = within_bits k p q"
  by (cases p; cases q) (simp add: within_bits_def child_index_eq cut_off_bit)

lemma within_bits_Suc:
  "within_bits k p q \<longleftrightarrow> within_bits (Suc k) p q \<and> child_index p (2 ^ k) = child_index q (2 ^ k)"
  unfolding within_bits_def by (metis Suc_leD Suc_leI le_eq_less_or_eq le_refl)

lemma mask_cut_ok: "d \<le> 8 \<Longrightarrow> mask_ok d j m \<Longrightarrow> byte (cut_off k m) = cut_off k m \<and> mask_ok d k (cut_off k m)"
proof -
  assume d: "d \<le> 8" and m: "mask_ok d j m"
  have "(2 :: int) ^ d \<le> 2 ^ 8" using d by (intro power_increasing) simp_all
  then have b: "0 \<le> cut_off k m" "cut_off k m < 2 ^ d" "cut_off k m < 256"
    using cut_off_bounds [of m k] m by (auto simp: mask_ok_def)
  moreover have "cut_off k (cut_off k m) = cut_off k m" by (simp add: cut_off_fixed cut_off_bit)
  ultimately show ?thesis by (simp add: byte_small mask_ok_def)
qed

definition grown :: "nat \<Rightarrow> 'v octree \<Rightarrow> 'v onode list \<Rightarrow> 'v octree" where
  "grown d t data = t\<lparr>to_start_depth := to_start_depth t - 1, to_data := data,
     to_x_mask := byte (cut_off (d - (to_start_depth t - 1)) (to_x_mask t)),
     to_y_mask := byte (cut_off (d - (to_start_depth t - 1)) (to_y_mask t)),
     to_z_mask := byte (cut_off (d - (to_start_depth t - 1)) (to_z_mask t))\<rparr>"

lemma grown_masks:
  assumes "oct_ok d isz t" "params_ok d isz"
  shows "coords (mask_ok d (d - (to_start_depth t - 1))) (mask_pos (grown d t data))"
    "within_bits (d - (to_start_depth t - 1)) p (mask_pos (grown d t data)) =
     within_bits (d - (to_start_depth t - 1)) p (mask_pos t)"
proof -
  let ?k = "d - (to_start_depth t - 1)"
  have d: "d \<le> 8" using assms(2) by (simp add: params_ok_def)
  have m: "mask_ok d (d - to_start_depth t) (to_x_mask t)" "mask_ok d (d - to_start_depth t) (to_y_mask t)"
    "mask_ok d (d - to_start_depth t) (to_z_mask t)"
    using oct_okD(2) [OF assms(1)] by (simp_all add: coords_def mask_pos_def)
  note c = mask_cut_ok [OF d m(1), of ?k] mask_cut_ok [OF d m(2), of ?k] mask_cut_ok [OF d m(3), of ?k]
  show "coords (mask_ok d ?k) (mask_pos (grown d t data))"
    using c by (simp add: coords_def mask_pos_def grown_def)
  show "within_bits ?k p (mask_pos (grown d t data)) = within_bits ?k p (mask_pos t)"
    using within_bits_mask [of ?k p "mask_pos t"] c by (simp add: mask_pos_def grown_def)
qed

lemma AddNewRoot_ok:
  assumes ok: "oct_ok d isz t" and par: "params_ok d isz" and s: "0 < to_start_depth t"
  shows "\<exists>t'. AddNewRoot d isz inval t = Inr t' \<and> oct_ok d isz t' \<and> to_start_depth t' = to_start_depth t - 1 \<and>
    (\<forall>pos. holds_at d isz inval t' pos = holds_at d isz inval t pos)"
proof -
  let ?s = "to_start_depth t"
  let ?k = "d - ?s" and ?m = "mask_pos t"
  have isz: "0 < isz" using par by (simp add: params_ok_def)
  have sd: "?s \<le> d" by (rule oct_okD(1) [OF ok])
  then have k: "d - (?s - 1) = Suc ?k" using s by simp
  have w: "within_bits ?k p ?m \<longleftrightarrow> within_bits (Suc ?k) p ?m \<and> child_index p (2 ^ ?k) = child_index ?m (2 ^ ?k)" for p
    by (rule within_bits_Suc)
  show ?thesis
  proof (cases "?s = d")
    case True
    let ?items = "(replicate 8 inval)[child_index ?m 1 := to_single_item t]"
    let ?t = "grown d t [ItemNode ?items]"
    have "d - Suc 0 \<noteq> d" using s True by simp
    have "AddNewRoot d isz inval t = Inr ?t"
      using s True oct_okD(3) [OF ok True] by (simp add: AddNewRoot_def grown_def Let_def)
    moreover have "oct_ok d isz ?t"
      using grown_masks(1) [OF ok par] leaf_ok(1) [OF isz, of ?items] s True by (simp add: oct_ok_def grown_def)
    moreover have "holds_at d isz inval ?t pos = holds_at d isz inval t pos" for pos
      using grown_masks(2) [OF ok par, of pos "[ItemNode ?items]"] w [of pos] leaf_ok(2) [OF isz, of ?items inval]
        child_index_less [of pos 1] s True k \<open>d - Suc 0 \<noteq> d\<close>
      by (simp add: holds_at_def grown_def nth_list_update)
    ultimately show ?thesis by (auto simp: grown_def)
  next
    case False
    then have lt: "?s < d" using sd by simp
    let ?i = "child_index ?m (2 ^ ?k)"
    let ?data = "OffsetNode ((replicate 8 (- 1))[?i := 16]) # to_data t"
    let ?t = "grown d t ?data"
    have "push_bit (d - (?s - 1) - 1) 1 = (2 ^ ?k :: int)" 
      using k by (simp add: push_bit_eq_mult)
    moreover have "?s - 1 \<noteq> d - 1" "d - Suc (?s - Suc 0) = ?k" using s lt by arith+
    ultimately have "AddNewRoot d isz inval t = Inr ?t"
      using s by (simp add: AddNewRoot_def grown_def Let_def)
    note r = root_ok [OF oct_okD(4) [OF ok lt] isz child_index_less [of ?m "2 ^ ?k"]]
    have "?s - 1 \<noteq> d" using s lt by arith
    have h: "d - 1 - (?s - 1) = Suc (d - 1 - ?s)" "?k = Suc (d - 1 - ?s)" using s lt by simp_all
    have "oct_ok d isz ?t"
      using grown_masks(1) [OF ok par, of ?data] r(1) s lt Suc_diff_Suc [OF lt] \<open>?s - 1 \<noteq> d\<close>
      unfolding oct_ok_def by (simp add: grown_def h(1))
    moreover have "holds_at d isz inval ?t pos = holds_at d isz inval t pos" for pos
    proof -
      have "path pos (d - 1 - (?s - 1)) = child_index pos (2 ^ ?k) # path pos (d - 1 - ?s)" unfolding h by simp
      then show ?thesis
        using grown_masks(2) [OF ok par, of pos ?data] w [of pos] r(2) [of inval] s lt k
        unfolding holds_at_def by (auto simp: grown_def)
    qed
    ultimately show ?thesis using \<open>AddNewRoot d isz inval t = Inr ?t\<close> by (auto simp: grown_def)
  qed
qed

lemma grow_roots_ok:
  assumes "oct_ok d isz t" "params_ok d isz" "PosInOctree d pos"
  shows "\<exists>t'. grow_roots d isz inval pos t = Inr t' \<and> oct_ok d isz t' \<and> PosInBounds d pos t' \<and>
    (\<forall>q. holds_at d isz inval t' q = holds_at d isz inval t q) \<and> (PosInBounds d pos t \<longrightarrow> t' = t) \<and>
    (\<not> PosInBounds d pos t \<longrightarrow> to_start_depth t' < to_start_depth t)"
  using assms(1)
proof (induction "to_start_depth t" arbitrary: t)
  case 0
  have "cut_off d n = 0" if "mask_ok d d n" for n using that cut_off_small [of n d] by (simp add: mask_ok_def)
  then have "to_x_mask t = 0" "to_y_mask t = 0" "to_z_mask t = 0"
    using oct_okD(2) [OF 0(2)] 0(1) by (auto simp: coords_def mask_pos_def mask_ok_def)
  then have "PosInBounds d pos t"
    using assms(3) 0(1) cut_off_small by (auto simp: PosInBounds_def PosInOctree_def Let_def push_bit_eq_mult)
  then show ?case using 0 by (subst grow_roots.simps) simp
next
  case (Suc s)
  show ?case
  proof (cases "PosInBounds d pos t")
    case True
    then show ?thesis using Suc.prems by (subst grow_roots.simps) simp
  next
    case False
    obtain t1 where t1: "AddNewRoot d isz inval t = Inr t1" "oct_ok d isz t1" "to_start_depth t1 = to_start_depth t - 1"
      "\<forall>pos. holds_at d isz inval t1 pos = holds_at d isz inval t pos"
      using AddNewRoot_ok [OF Suc.prems assms(2), of inval] Suc.hyps(2) by auto
    have "s = to_start_depth t1" using t1(3) Suc.hyps(2) by simp
    from Suc.hyps(1) [OF this t1(2)] obtain t2 where
      "grow_roots d isz inval pos t1 = Inr t2" "oct_ok d isz t2" "PosInBounds d pos t2"
      "\<forall>q. holds_at d isz inval t2 q = holds_at d isz inval t1 q" "to_start_depth t2 \<le> to_start_depth t1"
      by (cases "PosInBounds d pos t1") auto
    then show ?thesis using False t1 Suc.hyps(2) by (subst grow_roots.simps) auto
  qed
qed

end
