(* ===== verification/TinyOctreeProps.thy ===== *)
theory TinyOctreeProps
  imports TinyOctreeSet
begin

text \<open>What \<open>src/Util/TinyOctree.h\<close> guarantees: it is a map, and iteration lists it.\<close>

section \<open>Set and Get\<close>

lemma within_bits_0: "within_bits 0 p q \<longleftrightarrow> p = q"
proof -
  have "coords (\<lambda>n. cut_off 0 n = n) q" by (cases q) (simp add: coords_def)
  from within_bits_cut [OF this, of p] show ?thesis by (cases p; cases q) simp
qed

lemma params_mask: "params_ok d isz \<Longrightarrow> PosInOctree d (x, y, z) \<Longrightarrow>
  byte x = x \<and> byte y = y \<and> byte z = z \<and> coords (mask_ok d 0) (x, y, z)"
proof -
  assume p: "params_ok d isz" "PosInOctree d (x, y, z)"
  have "(2 :: int) ^ d \<le> 2 ^ 8" using p(1) by (intro power_increasing) (simp_all add: params_ok_def)
  then show ?thesis using p(2) by (auto simp: PosInOctree_def push_bit_eq_mult byte_small coords_def mask_ok_def)
qed

lemma capacity_params: "params_ok d isz \<Longrightarrow> capacity isz (d - 1 - s) < 65535"
proof -
  assume p: "params_ok d isz"
  have "capacity isz (d - 1 - s) \<le> capacity isz (d - 1)" using p by (intro capacity_mono) (simp_all add: params_ok_def)
  then show ?thesis using p by (simp add: params_ok_def)
qed

lemma same_pos:
  assumes "within_bits k p m" "within_bits k q m" "0 < k" "path p (k - 1) = path q (k - 1)" "child_index p 1 = child_index q 1"
  shows "p = q"
proof -
  have "child_index p (2 ^ j) = child_index q (2 ^ j)" for j
  proof (cases "j < k")
    case True
    then have "j \<le> k - 1" by simp
    then show ?thesis using same_leaf [of p "k - 1" q] assms(4,5) by blast
  next
    case False
    then show ?thesis using assms(1,2) by (simp add: within_bits_def)
  qed
  then show ?thesis using within_bits_0 [of p q] by (simp add: within_bits_def)
qed

lemma Set_tree_ok:
  assumes ok: "oct_ok d isz t" and par: "params_ok d isz" and lt: "to_start_depth t < d" and b: "PosInBounds d pos t"
  shows "\<exists>data. set_loop (d - 1 - to_start_depth t) isz inval pos v (push_bit (d - to_start_depth t - 1) 1) 0 (to_data t) = Inr data \<and>
    oct_ok d isz (t\<lparr>to_data := data\<rparr>) \<and>
    (\<forall>q. holds_at d isz inval (t\<lparr>to_data := data\<rparr>) q = (if q = pos then v else holds_at d isz inval t q))"
proof -
  let ?h = "d - 1 - to_start_depth t"
  have isz: "0 < isz" using par by (simp add: params_ok_def)
  have "push_bit (d - to_start_depth t - 1) 1 = (2 ^ ?h :: int)" by (simp add: push_bit_eq_mult)
  moreover obtain data where data: "set_loop ?h isz inval pos v (2 ^ ?h) 0 (to_data t) = Inr data" "tree_ok isz data ?h"
    "\<forall>q j. j < 8 \<longrightarrow> item_at isz inval data q j =
       (if q = [] @ path pos ?h \<and> j = child_index pos 1 then v else item_at isz inval (to_data t) q j)"
    using set_loop_ok [OF oct_okD(4) [OF ok lt] _ _ capacity_params [OF par] isz, of "[]" 0 ?h inval pos v] by auto
  moreover have "oct_ok d isz (t\<lparr>to_data := data\<rparr>)"
    using ok lt data(2) by (simp add: oct_ok_def mask_pos_def)
  moreover have "holds_at d isz inval (t\<lparr>to_data := data\<rparr>) q = (if q = pos then v else holds_at d isz inval t q)" for q
  proof -
    have w: "within_bits (d - to_start_depth t) pos (mask_pos t)" using b PosInBounds_within [OF ok] by simp
    have k: "d - to_start_depth t - 1 = ?h" "0 < d - to_start_depth t" using lt by simp_all
    have "q = pos" if "within_bits (d - to_start_depth t) q (mask_pos t)" "path q ?h = path pos ?h" "child_index q 1 = child_index pos 1"
      using same_pos [OF that(1) w k(2)] that(2,3) by (simp only: k)
    then show ?thesis
      using data(3) child_index_less [of q 1] w lt by (auto simp: holds_at_def mask_pos_def)
  qed
  ultimately show ?thesis by auto
qed

lemma Set_item_ok:
  assumes ok: "oct_ok d isz t" and par: "params_ok d isz" and pos: "PosInOctree d pos"
  shows "\<exists>t'. Set_item d isz inval pos v t = Inr t' \<and> oct_ok d isz t' \<and>
    (\<forall>q. holds_at d isz inval t' q = (if q = pos then v else holds_at d isz inval t q)) \<and>
    to_start_depth t' \<le> to_start_depth t \<and>
    (to_start_depth t = d \<longrightarrow> to_single_item t \<noteq> inval \<longrightarrow> v \<noteq> inval \<longrightarrow> pos \<noteq> mask_pos t \<longrightarrow> to_start_depth t' < d)"
proof -
  obtain x y z where p: "pos = (x, y, z)" by (cases pos)
  have m: "byte x = x" "byte y = y" "byte z = z" "coords (mask_ok d 0) pos"
    using params_mask [OF par, of x y z] pos by (simp_all add: p)
  have in_single: "PosInBounds d q t \<longleftrightarrow> q = mask_pos t" if "to_start_depth t = d" for q
    using PosInBounds_within [OF ok, of q] that by (simp add: within_bits_0)
  consider (empty) "to_start_depth t = d" "to_single_item t = inval"
    | (clear) "to_start_depth t = d" "to_single_item t \<noteq> inval" "v = inval" "PosInBounds d pos t"
    | (other) "\<not> (to_start_depth t = d \<and> (to_single_item t = inval \<or> v = inval \<and> PosInBounds d pos t))"
    by blast
  then show ?thesis
  proof cases
    case empty
    let ?t = "t\<lparr>to_single_item := v, to_x_mask := x, to_y_mask := y, to_z_mask := z\<rparr>"
    have "Set_item d isz inval pos v t = Inr ?t"
      using empty pos oct_okD(3) [OF ok empty(1)] m by (simp add: Set_item_def p)
    moreover have "oct_ok d isz ?t" using oct_okD(3) [OF ok] empty(1) m(4) by (simp add: oct_ok_def mask_pos_def p)
    moreover have "holds_at d isz inval ?t q = (if q = pos then v else holds_at d isz inval t q)" for q
      using empty by (auto simp: holds_at_def within_bits_0 mask_pos_def p)
    ultimately show ?thesis using empty by auto
  next
    case clear
    let ?t = "t\<lparr>to_single_item := inval, to_x_mask := 0, to_y_mask := 0, to_z_mask := 0\<rparr>"
    have "Set_item d isz inval pos v t = Inr ?t"
      using clear pos oct_okD(3) [OF ok clear(1)] by (simp add: Set_item_def)
    moreover have "oct_ok d isz ?t"
      using oct_okD(3) [OF ok] clear(1) by (simp add: oct_ok_def mask_pos_def coords_def mask_ok_def)
    moreover have "holds_at d isz inval ?t q = (if q = pos then v else holds_at d isz inval t q)" for q
      using clear in_single [of pos] by (auto simp: holds_at_def within_bits_0)
    ultimately show ?thesis using clear by auto
  next
    case other
    obtain t1 where t1: "grow_roots d isz inval pos t = Inr t1" "oct_ok d isz t1" "PosInBounds d pos t1"
      "\<forall>q. holds_at d isz inval t1 q = holds_at d isz inval t q" "PosInBounds d pos t \<longrightarrow> t1 = t"
      "\<not> PosInBounds d pos t \<longrightarrow> to_start_depth t1 < to_start_depth t"
      using grow_roots_ok [OF ok par pos, of inval] by blast
    have run: "Set_item d isz inval pos v t =
      (if to_start_depth t1 = d then if to_data t1 \<noteq> [] then Inl Assertion else Inr (t1\<lparr>to_single_item := v\<rparr>)
       else rbind (set_loop (d - 1 - to_start_depth t1) isz inval pos v (push_bit (d - to_start_depth t1 - 1) 1) 0 (to_data t1))
              (\<lambda>data. Inr (t1\<lparr>to_data := data\<rparr>)))"
      using other pos oct_okD(3) [OF ok] t1(1) by (auto simp: Set_item_def)
    show ?thesis
    proof (cases "to_start_depth t1 = d")
      case True
      then have same: "t1 = t" "PosInBounds d pos t" using t1(5,6) oct_okD(1) [OF ok] by auto
      let ?t = "t\<lparr>to_single_item := v\<rparr>"
      have "pos = mask_pos t" using in_single same True by auto
      moreover have "Set_item d isz inval pos v t = Inr ?t" using run True same oct_okD(3) [OF ok] by simp
      moreover have "oct_ok d isz ?t" using ok by (simp add: oct_ok_def mask_pos_def cong: if_cong)
      moreover have "holds_at d isz inval ?t q = (if q = mask_pos t then v else holds_at d isz inval t q)" for q
        using True same by (auto simp: holds_at_def within_bits_0 mask_pos_def)
      ultimately show ?thesis using True same by auto
    next
      case False
      then have lt: "to_start_depth t1 < d" using oct_okD(1) [OF t1(2)] by simp
      obtain data where "set_loop (d - 1 - to_start_depth t1) isz inval pos v (push_bit (d - to_start_depth t1 - 1) 1) 0 (to_data t1) = Inr data"
        "oct_ok d isz (t1\<lparr>to_data := data\<rparr>)"
        "\<forall>q. holds_at d isz inval (t1\<lparr>to_data := data\<rparr>) q = (if q = pos then v else holds_at d isz inval t1 q)"
        using Set_tree_ok [OF t1(2) par lt t1(3)] by blast
      moreover have "to_start_depth t1 \<le> to_start_depth t" using t1(5,6) by (cases "PosInBounds d pos t") auto
      ultimately show ?thesis using run False lt t1(4) by auto
    qed
  qed
qed

lemma new_octree_ok: "oct_ok d isz (new_octree d inval)"
  by (simp add: oct_ok_def new_octree_def coords_def mask_pos_def mask_ok_def)

lemma new_octree_holds: "holds_at d isz inval (new_octree d inval) q = inval"
  by (simp add: holds_at_def new_octree_def)

text \<open>The map that a sequence of \<open>Set\<close>s describes.\<close>

fun map_after :: "nat \<Rightarrow> (opos \<times> 'v) list \<Rightarrow> (opos \<Rightarrow> 'v) \<Rightarrow> opos \<Rightarrow> 'v" where
  "map_after d [] f = f"
| "map_after d ((p, v) # sets) f = map_after d sets (if PosInOctree d p then f(p := v) else f)"

lemma Sets_ok:
  assumes "oct_ok d isz t" and par: "params_ok d isz"
  shows "\<exists>t'. rfold (\<lambda>(p, v). Set_item d isz inval p v) sets t = Inr t' \<and> oct_ok d isz t' \<and>
    (\<forall>q. holds_at d isz inval t' q = map_after d sets (holds_at d isz inval t) q) \<and> to_start_depth t' \<le> to_start_depth t"
  using assms(1)
proof (induction sets arbitrary: t)
  case (Cons s sets)
  obtain p v where s: "s = (p, v)" by (cases s)
  show ?case
  proof (cases "PosInOctree d p")
    case True
    obtain t1 where t1: "Set_item d isz inval p v t = Inr t1" "oct_ok d isz t1"
      "\<forall>q. holds_at d isz inval t1 q = (if q = p then v else holds_at d isz inval t q)" "to_start_depth t1 \<le> to_start_depth t"
      using Set_item_ok [OF Cons.prems par True] by blast
    have eq: "holds_at d isz inval t1 = (holds_at d isz inval t)(p := v)" using t1(3) by (auto simp: fun_eq_iff)
    obtain t' where "rfold (\<lambda>(p, v). Set_item d isz inval p v) sets t1 = Inr t'" "oct_ok d isz t'"
      "\<forall>q. holds_at d isz inval t' q = map_after d sets ((holds_at d isz inval t)(p := v)) q"
      "to_start_depth t' \<le> to_start_depth t1"
      using Cons.IH [OF t1(2)] unfolding eq by blast
    then show ?thesis using t1(1,4) True by (simp add: s)
  next
    case False
    then show ?thesis using Cons.IH [OF Cons.prems] by (simp add: s Set_item_def)
  qed
qed simp

lemma octree_map:
  assumes "params_ok d isz"
  shows "\<exists>t. rfold (\<lambda>(p, v). Set_item d isz inval p v) sets (new_octree d inval) = Inr t \<and>
    (\<forall>q. Get_item d isz inval q t = Inr (map_after d sets (\<lambda>_. inval) q))"
proof -
  obtain t where t: "rfold (\<lambda>(p, v). Set_item d isz inval p v) sets (new_octree d inval) = Inr t" "oct_ok d isz t"
    "\<forall>q. holds_at d isz inval t q = map_after d sets (holds_at d isz inval (new_octree d inval)) q"
    using Sets_ok [of d isz "new_octree d inval" inval sets, OF new_octree_ok assms]
    by (elim exE conjE) (rule that; assumption)
  have "map_after d sets f q = f q" if "\<not> PosInOctree d q" for q f
    using that by (induction d sets f rule: map_after.induct) auto
  then have "Get_item d isz inval q t = Inr (map_after d sets (\<lambda>_. inval) q)" for q
    using t(3) [rule_format, of q] by (simp add: Get_item_ok [OF t(2)] new_octree_holds [abs_def])
  then show ?thesis using t(1) by blast
qed

text \<open>
  C27: after any sequence of \<open>Set\<close>s, \<open>Get\<close> gives for each position the item that was set there last, and the
  invalid item elsewhere, however often the tree had to get a new root; this for every depth up to 8
  whose fullest tree fits in 65535 bytes.
\<close>

theorem octree_is_a_map:
  assumes "params_ok d isz"
  shows "\<exists>t. rfold (\<lambda>(p, v). Set_item d isz inval p v) sets (new_octree d inval) = Inr t \<and>
    (\<forall>q. Get_item d isz inval q t = Inr (map_after d sets (\<lambda>_. inval) q))"
  by (rule octree_map [OF assms])

text \<open>The octree of \<open>VoxelWorld.h\<close>: depth 4, leaves of eight pointers.\<close>

lemma voxel_params: "params_ok 4 64"
proof -
  have "{..<3 :: nat} = {0, 1, 2}" by auto
  then show ?thesis by (simp add: params_ok_def capacity_def)
qed

lemma in_voxels: "PosInOctree 4 (15, 0, 3)" "PosInOctree 4 (1, 2, 3)" "PosInOctree 4 (0, 0, 0)" "PosInOctree 4 (1, 0, 0)"
  by (simp_all add: PosInOctree_def)

theorem octree_is_a_map_witness:
  "\<exists>t. rfold (\<lambda>(p, v). Set_item 4 64 0 p v) [((15, 0, 3), 7 :: nat), ((1, 2, 3), 9), ((15, 0, 3), 8)] (new_octree 4 0) = Inr t \<and>
    Get_item 4 64 0 (15, 0, 3) t = Inr 8 \<and> Get_item 4 64 0 (1, 2, 3) t = Inr 9 \<and> Get_item 4 64 0 (1, 2, 4) t = Inr 0"
proof -
  let ?sets = "[((15, 0, 3), 7 :: nat), ((1, 2, 3), 9), ((15, 0, 3), 8)]"
  obtain t where t: "rfold (\<lambda>(p, v). Set_item 4 64 0 p v) ?sets (new_octree 4 0) = Inr t"
    and get: "\<forall>q. Get_item 4 64 0 q t = Inr (map_after 4 ?sets (\<lambda>_. 0) q)"
    using octree_is_a_map [OF voxel_params, of 0 ?sets] by (elim exE conjE) (rule that; assumption)
  have "map_after 4 ?sets (\<lambda>_. 0) (15, 0, 3) = 8" "map_after 4 ?sets (\<lambda>_. 0) (1, 2, 3) = 9"
    "map_after 4 ?sets (\<lambda>_. 0) (1, 2, 4) = 0"
    by (simp_all add: in_voxels)
  then have "Get_item 4 64 0 (15, 0, 3) t = Inr 8" "Get_item 4 64 0 (1, 2, 3) t = Inr 9" "Get_item 4 64 0 (1, 2, 4) t = Inr 0"
    by (simp_all only: get)
  with t show ?thesis by blast
qed

end
