(* ===== verification/TinyOctreeIterate.thy ===== *)
theory TinyOctreeIterate
  imports TinyOctreeProps
begin

text \<open>Iteration over a \<open>TinyOctree\<close>, and \<open>ShrinkToFit\<close>, which rebuilds it from what iteration gives.\<close>

section \<open>Corners\<close>

lemma corners_list: "corners = [(0, 0, 0), (0, 0, 1), (0, 1, 0), (0, 1, 1), (1, 0, 0), (1, 0, 1), (1, 1, 0), (1, 1, 1)]"
  by (simp add: corners_def)

lemma corners_distinct: "distinct corners"
  by (simp add: corners_list)

lemma corner_cases: "c \<in> set corners \<longleftrightarrow> (\<exists>x y z. c = (of_bool x, of_bool y, of_bool z))"
  unfolding corners_list ex_bool_eq by auto

lemma corner_index_bool: "corner_index (of_bool x, of_bool y, of_bool z) = slot_index x y z"
  by (simp add: corner_index_def)

lemma corner_index_inj: "c \<in> set corners \<Longrightarrow> c' \<in> set corners \<Longrightarrow> corner_index c = corner_index c' \<Longrightarrow> c = c'"
  unfolding corner_cases by (auto simp: corner_index_bool slot_index_inj)

lemma corner_index_less: "c \<in> set corners \<Longrightarrow> corner_index c < 8"
  unfolding corner_cases by (auto simp: corner_index_bool slot_index_def)

lemma corner_of_pos: "\<exists>c \<in> set corners. corner_index c = child_index q (2 ^ s)"
proof (cases q)
  case (fields x y z)
  have "(of_bool (bit x s), of_bool (bit y s), of_bool (bit z s)) \<in> set corners" unfolding corner_cases by blast
  moreover have "corner_index (of_bool (bit x s), of_bool (bit y s), of_bool (bit z s)) = child_index q (2 ^ s)"
    unfolding corner_index_bool by (simp add: fields child_index_def bit_and_exp)
  ultimately show ?thesis by blast
qed

lemma bit_add_shift:
  fixes n :: int
  assumes "cut_off (Suc s) n = n"
  shows "bit (n + push_bit s (of_bool b)) j \<longleftrightarrow> (if j = s then b else bit n j)"
proof -
  have "\<not> bit n s" using assms by (simp add: cut_off_fixed)
  then have "n + push_bit s (of_bool b) = n OR push_bit s (of_bool b)"
    by (intro disjunctive_add) (auto simp: bit_push_bit_iff bit_of_bool_iff)
  then show ?thesis using \<open>\<not> bit n s\<close> by (auto simp: bit_or_iff bit_push_bit_iff bit_of_bool_iff)
qed

text \<open>The position a child starts at.\<close>

definition low_clear :: "nat \<Rightarrow> opos \<Rightarrow> bool" where
  "low_clear k q \<longleftrightarrow> coords (\<lambda>n. cut_off k n = n) q"

lemma child_index_corner:
  assumes "low_clear (Suc s) pos" "c \<in> set corners"
  shows "child_index (pos_add pos (pos_shift c s)) (2 ^ j) = (if j = s then corner_index c else child_index pos (2 ^ j))"
proof -
  obtain x y z where p: "pos = (x, y, z)" by (cases pos)
  obtain a b d where c: "c = (of_bool a, of_bool b, of_bool d)" using assms(2) by (auto simp: corner_cases)
  have "cut_off (Suc s) x = x" "cut_off (Suc s) y = y" "cut_off (Suc s) z = z"
    using assms(1) by (simp_all add: low_clear_def coords_def p)
  then show ?thesis
    unfolding c corner_index_bool
    by (simp add: p pos_add_def pos_shift_def child_index_def bit_and_exp bit_add_shift)
qed

lemma low_clear_child:
  assumes "low_clear (Suc s) pos" "c \<in> set corners"
  shows "low_clear s (pos_add pos (pos_shift c s))"
proof -
  obtain x y z where p: "pos = (x, y, z)" by (cases pos)
  obtain a b d where c: "c = (of_bool a, of_bool b, of_bool d)" using assms(2) by (auto simp: corner_cases)
  have "cut_off (Suc s) x = x" "cut_off (Suc s) y = y" "cut_off (Suc s) z = z"
    using assms(1) by (simp_all add: low_clear_def coords_def p)
  then show ?thesis
    unfolding c by (simp add: p pos_add_def pos_shift_def low_clear_def coords_def cut_off_fixed bit_add_shift)
qed

lemma within_child:
  assumes "low_clear (Suc s) pos" "c \<in> set corners"
  shows "within_bits s q (pos_add pos (pos_shift c s)) \<longleftrightarrow>
    within_bits (Suc s) q pos \<and> child_index q (2 ^ s) = corner_index c"
  unfolding within_bits_Suc [of s] using child_index_corner [OF assms]
  by (auto simp: within_bits_def)

section \<open>Lists of visited positions\<close>

text \<open>\<open>xs\<close> lists, once each, the positions in \<open>S\<close> with a valid item.\<close>

definition lists_items :: "'v \<Rightarrow> (opos \<Rightarrow> 'v) \<Rightarrow> (opos \<Rightarrow> bool) \<Rightarrow> (opos \<times> 'v) list \<Rightarrow> bool" where
  "lists_items inval f S xs \<longleftrightarrow>
     distinct (map fst xs) \<and> set xs = {(q, v). S q \<and> v = f q \<and> v \<noteq> inval}"

lemma lists_corners:
  assumes "low_clear (Suc s) pos"
    and "\<And>c. c \<in> set corners \<Longrightarrow> lists_items inval f (\<lambda>q. within_bits s q (pos_add pos (pos_shift c s))) (g c)"
  shows "lists_items inval f (\<lambda>q. within_bits (Suc s) q pos) (concat (map g corners))"
proof -
  have "distinct (map fst (concat (map g cs)))" if "distinct cs" "set cs \<subseteq> set corners" for cs
    using that
  proof (induction cs)
    case (Cons c cs)
    have c: "c \<in> set corners" "distinct (map fst (g c))" using Cons.prems(2) assms(2) [of c] by (auto simp: lists_items_def)
    have "fst ` set (g c) \<inter> fst ` set (g c') = {}" if "c' \<in> set cs" for c'
    proof -
      have c': "c' \<in> set corners" using that Cons.prems(2) by auto
      have "corner_index c \<noteq> corner_index c'" using corner_index_inj [OF c(1) c'] that Cons.prems(1) by auto
      then show ?thesis
        using assms(2) [OF c(1)] assms(2) [OF c'] within_child [OF assms(1) c(1)] within_child [OF assms(1) c']
        by (auto simp: lists_items_def)
    qed
    then have "fst ` (\<Union>c' \<in> set cs. set (g c')) \<inter> fst ` set (g c) = {}" unfolding image_UN by blast
    then have "fst ` set (concat (map g cs)) \<inter> fst ` set (g c) = {}" by simp
    moreover have "distinct (map fst (concat (map g cs)))" using Cons by simp
    ultimately show ?case using c(2) by (simp add: Int_commute)
  qed simp
  moreover have "set (concat (map g corners)) = {(q, v). within_bits (Suc s) q pos \<and> v = f q \<and> v \<noteq> inval}"
  proof (intro set_eqI iffI)
    fix y assume "y \<in> set (concat (map g corners))"
    then obtain c where c: "c \<in> set corners" "y \<in> set (g c)" by auto
    then show "y \<in> {(q, v). within_bits (Suc s) q pos \<and> v = f q \<and> v \<noteq> inval}"
      using assms(2) [OF c(1)] within_child [OF assms(1) c(1)] by (auto simp: lists_items_def)
  next
    fix y assume y: "y \<in> {(q, v). within_bits (Suc s) q pos \<and> v = f q \<and> v \<noteq> inval}"
    obtain c where c: "c \<in> set corners" "corner_index c = child_index (fst y) (2 ^ s)" using corner_of_pos by blast
    then have "y \<in> set (g c)" using y assms(2) [OF c(1)] within_child [OF assms(1) c(1)] by (auto simp: lists_items_def)
    with c(1) show "y \<in> set (concat (map g corners))" by auto
  qed
  ultimately show ?thesis using corners_distinct by (simp add: lists_items_def)
qed

section \<open>Iteration\<close>

lemma pos_shift_0: "pos_shift c 0 = c"
  by (cases c) (simp add: pos_shift_def)

lemma IterateLeaf_ok:
  assumes T: "tree_ok isz data h" and p: "follow (child_of isz data) p = Some a" "length p = h"
    and pos: "low_clear 1 pos"
  shows "\<exists>xs. IterateLeaf isz inval data a pos = Inr xs \<and>
    lists_items inval (\<lambda>q. item_at isz inval data p (child_index q 1)) (\<lambda>q. within_bits 1 q pos) xs"
proof -
  obtain items where it: "node_at isz data a = Inr (ItemNode items)" using tree_okD(4) [OF T p(1)] p(2) by auto
  then have at: "item_at isz inval data p j = items ! j" for j using p(1) by (simp add: item_at_def)
  let ?g = "\<lambda>c. let item = items ! corner_index c in if item = inval then [] else [(pos_add pos c, item)]"
  have low: "low_clear (Suc 0) pos" using pos by simp
  have "lists_items inval (\<lambda>q. item_at isz inval data p (child_index q 1)) (\<lambda>q. within_bits 0 q (pos_add pos (pos_shift c 0))) (?g c)"
    if c: "c \<in> set corners" for c
    using child_index_corner [OF low c, of 0] by (auto simp: lists_items_def within_bits_0 pos_shift_0 at Let_def)
  from lists_corners [OF low this] have
    "lists_items inval (\<lambda>q. item_at isz inval data p (child_index q 1)) (\<lambda>q. within_bits (Suc 0) q pos) (concat (map ?g corners))" .
  then show ?thesis using it by (simp add: IterateLeaf_def GetItemNode_def)
qed

lemma visit_children_ok:
  assumes "\<And>c. c \<in> set corners \<Longrightarrow> node ! corner_index c \<noteq> - 1 \<Longrightarrow>
    visit_child (a + unat (node ! corner_index c)) (pos_add pos (pos_shift c s)) = Inr (g c)"
  shows "visit_children visit_child node s a pos =
    Inr (concat (map (\<lambda>c. if node ! corner_index c = - 1 then [] else g c) corners))"
proof -
  have "rfold (\<lambda>c visited. let offset = node ! corner_index c
      in if offset = - 1 then Inr visited
         else rbind (visit_child (a + unat offset) (pos_add pos (pos_shift c s))) (\<lambda>xs. Inr (visited @ xs))) cs visited =
    Inr (visited @ concat (map (\<lambda>c. if node ! corner_index c = - 1 then [] else g c) cs))"
    if "set cs \<subseteq> set corners" for cs visited
    using that assms by (induction cs arbitrary: visited) (simp_all add: Let_def)
  from this [of corners "[]"] show ?thesis by (simp add: visit_children_def)
qed

fun visit_level :: "nat \<Rightarrow> nat \<Rightarrow> 'v \<Rightarrow> 'v onode list \<Rightarrow> nat \<Rightarrow> opos \<Rightarrow> (opos \<times> 'v) list res" where
  "visit_level 0 isz inval data a pos = IterateLeaf isz inval data a pos"
| "visit_level (Suc n) isz inval data a pos = IterateBranch n isz inval data a pos"

lemma visit_level_Suc:
  "visit_level (Suc n) isz inval data a pos =
   rbind (GetOffsetNode isz data a) (\<lambda>node. visit_children (visit_level n isz inval data) node (Suc n) a pos)"
proof -
  have "visit_level 0 isz inval data = IterateLeaf isz inval data"
    "visit_level (Suc m) isz inval data = IterateBranch m isz inval data" for m
    by (intro ext; simp)+
  then show ?thesis by (cases n) simp_all
qed

lemma visit_level_ok:
  assumes T: "tree_ok isz data h"
  shows "follow (child_of isz data) p = Some a \<Longrightarrow> length p + n = h \<Longrightarrow> low_clear (Suc n) pos \<Longrightarrow>
    \<exists>xs. visit_level n isz inval data a pos = Inr xs \<and>
      lists_items inval (\<lambda>q. item_at isz inval data (p @ path q n) (child_index q 1)) (\<lambda>q. within_bits (Suc n) q pos) xs"
proof (induction n arbitrary: p a pos)
  case 0
  then show ?case using IterateLeaf_ok [OF T, of p a pos inval] by simp
next
  case (Suc n)
  let ?s = "Suc n" and ?f = "\<lambda>q. item_at isz inval data (p @ path q (Suc n)) (child_index q 1)"
  obtain os where os: "node_at isz data a = Inr (OffsetNode os)" using tree_okD(3) [OF T Suc.prems(1)] Suc.prems(2) by auto
  let ?g = "\<lambda>c. case visit_level n isz inval data (a + unat (os ! corner_index c)) (pos_add pos (pos_shift c ?s)) of
      Inr xs \<Rightarrow> xs | Inl _ \<Rightarrow> []"
  have step: "follow (child_of isz data) (p @ [corner_index c]) =
      (if os ! corner_index c = - 1 then None else Some (a + unat (os ! corner_index c)))" if "c \<in> set corners" for c
    using Suc.prems(1) child_of_node [OF os corner_index_less [OF that]] by simp
  have child: "visit_level n isz inval data (a + unat (os ! corner_index c)) (pos_add pos (pos_shift c ?s)) = Inr (?g c) \<and>
      lists_items inval ?f (\<lambda>q. within_bits ?s q (pos_add pos (pos_shift c ?s))) (?g c)"
    if c: "c \<in> set corners" "os ! corner_index c \<noteq> - 1" for c
  proof -
    let ?pos = "pos_add pos (pos_shift c ?s)"
    have "follow (child_of isz data) (p @ [corner_index c]) = Some (a + unat (os ! corner_index c))" using step c by simp
    from Suc.IH [OF this _ low_clear_child [OF Suc.prems(3) c(1)]] Suc.prems(2) obtain xs where
      xs: "visit_level n isz inval data (a + unat (os ! corner_index c)) ?pos = Inr xs"
      "lists_items inval (\<lambda>q. item_at isz inval data ((p @ [corner_index c]) @ path q n) (child_index q 1))
        (\<lambda>q. within_bits ?s q ?pos) xs" by auto
    have "item_at isz inval data ((p @ [corner_index c]) @ path q n) (child_index q 1) = ?f q" if "within_bits ?s q ?pos" for q
      using within_child [OF Suc.prems(3) c(1), of q] that by simp
    then have "lists_items inval ?f (\<lambda>q. within_bits ?s q ?pos) xs" using xs(2) by (auto simp: lists_items_def)
    with xs(1) show ?thesis by simp
  qed
  have "lists_items inval ?f (\<lambda>q. within_bits ?s q (pos_add pos (pos_shift c ?s))) (if os ! corner_index c = - 1 then [] else ?g c)"
    if c: "c \<in> set corners" for c
  proof (cases "os ! corner_index c = - 1")
    case True
    have "?f q = inval" if "within_bits ?s q (pos_add pos (pos_shift c ?s))" for q
    proof -
      have q: "child_index q (2 ^ Suc n) = corner_index c" using within_child [OF Suc.prems(3) c, of q] that by simp
      have "follow (child_of isz data) (p @ [corner_index c]) = None" using step [OF c] True by simp
      from follow_none [OF this, of "path q n"] show ?thesis using q by (simp add: item_at_def)
    qed
    then show ?thesis using True by (auto simp: lists_items_def)
  next
    case False
    then show ?thesis using child [OF c] by simp
  qed
  from lists_corners [OF Suc.prems(3) this] have
    "lists_items inval ?f (\<lambda>q. within_bits (Suc ?s) q pos)
      (concat (map (\<lambda>c. if os ! corner_index c = - 1 then [] else ?g c) corners))" .
  moreover have "visit_level (Suc n) isz inval data a pos =
      Inr (concat (map (\<lambda>c. if os ! corner_index c = - 1 then [] else ?g c) corners))"
    unfolding visit_level_Suc using os child
    by (simp add: GetOffsetNode_def visit_children_ok [where g = ?g])
  ultimately show ?case by blast
qed

lemma Iterate_items_ok:
  assumes ok: "oct_ok d isz t"
  shows "\<exists>xs. Iterate_items d isz inval t = Inr xs \<and>
    lists_items inval (holds_at d isz inval t) (\<lambda>q. within_bits (d - to_start_depth t) q (mask_pos t)) xs"
proof (cases "to_start_depth t = d")
  case True
  then show ?thesis using oct_okD(3) [OF ok]
    by (auto simp: Iterate_items_def lists_items_def within_bits_0 holds_at_def)
next
  case False
  then have lt: "to_start_depth t < d" using oct_okD(1) [OF ok] by simp
  let ?h = "d - 1 - to_start_depth t"
  have k: "d - to_start_depth t = Suc ?h" using lt by simp
  have "low_clear (Suc ?h) (mask_pos t)"
    using oct_okD(2) [OF ok] unfolding k low_clear_def coords_def mask_ok_def by auto
  then obtain xs where xs: "visit_level ?h isz inval (to_data t) 0 (mask_pos t) = Inr xs"
    "lists_items inval (\<lambda>q. item_at isz inval (to_data t) ([] @ path q ?h) (child_index q 1))
      (\<lambda>q. within_bits (Suc ?h) q (mask_pos t)) xs"
    using visit_level_ok [OF oct_okD(4) [OF ok lt], of "[]" 0 ?h "mask_pos t" inval] by auto
  have "Iterate_items d isz inval t = visit_level ?h isz inval (to_data t) 0 (mask_pos t)"
  proof (cases "to_start_depth t = d - 1")
    case True
    then show ?thesis using False by (simp add: Iterate_items_def)
  next
    case False
    then have "?h = Suc (d - 2 - to_start_depth t)" using lt by simp
    then have "visit_level ?h isz inval (to_data t) 0 (mask_pos t) =
        IterateBranch (d - 2 - to_start_depth t) isz inval (to_data t) 0 (mask_pos t)" by (simp only: visit_level.simps)
    then show ?thesis using False lt by (simp add: Iterate_items_def)
  qed
  moreover have "lists_items inval (holds_at d isz inval t) (\<lambda>q. within_bits (d - to_start_depth t) q (mask_pos t)) xs"
    using xs(2) lt unfolding k by (auto simp: lists_items_def holds_at_def k)
  ultimately show ?thesis using xs(1) by auto
qed

section \<open>Properties\<close>

lemma small_bits:
  assumes "\<forall>j \<ge> d. \<not> bit (n :: int) j"
  shows "0 \<le> n \<and> n < 2 ^ d"
proof -
  have "drop_bit d n = 0" using assms by (intro bit_eqI) (simp add: bit_drop_bit_eq)
  then have "n div 2 ^ d = 0" by (simp add: drop_bit_eq_div)
  moreover have "0 < (2 :: int) ^ d" by simp
  ultimately show ?thesis using zdiv_eq_0_iff [of n "2 ^ d"] by linarith
qed

lemma mask_bits: "mask_ok d k m \<Longrightarrow> d \<le> j \<Longrightarrow> \<not> bit m j"
  using cut_off_small [of m d] cut_off_bit [of d m j] by (auto simp: mask_ok_def)

lemma within_in_octree:
  assumes ok: "oct_ok d isz t" and w: "within_bits (d - to_start_depth t) q (mask_pos t)"
  shows "PosInOctree d q"
proof -
  obtain x y z where q: "q = (x, y, z)" by (cases q)
  have m: "mask_ok d (d - to_start_depth t) (to_x_mask t)" "mask_ok d (d - to_start_depth t) (to_y_mask t)"
    "mask_ok d (d - to_start_depth t) (to_z_mask t)"
    using oct_okD(2) [OF ok] by (simp_all add: coords_def mask_pos_def)
  have "\<not> bit x j \<and> \<not> bit y j \<and> \<not> bit z j" if "d \<le> j" for j
    using w mask_bits [OF m(1) that] mask_bits [OF m(2) that] mask_bits [OF m(3) that] that
    by (auto simp: within_bits_def q mask_pos_def child_index_eq)
  then show ?thesis using small_bits [of d x] small_bits [of d y] small_bits [of d z]
    by (simp add: q PosInOctree_def push_bit_eq_mult)
qed

lemma Iterate_gets:
  assumes ok: "oct_ok d isz t"
  shows "\<exists>xs. Iterate_items d isz inval t = Inr xs \<and> distinct (map fst xs) \<and>
    (\<forall>q v. (q, v) \<in> set xs \<longleftrightarrow> v \<noteq> inval \<and> Get_item d isz inval q t = Inr v)"
proof -
  obtain xs where xs: "Iterate_items d isz inval t = Inr xs"
    "lists_items inval (holds_at d isz inval t) (\<lambda>q. within_bits (d - to_start_depth t) q (mask_pos t)) xs"
    using Iterate_items_ok [OF ok] by blast
  have "(q, v) \<in> set xs \<longleftrightarrow> v \<noteq> inval \<and> Get_item d isz inval q t = Inr v" for q v
    using xs(2) within_in_octree [OF ok, of q] Get_item_ok [OF ok, of inval q]
    by (auto simp: lists_items_def holds_at_def)
  then show ?thesis using xs by (auto simp: lists_items_def)
qed

text \<open>
  C28: \<open>Iterate\<close> calls its callback exactly once for every position that holds an item, with that item, and for
  no other position.
\<close>

theorem octree_iterates:
  assumes "params_ok d isz" "rfold (\<lambda>(p, v). Set_item d isz inval p v) sets (new_octree d inval) = Inr t"
  shows "\<exists>xs. Iterate_items d isz inval t = Inr xs \<and> distinct (map fst xs) \<and>
    (\<forall>q v. (q, v) \<in> set xs \<longleftrightarrow> v \<noteq> inval \<and> Get_item d isz inval q t = Inr v)"
proof -
  have "oct_ok d isz t" using Sets_ok [of d isz "new_octree d inval" inval sets, OF new_octree_ok assms(1)] assms(2) by auto
  then show ?thesis by (rule Iterate_gets)
qed

theorem octree_iterates_witness:
  "\<exists>t xs. rfold (\<lambda>(p, v). Set_item 4 64 0 p v) [((15, 0, 3), 7 :: nat), ((1, 2, 3), 9)] (new_octree 4 0) = Inr t \<and>
    Iterate_items 4 64 0 t = Inr xs \<and> distinct (map fst xs) \<and> ((15, 0, 3), 7) \<in> set xs"
proof -
  let ?sets = "[((15, 0, 3), 7 :: nat), ((1, 2, 3), 9)]"
  obtain t where t: "rfold (\<lambda>(p, v). Set_item 4 64 0 p v) ?sets (new_octree 4 0) = Inr t"
    and get: "\<forall>q. Get_item 4 64 0 q t = Inr (map_after 4 ?sets (\<lambda>_. 0) q)"
    using octree_map [OF voxel_params, of 0 ?sets] by (elim exE conjE) (rule that; assumption)
  have "map_after 4 ?sets (\<lambda>_. 0) (15, 0, 3) = 7" by (simp add: in_voxels)
  then have "Get_item 4 64 0 (15, 0, 3) t = Inr 7" by (simp only: get)
  moreover obtain xs where "Iterate_items 4 64 0 t = Inr xs" "distinct (map fst xs)"
    "\<forall>q v. (q, v) \<in> set xs \<longleftrightarrow> v \<noteq> 0 \<and> Get_item 4 64 0 q t = Inr v"
    using octree_iterates [OF voxel_params t] by blast
  ultimately show ?thesis using t by auto
qed

section \<open>ShrinkToFit\<close>

lemma map_after_list:
  assumes "distinct (map fst xs)" "\<forall>q \<in> fst ` set xs. PosInOctree d q"
  shows "map_after d xs f q = (case map_of xs q of None \<Rightarrow> f q | Some v \<Rightarrow> v)"
  using assms
proof (induction xs arbitrary: f)
  case (Cons x xs)
  obtain p v where x: "x = (p, v)" by (cases x)
  have p: "PosInOctree d p" using Cons.prems(2) by (simp add: x)
  have none: "map_of xs p = None" using Cons.prems(1) by (simp add: x map_of_eq_None_iff)
  have "map_after d xs (f(p := v)) q = (case map_of xs q of None \<Rightarrow> (f(p := v)) q | Some v \<Rightarrow> v)"
     by (rule Cons.IH) (use Cons.prems in simp_all)
  then show ?case using p none by (auto simp: x split: option.splits)
qed simp

lemma two_items_grow:
  assumes par: "params_ok d isz" and xs: "xs = (p, v) # (q, w) # rest" and ne: "p \<noteq> q" "v \<noteq> inval" "w \<noteq> inval"
    and pos: "PosInOctree d p" "PosInOctree d q"
    and run: "rfold (\<lambda>(p, v). Set_item d isz inval p v) xs (new_octree d inval) = Inr t'"
  shows "to_start_depth t' < d"
proof -
  obtain x y z where p: "p = (x, y, z)" by (cases p)
  have b: "byte x = x" "byte y = y" "byte z = z" using params_mask [OF par, of x y z] pos(1) by (simp_all add: p)
  let ?t1 = "(new_octree d inval)\<lparr>to_single_item := v, to_x_mask := x, to_y_mask := y, to_z_mask := z\<rparr>"
  have s1: "Set_item d isz inval p v (new_octree d inval) = Inr ?t1"
    using pos(1) b by (simp add: Set_item_def new_octree_def p)
  obtain t1 where "Set_item d isz inval p v (new_octree d inval) = Inr t1" "oct_ok d isz t1"
    using Set_item_ok [where inval = inval and v = v and t = "new_octree d inval", OF new_octree_ok par pos(1)]
    by (elim exE conjE) (rule that; assumption)
  with s1 have ok1: "oct_ok d isz ?t1" by simp
  have m: "mask_pos ?t1 = p" "to_start_depth ?t1 = d" "to_single_item ?t1 = v" by (simp_all add: mask_pos_def p new_octree_def)
  obtain t2 where t2: "Set_item d isz inval q w ?t1 = Inr t2" "oct_ok d isz t2"
    "to_start_depth ?t1 = d \<longrightarrow> to_single_item ?t1 \<noteq> inval \<longrightarrow> w \<noteq> inval \<longrightarrow> q \<noteq> mask_pos ?t1 \<longrightarrow> to_start_depth t2 < d"
    using Set_item_ok [OF ok1 par pos(2), of inval w] by (elim exE conjE) (rule that; assumption)
  have lt: "to_start_depth t2 < d" using t2(3) m ne by simp
  have "rfold (\<lambda>(p, v). Set_item d isz inval p v) rest t2 = Inr t'" using run s1 t2(1) by (simp add: xs)
  then show ?thesis using Sets_ok [OF t2(2) par, of inval rest] lt by auto
qed

lemma rebuild_ok:
  assumes par: "params_ok d isz" and ok: "oct_ok d isz t" and xs: "Iterate_items d isz inval t = Inr xs"
  shows "\<exists>t'. rfold (\<lambda>(p, v). Set_item d isz inval p v) xs (new_octree d inval) = Inr t' \<and>
    (\<forall>q. Get_item d isz inval q t' = Get_item d isz inval q t)"
proof -
  have xs: "distinct (map fst xs)" "\<forall>q v. (q, v) \<in> set xs \<longleftrightarrow> v \<noteq> inval \<and> Get_item d isz inval q t = Inr v"
    using Iterate_gets [OF ok, of inval] xs by auto
  have inside: "PosInOctree d q" if "(q, v) \<in> set xs" for q v
    using xs(2) [rule_format, of q v] that Get_item_ok [OF ok, of inval q] by (auto split: if_splits)
  have all: "\<forall>q \<in> fst ` set xs. PosInOctree d q" using inside by fastforce
  obtain t' where t': "rfold (\<lambda>(p, v). Set_item d isz inval p v) xs (new_octree d inval) = Inr t'" "oct_ok d isz t'"
    "\<forall>q. holds_at d isz inval t' q = map_after d xs (holds_at d isz inval (new_octree d inval)) q"
    using Sets_ok [of d isz "new_octree d inval" inval xs, OF new_octree_ok par]
    by (elim exE conjE) (rule that; assumption)
  have after: "holds_at d isz inval t' q = (case map_of xs q of None \<Rightarrow> inval | Some v \<Rightarrow> v)" for q
    using t'(3) [rule_format, of q] map_after_list [OF xs(1) all, of "holds_at d isz inval (new_octree d inval)" q]
    by (simp add: new_octree_holds split: option.splits)
  have "Get_item d isz inval q t' = Get_item d isz inval q t" for q
  proof (cases "map_of xs q")
    case None
    then have "\<forall>v. (q, v) \<notin> set xs" by (metis map_of_eq_None_iff fst_conv image_eqI)
    then have "Get_item d isz inval q t = Inr inval"
      using xs(2) [rule_format, of q "holds_at d isz inval t q"] Get_item_ok [OF ok, of inval q]
      by (cases "holds_at d isz inval t q = inval") auto
    then show ?thesis using after [of q] None by (simp add: Get_item_ok [OF t'(2)])
  next
    case (Some v)
    then have m: "(q, v) \<in> set xs" by (rule map_of_SomeD)
    then have "Get_item d isz inval q t = Inr v" using xs(2) by blast
    then show ?thesis using after [of q] Some inside [OF m] by (simp add: Get_item_ok [OF t'(2)])
  qed
  then show ?thesis using t'(1) by blast
qed

lemma rebuild_grows:
  assumes par: "params_ok d isz" and ok: "oct_ok d isz t" and xs: "Iterate_items d isz inval t = Inr xs"
    and run: "rfold (\<lambda>(p, v). Set_item d isz inval p v) xs (new_octree d inval) = Inr t'"
    and two: "p1 \<noteq> p2" "Get_item d isz inval p1 t \<noteq> Inr inval" "Get_item d isz inval p2 t \<noteq> Inr inval"
  shows "to_start_depth t' < d"
proof -
  have xs: "distinct (map fst xs)" "\<forall>q v. (q, v) \<in> set xs \<longleftrightarrow> v \<noteq> inval \<and> Get_item d isz inval q t = Inr v"
    using Iterate_gets [OF ok, of inval] xs by auto
  obtain v1 v2 where "(p1, v1) \<in> set xs" "(p2, v2) \<in> set xs"
    using two(2,3) xs(2) Get_item_ok [OF ok] by metis
  then obtain a b rest where l: "xs = a # b # rest" using two(1) by (cases xs; cases "tl xs") auto
  have fine: "v \<noteq> inval" "PosInOctree d q" if "(q, v) \<in> set xs" for q v
    using xs(2) [rule_format, of q v] that Get_item_ok [OF ok, of inval q] by (auto split: if_splits)
  show ?thesis
  proof (rule two_items_grow [OF par, of xs "fst a" "snd a" "fst b" "snd b" rest inval t'])
    show "fst a \<noteq> fst b" using xs(1) by (simp add: l)
    show "snd a \<noteq> inval" "PosInOctree d (fst a)" using fine [of "fst a" "snd a"] by (simp_all add: l)
    show "snd b \<noteq> inval" "PosInOctree d (fst b)" using fine [of "fst b" "snd b"] by (simp_all add: l)
    show "xs = (fst a, snd a) # (fst b, snd b) # rest" by (simp add: l)
    show "rfold (\<lambda>(p, v). Set_item d isz inval p v) xs (new_octree d inval) = Inr t'" by (rule run)
  qed
qed

text \<open>
  C29: \<open>ShrinkToFit\<close> changes nothing that can be read, as long as two positions hold items.
\<close>

theorem octree_shrinks:
  assumes par: "params_ok d isz" and run: "rfold (\<lambda>(p, v). Set_item d isz inval p v) sets (new_octree d inval) = Inr t"
    and two: "p1 \<noteq> p2" "Get_item d isz inval p1 t \<noteq> Inr inval" "Get_item d isz inval p2 t \<noteq> Inr inval"
  shows "\<exists>t'. OctreeShrinkToFit d isz inval t = Inr t' \<and> (\<forall>q. Get_item d isz inval q t' = Get_item d isz inval q t)"
proof -
  have ok: "oct_ok d isz t" using Sets_ok [of d isz "new_octree d inval" inval sets, OF new_octree_ok par] run by auto
  show ?thesis
  proof (cases "to_data t = []")
    case True
    then have "to_start_depth t = d"
      using oct_okD(1,4) [OF ok] tree_okD(3,4) [of isz "[]" _ "[]" 0] by (metis follow_simps(1) node_at.simps(1) Inl_Inr_False le_neq_implies_less)
    then show ?thesis using True by (simp add: OctreeShrinkToFit_def)
  next
    case False
    then have lt: "to_start_depth t < d" using oct_okD(1,3) [OF ok] by (metis le_neq_implies_less)
    obtain xs where xs: "Iterate_items d isz inval t = Inr xs" using Iterate_gets [OF ok] by blast
    obtain t' where t': "rfold (\<lambda>(p, v). Set_item d isz inval p v) xs (new_octree d inval) = Inr t'"
      "\<forall>q. Get_item d isz inval q t' = Get_item d isz inval q t"
      using rebuild_ok [OF par ok xs] by blast
    have "to_start_depth t' < d" by (rule rebuild_grows [OF par ok xs t'(1) two])
    then have "Get_item d isz inval q (t'\<lparr>to_single_item := x\<rparr>) = Get_item d isz inval q t'" for q x
      by (simp add: Get_item_def PosInBounds_def Let_def)
    moreover have "OctreeShrinkToFit d isz inval t = Inr (t'\<lparr>to_single_item := to_single_item t\<rparr>)"
      using False lt xs t'(1) by (simp add: OctreeShrinkToFit_def)
    ultimately show ?thesis using t'(2) by metis
  qed
qed

theorem octree_shrinks_witness:
  "\<exists>t t'. rfold (\<lambda>(p, v). Set_item 4 64 0 p v) [((15, 0, 3), 7 :: nat), ((1, 2, 3), 9)] (new_octree 4 0) = Inr t \<and>
    OctreeShrinkToFit 4 64 0 t = Inr t' \<and> Get_item 4 64 0 (15, 0, 3) t' = Inr 7 \<and> Get_item 4 64 0 (1, 2, 3) t' = Inr 9"
proof -
  let ?sets = "[((15, 0, 3), 7 :: nat), ((1, 2, 3), 9)]"
  obtain t where t: "rfold (\<lambda>(p, v). Set_item 4 64 0 p v) ?sets (new_octree 4 0) = Inr t"
    and get: "\<forall>q. Get_item 4 64 0 q t = Inr (map_after 4 ?sets (\<lambda>_. 0) q)"
    using octree_map [OF voxel_params, of 0 ?sets] by (elim exE conjE) (rule that; assumption)
  have "map_after 4 ?sets (\<lambda>_. 0) (15, 0, 3) = 7" "map_after 4 ?sets (\<lambda>_. 0) (1, 2, 3) = 9" by (simp_all add: in_voxels)
  then have g: "Get_item 4 64 0 (15, 0, 3) t = Inr 7" "Get_item 4 64 0 (1, 2, 3) t = Inr 9" by (simp_all only: get)
  have "\<exists>t'. OctreeShrinkToFit 4 64 0 t = Inr t' \<and> (\<forall>q. Get_item 4 64 0 q t' = Get_item 4 64 0 q t)"
    by (rule octree_shrinks [OF voxel_params t, of "(15, 0, 3)" "(1, 2, 3)"]) (simp_all add: g)
  then show ?thesis using t g by auto
qed

text \<open>
  With one item left the copy keeps it in its own \<open>m_single_item\<close>, which is not swapped back: the octree has the
  item's position and an old item.
\<close>

lemma shrink_loses_the_last_item:
  "case rfold (\<lambda>(p, v). Set_item 4 64 0 p v) [((0, 0, 0), 7 :: nat), ((1, 0, 0), 9), ((0, 0, 0), 0)] (new_octree 4 0) of
     Inl _ \<Rightarrow> False
   | Inr t \<Rightarrow> Get_item 4 64 0 (1, 0, 0) t = Inr 9 \<and>
       (case OctreeShrinkToFit 4 64 0 t of Inl _ \<Rightarrow> False | Inr t' \<Rightarrow> Get_item 4 64 0 (1, 0, 0) t' = Inr 7)"
  by code_simp

end
