(* ===== verification/DirtyTracker.thy ===== *)
theory DirtyTracker
  imports Prelude
begin

text \<open>
  \<open>src/Util/DirtyTracker.h\<close> and \<open>DirtyTracker.cpp\<close>: which ranges of a block of data have been modified, kept per
  chunk of \<open>m_chunk_size\<close> items.

  The \<open>std::map\<close> and the \<open>std::set\<close> are lists with ascending keys. Positions are below \<open>2 ^ 32\<close>, chunk
  indices and chunk sizes below \<open>2 ^ 16\<close>. A product of two 16-bit numbers is an \<open>int\<close>: from \<open>2 ^ 31\<close> on it
  overflows, which the language leaves undefined. The callback's arguments are the result of an
  iteration.
\<close>

section \<open>DirtyRangeTracker\<close>

record Chunk =
  ch_first :: nat
  ch_last :: nat

definition new_Chunk :: Chunk where
  "new_Chunk = \<lparr>ch_first = 65535, ch_last = 0\<rparr>"

record DirtyRangeTracker =
  rt_chunk_size :: nat
  rt_chunks :: "(nat \<times> Chunk) list"

definition new_DirtyRangeTracker :: "nat \<Rightarrow> DirtyRangeTracker" where
  "new_DirtyRangeTracker chunk_size = \<lparr>rt_chunk_size = chunk_size, rt_chunks = []\<rparr>"

text \<open>\<open>m_chunks[k]\<close>, which is created if need be, and what is then done with it.\<close>

fun update_chunk :: "nat \<Rightarrow> (Chunk \<Rightarrow> Chunk) \<Rightarrow> (nat \<times> Chunk) list \<Rightarrow> (nat \<times> Chunk) list" where
  "update_chunk k f [] = [(k, f new_Chunk)]"
| "update_chunk k f ((j, c) # cs) =
     (if k = j then (j, f c) # cs
      else if k < j then (k, f new_Chunk) # (j, c) # cs
      else (j, c) # update_chunk k f cs)"

definition widen :: "nat \<Rightarrow> nat \<Rightarrow> Chunk \<Rightarrow> Chunk" where
  "widen lo hi c =
     (if lo < ch_first c then c\<lparr>ch_first := lo\<rparr>
      else if ch_last c < hi then c\<lparr>ch_last := hi\<rparr>
      else c)"

definition RangeAddItem :: "nat \<Rightarrow> DirtyRangeTracker \<Rightarrow> DirtyRangeTracker res" where
  "RangeAddItem pos t =
     (let sz = rt_chunk_size t
      in if sz = 0 then Inl Div_By_Zero
         else
           let chunk_index = pos div sz mod 65536;
               pos_in_chunk = pos mod sz
           in Inr (t\<lparr>rt_chunks := update_chunk chunk_index (widen pos_in_chunk pos_in_chunk) (rt_chunks t)\<rparr>))"

text \<open>The loop over the chunks between the first and the last one; it also returns where it ended.\<close>

function whole_chunks :: "nat \<Rightarrow> nat \<Rightarrow> nat \<Rightarrow> (nat \<times> Chunk) list \<Rightarrow> nat \<times> (nat \<times> Chunk) list" where
  "whole_chunks sz i last_index cs =
     (if int i < int last_index - 1
      then whole_chunks sz (i + 1) last_index (update_chunk i (\<lambda>_. \<lparr>ch_first = 0, ch_last = sz - 1\<rparr>) cs)
      else (i, cs))"
  by pat_completeness auto

termination
  by (relation "measure (\<lambda>(sz, i, last_index, cs). last_index - i)") auto

declare whole_chunks.simps [simp del]

definition RangeAddItems :: "nat \<Rightarrow> nat \<Rightarrow> DirtyRangeTracker \<Rightarrow> DirtyRangeTracker res" where
  "RangeAddItems first_pos last_pos t =
     (let sz = rt_chunk_size t
      in if sz = 0 then Inl Div_By_Zero
         else
           let first_index = first_pos div sz mod 65536; start_in_first = first_pos mod sz;
               last_index = last_pos div sz mod 65536; end_in_last = last_pos mod sz
           in if first_index = last_index
              then Inr (t\<lparr>rt_chunks := update_chunk first_index (widen start_in_first end_in_last) (rt_chunks t)\<rparr>)
              else
                let cs1 = update_chunk first_index
                      (\<lambda>c. \<lparr>ch_first = min start_in_first (ch_first c), ch_last = sz - 1\<rparr>) (rt_chunks t);
                    (i, cs2) = whole_chunks sz ((first_index + 1) mod 65536) last_index cs1
                in Inr (t\<lparr>rt_chunks := update_chunk i
                      (\<lambda>c. \<lparr>ch_first = 0, ch_last = max end_in_last (ch_last c)\<rparr>) cs2\<rparr>))"

definition RangeClear :: "DirtyRangeTracker \<Rightarrow> DirtyRangeTracker" where
  "RangeClear t = t\<lparr>rt_chunks := []\<rparr>"

record range_iter =
  ri_begin :: nat
  ri_end :: nat
  ri_previous_end :: nat
  ri_reported :: "(nat \<times> nat) list"

abbreviation UINT32_MAX :: nat where "UINT32_MAX \<equiv> 2 ^ 32 - 1"

text \<open>The body of the loop. No sum in it can exceed 32 bits, since the chunk begins below \<open>2 ^ 31\<close>.\<close>

definition range_iter_step :: "nat \<Rightarrow> nat \<times> Chunk \<Rightarrow> range_iter \<Rightarrow> range_iter res" where
  "range_iter_step sz kc st =
     (case kc of (chunk_index, chunk) \<Rightarrow>
        let chunk_begin = chunk_index * sz
        in if 2 ^ 31 \<le> chunk_begin then Inl Signed_Overflow
           else
             let first_pos = chunk_begin + ch_first chunk; last_pos = chunk_begin + ch_last chunk;
                 touches_next_chunk = (ch_last chunk + 1 = sz);
                 st1 =
                   (if ri_previous_end st + 1 = first_pos
                    then if touches_next_chunk then st\<lparr>ri_end := last_pos\<rparr>
                         else st\<lparr>ri_end := last_pos, ri_begin := UINT32_MAX,
                                 ri_reported := ri_reported st @ [(ri_begin st, last_pos)]\<rparr>
                    else
                      let st0 =
                            (if ri_begin st \<noteq> UINT32_MAX
                             then st\<lparr>ri_begin := UINT32_MAX, ri_reported := ri_reported st @ [(ri_begin st, ri_end st)]\<rparr>
                             else st)
                      in if touches_next_chunk then st0\<lparr>ri_begin := first_pos, ri_end := last_pos\<rparr>
                         else st0\<lparr>ri_reported := ri_reported st0 @ [(first_pos, last_pos)]\<rparr>)
             in Inr (st1\<lparr>ri_previous_end := last_pos\<rparr>))"

definition new_range_iter :: range_iter where
  "new_range_iter = \<lparr>ri_begin = UINT32_MAX, ri_end = UINT32_MAX, ri_previous_end = UINT32_MAX - 1, ri_reported = []\<rparr>"

definition finish_range :: "range_iter \<Rightarrow> (nat \<times> nat) list" where
  "finish_range st = ri_reported st @ (if ri_begin st \<noteq> UINT32_MAX then [(ri_begin st, ri_end st)] else [])"

definition RangeForEachRange :: "DirtyRangeTracker \<Rightarrow> (nat \<times> nat) list res" where
  "RangeForEachRange t =
     rbind (rfold (range_iter_step (rt_chunk_size t)) (rt_chunks t) new_range_iter) (\<lambda>st. Inr (finish_range st))"

section \<open>DirtyChunkTracker\<close>

record DirtyChunkTracker =
  ct_chunk_size :: nat
  ct_chunks :: "nat list"

definition new_DirtyChunkTracker :: "nat \<Rightarrow> DirtyChunkTracker" where
  "new_DirtyChunkTracker chunk_size = \<lparr>ct_chunk_size = chunk_size, ct_chunks = []\<rparr>"

definition ChunkAddItem :: "nat \<Rightarrow> DirtyChunkTracker \<Rightarrow> DirtyChunkTracker res" where
  "ChunkAddItem pos t =
     (if ct_chunk_size t = 0 then Inl Div_By_Zero
      else Inr (t\<lparr>ct_chunks := insort_insert (pos div ct_chunk_size t mod 65536) (ct_chunks t)\<rparr>))"

definition steps_left :: "nat \<Rightarrow> nat \<Rightarrow> nat" where
  "steps_left i l = (if i \<le> l then l - i else l + 65536 - i)"

lemma steps_left_drops:
  assumes "i < 65536" "l < 65536" "i \<noteq> l"
  shows "steps_left ((i + 1) mod 65536) l < steps_left i l"
proof (cases "i = 65535")
  case False
  then show ?thesis using assms by (auto simp: steps_left_def)
qed (use assms in \<open>simp add: steps_left_def\<close>)

text \<open>The loop ends at the last chunk, after a wrap of the 16-bit index if it starts behind it.\<close>

function emplace_chunks :: "nat \<Rightarrow> nat \<Rightarrow> nat list \<Rightarrow> nat list" where
  "emplace_chunks i last_index cs =
     (if i mod 65536 = last_index mod 65536 then cs
      else emplace_chunks ((i + 1) mod 65536) last_index (insort_insert i cs))"
  by pat_completeness auto

termination
proof (relation "measure (\<lambda>(i, l, cs). steps_left (i mod 65536) (l mod 65536))")
  fix i l :: nat and cs :: "nat list"
  assume "i mod 65536 \<noteq> l mod 65536"
  then have "steps_left ((i mod 65536 + 1) mod 65536) (l mod 65536) < steps_left (i mod 65536) (l mod 65536)"
    by (intro steps_left_drops) simp_all
  then show "(((i + 1) mod 65536, l, insort_insert i cs), i, l, cs)
      \<in> measure (\<lambda>(i, l, cs). steps_left (i mod 65536) (l mod 65536))"
    by (simp add: mod_simps)
qed simp

declare emplace_chunks.simps [simp del]

definition ChunkAddItems :: "nat \<Rightarrow> nat \<Rightarrow> DirtyChunkTracker \<Rightarrow> DirtyChunkTracker res" where
  "ChunkAddItems first_pos last_pos t =
     (let sz = ct_chunk_size t
      in if sz = 0 then Inl Div_By_Zero
         else Inr (t\<lparr>ct_chunks := emplace_chunks (first_pos div sz mod 65536) (last_pos div sz mod 65536) (ct_chunks t)\<rparr>))"

definition ChunkClear :: "DirtyChunkTracker \<Rightarrow> DirtyChunkTracker" where
  "ChunkClear t = t\<lparr>ct_chunks := []\<rparr>"

record chunk_iter =
  ci_begin :: nat
  ci_end :: nat
  ci_last_index :: nat
  ci_reported :: "(nat \<times> nat) list"

abbreviation UINT16_MAX :: nat where "UINT16_MAX \<equiv> 65535"

definition chunk_iter_step :: "nat \<Rightarrow> nat \<Rightarrow> chunk_iter \<Rightarrow> chunk_iter res" where
  "chunk_iter_step sz chunk_index st =
     (if 2 ^ 31 \<le> chunk_index * sz then Inl Signed_Overflow
      else
        let st1 =
              (if ci_last_index st + 1 = chunk_index then st\<lparr>ci_end := chunk_index\<rparr>
               else
                 let st0 = (if ci_begin st \<noteq> UINT16_MAX
                            then st\<lparr>ci_reported := ci_reported st @ [(ci_begin st, ci_end st)]\<rparr> else st)
                 in st0\<lparr>ci_begin := chunk_index, ci_end := chunk_index\<rparr>)
        in Inr (st1\<lparr>ci_last_index := chunk_index\<rparr>))"

definition new_chunk_iter :: chunk_iter where
  "new_chunk_iter = \<lparr>ci_begin = UINT16_MAX, ci_end = UINT16_MAX, ci_last_index = UINT16_MAX - 1, ci_reported = []\<rparr>"

definition finish_chunks :: "chunk_iter \<Rightarrow> (nat \<times> nat) list" where
  "finish_chunks st = ci_reported st @ (if ci_begin st \<noteq> UINT16_MAX then [(ci_begin st, ci_end st)] else [])"

definition ChunkForEachRange :: "DirtyChunkTracker \<Rightarrow> (nat \<times> nat) list res" where
  "ChunkForEachRange t =
     rbind (rfold (chunk_iter_step (ct_chunk_size t)) (ct_chunks t) new_chunk_iter) (\<lambda>st. Inr (finish_chunks st))"

end
