(* ===== verification/DirtyRanges.thy ===== *)
theory DirtyRanges
  imports DirtyTracker
begin

text \<open>
  What the dirty trackers report: the ranges of an iteration cover exactly what the chunks hold, each
  range once, in ascending order and never two ranges where one would do.
\<close>

definition covered :: "(nat \<times> nat) list \<Rightarrow> nat set" where
  "covered rs = (\<Union>(a, b) \<in> set rs. {a..b})"

definition separated :: "(nat \<times> nat) list \<Rightarrow> bool" where
  "separated rs \<longleftrightarrow> (\<forall>(a, b) \<in> set rs. a \<le> b) \<and> sorted_wrt (\<lambda>(a, b) (c, d). b + 1 < c) rs"

lemma covered_simps [simp]: "covered [] = {}" "covered [(a, b)] = {a..b}" "covered (rs @ [(a, b)]) = covered rs \<union> {a..b}"
  by (auto simp: covered_def)

lemma separated_simps [simp]:
  "separated []" "separated [(a, b)] \<longleftrightarrow> a \<le> b"
  "separated (rs @ [(a, b)]) \<longleftrightarrow> separated rs \<and> a \<le> b \<and> (\<forall>(x, y) \<in> set rs. y + 1 < a)"
  by (auto simp: separated_def sorted_wrt_append)

lemma separated_later: "\<forall>(x, y) \<in> set rs. y \<le> p \<Longrightarrow> p + 1 < a \<Longrightarrow> \<forall>(x, y) \<in> set rs. y + 1 < (a :: nat)"
  by fastforce

lemma ends_mono: "\<forall>(x, y) \<in> set rs. y \<le> p \<Longrightarrow> p \<le> q \<Longrightarrow> \<forall>(x, y) \<in> set rs. y \<le> (q :: nat)"
  by fastforce

section \<open>DirtyRangeTracker\<close>

definition chunk_ok :: "nat \<Rightarrow> nat \<times> Chunk \<Rightarrow> bool" where
  "chunk_ok sz kc \<longleftrightarrow> fst kc < 65536 \<and> fst kc * sz < 2 ^ 31 \<and> ch_first (snd kc) \<le> ch_last (snd kc) \<and> ch_last (snd kc) < sz"

definition tracker_ok :: "DirtyRangeTracker \<Rightarrow> bool" where
  "tracker_ok t \<longleftrightarrow> rt_chunk_size t < 65536 \<and> sorted_wrt (<) (map fst (rt_chunks t)) \<and>
     (\<forall>kc \<in> set (rt_chunks t). chunk_ok (rt_chunk_size t) kc)"

definition chunk_items :: "nat \<Rightarrow> nat \<times> Chunk \<Rightarrow> nat set" where
  "chunk_items sz kc = {fst kc * sz + ch_first (snd kc)..fst kc * sz + ch_last (snd kc)}"

definition dirty_items :: "DirtyRangeTracker \<Rightarrow> nat set" where
  "dirty_items t = (\<Union>kc \<in> set (rt_chunks t). chunk_items (rt_chunk_size t) kc)"

text \<open>All chunks so far lie before \<open>bnd\<close>, and a range is open exactly if it reaches \<open>bnd\<close>.\<close>

definition range_inv :: "nat \<Rightarrow> range_iter \<Rightarrow> bool" where
  "range_inv bnd st \<longleftrightarrow>
     st = new_range_iter \<or>
     separated (finish_range st) \<and> (\<forall>(a, b) \<in> set (finish_range st). b \<le> ri_previous_end st) \<and>
     ri_previous_end st < 2 ^ 31 + 2 ^ 16 \<and>
     (if ri_begin st \<noteq> UINT32_MAX then ri_end st = ri_previous_end st \<and> ri_previous_end st + 1 = bnd
      else ri_previous_end st + 1 < bnd)"

lemma finish_new [simp]: "finish_range new_range_iter = []"
  by (simp add: finish_range_def new_range_iter_def)

text \<open>A chunk that continues the open range extends it; any other one adds a range of its own.\<close>

lemma range_step_result:
  assumes c: "chunk_ok sz (k, c)" and sz: "sz < 65536"
    and cont: "ri_previous_end st + 1 = k * sz + ch_first c \<Longrightarrow> ri_begin st \<noteq> UINT32_MAX"
  shows "\<exists>st'. range_iter_step sz (k, c) st = Inr st' \<and> ri_previous_end st' = k * sz + ch_last c \<and>
    (ri_begin st' \<noteq> UINT32_MAX \<longleftrightarrow> ch_last c + 1 = sz) \<and>
    (ri_begin st' \<noteq> UINT32_MAX \<longrightarrow> ri_end st' = k * sz + ch_last c) \<and>
    finish_range st' =
      (if ri_previous_end st + 1 = k * sz + ch_first c
       then ri_reported st @ [(ri_begin st, k * sz + ch_last c)]
       else finish_range st @ [(k * sz + ch_first c, k * sz + ch_last c)])"
proof -
  have "k * sz < 2 ^ 31" "k * sz + ch_first c < 2 ^ 32 - 1" using c sz by (auto simp: chunk_ok_def)
  then show ?thesis using cont
    by (cases "ri_previous_end st + 1 = k * sz + ch_first c"; cases "ch_last c + 1 = sz")
      (simp_all add: range_iter_step_def finish_range_def Let_def)
qed

lemma range_step:
  assumes inv: "range_inv bnd st" and k: "bnd \<le> k * sz" and c: "chunk_ok sz (k, c)" and sz: "sz < 65536"
  shows "\<exists>st'. range_iter_step sz (k, c) st = Inr st' \<and> range_inv ((k + 1) * sz) st' \<and>
    covered (finish_range st') = covered (finish_range st) \<union> chunk_items sz (k, c)"
proof -
  let ?f = "k * sz + ch_first c" and ?l = "k * sz + ch_last c"
  have b: "?f \<le> ?l" "?l + 1 \<le> (k + 1) * sz" "?l < 2 ^ 31 + 2 ^ 16" "?l + 1 = (k + 1) * sz \<longleftrightarrow> ch_last c + 1 = sz"
    using c sz by (auto simp: chunk_ok_def)
  have new: "ri_previous_end st + 1 \<noteq> ?f" if "st = new_range_iter" using that b by (simp add: new_range_iter_def)
  have old: "separated (finish_range st)" "\<forall>(x, y) \<in> set (finish_range st). y \<le> ri_previous_end st"
    "ri_begin st \<noteq> UINT32_MAX \<Longrightarrow> ri_end st = ri_previous_end st"
    "ri_begin st \<noteq> UINT32_MAX \<Longrightarrow> ri_previous_end st + 1 = bnd" "ri_previous_end st < ?f"
    "ri_begin st = UINT32_MAX \<Longrightarrow> ri_previous_end st + 1 < bnd" if "st \<noteq> new_range_iter"
    using inv that k by (auto simp: range_inv_def split: if_splits)
  have cont: "ri_begin st \<noteq> UINT32_MAX" if "ri_previous_end st + 1 = ?f"
    using new old(6) that k by (metis le_add1 le_trans not_less)
  obtain st' where st': "range_iter_step sz (k, c) st = Inr st'" "ri_previous_end st' = ?l"
    "ri_begin st' \<noteq> UINT32_MAX \<longleftrightarrow> ch_last c + 1 = sz" "ri_begin st' \<noteq> UINT32_MAX \<longrightarrow> ri_end st' = ?l"
    "finish_range st' = (if ri_previous_end st + 1 = ?f then ri_reported st @ [(ri_begin st, ?l)] else finish_range st @ [(?f, ?l)])"
    using range_step_result [OF c sz cont] by blast
  have fin: "separated (finish_range st') \<and> (\<forall>(x, y) \<in> set (finish_range st'). y \<le> ?l) \<and>
    covered (finish_range st') = covered (finish_range st) \<union> {?f..?l}"
  proof (cases "st = new_range_iter")
    case True
    then show ?thesis using st'(5) new b by simp
  next
    case False
    note old = old [OF False]
    have ends: "\<forall>(x, y) \<in> set (finish_range st). y \<le> ?l" using old(5) b by (intro ends_mono [OF old(2)]) simp
    show ?thesis
    proof (cases "ri_previous_end st + 1 = ?f")
      case True
      then have e: "finish_range st = ri_reported st @ [(ri_begin st, ri_previous_end st)]"
        using cont old(3) by (simp add: finish_range_def)
      have "ri_begin st \<le> ri_previous_end st" using old(1) by (simp add: e)
      then have "{ri_begin st..?l} = {ri_begin st..ri_previous_end st} \<union> {?f..?l}" using True b(1) by auto
      moreover have "ri_begin st \<le> ?l" using \<open>ri_begin st \<le> ri_previous_end st\<close> True b(1) by linarith
      ultimately show ?thesis using st'(5) True old(1) ends by (simp add: e Un_assoc)
    next
      case no: False
      then have "ri_previous_end st + 1 < ?f" using old(5) by simp
      from separated_later [OF old(2) this] show ?thesis using st'(5) no old(1) ends b(1) by simp
    qed
  qed
  moreover have "range_inv ((k + 1) * sz) st'" using fin st'(2-4) b(2-4) by (auto simp: range_inv_def)
  ultimately show ?thesis using st'(1) by (auto simp: chunk_items_def)
qed

lemma range_loop:
  assumes "sorted_wrt (<) (map fst cs)" "\<forall>kc \<in> set cs. chunk_ok sz kc" "sz < 65536"
    and "range_inv bnd st" "\<forall>kc \<in> set cs. bnd \<le> fst kc * sz"
  shows "\<exists>st' bnd'. rfold (range_iter_step sz) cs st = Inr st' \<and> range_inv bnd' st' \<and>
    covered (finish_range st') = covered (finish_range st) \<union> (\<Union>kc \<in> set cs. chunk_items sz kc)"
  using assms
proof (induction cs arbitrary: st bnd)
  case (Cons kc cs)
  obtain k c where kc: "kc = (k, c)" by (cases kc)
  obtain st1 where st1: "range_iter_step sz (k, c) st = Inr st1" "range_inv ((k + 1) * sz) st1"
    "covered (finish_range st1) = covered (finish_range st) \<union> chunk_items sz (k, c)"
    using range_step [of bnd st k sz c] Cons.prems by (auto simp: kc)
  have later: "(k + 1) * sz \<le> fst x * sz" if "x \<in> set cs" for x
  proof -
    have "k < fst x" using Cons.prems(1) that by (simp add: kc)
    then show ?thesis by (intro mult_le_mono1) simp
  qed
  obtain st' bnd' where "rfold (range_iter_step sz) cs st1 = Inr st'" "range_inv bnd' st'"
    "covered (finish_range st') = covered (finish_range st1) \<union> (\<Union>x \<in> set cs. chunk_items sz x)"
    using Cons.IH [OF _ _ _ st1(2)] Cons.prems later by auto
  then show ?case using st1(1,3) by (auto simp: kc)
qed auto

lemma ForEachRange_ok:
  assumes "tracker_ok t"
  shows "\<exists>rs. RangeForEachRange t = Inr rs \<and> covered rs = dirty_items t \<and> separated rs"
proof -
  obtain st bnd where st: "rfold (range_iter_step (rt_chunk_size t)) (rt_chunks t) new_range_iter = Inr st"
    "range_inv bnd st" "covered (finish_range st) = dirty_items t"
    using range_loop [of "rt_chunks t" "rt_chunk_size t" 0 new_range_iter] assms
    by (auto simp: tracker_ok_def range_inv_def dirty_items_def)
  then have "separated (finish_range st)" by (auto simp: range_inv_def)
  then show ?thesis using st by (simp add: RangeForEachRange_def)
qed

section \<open>Items that are added\<close>

text \<open>The items of \<open>S\<close> and those between two of them in one chunk.\<close>

definition hull :: "nat \<Rightarrow> nat set \<Rightarrow> nat set" where
  "hull sz S = {q. \<exists>a \<in> S. \<exists>b \<in> S. a div sz = b div sz \<and> a \<le> q \<and> q \<le> b}"

lemma hull_absorb: "hull sz (hull sz S \<union> T) = hull sz (S \<union> T)"
proof (rule set_eqI, rule iffI)
  fix q
  assume "q \<in> hull sz (hull sz S \<union> T)"
  then obtain a b where ab: "a \<in> hull sz S \<union> T" "b \<in> hull sz S \<union> T" "a div sz = b div sz" "a \<le> q" "q \<le> b"
    by (auto simp: hull_def)
  obtain a' where a': "a' \<in> S \<union> T" "a' \<le> a" "a' div sz = a div sz"
    using ab(1) by (auto simp: hull_def) (metis UnI1 div_le_mono le_antisym)+
  obtain b' where b': "b' \<in> S \<union> T" "b \<le> b'" "b' div sz = b div sz"
    using ab(2) by (auto simp: hull_def) (metis UnI1 div_le_mono le_antisym)+
  show "q \<in> hull sz (S \<union> T)" unfolding hull_def
    using a' b' ab(3-5) by (intro CollectI bexI [of _ a'] bexI [of _ b']) auto
next
  fix q
  assume "q \<in> hull sz (S \<union> T)"
  then show "q \<in> hull sz (hull sz S \<union> T)" by (fastforce simp: hull_def)
qed

lemma hull_union_subset: "S \<subseteq> hull sz S"
  by (auto simp: hull_def)

definition has_chunk :: "DirtyRangeTracker \<Rightarrow> nat \<Rightarrow> bool" where
  "has_chunk t k \<longleftrightarrow> k \<in> fst ` set (rt_chunks t)"

lemma update_chunk_present:
  assumes "sorted_wrt (<) (map fst cs)" "(k, c) \<in> set cs"
  shows "map fst (update_chunk k f cs) = map fst cs"
    and "set (update_chunk k f cs) = insert (k, f c) {x \<in> set cs. fst x \<noteq> k}"
  using assms
proof (induction cs)
  case (Cons x cs)
  obtain j d where x: "x = (j, d)" by (cases x)
  {
    case 1
    then show ?case using Cons.IH(1) by (auto simp: x image_iff)
  next
    case 2
    then have "k = j \<Longrightarrow> d = c" "\<forall>y \<in> set cs. j < fst y" by (auto simp: x)
    then show ?case using Cons.IH(2) 2 by (auto simp: x image_iff)
  }
qed simp_all

lemma dirty_items_chunk:
  assumes ok: "tracker_ok t" and c: "(k, c) \<in> set (rt_chunks t)"
  shows "dirty_items t \<inter> {q. q div rt_chunk_size t = k} = chunk_items (rt_chunk_size t) (k, c)"
proof -
  let ?sz = "rt_chunk_size t"
  have items: "q div ?sz = j" if "chunk_ok ?sz (j, d)" "q \<in> chunk_items ?sz (j, d)" for j d q
  proof -
    have "j * ?sz \<le> q" "q < (j + 1) * ?sz" "0 < ?sz" using that by (auto simp: chunk_ok_def chunk_items_def)
    then show ?thesis by (metis Suc_eq_plus1 div_nat_eqI mult.commute)
  qed
  have "distinct (map fst (rt_chunks t))" using ok by (auto simp: tracker_ok_def strict_sorted_iff)
  then have same: "d = c" if "(k, d) \<in> set (rt_chunks t)" for d using c that by (metis eq_key_imp_eq_value)
  show ?thesis
  proof (intro set_eqI iffI)
    fix q
    assume "q \<in> dirty_items t \<inter> {q. q div ?sz = k}"
    then obtain j d where jd: "(j, d) \<in> set (rt_chunks t)" "q \<in> chunk_items ?sz (j, d)" "q div ?sz = k"
      by (auto simp: dirty_items_def)
    then have "j = k" using items [of j d q] ok by (auto simp: tracker_ok_def)
    then show "q \<in> chunk_items ?sz (k, c)" using jd same by auto
  next
    fix q
    assume q: "q \<in> chunk_items ?sz (k, c)"
    then show "q \<in> dirty_items t \<inter> {q. q div ?sz = k}"
      using items [OF _ q] c ok by (auto simp: dirty_items_def tracker_ok_def)
  qed
qed

lemma widen_in_chunk:
  assumes "chunk_ok sz (k, c)" "p div sz = k" "0 < sz"
  shows "chunk_ok sz (k, widen (p mod sz) (p mod sz) c)"
    and "chunk_items sz (k, widen (p mod sz) (p mod sz) c) =
      {min p (k * sz + ch_first c)..max p (k * sz + ch_last c)}"
proof -
  have "p = k * sz + p mod sz" using assms(2) by (metis div_mult_mod_eq)
  moreover have "p mod sz < sz" using assms(3) by simp
  ultimately show "chunk_ok sz (k, widen (p mod sz) (p mod sz) c)"
    and "chunk_items sz (k, widen (p mod sz) (p mod sz) c) = {min p (k * sz + ch_first c)..max p (k * sz + ch_last c)}"
    using assms(1) by (auto simp: chunk_ok_def chunk_items_def widen_def)
qed

lemma hull_chunk:
  "q \<in> hull sz S \<longleftrightarrow> (\<exists>a \<in> S \<inter> {x. x div sz = q div sz}. \<exists>b \<in> S \<inter> {x. x div sz = q div sz}. a \<le> q \<and> q \<le> b)"
proof -
  have "a div sz = b div sz \<and> a \<le> q \<and> q \<le> b \<longleftrightarrow> a div sz = q div sz \<and> b div sz = q div sz \<and> a \<le> q \<and> q \<le> b" for a b
    by (metis div_le_mono le_antisym)
  then show ?thesis unfolding hull_def Bex_def Int_iff mem_Collect_eq by blast
qed

lemma dirty_items_in_chunk:
  "tracker_ok t \<Longrightarrow> q \<in> dirty_items t \<Longrightarrow> \<exists>c. (q div rt_chunk_size t, c) \<in> set (rt_chunks t)"
proof -
  assume ok: "tracker_ok t" and q: "q \<in> dirty_items t"
  then obtain k c where kc: "(k, c) \<in> set (rt_chunks t)" "q \<in> chunk_items (rt_chunk_size t) (k, c)"
    by (auto simp: dirty_items_def)
  from kc(2) have "q \<in> dirty_items t \<inter> {q. q div rt_chunk_size t = k}" by (simp only: dirty_items_chunk [OF ok kc(1)])
  then show ?thesis using kc(1) by auto
qed

lemma between_insert:
  assumes "f \<le> l"
  shows "(\<exists>a \<in> insert p {f..l}. \<exists>b \<in> insert p {f..l}. a \<le> q \<and> q \<le> b) \<longleftrightarrow> q \<in> {min p f..max p (l :: nat)}"
proof
  assume "q \<in> {min p f..max p l}"
  then show "\<exists>a \<in> insert p {f..l}. \<exists>b \<in> insert p {f..l}. a \<le> q \<and> q \<le> b"
    using assms by (intro bexI [of _ "min p f"] bexI [of _ "max p l"]) (auto simp: min_def max_def)
qed auto

lemma RangeAddItem_ok:
  assumes ok: "tracker_ok t" and has: "has_chunk t (p div rt_chunk_size t)"
  shows "\<exists>t'. RangeAddItem p t = Inr t' \<and> tracker_ok t' \<and> rt_chunk_size t' = rt_chunk_size t \<and>
    map fst (rt_chunks t') = map fst (rt_chunks t) \<and>
    dirty_items t' = hull (rt_chunk_size t) (dirty_items t \<union> {p})"
proof -
  let ?sz = "rt_chunk_size t" and ?k = "p div rt_chunk_size t" and ?m = "p mod rt_chunk_size t"
  let ?t' = "t\<lparr>rt_chunks := update_chunk ?k (widen ?m ?m) (rt_chunks t)\<rparr>"
  obtain c where c: "(?k, c) \<in> set (rt_chunks t)" using has by (auto simp: has_chunk_def)
  have cs: "sorted_wrt (<) (map fst (rt_chunks t))" "\<forall>kc \<in> set (rt_chunks t). chunk_ok ?sz kc" and sz: "?sz < 65536"
    using ok by (auto simp: tracker_ok_def)
  then have sz0: "0 < ?sz" and cok: "chunk_ok ?sz (?k, c)" using c by (auto simp: chunk_ok_def)
  note upd = update_chunk_present [OF cs(1) c, of "widen ?m ?m"]
  note wid = widen_in_chunk [OF cok refl sz0]
  have run: "RangeAddItem p t = Inr ?t'" using cok sz0 by (simp add: RangeAddItem_def chunk_ok_def Let_def)
  have keys: "map fst (rt_chunks ?t') = map fst (rt_chunks t)" using upd(1) by simp
  have ok': "tracker_ok ?t'" using ok upd wid(1) by (auto simp: tracker_ok_def)
  have new: "(?k, widen ?m ?m c) \<in> set (rt_chunks ?t')" using upd(2) by simp
  have at_k: "dirty_items ?t' \<inter> {q. q div ?sz = ?k} = {min p (?k * ?sz + ch_first c)..max p (?k * ?sz + ch_last c)}"
    "dirty_items t \<inter> {q. q div ?sz = ?k} = {?k * ?sz + ch_first c..?k * ?sz + ch_last c}"
    using dirty_items_chunk [OF ok' new] dirty_items_chunk [OF ok c] wid(2) by (simp_all add: chunk_items_def)
  have "q \<in> dirty_items ?t' \<longleftrightarrow> q \<in> hull ?sz (dirty_items t \<union> {p})" for q
  proof (cases "q div ?sz = ?k")
    case True
    let ?I = "{?k * ?sz + ch_first c..?k * ?sz + ch_last c}"
    have "(dirty_items t \<union> {p}) \<inter> {x. x div ?sz = q div ?sz} = insert p ?I" using at_k(2) True by auto
    then have "q \<in> hull ?sz (dirty_items t \<union> {p}) \<longleftrightarrow> (\<exists>a \<in> insert p ?I. \<exists>b \<in> insert p ?I. a \<le> q \<and> q \<le> b)"
      by (simp only: hull_chunk)
    also have "\<dots> \<longleftrightarrow> q \<in> {min p (?k * ?sz + ch_first c)..max p (?k * ?sz + ch_last c)}"
      using cok by (intro between_insert) (simp add: chunk_ok_def)
    also have "\<dots> \<longleftrightarrow> q \<in> dirty_items ?t'" using at_k(1) True by blast
    finally show ?thesis by blast
  next
    case False
    have same: "q \<in> dirty_items ?t' \<longleftrightarrow> q \<in> dirty_items t"
    proof (cases "\<exists>d. (q div ?sz, d) \<in> set (rt_chunks t)")
      case True
      then obtain d where d: "(q div ?sz, d) \<in> set (rt_chunks t)" by blast
      then have "(q div ?sz, d) \<in> set (rt_chunks ?t')" using upd(2) False by auto
      then show ?thesis using dirty_items_chunk [OF ok d] dirty_items_chunk [OF ok', of "q div ?sz" d] by auto
    next
      case none: False
      then have "\<nexists>d. (q div ?sz, d) \<in> set (rt_chunks ?t')" using upd(2) False by auto
      then show ?thesis using none dirty_items_in_chunk [OF ok, of q] dirty_items_in_chunk [OF ok', of q] by auto
    qed
    have "q \<in> hull ?sz (dirty_items t \<union> {p}) \<longleftrightarrow> q \<in> dirty_items t"
    proof
      assume "q \<in> hull ?sz (dirty_items t \<union> {p})"
      then obtain a b where ab: "a \<in> dirty_items t \<union> {p}" "b \<in> dirty_items t \<union> {p}"
        "a div ?sz = q div ?sz" "b div ?sz = q div ?sz" "a \<le> q" "q \<le> b"
        by (auto simp: hull_chunk)
      then have D: "a \<in> dirty_items t" "b \<in> dirty_items t" using False by auto
      then obtain d where d: "(q div ?sz, d) \<in> set (rt_chunks t)" using dirty_items_in_chunk [OF ok D(1)] ab(3) by auto
      have "a \<in> chunk_items ?sz (q div ?sz, d)" "b \<in> chunk_items ?sz (q div ?sz, d)"
        using dirty_items_chunk [OF ok d] D ab(3,4) by auto
      then have "q \<in> chunk_items ?sz (q div ?sz, d)" using ab(5,6) by (auto simp: chunk_items_def)
      then show "q \<in> dirty_items t" using d by (auto simp: dirty_items_def)
    next
      assume "q \<in> dirty_items t"
      then show "q \<in> hull ?sz (dirty_items t \<union> {p})" by (auto simp: hull_def)
    qed
    then show ?thesis using same by simp
  qed
  then have "dirty_items ?t' = hull ?sz (dirty_items t \<union> {p})" by blast
  then show ?thesis using run keys ok' by simp
qed

lemma dirty_items_hull:
  assumes ok: "tracker_ok t"
  shows "hull (rt_chunk_size t) (dirty_items t) = dirty_items t"
proof (rule set_eqI)
  fix q
  show "q \<in> hull (rt_chunk_size t) (dirty_items t) \<longleftrightarrow> q \<in> dirty_items t"
  proof
    assume "q \<in> hull (rt_chunk_size t) (dirty_items t)"
    then obtain a b where ab: "a \<in> dirty_items t" "b \<in> dirty_items t" "a div rt_chunk_size t = q div rt_chunk_size t"
      "b div rt_chunk_size t = q div rt_chunk_size t" "a \<le> q" "q \<le> b"
      by (auto simp: hull_chunk)
    then obtain d where d: "(q div rt_chunk_size t, d) \<in> set (rt_chunks t)" using dirty_items_in_chunk [OF ok ab(1)] by auto
    have "a \<in> chunk_items (rt_chunk_size t) (q div rt_chunk_size t, d)" "b \<in> chunk_items (rt_chunk_size t) (q div rt_chunk_size t, d)"
      using dirty_items_chunk [OF ok d] ab by auto
    then have "q \<in> chunk_items (rt_chunk_size t) (q div rt_chunk_size t, d)" using ab(5,6) by (auto simp: chunk_items_def)
    then show "q \<in> dirty_items t" using d by (auto simp: dirty_items_def)
  qed (auto simp: hull_def)
qed

lemma RangeAddItems_ok:
  assumes "tracker_ok t" "\<forall>p \<in> set ps. has_chunk t (p div rt_chunk_size t)"
  shows "\<exists>t'. rfold RangeAddItem ps t = Inr t' \<and> tracker_ok t' \<and>
    dirty_items t' = hull (rt_chunk_size t) (dirty_items t \<union> set ps)"
  using assms
proof (induction ps arbitrary: t)
  case Nil
  then show ?case by (simp add: dirty_items_hull)
next
  case (Cons p ps)
  obtain t1 where t1: "RangeAddItem p t = Inr t1" "tracker_ok t1" "rt_chunk_size t1 = rt_chunk_size t"
    "map fst (rt_chunks t1) = map fst (rt_chunks t)" "dirty_items t1 = hull (rt_chunk_size t) (dirty_items t \<union> {p})"
    using RangeAddItem_ok [of t p] Cons.prems by auto
  then have "has_chunk t1 = has_chunk t" by (simp add: has_chunk_def fun_eq_iff flip: set_map)
  then obtain t' where "rfold RangeAddItem ps t1 = Inr t'" "tracker_ok t'"
    "dirty_items t' = hull (rt_chunk_size t) (dirty_items t1 \<union> set ps)"
    using Cons.IH [OF t1(2)] Cons.prems(2) t1(3) by auto
  then show ?case using t1(1,5) by (simp add: hull_absorb Un_assoc)
qed

end
