(* ===== verification/DirtyProps.thy ===== *)
theory DirtyProps
  imports DirtyRanges
begin

text \<open>The ranges of the chunk tracker, what the trackers report after items were added, and where they go wrong.\<close>

section \<open>DirtyChunkTracker\<close>

definition chunk_inv :: "nat \<Rightarrow> chunk_iter \<Rightarrow> bool" where
  "chunk_inv bnd st \<longleftrightarrow>
     st = new_chunk_iter \<or>
     ci_begin st \<noteq> UINT16_MAX \<and> ci_end st = ci_last_index st \<and> ci_last_index st < bnd \<and>
     separated (finish_chunks st) \<and> (\<forall>(a, b) \<in> set (finish_chunks st). b \<le> ci_last_index st)"

lemma finish_new_chunks [simp]: "finish_chunks new_chunk_iter = []"
  by (simp add: finish_chunks_def new_chunk_iter_def)

lemma chunk_step:
  assumes inv: "chunk_inv bnd st" and k: "bnd \<le> k" "k < 65535" "k * sz < 2 ^ 31"
  shows "\<exists>st'. chunk_iter_step sz k st = Inr st' \<and> chunk_inv (k + 1) st' \<and>
    covered (finish_chunks st') = insert k (covered (finish_chunks st))"
proof (cases "st = new_chunk_iter")
  case True
  then show ?thesis using k by (simp add: chunk_iter_step_def chunk_inv_def new_chunk_iter_def finish_chunks_def)
next
  case False
  then have I: "ci_begin st \<noteq> UINT16_MAX" "ci_end st = ci_last_index st" "ci_last_index st < k"
    "separated (finish_chunks st)" "\<forall>(a, b) \<in> set (finish_chunks st). b \<le> ci_last_index st"
    using inv k(1) by (auto simp: chunk_inv_def)
  have fin: "finish_chunks st = ci_reported st @ [(ci_begin st, ci_last_index st)]" using I(1,2) by (simp add: finish_chunks_def)
  have le: "ci_begin st \<le> ci_last_index st" using I(4) by (simp add: fin)
  show ?thesis
  proof (cases "ci_last_index st + 1 = k")
    case True
    let ?st = "st\<lparr>ci_end := k, ci_last_index := k\<rparr>"
    have f: "finish_chunks ?st = ci_reported st @ [(ci_begin st, k)]" using I(1) by (simp add: finish_chunks_def)
    have "{ci_begin st..k} = insert k {ci_begin st..ci_last_index st}" using le True by auto
    then have cov: "covered (finish_chunks ?st) = insert k (covered (finish_chunks st))" by (simp add: f fin)
    have "\<forall>(a, b) \<in> set (ci_reported st). b \<le> k" using I(5) True by (auto simp: fin)
    then have "chunk_inv (k + 1) ?st" using I(1,4) le True by (simp add: chunk_inv_def f) (simp add: fin)
    then show ?thesis using cov True k(3) by (simp add: chunk_iter_step_def)
  next
    case no: False
    let ?st = "st\<lparr>ci_reported := finish_chunks st, ci_begin := k, ci_end := k, ci_last_index := k\<rparr>"
    have f: "finish_chunks ?st = finish_chunks st @ [(k, k)]" using k(2) by (simp add: finish_chunks_def)
    have ends: "\<forall>(a, b) \<in> set (finish_chunks st). b \<le> k" using ends_mono [OF I(5)] I(3) by simp
    have "\<forall>(a, b) \<in> set (finish_chunks st). b + 1 < k" using separated_later [OF I(5)] no I(3) by simp
    then have "chunk_inv (k + 1) ?st" using I(4) ends k(2) by (simp add: chunk_inv_def f)
    moreover have "covered (finish_chunks ?st) = insert k (covered (finish_chunks st))" by (simp add: f)
    moreover have "chunk_iter_step sz k st = Inr ?st" using no k(3) I(1) fin
      by (simp add: chunk_iter_step_def Let_def) (simp add: I(2))
    ultimately show ?thesis by blast
  qed
qed

lemma chunk_loop:
  assumes "sorted_wrt (<) ks" "\<forall>k \<in> set ks. bnd \<le> k \<and> k < 65535 \<and> k * sz < 2 ^ 31" "chunk_inv bnd st"
  shows "\<exists>st' bnd'. rfold (chunk_iter_step sz) ks st = Inr st' \<and> chunk_inv bnd' st' \<and>
    covered (finish_chunks st') = covered (finish_chunks st) \<union> set ks"
  using assms
proof (induction ks arbitrary: st bnd)
  case (Cons k ks)
  obtain st1 where st1: "chunk_iter_step sz k st = Inr st1" "chunk_inv (k + 1) st1"
    "covered (finish_chunks st1) = insert k (covered (finish_chunks st))"
    using chunk_step [of bnd st k sz] Cons.prems by auto
  have "\<forall>j \<in> set ks. k + 1 \<le> j \<and> j < 65535 \<and> j * sz < 2 ^ 31" using Cons.prems(1,2) by auto
  then obtain st' bnd' where "rfold (chunk_iter_step sz) ks st1 = Inr st'" "chunk_inv bnd' st'"
    "covered (finish_chunks st') = covered (finish_chunks st1) \<union> set ks"
    using Cons.IH [OF _ _ st1(2)] Cons.prems(1) by auto
  then show ?case using st1(1,3) by auto
qed auto

lemma ChunkForEachRange_ok:
  assumes "sorted_wrt (<) (ct_chunks t)" "\<forall>k \<in> set (ct_chunks t). k < 65535 \<and> k * ct_chunk_size t < 2 ^ 31"
  shows "\<exists>rs. ChunkForEachRange t = Inr rs \<and> covered rs = set (ct_chunks t) \<and> separated rs"
proof -
  obtain st bnd where st: "rfold (chunk_iter_step (ct_chunk_size t)) (ct_chunks t) new_chunk_iter = Inr st"
    "chunk_inv bnd st" "covered (finish_chunks st) = set (ct_chunks t)"
    using chunk_loop [of "ct_chunks t" 0 "ct_chunk_size t" new_chunk_iter] assms by (auto simp: chunk_inv_def)
  then have "separated (finish_chunks st)" by (auto simp: chunk_inv_def)
  then show ?thesis using st by (simp add: ChunkForEachRange_def)
qed

lemma insort_insert_strict: "sorted_wrt (<) xs \<Longrightarrow> sorted_wrt (<) (insort_insert (x :: nat) xs)"
  by (simp add: strict_sorted_iff sorted_insort_insert distinct_insort_insert)

lemma ChunkAddItems_run:
  assumes "0 < ct_chunk_size t" "sorted_wrt (<) (ct_chunks t)"
  shows "\<exists>t'. rfold ChunkAddItem ps t = Inr t' \<and> ct_chunk_size t' = ct_chunk_size t \<and> sorted_wrt (<) (ct_chunks t') \<and>
    set (ct_chunks t') = set (ct_chunks t) \<union> (\<lambda>p. p div ct_chunk_size t mod 65536) ` set ps"
  using assms
proof (induction ps arbitrary: t)
  case (Cons p ps)
  let ?t = "t\<lparr>ct_chunks := insort_insert (p div ct_chunk_size t mod 65536) (ct_chunks t)\<rparr>"
  have "ChunkAddItem p t = Inr ?t" using Cons.prems by (simp add: ChunkAddItem_def)
  moreover obtain t' where "rfold ChunkAddItem ps ?t = Inr t'" "ct_chunk_size t' = ct_chunk_size t" "sorted_wrt (<) (ct_chunks t')"
    "set (ct_chunks t') = set (ct_chunks ?t) \<union> (\<lambda>p. p div ct_chunk_size t mod 65536) ` set ps"
    using Cons.IH [of ?t] Cons.prems insort_insert_strict by auto
  ultimately show ?case by (simp add: set_insort_insert)
qed simp

section \<open>Properties\<close>




text \<open>Chunks that get dirty as a whole first, the way a range over a boundary makes its first one.\<close>

definition two_dirty_chunks :: DirtyRangeTracker where
  "two_dirty_chunks = \<lparr>rt_chunk_size = 16, rt_chunks =
     [(0, \<lparr>ch_first = 12, ch_last = 15\<rparr>), (1, \<lparr>ch_first = 0, ch_last = 3\<rparr>)]\<rparr>"

lemma two_dirty_chunks_run: "RangeAddItems 12 19 (new_DirtyRangeTracker 16) = Inr two_dirty_chunks"
  by (simp add: RangeAddItems_def new_DirtyRangeTracker_def two_dirty_chunks_def new_Chunk_def whole_chunks.simps)

lemma two_dirty_chunks_ok:
  "tracker_ok two_dirty_chunks" "has_chunk two_dirty_chunks 0" "has_chunk two_dirty_chunks 1"
  "rt_chunk_size two_dirty_chunks = 16" "dirty_items two_dirty_chunks = {12..19}"
  by (auto simp: two_dirty_chunks_def tracker_ok_def chunk_ok_def has_chunk_def dirty_items_def chunk_items_def)


section \<open>Where the trackers go wrong\<close>

lemmas tracker_run_simps =
  RangeAddItem_def RangeAddItems_def new_DirtyRangeTracker_def new_Chunk_def widen_def whole_chunks.simps
  RangeForEachRange_def range_iter_step_def new_range_iter_def finish_range_def
  ChunkAddItem_def ChunkAddItems_def new_DirtyChunkTracker_def emplace_chunks.simps insort_insert_key_def
  ChunkForEachRange_def chunk_iter_step_def new_chunk_iter_def finish_chunks_def Let_def

text \<open>The first item of a chunk only sets \<open>first\<close>: \<open>last\<close> stays 0, and the range that is reported ends before it begins.\<close>

lemma first_item_inverts_range:
  "rbind (RangeAddItem 5 (new_DirtyRangeTracker 16)) RangeForEachRange = Inr [(5, 0)]"
  "rbind (RangeAddItems 3 7 (new_DirtyRangeTracker 16)) RangeForEachRange = Inr [(3, 0)]"
  by (simp_all add: tracker_run_simps)

text \<open>A range over three chunks is cut before its last chunk.\<close>

lemma range_misses_last_chunk:
  "rbind (RangeAddItems 3 40 (new_DirtyRangeTracker 16)) RangeForEachRange = Inr [(3, 24)]"
  by (simp add: tracker_run_simps)

text \<open>\<open>DirtyChunkTracker::AddItems\<close> leaves the last chunk out, which may be the only one.\<close>

lemma chunks_miss_last_chunk:
  "rbind (ChunkAddItems 3 40 (new_DirtyChunkTracker 16)) ChunkForEachRange = Inr [(0, 1)]"
  "rbind (ChunkAddItems 3 7 (new_DirtyChunkTracker 16)) ChunkForEachRange = Inr []"
  by (simp_all add: tracker_run_simps)

text \<open>The chunk with the index 65535 is taken for the mark that no range is open.\<close>

lemma chunk_65535_not_reported:
  "rbind (ChunkAddItem 65535 (new_DirtyChunkTracker 1)) ChunkForEachRange = Inr []"
  by (simp add: tracker_run_simps)

text \<open>From item \<open>2 ^ 31\<close> on the product that gives the first item of a chunk overflows.\<close>

lemma iteration_overflows:
  "rbind (ChunkAddItem (2 ^ 31 + 65535) (new_DirtyChunkTracker 65535)) ChunkForEachRange = Inl Signed_Overflow"
  by (simp add: tracker_run_simps)

end
