(* ===== verification/UniverseCache.thy ===== *)
theory UniverseCache
  imports Prelude
begin

text \<open>
  \<open>src/Util/PerThread.h\<close> (\<open>SwapBuffer\<close>) and \<open>src/UniverseServer/UniverseCache.h\<close> and \<open>UniverseCache.cpp\<close>: how the simulation
  thread hands what it knows of the universe to the main thread.

  A \<open>godot::Dictionary\<close> is a value of the parameter type \<open>'i\<close>. Pointers to members are the names of the
  members; the union of the two kinds of pointer in an update keeps which one was written last, and
  reading the other one is a fault. Threads are naturals, 0 stands for the default \<open>std::thread::id\<close>.
\<close>

section \<open>SwapBuffer\<close>

record 't SwapBuffer =
  sb_value :: 't
  sb_ready :: bool

definition new_SwapBuffer :: "'t \<Rightarrow> 't SwapBuffer" where
  "new_SwapBuffer v = \<lparr>sb_value = v, sb_ready = False\<rparr>"

definition ResetBuffer :: "'t \<Rightarrow> 't SwapBuffer \<Rightarrow> 't SwapBuffer" where
  "ResetBuffer v b = b\<lparr>sb_value := v, sb_ready := False\<rparr>"

text \<open>The swap of the buffer's value with the caller's, which gives the caller's new value.\<close>

definition swap_value :: "'t \<Rightarrow> 't SwapBuffer \<Rightarrow> 't \<times> 't SwapBuffer" where
  "swap_value v b = (sb_value b, b\<lparr>sb_value := v\<rparr>)"

definition set_ready :: "bool \<Rightarrow> 't SwapBuffer \<Rightarrow> 't SwapBuffer" where
  "set_ready r b = b\<lparr>sb_ready := r\<rparr>"

definition Publish :: "'t \<Rightarrow> 't SwapBuffer \<Rightarrow> bool \<times> 't \<times> 't SwapBuffer" where
  "Publish v b =
     (if \<not> sb_ready b
      then let (v', b') = swap_value v b in (True, v', set_ready True b')
      else (False, v, b))"

definition Retrieve :: "'t \<Rightarrow> 't SwapBuffer \<Rightarrow> bool \<times> 't \<times> 't SwapBuffer" where
  "Retrieve v b =
     (if sb_ready b
      then let (v', b') = swap_value v b in (True, v', set_ready False b')
      else (False, v, b))"

section \<open>The cache\<close>

datatype CacheType =
    Type_Universe | Type_Galaxy | Type_Account | Type_Player | Type_Fragment | Type_ChatChannel | Type_Party
  | Type_Entity | Type_Volume | Type_GalaxyRegion | Type_GalaxyObject | Type_Currency | Type_Bank
  | Type_BankInterface | Type_Good | Type_Internet | Type_Website | Type_Webpage | Type_Role | Type_Permission
  | Type_Faction | Type_Language | Type_Culture | Type_Inventory | Type_Ability | Type_Spell

datatype info_member = universe_info | galaxy_info | account_info | player_info

datatype map_member =
    player_info_map | fragment_info_map | chat_channel_info_map | party_info_map | entity_info_map
  | volume_info_map | galaxy_region_info_map | galaxy_object_info_map | currency_info_map | bank_info_map
  | bank_interface_info_map | good_info_map | internet_info_map | website_info_map | webpage_info_map
  | role_info_map | permission_info_map | faction_info_map | language_info_map | culture_info_map
  | inventory_info_map | ability_info_map | spell_info_map

record 'i UniverseCache =
  uc_info :: "info_member \<Rightarrow> 'i"
  uc_info_map :: "map_member \<Rightarrow> int \<Rightarrow> 'i option"

definition k_invalid_id :: int where "k_invalid_id = 0"

fun GetInfo :: "CacheType \<Rightarrow> info_member option" where
  "GetInfo Type_Universe = Some universe_info"
| "GetInfo Type_Galaxy = Some galaxy_info"
| "GetInfo Type_Account = Some account_info"
| "GetInfo Type_Player = Some player_info"
| "GetInfo _ = None"

fun GetInfoMap :: "CacheType \<Rightarrow> map_member option" where
  "GetInfoMap Type_Player = Some player_info_map"
| "GetInfoMap Type_Fragment = Some fragment_info_map"
| "GetInfoMap Type_ChatChannel = Some chat_channel_info_map"
| "GetInfoMap Type_Party = Some party_info_map"
| "GetInfoMap Type_Entity = Some entity_info_map"
| "GetInfoMap Type_Volume = Some volume_info_map"
| "GetInfoMap Type_GalaxyRegion = Some galaxy_region_info_map"
| "GetInfoMap Type_GalaxyObject = Some galaxy_object_info_map"
| "GetInfoMap Type_Currency = Some currency_info_map"
| "GetInfoMap Type_Bank = Some bank_info_map"
| "GetInfoMap Type_BankInterface = Some bank_interface_info_map"
| "GetInfoMap Type_Good = Some good_info_map"
| "GetInfoMap Type_Internet = Some internet_info_map"
| "GetInfoMap Type_Website = Some website_info_map"
| "GetInfoMap Type_Webpage = Some webpage_info_map"
| "GetInfoMap Type_Role = Some role_info_map"
| "GetInfoMap Type_Permission = Some permission_info_map"
| "GetInfoMap Type_Faction = Some faction_info_map"
| "GetInfoMap Type_Language = Some language_info_map"
| "GetInfoMap Type_Culture = Some culture_info_map"
| "GetInfoMap Type_Inventory = Some inventory_info_map"
| "GetInfoMap Type_Ability = Some ability_info_map"
| "GetInfoMap Type_Spell = Some spell_info_map"
| "GetInfoMap _ = None"

section \<open>UniverseCacheUpdater\<close>

datatype member_pointer = Info_Member info_member | Map_Member map_member

record 'i InfoUpdate =
  iu_pointer :: member_pointer
  iu_key :: int
  iu_value :: 'i

record 'i UniverseCacheUpdater =
  cu_updates_write :: "'i InfoUpdate list"
  cu_updates_swap :: "'i InfoUpdate list SwapBuffer"
  cu_writer_id :: nat

definition new_UniverseCacheUpdater :: "'i UniverseCacheUpdater" where
  "new_UniverseCacheUpdater = \<lparr>cu_updates_write = [], cu_updates_swap = new_SwapBuffer [], cu_writer_id = 0\<rparr>"

definition SetWriterThread :: "nat \<Rightarrow> 'i UniverseCacheUpdater \<Rightarrow> 'i UniverseCacheUpdater" where
  "SetWriterThread w u = u\<lparr>cu_writer_id := w\<rparr>"

definition AddInfoUpdate :: "nat \<Rightarrow> 'i InfoUpdate \<Rightarrow> 'i UniverseCacheUpdater \<Rightarrow> 'i UniverseCacheUpdater res" where
  "AddInfoUpdate caller update u =
     (if cu_writer_id u \<noteq> caller then Inl Assertion
      else Inr (u\<lparr>cu_updates_write := cu_updates_write u @ [update]\<rparr>))"

definition UpdateInfo :: "nat \<Rightarrow> CacheType \<Rightarrow> 'i \<Rightarrow> 'i UniverseCacheUpdater \<Rightarrow> 'i UniverseCacheUpdater res" where
  "UpdateInfo caller type info u =
     (case GetInfo type of
        None \<Rightarrow> Inr u
      | Some m \<Rightarrow> AddInfoUpdate caller \<lparr>iu_pointer = Info_Member m, iu_key = k_invalid_id, iu_value = info\<rparr> u)"

definition UpdateInfoMap :: "nat \<Rightarrow> CacheType \<Rightarrow> int \<Rightarrow> 'i \<Rightarrow> 'i UniverseCacheUpdater \<Rightarrow> 'i UniverseCacheUpdater res" where
  "UpdateInfoMap caller type key info u =
     (case GetInfoMap type of
        None \<Rightarrow> Inr u
      | Some m \<Rightarrow> AddInfoUpdate caller \<lparr>iu_pointer = Map_Member m, iu_key = key, iu_value = info\<rparr> u)"

definition PublishUpdates :: "nat \<Rightarrow> 'i UniverseCacheUpdater \<Rightarrow> 'i UniverseCacheUpdater res" where
  "PublishUpdates caller u =
     (if cu_writer_id u \<noteq> caller then Inl Assertion
      else
        let (_, write, buf) = Publish (cu_updates_write u) (cu_updates_swap u)
        in Inr (u\<lparr>cu_updates_write := write, cu_updates_swap := buf\<rparr>))"

definition apply_update :: "'i InfoUpdate \<Rightarrow> 'i UniverseCache \<Rightarrow> 'i UniverseCache res" where
  "apply_update update c =
     (if iu_key update = k_invalid_id
      then (case iu_pointer update of
              Info_Member m \<Rightarrow> Inr (c\<lparr>uc_info := (uc_info c)(m := iu_value update)\<rparr>)
            | Map_Member _ \<Rightarrow> Inl Wrong_Member)
      else (case iu_pointer update of
              Map_Member m \<Rightarrow>
                Inr (c\<lparr>uc_info_map := (uc_info_map c)(m := (uc_info_map c m)(iu_key update := Some (iu_value update)))\<rparr>)
            | Info_Member _ \<Rightarrow> Inl Wrong_Member))"

definition RetrieveUpdates ::
    "'i UniverseCache \<Rightarrow> 'i UniverseCacheUpdater \<Rightarrow> ('i UniverseCache \<times> 'i UniverseCacheUpdater) res" where
  "RetrieveUpdates out u =
     (let (_, updates_read, buf) = Retrieve [] (cu_updates_swap u)
      in rbind (rfold apply_update updates_read out) (\<lambda>out'. Inr (out', u\<lparr>cu_updates_swap := buf\<rparr>)))"

section \<open>Both threads at once\<close>

text \<open>
  The program counters of the two threads inside \<open>PublishUpdates\<close> and \<open>RetrieveUpdates\<close>: the atomic flag is read,
  the values are swapped and the flag is written in three steps, between which the other thread may
  run. \<open>cs_read\<close> is the local vector of the reader, \<open>cs_added\<close> records all updates ever added and
  \<open>cs_cache\<close> is the cache on the main thread, \<open>None\<close> once a read of the wrong member has been met.
\<close>

datatype swap_pc = Outside | Flag_Read | Swapped

record 'i cache_system =
  cs_updater :: "'i UniverseCacheUpdater"
  cs_writer_pc :: swap_pc
  cs_reader_pc :: swap_pc
  cs_read :: "'i InfoUpdate list"
  cs_applying :: bool
  cs_cache :: "'i UniverseCache res"
  cs_added :: "'i InfoUpdate list"

definition new_cache_system :: "nat \<Rightarrow> 'i UniverseCache \<Rightarrow> 'i cache_system" where
  "new_cache_system writer c =
     \<lparr>cs_updater = SetWriterThread writer new_UniverseCacheUpdater, cs_writer_pc = Outside, cs_reader_pc = Outside,
      cs_read = [], cs_applying = False, cs_cache = Inr c, cs_added = []\<rparr>"

definition upd_buffer :: "('i InfoUpdate list SwapBuffer \<Rightarrow> 'i InfoUpdate list SwapBuffer) \<Rightarrow> 'i cache_system \<Rightarrow> 'i cache_system" where
  "upd_buffer f s = s\<lparr>cs_updater := (cs_updater s)\<lparr>cu_updates_swap := f (cu_updates_swap (cs_updater s))\<rparr>\<rparr>"

inductive cache_step :: "nat \<Rightarrow> 'i cache_system \<Rightarrow> 'i cache_system \<Rightarrow> bool" for writer where
  add_info: "cs_writer_pc s = Outside \<Longrightarrow> UpdateInfo writer type info (cs_updater s) = Inr u \<Longrightarrow>
    cache_step writer s (s\<lparr>cs_updater := u,
      cs_added := cs_added s @ drop (length (cu_updates_write (cs_updater s))) (cu_updates_write u)\<rparr>)"
| add_info_map: "cs_writer_pc s = Outside \<Longrightarrow> key \<noteq> k_invalid_id \<Longrightarrow> UpdateInfoMap writer type key info (cs_updater s) = Inr u \<Longrightarrow>
    cache_step writer s (s\<lparr>cs_updater := u,
      cs_added := cs_added s @ drop (length (cu_updates_write (cs_updater s))) (cu_updates_write u)\<rparr>)"
| publish_flag: "cs_writer_pc s = Outside \<Longrightarrow> \<not> sb_ready (cu_updates_swap (cs_updater s)) \<Longrightarrow>
    cache_step writer s (s\<lparr>cs_writer_pc := Flag_Read\<rparr>)"
| publish_swap: "cs_writer_pc s = Flag_Read \<Longrightarrow>
    swap_value (cu_updates_write (cs_updater s)) (cu_updates_swap (cs_updater s)) = (v, b) \<Longrightarrow>
    cache_step writer s (s\<lparr>cs_updater := (cs_updater s)\<lparr>cu_updates_write := v, cu_updates_swap := b\<rparr>, cs_writer_pc := Swapped\<rparr>)"
| publish_ready: "cs_writer_pc s = Swapped \<Longrightarrow>
    cache_step writer s (upd_buffer (set_ready True) s\<lparr>cs_writer_pc := Outside\<rparr>)"
| retrieve_flag: "cs_reader_pc s = Outside \<Longrightarrow> \<not> cs_applying s \<Longrightarrow> sb_ready (cu_updates_swap (cs_updater s)) \<Longrightarrow>
    cache_step writer s (s\<lparr>cs_read := [], cs_reader_pc := Flag_Read\<rparr>)"
| retrieve_swap: "cs_reader_pc s = Flag_Read \<Longrightarrow>
    swap_value (cs_read s) (cu_updates_swap (cs_updater s)) = (v, b) \<Longrightarrow>
    cache_step writer s (s\<lparr>cs_updater := (cs_updater s)\<lparr>cu_updates_swap := b\<rparr>, cs_read := v, cs_reader_pc := Swapped\<rparr>)"
| retrieve_ready: "cs_reader_pc s = Swapped \<Longrightarrow>
    cache_step writer s (upd_buffer (set_ready False) s\<lparr>cs_reader_pc := Outside, cs_applying := True\<rparr>)"
| apply_read: "cs_applying s \<Longrightarrow>
    cache_step writer s (s\<lparr>cs_cache := rbind (cs_cache s) (rfold apply_update (cs_read s)), cs_read := [], cs_applying := False\<rparr>)"

end
