(* ===== verification/CacheProps.thy ===== *)
theory CacheProps
  imports UniverseCache
begin

text \<open>
  The simulation thread and the main thread exchange the updates of the universe cache without a lock:
  they never swap the shared vector at the same time, no update is lost, repeated or reordered, and
  every update is applied to a member of its own kind.
\<close>

text \<open>The union's active member agrees with what the key makes the reader take it for.\<close>

definition well_typed :: "'i InfoUpdate \<Rightarrow> bool" where
  "well_typed u \<longleftrightarrow> (\<exists>m. iu_pointer u = (if iu_key u = k_invalid_id then Info_Member (fst m) else Map_Member (snd m)))"

lemma apply_typed: "well_typed u \<Longrightarrow> \<exists>c'. apply_update u c = Inr c'"
  by (auto simp: well_typed_def apply_update_def)

lemma rfold_typed: "\<forall>u \<in> set us. well_typed u \<Longrightarrow> \<exists>c'. rfold apply_update us c = Inr c'"
proof (induction us arbitrary: c)
  case (Cons u us)
  obtain c1 where "apply_update u c = Inr c1" using apply_typed [of u c] Cons.prems by auto
  then show ?case using Cons.IH [of c1] Cons.prems by simp
qed simp

lemma UpdateInfo_typed:
  assumes "UpdateInfo w type info u = Inr u'" "cu_writer_id u = w"
  shows "\<exists>us. u' = u\<lparr>cu_updates_write := cu_updates_write u @ us\<rparr> \<and> (\<forall>x \<in> set us. well_typed x)"
proof (cases "GetInfo type")
  case None
  then show ?thesis using assms by (intro exI [of _ "[]"]) (simp add: UpdateInfo_def)
next
  case (Some m)
  then show ?thesis using assms
    by (intro exI [of _ "[\<lparr>iu_pointer = Info_Member m, iu_key = k_invalid_id, iu_value = info\<rparr>]"])
      (auto simp: UpdateInfo_def AddInfoUpdate_def well_typed_def)
qed

lemma UpdateInfoMap_typed:
  assumes "UpdateInfoMap w type key info u = Inr u'" "cu_writer_id u = w" "key \<noteq> k_invalid_id"
  shows "\<exists>us. u' = u\<lparr>cu_updates_write := cu_updates_write u @ us\<rparr> \<and> (\<forall>x \<in> set us. well_typed x)"
proof (cases "GetInfoMap type")
  case None
  then show ?thesis using assms by (intro exI [of _ "[]"]) (simp add: UpdateInfoMap_def)
next
  case (Some m)
  then show ?thesis using assms
    by (intro exI [of _ "[\<lparr>iu_pointer = Map_Member m, iu_key = key, iu_value = info\<rparr>]"])
      (auto simp: UpdateInfoMap_def AddInfoUpdate_def well_typed_def)
qed

text \<open>What is on the way from the writer to the cache, oldest first.\<close>

definition on_the_way :: "'i cache_system \<Rightarrow> 'i InfoUpdate list" where
  "on_the_way s = cs_read s @ sb_value (cu_updates_swap (cs_updater s)) @ cu_updates_write (cs_updater s)"

definition exclusive :: "'i cache_system \<Rightarrow> bool" where
  "exclusive s \<longleftrightarrow> cs_writer_pc s = Outside \<or> cs_reader_pc s = Outside"

definition cache_inv :: "nat \<Rightarrow> 'i UniverseCache \<Rightarrow> 'i cache_system \<Rightarrow> bool" where
  "cache_inv writer c0 s \<longleftrightarrow>
     cu_writer_id (cs_updater s) = writer \<and>
     (cs_writer_pc s \<noteq> Outside \<longrightarrow> \<not> sb_ready (cu_updates_swap (cs_updater s))) \<and>
     (cs_reader_pc s \<noteq> Outside \<longrightarrow> sb_ready (cu_updates_swap (cs_updater s)) \<and> \<not> cs_applying s) \<and>
     (cs_reader_pc s \<noteq> Swapped \<longrightarrow> \<not> cs_applying s \<longrightarrow> cs_read s = []) \<and>
     ((if sb_ready (cu_updates_swap (cs_updater s)) then cs_reader_pc s = Swapped else cs_writer_pc s \<noteq> Swapped) \<longrightarrow>
        sb_value (cu_updates_swap (cs_updater s)) = []) \<and>
     (\<forall>u \<in> set (cs_added s). well_typed u) \<and>
     (\<exists>applied. cs_added s = applied @ on_the_way s \<and> cs_cache s = rfold apply_update applied c0)"

lemma cache_inv_new: "cache_inv writer c0 (new_cache_system writer c0)"
  by (simp add: cache_inv_def new_cache_system_def SetWriterThread_def new_UniverseCacheUpdater_def new_SwapBuffer_def on_the_way_def)

lemma cache_step_inv:
  assumes "cache_step writer s s'" "cache_inv writer c0 s"
  shows "cache_inv writer c0 s'"
  using assms
proof (induction rule: cache_step.induct)
  case (add_info s type info u)
  have "cu_writer_id (cs_updater s) = writer" using add_info.prems by (simp add: cache_inv_def)
  then obtain us where "u = (cs_updater s)\<lparr>cu_updates_write := cu_updates_write (cs_updater s) @ us\<rparr>" "\<forall>x \<in> set us. well_typed x"
    using UpdateInfo_typed [OF add_info.hyps(2)] by blast
  then show ?case using add_info.prems by (auto simp: cache_inv_def on_the_way_def split: if_splits)
next
  case (add_info_map s key type info u)
  have "cu_writer_id (cs_updater s) = writer" using add_info_map.prems by (simp add: cache_inv_def)
  then obtain us where "u = (cs_updater s)\<lparr>cu_updates_write := cu_updates_write (cs_updater s) @ us\<rparr>" "\<forall>x \<in> set us. well_typed x"
    using UpdateInfoMap_typed [OF add_info_map.hyps(3) _ add_info_map.hyps(2)] by blast
  then show ?case using add_info_map.prems by (auto simp: cache_inv_def on_the_way_def split: if_splits)
next
  case (apply_read s)
  then obtain applied where "cs_added s = applied @ on_the_way s" "cs_cache s = rfold apply_update applied c0"
    by (auto simp: cache_inv_def)
  then have "cs_added s = (applied @ cs_read s) @ sb_value (cu_updates_swap (cs_updater s)) @ cu_updates_write (cs_updater s) \<and>
      rbind (cs_cache s) (rfold apply_update (cs_read s)) = rfold apply_update (applied @ cs_read s) c0"
    by (simp add: on_the_way_def rfold_append)
  then show ?case using apply_read by (auto simp: cache_inv_def on_the_way_def split: if_splits)
qed (auto simp: cache_inv_def on_the_way_def swap_value_def upd_buffer_def set_ready_def split: if_splits)

lemma cache_reachable_inv:
  assumes "(cache_step writer)\<^sup>*\<^sup>* (new_cache_system writer c0) s"
  shows "cache_inv writer c0 s"
  using assms by (induction rule: rtranclp_induct) (auto intro: cache_inv_new cache_step_inv)

section \<open>Properties\<close>

text \<open>
  C30: in every interleaving of the writer's \<open>UpdateInfo\<close>, \<open>UpdateInfoMap\<close> (with a valid id) and \<open>PublishUpdates\<close> with the
  reader's \<open>RetrieveUpdates\<close>, the two threads never are between their read and their write of the flag together, so
  they never touch the shared vector at the same time; the cache holds exactly the effect of a prefix of
  all updates ever made, in their order, and the rest is still on the way.
\<close>

theorem cache_updates_in_order:
  assumes "(cache_step writer)\<^sup>*\<^sup>* (new_cache_system writer c0) s"
  shows "(cs_writer_pc s = Outside \<or> cs_reader_pc s = Outside) \<and>
    (\<exists>applied c. cs_added s = applied @ on_the_way s \<and> rfold apply_update applied c0 = Inr c \<and> cs_cache s = Inr c)"
proof -
  have I: "cache_inv writer c0 s" by (rule cache_reachable_inv [OF assms])
  then obtain applied where a: "cs_added s = applied @ on_the_way s" "cs_cache s = rfold apply_update applied c0"
    "\<forall>u \<in> set (cs_added s). well_typed u"
    by (auto simp: cache_inv_def)
  then obtain c where "rfold apply_update applied c0 = Inr c" using rfold_typed [of applied c0] by auto
  then show ?thesis using a I by (auto simp: cache_inv_def)
qed

text \<open>
  C31: when both threads are outside of the exchange, retrieving, publishing and retrieving once more brings the
  cache to the effect of all updates ever made.
\<close>

theorem cache_catches_up:
  assumes "(cache_step writer)\<^sup>*\<^sup>* (new_cache_system writer c0) s"
    and "cs_writer_pc s = Outside" "cs_reader_pc s = Outside" "\<not> cs_applying s" "cs_cache s = Inr c"
  shows "\<exists>c1 u1 u2 c2 u3. RetrieveUpdates c (cs_updater s) = Inr (c1, u1) \<and> PublishUpdates writer u1 = Inr u2 \<and>
    RetrieveUpdates c1 u2 = Inr (c2, u3) \<and> rfold apply_update (cs_added s) c0 = Inr c2"
proof -
  let ?u = "cs_updater s"
  let ?v = "sb_value (cu_updates_swap ?u)" and ?w = "cu_updates_write ?u"
  have I: "cache_inv writer c0 s" by (rule cache_reachable_inv [OF assms(1)])
  then obtain applied where a: "cs_added s = applied @ on_the_way s" "Inr c = rfold apply_update applied c0"
    "\<forall>x \<in> set (cs_added s). well_typed x" "cs_read s = []" "cu_writer_id ?u = writer"
    "\<not> sb_ready (cu_updates_swap ?u) \<Longrightarrow> ?v = []"
    using assms(2-5) by (auto simp: cache_inv_def)
  have way: "on_the_way s = ?v @ ?w" by (simp add: on_the_way_def a(4))
  obtain c1 where c1: "rfold apply_update ?v c = Inr c1" using rfold_typed [of ?v c] a(1,3) way by auto
  obtain c2 where c2: "rfold apply_update ?w c1 = Inr c2" using rfold_typed [of ?w c1] a(1,3) way by auto
  have all: "rfold apply_update (cs_added s) c0 = Inr c2"
    using a(1,2) c1 c2 by (simp add: way rfold_append flip: a(2))
  let ?u1 = "?u\<lparr>cu_updates_swap := (cu_updates_swap ?u)\<lparr>sb_value := [], sb_ready := False\<rparr>\<rparr>"
  have "RetrieveUpdates c ?u = Inr (c1, ?u1)"
    using c1 a(6) by (cases "sb_ready (cu_updates_swap ?u)") (auto simp: RetrieveUpdates_def Retrieve_def swap_value_def set_ready_def)
  moreover have "PublishUpdates writer ?u1 =
      Inr (?u1\<lparr>cu_updates_write := [], cu_updates_swap := (cu_updates_swap ?u)\<lparr>sb_value := ?w, sb_ready := True\<rparr>\<rparr>)"
    using a(5) by (simp add: PublishUpdates_def Publish_def swap_value_def set_ready_def)
  ultimately show ?thesis using all c2
    by (simp add: RetrieveUpdates_def Retrieve_def swap_value_def set_ready_def)
qed

text \<open>One update that has been added, and then swapped into the buffer.\<close>

definition one_update :: "'i \<Rightarrow> 'i InfoUpdate" where
  "one_update g = \<lparr>iu_pointer = Info_Member galaxy_info, iu_key = k_invalid_id, iu_value = g\<rparr>"

definition one_added :: "'i UniverseCache \<Rightarrow> 'i \<Rightarrow> 'i cache_system" where
  "one_added c0 g =
     (let s = new_cache_system 7 c0
      in s\<lparr>cs_updater := (cs_updater s)\<lparr>cu_updates_write := [one_update g]\<rparr>, cs_added := [one_update g]\<rparr>)"

lemma one_added_reachable: "(cache_step 7)\<^sup>*\<^sup>* (new_cache_system 7 c0) (one_added c0 g)"
proof -
  have "cache_step 7 (new_cache_system 7 c0) (one_added c0 g)"
    using cache_step.add_info [of "new_cache_system 7 c0" 7 Type_Galaxy g
        "(cs_updater (new_cache_system 7 c0))\<lparr>cu_updates_write := [one_update g]\<rparr>"]
    by (simp add: one_added_def one_update_def new_cache_system_def SetWriterThread_def new_UniverseCacheUpdater_def
        UpdateInfo_def AddInfoUpdate_def)
  then show ?thesis by simp
qed

lemma one_swapped_reachable:
  "\<exists>s. (cache_step 7)\<^sup>*\<^sup>* (new_cache_system 7 c0) s \<and> cs_added s = [one_update g] \<and> cs_writer_pc s = Swapped"
proof -
  let ?s1 = "one_added c0 g"
  let ?s2 = "?s1\<lparr>cs_writer_pc := Flag_Read\<rparr>"
  have "cache_step 7 ?s1 ?s2"
    by (rule cache_step.publish_flag)
      (simp_all add: one_added_def new_cache_system_def SetWriterThread_def new_UniverseCacheUpdater_def new_SwapBuffer_def)
  moreover obtain v b where "swap_value (cu_updates_write (cs_updater ?s2)) (cu_updates_swap (cs_updater ?s2)) = (v, b)" by force
  then have "cache_step 7 ?s2 (?s2\<lparr>cs_updater := (cs_updater ?s2)\<lparr>cu_updates_write := v, cu_updates_swap := b\<rparr>, cs_writer_pc := Swapped\<rparr>)"
    by (intro cache_step.publish_swap) simp_all
  ultimately have "(cache_step 7)\<^sup>*\<^sup>* (new_cache_system 7 c0)
      (?s2\<lparr>cs_updater := (cs_updater ?s2)\<lparr>cu_updates_write := v, cu_updates_swap := b\<rparr>, cs_writer_pc := Swapped\<rparr>)"
    using one_added_reachable [of c0 g] by (meson rtranclp.rtrancl_into_rtrancl)
  then show ?thesis by (intro exI conjI) (assumption, simp_all add: one_added_def Let_def)
qed

definition empty_cache :: "nat UniverseCache" where
  "empty_cache = \<lparr>uc_info = \<lambda>_. 0, uc_info_map = \<lambda>_ _. None\<rparr>"

theorem cache_updates_in_order_witness:
  "\<exists>s applied c. (cache_step 7)\<^sup>*\<^sup>* (new_cache_system 7 empty_cache) s \<and> cs_writer_pc s = Swapped \<and>
    cs_reader_pc s = Outside \<and> [one_update 5] = applied @ on_the_way s \<and> cs_cache s = Inr c"
proof -
  obtain s where s: "(cache_step 7)\<^sup>*\<^sup>* (new_cache_system 7 empty_cache) s" "cs_added s = [one_update 5]" "cs_writer_pc s = Swapped"
    using one_swapped_reachable [of empty_cache 5] by blast
  from cache_updates_in_order [OF s(1)] s show ?thesis by auto
qed

theorem cache_catches_up_witness:
  "\<exists>c1 u1 u2 c2 u3. RetrieveUpdates empty_cache (cs_updater (one_added empty_cache 5)) = Inr (c1, u1) \<and>
    PublishUpdates 7 u1 = Inr u2 \<and> RetrieveUpdates c1 u2 = Inr (c2, u3) \<and> uc_info c2 galaxy_info = 5"
  using cache_catches_up [OF one_added_reachable, of empty_cache 5 empty_cache]
  by (auto simp: apply_update_def one_update_def one_added_def new_cache_system_def)

section \<open>Alone, the steps are the operations\<close>

lemma publish_steps_alone:
  assumes "PublishUpdates writer (cs_updater s) = Inr u" "cs_writer_pc s = Outside"
  shows "(cache_step writer)\<^sup>*\<^sup>* s (s\<lparr>cs_updater := u, cs_writer_pc := Outside\<rparr>)"
proof (cases "sb_ready (cu_updates_swap (cs_updater s))")
  case True
  then have "u = cs_updater s" using assms by (auto simp: PublishUpdates_def Publish_def split: if_splits)
  then have "s\<lparr>cs_updater := u, cs_writer_pc := Outside\<rparr> = s" using assms(2) by (cases s) simp
  then show ?thesis by simp
next
  case False
  obtain v b where vb: "swap_value (cu_updates_write (cs_updater s)) (cu_updates_swap (cs_updater s)) = (v, b)" by force
  let ?s1 = "s\<lparr>cs_writer_pc := Flag_Read\<rparr>"
  let ?s2 = "s\<lparr>cs_updater := (cs_updater s)\<lparr>cu_updates_write := v, cu_updates_swap := b\<rparr>, cs_writer_pc := Swapped\<rparr>"
  have "cache_step writer s ?s1" using False assms(2) by (intro cache_step.publish_flag)
  moreover have "cache_step writer ?s1 ?s2"
    using cache_step.publish_swap [of ?s1 v b writer] vb by simp
  moreover have "cache_step writer ?s2 (s\<lparr>cs_updater := u, cs_writer_pc := Outside\<rparr>)"
    using cache_step.publish_ready [of ?s2 writer] vb False assms
    by (auto simp: upd_buffer_def PublishUpdates_def Publish_def split: if_splits)
  ultimately show ?thesis by (meson converse_rtranclp_into_rtranclp rtranclp.rtrancl_refl)
qed

text \<open>An update of a map with the id 0 is taken for one of a single dictionary: the wrong member of the union is read.\<close>

lemma map_update_with_invalid_id:
  "rbind (UpdateInfoMap 7 Type_Player 0 info (SetWriterThread 7 new_UniverseCacheUpdater)) (\<lambda>u.
   rbind (PublishUpdates 7 u) (RetrieveUpdates c)) = Inl Wrong_Member"
  by (simp add: UpdateInfoMap_def AddInfoUpdate_def SetWriterThread_def new_UniverseCacheUpdater_def new_SwapBuffer_def
      PublishUpdates_def Publish_def RetrieveUpdates_def Retrieve_def swap_value_def set_ready_def apply_update_def k_invalid_id_def)

end
