(* ===== verification/UUID.thy ===== *)
theory UUID
  imports Prelude "HOL-Library.Word"
begin

text \<open>
  \<open>src/Util/UUID.h\<close> and \<open>UUID.cpp\<close>: ids of 128 bits and their text form.

  The union of the 16 bytes and the two 64-bit integers is the list of the bytes; the integers are read from
  it in little endian order. Characters are the 256 values of \<open>char\<close>; a \<open>char\<close> is signed, and a negative
  argument of \<open>isxdigit\<close> lies outside its table, which is a fault. The random number generator is a
  function from its state to a number and the next state.
\<close>

unbundle bit_operations_syntax

record UUID =
  uuid_bytes :: "8 word list"

definition bytes_of_uint64 :: "nat \<Rightarrow> 8 word list" where
  "bytes_of_uint64 n = map (\<lambda>i. of_nat (n div 256 ^ i)) [0..<8]"

definition uint64_of_bytes :: "8 word list \<Rightarrow> nat" where
  "uint64_of_bytes bs = foldr (\<lambda>b n. unat b + 256 * n) bs 0"

definition UUID_of_data :: "nat \<Rightarrow> nat \<Rightarrow> UUID" where
  "UUID_of_data a b = \<lparr>uuid_bytes = bytes_of_uint64 a @ bytes_of_uint64 b\<rparr>"

definition new_UUID :: UUID where
  "new_UUID = UUID_of_data 0 0"

definition uuid_data :: "nat \<Rightarrow> UUID \<Rightarrow> nat" where
  "uuid_data i u = uint64_of_bytes (take 8 (drop (8 * i) (uuid_bytes u)))"

definition uuid_eq :: "UUID \<Rightarrow> UUID \<Rightarrow> bool" where
  "uuid_eq u v \<longleftrightarrow> uuid_data 0 u = uuid_data 0 v \<and> uuid_data 1 u = uuid_data 1 v"

definition uuid_neq :: "UUID \<Rightarrow> UUID \<Rightarrow> bool" where
  "uuid_neq u v \<longleftrightarrow> uuid_data 0 u \<noteq> uuid_data 0 v \<and> uuid_data 1 u \<noteq> uuid_data 1 v"

definition uuid_hash :: "UUID \<Rightarrow> nat" where
  "uuid_hash u = (uuid_data 0 u XOR uuid_data 1 u)"

definition GenerateUUID :: "('g \<Rightarrow> nat \<times> 'g) \<Rightarrow> 'g \<Rightarrow> UUID \<times> 'g" where
  "GenerateUUID rng g = (let (a, g1) = rng g; (b, g2) = rng g1 in (UUID_of_data a b, g2))"

section \<open>To text\<close>

definition TOHEXCHAR :: string where
  "TOHEXCHAR = ''0123456789abcdef''"

definition hex_byte :: "8 word \<Rightarrow> string" where
  "hex_byte b = [TOHEXCHAR ! unat (drop_bit 4 b AND 0xF), TOHEXCHAR ! unat (b AND 0xF)]"

text \<open>One of the loops of \<open>UUIDToString\<close>, over \<open>n\<close> bytes from byte \<open>src_byte\<close> on.\<close>

definition hex_bytes :: "8 word list \<Rightarrow> nat \<Rightarrow> nat \<Rightarrow> string" where
  "hex_bytes bs src_byte n = concat (map hex_byte (take n (drop src_byte bs)))"

definition UUIDToString :: "8 word list \<Rightarrow> string" where
  "UUIDToString bs =
     hex_bytes bs 0 4 @ ''-'' @ hex_bytes bs 4 2 @ ''-'' @ hex_bytes bs 6 2 @ ''-'' @ hex_bytes bs 8 2 @ ''-'' @
     hex_bytes bs 10 6"

definition uuid_ToString :: "UUID \<Rightarrow> string" where
  "uuid_ToString u = UUIDToString (uuid_bytes u)"

section \<open>From text\<close>

definition char_code :: "char \<Rightarrow> nat" where
  "char_code c = of_char c"

definition isxdigit :: "char \<Rightarrow> bool" where
  "isxdigit c \<longleftrightarrow> (let n = char_code c in 48 \<le> n \<and> n \<le> 57 \<or> 65 \<le> n \<and> n \<le> 70 \<or> 97 \<le> n \<and> n \<le> 102)"

definition tolower :: "char \<Rightarrow> char" where
  "tolower c = (if 65 \<le> char_code c \<and> char_code c \<le> 90 then char_of (char_code c + 32) else c)"

definition HexChrToDec :: "char \<Rightarrow> 8 word" where
  "HexChrToDec c =
     (let n = int (char_code c)
      in of_int (if n \<le> 57 then n - 48 else 10 + n - (if n \<le> 70 then 65 else 97)))"

fun uuid_loop :: "nat \<Rightarrow> string \<Rightarrow> string \<Rightarrow> string option res" where
  "uuid_loop i [] out = (if i < 36 then Inl Out_Of_Bounds else Inr (Some out))"
| "uuid_loop i (c # cs) out =
     (if \<not> i < 36 then Inr (Some out)
      else if i = 8 \<or> i = 13 \<or> i = 18 \<or> i = 23
      then if c \<noteq> CHR ''-'' then Inr None else uuid_loop (i + 1) cs out
      else if 128 \<le> char_code c then Inl Out_Of_Bounds
      else if \<not> isxdigit c then Inr None
      else uuid_loop (i + 1) cs (out @ [tolower c]))"

definition uuid_byte :: "string \<Rightarrow> nat \<Rightarrow> 8 word" where
  "uuid_byte str byte =
     (let v1 = HexChrToDec (str ! (byte * 2)); v2 = HexChrToDec (str ! (byte * 2 + 1))
      in push_bit 4 v1 OR v2)"

definition UUIDFromString :: "string \<Rightarrow> 8 word list option res" where
  "UUIDFromString buffer =
     rbind (uuid_loop 0 buffer []) (\<lambda>r.
       Inr (case r of None \<Rightarrow> None | Some str \<Rightarrow> Some (map (uuid_byte str) [0..<16])))"

text \<open>The constructors from strings: of \<open>std::string\<close>, and of \<open>godot::String\<close>, whose length is that of the text and not of its UTF-8 bytes.\<close>

definition UUID_of_string :: "string \<Rightarrow> UUID res" where
  "UUID_of_string str =
     (if length str \<noteq> 36 then Inr new_UUID
      else rbind (UUIDFromString str) (\<lambda>r. Inr (case r of None \<Rightarrow> new_UUID | Some bs \<Rightarrow> \<lparr>uuid_bytes = bs\<rparr>)))"

definition UUID_of_godot_string :: "nat \<Rightarrow> string \<Rightarrow> UUID res" where
  "UUID_of_godot_string len utf8 =
     (if len \<noteq> 36 then Inr new_UUID
      else rbind (UUIDFromString utf8) (\<lambda>r. Inr (case r of None \<Rightarrow> new_UUID | Some bs \<Rightarrow> \<lparr>uuid_bytes = bs\<rparr>)))"

section \<open>Hexadecimal digits\<close>

lemma hex_digits:
  "\<forall>n \<in> set [0..<16]. isxdigit (TOHEXCHAR ! n) \<and> char_code (TOHEXCHAR ! n) < 128 \<and> tolower (TOHEXCHAR ! n) = TOHEXCHAR ! n \<and>
    HexChrToDec (TOHEXCHAR ! n) = of_nat n"
  by (simp add: upt_rec TOHEXCHAR_def isxdigit_def char_code_def tolower_def HexChrToDec_def del: set_upt)

lemma hexchar_digit:
  assumes "n < 16"
  shows "isxdigit (TOHEXCHAR ! n)" "char_code (TOHEXCHAR ! n) < 128" "tolower (TOHEXCHAR ! n) = TOHEXCHAR ! n"
    "HexChrToDec (TOHEXCHAR ! n) = of_nat n"
  using hex_digits assms by simp_all

lemma nibble_less: "unat (b AND 0xF :: 8 word) < 16"
proof -
  have "b AND 0xF = take_bit 4 b" by (simp add: take_bit_eq_mask mask_eq_exp_minus_1)
  then have "unat (b AND 0xF) = take_bit 4 (unat b)" by (simp only: unsigned_take_bit_eq)
  then show ?thesis by (simp add: take_bit_eq_mod)
qed

lemma nibbles_join: "push_bit 4 (drop_bit 4 b AND 0xF) OR (b AND 0xF) = (b :: 8 word)"
proof -
  have m: "x AND 0xF = take_bit 4 x" for x :: "8 word" by (simp add: take_bit_eq_mask mask_eq_exp_minus_1)
  show ?thesis by (rule bit_word_eqI) (auto simp: m bit_simps)
qed

lemma hex_byte_digits:
  "hex_byte b = [c, d] \<Longrightarrow> push_bit 4 (HexChrToDec c) OR HexChrToDec d = b"
  using nibbles_join [of b] by (auto simp: hex_byte_def hexchar_digit nibble_less)

lemma hex_digit_chars: "map char_of ([48..<58] @ [65..<71] @ [97..<103] :: nat list) = ''0123456789ABCDEFabcdef''"
  by code_simp

lemma hex_digit_cases:
  assumes "isxdigit c"
  shows "\<exists>n < 16. HexChrToDec c = of_nat n \<and> tolower c = TOHEXCHAR ! n"
proof -
  have "\<forall>c \<in> set ''0123456789ABCDEFabcdef''. \<exists>n \<in> set [0..<16]. HexChrToDec c = of_nat n \<and> tolower c = TOHEXCHAR ! n"
    by (simp add: upt_rec TOHEXCHAR_def char_code_def tolower_def HexChrToDec_def char_of_def bit_0 del: set_upt)
  moreover have "char_code c \<in> set ([48..<58] @ [65..<71] @ [97..<103])"
    using assms by (simp only: isxdigit_def Let_def set_append set_upt Un_iff atLeastLessThan_iff) linarith
  then have "char_of (char_code c) \<in> set (map char_of ([48..<58] @ [65..<71] @ [97..<103] :: nat list))"
    by (simp only: set_map imageI)
  then have "c \<in> set (map char_of ([48..<58] @ [65..<71] @ [97..<103] :: nat list))" by (simp add: char_code_def)
  ultimately show ?thesis by (metis atLeastLessThan_iff set_upt hex_digit_chars)
qed

lemma nibbles_split:
  assumes "take_bit 4 v = (v :: 8 word)" "take_bit 4 w = w"
  shows "drop_bit 4 (push_bit 4 v OR w) AND 0xF = v" "(push_bit 4 v OR w) AND 0xF = w"
proof -
  have mask: "x AND 0xF = take_bit 4 x" for x :: "8 word" by (simp add: take_bit_eq_mask mask_eq_exp_minus_1)
  have v: "bit v i \<Longrightarrow> i < 4" for i using arg_cong [OF assms(1), of "\<lambda>x. bit x i"] by (simp add: bit_take_bit_iff)
  have w: "bit w i \<Longrightarrow> i < 4" for i using arg_cong [OF assms(2), of "\<lambda>x. bit x i"] by (simp add: bit_take_bit_iff)
  show "drop_bit 4 (push_bit 4 v OR w) AND 0xF = v"
    unfolding mask by (rule bit_word_eqI) (use v w in \<open>fastforce simp: bit_simps\<close>)
  show "(push_bit 4 v OR w) AND 0xF = w"
    unfolding mask by (rule bit_word_eqI) (use v w in \<open>fastforce simp: bit_simps\<close>)
qed

lemma hex_byte_join:
  assumes "isxdigit c" "isxdigit d"
  shows "hex_byte (push_bit 4 (HexChrToDec c) OR HexChrToDec d) = [tolower c, tolower d]"
proof -
  obtain m n where mn: "m < 16" "HexChrToDec c = of_nat m" "tolower c = TOHEXCHAR ! m"
    "n < 16" "HexChrToDec d = of_nat n" "tolower d = TOHEXCHAR ! n"
    using hex_digit_cases assms by meson
  have small: "take_bit 4 (of_nat k :: 8 word) = of_nat k" if "k < 16" for k
  proof -
    have "take_bit 4 k = k" using that by (simp add: take_bit_nat_eq_self_iff)
    then show ?thesis by (metis take_bit_of_nat)
  qed
  have "unat (of_nat m :: 8 word) = m" "unat (of_nat n :: 8 word) = n" using mn by (simp_all add: unat_of_nat)
  then show ?thesis using mn nibbles_split [OF small [OF mn(1)] small [OF mn(4)]] by (simp add: hex_byte_def)
qed

section \<open>The text that is accepted\<close>

definition dash_at :: "nat \<Rightarrow> bool" where
  "dash_at i \<longleftrightarrow> i = 8 \<or> i = 13 \<or> i = 18 \<or> i = 23"

fun text_from :: "nat \<Rightarrow> string \<Rightarrow> bool" where
  "text_from i [] = True"
| "text_from i (c # cs) = ((if dash_at i then c = CHR ''-'' else isxdigit c) \<and> text_from (Suc i) cs)"

text \<open>The digits of the text from position \<open>i\<close> on.\<close>

fun digits_from :: "nat \<Rightarrow> string \<Rightarrow> string" where
  "digits_from i [] = []"
| "digits_from i (c # cs) = (if dash_at i then digits_from (Suc i) cs else c # digits_from (Suc i) cs)"

definition is_uuid_text :: "string \<Rightarrow> bool" where
  "is_uuid_text s \<longleftrightarrow> length s = 36 \<and> text_from 0 s"

lemma digit_ascii: "isxdigit c \<Longrightarrow> char_code c < 128"
  by (auto simp: isxdigit_def Let_def)

lemma digit_tolower: "isxdigit c \<Longrightarrow> isxdigit (tolower c) \<and> tolower (tolower c) = tolower c"
  using hex_digit_cases [of c] hexchar_digit by metis

lemma uuid_loop_ok:
  assumes "i + length s = 36" "\<forall>c \<in> set s. char_code c < 128"
  shows "uuid_loop i s out =
    Inr (if text_from i s then Some (out @ map tolower (digits_from i s)) else None)"
  using assms
proof (induction s arbitrary: i out)
  case (Cons c cs)
  have "uuid_loop i (c # cs) out =
      (if dash_at i then if c \<noteq> CHR ''-'' then Inr None else uuid_loop (Suc i) cs out
       else if \<not> isxdigit c then Inr None else uuid_loop (Suc i) cs (out @ [tolower c]))"
    using Cons.prems by (simp add: dash_at_def)
  moreover have "uuid_loop (Suc i) cs out' =
      Inr (if text_from (Suc i) cs then Some (out' @ map tolower (digits_from (Suc i) cs)) else None)" for out'
    using Cons.IH [of "Suc i" out'] Cons.prems by simp
  ultimately show ?case by simp
qed simp

lemma uuid_byte_text:
  "isxdigit (str ! (2 * k)) \<Longrightarrow> isxdigit (str ! (2 * k + 1)) \<Longrightarrow>
    hex_byte (uuid_byte (map tolower str) k) = [tolower (str ! (2 * k)), tolower (str ! (2 * k + 1))]"
  if "2 * k + 1 < length str"
  using that digit_tolower hex_byte_join by (simp add: uuid_byte_def mult.commute)

lemma pair_text:
  assumes "\<forall>c \<in> set D. isxdigit c" "length D = 32" "k < 16"
  shows "hex_byte (uuid_byte (map tolower D) k) = [tolower (D ! (2 * k)), tolower (D ! (2 * k + 1))]"
proof -
  have "2 * k < length D" "2 * k + 1 < length D" using assms by simp_all
  then show ?thesis using assms(1) nth_mem by (intro uuid_byte_text) auto
qed

lemma upt_36: "[0..<36] = [0, 1, 2, 3, 4, 5, 6, 7, 8, 9, 10, 11, 12, 13, 14, 15, 16, 17, 18, 19, 20, 21, 22, 23, 24, 25, 26, 27, 28, 29, 30, 31, 32, 33, 34, 35 :: nat]"
  by code_simp

lemma upt_8: "[0..<8] = [0, 1, 2, 3, 4, 5, 6, 7 :: nat]"
  by code_simp

lemma upt_16: "[0..<16] = [0, 1, 2, 3, 4, 5, 6, 7, 8, 9, 10, 11, 12, 13, 14, 15 :: nat]"
  by code_simp

lemma string_of_digits:
  assumes "\<forall>c \<in> set D. isxdigit c" "length D = 32"
  shows "UUIDToString (map (uuid_byte (map tolower D)) [0..<16]) =
    [tolower (D ! 0), tolower (D ! 1), tolower (D ! 2), tolower (D ! 3), tolower (D ! 4), tolower (D ! 5), tolower (D ! 6), tolower (D ! 7)] @ ''-'' @
    [tolower (D ! 8), tolower (D ! 9), tolower (D ! 10), tolower (D ! 11)] @ ''-'' @ [tolower (D ! 12), tolower (D ! 13), tolower (D ! 14), tolower (D ! 15)] @ ''-'' @
    [tolower (D ! 16), tolower (D ! 17), tolower (D ! 18), tolower (D ! 19)] @ ''-'' @
    [tolower (D ! 20), tolower (D ! 21), tolower (D ! 22), tolower (D ! 23), tolower (D ! 24), tolower (D ! 25), tolower (D ! 26), tolower (D ! 27), tolower (D ! 28), tolower (D ! 29), tolower (D ! 30), tolower (D ! 31)]"
  by (simp add: UUIDToString_def hex_bytes_def upt_16 pair_text [OF assms])

lemma text_of_bytes:
  assumes "is_uuid_text s"
  shows "UUIDToString (map (uuid_byte (map tolower (digits_from 0 s))) [0..<16]) = map tolower s"
proof -
  have "s = map ((!) s) [0..<36]" using assms map_nth [of s] by (simp add: is_uuid_text_def)
  then have s: "s = [s ! 0, s ! 1, s ! 2, s ! 3, s ! 4, s ! 5, s ! 6, s ! 7, s ! 8, s ! 9, s ! 10, s ! 11, s ! 12, s ! 13, s ! 14, s ! 15, s ! 16, s ! 17, s ! 18, s ! 19, s ! 20, s ! 21, s ! 22, s ! 23, s ! 24, s ! 25, s ! 26, s ! 27, s ! 28, s ! 29, s ! 30, s ! 31, s ! 32, s ! 33, s ! 34, s ! 35]"
    by (simp only: upt_36 list.map)
  let ?D = "[s ! 0, s ! 1, s ! 2, s ! 3, s ! 4, s ! 5, s ! 6, s ! 7, s ! 9, s ! 10, s ! 11, s ! 12, s ! 14, s ! 15, s ! 16, s ! 17, s ! 19, s ! 20, s ! 21, s ! 22, s ! 24, s ! 25, s ! 26, s ! 27, s ! 28, s ! 29, s ! 30, s ! 31, s ! 32, s ! 33, s ! 34, s ! 35]"
  have "digits_from 0 [s ! 0, s ! 1, s ! 2, s ! 3, s ! 4, s ! 5, s ! 6, s ! 7, s ! 8, s ! 9, s ! 10, s ! 11, s ! 12, s ! 13, s ! 14, s ! 15, s ! 16, s ! 17, s ! 18, s ! 19, s ! 20, s ! 21, s ! 22, s ! 23, s ! 24, s ! 25, s ! 26, s ! 27, s ! 28, s ! 29, s ! 30, s ! 31, s ! 32, s ! 33, s ! 34, s ! 35] = ?D" by (simp add: dash_at_def)
  then have D: "digits_from 0 s = ?D" by (subst s)
  have "text_from 0 s" using assms by (simp add: is_uuid_text_def)
  then have "text_from 0 [s ! 0, s ! 1, s ! 2, s ! 3, s ! 4, s ! 5, s ! 6, s ! 7, s ! 8, s ! 9, s ! 10, s ! 11, s ! 12, s ! 13, s ! 14, s ! 15, s ! 16, s ! 17, s ! 18, s ! 19, s ! 20, s ! 21, s ! 22, s ! 23, s ! 24, s ! 25, s ! 26, s ! 27, s ! 28, s ! 29, s ! 30, s ! 31, s ! 32, s ! 33, s ! 34, s ! 35]" by (subst (asm) s)
  then have digits: "\<forall>c \<in> set ?D. isxdigit c" and dashes: "s ! 8 = CHR ''-''" "s ! 13 = CHR ''-''" "s ! 18 = CHR ''-''" "s ! 23 = CHR ''-''"
    by (simp_all add: dash_at_def)
  have "tolower CHR ''-'' = CHR ''-''" by (simp add: tolower_def char_code_def)
  then have "UUIDToString (map (uuid_byte (map tolower ?D)) [0..<16]) = map tolower [s ! 0, s ! 1, s ! 2, s ! 3, s ! 4, s ! 5, s ! 6, s ! 7, s ! 8, s ! 9, s ! 10, s ! 11, s ! 12, s ! 13, s ! 14, s ! 15, s ! 16, s ! 17, s ! 18, s ! 19, s ! 20, s ! 21, s ! 22, s ! 23, s ! 24, s ! 25, s ! 26, s ! 27, s ! 28, s ! 29, s ! 30, s ! 31, s ! 32, s ! 33, s ! 34, s ! 35]"
    by (subst string_of_digits [OF digits]) (simp_all add: dashes)
  then show ?thesis unfolding D by (subst s)
qed

lemma text_accepted:
  assumes "\<forall>c \<in> set s. char_code c < 128"
  shows "UUID_of_string s =
    Inr (if is_uuid_text s then \<lparr>uuid_bytes = map (uuid_byte (map tolower (digits_from 0 s))) [0..<16]\<rparr> else new_UUID)"
  using uuid_loop_ok [of 0 s "[]"] assms
  by (auto simp: UUID_of_string_def UUIDFromString_def is_uuid_text_def)

lemma text_of_bytes_back:
  assumes "length bs = 16"
  shows "is_uuid_text (UUIDToString bs) \<and> (\<forall>c \<in> set (UUIDToString bs). char_code c < 128) \<and>
    map (uuid_byte (map tolower (digits_from 0 (UUIDToString bs)))) [0..<16] = bs"
proof -
  have "bs = map ((!) bs) [0..<16]" using assms map_nth [of bs] by simp
  then have bs: "bs = [bs ! 0, bs ! 1, bs ! 2, bs ! 3, bs ! 4, bs ! 5, bs ! 6, bs ! 7, bs ! 8, bs ! 9, bs ! 10, bs ! 11, bs ! 12, bs ! 13, bs ! 14, bs ! 15]" by (simp only: upt_16 list.map)
  have join: "push_bit 4 (drop_bit 4 b) AND 240 OR b AND 15 = b" for b :: "8 word" using nibbles_join [of b] by simp
  note digit = hexchar_digit [OF nibble_less]
  have "is_uuid_text (UUIDToString [bs ! 0, bs ! 1, bs ! 2, bs ! 3, bs ! 4, bs ! 5, bs ! 6, bs ! 7, bs ! 8, bs ! 9, bs ! 10, bs ! 11, bs ! 12, bs ! 13, bs ! 14, bs ! 15]) \<and>
      (\<forall>c \<in> set (UUIDToString [bs ! 0, bs ! 1, bs ! 2, bs ! 3, bs ! 4, bs ! 5, bs ! 6, bs ! 7, bs ! 8, bs ! 9, bs ! 10, bs ! 11, bs ! 12, bs ! 13, bs ! 14, bs ! 15]). char_code c < 128) \<and>
      map (uuid_byte (map tolower (digits_from 0 (UUIDToString [bs ! 0, bs ! 1, bs ! 2, bs ! 3, bs ! 4, bs ! 5, bs ! 6, bs ! 7, bs ! 8, bs ! 9, bs ! 10, bs ! 11, bs ! 12, bs ! 13, bs ! 14, bs ! 15])))) [0..<16] = [bs ! 0, bs ! 1, bs ! 2, bs ! 3, bs ! 4, bs ! 5, bs ! 6, bs ! 7, bs ! 8, bs ! 9, bs ! 10, bs ! 11, bs ! 12, bs ! 13, bs ! 14, bs ! 15]"
    by (simp add: UUIDToString_def hex_bytes_def hex_byte_def is_uuid_text_def dash_at_def digit upt_16 uuid_byte_def join)
      (simp add: char_code_def)
  then show ?thesis using bs by metis
qed

section \<open>Properties\<close>

text \<open>C39: the text of an id is read back as the same id.\<close>

theorem uuid_round_trip:
  assumes "length (uuid_bytes u) = 16"
  shows "UUID_of_string (uuid_ToString u) = Inr u"
  using text_of_bytes_back [OF assms] text_accepted [of "uuid_ToString u"] by (simp add: uuid_ToString_def)

theorem uuid_round_trip_witness:
  "UUID_of_string (uuid_ToString (UUID_of_data 81985529216486895 18364758544493064720)) =
    Inr (UUID_of_data 81985529216486895 18364758544493064720)"
  by (rule uuid_round_trip) (simp add: UUID_of_data_def bytes_of_uint64_def)

text \<open>
  C38: a text of ASCII characters that is not of the form of an id gives the id 0; one that is gives the id whose
  text is the same in lower case.
\<close>

theorem uuid_text:
  assumes "\<forall>c \<in> set s. char_code c < 128"
  shows "\<exists>u. UUID_of_string s = Inr u \<and> length (uuid_bytes u) = 16 \<and>
    (if is_uuid_text s then uuid_ToString u = map tolower s else u = new_UUID)"
  using text_accepted [OF assms] text_of_bytes [of s]
  by (auto simp: uuid_ToString_def new_UUID_def UUID_of_data_def bytes_of_uint64_def)

theorem uuid_text_witness:
  "(\<exists>u. UUID_of_string ''0123456789abcdef'' = Inr u \<and> length (uuid_bytes u) = 16 \<and> u = new_UUID) \<and>
   (\<exists>u. UUID_of_string ''01234567-89AB-cdef-0123-456789ABCDEF'' = Inr u \<and> uuid_ToString u = ''01234567-89ab-cdef-0123-456789abcdef'')"
proof -
  have "\<forall>c \<in> set ''0123456789abcdef''. char_code c < 128" "\<not> is_uuid_text ''0123456789abcdef''"
    by (simp_all add: char_code_def is_uuid_text_def)
  moreover have "\<forall>c \<in> set ''01234567-89AB-cdef-0123-456789ABCDEF''. char_code c < 128"
    "is_uuid_text ''01234567-89AB-cdef-0123-456789ABCDEF''"
    "map tolower ''01234567-89AB-cdef-0123-456789ABCDEF'' = ''01234567-89ab-cdef-0123-456789abcdef''"
    by (simp_all add: char_code_def is_uuid_text_def dash_at_def isxdigit_def tolower_def char_of_def bit_0)
  ultimately show ?thesis
    using uuid_text [of "''0123456789abcdef''"] uuid_text [of "''01234567-89AB-cdef-0123-456789ABCDEF''"] by auto
qed

section \<open>Comparison\<close>

lemma digit_256:
  assumes "(a :: nat) < 256" "b < 256" and eq: "a + 256 * m = b + 256 * n"
  shows "a = b \<and> m = n"
proof -
  have "(x + 256 * k) mod 256 = x" "(x + 256 * k) div 256 = k" if "x < 256" for x k :: nat using that by simp_all
  then show ?thesis using assms by metis
qed

lemma uint64_of_bytes_inj:
  "length bs = length cs \<Longrightarrow> uint64_of_bytes bs = uint64_of_bytes cs \<Longrightarrow> bs = cs"
proof (induction bs cs rule: list_induct2)
  case (Cons b bs c cs)
  have "unat b < 256" "unat c < 256" using unsigned_less [of b] unsigned_less [of c] by simp_all
  moreover have "unat b + 256 * uint64_of_bytes bs = unat c + 256 * uint64_of_bytes cs"
    using Cons.prems by (simp add: uint64_of_bytes_def)
  ultimately have "unat b = unat c" "uint64_of_bytes bs = uint64_of_bytes cs"
    by (blast dest: digit_256)+
  then show ?case using Cons.IH by (simp add: word_unat_eq_iff)
qed simp

lemma uuid_eq_iff:
  assumes "length (uuid_bytes u) = 16" "length (uuid_bytes v) = 16"
  shows "uuid_eq u v \<longleftrightarrow> u = v"
proof
  assume "uuid_eq u v"
  then have "uint64_of_bytes (take 8 (uuid_bytes u)) = uint64_of_bytes (take 8 (uuid_bytes v))"
    "uint64_of_bytes (drop 8 (uuid_bytes u)) = uint64_of_bytes (drop 8 (uuid_bytes v))"
    using assms by (simp_all add: uuid_eq_def uuid_data_def)
  then have "take 8 (uuid_bytes u) = take 8 (uuid_bytes v)" "drop 8 (uuid_bytes u) = drop 8 (uuid_bytes v)"
    using assms by (simp_all add: uint64_of_bytes_inj)
  then have "uuid_bytes u = uuid_bytes v" by (metis append_take_drop_id)
  then show "u = v" by simp
qed (simp add: uuid_eq_def)

text \<open>Two ids that agree in one half are neither equal nor different.\<close>

lemma neither_equal_nor_different:
  "\<not> uuid_eq (UUID_of_data 1 0) (UUID_of_data 2 0)" "\<not> uuid_neq (UUID_of_data 1 0) (UUID_of_data 2 0)"
  by (simp_all add: uuid_eq_def uuid_neq_def uuid_data_def UUID_of_data_def bytes_of_uint64_def uint64_of_bytes_def upt_8)

text \<open>A character beyond ASCII is passed to \<open>isxdigit\<close> as a negative number.\<close>

lemma text_beyond_ascii: "UUID_of_string (char_of (200 :: nat) # replicate 35 CHR ''0'') = Inl Out_Of_Bounds"
  by (simp add: UUID_of_string_def UUIDFromString_def char_code_def)

end
