(* ===== verification/RenderAllocator.thy ===== *)
theory RenderAllocator
  imports Prelude "HOL-Library.Word" "HOL-Library.Multiset"
begin

text \<open>
  \<open>src/Render/RenderAllocator.h\<close> and \<open>RenderAllocator.cpp\<close>: pools of rendering objects that are made ahead on the render
  thread, and the allocators that take them from there without locking.

  A \<open>godot::RID\<close> is a natural, 0 the invalid one. The rendering server is not part of the repository: it is a
  parameter, a state of type \<open>'g\<close> with a function \<open>create\<close> that runs one of its \<open>_create\<close> methods and a
  function \<open>free\<close> for \<open>free_rid\<close>. The enumeration and the two tables of the source keep their order. The counter \<open>m_requests\<close> is a
  64-bit word.
\<close>

section \<open>Tables\<close>

datatype RIDType =
    RID_Texture2D | RID_Texture3D | RID_Shader | RID_Material | RID_Mesh | RID_MultiMesh | RID_Skeleton
  | RID_DirectionalLight | RID_OmniLight | RID_SpotLight | RID_ReflectionProbe | RID_Decal
  | RID_VoxelGI | RID_Lightmap | RID_Particles | RID_ParticlesCollision | RID_FogVolume
  | RID_VisibilityNotifier | RID_Occluder | RID_Camera | RID_Viewport | RID_Sky | RID_CompositorEffect
  | RID_Compositor | RID_Environment | RID_CameraAttributes | RID_Scenario | RID_Instance | RID_Canvas
  | RID_CanvasTexture | RID_CanvasItem | RID_CanvasLight | RID_CanvasLightOccluder
  | RID_CanvasOccluderPolygon

datatype RIDGenerator =
    texture_2d_placeholder_create | texture_3d_placeholder_create | shader_create | material_create
  | mesh_create | multimesh_create | skeleton_create | directional_light_create | omni_light_create
  | spot_light_create | reflection_probe_create | decal_create | voxel_gi_create | lightmap_create
  | particles_create | particles_collision_create | fog_volume_create | visibility_notifier_create
  | occluder_create | camera_create | viewport_create | sky_create | compositor_effect_create
  | compositor_create | environment_create | camera_attributes_create | scenario_create
  | instance_create | canvas_create | canvas_texture_create | canvas_item_create | canvas_light_create
  | canvas_light_occluder_create | canvas_occluder_polygon_create

definition rid_types :: "RIDType list" where
  "rid_types = [
    RID_Texture2D, RID_Texture3D, RID_Shader, RID_Material, RID_Mesh, RID_MultiMesh, RID_Skeleton,
    RID_DirectionalLight, RID_OmniLight, RID_SpotLight, RID_ReflectionProbe, RID_Decal, RID_VoxelGI,
    RID_Lightmap, RID_Particles, RID_ParticlesCollision, RID_FogVolume, RID_VisibilityNotifier,
    RID_Occluder, RID_Camera, RID_Viewport, RID_Sky, RID_CompositorEffect, RID_Compositor,
    RID_Environment, RID_CameraAttributes, RID_Scenario, RID_Instance, RID_Canvas, RID_CanvasTexture,
    RID_CanvasItem, RID_CanvasLight, RID_CanvasLightOccluder, RID_CanvasOccluderPolygon]"

definition k_num_alloc_types :: nat where "k_num_alloc_types = 34"

definition k_max_preallocated :: "nat list" where
  "k_max_preallocated = [
    16, 16, 16, 64, 128, 16, 16, 16, 16, 16, 16, 16, 16, 16, 16, 16, 16, 16, 16, 16, 16, 16, 16, 16, 16,
    16, 16, 512, 16, 16, 16, 16, 16, 16]"

definition k_rid_generators :: "RIDGenerator list" where
  "k_rid_generators = [
    texture_2d_placeholder_create, texture_3d_placeholder_create, shader_create, material_create,
    mesh_create, multimesh_create, skeleton_create, directional_light_create, omni_light_create,
    spot_light_create, reflection_probe_create, decal_create, voxel_gi_create, lightmap_create,
    particles_create, particles_collision_create, fog_volume_create, visibility_notifier_create,
    occluder_create, camera_create, viewport_create, sky_create, compositor_effect_create,
    compositor_create, environment_create, camera_attributes_create, scenario_create, instance_create,
    canvas_create, canvas_texture_create, canvas_item_create, canvas_light_create,
    canvas_light_occluder_create, canvas_occluder_polygon_create]"

text \<open>The position of a type in the enumeration.\<close>

fun to_underlying :: "RIDType \<Rightarrow> nat" where
  "to_underlying RID_Texture2D = 0"
| "to_underlying RID_Texture3D = 1"
| "to_underlying RID_Shader = 2"
| "to_underlying RID_Material = 3"
| "to_underlying RID_Mesh = 4"
| "to_underlying RID_MultiMesh = 5"
| "to_underlying RID_Skeleton = 6"
| "to_underlying RID_DirectionalLight = 7"
| "to_underlying RID_OmniLight = 8"
| "to_underlying RID_SpotLight = 9"
| "to_underlying RID_ReflectionProbe = 10"
| "to_underlying RID_Decal = 11"
| "to_underlying RID_VoxelGI = 12"
| "to_underlying RID_Lightmap = 13"
| "to_underlying RID_Particles = 14"
| "to_underlying RID_ParticlesCollision = 15"
| "to_underlying RID_FogVolume = 16"
| "to_underlying RID_VisibilityNotifier = 17"
| "to_underlying RID_Occluder = 18"
| "to_underlying RID_Camera = 19"
| "to_underlying RID_Viewport = 20"
| "to_underlying RID_Sky = 21"
| "to_underlying RID_CompositorEffect = 22"
| "to_underlying RID_Compositor = 23"
| "to_underlying RID_Environment = 24"
| "to_underlying RID_CameraAttributes = 25"
| "to_underlying RID_Scenario = 26"
| "to_underlying RID_Instance = 27"
| "to_underlying RID_Canvas = 28"
| "to_underlying RID_CanvasTexture = 29"
| "to_underlying RID_CanvasItem = 30"
| "to_underlying RID_CanvasLight = 31"
| "to_underlying RID_CanvasLightOccluder = 32"
| "to_underlying RID_CanvasOccluderPolygon = 33"

section \<open>AllocatorServer\<close>

record AllocatorServer =
  as_requests :: "64 word"
  as_types :: "nat list list"

definition new_AllocatorServer :: AllocatorServer where
  "new_AllocatorServer = \<lparr>as_requests = 0, as_types = replicate k_num_alloc_types []\<rparr>"

definition CheckRenderingServerThread :: "bool \<Rightarrow> bool \<Rightarrow> bool" where
  "CheckRenderingServerThread multithreaded on_render_thread = (if multithreaded then on_render_thread else True)"

text \<open>
  One round of the loop in \<open>GetRIDs\<close>: what is needed is a difference of unsigned numbers, and what is given is
  taken from the end of the pool.
\<close>

definition get_rids_one :: "nat list \<Rightarrow> nat \<Rightarrow> nat list list \<times> nat list list \<times> nat \<Rightarrow> nat list list \<times> nat list list \<times> nat" where
  "get_rids_one requested i st =
     (case st of (outs, types, total_given) \<Rightarrow>
        let needed = nat ((int (requested ! i) - int (length (outs ! i))) mod 2 ^ 64);
            max_per_request = k_max_preallocated ! i div 16;
            available = length (types ! i);
            giving = min (if available < needed then available else needed) max_per_request
        in if needed = 0 then st
           else (outs[i := outs ! i @ drop (available - giving) (types ! i)],
                 types[i := take (available - giving) (types ! i)],
                 total_given + giving))"

text \<open>The part of \<open>GetRIDs\<close> under the lock; the last component tells whether \<open>RequestRIDs\<close> is called after it.\<close>

definition GetRIDs :: "nat list \<Rightarrow> nat list list \<Rightarrow> AllocatorServer \<Rightarrow> nat list list \<times> AllocatorServer \<times> bool" where
  "GetRIDs requested outs srv =
     (if \<not> (\<exists>request \<in> set requested. 0 < request) then (outs, srv, False)
      else
        let (outs', types', total_given) = fold (get_rids_one requested) [0..<length outs] (outs, as_types srv, 0)
        in (outs', srv\<lparr>as_types := types'\<rparr>, 0 < total_given))"

definition free_rids_one :: "nat \<Rightarrow> nat list list \<times> nat list list \<Rightarrow> nat list list \<times> nat list list" where
  "free_rids_one i st =
     (case st of (ins, types) \<Rightarrow>
        if ins ! i = [] then st else (ins[i := []], types[i := types ! i @ ins ! i]))"

definition FreeRIDs :: "nat list list \<Rightarrow> AllocatorServer \<Rightarrow> nat list list \<times> AllocatorServer" where
  "FreeRIDs ins srv =
     (let (ins', types') = fold free_rids_one [0..<length ins] (ins, as_types srv)
      in (ins', srv\<lparr>as_types := types'\<rparr>))"

definition AnyRequired :: "AllocatorServer \<Rightarrow> bool" where
  "AnyRequired srv = (\<exists>i \<in> set [0..<k_num_alloc_types]. length (as_types srv ! i) < k_max_preallocated ! i)"

text \<open>The while loop for one type.\<close>

function fill_type :: "(RIDGenerator \<Rightarrow> 'g \<Rightarrow> nat \<times> 'g) \<Rightarrow> RIDGenerator \<Rightarrow> nat \<Rightarrow> nat list \<Rightarrow> 'g \<Rightarrow> nat list \<times> 'g" where
  "fill_type create generator k rids g =
     (if length rids < k
      then let (rid, g') = create generator g in fill_type create generator k (rids @ [rid]) g'
      else (rids, g))"
  by pat_completeness auto

termination
  by (relation "measure (\<lambda>(create, generator, k, rids, g). k - length rids)") auto

declare fill_type.simps [simp del]

definition fill_one ::
    "(RIDGenerator \<Rightarrow> 'g \<Rightarrow> nat \<times> 'g) \<Rightarrow> nat \<Rightarrow> nat list list \<times> 'g \<Rightarrow> nat list list \<times> 'g" where
  "fill_one create i st =
     (case st of (types, g) \<Rightarrow>
        let (rids, g') = fill_type create (k_rid_generators ! i) (k_max_preallocated ! i) (types ! i) g
        in (types[i := rids], g'))"

definition AllocateRIDsInternal ::
    "(RIDGenerator \<Rightarrow> 'g \<Rightarrow> nat \<times> 'g) \<Rightarrow> bool \<Rightarrow> AllocatorServer \<Rightarrow> 'g \<Rightarrow> (AllocatorServer \<times> 'g) res" where
  "AllocateRIDsInternal create thread_ok srv g =
     (if \<not> thread_ok then Inl Assertion
      else if \<not> AnyRequired srv then Inr (srv, g)
      else
        let (types, g') = fold (fill_one create) [0..<k_num_alloc_types] (as_types srv, g)
        in Inr (srv\<lparr>as_types := types, as_requests := as_requests srv - 1\<rparr>, g'))"

definition DeallocateRIDsInternal ::
    "(nat \<Rightarrow> 'g \<Rightarrow> 'g) \<Rightarrow> bool \<Rightarrow> AllocatorServer \<Rightarrow> 'g \<Rightarrow> (AllocatorServer \<times> 'g) res" where
  "DeallocateRIDsInternal free thread_ok srv g =
     (if \<not> thread_ok then Inl Assertion
      else Inr (srv\<lparr>as_requests := as_requests srv - 1\<rparr>, fold free (concat (as_types srv)) g))"

section \<open>Allocator\<close>

record Allocator =
  al_rids :: "nat list list"

definition empty_Allocator :: Allocator where
  "empty_Allocator = \<lparr>al_rids = replicate k_num_alloc_types []\<rparr>"

definition Process :: "Allocator \<Rightarrow> AllocatorServer \<Rightarrow> Allocator \<times> AllocatorServer \<times> bool" where
  "Process a srv =
     (let requests = map (\<lambda>i. k_max_preallocated ! i) [0..<k_num_alloc_types];
          (rids, srv', request) = GetRIDs requests (al_rids a) srv
      in (\<lparr>al_rids = rids\<rparr>, srv', request))"

definition new_Allocator :: "AllocatorServer \<Rightarrow> Allocator \<times> AllocatorServer \<times> bool" where
  "new_Allocator srv = Process empty_Allocator srv"

definition destroy_Allocator :: "Allocator \<Rightarrow> AllocatorServer \<Rightarrow> AllocatorServer" where
  "destroy_Allocator a srv = snd (FreeRIDs (al_rids a) srv)"

definition GetRID :: "RIDType \<Rightarrow> Allocator \<Rightarrow> (nat \<times> Allocator) res" where
  "GetRID type a =
     (let i = to_underlying type; rids = al_rids a ! i;
          (rid, a') = (if rids \<noteq> [] then (last rids, a\<lparr>al_rids := (al_rids a)[i := butlast rids]\<rparr>) else (0, a))
      in if rid = 0 then Inl Assertion else Inr (rid, a'))"

definition EnsureRID :: "RIDType \<Rightarrow> Allocator \<Rightarrow> (nat \<times> Allocator) res" where
  "EnsureRID type a = rbind (GetRID type a) (\<lambda>(rid, a'). if rid = 0 then Inl Crash else Inr (rid, a'))"

section \<open>The server and its callers\<close>

text \<open>
  What the allocators of several threads, the callers of \<open>RequestRIDs\<close> and the render thread do, in any order.
  \<open>sy_checked\<close> callers have seen the counter at 0 and not queued their task yet, \<open>sy_queued\<close> have queued it and
  not counted it yet. \<open>sy_given\<close> are the objects that \<open>GetRID\<close> has handed out, with the type that was asked for, and \<open>sy_lost\<close> counts the
  tasks that returned early.
\<close>

datatype render_task = Allocate_Task | Deallocate_Task

record 'g alloc_system =
  sy_server :: AllocatorServer
  sy_rendering :: 'g
  sy_allocators :: "Allocator list"
  sy_given :: "(RIDType \<times> nat) list"
  sy_tasks :: "render_task list"
  sy_checked :: nat
  sy_queued :: nat
  sy_lost :: nat

definition new_alloc_system :: "'g \<Rightarrow> 'g alloc_system" where
  "new_alloc_system g =
     \<lparr>sy_server = new_AllocatorServer, sy_rendering = g, sy_allocators = [], sy_given = [], sy_tasks = [],
      sy_checked = 0, sy_queued = 0, sy_lost = 0\<rparr>"

definition RequestRIDs :: "AllocatorServer \<Rightarrow> render_task list \<Rightarrow> AllocatorServer \<times> render_task list" where
  "RequestRIDs srv tasks =
     (if as_requests srv = 0
      then let tasks' = tasks @ [Allocate_Task] in (srv\<lparr>as_requests := as_requests srv + 1\<rparr>, tasks')
      else (srv, tasks))"

text \<open>What the destructor of the server queues and counts, and what it waits for after that.\<close>

definition destroy_AllocatorServer :: "AllocatorServer \<Rightarrow> render_task list \<Rightarrow> AllocatorServer \<times> render_task list" where
  "destroy_AllocatorServer srv tasks =
     (let tasks' = tasks @ [Deallocate_Task] in (srv\<lparr>as_requests := as_requests srv + 1\<rparr>, tasks'))"

definition destructor_done :: "AllocatorServer \<Rightarrow> bool" where
  "destructor_done srv \<longleftrightarrow> as_requests srv = 0"

inductive alloc_step ::
    "(RIDGenerator \<Rightarrow> 'g \<Rightarrow> nat \<times> 'g) \<Rightarrow> (nat \<Rightarrow> 'g \<Rightarrow> 'g) \<Rightarrow> 'g alloc_system \<Rightarrow> 'g alloc_system \<Rightarrow> bool"
  for create free where
  request_check: "as_requests (sy_server s) = 0 \<Longrightarrow> alloc_step create free s (s\<lparr>sy_checked := sy_checked s + 1\<rparr>)"
| request_queue: "sy_checked s = Suc n \<Longrightarrow>
    alloc_step create free s (s\<lparr>sy_checked := n, sy_tasks := sy_tasks s @ [Allocate_Task], sy_queued := sy_queued s + 1\<rparr>)"
| request_count: "sy_queued s = Suc n \<Longrightarrow>
    alloc_step create free s (s\<lparr>sy_queued := n,
      sy_server := (sy_server s)\<lparr>as_requests := as_requests (sy_server s) + 1\<rparr>\<rparr>)"
| create_allocator: "new_Allocator (sy_server s) = (a, srv, r) \<Longrightarrow>
    alloc_step create free s (s\<lparr>sy_server := srv, sy_allocators := sy_allocators s @ [a]\<rparr>)"
| process: "j < length (sy_allocators s) \<Longrightarrow> Process (sy_allocators s ! j) (sy_server s) = (a, srv, r) \<Longrightarrow>
    alloc_step create free s (s\<lparr>sy_server := srv, sy_allocators := (sy_allocators s)[j := a]\<rparr>)"
| get_rid: "j < length (sy_allocators s) \<Longrightarrow> GetRID type (sy_allocators s ! j) = Inr (rid, a) \<Longrightarrow>
    alloc_step create free s (s\<lparr>sy_allocators := (sy_allocators s)[j := a], sy_given := (type, rid) # sy_given s\<rparr>)"
| free_given: "sy_given s = xs @ (type, rid) # ys \<Longrightarrow>
    alloc_step create free s (s\<lparr>sy_given := xs @ ys, sy_rendering := free rid (sy_rendering s)\<rparr>)"
| destroy_allocator: "sy_allocators s = xs @ a # ys \<Longrightarrow>
    alloc_step create free s (s\<lparr>sy_server := destroy_Allocator a (sy_server s), sy_allocators := xs @ ys\<rparr>)"
| run_allocate: "sy_tasks s = Allocate_Task # ts \<Longrightarrow> AllocateRIDsInternal create True (sy_server s) (sy_rendering s) = Inr (srv, g) \<Longrightarrow>
    alloc_step create free s (s\<lparr>sy_server := srv, sy_rendering := g, sy_tasks := ts,
      sy_lost := (if AnyRequired (sy_server s) then sy_lost s else sy_lost s + 1)\<rparr>)"

end
