(* ===== verification/AllocatorProps.thy ===== *)
theory AllocatorProps
  imports RenderAllocator
begin

text \<open>
  The pools and the allocators never hold an object twice or under a wrong type, whatever the order of
  the steps; how the counter of the requests relates to the tasks; and what a refill gives.
\<close>

section \<open>Tables\<close>

text \<open>The method of the rendering server that makes the objects of a type, by name.\<close>

fun method_of :: "RIDType \<Rightarrow> RIDGenerator" where
  "method_of RID_Texture2D = texture_2d_placeholder_create"
| "method_of RID_Texture3D = texture_3d_placeholder_create"
| "method_of RID_Shader = shader_create"
| "method_of RID_Material = material_create"
| "method_of RID_Mesh = mesh_create"
| "method_of RID_MultiMesh = multimesh_create"
| "method_of RID_Skeleton = skeleton_create"
| "method_of RID_DirectionalLight = directional_light_create"
| "method_of RID_OmniLight = omni_light_create"
| "method_of RID_SpotLight = spot_light_create"
| "method_of RID_ReflectionProbe = reflection_probe_create"
| "method_of RID_Decal = decal_create"
| "method_of RID_VoxelGI = voxel_gi_create"
| "method_of RID_Lightmap = lightmap_create"
| "method_of RID_Particles = particles_create"
| "method_of RID_ParticlesCollision = particles_collision_create"
| "method_of RID_FogVolume = fog_volume_create"
| "method_of RID_VisibilityNotifier = visibility_notifier_create"
| "method_of RID_Occluder = occluder_create"
| "method_of RID_Camera = camera_create"
| "method_of RID_Viewport = viewport_create"
| "method_of RID_Sky = sky_create"
| "method_of RID_CompositorEffect = compositor_effect_create"
| "method_of RID_Compositor = compositor_create"
| "method_of RID_Environment = environment_create"
| "method_of RID_CameraAttributes = camera_attributes_create"
| "method_of RID_Scenario = scenario_create"
| "method_of RID_Instance = instance_create"
| "method_of RID_Canvas = canvas_create"
| "method_of RID_CanvasTexture = canvas_texture_create"
| "method_of RID_CanvasItem = canvas_item_create"
| "method_of RID_CanvasLight = canvas_light_create"
| "method_of RID_CanvasLightOccluder = canvas_light_occluder_create"
| "method_of RID_CanvasOccluderPolygon = canvas_occluder_polygon_create"

lemma table_lengths [simp]:
  "length k_rid_generators = 34" "length k_max_preallocated = 34" "k_num_alloc_types = 34"
  by (simp_all add: k_rid_generators_def k_max_preallocated_def k_num_alloc_types_def)

lemma to_underlying_less [simp]: "to_underlying t < 34"
  by (cases t) simp_all

lemma generators_agree: "k_rid_generators ! to_underlying t = method_of t"
  by (cases t) (simp_all add: k_rid_generators_def)

lemma max_positive: "i < 34 \<Longrightarrow> 0 < k_max_preallocated ! i \<and> k_max_preallocated ! i < 2 ^ 16"
proof -
  have "\<forall>k \<in> set k_max_preallocated. 0 < k \<and> k < 2 ^ 16" by (simp add: k_max_preallocated_def)
  then show "i < 34 \<Longrightarrow> ?thesis" by (metis nth_mem table_lengths(2))
qed

section \<open>Where objects are\<close>

definition tagged :: "nat list list \<Rightarrow> (nat \<times> nat) multiset" where
  "tagged rss = (\<Sum>i < length rss. image_mset (Pair i) (mset (rss ! i)))"

lemma tagged_update:
  assumes "i < length rss"
  shows "tagged (rss[i := x]) + image_mset (Pair i) (mset (rss ! i)) = tagged rss + image_mset (Pair i) (mset x)"
proof -
  have i: "i \<in> {..<length rss}" using assms by simp
  have "tagged rss = image_mset (Pair i) (mset (rss ! i)) + (\<Sum>j \<in> {..<length rss} - {i}. image_mset (Pair j) (mset (rss ! j)))"
    unfolding tagged_def by (rule sum.remove [OF finite_lessThan i])
  moreover have "tagged (rss[i := x]) = image_mset (Pair i) (mset x) + (\<Sum>j \<in> {..<length rss} - {i}. image_mset (Pair j) (mset (rss ! j)))"
    using sum.remove [OF finite_lessThan i, of "\<lambda>j. image_mset (Pair j) (mset (rss[i := x] ! j))"] assms
    by (simp add: tagged_def)
  ultimately show ?thesis by simp
qed

lemma tagged_empty [simp]: "tagged (replicate n []) = {#}"
  by (simp add: tagged_def)

lemma tagged_index: "(i, r) \<in># tagged rss \<Longrightarrow> i < length rss"
  by (auto simp: tagged_def set_mset_sum)

lemma tagged_member: "i < length rss \<Longrightarrow> r \<in> set (rss ! i) \<Longrightarrow> (i, r) \<in># tagged rss"
  by (auto simp: tagged_def set_mset_sum)

lemma move_between:
  assumes "i < length outs" "i < length types" "mset xs + mset ys = mset (outs ! i) + mset (types ! i)"
  shows "tagged (outs[i := xs]) + tagged (types[i := ys]) = tagged outs + tagged types"
proof -
  let ?f = "\<lambda>zs. image_mset (Pair i) (mset zs)"
  have "?f xs + ?f ys = ?f (outs ! i) + ?f (types ! i)" using assms(3) by (metis image_mset_union)
  moreover have "(tagged (outs[i := xs]) + tagged (types[i := ys])) + (?f (outs ! i) + ?f (types ! i)) =
      (tagged outs + tagged types) + (?f xs + ?f ys)"
    using tagged_update [OF assms(1), of xs] tagged_update [OF assms(2), of ys]
    by (metis (no_types, lifting) add.assoc add.left_commute)
  ultimately show ?thesis by simp
qed

lemma mset_take_drop: "mset (drop n xs) + mset (take n xs) = mset xs"
  by (metis append_take_drop_id mset_append union_commute)

lemma get_rids_one_moves:
  assumes "get_rids_one requested i (outs, types, n) = (outs', types', n')" "i < length outs" "i < length types" "requested ! i < 2 ^ 16"
  shows "tagged outs' + tagged types' = tagged outs + tagged types \<and> length outs' = length outs \<and> length types' = length types \<and>
    (\<forall>j. j \<noteq> i \<longrightarrow> outs' ! j = outs ! j \<and> types' ! j = types ! j) \<and>
    (length (outs ! i) \<le> requested ! i \<longrightarrow> length (outs' ! i) \<le> requested ! i)"
proof -
  define need where "need = nat ((int (requested ! i) - int (length (outs ! i))) mod 2 ^ 64)"
  define avail where "avail = length (types ! i)"
  define give where "give = min (if avail < need then avail else need) (k_max_preallocated ! i div 16)"
  have eq: "(outs', types', n') =
      (if need = 0 then (outs, types, n)
       else (outs[i := outs ! i @ drop (avail - give) (types ! i)], types[i := take (avail - give) (types ! i)], n + give))"
    using assms(1) unfolding get_rids_one_def Let_def prod.case need_def avail_def give_def by simp
  show ?thesis
  proof (cases "need = 0")
    case True
    then show ?thesis using eq by simp
  next
    case False
    then have new: "outs' = outs[i := outs ! i @ drop (avail - give) (types ! i)]" "types' = types[i := take (avail - give) (types ! i)]"
      using eq by simp_all
    have "mset (outs ! i @ drop (avail - give) (types ! i)) + mset (take (avail - give) (types ! i)) =
        mset (outs ! i) + mset (types ! i)"
      using mset_take_drop [of "avail - give" "types ! i"] by (simp add: add.assoc)
    from move_between [OF assms(2,3) this] have moved: "tagged outs' + tagged types' = tagged outs + tagged types" by (simp only: new)
    have "length (outs' ! i) \<le> requested ! i" if "length (outs ! i) \<le> requested ! i"
    proof -
      have "int (requested ! i) - int (length (outs ! i)) < 2 ^ 64" using assms(4) by simp
      then have "need = requested ! i - length (outs ! i)" using that by (simp add: need_def mod_pos_pos_trivial)
      moreover have "give \<le> need" by (auto simp: give_def)
      moreover have "length (outs' ! i) \<le> length (outs ! i) + give" using assms(2) by (simp add: new avail_def)
      ultimately show ?thesis using that by linarith
    qed
    then show ?thesis using moved by (simp add: new)
  qed
qed

lemma get_rids_loop:
  assumes "fold (get_rids_one requested) is (outs, types, n) = (outs', types', n')"
    "length outs = 34" "length types = 34" "\<forall>i \<in> set is. i < 34 \<and> requested ! i < 2 ^ 16"
  shows "tagged outs' + tagged types' = tagged outs + tagged types \<and> length outs' = 34 \<and> length types' = 34 \<and>
    ((\<forall>i < 34. length (outs ! i) \<le> requested ! i) \<longrightarrow> (\<forall>i < 34. length (outs' ! i) \<le> requested ! i))"
  using assms
proof (induction "is" arbitrary: outs types n)
  case (Cons i "is")
  obtain o1 t1 n1 where one: "get_rids_one requested i (outs, types, n) = (o1, t1, n1)" by (metis prod_cases3)
  note m = get_rids_one_moves [OF one]
  have "tagged outs' + tagged types' = tagged o1 + tagged t1 \<and> length outs' = 34 \<and> length types' = 34 \<and>
      ((\<forall>i < 34. length (o1 ! i) \<le> requested ! i) \<longrightarrow> (\<forall>i < 34. length (outs' ! i) \<le> requested ! i))"
    by (rule Cons.IH) (use Cons.prems one m in auto)
  moreover have "(\<forall>i < 34. length (outs ! i) \<le> requested ! i) \<longrightarrow> (\<forall>i < 34. length (o1 ! i) \<le> requested ! i)"
    using m Cons.prems by (metis list.set_intros(1))
  ultimately show ?case using m Cons.prems by auto
qed simp

definition allocator_ok :: "Allocator \<Rightarrow> bool" where
  "allocator_ok a \<longleftrightarrow> length (al_rids a) = 34 \<and> (\<forall>i < 34. length (al_rids a ! i) \<le> k_max_preallocated ! i)"

lemma Process_ok:
  assumes "Process a srv = (a', srv', r)" "allocator_ok a" "length (as_types srv) = 34"
  shows "allocator_ok a' \<and> length (as_types srv') = 34 \<and> as_requests srv' = as_requests srv \<and>
    tagged (al_rids a') + tagged (as_types srv') = tagged (al_rids a) + tagged (as_types srv)"
proof -
  define req where "req = map (\<lambda>i. k_max_preallocated ! i) [0..<k_num_alloc_types]"
  obtain outs types n where run: "fold (get_rids_one req) [0..<34] (al_rids a, as_types srv, 0) = (outs, types, n)" by (metis prod_cases3)
  have req: "\<forall>i < 34. req ! i = k_max_preallocated ! i" by (simp add: req_def)
  have lim: "\<forall>i \<in> set [0..<34]. i < 34 \<and> req ! i < 2 ^ 16" using max_positive req by simp
  have "\<exists>request \<in> set req. 0 < request" using max_positive [of 0] unfolding req_def by (simp, intro bexI [of _ 0]) simp_all
  then have "GetRIDs req (al_rids a) srv = (outs, srv\<lparr>as_types := types\<rparr>, 0 < n)"
    using run assms(2) by (simp add: GetRIDs_def allocator_ok_def)
  then have "Process a srv = (\<lparr>al_rids = outs\<rparr>, srv\<lparr>as_types := types\<rparr>, 0 < n)"
    unfolding Process_def Let_def req_def [symmetric] by simp
  then have "a' = \<lparr>al_rids = outs\<rparr>" "srv' = srv\<lparr>as_types := types\<rparr>" using assms(1) by simp_all
  then show ?thesis
    using get_rids_loop [OF run _ assms(3) lim] assms(2) req by (simp add: allocator_ok_def)
qed

lemma free_rids_loop:
  assumes "fold free_rids_one is (ins, types) = (ins', types')" "length ins = 34" "length types = 34" "\<forall>i \<in> set is. i < 34"
  shows "tagged ins' + tagged types' = tagged ins + tagged types \<and> length ins' = 34 \<and> length types' = 34 \<and>
    (\<forall>i < 34. i \<in> set is \<or> ins ! i = [] \<longrightarrow> ins' ! i = [])"
  using assms
proof (induction "is" arbitrary: ins types)
  case (Cons i "is")
  define i1 t1 where one: "i1 = fst (free_rids_one i (ins, types))" "t1 = snd (free_rids_one i (ins, types))"
  have i: "i < length ins" "i < length types" using Cons.prems by simp_all
  have "tagged i1 + tagged t1 = tagged ins + tagged types"
    using move_between [OF i, of "[]" "types ! i @ ins ! i"] by (auto simp: one free_rids_one_def add.commute)
  moreover have "length i1 = 34" "length t1 = 34" "i1 ! i = []" "\<forall>j. ins ! j = [] \<longrightarrow> i1 ! j = []"
    using Cons.prems by (auto simp: one free_rids_one_def nth_list_update)
  ultimately show ?case using Cons.IH [of i1 t1] Cons.prems by (auto simp: one)
qed simp

lemma destroy_ok:
  assumes "length (al_rids a) = 34" "length (as_types srv) = 34"
  shows "length (as_types (destroy_Allocator a srv)) = 34 \<and> as_requests (destroy_Allocator a srv) = as_requests srv \<and>
    tagged (as_types (destroy_Allocator a srv)) = tagged (al_rids a) + tagged (as_types srv)"
proof -
  obtain ins types where run: "fold free_rids_one [0..<34] (al_rids a, as_types srv) = (ins, types)" by force
  have "tagged ins + tagged types = tagged (al_rids a) + tagged (as_types srv) \<and> length ins = 34 \<and> length types = 34 \<and>
      (\<forall>i < 34. ins ! i = [])"
    using free_rids_loop [OF run assms] by auto
  moreover from this have "ins = replicate 34 []" by (intro nth_equalityI) simp_all
  ultimately show ?thesis using run assms by (auto simp: destroy_Allocator_def FreeRIDs_def)
qed

lemma GetRID_ok:
  assumes "GetRID t a = Inr (rid, a')" "allocator_ok a"
  shows "allocator_ok a' \<and> rid \<noteq> 0 \<and> tagged (al_rids a) = add_mset (to_underlying t, rid) (tagged (al_rids a'))"
proof -
  let ?i = "to_underlying t"
  have i: "?i < length (al_rids a)" using assms(2) by (simp add: allocator_ok_def)
  have got: "al_rids a ! ?i \<noteq> []" "rid = last (al_rids a ! ?i)" "rid \<noteq> 0" "a' = a\<lparr>al_rids := (al_rids a)[?i := butlast (al_rids a ! ?i)]\<rparr>"
    using assms(1) by (auto simp: GetRID_def Let_def split: if_splits)
  have "mset (al_rids a ! ?i) = add_mset rid (mset (butlast (al_rids a ! ?i)))"
    using got(1,2) by (metis append_butlast_last_id mset.simps(2) mset_append mset.simps(1) add_mset_add_single)
  then have "tagged (al_rids a') + image_mset (Pair ?i) (add_mset rid (mset (butlast (al_rids a ! ?i)))) =
      tagged (al_rids a) + image_mset (Pair ?i) (mset (butlast (al_rids a ! ?i)))"
    using tagged_update [OF i, of "butlast (al_rids a ! ?i)"] by (simp add: got(4))
  then have "tagged (al_rids a) = add_mset (?i, rid) (tagged (al_rids a'))" by simp
  moreover have "allocator_ok a'" using assms(2) by (auto simp: got(4) allocator_ok_def nth_list_update intro: le_trans [OF diff_le_self])
  ultimately show ?thesis using got(3) by simp
qed

section \<open>The rendering server\<close>

text \<open>
  What is relied on: a \<open>_create\<close> method gives a valid id that no live object has, of an object that was made by this
  method, and \<open>free_rid\<close> ends the life of one object. \<open>made\<close> tells which live object was made by which method.
\<close>

definition rendering_ok ::
    "(RIDGenerator \<Rightarrow> 'g \<Rightarrow> nat \<times> 'g) \<Rightarrow> (nat \<Rightarrow> 'g \<Rightarrow> 'g) \<Rightarrow> ('g \<Rightarrow> nat \<Rightarrow> RIDGenerator option) \<Rightarrow> bool" where
  "rendering_ok create free made \<longleftrightarrow>
     (\<forall>m g. fst (create m g) \<noteq> 0 \<and> made g (fst (create m g)) = None \<and>
        made (snd (create m g)) = (made g)(fst (create m g) := Some m)) \<and>
     (\<forall>rid g. made (free rid g) = (made g)(rid := None)) \<and> (\<forall>g. made g 0 = None)"

text \<open>The objects at \<open>places\<close> are live, are made by the method of their type, and lie in one place only.\<close>

definition placed :: "('g \<Rightarrow> nat \<Rightarrow> RIDGenerator option) \<Rightarrow> 'g \<Rightarrow> (nat \<times> nat) multiset \<Rightarrow> bool" where
  "placed made g places \<longleftrightarrow>
     (\<forall>(i, r) \<in># places. i < 34 \<and> made g r = Some (k_rid_generators ! i)) \<and> (\<forall>p. count places p \<le> 1)"

lemma generators_distinct: "i < 34 \<Longrightarrow> j < 34 \<Longrightarrow> k_rid_generators ! i = k_rid_generators ! j \<Longrightarrow> i = j"
proof -
  have "distinct k_rid_generators" by (simp add: k_rid_generators_def)
  then show "i < 34 \<Longrightarrow> j < 34 \<Longrightarrow> k_rid_generators ! i = k_rid_generators ! j \<Longrightarrow> i = j"
    by (metis nth_eq_iff_index_eq table_lengths(1))
qed

lemma placed_create:
  assumes ok: "rendering_ok create free made" and pl: "placed made g places" and i: "i < 34"
    and new: "create (k_rid_generators ! i) g = (rid, g')"
  shows "placed made g' (add_mset (i, rid) places)"
proof -
  have m: "made g rid = None" "made g' = (made g)(rid := Some (k_rid_generators ! i))"
    using ok new unfolding rendering_ok_def by (metis fst_conv snd_conv)+
  then have "(j, rid) \<notin># places" for j using pl by (auto simp: placed_def)
  then have "made g' r = made g r" if "(j, r) \<in># places" for j r using m(2) that by auto
  then show ?thesis using pl i m \<open>\<And>j. (j, rid) \<notin># places\<close> by (fastforce simp: placed_def count_eq_zero_iff)
qed

lemma placed_once:
  assumes "placed made g (add_mset (i, r) rest)"
  shows "(j, r) \<notin># rest"
proof
  assume j: "(j, r) \<in># rest"
  have "k_rid_generators ! j = k_rid_generators ! i" "i < 34" "j < 34" using assms j by (auto simp: placed_def)
  then have "j = i" by (metis generators_distinct)
  then have "1 < count (add_mset (i, r) rest) (i, r)" using j by simp
  moreover have "count (add_mset (i, r) rest) (i, r) \<le> 1" using assms unfolding placed_def by blast
  ultimately show False by linarith
qed

lemma placed_free:
  assumes ok: "rendering_ok create free made" and pl: "placed made g (add_mset (i, rid) places)"
  shows "placed made (free rid g) places"
proof -
  have m: "made (free rid g) = (made g)(rid := None)" using ok by (simp add: rendering_ok_def)
  have "r \<noteq> rid" if "(j, r) \<in># places" for j r using placed_once [OF pl] that by blast
  then have "\<forall>(j, r) \<in># places. j < 34 \<and> made (free rid g) r = Some (k_rid_generators ! j)"
    using pl by (auto simp: placed_def m)
  moreover have "count places p \<le> 1" for p
  proof -
    have "count places p \<le> count (add_mset (i, rid) places) p" by simp
    also have "\<dots> \<le> 1" using pl unfolding placed_def by blast
    finally show ?thesis .
  qed
  ultimately show ?thesis by (simp add: placed_def)
qed

lemma fill_type_ok:
  assumes ok: "rendering_ok create free made" and i: "i < 34"
  shows "placed made g (image_mset (Pair i) (mset rids) + rest) \<Longrightarrow>
    fill_type create (k_rid_generators ! i) k rids g = (rids', g') \<Longrightarrow>
    placed made g' (image_mset (Pair i) (mset rids') + rest) \<and> length rids' = max k (length rids)"
proof (induction "k - length rids" arbitrary: rids g)
  case 0
  then show ?case by (subst (asm) fill_type.simps) simp
next
  case (Suc n)
  obtain rid g1 where new: "create (k_rid_generators ! i) g = (rid, g1)" by force
  have "placed made g1 (image_mset (Pair i) (mset (rids @ [rid])) + rest)"
    using placed_create [OF ok Suc.prems(1) i new] by simp
  moreover have lt: "length rids < k" using Suc.hyps(2) by simp
  then have "fill_type create (k_rid_generators ! i) k (rids @ [rid]) g1 = (rids', g')"
    using Suc.prems(2) new by (subst (asm) fill_type.simps) simp
  ultimately show ?case using Suc.hyps(1) [of "rids @ [rid]" g1] Suc.hyps(2) lt by simp
qed

lemma fill_one_ok:
  assumes ok: "rendering_ok create free made" and i: "i < 34" and len: "length types = 34"
    and pl: "placed made g (tagged types + rest)" and run: "fill_one create i (types, g) = (types', g')"
  shows "placed made g' (tagged types' + rest) \<and> length types' = 34 \<and>
    (\<forall>j. length (types' ! j) = (if j = i then max (k_max_preallocated ! i) (length (types ! i)) else length (types ! j)))"
proof -
  obtain rids where fill: "fill_type create (k_rid_generators ! i) (k_max_preallocated ! i) (types ! i) g = (rids, g')"
    "types' = types[i := rids]" using run by (auto simp: fill_one_def split: prod.splits)
  have il: "i < length types" using i len by simp
  define others where "others = tagged (types[i := []]) + rest"
  have split: "tagged (types[i := x]) + rest = image_mset (Pair i) (mset x) + others" for x
    using tagged_update [of i "types[i := []]" x] il by (simp add: others_def add_ac)
  have "placed made g (image_mset (Pair i) (mset (types ! i)) + others)" using pl split [of "types ! i"] il by simp
  from fill_type_ok [OF ok i this fill(1)] show ?thesis
    using len il by (simp add: fill(2) split nth_list_update)
qed

lemma fill_loop:
  assumes ok: "rendering_ok create free made"
  shows "\<forall>i \<in> set is. i < 34 \<Longrightarrow> length types = 34 \<Longrightarrow> placed made g (tagged types + rest) \<Longrightarrow>
    fold (fill_one create) is (types, g) = (types', g') \<Longrightarrow>
    placed made g' (tagged types' + rest) \<and> length types' = 34 \<and>
    (\<forall>j < 34. length (types' ! j) = (if j \<in> set is then max (k_max_preallocated ! j) (length (types ! j)) else length (types ! j)))"
proof (induction "is" arbitrary: types g)
  case (Cons i "is")
  obtain t1 g1 where one: "fill_one create i (types, g) = (t1, g1)" by force
  have m: "placed made g1 (tagged t1 + rest)" "length t1 = 34"
    "\<forall>j. length (t1 ! j) = (if j = i then max (k_max_preallocated ! i) (length (types ! i)) else length (types ! j))"
    using fill_one_ok [OF ok _ Cons.prems(2,3) one] Cons.prems(1) by auto
  have "fold (fill_one create) is (t1, g1) = (types', g')" using Cons.prems(4) one by simp
  from Cons.IH [OF _ m(2,1) this] m(3) Cons.prems(1) show ?case by auto
qed simp

section \<open>The whole system\<close>

definition places :: "'g alloc_system \<Rightarrow> (nat \<times> nat) multiset" where
  "places s = tagged (as_types (sy_server s)) + sum_list (map (\<lambda>a. tagged (al_rids a)) (sy_allocators s)) +
     image_mset (\<lambda>(t, r). (to_underlying t, r)) (mset (sy_given s))"

definition alloc_inv :: "('g \<Rightarrow> nat \<Rightarrow> RIDGenerator option) \<Rightarrow> 'g alloc_system \<Rightarrow> bool" where
  "alloc_inv made s \<longleftrightarrow>
     length (as_types (sy_server s)) = 34 \<and> (\<forall>a \<in> set (sy_allocators s). allocator_ok a) \<and>
     placed made (sy_rendering s) (places s) \<and>
     (\<forall>task \<in> set (sy_tasks s). task = Allocate_Task) \<and>
     as_requests (sy_server s) + of_nat (sy_queued s) = of_nat (length (sy_tasks s) + sy_lost s)"

lemma sum_list_nth_update:
  fixes f :: "'a \<Rightarrow> 'b :: cancel_comm_monoid_add"
  shows "j < length xs \<Longrightarrow> sum_list (map f (xs[j := b])) + f (xs ! j) = sum_list (map f xs) + f b"
proof (induction xs arbitrary: j)
  case (Cons x xs)
  then show ?case by (cases j) (simp_all add: add_ac)
qed simp

lemma multiset_swap:
  fixes a :: "'a multiset"
  assumes "a + srv = j + sv" "rest' + j = rest + a"
  shows "srv + rest' = sv + rest"
proof -
  have "(srv + rest') + (a + j) = (a + srv) + (rest' + j)" by (simp add: add_ac)
  also have "\<dots> = (sv + rest) + (a + j)" unfolding assms by (simp add: add_ac)
  finally show ?thesis by simp
qed

lemma member_le_sum_list_mset: "x \<in> set xs \<Longrightarrow> f x \<subseteq># (sum_list (map f xs) :: 'a multiset)"
  by (induction xs) (auto intro: subset_mset.add_increasing subset_mset.add_increasing2)

lemma alloc_inv_new: "alloc_inv made (new_alloc_system g)"
  by (simp add: alloc_inv_def new_alloc_system_def new_AllocatorServer_def places_def placed_def)

lemma AllocateRIDsInternal_ok:
  assumes ok: "rendering_ok create free made" and len: "length (as_types srv) = 34"
    and pl: "placed made g (tagged (as_types srv) + rest)" and run: "AllocateRIDsInternal create True srv g = Inr (srv', g')"
  shows "placed made g' (tagged (as_types srv') + rest) \<and> length (as_types srv') = 34 \<and>
    (\<forall>i < 34. k_max_preallocated ! i \<le> length (as_types srv' ! i)) \<and>
    as_requests srv' = (if AnyRequired srv then as_requests srv - 1 else as_requests srv)"
proof (cases "AnyRequired srv")
  case False
  then show ?thesis using run pl len by (auto simp: AllocateRIDsInternal_def AnyRequired_def not_less)
next
  case True
  obtain types g1 where fill: "fold (fill_one create) [0..<34] (as_types srv, g) = (types, g1)" by force
  then have "srv' = srv\<lparr>as_types := types, as_requests := as_requests srv - 1\<rparr>" "g' = g1"
    using run True by (auto simp: AllocateRIDsInternal_def)
  then show ?thesis using fill_loop [OF ok _ len pl fill] True by simp
qed

lemma alloc_step_inv:
  assumes ok: "rendering_ok create free made"
  shows "alloc_step create free s s' \<Longrightarrow> alloc_inv made s \<Longrightarrow> alloc_inv made s'"
proof (induction rule: alloc_step.induct)
  case (create_allocator s a srv r)
  have "allocator_ok empty_Allocator" by (simp add: allocator_ok_def empty_Allocator_def)
  note p = Process_ok [OF create_allocator.hyps [unfolded new_Allocator_def] this]
  have e: "tagged (as_types (sy_server s)) = tagged (al_rids a) + tagged (as_types srv)"
    using p create_allocator.prems by (simp add: alloc_inv_def empty_Allocator_def)
  have "places (s\<lparr>sy_server := srv, sy_allocators := sy_allocators s @ [a]\<rparr>) = places s"
    unfolding places_def e by (simp add: add_ac)
  then show ?case using p create_allocator.prems by (auto simp: alloc_inv_def)
next
  case (process j s a srv r)
  have "allocator_ok (sy_allocators s ! j)" using process by (simp add: alloc_inv_def)
  note p = Process_ok [OF process.hyps(2) this]
  have "tagged (al_rids a) + tagged (as_types srv) = tagged (al_rids (sy_allocators s ! j)) + tagged (as_types (sy_server s))"
    using p process.prems by (simp add: alloc_inv_def)
  then have "places (s\<lparr>sy_server := srv, sy_allocators := (sy_allocators s)[j := a]\<rparr>) = places s"
    using multiset_swap [OF _ sum_list_nth_update [OF process.hyps(1), of "\<lambda>a. tagged (al_rids a)" a]] by (simp add: places_def)
  then show ?case using p process by (auto simp: alloc_inv_def set_update_subset_insert dest!: set_update_subset_insert [THEN subsetD])
next
  case (get_rid j s t rid a)
  have "allocator_ok (sy_allocators s ! j)" using get_rid by (simp add: alloc_inv_def)
  note p = GetRID_ok [OF get_rid.hyps(2) this]
  have "places (s\<lparr>sy_allocators := (sy_allocators s)[j := a], sy_given := (t, rid) # sy_given s\<rparr>) = places s"
    using sum_list_nth_update [OF get_rid.hyps(1), of "\<lambda>a. tagged (al_rids a)" a] p unfolding places_def by simp
  then show ?case using p get_rid by (auto simp: alloc_inv_def dest!: set_update_subset_insert [THEN subsetD])
next
  case (free_given s xs t rid ys)
  have "places s = add_mset (to_underlying t, rid) (places (s\<lparr>sy_given := xs @ ys, sy_rendering := free rid (sy_rendering s)\<rparr>))"
    by (simp add: places_def free_given.hyps)
  then show ?case using free_given placed_free [OF ok] by (auto simp: alloc_inv_def)
next
  case (destroy_allocator s xs a ys)
  have "length (al_rids a) = 34" "length (as_types (sy_server s)) = 34"
    using destroy_allocator by (auto simp: alloc_inv_def allocator_ok_def)
  note d = destroy_ok [OF this]
  have "places (s\<lparr>sy_server := destroy_Allocator a (sy_server s), sy_allocators := xs @ ys\<rparr>) = places s"
    using d by (simp add: places_def destroy_allocator.hyps add_ac)
  then show ?case using d destroy_allocator by (auto simp: alloc_inv_def)
next
  case (run_allocate s ts srv g)
  define rest where "rest = sum_list (map (\<lambda>a. tagged (al_rids a)) (sy_allocators s)) + image_mset (\<lambda>(t, r). (to_underlying t, r)) (mset (sy_given s))"
  have "placed made (sy_rendering s) (tagged (as_types (sy_server s)) + rest)" "length (as_types (sy_server s)) = 34"
    using run_allocate.prems by (simp_all add: alloc_inv_def places_def rest_def add.assoc)
  from AllocateRIDsInternal_ok [OF ok this(2,1) run_allocate.hyps(2)] run_allocate show ?case
    by (auto simp: alloc_inv_def places_def rest_def add.assoc algebra_simps)
qed (auto simp: alloc_inv_def places_def algebra_simps)

lemma alloc_reachable_inv:
  assumes "rendering_ok create free made" "(alloc_step create free)\<^sup>*\<^sup>* (new_alloc_system g) s"
  shows "alloc_inv made s"
  using assms(2) by (induction rule: rtranclp_induct) (auto intro: alloc_inv_new alloc_step_inv [OF assms(1)])

section \<open>Properties\<close>

text \<open>
  C34: whatever the order in which allocators are made, filled, used and destroyed, requests are made and the render thread
  runs its tasks, an object that \<open>GetRID\<close> hands out is live, was made by the method of the type that was asked for and is in nobody
  else's hands; no allocator holds more objects of a type than the limit, so that what it needs is never a
  negative number.
\<close>

theorem get_rid_gives_its_type:
  assumes "rendering_ok create free made" "(alloc_step create free)\<^sup>*\<^sup>* (new_alloc_system g) s"
    and "j < length (sy_allocators s)" "al_rids (sy_allocators s ! j) ! to_underlying type \<noteq> []"
  shows "\<exists>rid a. GetRID type (sy_allocators s ! j) = Inr (rid, a) \<and>
    made (sy_rendering s) rid = Some (method_of type) \<and> rid \<notin> snd ` set (sy_given s) \<and>
    (\<forall>i < k_num_alloc_types. length (al_rids (sy_allocators s ! j) ! i) \<le> k_max_preallocated ! i)"
proof -
  let ?i = "to_underlying type"
  have I: "alloc_inv made s" by (rule alloc_reachable_inv [OF assms(1,2)])
  have al: "allocator_ok (sy_allocators s ! j)" using I assms(3) by (simp add: alloc_inv_def)
  have "tagged (al_rids (sy_allocators s ! j)) \<subseteq># sum_list (map (\<lambda>a. tagged (al_rids a)) (sy_allocators s))"
    using assms(3) by (intro member_le_sum_list_mset) simp
  then have "(?i, last (al_rids (sy_allocators s ! j) ! ?i)) \<in># places s"
    using tagged_member [of ?i "al_rids (sy_allocators s ! j)" "last (al_rids (sy_allocators s ! j) ! ?i)"] assms(4) al
    by (auto simp: places_def allocator_ok_def dest: mset_subset_eqD)
  then have "made (sy_rendering s) (last (al_rids (sy_allocators s ! j) ! ?i)) \<noteq> None" using I by (auto simp: alloc_inv_def placed_def)
  then have "last (al_rids (sy_allocators s ! j) ! ?i) \<noteq> 0" using assms(1) unfolding rendering_ok_def by metis
  then obtain rid a where got: "GetRID type (sy_allocators s ! j) = Inr (rid, a)" using assms(4) by (auto simp: GetRID_def Let_def)
  let ?s = "s\<lparr>sy_allocators := (sy_allocators s)[j := a]\<rparr>"
  have "alloc_inv made (s\<lparr>sy_allocators := (sy_allocators s)[j := a], sy_given := (type, rid) # sy_given s\<rparr>)"
    by (rule alloc_step_inv [OF assms(1) alloc_step.get_rid [OF assms(3) got] I])
  moreover have "places (s\<lparr>sy_allocators := (sy_allocators s)[j := a], sy_given := (type, rid) # sy_given s\<rparr>) = add_mset (?i, rid) (places ?s)"
    by (simp add: places_def)
  ultimately have pl: "placed made (sy_rendering s) (add_mset (?i, rid) (places ?s))" by (simp add: alloc_inv_def)
  then have "made (sy_rendering s) rid = Some (k_rid_generators ! ?i)" by (simp add: placed_def)
  moreover have "rid \<noteq> r" if "(t, r) \<in> set (sy_given s)" for t r
  proof -
    have "(to_underlying t, r) \<in># places ?s" using that by (force simp: places_def)
    then show ?thesis using placed_once [OF pl] by blast
  qed
  then have "rid \<notin> snd ` set (sy_given s)" by fastforce
  ultimately show ?thesis using al got by (auto simp: generators_agree allocator_ok_def)
qed

text \<open>
  The counter of the requests is the number of the queued tasks, less those that are queued and not counted yet, plus
  those that returned early; it is 64 bits wide and wraps in between without harm.
\<close>

theorem requests_count_tasks:
  assumes "rendering_ok create free made" "(alloc_step create free)\<^sup>*\<^sup>* (new_alloc_system g) s"
  shows "as_requests (sy_server s) = of_nat (length (sy_tasks s) + sy_lost s) - of_nat (sy_queued s)"
  using alloc_reachable_inv [OF assms] by (simp add: alloc_inv_def eq_diff_eq)

lemma allocate_refills':
  assumes "rendering_ok create free made" "(alloc_step create free)\<^sup>*\<^sup>* (new_alloc_system g) s" "sy_tasks s \<noteq> []"
  shows "\<exists>srv g'. AllocateRIDsInternal create True (sy_server s) (sy_rendering s) = Inr (srv, g') \<and>
    (\<forall>i < k_num_alloc_types. k_max_preallocated ! i \<le> length (as_types srv ! i)) \<and> \<not> AnyRequired srv"
proof -
  have I: "alloc_inv made s" by (rule alloc_reachable_inv [OF assms(1,2)])
  obtain srv g' where run: "AllocateRIDsInternal create True (sy_server s) (sy_rendering s) = Inr (srv, g')"
    by (cases "AllocateRIDsInternal create True (sy_server s) (sy_rendering s)")
      (auto simp: AllocateRIDsInternal_def split: if_splits prod.splits)
  obtain rest where "placed made (sy_rendering s) (tagged (as_types (sy_server s)) + rest)"
    using I by (auto simp: alloc_inv_def places_def add.assoc)
  from AllocateRIDsInternal_ok [OF assms(1) _ this run] I run show ?thesis
    by (auto simp: alloc_inv_def AnyRequired_def not_less)
qed


section \<open>An example of a rendering server\<close>

type_synonym rendering_example = "nat \<times> (nat \<Rightarrow> RIDGenerator option)"

definition example_create :: "RIDGenerator \<Rightarrow> rendering_example \<Rightarrow> nat \<times> rendering_example" where
  "example_create m g = (Suc (fst g), Suc (fst g), (snd g)(Suc (fst g) := Some m))"

definition example_free :: "nat \<Rightarrow> rendering_example \<Rightarrow> rendering_example" where
  "example_free rid g = (fst g, (snd g)(rid := None))"

definition example_made :: "rendering_example \<Rightarrow> nat \<Rightarrow> RIDGenerator option" where
  "example_made g rid = (if 0 < rid \<and> rid \<le> fst g then snd g rid else None)"

lemma example_rendering_ok: "rendering_ok example_create example_free example_made"
  by (auto simp: rendering_ok_def example_create_def example_free_def example_made_def fun_eq_iff)

definition example_start :: rendering_example where
  "example_start = (0, \<lambda>_. None)"

abbreviation example_steps :: "rendering_example alloc_system \<Rightarrow> rendering_example alloc_system \<Rightarrow> bool" where
  "example_steps \<equiv> (alloc_step example_create example_free)\<^sup>*\<^sup>*"

definition two_requests :: "rendering_example alloc_system" where
  "two_requests = (new_alloc_system example_start)\<lparr>sy_tasks := [Allocate_Task, Allocate_Task],
     sy_server := new_AllocatorServer\<lparr>as_requests := 2\<rparr>\<rparr>"

lemma two_requests_reachable: "example_steps (new_alloc_system example_start) two_requests"
proof -
  let ?s0 = "new_alloc_system example_start"
  let ?s1 = "?s0\<lparr>sy_checked := 1\<rparr>" and ?s2 = "?s0\<lparr>sy_checked := 2\<rparr>"
  let ?s3 = "?s0\<lparr>sy_checked := 1, sy_tasks := [Allocate_Task], sy_queued := 1\<rparr>"
  let ?s4 = "?s0\<lparr>sy_tasks := [Allocate_Task, Allocate_Task], sy_queued := 2\<rparr>"
  let ?s5 = "?s0\<lparr>sy_tasks := [Allocate_Task, Allocate_Task], sy_queued := 1, sy_server := new_AllocatorServer\<lparr>as_requests := 1\<rparr>\<rparr>"
  note simps = new_alloc_system_def new_AllocatorServer_def two_requests_def
  have "alloc_step example_create example_free ?s0 ?s1" using alloc_step.request_check [of ?s0] by (simp add: simps)
  moreover have "alloc_step example_create example_free ?s1 ?s2" using alloc_step.request_check [of ?s1] by (simp add: simps numeral_2_eq_2)
  moreover have "alloc_step example_create example_free ?s2 ?s3" using alloc_step.request_queue [of ?s2 1] by (simp add: simps numeral_2_eq_2)
  moreover have "alloc_step example_create example_free ?s3 ?s4" using alloc_step.request_queue [of ?s3 0] by (simp add: simps numeral_2_eq_2)
  moreover have "alloc_step example_create example_free ?s4 ?s5" using alloc_step.request_count [of ?s4 1] by (simp add: simps numeral_2_eq_2)
  moreover have "alloc_step example_create example_free ?s5 two_requests" using alloc_step.request_count [of ?s5 0] by (simp add: simps)
  ultimately show ?thesis by (meson converse_rtranclp_into_rtranclp rtranclp.rtrancl_refl)
qed

theorem requests_count_tasks_witness:
  "as_requests (sy_server two_requests) = of_nat (length (sy_tasks two_requests) + sy_lost two_requests) - of_nat (sy_queued two_requests) \<and>
    length (sy_tasks two_requests) = 2"
  using requests_count_tasks [OF example_rendering_ok two_requests_reachable] by (simp add: two_requests_def)


section \<open>A new allocator\<close>

lemma get_rids_one_gives:
  assumes "get_rids_one requested i (outs, types, n) = (outs', types', n')" "i < length outs" "0 < requested ! i" "requested ! i < 2 ^ 16"
    "outs ! i = []" "types ! i \<noteq> []" "16 \<le> k_max_preallocated ! i"
  shows "outs' ! i \<noteq> []"
proof -
  define need where "need = nat ((int (requested ! i) - int (length (outs ! i))) mod 2 ^ 64)"
  define avail where "avail = length (types ! i)"
  define give where "give = min (if avail < need then avail else need) (k_max_preallocated ! i div 16)"
  have need: "0 < need" using assms(3-5) by (simp add: need_def mod_pos_pos_trivial)
  have "(outs', types', n') =
      (if need = 0 then (outs, types, n)
       else (outs[i := outs ! i @ drop (avail - give) (types ! i)], types[i := take (avail - give) (types ! i)], n + give))"
    using assms(1) unfolding get_rids_one_def Let_def prod.case need_def avail_def give_def by simp
  then have "outs' = outs[i := outs ! i @ drop (avail - give) (types ! i)]" using need by simp
  moreover have "0 < k_max_preallocated ! i div 16" using assms(7) by (simp add: div_greater_zero_iff)
  then have "0 < give" "0 < avail" using need assms(6) by (simp_all add: give_def avail_def)
  then have "avail - give < avail" by simp
  ultimately show ?thesis using assms(2) by (simp add: avail_def not_le)
qed

lemma get_rids_loop_gives:
  assumes "fold (get_rids_one requested) is (outs, types, n) = (outs', types', n')" "distinct is"
    "length outs = 34" "length types = 34"
    "\<forall>i \<in> set is. i < 34 \<and> 0 < requested ! i \<and> requested ! i < 2 ^ 16 \<and> outs ! i = [] \<and> types ! i \<noteq> [] \<and> 16 \<le> k_max_preallocated ! i"
  shows "(\<forall>i \<in> set is. outs' ! i \<noteq> []) \<and> (\<forall>j. j \<notin> set is \<longrightarrow> outs' ! j = outs ! j)"
  using assms
proof (induction "is" arbitrary: outs types n)
  case (Cons i "is")
  obtain o1 t1 n1 where one: "get_rids_one requested i (outs, types, n) = (o1, t1, n1)" by (metis prod_cases3)
  have m: "length o1 = 34" "length t1 = 34" "\<forall>j. j \<noteq> i \<longrightarrow> o1 ! j = outs ! j \<and> t1 ! j = types ! j"
    using get_rids_one_moves [OF one] Cons.prems by auto
  have "o1 ! i \<noteq> []" using get_rids_one_gives [OF one] Cons.prems by simp
  moreover have "(\<forall>k \<in> set is. outs' ! k \<noteq> []) \<and> (\<forall>j. j \<notin> set is \<longrightarrow> outs' ! j = o1 ! j)"
  proof (rule Cons.IH)
    show "\<forall>k \<in> set is. k < 34 \<and> 0 < requested ! k \<and> requested ! k < 2 ^ 16 \<and> o1 ! k = [] \<and> t1 ! k \<noteq> [] \<and> 16 \<le> k_max_preallocated ! k"
      using Cons.prems(2,5) m(3) by (metis distinct.simps(2) list.set_intros(2))
  qed (use Cons.prems one m in simp_all)
  ultimately show ?case using Cons.prems(2) m(3) by auto
qed simp

lemma max_at_least_16: "i < 34 \<Longrightarrow> 16 \<le> k_max_preallocated ! i"
proof -
  have "\<forall>k \<in> set k_max_preallocated. 16 \<le> k" by (simp add: k_max_preallocated_def)
  then show "i < 34 \<Longrightarrow> ?thesis" by (metis nth_mem table_lengths(2))
qed

lemma new_Allocator_gives:
  assumes "length (as_types srv) = 34" "\<forall>i < 34. as_types srv ! i \<noteq> []" "new_Allocator srv = (a, srv', r)" "i < 34"
  shows "al_rids a ! i \<noteq> []"
proof -
  define req where "req = map (\<lambda>i. k_max_preallocated ! i) [0..<k_num_alloc_types]"
  obtain outs types n where run: "fold (get_rids_one req) [0..<34] (replicate 34 [], as_types srv, 0) = (outs, types, n)" by (metis prod_cases3)
  have lim: "\<forall>i \<in> set [0..<34]. i < 34 \<and> 0 < req ! i \<and> req ! i < 2 ^ 16 \<and> replicate 34 [] ! i = ([] :: nat list) \<and> as_types srv ! i \<noteq> [] \<and>
      16 \<le> k_max_preallocated ! i"
    using max_positive max_at_least_16 assms(2) by (simp add: req_def)
  have "\<exists>request \<in> set req. 0 < request" using max_positive [of 0] unfolding req_def by (simp, intro bexI [of _ 0]) simp_all
  then have "GetRIDs req (replicate 34 []) srv = (outs, srv\<lparr>as_types := types\<rparr>, 0 < n)"
    using run by (simp add: GetRIDs_def)
  then have "new_Allocator srv = (\<lparr>al_rids = outs\<rparr>, srv\<lparr>as_types := types\<rparr>, 0 < n)"
    unfolding new_Allocator_def Process_def Let_def req_def [symmetric] by (simp add: empty_Allocator_def)
  then have "a = \<lparr>al_rids = outs\<rparr>" using assms(3) by simp
  then show ?thesis using get_rids_loop_gives [OF run _ _ assms(1) lim] assms(4) by simp
qed

lemma one_allocator_reachable:
  "\<exists>s. example_steps (new_alloc_system example_start) s \<and> length (sy_allocators s) = 1 \<and> (\<forall>i < 34. al_rids (sy_allocators s ! 0) ! i \<noteq> [])"
proof -
  have "sy_tasks two_requests = [Allocate_Task, Allocate_Task]" by (simp add: two_requests_def)
  from allocate_refills' [OF example_rendering_ok two_requests_reachable] this obtain srv g where
    run: "AllocateRIDsInternal example_create True (sy_server two_requests) (sy_rendering two_requests) = Inr (srv, g)"
    and full: "\<forall>i < k_num_alloc_types. k_max_preallocated ! i \<le> length (as_types srv ! i)" by auto
  let ?s1 = "two_requests\<lparr>sy_server := srv, sy_rendering := g, sy_tasks := [Allocate_Task],
      sy_lost := (if AnyRequired (sy_server two_requests) then sy_lost two_requests else sy_lost two_requests + 1)\<rparr>"
  have step: "alloc_step example_create example_free two_requests ?s1"
    by (rule alloc_step.run_allocate [OF _ run]) (simp add: two_requests_def)
  have r1: "example_steps (new_alloc_system example_start) ?s1" using two_requests_reachable step by simp
  obtain a srv' r where al: "new_Allocator srv = (a, srv', r)" by (metis prod_cases3)
  let ?s2 = "?s1\<lparr>sy_server := srv', sy_allocators := sy_allocators ?s1 @ [a]\<rparr>"
  have "alloc_step example_create example_free ?s1 ?s2"
    by (rule alloc_step.create_allocator [of _ a srv' r]) (simp add: al)
  then have "example_steps (new_alloc_system example_start) ?s2" using r1 by simp
  moreover have "length (as_types srv) = 34" using alloc_reachable_inv [OF example_rendering_ok r1] by (simp add: alloc_inv_def)
  moreover have "\<forall>i < 34. as_types srv ! i \<noteq> []" using full max_positive by (metis le_zero_eq length_0_conv not_less_zero table_lengths(3))
  ultimately show ?thesis using new_Allocator_gives [OF _ _ al] by (intro exI [of _ ?s2]) (simp add: two_requests_def new_alloc_system_def)
qed

theorem get_rid_gives_its_type_witness:
  "\<exists>s rid a. example_steps (new_alloc_system example_start) s \<and> GetRID RID_Mesh (sy_allocators s ! 0) = Inr (rid, a) \<and>
    example_made (sy_rendering s) rid = Some mesh_create"
proof -
  obtain s where s: "example_steps (new_alloc_system example_start) s" "length (sy_allocators s) = 1"
    "\<forall>i < 34. al_rids (sy_allocators s ! 0) ! i \<noteq> []" using one_allocator_reachable by blast
  from get_rid_gives_its_type [OF example_rendering_ok s(1), of 0 RID_Mesh] s show ?thesis by auto
qed

section \<open>Requests that are lost\<close>

text \<open>
  \<open>AllocateRIDsInternal\<close> returns without counting down when nothing is required. The counter then stays above 0, and
  \<open>RequestRIDs\<close> queues no task any more, whatever happens.
\<close>

lemma lost_request_reachable:
  "\<exists>s. example_steps (new_alloc_system example_start) s \<and> sy_tasks s = [] \<and> sy_checked s = 0 \<and> sy_queued s = 0 \<and>
    as_requests (sy_server s) = 1"
proof -
  have tasks: "sy_tasks two_requests = [Allocate_Task, Allocate_Task]" by (simp add: two_requests_def)
  from allocate_refills' [OF example_rendering_ok two_requests_reachable] this obtain srv g where
    run: "AllocateRIDsInternal example_create True (sy_server two_requests) (sy_rendering two_requests) = Inr (srv, g)"
    and full: "\<not> AnyRequired srv" by auto
  let ?s1 = "two_requests\<lparr>sy_server := srv, sy_rendering := g, sy_tasks := [Allocate_Task],
      sy_lost := (if AnyRequired (sy_server two_requests) then sy_lost two_requests else sy_lost two_requests + 1)\<rparr>"
  let ?s2 = "?s1\<lparr>sy_server := srv, sy_rendering := g, sy_tasks := [],
      sy_lost := (if AnyRequired (sy_server ?s1) then sy_lost ?s1 else sy_lost ?s1 + 1)\<rparr>"
  have "alloc_step example_create example_free two_requests ?s1" by (rule alloc_step.run_allocate [OF tasks run])
  moreover have "alloc_step example_create example_free ?s1 ?s2"
    by (rule alloc_step.run_allocate) (simp_all add: AllocateRIDsInternal_def full)
  ultimately have "example_steps (new_alloc_system example_start) ?s2" using two_requests_reachable by simp
  moreover have "0 < length (as_types (sy_server two_requests))" "AnyRequired (sy_server two_requests)"
    using max_positive [of 0] by (auto simp: AnyRequired_def two_requests_def new_AllocatorServer_def intro!: bexI [of _ 0])
  then have "as_requests srv = 1" using run by (auto simp: AllocateRIDsInternal_def two_requests_def split: prod.splits)
  ultimately show ?thesis by (intro exI [of _ ?s2]) (simp add: two_requests_def new_alloc_system_def)
qed

lemma Process_requests: "Process a srv = (a', srv', r) \<Longrightarrow> as_requests srv' = as_requests srv"
  by (auto simp: Process_def GetRIDs_def Let_def split: if_splits prod.splits)

lemma destroy_requests: "as_requests (destroy_Allocator a srv) = as_requests srv"
  by (simp add: destroy_Allocator_def FreeRIDs_def split: prod.splits)

lemma lost_request_stays:
  assumes "alloc_step create free s s'" "sy_tasks s = []" "sy_checked s = 0" "sy_queued s = 0" "as_requests (sy_server s) \<noteq> 0"
  shows "sy_tasks s' = [] \<and> sy_checked s' = 0 \<and> sy_queued s' = 0 \<and> as_requests (sy_server s') = as_requests (sy_server s)"
  using assms
  by (induction rule: alloc_step.induct) (auto simp: Process_requests destroy_requests new_Allocator_def)

text \<open>In a debug build the fallback of \<open>EnsureRID\<close> is never reached: \<open>GetRID\<close> has failed before.\<close>

lemma ensure_rid_without_fallback: "al_rids a ! to_underlying t = [] \<Longrightarrow> EnsureRID t a = Inl Assertion"
  by (simp add: EnsureRID_def GetRID_def)

text \<open>The objects of a pool that \<open>DeallocateRIDsInternal\<close> has freed stay in the pool.\<close>

lemma freed_objects_stay: "DeallocateRIDsInternal free True srv g = Inr (srv', g') \<Longrightarrow> as_types srv' = as_types srv"
  by (auto simp: DeallocateRIDsInternal_def)

text \<open>As long as all pools are empty nothing is given, and nothing is requested either.\<close>

lemma nothing_given_nothing_requested:
  assumes "\<forall>i < 34. as_types srv ! i = []" "length (al_rids a) = 34"
  shows "snd (snd (Process a srv)) = False"
proof -
  have one: "snd (snd (get_rids_one req i (outs, types, n))) = n \<and> (\<forall>k < 34. fst (snd (get_rids_one req i (outs, types, n))) ! k = [])"
    if "\<forall>k < 34. types ! k = []" "i < 34" for req i n and outs types :: "nat list list"
    using that by (cases "i < length types") (auto simp: get_rids_one_def Let_def nth_list_update list_update_beyond)
  have "snd (snd (fold (get_rids_one req) is (outs, types, n))) = n"
    if "\<forall>k < 34. types ! k = []" "\<forall>i \<in> set is. i < 34" for req "is" n and outs types :: "nat list list"
    using that
  proof (induction "is" arbitrary: outs types n)
    case (Cons i "is")
    obtain o1 t1 n1 where e: "get_rids_one req i (outs, types, n) = (o1, t1, n1)" by (metis prod_cases3)
    then have "n1 = n" "\<forall>k < 34. t1 ! k = []" using one [of types i req outs n] Cons.prems by auto
    then show ?case using Cons.IH [of t1 o1 n] Cons.prems(2) e by simp
  qed simp
  from this [OF assms(1), of "[0..<34]"] assms(2) show ?thesis
    by (auto simp: Process_def GetRIDs_def Let_def split: prod.splits) (metis snd_conv not_less_zero)+
qed

text \<open>Alone, the three steps of a request are \<open>RequestRIDs\<close>.\<close>

lemma request_steps_alone:
  assumes "RequestRIDs (sy_server s) (sy_tasks s) = (srv, tasks)" "sy_checked s = 0" "sy_queued s = 0"
  shows "(alloc_step create free)\<^sup>*\<^sup>* s (s\<lparr>sy_server := srv, sy_tasks := tasks\<rparr>)"
proof (cases "as_requests (sy_server s) = 0")
  case False
  then show ?thesis using assms(1) by (simp add: RequestRIDs_def) (cases s, auto)
next
  case True
  let ?s1 = "s\<lparr>sy_checked := 1\<rparr>"
  let ?s2 = "s\<lparr>sy_checked := 0, sy_tasks := sy_tasks s @ [Allocate_Task], sy_queued := 1\<rparr>"
  have "alloc_step create free s ?s1" using alloc_step.request_check [of s] True assms(2) by simp
  moreover have "alloc_step create free ?s1 ?s2" using alloc_step.request_queue [of ?s1 0] assms(3) by simp
  moreover have "alloc_step create free ?s2 (s\<lparr>sy_server := srv, sy_tasks := tasks\<rparr>)"
    using alloc_step.request_count [of ?s2 0] assms True by (cases s) (auto simp: RequestRIDs_def)
  ultimately show ?thesis by (meson converse_rtranclp_into_rtranclp rtranclp.rtrancl_refl)
qed

text \<open>After a lost request the destructor waits for ever: when its task has run the counter is still above 0.\<close>

lemma destructor_waits:
  assumes "as_requests srv = 1" "destroy_AllocatorServer srv [] = (srv1, tasks)"
    "DeallocateRIDsInternal free True srv1 g = Inr (srv2, g')"
  shows "tasks = [Deallocate_Task] \<and> \<not> destructor_done srv2"
  using assms by (auto simp: destroy_AllocatorServer_def DeallocateRIDsInternal_def destructor_done_def)

end
