(* ===== verification/SimulationServer.thy ===== *)
theory SimulationServer
  imports CommandFlow Complex_Main
begin

text \<open>
  \<open>src/Simulation/SimulationServer.h\<close> and \<open>SimulationServer.cpp\<close>: an object that runs a simulation, either on the thread that
  owns it or on a worker thread of its own, with commands going one way and signals the other.

  The two threads share the atomic \<open>m_state\<close>, the deferred commands (under their mutex), and \<open>m_thread\<close>. Each thread is a
  program counter, and what it does between two accesses to what they share is one step; the steps of the two threads
  interleave in any order. The accesses to \<open>m_state\<close> are sequentially consistent.

  The methods that the derived class overrides are parameters: what each does to the simulation, a state of type \<open>'u\<close>,
  and which signals it queues, in order. \<open>'m\<close> names the methods of commands and the signals, \<open>'a\<close> their arguments. Emitting a
  signal writes it to a log.
\<close>

section \<open>State\<close>

datatype SimulationState = Unloaded | Loading | Loaded | Unloading

datatype ThreadMode = THREAD_MODE_SINGLE_THREADED | THREAD_MODE_MULTI_THREADED

text \<open>\<open>ss_thread\<close> tells whether \<open>m_thread\<close> is joinable.\<close>

record ('m, 'a) SimulationServer =
  ss_thread :: bool
  ss_state :: SimulationState
  ss_deferred_commands :: "('m, 'a) TCommandBuffer"
  ss_deferred_signals :: "('m, 'a) TCommandBuffer"

definition new_SimulationServer :: "('m, 'a) SimulationServer" where
  "new_SimulationServer =
     \<lparr>ss_thread = False, ss_state = Unloaded, ss_deferred_commands = tcmd_new, ss_deferred_signals = tcmd_new\<rparr>"

definition IsThreaded :: "('m, 'a) SimulationServer \<Rightarrow> bool" where
  "IsThreaded srv = ss_thread srv"

record ('m, 'a, 'u) sim_methods =
  CanSimulationStart :: "'u \<Rightarrow> bool"
  DoSimulationLoad :: "'u \<Rightarrow> 'u \<times> ('m \<times> 'a) list"
  DoSimulationUnload :: "'u \<Rightarrow> 'u \<times> ('m \<times> 'a) list"
  DoSimulationProgress :: "bool \<Rightarrow> real \<Rightarrow> 'u \<Rightarrow> 'u \<times> ('m \<times> 'a) list"
  DoSimulationThreadProgress :: "'u \<Rightarrow> 'u \<times> ('m \<times> 'a) list"
  do_command :: "'m \<Rightarrow> 'a \<Rightarrow> 'u \<Rightarrow> 'u \<times> ('m \<times> 'a) list"

text \<open>The surroundings: the overridden methods, the sizes in buffers, and the ids of this object and of the rendering server.\<close>

record ('m, 'a, 'u) sim_env =
  en_methods :: "('m, 'a, 'u) sim_methods"
  en_layout :: layout
  en_tlayout :: "'m tlayout"
  en_instance_id :: nat
  en_rendering_id :: nat

text \<open>What the threads do next. The owner is inside a method it was called for, \<open>continuation\<close> telling which.\<close>

datatype continuation = After_Stop | After_Wait | After_Start ThreadMode

datatype owner_pc =
    Idle
  | Stop_Check continuation
  | Stop_Store continuation
  | Join continuation
  | Start_Begin ThreadMode
  | Start_Assign
  | Progress_Check real
  | Progress_Run real

datatype ('m, 'a) worker_pc =
    No_Thread
  | Loop_Entry
  | Loop_Load
  | Loop_Loaded
  | Loop_Test
  | Loop_Take
  | Loop_Process "('m, 'a) TCommandBuffer"
  | Loop_Progress
  | Loop_Flush
  | Loop_Unload
  | Loop_Unloaded
  | Finished

datatype caller = Owner | Worker

datatype ('m, 'a) sim_call =
    Load_Call
  | Unload_Call
  | Progress_Call real
  | Thread_Progress_Call
  | Command_Call 'm 'a

text \<open>
  The whole system. \<open>y_calls\<close>, \<open>y_deferred\<close> and \<open>y_queued\<close> only record what happened: the calls into the
  simulation with the thread they were made on, the commands that were accepted, and the signals that were queued.
\<close>

type_synonym ('m, 'a, 'p) signal_server = "('p GodotCommandBuffer, ('m, 'a) TCommandBuffer) CommandBufferEntry CommandServer"

record ('m, 'a, 'u, 'p) sim_system =
  y_server :: "('m, 'a) SimulationServer"
  y_owner :: owner_pc
  y_worker :: "('m, 'a) worker_pc"
  y_simulation :: 'u
  y_command_server :: "('m, 'a, 'p) signal_server"
  y_emitted :: "('m \<times> 'a) list"
  y_calls :: "(caller \<times> ('m, 'a) sim_call) list"
  y_deferred :: "('m \<times> 'a) list"
  y_queued :: "('m \<times> 'a) list"

definition new_sim_system :: "'u \<Rightarrow> ('m, 'a, 'u, 'p) sim_system" where
  "new_sim_system u =
     \<lparr>y_server = new_SimulationServer, y_owner = Idle, y_worker = No_Thread, y_simulation = u,
      y_command_server = \<lparr>m_state = new_State, m_rendering_state = new_State\<rparr>, y_emitted = [], y_calls = [],
      y_deferred = [], y_queued = []\<rparr>"

section \<open>Signals and commands\<close>

text \<open>The worker is the thread of \<open>m_thread\<close> once the handle is assigned.\<close>

definition on_worker :: "caller \<Rightarrow> ('m, 'a) SimulationServer \<Rightarrow> bool" where
  "on_worker c srv \<longleftrightarrow> c = Worker \<and> ss_thread srv"

definition emit_log :: "nat \<Rightarrow> 'm \<Rightarrow> 'a \<Rightarrow> ('m \<times> 'a) list \<Rightarrow> ('m \<times> 'a) list" where
  "emit_log obj m a out = out @ [(m, a)]"

definition QueueSignal ::
    "('m, 'a, 'u) sim_env \<Rightarrow> caller \<Rightarrow> 'm \<Rightarrow> 'a \<Rightarrow> ('m, 'a, 'u, 'p) sim_system \<Rightarrow> ('m, 'a, 'u, 'p) sim_system res" where
  "QueueSignal E c m a s =
     (let srv = y_server s; s1 = s\<lparr>y_queued := y_queued s @ [(m, a)]\<rparr>
      in if \<not> (\<not> IsThreaded srv \<or> on_worker c srv) then Inl Assertion
         else if IsThreaded srv
         then rbind (TAddCommand (en_tlayout E) m a (ss_deferred_signals srv)) (\<lambda>b.
                Inr (s1\<lparr>y_server := srv\<lparr>ss_deferred_signals := b\<rparr>\<rparr>))
         else Inr (s1\<lparr>y_emitted := emit_log (en_instance_id E) m a (y_emitted s)\<rparr>))"

definition DeferCommand ::
    "('m, 'a, 'u) sim_env \<Rightarrow> caller \<Rightarrow> 'm \<Rightarrow> 'a \<Rightarrow> ('m, 'a, 'u, 'p) sim_system \<Rightarrow> (bool \<times> ('m, 'a, 'u, 'p) sim_system) res" where
  "DeferCommand E c m a s =
     (let srv = y_server s
      in if IsThreaded srv \<and> \<not> on_worker c srv
         then rbind (TAddCommand (en_tlayout E) m a (ss_deferred_commands srv)) (\<lambda>b.
                Inr (True, s\<lparr>y_server := srv\<lparr>ss_deferred_commands := b\<rparr>, y_deferred := y_deferred s @ [(m, a)]\<rparr>))
         else Inr (False, s))"

text \<open>A call into the simulation: the overridden method runs, then its signals are queued.\<close>

definition run_method :: "('m, 'a, 'u) sim_env \<Rightarrow> ('m, 'a) sim_call \<Rightarrow> bool \<Rightarrow> 'u \<Rightarrow> 'u \<times> ('m \<times> 'a) list" where
  "run_method E call threaded u =
     (case call of
        Load_Call \<Rightarrow> DoSimulationLoad (en_methods E) u
      | Unload_Call \<Rightarrow> DoSimulationUnload (en_methods E) u
      | Progress_Call delta \<Rightarrow> DoSimulationProgress (en_methods E) threaded delta u
      | Thread_Progress_Call \<Rightarrow> DoSimulationThreadProgress (en_methods E) u
      | Command_Call m a \<Rightarrow> do_command (en_methods E) m a u)"

definition sim_call ::
    "('m, 'a, 'u) sim_env \<Rightarrow> caller \<Rightarrow> ('m, 'a) sim_call \<Rightarrow> ('m, 'a, 'u, 'p) sim_system \<Rightarrow> ('m, 'a, 'u, 'p) sim_system res" where
  "sim_call E c call s =
     (let (u, signals) = run_method E call (IsThreaded (y_server s)) (y_simulation s)
      in rfold (\<lambda>(m, a). QueueSignal E c m a) signals (s\<lparr>y_simulation := u, y_calls := y_calls s @ [(c, call)]\<rparr>))"

section \<open>The owner\<close>

definition set_state :: "SimulationState \<Rightarrow> ('m, 'a, 'u, 'p) sim_system \<Rightarrow> ('m, 'a, 'u, 'p) sim_system" where
  "set_state st s = s\<lparr>y_server := (y_server s)\<lparr>ss_state := st\<rparr>\<rparr>"

text \<open>Where the owner goes on when \<open>StopSimulation\<close> and \<open>WaitUntilStopped\<close> return.\<close>

fun after_stop :: "continuation \<Rightarrow> owner_pc" where
  "after_stop After_Stop = Idle"
| "after_stop c = Join c"

fun after_wait :: "continuation \<Rightarrow> owner_pc" where
  "after_wait (After_Start mode) = Start_Begin mode"
| "after_wait c = Idle"

definition StopSimulation_check :: "continuation \<Rightarrow> ('m, 'a, 'u, 'p) sim_system \<Rightarrow> ('m, 'a, 'u, 'p) sim_system" where
  "StopSimulation_check c s =
     (if ss_state (y_server s) \<noteq> Loaded then s\<lparr>y_owner := after_stop c\<rparr> else s\<lparr>y_owner := Stop_Store c\<rparr>)"

definition StopSimulation_store ::
    "('m, 'a, 'u) sim_env \<Rightarrow> continuation \<Rightarrow> ('m, 'a, 'u, 'p) sim_system \<Rightarrow> ('m, 'a, 'u, 'p) sim_system res" where
  "StopSimulation_store E c s =
     (let s1 = set_state Unloading s
      in if \<not> IsThreaded (y_server s1)
         then rbind (sim_call E Owner Unload_Call s1) (\<lambda>s2. Inr ((set_state Unloaded s2)\<lparr>y_owner := after_stop c\<rparr>))
         else Inr (s1\<lparr>y_owner := after_stop c\<rparr>))"

text \<open>The join in \<open>WaitUntilStopped\<close>; \<open>None\<close> as long as it blocks.\<close>

definition WaitUntilStopped_join :: "continuation \<Rightarrow> ('m, 'a, 'u, 'p) sim_system \<Rightarrow> ('m, 'a, 'u, 'p) sim_system option" where
  "WaitUntilStopped_join c s =
     (if IsThreaded (y_server s)
      then if y_worker s = Finished
           then Some (s\<lparr>y_server := (y_server s)\<lparr>ss_thread := False\<rparr>, y_worker := No_Thread, y_owner := after_wait c\<rparr>)
           else None
      else Some (s\<lparr>y_owner := after_wait c\<rparr>))"

text \<open>The rest of \<open>StartSimulation\<close>. The new thread runs before its handle is assigned to \<open>m_thread\<close>.\<close>

definition StartSimulation_begin ::
    "('m, 'a, 'u) sim_env \<Rightarrow> ThreadMode \<Rightarrow> ('m, 'a, 'u, 'p) sim_system \<Rightarrow> ('m, 'a, 'u, 'p) sim_system res" where
  "StartSimulation_begin E mode s =
     (if \<not> CanSimulationStart (en_methods E) (y_simulation s) then Inr (s\<lparr>y_owner := Idle\<rparr>)
      else
        let s1 = set_state Loading s
        in if mode = THREAD_MODE_MULTI_THREADED
           then Inr (s1\<lparr>y_worker := Loop_Entry, y_owner := Start_Assign\<rparr>)
           else rbind (sim_call E Owner Load_Call s1) (\<lambda>s2. Inr ((set_state Loaded s2)\<lparr>y_owner := Idle\<rparr>)))"

definition StartSimulation_assign :: "('m, 'a, 'u, 'p) sim_system \<Rightarrow> ('m, 'a, 'u, 'p) sim_system" where
  "StartSimulation_assign s = s\<lparr>y_server := (y_server s)\<lparr>ss_thread := True\<rparr>, y_owner := Idle\<rparr>"

definition Progress_check :: "real \<Rightarrow> ('m, 'a, 'u, 'p) sim_system \<Rightarrow> ('m, 'a, 'u, 'p) sim_system" where
  "Progress_check delta s =
     (if ss_state (y_server s) = Loaded then s\<lparr>y_owner := Progress_Run delta\<rparr> else s\<lparr>y_owner := Idle\<rparr>)"

definition owner_step ::
    "('m, 'a, 'u) sim_env \<Rightarrow> ('m, 'a, 'u, 'p) sim_system \<Rightarrow> ('m, 'a, 'u, 'p) sim_system res option" where
  "owner_step E s =
     (case y_owner s of
        Idle \<Rightarrow> None
      | Stop_Check c \<Rightarrow> Some (Inr (StopSimulation_check c s))
      | Stop_Store c \<Rightarrow> Some (StopSimulation_store E c s)
      | Join c \<Rightarrow> map_option Inr (WaitUntilStopped_join c s)
      | Start_Begin mode \<Rightarrow> Some (StartSimulation_begin E mode s)
      | Start_Assign \<Rightarrow> Some (Inr (StartSimulation_assign s))
      | Progress_Check delta \<Rightarrow> Some (Inr (Progress_check delta s))
      | Progress_Run delta \<Rightarrow>
          Some (rbind (sim_call E Owner (Progress_Call delta) s) (\<lambda>s1. Inr (s1\<lparr>y_owner := Idle\<rparr>))))"

section \<open>The worker\<close>

definition ThreadLoop_entry :: "('m, 'a, 'u, 'p) sim_system \<Rightarrow> ('m, 'a, 'u, 'p) sim_system res" where
  "ThreadLoop_entry s = (if \<not> on_worker Worker (y_server s) then Inl Assertion else Inr (s\<lparr>y_worker := Loop_Load\<rparr>))"

definition ThreadLoop_test :: "('m, 'a, 'u, 'p) sim_system \<Rightarrow> ('m, 'a, 'u, 'p) sim_system" where
  "ThreadLoop_test s = s\<lparr>y_worker := (if ss_state (y_server s) = Loaded then Loop_Take else Loop_Unload)\<rparr>"

text \<open>The deferred commands are moved into a new buffer under the mutex.\<close>

definition ThreadLoop_take ::
    "('m, 'a, 'u) sim_env \<Rightarrow> ('m, 'a, 'u, 'p) sim_system \<Rightarrow> ('m, 'a, 'u, 'p) sim_system res" where
  "ThreadLoop_take E s =
     rbind (tcmd_move (en_tlayout E) tcmd_new (ss_deferred_commands (y_server s))) (\<lambda>(b, rest).
       Inr (s\<lparr>y_server := (y_server s)\<lparr>ss_deferred_commands := rest\<rparr>, y_worker := Loop_Process b\<rparr>))"

text \<open>The commands run on the worker, and the local buffer is cleared when it goes out of scope.\<close>

definition ThreadLoop_process ::
    "('m, 'a, 'u) sim_env \<Rightarrow> ('m, 'a) TCommandBuffer \<Rightarrow> ('m, 'a, 'u, 'p) sim_system \<Rightarrow> ('m, 'a, 'u, 'p) sim_system res" where
  "ThreadLoop_process E b s =
     rbind (ProcessCommandsUntyped (en_tlayout E) (\<lambda>m a r. rbind r (sim_call E Worker (Command_Call m a)))
             k_process_all_commands b (Inr s)) (\<lambda>(_, b', r).
     rbind (TClear (en_tlayout E) b') (\<lambda>_.
     rbind r (\<lambda>s'. Inr (s'\<lparr>y_worker := Loop_Progress\<rparr>))))"

text \<open>\<open>CommandServer::AddCommands\<close> wraps the buffer in an entry.\<close>

definition AddCommands ::
    "('m, 'a, 'u) sim_env \<Rightarrow> int \<Rightarrow> nat \<Rightarrow> ('m, 'a) TCommandBuffer \<Rightarrow> ('m, 'a, 'p) signal_server \<Rightarrow> ('m, 'a, 'p) signal_server res" where
  "AddCommands E time object_id b =
     AddCommandBuffer (server_methods (en_layout E) (en_tlayout E) (\<lambda>_ _ _ st. st) emit_log) (en_rendering_id E) time object_id
       (TypedEntry b)"

definition ThreadLoop_flush ::
    "('m, 'a, 'u) sim_env \<Rightarrow> int \<Rightarrow> ('m, 'a, 'u, 'p) sim_system \<Rightarrow> ('m, 'a, 'u, 'p) sim_system res" where
  "ThreadLoop_flush E time s =
     (if TNumCommands (ss_deferred_signals (y_server s)) > 0
      then rbind (tcmd_move (en_tlayout E) tcmd_new (ss_deferred_signals (y_server s))) (\<lambda>(b, rest).
           rbind (AddCommands E time (en_instance_id E) b (y_command_server s)) (\<lambda>cs.
             Inr (s\<lparr>y_server := (y_server s)\<lparr>ss_deferred_signals := rest\<rparr>, y_command_server := cs, y_worker := Loop_Test\<rparr>)))
      else Inr (s\<lparr>y_worker := Loop_Test\<rparr>))"

definition ThreadLoop ::
    "('m, 'a, 'u) sim_env \<Rightarrow> int \<Rightarrow> ('m, 'a, 'u, 'p) sim_system \<Rightarrow> ('m, 'a, 'u, 'p) sim_system res option" where
  "ThreadLoop E time s =
     (case y_worker s of
        No_Thread \<Rightarrow> None
      | Loop_Entry \<Rightarrow> Some (ThreadLoop_entry s)
      | Loop_Load \<Rightarrow> Some (rbind (sim_call E Worker Load_Call s) (\<lambda>s1. Inr (s1\<lparr>y_worker := Loop_Loaded\<rparr>)))
      | Loop_Loaded \<Rightarrow> Some (Inr ((set_state Loaded s)\<lparr>y_worker := Loop_Test\<rparr>))
      | Loop_Test \<Rightarrow> Some (Inr (ThreadLoop_test s))
      | Loop_Take \<Rightarrow> Some (ThreadLoop_take E s)
      | Loop_Process b \<Rightarrow> Some (ThreadLoop_process E b s)
      | Loop_Progress \<Rightarrow> Some (rbind (sim_call E Worker Thread_Progress_Call s) (\<lambda>s1. Inr (s1\<lparr>y_worker := Loop_Flush\<rparr>)))
      | Loop_Flush \<Rightarrow> Some (ThreadLoop_flush E time s)
      | Loop_Unload \<Rightarrow> Some (rbind (sim_call E Worker Unload_Call s) (\<lambda>s1. Inr (s1\<lparr>y_worker := Loop_Unloaded\<rparr>)))
      | Loop_Unloaded \<Rightarrow> Some (Inr ((set_state Unloaded s)\<lparr>y_worker := Finished\<rparr>))
      | Finished \<Rightarrow> None)"

section \<open>The system\<close>

text \<open>
  The owner calls a method when it is in none; any other thread can defer a command at any time. A command of the owner that is not
  deferred runs at once, as the methods of the derived class do it; the step is there for a loaded simulation only, the code does not
  check this. The main thread flushes the queue of the
  command server, with fuel for every command that is counted. \<open>modes\<close> are the thread modes that are used.
\<close>

inductive sim_step ::
    "('m, 'a, 'u) sim_env \<Rightarrow> ThreadMode set \<Rightarrow> ('m, 'a, 'u, 'p) sim_system \<Rightarrow> ('m, 'a, 'u, 'p) sim_system \<Rightarrow> bool"
  for E modes where
  call_start: "y_owner s = Idle \<Longrightarrow> mode \<in> modes \<Longrightarrow> sim_step E modes s (s\<lparr>y_owner := Stop_Check (After_Start mode)\<rparr>)"
| call_stop: "y_owner s = Idle \<Longrightarrow> sim_step E modes s (s\<lparr>y_owner := Stop_Check After_Stop\<rparr>)"
| call_wait: "y_owner s = Idle \<Longrightarrow> sim_step E modes s (s\<lparr>y_owner := Stop_Check After_Wait\<rparr>)"
| call_progress: "y_owner s = Idle \<Longrightarrow> sim_step E modes s (s\<lparr>y_owner := Progress_Check delta\<rparr>)"
| defer_command: "DeferCommand E Owner m a s = Inr (True, s') \<Longrightarrow> sim_step E modes s s'"
| run_command: "y_owner s = Idle \<Longrightarrow> DeferCommand E Owner m a s = Inr (False, s1) \<Longrightarrow> ss_state (y_server s1) = Loaded \<Longrightarrow>
    sim_call E Owner (Command_Call m a) s1 = Inr s' \<Longrightarrow> sim_step E modes s s'"
| owner: "owner_step E s = Some (Inr s') \<Longrightarrow> sim_step E modes s s'"
| worker: "ThreadLoop E time s = Some (Inr s') \<Longrightarrow> sim_step E modes s s'"
| flush: "y_owner s = Idle \<Longrightarrow>
    FlushState (server_methods (en_layout E) (en_tlayout E) (\<lambda>_ _ _ st. st) emit_log) (\<lambda>_ _. True) None max_time start
      (Suc (s_num_commands (m_state (y_command_server s)))) now
      (\<lambda>_. []) (m_state (y_command_server s)) (y_emitted s) = Inr (Some (k, cs, emitted)) \<Longrightarrow>
    sim_step E modes s (s\<lparr>y_command_server := (y_command_server s)\<lparr>m_state := cs\<rparr>, y_emitted := emitted\<rparr>)"

end
