(* ===== verification/SimulationProps.thy ===== *)
theory SimulationProps
  imports SimulationServer
begin

text \<open>
  A simulation on its own thread: the two threads never fail but for the race at the thread's start, calls into the simulation
  come between its load and its unload, commands and signals keep their order.
\<close>

section \<open>What the calls must look like\<close>

text \<open>\<open>Some True\<close>: the simulation is loaded, \<open>Some False\<close>: it is not, \<open>None\<close>: a call came at the wrong time.\<close>

fun life_step :: "('m, 'a) sim_call \<Rightarrow> bool option \<Rightarrow> bool option" where
  "life_step Load_Call (Some False) = Some True"
| "life_step Unload_Call (Some True) = Some False"
| "life_step (Progress_Call d) (Some True) = Some True"
| "life_step Thread_Progress_Call (Some True) = Some True"
| "life_step (Command_Call m a) (Some True) = Some True"
| "life_step call l = None"

definition lifecycle :: "(caller \<times> ('m, 'a) sim_call) list \<Rightarrow> bool option" where
  "lifecycle calls = fold (\<lambda>(c, call). life_step call) calls (Some False)"

definition commands_run :: "(caller \<times> ('m, 'a) sim_call) list \<Rightarrow> ('m \<times> 'a) list" where
  "commands_run calls = concat (map (\<lambda>(c, call). case call of Command_Call m a \<Rightarrow> if c = Worker then [(m, a)] else [] | _ \<Rightarrow> []) calls)"

lemma lifecycle_simps [simp]:
  "lifecycle [] = Some False" "lifecycle (calls @ [(c, call)]) = life_step call (lifecycle calls)"
  by (simp_all add: lifecycle_def)

lemma commands_run_simps [simp]:
  "commands_run [] = []" "commands_run (xs @ ys) = commands_run xs @ commands_run ys"
  by (simp_all add: commands_run_def)

lemma lifecycle_commands: "lifecycle calls = Some True \<Longrightarrow> lifecycle (calls @ map (\<lambda>(m, a). (c, Command_Call m a)) cs) = Some True"
  by (induction cs rule: rev_induct) (auto simp: append_assoc [symmetric] simp del: append_assoc)

lemma commands_run_commands [simp]: "commands_run (map (\<lambda>(m, a). (Worker, Command_Call m a)) cs) = cs"
  by (induction cs) (auto simp: commands_run_def)

section \<open>A call\<close>

text \<open>What a call changes.\<close>

definition called ::
    "('m, 'a, 'u, 'p) sim_system \<Rightarrow> ('m, 'a) TCommandBuffer \<Rightarrow> 'u \<Rightarrow> ('m \<times> 'a) list \<Rightarrow> (caller \<times> ('m, 'a) sim_call) list \<Rightarrow>
     ('m, 'a, 'u, 'p) sim_system" where
  "called s b u signals calls =
     s\<lparr>y_server := (y_server s)\<lparr>ss_deferred_signals := b\<rparr>, y_simulation := u,
       y_emitted := y_emitted s @ (if IsThreaded (y_server s) then [] else signals), y_calls := y_calls s @ calls,
       y_queued := y_queued s @ signals\<rparr>"

lemma called_fields [simp]:
  "ss_thread (y_server (called s b u sig calls)) = ss_thread (y_server s)"
  "ss_state (y_server (called s b u sig calls)) = ss_state (y_server s)"
  "ss_deferred_commands (y_server (called s b u sig calls)) = ss_deferred_commands (y_server s)"
  "ss_deferred_signals (y_server (called s b u sig calls)) = b"
  "y_owner (called s b u sig calls) = y_owner s" "y_worker (called s b u sig calls) = y_worker s"
  "y_command_server (called s b u sig calls) = y_command_server s"
  "y_emitted (called s b u sig calls) = y_emitted s @ (if ss_thread (y_server s) then [] else sig)"
  "y_calls (called s b u sig calls) = y_calls s @ calls" "y_deferred (called s b u sig calls) = y_deferred s"
  "y_queued (called s b u sig calls) = y_queued s @ sig" "y_simulation (called s b u sig calls) = u"
  by (simp_all add: called_def IsThreaded_def)

lemma called_called: "called (called s b u sig calls) b' u' sig' calls' = called s b' u' (sig @ sig') (calls @ calls')"
  by (simp add: called_def IsThreaded_def)

definition signals_ok :: "('m, 'a, 'u) sim_env \<Rightarrow> ('m, 'a) TCommandBuffer \<Rightarrow> ('m \<times> 'a) list \<Rightarrow> bool" where
  "signals_ok E b qs \<longleftrightarrow> tcmd_rep (en_tlayout E) b qs \<and> t_start b = 0"

lemma TAddCommand_ok:
  assumes "signals_ok E b qs"
  obtains b' where "TAddCommand (en_tlayout E) m a b = Inr b'" "signals_ok E b' (qs @ [(m, a)])"
proof -
  have "TAddCommand (en_tlayout E) m a b = Inr (b\<lparr>t_data := t_data b @ DefaultCommand_Write (en_tlayout E) m a,
      t_num_commands := t_num_commands b + 1\<rparr>)"
    using assms by (simp add: TAddCommand_def signals_ok_def)
  moreover have "signals_ok E (b\<lparr>t_data := t_data b @ DefaultCommand_Write (en_tlayout E) m a,
      t_num_commands := t_num_commands b + 1\<rparr>) (qs @ [(m, a)])"
    using assms by (auto simp: signals_ok_def tcmd_rep_def DefaultCommand_Write_def)
  ultimately show thesis by (rule that)
qed

lemma QueueSignals_ok:
  assumes "signals_ok E (ss_deferred_signals (y_server s)) qs" "\<not> IsThreaded (y_server s) \<or> on_worker c (y_server s)"
  shows "\<exists>b. rfold (\<lambda>(m, a). QueueSignal E c m a) sig s = Inr (called s b (y_simulation s) sig []) \<and>
    signals_ok E b (if ss_thread (y_server s) then qs @ sig else qs)"
  using assms
proof (induction sig arbitrary: s qs)
  case Nil
  then show ?case by (intro exI [of _ "ss_deferred_signals (y_server s)"]) (simp add: called_def)
next
  case (Cons x sig)
  obtain m a where x: "x = (m, a)" by (cases x)
  let ?qs = "if ss_thread (y_server s) then qs @ [(m, a)] else qs"
  obtain b where b: "QueueSignal E c m a s = Inr (called s b (y_simulation s) [(m, a)] [])" "signals_ok E b ?qs"
  proof (cases "ss_thread (y_server s)")
    case True
    from TAddCommand_ok [OF Cons.prems(1), of m a] obtain b where
      "TAddCommand (en_tlayout E) m a (ss_deferred_signals (y_server s)) = Inr b" "signals_ok E b (qs @ [(m, a)])" .
    then show ?thesis
      using that [of b] True Cons.prems(2) by (simp add: QueueSignal_def Let_def called_def IsThreaded_def)
  next
    case False
    then show ?thesis
      using that [of "ss_deferred_signals (y_server s)"] Cons.prems(1)
      by (simp add: QueueSignal_def Let_def called_def IsThreaded_def emit_log_def)
  qed
  let ?s = "called s b (y_simulation s) [(m, a)] []"
  have "\<not> IsThreaded (y_server ?s) \<or> on_worker c (y_server ?s)" using Cons.prems(2) by (simp add: IsThreaded_def on_worker_def)
  from Cons.IH [OF _ this, of ?qs] b obtain b' where
    "rfold (\<lambda>(m, a). QueueSignal E c m a) sig ?s = Inr (called ?s b' (y_simulation s) sig [])"
    "signals_ok E b' (if ss_thread (y_server s) then ?qs @ sig else ?qs)" by auto
  then show ?case using b by (intro exI [of _ b']) (auto simp: x called_called split: if_splits)
qed

lemma sim_call_ok:
  assumes "signals_ok E (ss_deferred_signals (y_server s)) qs"
    and "\<not> IsThreaded (y_server s) \<or> on_worker c (y_server s) \<or> snd (run_method E call (IsThreaded (y_server s)) (y_simulation s)) = []"
  shows "\<exists>b u sig. sim_call E c call s = Inr (called s b u sig [(c, call)]) \<and>
    signals_ok E b (if ss_thread (y_server s) then qs @ sig else qs)"
proof -
  obtain u sig where r: "run_method E call (IsThreaded (y_server s)) (y_simulation s) = (u, sig)" by (cases "run_method E call (IsThreaded (y_server s)) (y_simulation s)")
  let ?s = "s\<lparr>y_simulation := u, y_calls := y_calls s @ [(c, call)]\<rparr>"
  show ?thesis
  proof (cases "sig = []")
    case True
    then show ?thesis using r assms(1)
      by (intro exI [of _ "ss_deferred_signals (y_server s)"] exI [of _ u] exI [of _ "[]"]) (simp add: sim_call_def called_def)
  next
    case False
    then have "\<not> IsThreaded (y_server ?s) \<or> on_worker c (y_server ?s)" using assms(2) r by simp
    from QueueSignals_ok [OF _ this, of E qs sig] assms(1) obtain b where
      "rfold (\<lambda>(m, a). QueueSignal E c m a) sig ?s = Inr (called ?s b u sig [])"
      "signals_ok E b (if ss_thread (y_server s) then qs @ sig else qs)" by auto
    then show ?thesis using r by (intro exI [of _ b] exI [of _ u] exI [of _ sig]) (simp add: sim_call_def called_def IsThreaded_def)
  qed
qed

lemma commands_ok:
  assumes "signals_ok E (ss_deferred_signals (y_server s)) qs" "on_worker Worker (y_server s)"
  shows "\<exists>b u sig. rfold (\<lambda>(m, a). sim_call E Worker (Command_Call m a)) cs s =
      Inr (called s b u sig (map (\<lambda>(m, a). (Worker, Command_Call m a)) cs)) \<and> signals_ok E b (qs @ sig)"
  using assms
proof (induction cs arbitrary: s qs)
  case Nil
  then show ?case
    by (intro exI [of _ "ss_deferred_signals (y_server s)"] exI [of _ "y_simulation s"] exI [of _ "[]"]) (simp add: called_def)
next
  case (Cons x cs)
  obtain m a where x: "x = (m, a)" by (cases x)
  have thr: "ss_thread (y_server s)" using Cons.prems(2) by (simp add: on_worker_def)
  from sim_call_ok [OF Cons.prems(1), of Worker "Command_Call m a"] Cons.prems(2) thr obtain b u sig where
    1: "sim_call E Worker (Command_Call m a) s = Inr (called s b u sig [(Worker, Command_Call m a)])" "signals_ok E b (qs @ sig)"
    by auto
  from Cons.IH [of "called s b u sig [(Worker, Command_Call m a)]" "qs @ sig"] 1 Cons.prems(2) obtain b' u' sig' where
    "rfold (\<lambda>(m, a). sim_call E Worker (Command_Call m a)) cs (called s b u sig [(Worker, Command_Call m a)]) =
      Inr (called (called s b u sig [(Worker, Command_Call m a)]) b' u' sig' (map (\<lambda>(m, a). (Worker, Command_Call m a)) cs))"
    "signals_ok E b' ((qs @ sig) @ sig')" by (auto simp: on_worker_def)
  then show ?case using 1(1)
    by (intro exI [of _ b'] exI [of _ u'] exI [of _ "sig @ sig'"]) (simp add: x called_called)
qed

lemma fold_rfold: "fold (\<lambda>(m, a) r. rbind r (f m a)) cs r = rbind r (rfold (\<lambda>(m, a). f m a) cs)"
proof (induction cs arbitrary: r)
  case Nil
  then show ?case by (cases r) auto
next
  case (Cons c cs)
  then show ?case by (cases c; cases r) auto
qed

lemma ThreadLoop_process_ok:
  assumes "signals_ok E (ss_deferred_signals (y_server s)) qs" "on_worker Worker (y_server s)" "tcmd_rep (en_tlayout E) held cs"
  shows "\<exists>b u sig. ThreadLoop_process E held s =
      Inr ((called s b u sig (map (\<lambda>(m, a). (Worker, Command_Call m a)) cs))\<lparr>y_worker := Loop_Progress\<rparr>) \<and> signals_ok E b (qs @ sig)"
proof -
  let ?f = "\<lambda>m a r. rbind r (sim_call E Worker (Command_Call m a))"
  obtain b' where b': "ProcessCommandsUntyped (en_tlayout E) ?f k_process_all_commands held (Inr s) =
      Inr (length cs, b', fold (\<lambda>(m, a). ?f m a) cs (Inr s))" "tcmd_rep (en_tlayout E) b' []"
    using ProcessCommandsUntyped_rep [OF assms(3), of ?f k_process_all_commands "Inr s"] by auto
  obtain b'' where "TClear (en_tlayout E) b' = Inr b''" using TClear_rep [OF b'(2)] by blast
  then have "ThreadLoop_process E held s = rbind (rfold (\<lambda>(m, a). sim_call E Worker (Command_Call m a)) cs s) (\<lambda>s'. Inr (s'\<lparr>y_worker := Loop_Progress\<rparr>))"
    by (simp add: ThreadLoop_process_def b'(1) fold_rfold)
  moreover from commands_ok [OF assms(1,2), of cs] obtain b u sig where
    "rfold (\<lambda>(m, a). sim_call E Worker (Command_Call m a)) cs s = Inr (called s b u sig (map (\<lambda>(m, a). (Worker, Command_Call m a)) cs))"
    "signals_ok E b (qs @ sig)" by blast
  ultimately show ?thesis by (intro exI [of _ b] exI [of _ u] exI [of _ sig]) simp
qed

section \<open>The queue of signals\<close>

lemma perform_signals:
  assumes "perform (\<lambda>_ _. True) (server_run callp emit_log) None bs st = Some st'"
    and "\<forall>c \<in> set (concat (map batch_commands bs)). \<exists>x. snd c = Inr x"
  shows "st' = st @ map (projr \<circ> snd) (concat (map batch_commands bs))"
  using assms
proof (induction bs arbitrary: st)
  case Nil
  then show ?case by simp
next
  case (Cons b bs)
  have all: "fold (server_run callp emit_log i) cs st = st @ map projr cs" if "\<forall>c \<in> set cs. \<exists>x. c = Inr x" for i cs st
    using that by (induction cs arbitrary: st) (auto simp: server_run_def entry_run_def emit_log_def)
  show ?case
  proof (cases b)
    case (Ran i cs)
    have "\<forall>c \<in> set cs. \<exists>x. c = Inr x"
    proof
      fix c
      assume "c \<in> set cs"
      then have "(i, c) \<in> set (concat (map batch_commands (b # bs)))" by (simp add: Ran)
      with Cons.prems(2) have "\<exists>x. snd (i, c) = Inr x" by blast
      then show "\<exists>x. c = Inr x" by simp
    qed
    then have "fold (server_run callp emit_log i) cs st = st @ map projr cs" by (rule all)
    then show ?thesis using Cons.IH [of "st @ map projr cs"] Cons.prems Ran by (force simp: comp_def)
  next
    case (Dropped i cs)
    then show ?thesis using Cons.prems(1) by simp
  qed
qed

lemma flush_signals:
  assumes "state_rep (server_rep L T) 0 s q" "\<not> s_flushing_in_progress s" "\<forall>c \<in> set (flat q). \<exists>x. snd c = Inr x"
    and "FlushState (server_methods L T callp emit_log) (\<lambda>_ _. True) None max_time start (Suc (s_num_commands s)) now (\<lambda>_. []) s st =
      Inr (Some (k, s', st'))"
  shows "\<exists>q'. state_rep (server_rep L T) 0 s' q' \<and> \<not> s_flushing_in_progress s' \<and> (\<forall>c \<in> set (flat q'). \<exists>x. snd c = Inr x) \<and>
    st' @ map (projr \<circ> snd) (flat q') = st @ map (projr \<circ> snd) (flat q)"
proof -
  have "0 + length (flat q) + length (flat (concat (map (\<lambda>_. []) [0..<0]))) < Suc (s_num_commands s)"
    using assms(1) by (simp add: state_rep_def)
  from flush_runs_in_order [OF assms(1,2) _ _ this, of "\<lambda>_. []" callp emit_log "\<lambda>_ _. True" None max_time start now st]
    assms(4)
  obtain bs q' where f: "perform (\<lambda>_ _. True) (server_run callp emit_log) None bs st = Some st'"
    "concat (map batch_commands bs) @ flat q' = flat q" "state_rep (server_rep L T) 0 s' q'" "\<not> s_flushing_in_progress s'"
    by auto
  have sub: "set (concat (map batch_commands bs)) \<subseteq> set (flat q)" "set (flat q') \<subseteq> set (flat q)"
    unfolding f(2) [symmetric] by auto
  from perform_signals [OF f(1)] sub(1) assms(3) have "st' = st @ map (projr \<circ> snd) (concat (map batch_commands bs))" by blast
  then have "st' @ map (projr \<circ> snd) (flat q') = st @ map (projr \<circ> snd) (concat (map batch_commands bs) @ flat q')" by simp
  then show ?thesis using f sub(2) assms(3) by (intro exI [of _ q']) (auto simp: f(2))
qed

lemma AddCommands_ok:
  fixes srv :: "('m, 'a, 'p) signal_server" and E :: "('m, 'a, 'u) sim_env"
  assumes "state_rep (server_rep (en_layout E) (en_tlayout E)) 0 (m_state srv) q" "\<not> s_flushing_in_progress (m_state srv)"
    and "signals_ok E b qs" "qs \<noteq> []" "en_instance_id E \<noteq> 0" "en_instance_id E \<noteq> en_rendering_id E"
  shows "\<exists>srv'. AddCommands E time (en_instance_id E) b srv = Inr srv' \<and>
    state_rep (server_rep (en_layout E) (en_tlayout E)) 0 (m_state srv') (q @ [(en_instance_id E, map Inr qs)]) \<and>
    \<not> s_flushing_in_progress (m_state srv')"
proof -
  let ?V = "server_methods (en_layout E) (en_tlayout E) (\<lambda>_ _ (_ :: 'p Variant list) st. st)
    (emit_log :: nat \<Rightarrow> 'm \<Rightarrow> 'a \<Rightarrow> _)"
  let ?t = "TypedEntry b :: ('p GodotCommandBuffer, ('m, 'a) TCommandBuffer) CommandBufferEntry"
  let ?e = "\<lparr>e_object_id = en_instance_id E, e_added_time = time, e_buffer = ?t\<rparr>"
  have rep: "server_rep (en_layout E) (en_tlayout E) ?t (map Inr qs)"
    using assms(3) by (auto simp: server_rep_def entry_rep_def signals_ok_def)
  have "v_NumCommands ?V ?t = length qs" using entries.num_rep [OF rep] by simp
  then have "AddCommands E time (en_instance_id E) b srv = Inr (srv\<lparr>m_state := AddEntry ?V ?e (m_state srv)\<rparr>)"
    using assms(4,5,6) by (simp add: AddCommands_def AddCommandBuffer_def Let_def)
  moreover have "state_rep (server_rep (en_layout E) (en_tlayout E)) 0 (AddEntry ?V ?e (m_state srv)) (q @ [(en_instance_id E, map Inr qs)])"
    using assms(1,4,5) rep by (intro entries.AddEntry_rep) (simp_all add: holds_def)
  moreover have "\<not> s_flushing_in_progress (AddEntry ?V ?e (m_state srv))" using assms(2) by (simp add: AddEntry_def)
  ultimately show ?thesis by simp
qed

section \<open>The invariant\<close>

fun worker_ok :: "('m, 'a) worker_pc \<Rightarrow> SimulationState \<Rightarrow> bool option \<Rightarrow> bool" where
  "worker_ok No_Thread st l = (st = Unloaded \<and> l = Some False \<or> st = Loaded \<and> l = Some True)"
| "worker_ok Loop_Entry st l = (st = Loading \<and> l = Some False)"
| "worker_ok Loop_Load st l = (st = Loading \<and> l = Some False)"
| "worker_ok Loop_Loaded st l = (st = Loading \<and> l = Some True)"
| "worker_ok Loop_Unload st l = (st = Unloading \<and> l = Some True)"
| "worker_ok Loop_Unloaded st l = (st = Unloading \<and> l = Some False)"
| "worker_ok Finished st l = (st = Unloaded \<and> l = Some False)"
| "worker_ok pc st l = ((st = Loaded \<or> st = Unloading) \<and> l = Some True)"

fun owner_ok :: "owner_pc \<Rightarrow> bool \<Rightarrow> SimulationState \<Rightarrow> ('m, 'a) worker_pc \<Rightarrow> bool" where
  "owner_ok Start_Assign thr st w = (\<not> thr \<and> w = Loop_Entry)"
| "owner_ok (Stop_Store c) thr st w = (thr = (w \<noteq> No_Thread) \<and> st = Loaded)"
| "owner_ok (Progress_Run d) thr st w = (thr = (w \<noteq> No_Thread) \<and> st = Loaded)"
| "owner_ok (Join c) thr st w = (thr = (w \<noteq> No_Thread) \<and> (\<not> thr \<longrightarrow> st = Unloaded))"
| "owner_ok (Start_Begin mode) thr st w = (w = No_Thread \<and> \<not> thr \<and> st = Unloaded)"
| "owner_ok pc thr st w = (thr = (w \<noteq> No_Thread))"

fun pc_modes :: "owner_pc \<Rightarrow> ThreadMode set" where
  "pc_modes (Stop_Check (After_Start mode)) = {mode}"
| "pc_modes (Stop_Store (After_Start mode)) = {mode}"
| "pc_modes (Join (After_Start mode)) = {mode}"
| "pc_modes (Start_Begin mode) = {mode}"
| "pc_modes pc = {}"

text \<open>The commands that the worker has taken and not run.\<close>

fun held_ok :: "('m, 'a, 'u) sim_env \<Rightarrow> ('m, 'a) worker_pc \<Rightarrow> ('m \<times> 'a) list \<Rightarrow> bool" where
  "held_ok E (Loop_Process b) cs = tcmd_rep (en_tlayout E) b cs"
| "held_ok E pc cs = (cs = [])"

definition control_ok :: "ThreadMode set \<Rightarrow> ('m, 'a, 'u, 'p) sim_system \<Rightarrow> bool" where
  "control_ok modes s \<longleftrightarrow>
     worker_ok (y_worker s) (ss_state (y_server s)) (lifecycle (y_calls s)) \<and>
     owner_ok (y_owner s) (ss_thread (y_server s)) (ss_state (y_server s)) (y_worker s) \<and>
     pc_modes (y_owner s) \<subseteq> modes \<and>
     (THREAD_MODE_SINGLE_THREADED \<notin> modes \<longrightarrow> y_worker s = No_Thread \<longrightarrow> ss_state (y_server s) = Unloaded)"

definition commands_inv ::
    "('m, 'a, 'u) sim_env \<Rightarrow> ('m, 'a, 'u, 'p) sim_system \<Rightarrow> ('m \<times> 'a) list \<Rightarrow> ('m \<times> 'a) list \<Rightarrow> bool" where
  "commands_inv E s held pend \<longleftrightarrow>
     signals_ok E (ss_deferred_commands (y_server s)) pend \<and> held_ok E (y_worker s) held \<and>
     y_deferred s = commands_run (y_calls s) @ held @ pend"

definition signals_inv ::
    "('m, 'a, 'u) sim_env \<Rightarrow> ThreadMode set \<Rightarrow> ('m, 'a, 'u, 'p) sim_system \<Rightarrow>
     ((string \<times> 'p Variant list) + ('m \<times> 'a)) queue \<Rightarrow> ('m \<times> 'a) list \<Rightarrow> bool" where
  "signals_inv E modes s q qs \<longleftrightarrow>
     signals_ok E (ss_deferred_signals (y_server s)) qs \<and>
     state_rep (server_rep (en_layout E) (en_tlayout E)) 0 (m_state (y_command_server s)) q \<and>
     \<not> s_flushing_in_progress (m_state (y_command_server s)) \<and> (\<forall>c \<in> set (flat q). \<exists>x. snd c = Inr x) \<and>
     (THREAD_MODE_SINGLE_THREADED \<notin> modes \<longrightarrow> y_queued s = y_emitted s @ map (projr \<circ> snd) (flat q) @ qs)"

definition data_inv :: "('m, 'a, 'u) sim_env \<Rightarrow> ThreadMode set \<Rightarrow> ('m, 'a, 'u, 'p) sim_system \<Rightarrow> bool" where
  "data_inv E modes s \<longleftrightarrow> (\<exists>held pend. commands_inv E s held pend) \<and> (\<exists>q qs. signals_inv E modes s q qs)"

definition sim_inv :: "('m, 'a, 'u) sim_env \<Rightarrow> ThreadMode set \<Rightarrow> ('m, 'a, 'u, 'p) sim_system \<Rightarrow> bool" where
  "sim_inv E modes s \<longleftrightarrow>
     control_ok modes s \<and> data_inv E modes s"

text \<open>
  What the surroundings keep to: an object id is not 0 and not the rendering server's, and on the owner's thread
  \<open>DoSimulationProgress\<close> queues no signals when there is a worker.
\<close>

definition env_ok :: "('m, 'a, 'u) sim_env \<Rightarrow> bool" where
  "env_ok E \<longleftrightarrow> en_instance_id E \<noteq> 0 \<and> en_instance_id E \<noteq> en_rendering_id E \<and>
     (\<forall>delta u. snd (DoSimulationProgress (en_methods E) True delta u) = [])"

lemma tcmd_new_ok [simp]: "tcmd_rep L tcmd_new []" "signals_ok E tcmd_new []"
  by (simp_all add: tcmd_rep_def tcmd_new_def signals_ok_def)

lemma sim_inv_new: "sim_inv E modes (new_sim_system u)"
proof -
  have "state_rep (server_rep (en_layout E) (en_tlayout E)) 0 new_State []"
    by (simp add: state_rep_def new_State_def current_def)
  then have "signals_inv E modes (new_sim_system u) [] []"
    by (simp add: signals_inv_def new_sim_system_def new_SimulationServer_def new_State_def)
  moreover have "commands_inv E (new_sim_system u) [] []"
    by (simp add: commands_inv_def new_sim_system_def new_SimulationServer_def)
  moreover have "control_ok modes (new_sim_system u)" by (simp add: control_ok_def new_sim_system_def new_SimulationServer_def)
  ultimately show ?thesis by (auto simp: sim_inv_def data_inv_def)
qed

text \<open>A call keeps the queues, on the thread it is made on.\<close>

lemma called_queues:
  assumes "signals_inv E modes s q qs" "signals_ok E b (if ss_thread (y_server s) then qs @ sig else qs)"
    and "THREAD_MODE_SINGLE_THREADED \<notin> modes \<Longrightarrow> ss_thread (y_server s) \<or> sig = []"
  shows "\<exists>q qs. signals_inv E modes (called s b u sig calls) q qs"
  using assms
  by (intro exI [of _ q] exI [of _ "if ss_thread (y_server s) then qs @ sig else qs"]) (auto simp: signals_inv_def)

section \<open>Every step keeps it\<close>

lemma sim_call_inv:
  assumes "signals_inv E modes s q qs"
    and "\<not> ss_thread (y_server s) \<or> c = Worker \<or> snd (run_method E call True (y_simulation s)) = []"
    and "THREAD_MODE_SINGLE_THREADED \<notin> modes \<Longrightarrow> ss_thread (y_server s)"
  obtains b u sig where "sim_call E c call s = Inr (called s b u sig [(c, call)])"
    "\<exists>q qs. signals_inv E modes (called s b u sig [(c, call)]) q qs"
proof -
  have "signals_ok E (ss_deferred_signals (y_server s)) qs" using assms(1) by (simp add: signals_inv_def)
  from sim_call_ok [OF this, of c call] assms(2) obtain b u sig where
    "sim_call E c call s = Inr (called s b u sig [(c, call)])" "signals_ok E b (if ss_thread (y_server s) then qs @ sig else qs)"
    by (cases "ss_thread (y_server s)") (auto simp: IsThreaded_def on_worker_def)
  with called_queues [OF assms(1), of b sig u "[(c, call)]"] assms(3) show thesis by (intro that) auto
qed

text \<open>The parts that only depend on the buffers do not see the program counters and the state.\<close>

lemma signals_inv_frame:
  assumes "signals_inv E modes s q qs"
    and "ss_deferred_signals (y_server s') = ss_deferred_signals (y_server s)" "y_command_server s' = y_command_server s"
    "y_queued s' = y_queued s" "y_emitted s' = y_emitted s"
  shows "signals_inv E modes s' q qs"
  using assms by (simp add: signals_inv_def)

lemma commands_inv_frame:
  assumes "commands_inv E s held pend"
    and "ss_deferred_commands (y_server s') = ss_deferred_commands (y_server s)" "y_deferred s' = y_deferred s"
    "commands_run (y_calls s') = commands_run (y_calls s)" "held_ok E (y_worker s') held"
  shows "commands_inv E s' held pend"
  using assms by (simp add: commands_inv_def)

lemma data_inv_frame:
  assumes "data_inv E modes s"
    and "ss_deferred_signals (y_server s') = ss_deferred_signals (y_server s)" "y_command_server s' = y_command_server s"
    "y_queued s' = y_queued s" "y_emitted s' = y_emitted s" "ss_deferred_commands (y_server s') = ss_deferred_commands (y_server s)"
    "y_deferred s' = y_deferred s" "y_calls s' = y_calls s"
    "\<And>held. held_ok E (y_worker s) held \<Longrightarrow> held_ok E (y_worker s') held"
  shows "data_inv E modes s'"
proof -
  obtain held pend q qs where i: "commands_inv E s held pend" "signals_inv E modes s q qs" using assms(1) by (auto simp: data_inv_def)
  have "held_ok E (y_worker s') held" using i(1) by (intro assms(9)) (simp add: commands_inv_def)
  with i show ?thesis
    unfolding data_inv_def using commands_inv_frame [OF i(1), of s'] signals_inv_frame [OF i(2), of s'] assms(2-8) by auto
qed

lemma call_inv:
  assumes "data_inv E modes s"
    and "\<not> ss_thread (y_server s) \<or> c = Worker \<or> snd (run_method E call True (y_simulation s)) = []"
    and "THREAD_MODE_SINGLE_THREADED \<notin> modes \<Longrightarrow> ss_thread (y_server s)"
    and "commands_run [(c, call)] = []"
  shows "\<exists>b u sig. sim_call E c call s = Inr (called s b u sig [(c, call)]) \<and> data_inv E modes (called s b u sig [(c, call)])"
proof -
  obtain held pend q qs where i: "commands_inv E s held pend" "signals_inv E modes s q qs" using assms(1) by (auto simp: data_inv_def)
  obtain b u sig where "sim_call E c call s = Inr (called s b u sig [(c, call)])"
    "\<exists>q qs. signals_inv E modes (called s b u sig [(c, call)]) q qs"
    by (rule sim_call_inv [OF i(2) assms(2,3)])
  moreover have "commands_inv E (called s b u sig [(c, call)]) held pend" using i(1) assms(4) by (simp add: commands_inv_def)
  ultimately show ?thesis using i by (intro exI conjI) (auto simp: data_inv_def)
qed

lemma no_commands [simp]:
  "commands_run [(c, Load_Call)] = []" "commands_run [(c, Unload_Call)] = []" "commands_run [(c, Progress_Call d)] = []"
  "commands_run [(c, Thread_Progress_Call)] = []" "commands_run [(Owner, Command_Call m a)] = []"
  by (simp_all add: commands_run_def)

lemma set_state_fields [simp]:
  "ss_thread (y_server (set_state st s)) = ss_thread (y_server s)" "ss_state (y_server (set_state st s)) = st"
  "ss_deferred_commands (y_server (set_state st s)) = ss_deferred_commands (y_server s)"
  "ss_deferred_signals (y_server (set_state st s)) = ss_deferred_signals (y_server s)"
  "y_owner (set_state st s) = y_owner s" "y_worker (set_state st s) = y_worker s" "y_calls (set_state st s) = y_calls s"
  "y_command_server (set_state st s) = y_command_server s" "y_emitted (set_state st s) = y_emitted s"
  "y_queued (set_state st s) = y_queued s" "y_deferred (set_state st s) = y_deferred s" "y_simulation (set_state st s) = y_simulation s"
  by (simp_all add: set_state_def)

subsection \<open>The owner\<close>

lemma control_modes: "control_ok modes s \<Longrightarrow> THREAD_MODE_SINGLE_THREADED \<notin> modes \<Longrightarrow> y_worker s = No_Thread \<Longrightarrow> ss_state (y_server s) = Unloaded"
  by (simp add: control_ok_def)

lemma StopSimulation_check_inv:
  assumes "sim_inv E modes s" "y_owner s = Stop_Check c"
  shows "sim_inv E modes (StopSimulation_check c s)"
proof -
  have "control_ok modes (StopSimulation_check c s)"
    using assms by (cases c; cases "y_worker s") (auto simp: sim_inv_def control_ok_def StopSimulation_check_def)
  moreover have "data_inv E modes (StopSimulation_check c s)"
    using assms(1) by - (rule data_inv_frame [of E modes s], auto simp: sim_inv_def StopSimulation_check_def)
  ultimately show ?thesis by (simp add: sim_inv_def)
qed

lemma StopSimulation_store_inv:
  assumes "sim_inv E modes s" "y_owner s = Stop_Store c"
  shows "\<exists>s'. StopSimulation_store E c s = Inr s' \<and> sim_inv E modes s'"
proof -
  let ?s = "set_state Unloading s"
  have ctrl: "control_ok modes s" and data: "data_inv E modes ?s"
    using assms(1) data_inv_frame [of E modes s ?s] by (auto simp: sim_inv_def)
  show ?thesis
  proof (cases "ss_thread (y_server s)")
    case True
    have "data_inv E modes (?s\<lparr>y_owner := after_stop c\<rparr>)" by (rule data_inv_frame [OF data]) auto
    moreover have "control_ok modes (?s\<lparr>y_owner := after_stop c\<rparr>)"
      using ctrl assms(2) True by (cases c; cases "y_worker s") (auto simp: control_ok_def)
    ultimately show ?thesis using True by (simp add: StopSimulation_store_def IsThreaded_def Let_def sim_inv_def)
  next
    case False
    have nt: "y_worker s = No_Thread" "ss_state (y_server s) = Loaded" using ctrl assms(2) False by (auto simp: control_ok_def)
    have "THREAD_MODE_SINGLE_THREADED \<in> modes" using control_modes [OF ctrl] nt by auto
    with call_inv [OF data, of Owner Unload_Call] False
    have "\<exists>b u sig. sim_call E Owner Unload_Call ?s = Inr (called ?s b u sig [(Owner, Unload_Call)]) \<and>
      data_inv E modes (called ?s b u sig [(Owner, Unload_Call)])" by simp
    then obtain b u sig where c: "sim_call E Owner Unload_Call ?s = Inr (called ?s b u sig [(Owner, Unload_Call)])"
      "data_inv E modes (called ?s b u sig [(Owner, Unload_Call)])" by blast
    let ?s' = "(set_state Unloaded (called ?s b u sig [(Owner, Unload_Call)]))\<lparr>y_owner := after_stop c\<rparr>"
    have "data_inv E modes ?s'" by (rule data_inv_frame [OF c(2)]) auto
    moreover have "control_ok modes ?s'"
      using ctrl assms(2) nt False by (cases c) (auto simp: control_ok_def)
    ultimately show ?thesis using c(1) False
      by (simp add: StopSimulation_store_def IsThreaded_def Let_def sim_inv_def)
  qed
qed

lemma WaitUntilStopped_join_inv:
  assumes "sim_inv E modes s" "y_owner s = Join c" "WaitUntilStopped_join c s = Some s'"
  shows "sim_inv E modes s'"
proof -
  have "control_ok modes s'"
    using assms by (cases c) (auto simp: sim_inv_def control_ok_def WaitUntilStopped_join_def IsThreaded_def split: if_splits)
  moreover have "data_inv E modes s'"
    using assms(1,3) by - (rule data_inv_frame [of E modes s],
      auto simp: sim_inv_def WaitUntilStopped_join_def split: if_splits)
  ultimately show ?thesis by (simp add: sim_inv_def)
qed

lemma StartSimulation_begin_inv:
  assumes "sim_inv E modes s" "y_owner s = Start_Begin mode"
  shows "\<exists>s'. StartSimulation_begin E mode s = Inr s' \<and> sim_inv E modes s'"
proof -
  let ?s = "set_state Loading s"
  have ctrl: "control_ok modes s" and dat: "data_inv E modes s" and data: "data_inv E modes ?s"
    using assms(1) data_inv_frame [of E modes s ?s] by (auto simp: sim_inv_def)
  have nt: "y_worker s = No_Thread" "\<not> ss_thread (y_server s)" using ctrl assms(2) by (auto simp: control_ok_def)
  show ?thesis
  proof (cases "CanSimulationStart (en_methods E) (y_simulation s)")
    case False
    have "data_inv E modes (s\<lparr>y_owner := Idle\<rparr>)" by (rule data_inv_frame [OF dat]) auto
    moreover have "control_ok modes (s\<lparr>y_owner := Idle\<rparr>)" using ctrl nt by (auto simp: control_ok_def)
    ultimately show ?thesis using False by (simp add: StartSimulation_begin_def sim_inv_def)
  next
    case start: True
    show ?thesis
    proof (cases "mode = THREAD_MODE_MULTI_THREADED")
      case True
      let ?s' = "?s\<lparr>y_worker := Loop_Entry, y_owner := Start_Assign\<rparr>"
      have "data_inv E modes ?s'" by (rule data_inv_frame [OF data]) (auto simp: nt)
      moreover have "control_ok modes ?s'" using ctrl nt assms(2) by (auto simp: control_ok_def)
      ultimately show ?thesis using start True by (simp add: StartSimulation_begin_def Let_def sim_inv_def)
    next
      case False
      then have "THREAD_MODE_SINGLE_THREADED \<in> modes" using ctrl assms(2) by (cases mode) (auto simp: control_ok_def)
      with call_inv [OF data, of Owner Load_Call] nt(2)
      have "\<exists>b u sig. sim_call E Owner Load_Call ?s = Inr (called ?s b u sig [(Owner, Load_Call)]) \<and>
        data_inv E modes (called ?s b u sig [(Owner, Load_Call)])" by simp
      then obtain b u sig where c: "sim_call E Owner Load_Call ?s = Inr (called ?s b u sig [(Owner, Load_Call)])"
        "data_inv E modes (called ?s b u sig [(Owner, Load_Call)])" by blast
      let ?s' = "(set_state Loaded (called ?s b u sig [(Owner, Load_Call)]))\<lparr>y_owner := Idle\<rparr>"
      have "data_inv E modes ?s'" by (rule data_inv_frame [OF c(2)]) auto
      moreover have "control_ok modes ?s'"
        using ctrl assms(2) nt \<open>THREAD_MODE_SINGLE_THREADED \<in> modes\<close> by (auto simp: control_ok_def)
      ultimately show ?thesis using c(1) start False by (simp add: StartSimulation_begin_def Let_def sim_inv_def)
    qed
  qed
qed

lemma owner_step_inv:
  assumes "sim_inv E modes s" "env_ok E" "owner_step E s = Some r"
  shows "\<exists>s'. r = Inr s' \<and> sim_inv E modes s'"
proof (cases "y_owner s")
  case Idle
  then show ?thesis using assms(3) by (simp add: owner_step_def)
next
  case (Stop_Check c)
  then show ?thesis using assms StopSimulation_check_inv by (auto simp: owner_step_def)
next
  case (Stop_Store c)
  then show ?thesis using assms StopSimulation_store_inv by (auto simp: owner_step_def)
next
  case (Join c)
  then show ?thesis using assms WaitUntilStopped_join_inv by (auto simp: owner_step_def)
next
  case (Start_Begin mode)
  then show ?thesis using assms StartSimulation_begin_inv by (auto simp: owner_step_def)
next
  case Start_Assign
  have "control_ok modes (StartSimulation_assign s)" using assms(1) Start_Assign
    by (auto simp: StartSimulation_assign_def sim_inv_def control_ok_def)
  moreover have "data_inv E modes (StartSimulation_assign s)" using assms(1)
    by - (rule data_inv_frame [of E modes s], auto simp: sim_inv_def StartSimulation_assign_def)
  ultimately show ?thesis using Start_Assign assms(3) by (auto simp: owner_step_def sim_inv_def)
next
  case (Progress_Check d)
  have "control_ok modes (Progress_check d s)" using assms(1) Progress_Check
    by (auto simp: Progress_check_def sim_inv_def control_ok_def)
  moreover have "data_inv E modes (Progress_check d s)" using assms(1)
    by - (rule data_inv_frame [of E modes s], auto simp: sim_inv_def Progress_check_def)
  ultimately show ?thesis using Progress_Check assms(3) by (auto simp: owner_step_def sim_inv_def)
next
  case (Progress_Run d)
  have ctrl: "control_ok modes s" "data_inv E modes s" using assms(1) by (auto simp: sim_inv_def)
  have "ss_thread (y_server s) = (y_worker s \<noteq> No_Thread)" "ss_state (y_server s) = Loaded"
    using ctrl(1) Progress_Run by (auto simp: control_ok_def)
  then have "THREAD_MODE_SINGLE_THREADED \<notin> modes \<Longrightarrow> ss_thread (y_server s)" using control_modes [OF ctrl(1)] by auto
  moreover have "snd (run_method E (Progress_Call d) True (y_simulation s)) = []" using assms(2) by (simp add: env_ok_def run_method_def)
  ultimately have "\<exists>b u sig. sim_call E Owner (Progress_Call d) s = Inr (called s b u sig [(Owner, Progress_Call d)]) \<and>
      data_inv E modes (called s b u sig [(Owner, Progress_Call d)])"
    by (intro call_inv [OF ctrl(2)]) simp_all
  then obtain b u sig where c: "sim_call E Owner (Progress_Call d) s = Inr (called s b u sig [(Owner, Progress_Call d)])"
    "data_inv E modes (called s b u sig [(Owner, Progress_Call d)])" by blast
  let ?s' = "(called s b u sig [(Owner, Progress_Call d)])\<lparr>y_owner := Idle\<rparr>"
  have "data_inv E modes ?s'" by (rule data_inv_frame [OF c(2)]) auto
  moreover have "control_ok modes ?s'" using ctrl(1) Progress_Run by (cases "y_worker s") (auto simp: control_ok_def)
  ultimately show ?thesis using c(1) Progress_Run assms(3) by (auto simp: owner_step_def sim_inv_def)
qed

subsection \<open>The worker\<close>

lemma worker_running: "control_ok modes s \<Longrightarrow> y_worker s \<noteq> No_Thread \<Longrightarrow> y_worker s \<noteq> Loop_Entry \<Longrightarrow> ss_thread (y_server s)"
  by (cases "y_owner s") (auto simp: control_ok_def)

text \<open>A call on the worker, and the program counter after it.\<close>

lemma worker_call_inv:
  assumes "sim_inv E modes s" "ss_thread (y_server s)" "commands_run [(Worker, call)] = []"
    and "\<And>l. lifecycle (y_calls s) = Some l \<Longrightarrow> worker_ok pc (ss_state (y_server s)) (life_step call (Some l))"
    and "lifecycle (y_calls s) \<noteq> None" "pc \<noteq> No_Thread" "\<And>held. held_ok E (y_worker s) held \<Longrightarrow> held_ok E pc held"
    and "y_worker s \<noteq> Loop_Entry"
  shows "\<exists>s'. rbind (sim_call E Worker call s) (\<lambda>s1. Inr (s1\<lparr>y_worker := pc\<rparr>)) = Inr s' \<and> sim_inv E modes s'"
proof -
  have ctrl: "control_ok modes s" "data_inv E modes s" using assms(1) by (auto simp: sim_inv_def)
  from call_inv [OF ctrl(2), of Worker call] assms(2,3) obtain b u sig where
    c: "sim_call E Worker call s = Inr (called s b u sig [(Worker, call)])" "data_inv E modes (called s b u sig [(Worker, call)])" by auto
  let ?s' = "(called s b u sig [(Worker, call)])\<lparr>y_worker := pc\<rparr>"
  have "data_inv E modes ?s'" by (rule data_inv_frame [OF c(2)]) (auto simp: assms(7))
  moreover have "control_ok modes ?s'" using ctrl(1) assms(2,4,5,6,8) by (cases "y_owner s") (auto simp: control_ok_def)
  ultimately show ?thesis using c(1) by (simp add: sim_inv_def)
qed

lemma tcmd_move_ok:
  fixes b :: "('m, 'a) TCommandBuffer"
  shows "tcmd_move L tcmd_new b = Inr (b, tcmd_new)"
proof -
  obtain b' where "TClear L (tcmd_new :: ('m, 'a) TCommandBuffer) = Inr b'" using TClear_rep [OF tcmd_new_ok(1)] by blast
  then show ?thesis by (simp add: tcmd_move_def tcmd_new_def)
qed

lemma control_worker:
  assumes "control_ok modes s" "y_worker s \<noteq> Loop_Entry" "pc \<noteq> No_Thread"
    and "worker_ok pc (ss_state (y_server s')) (lifecycle (y_calls s'))" "y_worker s' = pc" "y_owner s' = y_owner s"
    "ss_thread (y_server s') = ss_thread (y_server s)" "y_worker s \<noteq> No_Thread"
    "ss_state (y_server s') = ss_state (y_server s) \<or> ss_state (y_server s) \<noteq> Loaded"
  shows "control_ok modes s'"
  using assms by (cases "y_owner s") (auto simp: control_ok_def)

lemma ThreadLoop_take_inv:
  assumes "sim_inv E modes s" "y_worker s = Loop_Take"
  shows "\<exists>s'. ThreadLoop_take E s = Inr s' \<and> sim_inv E modes s'"
proof -
  let ?b = "ss_deferred_commands (y_server s)"
  let ?s' = "s\<lparr>y_server := (y_server s)\<lparr>ss_deferred_commands := tcmd_new\<rparr>, y_worker := Loop_Process ?b\<rparr>"
  obtain held pend q qs where i: "commands_inv E s held pend" "signals_inv E modes s q qs" and ctrl: "control_ok modes s"
    using assms(1) by (auto simp: data_inv_def sim_inv_def)
  have "commands_inv E ?s' pend []" using i(1) assms(2) by (auto simp: commands_inv_def signals_ok_def tcmd_new_def tcmd_rep_def)
  moreover have "signals_inv E modes ?s' q qs" by (rule signals_inv_frame [OF i(2)]) auto
  moreover have "control_ok modes ?s'" using ctrl assms(2) by (intro control_worker [OF ctrl, of "Loop_Process ?b"]) (auto simp: control_ok_def)
  ultimately show ?thesis by (auto simp: ThreadLoop_take_def tcmd_move_ok sim_inv_def data_inv_def)
qed

lemma ThreadLoop_process_inv:
  assumes "sim_inv E modes s" "y_worker s = Loop_Process b"
  shows "\<exists>s'. ThreadLoop_process E b s = Inr s' \<and> sim_inv E modes s'"
proof -
  obtain held pend q qs where i: "commands_inv E s held pend" "signals_inv E modes s q qs" and ctrl: "control_ok modes s"
    using assms(1) by (auto simp: data_inv_def sim_inv_def)
  have thr: "ss_thread (y_server s)" using worker_running [OF ctrl] assms(2) by simp
  have "signals_ok E (ss_deferred_signals (y_server s)) qs" "on_worker Worker (y_server s)" "tcmd_rep (en_tlayout E) b held"
    using i assms(2) thr by (auto simp: signals_inv_def commands_inv_def on_worker_def)
  from ThreadLoop_process_ok [OF this] obtain b' u sig where
    p: "ThreadLoop_process E b s = Inr ((called s b' u sig (map (\<lambda>(m, a). (Worker, Command_Call m a)) held))\<lparr>y_worker := Loop_Progress\<rparr>)"
    "signals_ok E b' (qs @ sig)" by blast
  let ?c = "called s b' u sig (map (\<lambda>(m, a). (Worker, Command_Call m a)) held)"
  let ?s' = "?c\<lparr>y_worker := Loop_Progress\<rparr>"
  have "\<exists>q qs. signals_inv E modes ?c q qs" by (rule called_queues [OF i(2)]) (use p(2) thr in auto)
  then obtain q' qs' where "signals_inv E modes ?c q' qs'" by blast
  then have "signals_inv E modes ?s' q' qs'" by (rule signals_inv_frame) auto
  moreover have "commands_inv E ?s' [] pend" using i(1) by (simp add: commands_inv_def)
  moreover have "control_ok modes ?s'"
    using ctrl assms(2) by (intro control_worker [OF ctrl, of Loop_Progress]) (auto simp: control_ok_def intro!: lifecycle_commands)
  ultimately show ?thesis using p(1) by (auto simp: sim_inv_def data_inv_def)
qed

lemma ThreadLoop_flush_inv:
  assumes "sim_inv E modes s" "y_worker s = Loop_Flush" "env_ok E"
  shows "\<exists>s'. ThreadLoop_flush E time s = Inr s' \<and> sim_inv E modes s'"
proof -
  obtain held pend q qs where i: "commands_inv E s held pend" "signals_inv E modes s q qs" and ctrl: "control_ok modes s"
    using assms(1) by (auto simp: data_inv_def sim_inv_def)
  have sig: "signals_ok E (ss_deferred_signals (y_server s)) qs" using i(2) by (simp add: signals_inv_def)
  then have num: "TNumCommands (ss_deferred_signals (y_server s)) = length qs" by (simp add: signals_ok_def tcmd_rep_def TNumCommands_def)
  show ?thesis
  proof (cases "qs = []")
    case True
    let ?s' = "s\<lparr>y_worker := Loop_Test\<rparr>"
    have "control_ok modes ?s'" using ctrl assms(2) by (intro control_worker [OF ctrl, of Loop_Test]) (auto simp: control_ok_def)
    moreover have "data_inv E modes ?s'" using assms(1,2) by - (rule data_inv_frame [of E modes s], auto simp: sim_inv_def)
    ultimately show ?thesis using num True by (simp add: ThreadLoop_flush_def sim_inv_def)
  next
    case False
    from i(2) assms(3) AddCommands_ok [OF _ _ sig False, of "y_command_server s" q time] obtain cs where
      add: "AddCommands E time (en_instance_id E) (ss_deferred_signals (y_server s)) (y_command_server s) = Inr cs"
      "state_rep (server_rep (en_layout E) (en_tlayout E)) 0 (m_state cs) (q @ [(en_instance_id E, map Inr qs)])"
      "\<not> s_flushing_in_progress (m_state cs)" by (auto simp: signals_inv_def env_ok_def)
    let ?s' = "s\<lparr>y_server := (y_server s)\<lparr>ss_deferred_signals := tcmd_new\<rparr>, y_command_server := cs, y_worker := Loop_Test\<rparr>"
    have "signals_inv E modes ?s' (q @ [(en_instance_id E, map Inr qs)]) []"
      using i(2) add by (auto simp: signals_inv_def comp_def)
    moreover have "commands_inv E ?s' held pend" by (rule commands_inv_frame [OF i(1)]) (use i(1) assms(2) in \<open>auto simp: commands_inv_def\<close>)
    moreover have "control_ok modes ?s'" using ctrl assms(2) by (intro control_worker [OF ctrl, of Loop_Test]) (auto simp: control_ok_def)
    ultimately show ?thesis using num False add(1) by (auto simp: ThreadLoop_flush_def tcmd_move_ok sim_inv_def data_inv_def)
  qed
qed

lemma ThreadLoop_inv:
  assumes "sim_inv E modes s" "env_ok E" "ThreadLoop E time s = Some r"
  shows "(\<exists>s'. r = Inr s' \<and> sim_inv E modes s') \<or> r = Inl Assertion \<and> y_worker s = Loop_Entry \<and> y_owner s = Start_Assign"
proof -
  have ctrl: "control_ok modes s" "data_inv E modes s" using assms(1) by (auto simp: sim_inv_def)
  note thr = worker_running [OF ctrl(1)]
  have wk: "worker_ok (y_worker s) (ss_state (y_server s)) (lifecycle (y_calls s))" using ctrl(1) by (simp add: control_ok_def)
  note call = worker_call_inv [OF assms(1) thr]
  show ?thesis
  proof (cases "y_worker s")
    case Loop_Entry
    show ?thesis
    proof (cases "ss_thread (y_server s)")
      case True
      have "control_ok modes (s\<lparr>y_worker := Loop_Load\<rparr>)" using ctrl(1) Loop_Entry True
        by (cases "y_owner s") (auto simp: control_ok_def)
      moreover have "data_inv E modes (s\<lparr>y_worker := Loop_Load\<rparr>)" by (rule data_inv_frame [OF ctrl(2)]) (auto simp: Loop_Entry)
      ultimately show ?thesis using Loop_Entry True assms(3) by (auto simp: ThreadLoop_def ThreadLoop_entry_def on_worker_def sim_inv_def)
    next
      case False
      then have "y_owner s = Start_Assign" using ctrl(1) Loop_Entry by (cases "y_owner s") (auto simp: control_ok_def)
      then show ?thesis using Loop_Entry False assms(3) by (auto simp: ThreadLoop_def ThreadLoop_entry_def on_worker_def)
    qed
  next
    case Loop_Load
    then show ?thesis using call [of Load_Call Loop_Loaded] wk assms(3) by (auto simp: ThreadLoop_def)
  next
    case Loop_Loaded
    let ?s' = "(set_state Loaded s)\<lparr>y_worker := Loop_Test\<rparr>"
    have "control_ok modes ?s'" using ctrl(1) Loop_Loaded by (intro control_worker [OF ctrl(1), of Loop_Test]) (auto simp: control_ok_def)
    moreover have "data_inv E modes ?s'" by (rule data_inv_frame [OF ctrl(2)]) (auto simp: Loop_Loaded)
    ultimately show ?thesis using Loop_Loaded assms(3) by (auto simp: ThreadLoop_def sim_inv_def)
  next
    case Loop_Test
    have "control_ok modes (ThreadLoop_test s)" using ctrl(1) Loop_Test wk
      by (intro control_worker [OF ctrl(1), of "y_worker (ThreadLoop_test s)"]) (auto simp: ThreadLoop_test_def)
    moreover have "data_inv E modes (ThreadLoop_test s)" by (rule data_inv_frame [OF ctrl(2)]) (auto simp: Loop_Test ThreadLoop_test_def)
    ultimately show ?thesis using Loop_Test assms(3) by (auto simp: ThreadLoop_def sim_inv_def)
  next
    case Loop_Take
    then show ?thesis using ThreadLoop_take_inv [OF assms(1)] assms(3) by (auto simp: ThreadLoop_def)
  next
    case (Loop_Process b)
    then show ?thesis using ThreadLoop_process_inv [OF assms(1)] assms(3) by (auto simp: ThreadLoop_def)
  next
    case Loop_Progress
    then show ?thesis using call [of Thread_Progress_Call Loop_Flush] wk assms(3) by (auto simp: ThreadLoop_def)
  next
    case Loop_Flush
    then show ?thesis using ThreadLoop_flush_inv [OF assms(1) _ assms(2), of time] assms(3) by (auto simp: ThreadLoop_def)
  next
    case Loop_Unload
    then show ?thesis using call [of Unload_Call Loop_Unloaded] wk assms(3) by (auto simp: ThreadLoop_def)
  next
    case Loop_Unloaded
    let ?s' = "(set_state Unloaded s)\<lparr>y_worker := Finished\<rparr>"
    have "control_ok modes ?s'" using ctrl(1) Loop_Unloaded by (intro control_worker [OF ctrl(1), of Finished]) (auto simp: control_ok_def)
    moreover have "data_inv E modes ?s'" by (rule data_inv_frame [OF ctrl(2)]) (auto simp: Loop_Unloaded)
    ultimately show ?thesis using Loop_Unloaded assms(3) by (auto simp: ThreadLoop_def sim_inv_def)
  qed (use assms(3) in \<open>auto simp: ThreadLoop_def\<close>)
qed

subsection \<open>The system\<close>

lemma defer_inv:
  assumes "sim_inv E modes s" "DeferCommand E Owner m a s = Inr (True, s')"
  shows "sim_inv E modes s'"
proof -
  obtain held pend q qs where i: "commands_inv E s held pend" "signals_inv E modes s q qs" and ctrl: "control_ok modes s"
    using assms(1) by (auto simp: data_inv_def sim_inv_def)
  have "signals_ok E (ss_deferred_commands (y_server s)) pend" using i(1) by (simp add: commands_inv_def)
  from TAddCommand_ok [OF this, of m a] obtain b where
    b: "TAddCommand (en_tlayout E) m a (ss_deferred_commands (y_server s)) = Inr b" "signals_ok E b (pend @ [(m, a)])" .
  have s': "s' = s\<lparr>y_server := (y_server s)\<lparr>ss_deferred_commands := b\<rparr>, y_deferred := y_deferred s @ [(m, a)]\<rparr>"
    using assms(2) b(1) by (auto simp: DeferCommand_def Let_def split: if_splits)
  have "commands_inv E s' held (pend @ [(m, a)])" using i(1) b(2) by (simp add: commands_inv_def s')
  moreover have "signals_inv E modes s' q qs" by (rule signals_inv_frame [OF i(2)]) (auto simp: s')
  moreover have "control_ok modes s'" using ctrl by (simp add: control_ok_def s')
  ultimately show ?thesis by (auto simp: sim_inv_def data_inv_def)
qed

lemma run_command_inv:
  assumes "sim_inv E modes s" "y_owner s = Idle" "DeferCommand E Owner m a s = Inr (False, s1)"
    "ss_state (y_server s1) = Loaded" "sim_call E Owner (Command_Call m a) s1 = Inr s'"
  shows "sim_inv E modes s'"
proof -
  have ctrl: "control_ok modes s" "data_inv E modes s" using assms(1) by (auto simp: sim_inv_def)
  have s1: "s1 = s" "\<not> ss_thread (y_server s)"
    using assms(3) by (auto simp: DeferCommand_def Let_def on_worker_def IsThreaded_def rbind_eq_Inr_iff split: if_splits)
  have nt: "y_worker s = No_Thread" using ctrl(1) s1(2) assms(2) by (auto simp: control_ok_def)
  have "THREAD_MODE_SINGLE_THREADED \<in> modes" using control_modes [OF ctrl(1)] nt assms(4) s1 by auto
  with call_inv [OF ctrl(2), of Owner "Command_Call m a"] s1(2) obtain b u sig where
    c: "sim_call E Owner (Command_Call m a) s = Inr (called s b u sig [(Owner, Command_Call m a)])"
    "data_inv E modes (called s b u sig [(Owner, Command_Call m a)])" by auto
  moreover have "control_ok modes (called s b u sig [(Owner, Command_Call m a)])"
    using ctrl(1) assms(2,4) nt s1 by (auto simp: control_ok_def)
  ultimately show ?thesis using assms(5) s1(1) by (simp add: sim_inv_def)
qed

lemma sim_step_inv:
  assumes "sim_step E modes s s'" "sim_inv E modes s" "env_ok E"
  shows "sim_inv E modes s'"
  using assms
proof (induction rule: sim_step.induct)
  case (call_start s mode)
  then have "data_inv E modes (s\<lparr>y_owner := Stop_Check (After_Start mode)\<rparr>)"
    by - (rule data_inv_frame [of E modes s], auto simp: sim_inv_def)
  with call_start show ?case by (auto simp: sim_inv_def control_ok_def)
next
  case (call_stop s)
  then have "data_inv E modes (s\<lparr>y_owner := Stop_Check After_Stop\<rparr>)"
    by - (rule data_inv_frame [of E modes s], auto simp: sim_inv_def)
  with call_stop show ?case by (auto simp: sim_inv_def control_ok_def)
next
  case (call_wait s)
  then have "data_inv E modes (s\<lparr>y_owner := Stop_Check After_Wait\<rparr>)"
    by - (rule data_inv_frame [of E modes s], auto simp: sim_inv_def)
  with call_wait show ?case by (auto simp: sim_inv_def control_ok_def)
next
  case (call_progress s delta)
  then have "data_inv E modes (s\<lparr>y_owner := Progress_Check delta\<rparr>)"
    by - (rule data_inv_frame [of E modes s], auto simp: sim_inv_def)
  with call_progress show ?case by (auto simp: sim_inv_def control_ok_def)
next
  case (defer_command m a s s')
  then show ?case by (blast intro: defer_inv)
next
  case (run_command s m a s1 s')
  then show ?case by (blast intro: run_command_inv)
next
  case (owner s s')
  from owner_step_inv [OF owner(2,3,1)] show ?case by auto
next
  case (worker time s s')
  from ThreadLoop_inv [OF worker(2,3,1)] show ?case by auto
next
  case (flush s max_time start now k cs emitted)
  obtain held pend q qs where i: "commands_inv E s held pend" "signals_inv E modes s q qs" and ctrl: "control_ok modes s"
    using flush(3) by (auto simp: data_inv_def sim_inv_def)
  from flush_signals [OF _ _ _ flush(2), of q] i(2) obtain q' where
    "signals_inv E modes (s\<lparr>y_command_server := (y_command_server s)\<lparr>m_state := cs\<rparr>, y_emitted := emitted\<rparr>) q' qs"
    by (auto simp: signals_inv_def) (metis append.assoc)
  moreover have "commands_inv E (s\<lparr>y_command_server := (y_command_server s)\<lparr>m_state := cs\<rparr>, y_emitted := emitted\<rparr>) held pend"
    by (rule commands_inv_frame [OF i(1)]) (use i(1) in \<open>auto simp: commands_inv_def\<close>)
  ultimately show ?case using ctrl by (auto simp: sim_inv_def data_inv_def control_ok_def)
qed

lemma sim_reachable_inv:
  assumes "(sim_step E modes)\<^sup>*\<^sup>* (new_sim_system u) s" "env_ok E"
  shows "sim_inv E modes s"
  using assms(1) by (induction rule: rtranclp_induct) (auto intro: sim_inv_new sim_step_inv assms(2))

section \<open>How the program counters move\<close>

definition pcs :: "('m, 'a, 'u, 'p) sim_system \<Rightarrow> owner_pc \<times> bool \<times> SimulationState \<times> ('m, 'a) worker_pc" where
  "pcs s = (y_owner s, ss_thread (y_server s), ss_state (y_server s), y_worker s)"

lemma sim_call_pcs: "sim_call E c call s = Inr s' \<Longrightarrow> pcs s' = pcs s"
proof -
  have one: "pcs t' = pcs t" if "QueueSignal E c m a t = Inr t'" for m a t t'
    using that by (auto simp: QueueSignal_def Let_def pcs_def rbind_eq_Inr_iff split: if_splits)
  have all: "pcs t' = pcs t" if "rfold (\<lambda>(m, a). QueueSignal E c m a) sig t = Inr t'" for sig t t'
    using that by (induction sig arbitrary: t) (auto simp: rbind_eq_Inr_iff dest!: one)
  assume "sim_call E c call s = Inr s'"
  then have "pcs s' = pcs (s\<lparr>y_simulation := fst (run_method E call (IsThreaded (y_server s)) (y_simulation s)), y_calls := y_calls s @ [(c, call)]\<rparr>)"
    by (auto simp: sim_call_def split: prod.splits dest!: all)
  then show ?thesis by (simp add: pcs_def)
qed

fun next_pc :: "SimulationState \<Rightarrow> ('m, 'a) worker_pc \<Rightarrow> ('m, 'a) worker_pc \<Rightarrow> bool" where
  "next_pc st Loop_Entry pc = (pc = Loop_Load)"
| "next_pc st Loop_Load pc = (pc = Loop_Loaded)"
| "next_pc st Loop_Loaded pc = (pc = Loop_Test)"
| "next_pc st Loop_Test pc = (pc = (if st = Loaded then Loop_Take else Loop_Unload))"
| "next_pc st Loop_Take pc = (\<exists>b. pc = Loop_Process b)"
| "next_pc st (Loop_Process b) pc = (pc = Loop_Progress)"
| "next_pc st Loop_Progress pc = (pc = Loop_Flush)"
| "next_pc st Loop_Flush pc = (pc = Loop_Test)"
| "next_pc st Loop_Unload pc = (pc = Loop_Unloaded)"
| "next_pc st Loop_Unloaded pc = (pc = Finished)"
| "next_pc st pc0 pc = False"

definition next_state :: "('m, 'a) worker_pc \<Rightarrow> SimulationState \<Rightarrow> SimulationState" where
  "next_state pc st = (case pc of Loop_Loaded \<Rightarrow> Loaded | Loop_Unloaded \<Rightarrow> Unloaded | _ \<Rightarrow> st)"

lemma ThreadLoop_pcs:
  assumes "sim_inv E modes s" "ThreadLoop E time s = Some (Inr s')"
  shows "y_owner s' = y_owner s \<and> ss_thread (y_server s') = ss_thread (y_server s) \<and>
    ss_state (y_server s') = next_state (y_worker s) (ss_state (y_server s)) \<and>
    next_pc (ss_state (y_server s)) (y_worker s) (y_worker s')"
proof (cases "y_worker s")
  case (Loop_Process b)
  obtain held pend q qs where i: "commands_inv E s held pend" "signals_inv E modes s q qs" and ctrl: "control_ok modes s"
    using assms(1) by (auto simp: data_inv_def sim_inv_def)
  have "signals_ok E (ss_deferred_signals (y_server s)) qs" "on_worker Worker (y_server s)" "tcmd_rep (en_tlayout E) b held"
    using i Loop_Process worker_running [OF ctrl] by (auto simp: signals_inv_def commands_inv_def on_worker_def)
  from ThreadLoop_process_ok [OF this] Loop_Process assms(2) show ?thesis by (auto simp: ThreadLoop_def next_state_def)
qed (use assms(2) in \<open>auto simp: ThreadLoop_def ThreadLoop_entry_def ThreadLoop_test_def ThreadLoop_take_def ThreadLoop_flush_def tcmd_move_ok
    rbind_eq_Inr_iff next_state_def pcs_def split: if_splits dest!: sim_call_pcs\<close>)

section \<open>Properties\<close>


text \<open>
  C20: every command that was deferred is run on the worker's thread, once and in the order in which the commands were deferred: those run
  are a prefix of those deferred, and the rest is in the buffer the worker has taken and then in \<open>m_deferred_commands\<close>.
\<close>

theorem deferred_commands_run_in_order:
  assumes "env_ok E" "(sim_step E modes)\<^sup>*\<^sup>* (new_sim_system u) s"
  shows "\<exists>held pend. y_deferred s = commands_run (y_calls s) @ held @ pend \<and> held_ok E (y_worker s) held \<and>
    tcmd_rep (en_tlayout E) (ss_deferred_commands (y_server s)) pend"
  using sim_reachable_inv [OF assms(2,1)] by (auto simp: sim_inv_def data_inv_def commands_inv_def signals_ok_def)

text \<open>
  C21: a simulation that always runs on its own thread hands its signals to the main thread in the order in which they were queued, each
  once: those emitted are a prefix of those queued, and the rest is in the queue of the command server and then in
  \<open>m_deferred_signals\<close>.
\<close>

theorem signals_reach_the_main_thread:
  assumes "env_ok E" "(sim_step E {THREAD_MODE_MULTI_THREADED})\<^sup>*\<^sup>* (new_sim_system u) s"
  shows "\<exists>q qs. y_queued s = y_emitted s @ map (projr \<circ> snd) (flat q) @ qs \<and>
    state_rep (server_rep (en_layout E) (en_tlayout E)) 0 (m_state (y_command_server s)) q \<and>
    tcmd_rep (en_tlayout E) (ss_deferred_signals (y_server s)) qs"
  using sim_reachable_inv [OF assms(2,1)] by (auto simp: sim_inv_def data_inv_def signals_inv_def signals_ok_def)

fun worker_rank :: "('m, 'a) worker_pc \<Rightarrow> nat" where
  "worker_rank Loop_Take = 7"
| "worker_rank (Loop_Process b) = 6"
| "worker_rank Loop_Progress = 5"
| "worker_rank Loop_Flush = 4"
| "worker_rank Loop_Test = 3"
| "worker_rank Loop_Unload = 2"
| "worker_rank Loop_Unloaded = 1"
| "worker_rank pc = 0"

lemma stopped_thread_ends':
  assumes "sim_inv E modes s" "env_ok E" "y_owner s = Join c" "ss_state (y_server s) = Unloading \<or> ss_state (y_server s) = Unloaded"
    and "worker_rank (y_worker s) \<le> n"
  shows "\<exists>k \<le> n. \<exists>s'. ((\<lambda>s s'. ThreadLoop E time s = Some (Inr s')) ^^ k) s s' \<and> y_owner s' = Join c \<and> WaitUntilStopped_join c s' \<noteq> None"
  using assms
proof (induction n arbitrary: s)
  case 0
  then have "y_worker s = No_Thread \<or> y_worker s = Finished"
    by (cases "y_worker s") (auto simp: sim_inv_def control_ok_def)
  then have "WaitUntilStopped_join c s \<noteq> None" using 0(1,3) by (auto simp: WaitUntilStopped_join_def IsThreaded_def sim_inv_def control_ok_def)
  then show ?case using 0(3) by (intro exI [of _ 0]) auto
next
  case (Suc n)
  show ?case
  proof (cases "y_worker s = No_Thread \<or> y_worker s = Finished")
    case True
    then have "WaitUntilStopped_join c s \<noteq> None"
      using Suc.prems(1,3) by (auto simp: WaitUntilStopped_join_def IsThreaded_def sim_inv_def control_ok_def)
    then show ?thesis using Suc.prems(3) by (intro exI [of _ 0]) auto
  next
    case False
    have wk: "worker_ok (y_worker s) (ss_state (y_server s)) (lifecycle (y_calls s))" using Suc.prems(1) by (simp add: sim_inv_def control_ok_def)
    obtain r where r: "ThreadLoop E time s = Some r" using False by (cases "y_worker s") (auto simp: ThreadLoop_def)
    from ThreadLoop_inv [OF Suc.prems(1,2) r] Suc.prems(3) obtain s' where s': "r = Inr s'" "sim_inv E modes s'" by auto
    note p = ThreadLoop_pcs [OF Suc.prems(1) r [unfolded s'(1)]]
    have st: "ss_state (y_server s') = Unloading \<or> ss_state (y_server s') = Unloaded" "worker_rank (y_worker s') < worker_rank (y_worker s)"
      using p wk Suc.prems(4) False by (cases "y_worker s"; auto simp: next_state_def)+
    from Suc.IH [OF s'(2) Suc.prems(2) _ st(1)] p Suc.prems(3,5) st(2) obtain k t where
      "k \<le> n" "((\<lambda>s s'. ThreadLoop E time s = Some (Inr s')) ^^ k) s' t" "y_owner t = Join c" "WaitUntilStopped_join c t \<noteq> None" by auto
    moreover have "((\<lambda>s s'. ThreadLoop E time s = Some (Inr s')) ^^ Suc k) s t"
      by (rule relpowp_Suc_I2 [OF _ calculation(2)]) (simp add: r s'(1))
    ultimately show ?thesis by (intro exI [of _ "Suc k"] conjI exI [of _ t]) auto
  qed
qed

text \<open>
  C22: once \<open>m_state\<close> is \<open>Unloading\<close>, which is so when \<open>StopSimulation\<close> found the simulation loaded, the join in
  \<open>WaitUntilStopped\<close> waits for at most seven more steps of the worker, which do not fail.
\<close>

theorem stopped_thread_ends:
  assumes "env_ok E" "(sim_step E modes)\<^sup>*\<^sup>* (new_sim_system u) s" "y_owner s = Join c"
    and "ss_state (y_server s) = Unloading \<or> ss_state (y_server s) = Unloaded"
  shows "\<exists>k \<le> 7. \<exists>s'. ((\<lambda>s s'. ThreadLoop E time s = Some (Inr s')) ^^ k) s s' \<and> y_owner s' = Join c \<and> WaitUntilStopped_join c s' \<noteq> None"
proof (rule stopped_thread_ends' [OF sim_reachable_inv [OF assms(2,1)] assms(1,3,4)])
  show "worker_rank (y_worker s) \<le> 7" by (cases "y_worker s") auto
qed

section \<open>What goes wrong\<close>

text \<open>A stop that comes while the simulation loads has no effect: the join after it never returns.\<close>

lemma join_while_loading_step:
  assumes "sim_inv E modes s" "env_ok E" "y_owner s = Join c" "ss_thread (y_server s)"
    "ss_state (y_server s) = Loading \<or> ss_state (y_server s) = Loaded" "sim_step E modes s s'"
  shows "y_owner s' = Join c \<and> ss_thread (y_server s') \<and> (ss_state (y_server s') = Loading \<or> ss_state (y_server s') = Loaded)"
  using assms(6,1-5)
proof (induction rule: sim_step.induct)
  case (defer_command m a s s')
  then show ?case by (auto simp: DeferCommand_def Let_def rbind_eq_Inr_iff split: if_splits)
next
  case (owner s s')
  then have "y_worker s \<noteq> Finished" by (auto simp: sim_inv_def control_ok_def)
  then show ?case using owner by (auto simp: owner_step_def WaitUntilStopped_join_def IsThreaded_def)
next
  case (worker time s s')
  have "worker_ok (y_worker s) (ss_state (y_server s)) (lifecycle (y_calls s))" using worker(2) by (simp add: sim_inv_def control_ok_def)
  then show ?case using ThreadLoop_pcs [OF worker(2,1)] worker by (cases "y_worker s") (auto simp: next_state_def)
qed auto

lemma join_while_loading_never_returns:
  assumes "sim_inv E modes s" "env_ok E" "y_owner s = Join c" "ss_thread (y_server s)"
    "ss_state (y_server s) = Loading \<or> ss_state (y_server s) = Loaded" "(sim_step E modes)\<^sup>*\<^sup>* s s'"
  shows "y_owner s' = Join c"
proof -
  have "sim_inv E modes s' \<and> y_owner s' = Join c \<and> ss_thread (y_server s') \<and> (ss_state (y_server s') = Loading \<or> ss_state (y_server s') = Loaded)"
    using assms(6)
  proof (induction rule: rtranclp_induct)
    case (step t t')
    then show ?case using sim_step_inv [OF step(2)] join_while_loading_step [OF _ assms(2) _ _ _ step(2)] assms(2) by auto
  qed (use assms in auto)
  then show ?thesis by simp
qed

section \<open>Schedules\<close>

text \<open>A list of choices that gives one interleaving.\<close>

datatype ('m, 'a) choice = Call_Start ThreadMode | Call_Stop | Call_Wait | Defer 'm 'a | Owner_Step | Worker_Step

fun take_choice ::
    "('m, 'a, 'u) sim_env \<Rightarrow> ('m, 'a) choice \<Rightarrow> ('m, 'a, 'u, 'p) sim_system \<Rightarrow> ('m, 'a, 'u, 'p) sim_system option" where
  "take_choice E (Call_Start mode) s = (case y_owner s of Idle \<Rightarrow> Some (s\<lparr>y_owner := Stop_Check (After_Start mode)\<rparr>) | _ \<Rightarrow> None)"
| "take_choice E Call_Stop s = (case y_owner s of Idle \<Rightarrow> Some (s\<lparr>y_owner := Stop_Check After_Stop\<rparr>) | _ \<Rightarrow> None)"
| "take_choice E Call_Wait s = (case y_owner s of Idle \<Rightarrow> Some (s\<lparr>y_owner := Stop_Check After_Wait\<rparr>) | _ \<Rightarrow> None)"
| "take_choice E (Defer m a) s = (case DeferCommand E Owner m a s of Inr (True, s') \<Rightarrow> Some s' | _ \<Rightarrow> None)"
| "take_choice E Owner_Step s = (case owner_step E s of Some (Inr s') \<Rightarrow> Some s' | _ \<Rightarrow> None)"
| "take_choice E Worker_Step s = (case ThreadLoop E 0 s of Some (Inr s') \<Rightarrow> Some s' | _ \<Rightarrow> None)"

fun schedule ::
    "('m, 'a, 'u) sim_env \<Rightarrow> ('m, 'a) choice list \<Rightarrow> ('m, 'a, 'u, 'p) sim_system \<Rightarrow> ('m, 'a, 'u, 'p) sim_system option" where
  "schedule E [] s = Some s"
| "schedule E (c # cs) s = (case take_choice E c s of None \<Rightarrow> None | Some s' \<Rightarrow> schedule E cs s')"

lemma take_choice_step:
  assumes "take_choice E c s = Some s'" "\<And>mode. c = Call_Start mode \<Longrightarrow> mode \<in> modes"
  shows "sim_step E modes s s'"
proof (cases c)
  case (Call_Start mode)
  then show ?thesis using assms by (auto split: owner_pc.splits intro: sim_step.call_start)
next
  case Call_Stop
  then show ?thesis using assms(1) by (auto split: owner_pc.splits intro: sim_step.call_stop)
next
  case Call_Wait
  then show ?thesis using assms(1) by (auto split: owner_pc.splits intro: sim_step.call_wait)
next
  case (Defer m a)
  then show ?thesis using assms(1) by (auto split: sum.splits bool.splits intro: sim_step.defer_command)
next
  case Owner_Step
  then show ?thesis using assms(1) by (auto split: sum.splits option.splits intro: sim_step.owner)
next
  case Worker_Step
  then show ?thesis using assms(1) by (auto split: sum.splits option.splits intro: sim_step.worker)
qed

lemma schedule_steps:
  assumes "schedule E cs s = Some s'" "\<forall>mode. Call_Start mode \<in> set cs \<longrightarrow> mode \<in> modes"
  shows "(sim_step E modes)\<^sup>*\<^sup>* s s'"
  using assms
proof (induction cs arbitrary: s)
  case (Cons c cs)
  then obtain t where t: "take_choice E c s = Some t" "schedule E cs t = Some s'" by (auto split: option.splits)
  have "sim_step E modes s t" using Cons.prems(2) by (intro take_choice_step [OF t(1)]) auto
  moreover have "(sim_step E modes)\<^sup>*\<^sup>* t s'" using Cons.IH [OF t(2)] Cons.prems(2) by auto
  ultimately show ?case by (rule converse_rtranclp_into_rtranclp)
qed simp

text \<open>An example: commands append to a list, loading and each command send a signal.\<close>

definition example_env :: "(nat, string, string list) sim_env" where
  "example_env =
     \<lparr>en_methods = \<lparr>CanSimulationStart = (\<lambda>u. True), DoSimulationLoad = (\<lambda>u. ([], [(1, ''loaded'')])),
        DoSimulationUnload = (\<lambda>u. ([], [(1, ''unloaded'')])), DoSimulationProgress = (\<lambda>thr delta u. (u, [])),
        DoSimulationThreadProgress = (\<lambda>u. (u, [])), do_command = (\<lambda>m a u. (u @ [a], [(2, a)]))\<rparr>,
      en_layout = small_layout, en_tlayout = \<lparr>tl_pointer = 1, tl_args = (\<lambda>m. 1)\<rparr>, en_instance_id = 7, en_rendering_id = 8\<rparr>"

definition start_choices :: "(nat, string) choice list" where
  "start_choices = [Call_Start THREAD_MODE_MULTI_THREADED, Owner_Step, Owner_Step, Owner_Step, Owner_Step]"

definition run_choices :: "(nat, string) choice list" where
  "run_choices = start_choices @ [Worker_Step, Worker_Step, Worker_Step, Defer 5 ''a'', Worker_Step, Defer 5 ''b'', Worker_Step,
     Defer 5 ''c'', Worker_Step, Call_Wait, Owner_Step, Owner_Step]"

lemma example_env_ok: "env_ok example_env"
  by (simp add: env_ok_def example_env_def)

definition running :: "(nat, string, string list, nat) sim_system" where
  "running = the (schedule example_env run_choices (new_sim_system []))"

lemma running_schedule: "schedule example_env run_choices (new_sim_system []) = Some running"
  "y_owner running = Join After_Wait" "ss_state (y_server running) = Unloading"
  "y_deferred running = [(5, ''a''), (5, ''b''), (5, ''c'')]" "commands_run (y_calls running) = [(5, ''a''), (5, ''b'')]"
  "y_queued running = [(1, ''loaded''), (2, ''a''), (2, ''b'')]" "y_worker running = Loop_Progress"
  by (code_simp)+

lemma running_reachable: "(sim_step example_env {THREAD_MODE_MULTI_THREADED})\<^sup>*\<^sup>* (new_sim_system []) running"
  by (rule schedule_steps [OF running_schedule(1)]) (simp add: run_choices_def start_choices_def)


theorem deferred_commands_run_in_order_witness:
  "\<exists>held pend. [(5, ''a''), (5, ''b''), (5, ''c'')] = [(5, ''a''), (5, ''b'')] @ held @ pend \<and>
    held_ok example_env Loop_Progress held \<and> tcmd_rep (en_tlayout example_env) (ss_deferred_commands (y_server running)) pend"
  using deferred_commands_run_in_order [OF example_env_ok running_reachable] by (simp only: running_schedule)

theorem signals_reach_the_main_thread_witness:
  "\<exists>q qs. [(1, ''loaded''), (2, ''a''), (2, ''b'')] = y_emitted running @ map (projr \<circ> snd) (flat q) @ qs \<and>
    state_rep (server_rep (en_layout example_env) (en_tlayout example_env)) 0 (m_state (y_command_server running)) q \<and>
    tcmd_rep (en_tlayout example_env) (ss_deferred_signals (y_server running)) qs"
  using signals_reach_the_main_thread [OF example_env_ok running_reachable] by (simp only: running_schedule)

theorem stopped_thread_ends_witness:
  "\<exists>k \<le> 7. \<exists>s'. ((\<lambda>s s'. ThreadLoop example_env 0 s = Some (Inr s')) ^^ k) running s' \<and> y_owner s' = Join After_Wait \<and>
    WaitUntilStopped_join After_Wait s' \<noteq> None"
  by (rule stopped_thread_ends [OF example_env_ok running_reachable]) (simp_all add: running_schedule)

section \<open>What goes wrong: examples\<close>

lemma new_thread_can_fail:
  "map_option (\<lambda>s. (y_owner s, ThreadLoop example_env 0 s))
     (schedule example_env [Call_Start THREAD_MODE_MULTI_THREADED, Owner_Step, Owner_Step, Owner_Step]
       (new_sim_system [] :: (nat, string, string list, nat) sim_system)) = Some (Start_Assign, Some (Inl Assertion))"
  by code_simp

text \<open>A simulation that is started and waited for at once: the owner is in its join, the simulation still loads.\<close>

lemma stop_while_loading_is_lost:
  "\<exists>s :: (nat, string, string list, nat) sim_system.
    (sim_step example_env {THREAD_MODE_MULTI_THREADED})\<^sup>*\<^sup>* (new_sim_system []) s \<and> y_owner s = Join After_Wait \<and>
    (\<forall>s'. (sim_step example_env {THREAD_MODE_MULTI_THREADED})\<^sup>*\<^sup>* s s' \<longrightarrow> y_owner s' = Join After_Wait)"
proof -
  let ?cs = "start_choices @ [Call_Wait, Owner_Step]"
  let ?s = "the (schedule example_env ?cs (new_sim_system [] :: (nat, string, string list, nat) sim_system))"
  have run: "schedule example_env ?cs (new_sim_system []) = Some ?s" "y_owner ?s = Join After_Wait" "ss_thread (y_server ?s)"
    "ss_state (y_server ?s) = Loading" by code_simp+
  have reach: "(sim_step example_env {THREAD_MODE_MULTI_THREADED})\<^sup>*\<^sup>* (new_sim_system []) ?s"
    by (rule schedule_steps [OF run(1)]) (simp add: start_choices_def)
  have "y_owner s' = Join After_Wait" if "(sim_step example_env {THREAD_MODE_MULTI_THREADED})\<^sup>*\<^sup>* ?s s'" for s'
    by (rule join_while_loading_never_returns [OF sim_reachable_inv [OF reach example_env_ok] example_env_ok run(2,3) _ that])
      (simp add: run(4))
  then show ?thesis using reach run(2) by blast
qed

text \<open>
  When the worker has ended and was joined, the signal queued by the unload is still in \<open>m_deferred_signals\<close>, and the command that came too
  late in \<open>m_deferred_commands\<close>.
\<close>

lemma unload_signal_stays:
  "map_option (\<lambda>s. (y_owner s, y_worker s, TNumCommands (ss_deferred_signals (y_server s)), TNumCommands (ss_deferred_commands (y_server s))))
     (schedule example_env (run_choices @ replicate 5 Worker_Step @ [Owner_Step])
       (new_sim_system [] :: (nat, string, string list, nat) sim_system)) = Some (Idle, No_Thread, 1, 1)"
  by code_simp

end
