(* ===== verification/UnorderedErase.thy ===== *)
theory UnorderedErase
  imports Prelude "HOL-Library.Multiset"
begin

text \<open>
  \<open>unordered_erase\<close> and \<open>unordered_erase_it\<close> of \<open>src/Util/Util.h\<close>, which erase from a vector by moving its last item, and what they
  do to the items as a multiset.
\<close>

definition unordered_erase_it :: "'a list \<Rightarrow> nat \<Rightarrow> 'a list" where
  "unordered_erase_it vector it = butlast (vector[it := last vector])"

fun find_index :: "'a list \<Rightarrow> 'a \<Rightarrow> nat" where
  "find_index [] item = 0"
| "find_index (x # xs) item = (if x = item then 0 else Suc (find_index xs item))"

definition unordered_erase :: "'a \<Rightarrow> 'a list \<Rightarrow> 'a list" where
  "unordered_erase item vector =
     (let it = find_index vector item
      in if it \<noteq> length vector then unordered_erase_it vector it else vector)"

lemma erase_it_length [simp]: "xs \<noteq> [] \<Longrightarrow> length (unordered_erase_it xs it) = length xs - 1"
  by (simp add: unordered_erase_it_def)

lemma mset_erase_it:
  assumes "it < length xs"
  shows "mset (unordered_erase_it xs it) = mset xs - {#xs ! it#}"
proof -
  let ?ys = "xs[it := last xs]"
  have ne: "?ys \<noteq> []" using assms by auto
  have last: "last ?ys = last xs"
    using assms last_conv_nth [OF ne] last_conv_nth [of xs] by (cases "xs = []") (auto simp: nth_list_update)
  have "mset ?ys = add_mset (last xs) (mset xs - {#xs ! it#})" by (rule mset_update [OF assms])
  moreover have "mset ?ys = add_mset (last ?ys) (mset (butlast ?ys))"
    using arg_cong [OF append_butlast_last_id [OF ne], of mset] by simp
  ultimately show ?thesis using last by (simp add: unordered_erase_it_def)
qed

lemma find_index_found: "x \<in> set xs \<Longrightarrow> find_index xs x < length xs \<and> xs ! find_index xs x = x"
  by (induction xs) auto

lemma find_index_absent: "x \<notin> set xs \<Longrightarrow> find_index xs x = length xs"
  by (induction xs) auto

lemma mset_erase: "mset (unordered_erase x xs) = mset xs - {#x#}"
proof (cases "x \<in> set xs")
  case True
  then show ?thesis using find_index_found [OF True] mset_erase_it [of "find_index xs x" xs] by (simp add: unordered_erase_def Let_def)
next
  case False
  then show ?thesis using find_index_absent [OF False] by (simp add: unordered_erase_def Let_def)
qed

lemma set_of_difference:
  assumes "distinct xs" "mset ys = mset xs - {#x#}"
  shows "distinct ys" "set ys = set xs - {x}"
proof -
  obtain zs where zs: "mset ys = mset zs" "distinct zs" "set zs = set xs - {x}"
  proof (cases "x \<in> set xs")
    case True
    then obtain as bs where xs: "xs = as @ x # bs" by (meson split_list)
    show ?thesis using assms by (intro that [of "as @ bs"]) (auto simp: xs)
  next
    case False
    then show ?thesis using assms by (intro that [of xs]) (auto simp: diff_single_trivial)
  qed
  show "distinct ys" using zs(2) mset_eq_imp_distinct_iff [OF zs(1)] by simp
  show "set ys = set xs - {x}" using zs(3) mset_eq_setD [OF zs(1)] by simp
qed

lemma erase_distinct [simp]: "distinct xs \<Longrightarrow> distinct (unordered_erase x xs)"
  using set_of_difference(1) [OF _ mset_erase] .

lemma set_erase [simp]: "distinct xs \<Longrightarrow> set (unordered_erase x xs) = set xs - {x}"
  using set_of_difference(2) [OF _ mset_erase] .

lemma set_erase_it:
  "distinct xs \<Longrightarrow> it < length xs \<Longrightarrow> distinct (unordered_erase_it xs it) \<and> set (unordered_erase_it xs it) = set xs - {xs ! it}"
  using set_of_difference [OF _ mset_erase_it] by blast

lemma erase_it_before: "j < it \<Longrightarrow> it < length xs \<Longrightarrow> unordered_erase_it xs it ! j = xs ! j"
  by (simp add: unordered_erase_it_def nth_butlast)

lemma erase_many:
  "distinct xs \<Longrightarrow> distinct (fold (\<lambda>i. unordered_erase (f i)) is xs) \<and> set (fold (\<lambda>i. unordered_erase (f i)) is xs) = set xs - f ` set is"
  by (induction "is" arbitrary: xs) auto

end
