(* ===== verification/UniverseSimulation.thy ===== *)
theory UniverseSimulation
  imports SpatialWorld UnorderedErase
begin

text \<open>
  \<open>src/UniverseSimulation.h\<close> and \<open>UniverseSimulation.cpp\<close> with the modules that they drive: \<open>SimulationModule.cpp\<close>,
  \<open>SpatialModule.cpp\<close>, \<open>UniverseModule.cpp\<close>, \<open>GalaxyModule.cpp\<close> and the part of \<open>DebugRenderModule.cpp\<close> that holds an entity.

  Entities are numbers; what the factory keeps of an entity is its component types and the two components with
  pointers to worlds. A reference is an occurrence of the entity in a list that owns references: the counts of the poly factory
  are the numbers of owners. A \<open>WorldPtr\<close> is an address in \<open>si_memory\<close>, a null pointer is \<open>None\<close>, and a \<open>ScalePtr\<close> is the world's address with
  the index of the scale. The tasks of one group run on different worlds and different scales; they are run in the order of their indices.
  Time stamps, the status of the region file that a new world opens, and what positions give are parameters.
\<close>

section \<open>State\<close>

datatype WorldConstructType = Universe | Galaxy | StarSystem | Planet | SpaceStation | SpaceShip | Vehicle

datatype ComponentKind =
    CName | CUniverse | CGalaxy | CRelationship | CWorld | CScenario | CTransform | CPosition | CRotation | CEntity | CLoader

record SimEntity =
  ent_types :: "ComponentKind list"
  ent_world_type :: WorldConstructType
  ent_world :: "ptr option"
  ent_parent_world :: "ptr option"

definition k_universe_type :: "ComponentKind list" where
  "k_universe_type = [CUniverse, CRelationship, CWorld, CScenario, CTransform]"

definition k_galaxy_type :: "ComponentKind list" where
  "k_galaxy_type = [CGalaxy, CRelationship, CPosition, CRotation, CEntity, CLoader, CTransform]"

definition k_simulated_galaxy_type :: "ComponentKind list" where
  "k_simulated_galaxy_type = [CName, CGalaxy, CRelationship, CPosition, CRotation, CEntity, CWorld, CLoader, CTransform]"

datatype update_callback = Spatial3D_Update | DebugRender_Update | Universe_Update

record 'd SpatialTypeData =
  st_data :: "'d TypeData"
  st_world_updates :: "update_callback list"
  st_scale_updates :: "update_callback list"
  st_worlds :: "ptr list"
  st_scales :: "(ptr \<times> nat) list"

record ('d, 'db) SimWorld =
  sw_world :: "('d, 'db) World"
  sw_type :: WorldConstructType
  sw_loaders :: "nat list"

record ThreadContext =
  tc_load_commands :: "nat list"
  tc_unload_commands :: "nat list"

text \<open>\<open>si_owners\<close> are the references that others hold: the server's own entities. \<open>si_context\<close> is the context of the thread.\<close>

record ('d, 'db) Simulation =
  si_unloading :: bool
  si_frame_index :: "64 word"
  si_frame_start_time :: int
  si_contexts :: "ThreadContext list"
  si_context :: "nat option"
  si_spatial_worlds :: "ptr list"
  si_spatial_scales :: "(ptr \<times> nat) list"
  si_types :: "WorldConstructType \<Rightarrow> 'd SpatialTypeData"
  si_memory :: "ptr \<Rightarrow> ('d, 'db) SimWorld option"
  si_next :: ptr
  si_factory :: "(nat \<times> SimEntity) list"
  si_updating_entities :: "nat list"
  si_universes :: "nat list"
  si_galaxies :: "nat list"
  si_debug_entity :: "nat option"
  si_owners :: "nat list"

text \<open>\<open>se_open\<close> opens the region file of an entity's world; \<open>se_loader\<close> and \<open>se_required\<close> are what positions give.\<close>

record 'db sim_surroundings =
  se_open :: "WorldConstructType \<Rightarrow> nat \<Rightarrow> db_status \<times> 'db"
  se_loader :: "nat \<Rightarrow> Loader"
  se_required :: "nat \<Rightarrow> vec3i"

section \<open>Worlds and entities of the simulation\<close>

definition world_of :: "('d, 'db) Simulation \<Rightarrow> ptr \<Rightarrow> ('d, 'db) SimWorld res" where
  "world_of s p = (case si_memory s p of None \<Rightarrow> Inl Dangling | Some W \<Rightarrow> Inr W)"

definition put_world :: "ptr \<Rightarrow> ('d, 'db) SimWorld \<Rightarrow> ('d, 'db) Simulation \<Rightarrow> ('d, 'db) Simulation" where
  "put_world p W s = s\<lparr>si_memory := (si_memory s)(p := Some W)\<rparr>"

definition on_world ::
    "ptr \<Rightarrow> (('d, 'db) World \<Rightarrow> ('d, 'db) World res) \<Rightarrow> ('d, 'db) Simulation \<Rightarrow> ('d, 'db) Simulation res" where
  "on_world p f s =
     rbind (world_of s p) (\<lambda>W. rbind (f (sw_world W)) (\<lambda>w. Inr (put_world p (W\<lparr>sw_world := w\<rparr>) s)))"

definition entity_of :: "('d, 'db) Simulation \<Rightarrow> nat \<Rightarrow> SimEntity res" where
  "entity_of s e = (case map_of (si_factory s) e of None \<Rightarrow> Inl Dangling | Some x \<Rightarrow> Inr x)"

definition put_entity :: "nat \<Rightarrow> SimEntity \<Rightarrow> ('d, 'db) Simulation \<Rightarrow> ('d, 'db) Simulation" where
  "put_entity e x s = s\<lparr>si_factory := AList.update e x (si_factory s)\<rparr>"

definition GetType :: "('d, 'db) Simulation \<Rightarrow> WorldConstructType \<Rightarrow> 'd SpatialTypeData" where
  "GetType s type = si_types s type"

definition put_type :: "WorldConstructType \<Rightarrow> 'd SpatialTypeData \<Rightarrow> ('d, 'db) Simulation \<Rightarrow> ('d, 'db) Simulation" where
  "put_type t T s = s\<lparr>si_types := (si_types s)(t := T)\<rparr>"

section \<open>The spatial module\<close>

definition OnLoadSpatialEntity ::
    "'db sim_surroundings \<Rightarrow> nat \<Rightarrow> ('d, 'db) Simulation \<Rightarrow> ('d, 'db) Simulation res" where
  "OnLoadSpatialEntity E e s =
     rbind (entity_of s e) (\<lambda>x.
       let t = ent_world_type x; type = GetType s t
       in rbind (CreateWorld (st_data type) (se_open E t e)) (\<lambda>created.
            case created of
              None \<Rightarrow> Inl Null_Pointer
            | Some w \<Rightarrow>
                let p = si_next s;
                    s1 = put_world p \<lparr>sw_world = w, sw_type = t, sw_loaders = []\<rparr>
                           (put_entity e (x\<lparr>ent_world := Some p\<rparr>) (s\<lparr>si_next := Suc p\<rparr>));
                    s2 = put_type t (type\<lparr>st_worlds := st_worlds type @ [p]\<rparr>)
                           (s1\<lparr>si_spatial_worlds := si_spatial_worlds s1 @ [p]\<rparr>)
                in WorldForEachScale w (\<lambda>i s.
                     Inr (put_type t ((GetType s t)\<lparr>st_scales := st_scales (GetType s t) @ [(p, i)]\<rparr>)
                       (s\<lparr>si_spatial_scales := si_spatial_scales s @ [(p, i)]\<rparr>))) s2))"

definition OnUnloadSpatialEntity :: "nat \<Rightarrow> ('d, 'db) Simulation \<Rightarrow> ('d, 'db) Simulation res" where
  "OnUnloadSpatialEntity e s =
     rbind (entity_of s e) (\<lambda>x.
       case ent_world x of
         None \<Rightarrow> Inl Null_Pointer
       | Some p \<Rightarrow>
           rbind (on_world p (\<lambda>w. Inr (UnloadWorld w)) s) (\<lambda>s1. Inr (put_entity e (x\<lparr>ent_world := None\<rparr>) s1)))"

definition OnLoadLoaderEntity :: "nat \<Rightarrow> ('d, 'db) Simulation \<Rightarrow> ('d, 'db) Simulation res" where
  "OnLoadLoaderEntity e s =
     rbind (entity_of s e) (\<lambda>x.
       case ent_parent_world x of
         None \<Rightarrow> Inl Null_Pointer
       | Some p \<Rightarrow> rbind (world_of s p) (\<lambda>W. Inr (put_world p (W\<lparr>sw_loaders := sw_loaders W @ [e]\<rparr>) s)))"

definition OnUnloadLoaderEntity :: "nat \<Rightarrow> ('d, 'db) Simulation \<Rightarrow> ('d, 'db) Simulation res" where
  "OnUnloadLoaderEntity e s =
     rbind (entity_of s e) (\<lambda>x.
       case ent_parent_world x of
         None \<Rightarrow> Inl Null_Pointer
       | Some p \<Rightarrow> rbind (world_of s p) (\<lambda>W. Inr (put_world p (W\<lparr>sw_loaders := unordered_erase e (sw_loaders W)\<rparr>) s)))"

definition spatial_IsUnloadDone :: "('d, 'db) Simulation \<Rightarrow> bool" where
  "spatial_IsUnloadDone s \<longleftrightarrow> si_spatial_worlds s = [] \<and> si_spatial_scales s = []"

definition spatial_Uninitialize :: "('d, 'db) Simulation \<Rightarrow> ('d, 'db) Simulation res" where
  "spatial_Uninitialize s =
     rbind (assert_that (si_spatial_worlds s = [])) (\<lambda>_.
     rbind (assert_that (si_spatial_scales s = [])) (\<lambda>_. Inr s))"

text \<open>The body of the loop in \<open>Update\<close> for a world that is to be removed.\<close>

definition remove_world :: "nat \<Rightarrow> ptr \<Rightarrow> ('d, 'db) SimWorld \<Rightarrow> ('d, 'db) Simulation \<Rightarrow> ('d, 'db) Simulation res" where
  "remove_world it p W s =
     (let t = sw_type W
      in rbind (WorldForEachScale (sw_world W) (\<lambda>i s.
             Inr (put_type t ((GetType s t)\<lparr>st_scales := unordered_erase (p, i) (st_scales (GetType s t))\<rparr>)
               (s\<lparr>si_spatial_scales := unordered_erase (p, i) (si_spatial_scales s)\<rparr>))) s) (\<lambda>s1.
         let s2 = put_type t ((GetType s1 t)\<lparr>st_worlds := unordered_erase p (st_worlds (GetType s1 t))\<rparr>) s1;
             s3 = s2\<lparr>si_spatial_worlds := unordered_erase_it (si_spatial_worlds s2) it\<rparr>
         in rbind (DestroyWorld (sw_world W)) (\<lambda>_. Inr (s3\<lparr>si_memory := (si_memory s3)(p := None)\<rparr>))))"

text \<open>One round of the loop: the next iterator and the new state.\<close>

definition update_round :: "nat \<Rightarrow> ('d, 'db) Simulation \<Rightarrow> (nat \<times> ('d, 'db) Simulation) res" where
  "update_round it s =
     (let p = si_spatial_worlds s ! it
      in rbind (world_of s p) (\<lambda>W.
         rbind (if IsWorldUnloading (sw_world W) then WorldGetNodeCount (sw_world W) else Inr 1) (\<lambda>count.
           if count = 0 then rbind (remove_world it p W s) (\<lambda>s'. Inr (it, s')) else Inr (Suc it, s))))"

lemma rfold_keeps: "rfold f xs s = Inr s' \<Longrightarrow> (\<And>x s s'. f x s = Inr s' \<Longrightarrow> g s' = g s) \<Longrightarrow> g s' = g s"
proof (induction xs arbitrary: s)
  case (Cons x xs)
  then obtain t where "f x s = Inr t" "rfold f xs t = Inr s'" by (auto simp: rbind_eq_Inr_iff)
  then show ?case using Cons.IH [of t] Cons.prems(2) [of x s t] Cons.prems(2) by simp
qed simp

lemma ForEachScale_keeps:
  "WorldForEachScale w f s = Inr s' \<Longrightarrow> (\<And>i s s'. f i s = Inr s' \<Longrightarrow> g s' = g s) \<Longrightarrow> g s' = g s"
  by (auto simp: WorldForEachScale_def rbind_eq_Inr_iff elim!: rfold_keeps)

lemma update_round_decreases:
  assumes "update_round it s = Inr (it', s')" "it < length (si_spatial_worlds s)"
  shows "length (si_spatial_worlds s') - it' < length (si_spatial_worlds s) - it"
proof -
  have fields: "si_spatial_worlds (put_type ty T t) = si_spatial_worlds t" for ty T and t :: "('a, 'b) Simulation"
    by (simp add: put_type_def)
  have removed: "length (si_spatial_worlds t') = length (si_spatial_worlds t) - 1"
    if r: "remove_world it p W t = Inr t'" "si_spatial_worlds t \<noteq> []" for p W and t t' :: "('a, 'b) Simulation"
  proof -
    obtain x where x: "WorldForEachScale (sw_world W) (\<lambda>i s. Inr (put_type (sw_type W) ((GetType s (sw_type W))
        \<lparr>st_scales := unordered_erase (p, i) (st_scales (GetType s (sw_type W)))\<rparr>)
        (s\<lparr>si_spatial_scales := unordered_erase (p, i) (si_spatial_scales s)\<rparr>))) t = Inr x"
      "si_spatial_worlds t' = unordered_erase_it (si_spatial_worlds x) it"
      using r(1) unfolding remove_world_def Let_def rbind_eq_Inr_iff by (auto simp: fields)
    have "si_spatial_worlds x = si_spatial_worlds t"
      by (rule ForEachScale_keeps [OF x(1), where g = si_spatial_worlds]) (auto simp: put_type_def)
    with x(2) r(2) show ?thesis by simp
  qed
  obtain W and count :: nat where W: "world_of s (si_spatial_worlds s ! it) = Inr W"
    "(if count = 0 then rbind (remove_world it (si_spatial_worlds s ! it) W s) (\<lambda>s'. Inr (it, s')) else Inr (Suc it, s)) = Inr (it', s')"
    using assms(1) unfolding update_round_def Let_def rbind_eq_Inr_iff by blast
  show ?thesis
  proof (cases "count = 0")
    case True
    then have "remove_world it (si_spatial_worlds s ! it) W s = Inr s'" and it: "it' = it" using W(2) by (auto simp: rbind_eq_Inr_iff)
    from removed [OF this(1)] it show ?thesis using assms(2) by (cases "si_spatial_worlds s") auto
  next
    case False
    then show ?thesis using W(2) assms(2) by auto
  qed
qed

function spatial_update_loop :: "nat \<Rightarrow> ('d, 'db) Simulation \<Rightarrow> ('d, 'db) Simulation res" where
  "spatial_update_loop it s =
     (if it < length (si_spatial_worlds s)
      then rbind (update_round it s) (\<lambda>r. spatial_update_loop (fst r) (snd r))
      else Inr s)"
  by pat_completeness auto

termination
  by (relation "measure (\<lambda>(it, s). length (si_spatial_worlds s) - it)") (auto dest: update_round_decreases)

declare spatial_update_loop.simps [simp del]

definition spatial_Update :: "('d, 'db) Simulation \<Rightarrow> ('d, 'db) Simulation res" where
  "spatial_Update s = spatial_update_loop 0 s"

definition spatial_WorldUpdate :: "ptr \<Rightarrow> ('d, 'db) Simulation \<Rightarrow> ('d, 'db) Simulation res" where
  "spatial_WorldUpdate p s =
     rbind (on_world p WorldDoNodeUnloadCommands s) (\<lambda>s1.
       if \<not> si_unloading s1 then on_world p (WorldDoNodeLoadCommands (si_frame_start_time s1)) s1 else Inr s1)"

definition spatial_ScaleUpdate :: "'db sim_surroundings \<Rightarrow> ptr \<times> nat \<Rightarrow> ('d, 'db) Simulation \<Rightarrow> ('d, 'db) Simulation res" where
  "spatial_ScaleUpdate E scale s =
     (case scale of (p, i) \<Rightarrow>
        rbind (on_world p (ScaleUnloadUnutilizedNodes i (si_frame_start_time s)) s) (\<lambda>s1.
          if \<not> si_unloading s1
          then rbind (world_of s1 p) (\<lambda>W.
               rbind (on_world p (ScaleLoadNodesAroundLoaders i (si_frame_start_time s1) (map (se_loader E) (sw_loaders W))) s1)
                 (on_world p (ScaleUpdateEntityNodes i (se_required E))))
          else Inr s1))"

section \<open>The simulation module\<close>

definition OnLoadEntity :: "nat \<Rightarrow> ('d, 'db) Simulation \<Rightarrow> ('d, 'db) Simulation" where
  "OnLoadEntity e s = s\<lparr>si_updating_entities := si_updating_entities s @ [e]\<rparr>"

definition OnUnloadEntity :: "nat \<Rightarrow> ('d, 'db) Simulation \<Rightarrow> ('d, 'db) Simulation" where
  "OnUnloadEntity e s = s\<lparr>si_updating_entities := unordered_erase e (si_updating_entities s)\<rparr>"

definition GetContext :: "('d, 'db) Simulation \<Rightarrow> nat res" where
  "GetContext s = (case si_context s of
       None \<Rightarrow> Inl Assertion
     | Some c \<Rightarrow> if c < length (si_contexts s) then Inr c else Inl Dangling)"

definition simulation_IsUnloadDone :: "('d, 'db) Simulation \<Rightarrow> bool" where
  "simulation_IsUnloadDone s \<longleftrightarrow> si_updating_entities s = []"

definition simulation_Update :: "int \<Rightarrow> ('d, 'db) Simulation \<Rightarrow> ('d, 'db) Simulation" where
  "simulation_Update now s = s\<lparr>si_frame_index := si_frame_index s + 1, si_frame_start_time := now\<rparr>"

section \<open>Universes and galaxies\<close>

definition OnLoadUniverseEntity :: "nat \<Rightarrow> ('d, 'db) Simulation \<Rightarrow> ('d, 'db) Simulation" where
  "OnLoadUniverseEntity e s = s\<lparr>si_universes := si_universes s @ [e]\<rparr>"

definition OnUnloadUniverseEntity :: "nat \<Rightarrow> ('d, 'db) Simulation \<Rightarrow> ('d, 'db) Simulation" where
  "OnUnloadUniverseEntity e s = s\<lparr>si_universes := unordered_erase e (si_universes s)\<rparr>"

definition OnLoadGalaxyEntity :: "nat \<Rightarrow> ('d, 'db) Simulation \<Rightarrow> ('d, 'db) Simulation" where
  "OnLoadGalaxyEntity e s = s\<lparr>si_galaxies := si_galaxies s @ [e]\<rparr>"

definition OnUnloadGalaxyEntity :: "nat \<Rightarrow> ('d, 'db) Simulation \<Rightarrow> ('d, 'db) Simulation" where
  "OnUnloadGalaxyEntity e s = s\<lparr>si_galaxies := unordered_erase e (si_galaxies s)\<rparr>"

text \<open>What the modules' \<open>Initialize\<close> push into the two types that have worlds.\<close>

definition universe_Initialize :: "('d, 'db) Simulation \<Rightarrow> ('d, 'db) Simulation" where
  "universe_Initialize s =
     (let T = si_types s Universe
      in put_type Universe
           (T\<lparr>st_data := (st_data T)\<lparr>td_node_size := 16, td_node_keepalive := 1000\<rparr>,
              st_world_updates := st_world_updates T @ [Spatial3D_Update, DebugRender_Update, Universe_Update],
              st_scale_updates := st_scale_updates T @ [Spatial3D_Update, DebugRender_Update, Universe_Update]\<rparr>) s)"

definition galaxy_Initialize :: "('d, 'db) Simulation \<Rightarrow> ('d, 'db) Simulation" where
  "galaxy_Initialize s =
     (let T = si_types s Galaxy
      in put_type Galaxy
           (T\<lparr>st_world_updates := st_world_updates T @ [Spatial3D_Update, DebugRender_Update, Universe_Update],
              st_scale_updates := st_scale_updates T @ [Spatial3D_Update, DebugRender_Update, Universe_Update]\<rparr>) s)"

section \<open>The debug renderer\<close>

text \<open>
  \<open>Update\<close> of the debug renderer, as far as it reads pointers: it draws the world of the first universe every 100
  frames. What it draws goes to the render thread.
\<close>

definition debugrender_Update :: "('d, 'db) Simulation \<Rightarrow> ('d, 'db) Simulation res" where
  "debugrender_Update s =
     (if unat (si_frame_index s) mod 100 = 0
      then
        let s1 = (if si_debug_entity s = None \<and> length (si_universes s) > 0
                  then s\<lparr>si_debug_entity := Some (si_universes s ! 0)\<rparr> else s)
        in case si_debug_entity s1 of
             None \<Rightarrow> Inr s1
           | Some e \<Rightarrow>
               rbind (if 0 < length (si_universes s1) then entity_of s1 (si_universes s1 ! 0) else Inl Out_Of_Bounds) (\<lambda>_.
               rbind (entity_of s1 e) (\<lambda>x.
                 case ent_world x of
                   None \<Rightarrow> Inl Null_Pointer
                 | Some p \<Rightarrow> rbind (world_of s1 p) (\<lambda>W. Inr s1)))
      else Inr s)"

definition debugrender_Uninitialize :: "('d, 'db) Simulation \<Rightarrow> ('d, 'db) Simulation" where
  "debugrender_Uninitialize s = s\<lparr>si_debug_entity := None\<rparr>"

section \<open>The simulation\<close>

text \<open>The callbacks of the two events, in the order in which the modules add them.\<close>

definition DoEvent_BeginLoad ::
    "'db sim_surroundings \<Rightarrow> nat \<Rightarrow> ('d, 'db) Simulation \<Rightarrow> ('d, 'db) Simulation res" where
  "DoEvent_BeginLoad E e s =
     rbind (entity_of s e) (\<lambda>x.
     let has = (\<lambda>c. c \<in> set (ent_types x)); s1 = OnLoadEntity e s
     in rbind (if has CWorld then OnLoadSpatialEntity E e s1 else Inr s1) (\<lambda>s2.
        rbind (if has CLoader \<and> has CEntity then OnLoadLoaderEntity e s2 else Inr s2) (\<lambda>s3.
        let s4 = (if has CUniverse then OnLoadUniverseEntity e s3 else s3)
        in Inr (if has CGalaxy then OnLoadGalaxyEntity e s4 else s4))))"

definition DoEvent_BeginUnload :: "nat \<Rightarrow> ('d, 'db) Simulation \<Rightarrow> ('d, 'db) Simulation res" where
  "DoEvent_BeginUnload e s =
     rbind (entity_of s e) (\<lambda>x.
     let has = (\<lambda>c. c \<in> set (ent_types x)); s1 = OnUnloadEntity e s
     in rbind (if has CWorld then OnUnloadSpatialEntity e s1 else Inr s1) (\<lambda>s2.
        rbind (if has CLoader \<and> has CEntity then OnUnloadLoaderEntity e s2 else Inr s2) (\<lambda>s3.
        let s4 = (if has CUniverse then OnUnloadUniverseEntity e s3 else s3)
        in Inr (if has CGalaxy then OnUnloadGalaxyEntity e s4 else s4))))"

text \<open>The references to an entity, and \<open>Cleanup\<close> of the factory.\<close>

definition node_entities :: "('d, 'db) Simulation \<Rightarrow> nat list" where
  "node_entities s =
     concat (map (\<lambda>p. case si_memory s p of
         None \<Rightarrow> []
       | Some W \<Rightarrow> concat (map (\<lambda>sc. concat (map (\<lambda>(pos, q). case w_heap (sw_world W) q of None \<Rightarrow> [] | Some n \<Rightarrow> n_entities n)
                            (sc_nodes sc))) (w_scales (sw_world W)))) (si_spatial_worlds s))"

definition references :: "('d, 'db) Simulation \<Rightarrow> nat list" where
  "references s =
     concat (map (\<lambda>c. tc_load_commands c @ tc_unload_commands c) (si_contexts s)) @ si_updating_entities s @
     (case si_debug_entity s of None \<Rightarrow> [] | Some e \<Rightarrow> [e]) @ node_entities s @ si_owners s"

definition factory_Cleanup :: "('d, 'db) Simulation \<Rightarrow> ('d, 'db) Simulation" where
  "factory_Cleanup s = s\<lparr>si_factory := filter (\<lambda>(e, x). e \<in> set (references s)) (si_factory s)\<rparr>"

definition world_callback ::
    "update_callback \<Rightarrow> ptr \<Rightarrow> ('d, 'db) Simulation \<Rightarrow> ('d, 'db) Simulation res" where
  "world_callback c p s =
     (case c of Spatial3D_Update \<Rightarrow> spatial_WorldUpdate p s | DebugRender_Update \<Rightarrow> Inr s | Universe_Update \<Rightarrow> Inr s)"

definition scale_callback ::
    "'db sim_surroundings \<Rightarrow> update_callback \<Rightarrow> ptr \<times> nat \<Rightarrow> ('d, 'db) Simulation \<Rightarrow> ('d, 'db) Simulation res" where
  "scale_callback E c q s =
     (case c of Spatial3D_Update \<Rightarrow> spatial_ScaleUpdate E q s | DebugRender_Update \<Rightarrow> Inr s | Universe_Update \<Rightarrow> Inr s)"

definition SimulationWorldUpdateTask :: "WorldConstructType \<Rightarrow> nat \<Rightarrow> ('d, 'db) Simulation \<Rightarrow> ('d, 'db) Simulation res" where
  "SimulationWorldUpdateTask t index s =
     (if index < length (st_worlds (si_types s t))
      then let p = st_worlds (si_types s t) ! index
           in rfold (\<lambda>c. world_callback c p) (st_world_updates (si_types s t)) s
      else Inl Out_Of_Bounds)"

definition SimulationScaleUpdateTask ::
    "'db sim_surroundings \<Rightarrow> WorldConstructType \<Rightarrow> nat \<Rightarrow> ('d, 'db) Simulation \<Rightarrow> ('d, 'db) Simulation res" where
  "SimulationScaleUpdateTask E t index s =
     (if index < length (st_scales (si_types s t))
      then let q = st_scales (si_types s t) ! index
           in rfold (\<lambda>c. scale_callback E c q) (st_scale_updates (si_types s t)) s
      else Inl Out_Of_Bounds)"

definition SimulationDoTasks ::
    "(nat \<Rightarrow> ('d, 'db) Simulation \<Rightarrow> ('d, 'db) Simulation res) \<times> nat \<Rightarrow> ('d, 'db) Simulation \<Rightarrow> ('d, 'db) Simulation res" where
  "SimulationDoTasks task s = rfold (fst task) [0..<snd task] s"

definition SimulationDoMultitasks ::
    "((nat \<Rightarrow> ('d, 'db) Simulation \<Rightarrow> ('d, 'db) Simulation res) \<times> nat) list \<Rightarrow> ('d, 'db) Simulation \<Rightarrow> ('d, 'db) Simulation res" where
  "SimulationDoMultitasks tasks s = rfold SimulationDoTasks tasks s"

definition all_types :: "WorldConstructType list" where
  "all_types = [Universe, Galaxy, StarSystem, Planet, SpaceStation, SpaceShip, Vehicle]"

text \<open>The load and unload commands of one context; the references are released when the lists are cleared.\<close>

definition do_context :: "'db sim_surroundings \<Rightarrow> nat \<Rightarrow> ('d, 'db) Simulation \<Rightarrow> ('d, 'db) Simulation res" where
  "do_context E c s =
     rbind (rfold (DoEvent_BeginLoad E) (tc_load_commands (si_contexts s ! c)) s) (\<lambda>s1.
     let s2 = s1\<lparr>si_contexts := (si_contexts s1)[c := (si_contexts s1 ! c)\<lparr>tc_load_commands := []\<rparr>]\<rparr>
     in rbind (rfold DoEvent_BeginUnload (tc_unload_commands (si_contexts s2 ! c)) s2) (\<lambda>s3.
        Inr (s3\<lparr>si_contexts := (si_contexts s3)[c := (si_contexts s3 ! c)\<lparr>tc_unload_commands := []\<rparr>]\<rparr>)))"

text \<open>The modules' updates in their order; those of the others and the entities' own updates do nothing.\<close>

definition SimulationUpdate ::
    "'db sim_surroundings \<Rightarrow> int \<Rightarrow> ('d, 'db) Simulation \<Rightarrow> ('d, 'db) Simulation res" where
  "SimulationUpdate E now s =
     rbind (SimulationDoMultitasks (map (\<lambda>t. (SimulationWorldUpdateTask t, length (st_worlds (si_types s t)))) all_types) s) (\<lambda>s1.
     rbind (SimulationDoMultitasks (map (\<lambda>t. (SimulationScaleUpdateTask E t, length (st_scales (si_types s1 t)))) all_types) s1) (\<lambda>s2.
     rbind (debugrender_Update (simulation_Update now s2)) (\<lambda>s3.
     rbind (spatial_Update s3) (\<lambda>s4.
     rbind (rfold (do_context E) [0..<length (si_contexts s4)] s4) (\<lambda>s5.
       Inr (factory_Cleanup s5))))))"

definition IsSimulationUnloadDone :: "('d, 'db) Simulation \<Rightarrow> bool" where
  "IsSimulationUnloadDone s \<longleftrightarrow> simulation_IsUnloadDone s \<and> spatial_IsUnloadDone s"

definition push_load :: "nat \<Rightarrow> ('d, 'db) Simulation \<Rightarrow> ('d, 'db) Simulation res" where
  "push_load e s =
     rbind (GetContext s) (\<lambda>c.
       Inr (s\<lparr>si_contexts := (si_contexts s)[c := (si_contexts s ! c)\<lparr>tc_load_commands := tc_load_commands (si_contexts s ! c) @ [e]\<rparr>]\<rparr>))"

text \<open>\<open>GetPoly\<close> gives an existing entity its old components, whatever types are asked for.\<close>

definition SimulationCreateEntity ::
    "nat \<Rightarrow> ComponentKind list \<Rightarrow> ('d, 'db) Simulation \<Rightarrow> ('d, 'db) Simulation res" where
  "SimulationCreateEntity e types s =
     (let s1 = (if map_of (si_factory s) e = None
                then put_entity e \<lparr>ent_types = types, ent_world_type = Universe, ent_world = None, ent_parent_world = None\<rparr> s
                else s)
      in push_load e s1)"

definition SimulationUnloadEntity :: "nat \<Rightarrow> ('d, 'db) Simulation \<Rightarrow> ('d, 'db) Simulation res" where
  "SimulationUnloadEntity e s =
     rbind (GetContext s) (\<lambda>c.
       Inr (s\<lparr>si_contexts := (si_contexts s)[c := (si_contexts s ! c)\<lparr>tc_unload_commands := tc_unload_commands (si_contexts s ! c) @ [e]\<rparr>]\<rparr>))"

text \<open>The loop of \<open>SimulationUnload\<close> with the times of its frames; \<open>None\<close> when \<open>fuel\<close> rounds were not enough.\<close>

fun unload_loop ::
    "'db sim_surroundings \<Rightarrow> (nat \<Rightarrow> int) \<Rightarrow> nat \<Rightarrow> nat \<Rightarrow> ('d, 'db) Simulation \<Rightarrow> ('d, 'db) Simulation option res" where
  "unload_loop E now k 0 s = (if IsSimulationUnloadDone s then Inr (Some s) else Inr None)"
| "unload_loop E now k (Suc fuel) s =
     (if IsSimulationUnloadDone s then Inr (Some s)
      else rbind (SimulationUpdate E (now k) s) (unload_loop E now (Suc k) fuel))"

definition SimulationUnload_begin :: "('d, 'db) Simulation \<Rightarrow> ('d, 'db) Simulation res" where
  "SimulationUnload_begin s =
     (let s1 = s\<lparr>si_unloading := True\<rparr>; updating_entities = si_updating_entities s1
      in rfold SimulationUnloadEntity updating_entities (s1\<lparr>si_updating_entities := []\<rparr>))"

definition SimulationUnload ::
    "'db sim_surroundings \<Rightarrow> (nat \<Rightarrow> int) \<Rightarrow> nat \<Rightarrow> ('d, 'db) Simulation \<Rightarrow> ('d, 'db) Simulation option res" where
  "SimulationUnload E now fuel s =
     rbind (SimulationUnload_begin s) (\<lambda>s1.
     rbind (unload_loop E now 0 fuel s1) (\<lambda>r. Inr (map_option (\<lambda>s2. s2\<lparr>si_unloading := False\<rparr>) r)))"

definition SimulationUninitialize :: "('d, 'db) Simulation \<Rightarrow> ('d, 'db) Simulation res" where
  "SimulationUninitialize s =
     (let s1 = s\<lparr>si_galaxies := []\<rparr>; s2 = s1\<lparr>si_universes := []\<rparr>
      in rbind (spatial_Uninitialize s2) (\<lambda>s3.
         let s4 = factory_Cleanup (debugrender_Uninitialize s3)
         in rbind (assert_that (length (si_factory s4) = 0)) (\<lambda>_. Inr s4)))"

section \<open>The universe server\<close>

definition new_TypeData :: "bool \<Rightarrow> 'd \<Rightarrow> 'd TypeData" where
  "new_TypeData local initial =
     \<lparr>td_max_scale = k_max_world_scale, td_node_size = 1, td_node_keepalive = 10000, td_local = local, td_initial = initial,
      td_serialize_callbacks = [], td_deserialize_callbacks = [], td_generate_callbacks = []\<rparr>"

definition new_SpatialTypeData :: "bool \<Rightarrow> 'd \<Rightarrow> 'd SpatialTypeData" where
  "new_SpatialTypeData local initial =
     \<lparr>st_data = new_TypeData local initial, st_world_updates = [], st_scale_updates = [], st_worlds = [], st_scales = []\<rparr>"

text \<open>\<open>Initialize\<close> of the simulation makes the contexts and gives the thread the first one.\<close>

definition simulation_Initialize :: "nat \<Rightarrow> ('d, 'db) Simulation \<Rightarrow> ('d, 'db) Simulation" where
  "simulation_Initialize processor_count s =
     s\<lparr>si_contexts := replicate (processor_count mod 256) \<lparr>tc_load_commands = [], tc_unload_commands = []\<rparr>, si_context := Some 0\<rparr>"

definition SimulationInitialize :: "nat \<Rightarrow> ('d, 'db) Simulation \<Rightarrow> ('d, 'db) Simulation" where
  "SimulationInitialize processor_count s =
     galaxy_Initialize (universe_Initialize (simulation_Initialize processor_count s))"

text \<open>\<open>local\<close> and \<open>initial\<close> stand for the node types, which the modules choose.\<close>

definition new_Simulation :: "bool \<Rightarrow> 'd \<Rightarrow> ('d, 'db) Simulation" where
  "new_Simulation local initial =
     \<lparr>si_unloading = False, si_frame_index = 0, si_frame_start_time = 0, si_contexts = [], si_context = None,
      si_spatial_worlds = [], si_spatial_scales = [], si_types = (\<lambda>_. new_SpatialTypeData local initial),
      si_memory = (\<lambda>_. None), si_next = 0, si_factory = [], si_updating_entities = [], si_universes = [],
      si_galaxies = [], si_debug_entity = None, si_owners = []\<rparr>"

definition GetEntityWorld :: "nat \<Rightarrow> ('d, 'db) Simulation \<Rightarrow> ptr option res" where
  "GetEntityWorld e s = rbind (entity_of s e) (\<lambda>x. Inr (ent_world x))"

definition CreateUniverse :: "nat \<Rightarrow> ('d, 'db) Simulation \<Rightarrow> ('d, 'db) Simulation res" where
  "CreateUniverse e s =
     rbind (SimulationCreateEntity e k_universe_type s) (\<lambda>s1.
     rbind (entity_of s1 e) (\<lambda>x. Inr (put_entity e (x\<lparr>ent_world_type := Universe\<rparr>) s1)))"

definition CreateSimulatedGalaxy :: "nat \<Rightarrow> ptr option \<Rightarrow> ('d, 'db) Simulation \<Rightarrow> ('d, 'db) Simulation res" where
  "CreateSimulatedGalaxy e universe_world s =
     rbind (assert_that (\<not> si_unloading s)) (\<lambda>_.
     rbind (SimulationCreateEntity e k_simulated_galaxy_type s) (\<lambda>s1.
     rbind (entity_of s1 e) (\<lambda>x.
       Inr (put_entity e (x\<lparr>ent_world_type := Galaxy, ent_parent_world := universe_world\<rparr>) s1))))"

text \<open>\<open>StartLocalUniverse\<close>; the server keeps references to its universe \<open>u\<close> and its galaxy \<open>g\<close>.\<close>

definition StartLocalUniverse :: "nat \<Rightarrow> nat \<Rightarrow> ('d, 'db) Simulation \<Rightarrow> ('d, 'db) Simulation res" where
  "StartLocalUniverse u g s =
     rbind (CreateUniverse u s) (\<lambda>s1.
     let s2 = s1\<lparr>si_owners := si_owners s1 @ [u]\<rparr>
     in rbind (GetEntityWorld u s2) (\<lambda>w.
        rbind (CreateSimulatedGalaxy g w s2) (\<lambda>s3. Inr (s3\<lparr>si_owners := si_owners s3 @ [g]\<rparr>))))"

text \<open>\<open>DoSimulationUnload\<close> of the universe server.\<close>

definition DoSimulationUnload_universe ::
    "'db sim_surroundings \<Rightarrow> (nat \<Rightarrow> int) \<Rightarrow> nat \<Rightarrow> ('d, 'db) Simulation \<Rightarrow> ('d, 'db) Simulation option res" where
  "DoSimulationUnload_universe E now fuel s =
     rbind (SimulationUnload E now fuel s) (\<lambda>r.
       case r of
         None \<Rightarrow> Inr None
       | Some s1 \<Rightarrow> rbind (SimulationUninitialize (s1\<lparr>si_owners := []\<rparr>)) (\<lambda>s2. Inr (Some s2)))"

end
