(* ===== verification/SpatialModuleProps.thy ===== *)
theory SpatialModuleProps
  imports UniverseSimulation SpatialUnload
begin

text \<open>
  The spatial module keeps several lists of the same worlds and scales. They always agree, and \<open>Update\<close>, which erases from the
  list it walks through, destroys exactly the worlds that have finished unloading.
\<close>

section \<open>The lists agree\<close>

text \<open>What the lists depend on: the type of each world in memory and its number of scales.\<close>

definition shape :: "('d, 'db) Simulation \<Rightarrow> ptr \<Rightarrow> (WorldConstructType \<times> nat) option" where
  "shape s p = map_option (\<lambda>W. (sw_type W, w_max_scale (sw_world W))) (si_memory s p)"

definition lists_agree :: "('d, 'db) Simulation \<Rightarrow> bool" where
  "lists_agree s \<longleftrightarrow>
     distinct (si_spatial_worlds s) \<and> set (si_spatial_worlds s) = {p. shape s p \<noteq> None} \<and>
     distinct (si_spatial_scales s) \<and> set (si_spatial_scales s) = {(p, i). \<exists>t m. shape s p = Some (t, m) \<and> i < m} \<and>
     (\<forall>t. distinct (st_worlds (si_types s t)) \<and> set (st_worlds (si_types s t)) = {p. \<exists>m. shape s p = Some (t, m)} \<and>
       distinct (st_scales (si_types s t)) \<and> set (st_scales (si_types s t)) = {(p, i). \<exists>m. shape s p = Some (t, m) \<and> i < m})"

definition worlds_ok :: "('d, 'db) Simulation \<Rightarrow> bool" where
  "worlds_ok s \<longleftrightarrow> (\<forall>p W. si_memory s p = Some W \<longrightarrow> world_ok (sw_world W) \<and> p < si_next s)"

definition module_ok :: "('d, 'db) Simulation \<Rightarrow> bool" where
  "module_ok s \<longleftrightarrow> lists_agree s \<and> worlds_ok s \<and> (\<forall>t. 0 < td_max_scale (st_data (si_types s t)))"

lemma lists_agree_frame:
  assumes "lists_agree s" "si_spatial_worlds s' = si_spatial_worlds s" "si_spatial_scales s' = si_spatial_scales s"
    "si_types s' = si_types s" "shape s' = shape s"
  shows "lists_agree s'"
  using assms by (simp add: lists_agree_def)

text \<open>A loop over the scales whose body cannot fail.\<close>

lemma rfold_pure: "rfold (\<lambda>x s. Inr (g x s)) xs s = Inr (fold g xs s)"
  by (induction xs arbitrary: s) auto

lemma ForEachScale_pure:
  assumes "world_ok w"
  shows "WorldForEachScale w (\<lambda>i s. Inr (g i s)) s = Inr (fold g [0..<w_max_scale w] s)"
proof -
  note o = world_okD [OF assms]
  have "rfold (\<lambda>i s. rbind (GetScale w i) (\<lambda>_. Inr (g i s))) is s = Inr (fold g is s)" if "\<forall>i \<in> set is. i < w_max_scale w" for "is" s
    using that by (induction "is" arbitrary: s) (auto simp: GetScale_ok [OF o(4)])
  then show ?thesis using o(3) by (simp add: WorldForEachScale_def)
qed

lemma count_zero:
  assumes "world_ok w" "WorldGetNodeCount w = Inr 0"
  shows "state_at w i st = {}"
proof -
  note o = world_okD [OF assms(1)]
  have "WorldGetNodeCount w = WorldForEachScale w (\<lambda>i s. if i < length (w_scales w) then Inr (s + length (sc_nodes (w_scales w ! i))) else Inl Dangling) 0"
    unfolding WorldGetNodeCount_def ScaleGetNodeCount_def scale_at_def by (rule arg_cong2 [where f = "WorldForEachScale w"]) (auto simp: fun_eq_iff)
  also have "\<dots> = WorldForEachScale w (\<lambda>i s. Inr (s + length (sc_nodes (w_scales w ! i)))) 0"
    unfolding WorldForEachScale_def
  proof (rule arg_cong [where f = "rbind _"], rule ext)
    fix u :: unit
    have "rfold (\<lambda>i s. rbind (GetScale w i) (\<lambda>_. if i < length (w_scales w) then Inr (s + length (sc_nodes (w_scales w ! i))) else Inl Dangling)) is n =
      rfold (\<lambda>i s. rbind (GetScale w i) (\<lambda>_. Inr (s + length (sc_nodes (w_scales w ! i))))) is n"
      if "\<forall>i \<in> set is. i < w_max_scale w" for "is" n
      using that by (induction "is" arbitrary: n) (auto simp: GetScale_ok [OF o(4)] o(9))
    then show "rfold (\<lambda>i s. rbind (GetScale w i) (\<lambda>_. if i < length (w_scales w) then Inr (s + length (sc_nodes (w_scales w ! i))) else Inl Dangling)) [0..<w_max_scale w] 0 =
      rfold (\<lambda>i s. rbind (GetScale w i) (\<lambda>_. Inr (s + length (sc_nodes (w_scales w ! i))))) [0..<w_max_scale w] (0 :: nat)" by simp
  qed
  also have "\<dots> = Inr (fold (\<lambda>i s. s + length (sc_nodes (w_scales w ! i))) [0..<w_max_scale w] 0)"
    by (rule ForEachScale_pure [OF assms(1)])
  finally have sum: "fold (\<lambda>i s. s + length (sc_nodes (w_scales w ! i))) [0..<w_max_scale w] 0 = 0" using assms(2) by simp
  have grows: "n + length (sc_nodes (w_scales w ! i)) \<le> fold (\<lambda>i s. s + length (sc_nodes (w_scales w ! i))) is n" if "i \<in> set is" for i "is" n
    using that
  proof (induction "is" arbitrary: n)
    case (Cons j "is")
    have "m \<le> fold (\<lambda>i s. s + length (sc_nodes (w_scales w ! i))) js m" for js m
    proof (induction js arbitrary: m)
      case (Cons a js)
      from Cons [of "m + length (sc_nodes (w_scales w ! a))"] show ?case by simp
    qed simp
    from this [of "n + length (sc_nodes (w_scales w ! j))" "is"] Cons.IH [of "n + length (sc_nodes (w_scales w ! j))"]
      Cons.prems show ?case by (cases "i = j") auto
  qed simp
  have nodes: "sc_nodes (w_scales w ! i) = []" if "i < w_max_scale w" for i
    using grows [of i "[0..<w_max_scale w]" 0] that sum by simp
  have "loc w p \<noteq> Some (i, v)" for p v
  proof
    assume l: "loc w p = Some (i, v)"
    note lf = loc_facts [OF o(4) l]
    have "i < w_max_scale w" "map_of (sc_nodes (w_scales w ! i)) v = Some p" using lf by auto
    then show False using nodes by simp
  qed
  then show ?thesis by (auto simp: state_at_def)
qed

lemma empty_count: "world_ok w \<Longrightarrow> WorldGetNodeCount w = Inr 0 \<Longrightarrow> DestroyWorld w = Inr ()"
  using empty_world(2) [of w] count_zero [of w] by simp

lemma fold_erase_scales:
  "fold (\<lambda>i s. put_type t ((GetType s t)\<lparr>st_scales := unordered_erase (p, i) (st_scales (GetType s t))\<rparr>)
      (s\<lparr>si_spatial_scales := unordered_erase (p, i) (si_spatial_scales s)\<rparr>)) is s =
    s\<lparr>si_spatial_scales := fold (\<lambda>i. unordered_erase (p, i)) is (si_spatial_scales s),
      si_types := (si_types s)(t := (si_types s t)\<lparr>st_scales := fold (\<lambda>i. unordered_erase (p, i)) is (st_scales (si_types s t))\<rparr>)\<rparr>"
proof (induction "is" arbitrary: s)
  case Nil
  then show ?case by simp
next
  case (Cons i "is")
  then show ?case by (simp add: put_type_def GetType_def fun_upd_def cong: if_cong)
qed

lemma remove_world_eq:
  assumes "world_ok (sw_world W)" "WorldGetNodeCount (sw_world W) = Inr 0"
  defines "is \<equiv> [0..<w_max_scale (sw_world W)]" and "t \<equiv> sw_type W"
  shows "remove_world it p W s = Inr (s\<lparr>si_spatial_scales := fold (\<lambda>i. unordered_erase (p, i)) is (si_spatial_scales s),
    si_types := (si_types s)(t := (si_types s t)\<lparr>st_scales := fold (\<lambda>i. unordered_erase (p, i)) is (st_scales (si_types s t)),
      st_worlds := unordered_erase p (st_worlds (si_types s t))\<rparr>),
    si_spatial_worlds := unordered_erase_it (si_spatial_worlds s) it, si_memory := (si_memory s)(p := None)\<rparr>)"
  unfolding remove_world_def Let_def ForEachScale_pure [OF assms(1)] fold_erase_scales is_def t_def
  by (simp add: empty_count [OF assms(1,2)] put_type_def GetType_def)

lemma remove_world_ok:
  assumes ok: "module_ok s" and it: "it < length (si_spatial_worlds s)" "p = si_spatial_worlds s ! it"
    and W: "si_memory s p = Some W" "WorldGetNodeCount (sw_world W) = Inr 0"
  shows "\<exists>s'. remove_world it p W s = Inr s' \<and> module_ok s' \<and> si_memory s' = (si_memory s)(p := None) \<and>
    si_spatial_worlds s' = unordered_erase_it (si_spatial_worlds s) it"
proof -
  let ?is = "[0..<w_max_scale (sw_world W)]" and ?t = "sw_type W"
  have w: "world_ok (sw_world W)" and L: "lists_agree s" using ok W(1) by (auto simp: module_ok_def worlds_ok_def)
  have sh: "shape s p = Some (?t, w_max_scale (sw_world W))" using W(1) by (simp add: shape_def)
  obtain s' where s': "remove_world it p W s = Inr s'"
    "si_spatial_scales s' = fold (\<lambda>i. unordered_erase (p, i)) ?is (si_spatial_scales s)"
    "si_types s' = (si_types s)(?t := (si_types s ?t)\<lparr>st_scales := fold (\<lambda>i. unordered_erase (p, i)) ?is (st_scales (si_types s ?t)),
      st_worlds := unordered_erase p (st_worlds (si_types s ?t))\<rparr>)"
    "si_spatial_worlds s' = unordered_erase_it (si_spatial_worlds s) it" "si_memory s' = (si_memory s)(p := None)"
    "si_next s' = si_next s"
    using remove_world_eq [OF w W(2), of it p s] by simp
  have sh': "shape s' = (shape s)(p := None)" by (auto simp: shape_def s'(5))
  have "lists_agree s'"
    unfolding lists_agree_def
  proof (intro conjI allI)
    show "distinct (si_spatial_worlds s')" "set (si_spatial_worlds s') = {p. shape s' p \<noteq> None}"
      using set_erase_it [of "si_spatial_worlds s" it] L it by (auto simp: s'(4) sh' lists_agree_def)
    show "distinct (si_spatial_scales s')" "set (si_spatial_scales s') = {(p, i). \<exists>t m. shape s' p = Some (t, m) \<and> i < m}"
      using erase_many [of "si_spatial_scales s" "Pair p" ?is] L sh by (auto simp: s'(2) sh' lists_agree_def split: if_splits)
    fix t
    show "distinct (st_worlds (si_types s' t))" "set (st_worlds (si_types s' t)) = {p. \<exists>m. shape s' p = Some (t, m)}"
      using L sh by (auto simp: s'(3) sh' lists_agree_def)
    show "distinct (st_scales (si_types s' t))" "set (st_scales (si_types s' t)) = {(p, i). \<exists>m. shape s' p = Some (t, m) \<and> i < m}"
      using erase_many [of "st_scales (si_types s ?t)" "Pair p" ?is] L sh by (auto simp: s'(3) sh' lists_agree_def split: if_splits)
  qed
  moreover have "worlds_ok s'" using ok by (auto simp: module_ok_def worlds_ok_def s'(5,6) split: if_splits)
  moreover have "\<forall>t. 0 < td_max_scale (st_data (si_types s' t))" using ok by (simp add: module_ok_def s'(3))
  ultimately show ?thesis using s'(1,4,5) by (auto simp: module_ok_def)
qed

section \<open>Update\<close>

text \<open>A world that \<open>Update\<close> is to destroy: it unloads and has no node left.\<close>

definition removable :: "('d, 'db) Simulation \<Rightarrow> ptr \<Rightarrow> bool" where
  "removable s p \<longleftrightarrow> (\<exists>W. si_memory s p = Some W \<and> w_unloading (sw_world W) \<and> WorldGetNodeCount (sw_world W) = Inr 0)"

lemma node_count: "world_ok w \<Longrightarrow> \<exists>n. WorldGetNodeCount w = Inr n"
proof -
  assume ok: "world_ok w"
  note o = world_okD [OF ok]
  have "yields {} (WorldGetNodeCount w) (\<lambda>v. True)"
    unfolding WorldGetNodeCount_def
    by (rule WorldForEachScale_ok [where I = "\<lambda>i v. True", OF o(4,3)]) (use o(9) in \<open>simp_all add: ScaleGetNodeCount_def scale_at_def\<close>)
  then show ?thesis by (auto simp: yields_empty)
qed

lemma listed: "module_ok s \<Longrightarrow> it < length (si_spatial_worlds s) \<Longrightarrow> \<exists>W. si_memory s (si_spatial_worlds s ! it) = Some W \<and> world_ok (sw_world W)"
proof -
  assume ok: "module_ok s" and it: "it < length (si_spatial_worlds s)"
  have "si_spatial_worlds s ! it \<in> {p. shape s p \<noteq> None}" using ok nth_mem [OF it] by (auto simp: module_ok_def lists_agree_def)
  then show ?thesis using ok by (auto simp: shape_def module_ok_def worlds_ok_def)
qed

lemma spatial_update_loop_ok:
  assumes "module_ok s" "\<forall>j < it. j < length (si_spatial_worlds s) \<longrightarrow> \<not> removable s (si_spatial_worlds s ! j)"
  shows "\<exists>s'. spatial_update_loop it s = Inr s' \<and> module_ok s' \<and> si_memory s' = (\<lambda>p. if removable s p then None else si_memory s p)"
  using assms
proof (induction "length (si_spatial_worlds s) - it" arbitrary: it s rule: less_induct)
  case less
  show ?case
  proof (cases "it < length (si_spatial_worlds s)")
    case False
    have "\<not> removable s p" for p
    proof
      assume r: "removable s p"
      then have "p \<in> set (si_spatial_worlds s)" using less.prems(1) by (auto simp: removable_def module_ok_def lists_agree_def shape_def)
      then obtain j where "j < length (si_spatial_worlds s)" "si_spatial_worlds s ! j = p" by (auto simp: in_set_conv_nth)
      then show False using less.prems(2) r False by auto
    qed
    then show ?thesis using False less.prems(1) by (simp add: spatial_update_loop.simps)
  next
    case True
    let ?p = "si_spatial_worlds s ! it"
    obtain W where W: "si_memory s ?p = Some W" "world_ok (sw_world W)" using listed [OF less.prems(1) True] by blast
    obtain n where n: "WorldGetNodeCount (sw_world W) = Inr n" using node_count [OF W(2)] by blast
    show ?thesis
    proof (cases "removable s ?p")
      case rem: True
      then have c: "w_unloading (sw_world W)" "WorldGetNodeCount (sw_world W) = Inr 0" using W(1) by (auto simp: removable_def)
      from remove_world_ok [OF less.prems(1) True refl W(1) c(2)] obtain s1 where
        s1: "remove_world it ?p W s = Inr s1" "module_ok s1" "si_memory s1 = (si_memory s)(?p := None)"
        "si_spatial_worlds s1 = unordered_erase_it (si_spatial_worlds s) it" by blast
      have round: "update_round it s = Inr (it, s1)"
        using W(1) c s1(1) by (simp add: update_round_def Let_def world_of_def IsWorldUnloading_def)
      have "length (si_spatial_worlds s1) - it < length (si_spatial_worlds s) - it" by (rule update_round_decreases [OF round True])
      moreover have other: "removable s1 q \<longleftrightarrow> removable s q \<and> q \<noteq> ?p" for q by (auto simp: removable_def s1(3))
      have "\<forall>j < it. j < length (si_spatial_worlds s1) \<longrightarrow> \<not> removable s1 (si_spatial_worlds s1 ! j)"
        using less.prems(2) True by (auto simp: s1(4) erase_it_before other)
      ultimately obtain s' where s': "spatial_update_loop it s1 = Inr s'" "module_ok s'"
        "si_memory s' = (\<lambda>p. if removable s1 p then None else si_memory s1 p)"
        using less.hyps [OF _ s1(2)] by blast
      have "si_memory s' = (\<lambda>p. if removable s p then None else si_memory s p)"
        using rem by (auto simp: s'(3) other s1(3) fun_eq_iff)
      then show ?thesis using True round s'(1,2) by (simp add: spatial_update_loop.simps [of it s])
    next
      case False
      have round: "update_round it s = Inr (Suc it, s)"
        using W(1) n False by (auto simp: update_round_def Let_def world_of_def IsWorldUnloading_def removable_def)
      have "length (si_spatial_worlds s) - Suc it < length (si_spatial_worlds s) - it" using True by simp
      moreover have "\<forall>j < Suc it. j < length (si_spatial_worlds s) \<longrightarrow> \<not> removable s (si_spatial_worlds s ! j)"
        using less.prems(2) False by (auto simp: less_Suc_eq)
      ultimately obtain s' where "spatial_update_loop (Suc it) s = Inr s'" "module_ok s'"
        "si_memory s' = (\<lambda>p. if removable s p then None else si_memory s p)" using less.hyps [OF _ less.prems(1)] by blast
      then show ?thesis using True round by (simp add: spatial_update_loop.simps [of it s])
    qed
  qed
qed

lemma spatial_Update_ok:
  assumes "module_ok s"
  shows "\<exists>s'. spatial_Update s = Inr s' \<and> module_ok s' \<and> si_memory s' = (\<lambda>p. if removable s p then None else si_memory s p)"
  using spatial_update_loop_ok [OF assms, of 0] by (simp add: spatial_Update_def)

section \<open>What happens to one world\<close>

definition world_keeps :: "('d, 'db) World \<Rightarrow> ('d, 'db) World \<Rightarrow> bool" where
  "world_keeps w v \<longleftrightarrow> (world_ok w \<longrightarrow> world_ok v \<and> same_setup w v)"

lemma world_keeps_refl: "world_keeps w w"
  by (simp add: world_keeps_def same_setup_refl)

lemma world_keeps_trans: "world_keeps w v \<Longrightarrow> world_keeps v u \<Longrightarrow> world_keeps w u"
  unfolding world_keeps_def by (blast intro: same_setup_trans)

lemma rfold_world_keeps:
  assumes "\<And>x w v. x \<in> set xs \<Longrightarrow> f x w = Inr v \<Longrightarrow> world_keeps w v" "rfold f xs w = Inr v"
  shows "world_keeps w v"
  using assms
proof (induction xs arbitrary: w)
  case Nil
  then show ?case by (simp add: world_keeps_refl)
next
  case (Cons x xs)
  then obtain u where u: "f x w = Inr u" "rfold f xs u = Inr v" by (auto simp: rbind_eq_Inr_iff)
  have "world_keeps u v" by (rule Cons.IH) (use Cons.prems u(2) in auto)
  moreover have "world_keeps w u" by (rule Cons.prems(1) [OF _ u(1)]) simp
  ultimately show ?case by (blast intro: world_keeps_trans)
qed

lemma set_entities_keeps:
  assumes "modify_node p (\<lambda>n. n\<lparr>n_entities := f n\<rparr>) w = Inr v"
  shows "world_keeps w v"
  unfolding world_keeps_def
proof
  assume ok: "world_ok w"
  obtain n where n: "w_heap w p = Some n" "v = w\<lparr>w_heap := (w_heap w)(p := Some (n\<lparr>n_entities := f n\<rparr>))\<rparr>"
    using assms by (auto simp: modify_node_def deref_def rbind_eq_Inr_iff split: option.splits)
  have "io_round w v" by (rule io_round_update [OF n(1), where n' = "n\<lparr>n_entities := f n\<rparr>"]) (auto simp: n(2))
  moreover have "task_of v = task_of w" using n(1) by (auto simp: task_of_def fun_eq_iff n(2))
  ultimately show "world_ok v \<and> same_setup w v" using update_node_ok [OF ok n] by blast
qed

lemma move_entities_keeps: "move_entities s required p es i w = Inr (b, v) \<Longrightarrow> world_keeps w v"
proof (induction s required p es i w arbitrary: b v rule: move_entities.induct)
  case (1 s required p es i w)
  show ?case
  proof (cases "i < length es")
    case False
    then show ?thesis using "1.prems" by (auto simp: move_entities.simps [of s required p es i w] world_keeps_refl split: if_splits)
  next
    case True
    obtain n where n: "deref w p = Inr n" using "1.prems" True by (auto simp: move_entities.simps [of s required p es i w] rbind_eq_Inr_iff)
    show ?thesis
    proof (cases "n_position n = required (es ! i)")
      case True
      then show ?thesis using "1.prems" n \<open>i < length es\<close>
        by (auto simp: move_entities.simps [of s required p es i w] world_keeps_refl)
    next
      case stay: False
      obtain sc where sc: "scale_at w s = Inr sc"
        using "1.prems" n True stay by (auto simp: move_entities.simps [of s required p es i w] rbind_eq_Inr_iff)
      show ?thesis
      proof (cases "map_of (sc_nodes sc) (required (es ! i))")
        case None
        then show ?thesis using "1.prems" n True stay sc "1.IH"(1) [OF _ _ n stay sc None]
          by (auto simp: move_entities.simps [of s required p es i w])
      next
        case (Some q)
        let ?es = "take i es @ drop (Suc i) es"
        obtain w1 w2 where w12: "modify_node p (\<lambda>n. n\<lparr>n_entities := ?es\<rparr>) w = Inr w1"
          "modify_node q (\<lambda>m. m\<lparr>n_entities := n_entities m @ [es ! i]\<rparr>) w1 = Inr w2"
          "move_entities s required p ?es (Suc i) w2 = Inr (b, v)"
          using "1.prems" n True stay sc Some by (auto simp: move_entities.simps [of s required p es i w] rbind_eq_Inr_iff Let_def)
        have "world_keeps w2 v" using "1.IH"(2) [OF _ _ n stay sc Some refl w12(1,2)] w12(3) True by auto
        then show ?thesis using set_entities_keeps [OF w12(1)] set_entities_keeps [OF w12(2)] by (blast intro: world_keeps_trans)
      qed
    qed
  qed
qed

lemma update_entity_nodes_keeps: "update_entity_nodes s required es w = Inr v \<Longrightarrow> world_keeps w v"
proof (induction s required es w arbitrary: v rule: update_entity_nodes.induct)
  case (1 s required w)
  then show ?case by (simp add: world_keeps_refl)
next
  case (2 s required pos p rest w)
  obtain n b w' where n: "deref w p = Inr n" "move_entities s required p (n_entities n) 0 w = Inr (b, w')"
    "(if b then Inr w' else update_entity_nodes s required rest w') = Inr v"
    using "2.prems" by (auto simp: rbind_eq_Inr_iff)
  have "world_keeps w' v" using n(3) "2.IH" [OF n(1,2) refl] by (cases b) (auto simp: world_keeps_refl)
  then show ?case using move_entities_keeps [OF n(2)] by (blast intro: world_keeps_trans)
qed

lemma ScaleUpdateEntityNodes_keeps: "ScaleUpdateEntityNodes i required w = Inr v \<Longrightarrow> world_keeps w v"
  by (auto simp: ScaleUpdateEntityNodes_def rbind_eq_Inr_iff intro: update_entity_nodes_keeps)

text \<open>The spheres around loaders hold coordinates of nodes only.\<close>

definition loaders_ok :: "'db sim_surroundings \<Rightarrow> bool" where
  "loaders_ok E \<longleftrightarrow> (\<forall>e s start stop inside. l_sphere (se_loader E e) s = (start, stop, inside) \<longrightarrow>
     (\<forall>v \<in> set (ForEachCoordInSphere start stop inside). coords_ok v))"

lemma ScaleLoadNodes_keeps:
  assumes "loaders_ok E" "ScaleLoadNodesAroundLoaders i now (map (se_loader E) ls) w = Inr v" "i < w_max_scale w"
  shows "world_keeps w v"
proof -
  have "world_keeps u x \<and> w_max_scale x = w_max_scale w" if "rfold (LoaderLoadNodes i now) (map (se_loader E) ls) u = Inr x" "w_max_scale u = w_max_scale w" "world_ok u" for u x
    using that
  proof (induction ls arbitrary: u)
    case Nil
    then show ?case by (simp add: world_keeps_refl)
  next
    case (Cons l ls)
    then obtain y where y: "LoaderLoadNodes i now (se_loader E l) u = Inr y" "rfold (LoaderLoadNodes i now) (map (se_loader E) ls) y = Inr x"
      by (auto simp: rbind_eq_Inr_iff)
    have "\<And>start stop inside. l_sphere (se_loader E l) i = (start, stop, inside) \<Longrightarrow> \<forall>v \<in> set (ForEachCoordInSphere start stop inside). coords_ok v"
      using assms(1) by (auto simp: loaders_ok_def)
    then have "yields {} (LoaderLoadNodes i now (se_loader E l) u) (\<lambda>v. world_ok v \<and> same_setup u v)"
      by (intro LoaderLoadNodes_ok) (use assms(3) Cons.prems in auto)
    then have "world_ok y" "same_setup u y" using y(1) by auto
    with Cons.IH [OF y(2)] Cons.prems(2) show ?case
      by (auto simp: world_keeps_def same_setup_def)
  qed
  then show ?thesis using assms(2) by (auto simp: ScaleLoadNodesAroundLoaders_def world_keeps_def)
qed

lemma keeps_ok: "world_ok w \<Longrightarrow> yields UNIV (f w) (\<lambda>v. world_ok v \<and> same_setup w v) \<Longrightarrow> f w = Inr v \<Longrightarrow> world_keeps w v"
  by (simp add: world_keeps_def)

lemma commands_keep:
  "WorldDoNodeUnloadCommands w = Inr v \<Longrightarrow> world_keeps w v" "WorldDoNodeLoadCommands now w = Inr v \<Longrightarrow> world_keeps w v"
  using WorldDoNodeUnloadCommands_ok [OF _ io_safe_UNIV, of w] WorldDoNodeLoadCommands_ok [OF _ io_safe_UNIV, of w now]
  by (auto simp: world_keeps_def)

lemma sweep_keeps: "ScaleUnloadUnutilizedNodes i now w = Inr v \<Longrightarrow> i < w_max_scale w \<Longrightarrow> world_keeps w v"
  using ScaleUnloadUnutilizedNodes_ok [of w i now] by (auto simp: world_keeps_def)

lemma pool_keeps: "run_pool_task db_get db_set k w = Inr v \<Longrightarrow> world_keeps w v"
  using run_pool_task_ok [of w db_get db_set k] by (auto simp: world_keeps_def)

section \<open>The module in use\<close>

lemma on_world_module:
  assumes "module_ok s" "on_world p f s = Inr s'"
    and "\<And>W w'. si_memory s p = Some W \<Longrightarrow> f (sw_world W) = Inr w' \<Longrightarrow> world_ok (sw_world W) \<Longrightarrow>
      world_ok w' \<and> w_max_scale w' = w_max_scale (sw_world W)"
  shows "module_ok s' \<and> shape s' = shape s"
proof -
  obtain W w' where W: "si_memory s p = Some W" "f (sw_world W) = Inr w'" "s' = put_world p (W\<lparr>sw_world := w'\<rparr>) s"
    using assms(2) by (auto simp: on_world_def world_of_def rbind_eq_Inr_iff split: option.splits)
  have w: "world_ok (sw_world W)" "p < si_next s" using assms(1) W(1) by (auto simp: module_ok_def worlds_ok_def)
  note w' = assms(3) [OF W(1,2) w(1)]
  have sh: "shape s' = shape s" using W(1) w' by (auto simp: shape_def W(3) put_world_def fun_eq_iff)
  have "lists_agree s'" using assms(1) sh by - (rule lists_agree_frame [of s], auto simp: module_ok_def W(3) put_world_def)
  moreover have "worlds_ok s'" using assms(1) w' w(2) by (auto simp: module_ok_def worlds_ok_def W(3) put_world_def)
  ultimately show ?thesis using assms(1) sh by (simp add: module_ok_def W(3) put_world_def)
qed

lemma on_world_keeps:
  assumes "module_ok s" "on_world p f s = Inr s'" "\<And>W w'. si_memory s p = Some W \<Longrightarrow> f (sw_world W) = Inr w' \<Longrightarrow> world_keeps (sw_world W) w'"
  shows "module_ok s' \<and> shape s' = shape s"
proof (rule on_world_module [OF assms(1,2)])
  fix W w'
  assume "si_memory s p = Some W" "f (sw_world W) = Inr w'" "world_ok (sw_world W)"
  with assms(3) [OF this(1,2)] show "world_ok w' \<and> w_max_scale w' = w_max_scale (sw_world W)"
    by (simp add: world_keeps_def same_setup_def)
qed

lemma spatial_WorldUpdate_module:
  assumes "module_ok s" "spatial_WorldUpdate p s = Inr s'"
  shows "module_ok s' \<and> shape s' = shape s"
proof -
  obtain s1 where s1: "on_world p WorldDoNodeUnloadCommands s = Inr s1"
    "(if \<not> si_unloading s1 then on_world p (WorldDoNodeLoadCommands (si_frame_start_time s1)) s1 else Inr s1) = Inr s'"
    using assms(2) by (auto simp: spatial_WorldUpdate_def rbind_eq_Inr_iff)
  have m1: "module_ok s1 \<and> shape s1 = shape s" by (rule on_world_keeps [OF assms(1) s1(1)]) (rule commands_keep)
  show ?thesis
  proof (cases "si_unloading s1")
    case False
    then have "on_world p (WorldDoNodeLoadCommands (si_frame_start_time s1)) s1 = Inr s'" using s1(2) by simp
    from on_world_keeps [OF conjunct1 [OF m1] this] commands_keep(2) m1 show ?thesis by metis
  qed (use s1(2) m1 in auto)
qed

lemma spatial_ScaleUpdate_module:
  assumes "module_ok s" "loaders_ok E" "spatial_ScaleUpdate E (p, i) s = Inr s'" "\<exists>t m. shape s p = Some (t, m) \<and> i < m"
  shows "module_ok s' \<and> shape s' = shape s"
proof -
  obtain s1 where s1: "on_world p (ScaleUnloadUnutilizedNodes i (si_frame_start_time s)) s = Inr s1"
    "(if \<not> si_unloading s1
      then rbind (world_of s1 p) (\<lambda>W.
           rbind (on_world p (ScaleLoadNodesAroundLoaders i (si_frame_start_time s1) (map (se_loader E) (sw_loaders W))) s1)
             (on_world p (ScaleUpdateEntityNodes i (se_required E))))
      else Inr s1) = Inr s'"
    using assms(3) by (auto simp: spatial_ScaleUpdate_def rbind_eq_Inr_iff)
  have i: "i < w_max_scale (sw_world W)" if "shape u = shape s" "si_memory u p = Some W" for u :: "('a, 'b) Simulation" and W
  proof -
    have "shape u p = Some (sw_type W, w_max_scale (sw_world W))" using that(2) by (simp add: shape_def)
    then show ?thesis using assms(4) that(1) by auto
  qed
  have m1: "module_ok s1 \<and> shape s1 = shape s" by (rule on_world_keeps [OF assms(1) s1(1)]) (rule sweep_keeps, use i in auto)
  show ?thesis
  proof (cases "si_unloading s1")
    case False
    then obtain W :: "('a, 'b) SimWorld" and s2 where W: "on_world p (ScaleLoadNodesAroundLoaders i (si_frame_start_time s1) (map (se_loader E) (sw_loaders W))) s1 = Inr s2"
      "on_world p (ScaleUpdateEntityNodes i (se_required E)) s2 = Inr s'"
      using s1(2) by (auto simp: rbind_eq_Inr_iff)
    have m2: "module_ok s2 \<and> shape s2 = shape s1"
      by (rule on_world_keeps [OF conjunct1 [OF m1] W(1)]) (rule ScaleLoadNodes_keeps [OF assms(2)], use i m1 in auto)
    have "module_ok s' \<and> shape s' = shape s2"
      by (rule on_world_keeps [OF conjunct1 [OF m2] W(2)]) (rule ScaleUpdateEntityNodes_keeps)
    then show ?thesis using m1 m2 by simp
  qed (use s1(2) m1 in auto)
qed

lemma world_task_module:
  assumes "module_ok s" "SimulationWorldUpdateTask t index s = Inr s'"
  shows "module_ok s'"
proof -
  have "module_ok v" if "rfold (\<lambda>c. world_callback c p) cs u = Inr v" "module_ok u" for cs p u and v :: "('a, 'b) Simulation"
    using that
  proof (induction cs arbitrary: u)
    case (Cons c cs)
    then obtain x where x: "world_callback c p u = Inr x" "rfold (\<lambda>c. world_callback c p) cs x = Inr v" by (auto simp: rbind_eq_Inr_iff)
    have "module_ok x" using x(1) Cons.prems(2) spatial_WorldUpdate_module by (cases c) (auto simp: world_callback_def)
    with Cons.IH [OF x(2)] show ?case .
  qed simp
  then show ?thesis using assms by (auto simp: SimulationWorldUpdateTask_def Let_def split: if_splits)
qed

lemma scale_task_module:
  assumes "module_ok s" "loaders_ok E" "SimulationScaleUpdateTask E t index s = Inr s'"
  shows "module_ok s'"
proof -
  obtain p i where q: "st_scales (si_types s t) ! index = (p, i)" by force
  have idx: "index < length (st_scales (si_types s t))" using assms(3) by (auto simp: SimulationScaleUpdateTask_def split: if_splits)
  have "(p, i) \<in> set (st_scales (si_types s t))" using nth_mem [OF idx] q by simp
  then have sh: "\<exists>t m. shape s p = Some (t, m) \<and> i < m" using assms(1) by (auto simp: module_ok_def lists_agree_def)
  have "module_ok v" if "rfold (\<lambda>c. scale_callback E c (p, i)) cs u = Inr v" "module_ok u" "shape u = shape s" for cs u and v :: "('a, 'b) Simulation"
    using that
  proof (induction cs arbitrary: u)
    case (Cons c cs)
    then obtain x where x: "scale_callback E c (p, i) u = Inr x" "rfold (\<lambda>c. scale_callback E c (p, i)) cs x = Inr v"
      by (auto simp: rbind_eq_Inr_iff)
    have "module_ok x \<and> shape x = shape s"
      using x(1) Cons.prems(2,3) spatial_ScaleUpdate_module [OF Cons.prems(2) assms(2), of p i x] sh
      by (cases c) (auto simp: scale_callback_def)
    with Cons.IH [OF x(2)] show ?case by blast
  qed simp
  then show ?thesis using assms(1,3) idx q by (auto simp: SimulationScaleUpdateTask_def Let_def)
qed

lemma fold_add_scales:
  "fold (\<lambda>i s. put_type t ((GetType s t)\<lparr>st_scales := st_scales (GetType s t) @ [(p, i)]\<rparr>)
      (s\<lparr>si_spatial_scales := si_spatial_scales s @ [(p, i)]\<rparr>)) is s =
    s\<lparr>si_spatial_scales := si_spatial_scales s @ map (Pair p) is,
      si_types := (si_types s)(t := (si_types s t)\<lparr>st_scales := st_scales (si_types s t) @ map (Pair p) is\<rparr>)\<rparr>"
proof (induction "is" arbitrary: s)
  case Nil
  then show ?case by simp
next
  case (Cons i "is")
  then show ?case by (simp add: put_type_def GetType_def fun_upd_def cong: if_cong)
qed

lemma new_world_module:
  assumes "module_ok s" "world_ok w" "p = si_next s"
    and s': "si_memory s' = (si_memory s)(p \<mapsto> \<lparr>sw_world = w, sw_type = t, sw_loaders = []\<rparr>)" "si_next s' = Suc p"
      "si_spatial_worlds s' = si_spatial_worlds s @ [p]" "si_spatial_scales s' = si_spatial_scales s @ map (Pair p) [0..<w_max_scale w]"
      "si_types s' = (si_types s)(t := (si_types s t)\<lparr>st_worlds := st_worlds (si_types s t) @ [p],
        st_scales := st_scales (si_types s t) @ map (Pair p) [0..<w_max_scale w]\<rparr>)"
  shows "module_ok s'"
proof -
  have L: "lists_agree s" using assms(1) by (simp add: module_ok_def)
  have mem: "si_memory s p = None"
  proof (cases "si_memory s p")
    case (Some W)
    then have "p < si_next s" using assms(1) unfolding module_ok_def worlds_ok_def by blast
    then show ?thesis using assms(3) by simp
  qed
  then have fresh: "si_memory s p = None" "shape s p = None" by (simp_all add: shape_def)
  have sh: "shape s' = (shape s)(p \<mapsto> (t, w_max_scale w))" by (auto simp: shape_def s'(1))
  have "lists_agree s'"
    unfolding lists_agree_def
  proof (intro conjI allI)
    show "distinct (si_spatial_worlds s')" "set (si_spatial_worlds s') = {p. shape s' p \<noteq> None}"
      using L fresh by (auto simp: lists_agree_def s'(3) sh)
    show "distinct (si_spatial_scales s')" "set (si_spatial_scales s') = {(p, i). \<exists>t m. shape s' p = Some (t, m) \<and> i < m}"
      using L fresh by (auto simp: lists_agree_def s'(4) sh distinct_map inj_on_def split: if_splits)
    fix t'
    show "distinct (st_worlds (si_types s' t'))" "set (st_worlds (si_types s' t')) = {p. \<exists>m. shape s' p = Some (t', m)}"
      using L fresh by (auto simp: lists_agree_def s'(5) sh)
    show "distinct (st_scales (si_types s' t'))" "set (st_scales (si_types s' t')) = {(p, i). \<exists>m. shape s' p = Some (t', m) \<and> i < m}"
      using L fresh by (auto simp: lists_agree_def s'(5) sh distinct_map inj_on_def split: if_splits)
  qed
  moreover have "worlds_ok s'" using assms(1,2) by (auto simp: module_ok_def worlds_ok_def s'(1,2) assms(3) less_Suc_eq split: if_splits)
  ultimately show ?thesis using assms(1) by (simp add: module_ok_def s'(5))
qed

lemma OnLoadSpatialEntity_eq:
  assumes x: "entity_of s e = Inr x" "CreateWorld (st_data (si_types s t)) (se_open E t e) = Inr (Some w)"
    and ok: "world_ok w" "ent_world_type x = t"
  shows "OnLoadSpatialEntity E e s = Inr (s\<lparr>si_next := Suc (si_next s),
    si_factory := AList.update e (x\<lparr>ent_world := Some (si_next s)\<rparr>) (si_factory s),
    si_memory := (si_memory s)(si_next s \<mapsto> \<lparr>sw_world = w, sw_type = t, sw_loaders = []\<rparr>),
    si_spatial_worlds := si_spatial_worlds s @ [si_next s],
    si_spatial_scales := si_spatial_scales s @ map (Pair (si_next s)) [0..<w_max_scale w],
    si_types := (si_types s)(t := (si_types s t)\<lparr>st_worlds := st_worlds (si_types s t) @ [si_next s],
      st_scales := st_scales (si_types s t) @ map (Pair (si_next s)) [0..<w_max_scale w]\<rparr>)\<rparr>)"
  unfolding OnLoadSpatialEntity_def Let_def x(1) rbind_Inr GetType_def ok(2) x(2) option.case ForEachScale_pure [OF ok(1)]
    fold_add_scales [unfolded GetType_def]
  by (simp add: put_type_def put_world_def put_entity_def)

lemma OnLoadSpatialEntity_module:
  assumes "module_ok s" "OnLoadSpatialEntity E e s = Inr s'"
  shows "module_ok s'"
proof -
  obtain x w where x: "entity_of s e = Inr x" "CreateWorld (st_data (si_types s (ent_world_type x))) (se_open E (ent_world_type x) e) = Inr (Some w)"
    using assms(2) by (auto simp: OnLoadSpatialEntity_def GetType_def Let_def rbind_eq_Inr_iff split: option.splits)
  have w: "world_ok w" by (rule CreateWorld_ok [OF x(2)]) (use assms(1) in \<open>simp add: module_ok_def\<close>)
  show ?thesis
    by (rule new_world_module [OF assms(1) w refl]) (use assms(2) OnLoadSpatialEntity_eq [OF x w refl] in auto)
qed

lemma module_frame:
  assumes "module_ok s" "si_memory s' = si_memory s" "si_next s' = si_next s" "si_spatial_worlds s' = si_spatial_worlds s"
    "si_spatial_scales s' = si_spatial_scales s" "si_types s' = si_types s"
  shows "module_ok s'"
proof -
  have "shape s' = shape s" by (simp add: shape_def fun_eq_iff assms(2))
  with lists_agree_frame [of s s'] assms show ?thesis by (simp add: module_ok_def worlds_ok_def)
qed

lemma put_entity_module: "module_ok s \<Longrightarrow> module_ok (put_entity e x s)"
  by (rule module_frame) (simp_all add: put_entity_def)

lemma OnUnloadSpatialEntity_module:
  assumes "module_ok s" "OnUnloadSpatialEntity e s = Inr s'"
  shows "module_ok s'"
proof -
  obtain x p and s1 :: "('a, 'b) Simulation"
    where x: "on_world p (\<lambda>w. Inr (UnloadWorld w)) s = Inr s1" "s' = put_entity e (x\<lparr>ent_world := None\<rparr>) s1"
    using assms(2) by (auto simp: OnUnloadSpatialEntity_def rbind_eq_Inr_iff split: option.splits)
  have "module_ok s1 \<and> shape s1 = shape s"
  proof (rule on_world_module [OF assms(1) x(1)])
    fix W w'
    assume "world_ok (sw_world W)" "Inr (UnloadWorld (sw_world W)) = (Inr w' :: ('a, 'b) World res)"
    then show "world_ok w' \<and> w_max_scale w' = w_max_scale (sw_world W)" using UnloadWorld_ok [of "sw_world W"] by (auto simp: UnloadWorld_def)
  qed
  then show ?thesis by (simp add: x(2) put_entity_module)
qed

lemma loaders_module:
  assumes "module_ok s" "si_memory s p = Some W"
  shows "module_ok (put_world p (W\<lparr>sw_loaders := ls\<rparr>) s)"
proof -
  have "on_world p (\<lambda>w. Inr w) (put_world p (W\<lparr>sw_loaders := ls\<rparr>) s) = Inr (put_world p (W\<lparr>sw_loaders := ls\<rparr>) s)"
    by (simp add: on_world_def world_of_def put_world_def)
  have sh: "shape (put_world p (W\<lparr>sw_loaders := ls\<rparr>) s) = shape s" using assms(2) by (auto simp: shape_def put_world_def fun_eq_iff)
  have "lists_agree (put_world p (W\<lparr>sw_loaders := ls\<rparr>) s)"
    using assms(1) by - (rule lists_agree_frame [of s, OF _ _ _ _ sh], auto simp: module_ok_def put_world_def)
  then show ?thesis using assms by (auto simp: module_ok_def worlds_ok_def put_world_def split: if_splits)
qed

lemma world_of_eq [simp]: "world_of s p = Inr W \<longleftrightarrow> si_memory s p = Some W"
  by (simp add: world_of_def split: option.split)

lemma OnLoadLoaderEntity_module:
  assumes "module_ok s" "OnLoadLoaderEntity e s = Inr s'"
  shows "module_ok s'"
proof -
  obtain x where x: "entity_of s e = Inr x" using assms(2) by (auto simp: OnLoadLoaderEntity_def rbind_eq_Inr_iff)
  obtain p where p: "ent_parent_world x = Some p" using assms(2) x by (cases "ent_parent_world x") (auto simp: OnLoadLoaderEntity_def)
  then show ?thesis using assms x by (auto simp: OnLoadLoaderEntity_def rbind_eq_Inr_iff loaders_module)
qed

lemma OnUnloadLoaderEntity_module:
  assumes "module_ok s" "OnUnloadLoaderEntity e s = Inr s'"
  shows "module_ok s'"
proof -
  obtain x where x: "entity_of s e = Inr x" using assms(2) by (auto simp: OnUnloadLoaderEntity_def rbind_eq_Inr_iff)
  obtain p where p: "ent_parent_world x = Some p" using assms(2) x by (cases "ent_parent_world x") (auto simp: OnUnloadLoaderEntity_def)
  then show ?thesis using assms x by (auto simp: OnUnloadLoaderEntity_def rbind_eq_Inr_iff loaders_module)
qed

text \<open>
  What can happen to the worlds of a simulation: entities with worlds and loaders begin to load and to unload, tasks run
  for a world or a scale in any order, the pool runs I/O tasks, and \<open>Update\<close> removes worlds. What else changes the simulation
  in between, such as the creation of entities, the contexts of threads and the clock, does not touch the worlds and the lists of them.
\<close>

inductive module_step ::
    "('db \<Rightarrow> vec3i \<times> nat \<Rightarrow> db_status \<times> byte list) \<Rightarrow> ('db \<Rightarrow> vec3i \<times> nat \<Rightarrow> byte list \<Rightarrow> db_status \<times> 'db) \<Rightarrow>
     ('d, 'db) Simulation \<Rightarrow> ('d, 'db) Simulation \<Rightarrow> bool" for db_get db_set where
  load_world: "OnLoadSpatialEntity E e s = Inr s' \<Longrightarrow> module_step db_get db_set s s'"
| unload_world: "OnUnloadSpatialEntity e s = Inr s' \<Longrightarrow> module_step db_get db_set s s'"
| load_loader: "OnLoadLoaderEntity e s = Inr s' \<Longrightarrow> module_step db_get db_set s s'"
| unload_loader: "OnUnloadLoaderEntity e s = Inr s' \<Longrightarrow> module_step db_get db_set s s'"
| world_task: "SimulationWorldUpdateTask t index s = Inr s' \<Longrightarrow> module_step db_get db_set s s'"
| scale_task: "loaders_ok E \<Longrightarrow> SimulationScaleUpdateTask E t index s = Inr s' \<Longrightarrow> module_step db_get db_set s s'"
| pool_task: "on_world p (run_pool_task db_get db_set k) s = Inr s' \<Longrightarrow> module_step db_get db_set s s'"
| update: "spatial_Update s = Inr s' \<Longrightarrow> module_step db_get db_set s s'"
| other: "si_memory s' = si_memory s \<Longrightarrow> si_next s' = si_next s \<Longrightarrow> si_spatial_worlds s' = si_spatial_worlds s \<Longrightarrow>
    si_spatial_scales s' = si_spatial_scales s \<Longrightarrow> si_types s' = si_types s \<Longrightarrow> module_step db_get db_set s s'"

lemma module_step_ok:
  assumes "module_step db_get db_set s s'" "module_ok s"
  shows "module_ok s'"
  using assms
proof (induction rule: module_step.induct)
  case (load_world E e s s')
  then show ?case by (blast intro: OnLoadSpatialEntity_module)
next
  case (unload_world e s s')
  then show ?case by (blast intro: OnUnloadSpatialEntity_module)
next
  case (load_loader e s s')
  then show ?case by (blast intro: OnLoadLoaderEntity_module)
next
  case (unload_loader e s s')
  then show ?case by (blast intro: OnUnloadLoaderEntity_module)
next
  case (world_task t index s s')
  then show ?case by (blast intro: world_task_module)
next
  case (scale_task E t index s s')
  then show ?case by (blast intro: scale_task_module)
next
  case (pool_task p k s s')
  then show ?case using on_world_keeps [OF pool_task(2,1)] pool_keeps by blast
next
  case (update s s')
  then show ?case using spatial_Update_ok [OF update(2)] by auto
next
  case (other s' s)
  then show ?case by - (rule module_frame [of s])
qed

lemma module_initial: "module_ok (SimulationInitialize n (new_Simulation local initial))"
  by (auto simp: module_ok_def lists_agree_def worlds_ok_def shape_def SimulationInitialize_def simulation_Initialize_def
      universe_Initialize_def galaxy_Initialize_def put_type_def Let_def new_Simulation_def new_SpatialTypeData_def new_TypeData_def
      k_max_world_scale_def)

lemma module_reachable_ok:
  "(module_step db_get db_set)\<^sup>*\<^sup>* (SimulationInitialize n (new_Simulation local initial)) s \<Longrightarrow> module_ok s"
  by (induction rule: rtranclp_induct) (auto intro: module_initial module_step_ok)

section \<open>Properties\<close>

text \<open>
  C23: in every state that loading and unloading entities, tasks of worlds and scales in any order, the I/O pool and
  \<open>Update\<close> can lead to, the module's lists agree. The list of worlds names each world in memory once, the list of each type the
  worlds of that type once, and the lists of scales the scales of these worlds once.
\<close>

theorem module_lists_agree:
  assumes "(module_step db_get db_set)\<^sup>*\<^sup>* (SimulationInitialize n (new_Simulation local initial)) s"
  shows "distinct (si_spatial_worlds s) \<and> distinct (si_spatial_scales s) \<and>
    (\<forall>p. p \<in> set (si_spatial_worlds s) \<longleftrightarrow> si_memory s p \<noteq> None) \<and>
    (\<forall>p i. (p, i) \<in> set (si_spatial_scales s) \<longleftrightarrow> (\<exists>W. si_memory s p = Some W \<and> i < w_max_scale (sw_world W))) \<and>
    (\<forall>t. distinct (st_worlds (GetType s t)) \<and> distinct (st_scales (GetType s t)) \<and>
      (\<forall>p. p \<in> set (st_worlds (GetType s t)) \<longleftrightarrow> (\<exists>W. si_memory s p = Some W \<and> sw_type W = t)) \<and>
      (\<forall>p i. (p, i) \<in> set (st_scales (GetType s t)) \<longleftrightarrow>
        (\<exists>W. si_memory s p = Some W \<and> sw_type W = t \<and> i < w_max_scale (sw_world W))))"
proof -
  have "lists_agree s" using module_reachable_ok [OF assms] by (simp add: module_ok_def)
  moreover have "shape s p = Some (t, m) \<longleftrightarrow> (\<exists>W. si_memory s p = Some W \<and> sw_type W = t \<and> w_max_scale (sw_world W) = m)" for p t m
    by (auto simp: shape_def)
  moreover have "shape s p = None \<longleftrightarrow> si_memory s p = None" for p by (simp add: shape_def)
  ultimately show ?thesis by (auto simp: lists_agree_def GetType_def)
qed

text \<open>A universe that has been loaded, and one that has been told to unload.\<close>

definition example_surroundings :: "unit sim_surroundings" where
  "example_surroundings = \<lparr>se_open = (\<lambda>_ _. (SUCCESS, ())),
     se_loader = (\<lambda>_. \<lparr>l_min_lod = 0, l_max_lod = 0, l_sphere = (\<lambda>_. (Vec3i 0 0 0, Vec3i 0 0 0, \<lambda>_. False))\<rparr>),
     se_required = (\<lambda>_. Vec3i 0 0 0)\<rparr>"

definition example_entity :: SimEntity where
  "example_entity = \<lparr>ent_types = k_universe_type, ent_world_type = Universe, ent_world = None, ent_parent_world = None\<rparr>"

definition example_world_type :: "unit TypeData" where
  "example_world_type = (new_TypeData False ())\<lparr>td_node_size := 16, td_node_keepalive := 1000\<rparr>"

definition example_new_world :: "(unit, unit) World" where
  "example_new_world = (case CreateWorld example_world_type (SUCCESS, ()) of Inr (Some w) \<Rightarrow> w | _ \<Rightarrow> undefined)"

lemma example_new_world: "CreateWorld example_world_type (SUCCESS, ()) = Inr (Some example_new_world)"
proof -
  have "case CreateWorld example_world_type (SUCCESS, ()) of Inr (Some w) \<Rightarrow> True | _ \<Rightarrow> False" by code_simp
  then show ?thesis by (auto simp: example_new_world_def split: sum.splits option.splits)
qed

lemma example_unloading:
  obtains s W where "(module_step db_get db_set)\<^sup>*\<^sup>* (SimulationInitialize 2 (new_Simulation False ())) s"
    "si_spatial_worlds s = [0]" "si_memory s = [0 \<mapsto> W]" "sw_world W = UnloadWorld example_new_world"
proof -
  let ?i = "SimulationInitialize 2 (new_Simulation False ()) :: (unit, unit) Simulation"
  let ?s = "put_entity 0 example_entity ?i" and ?x = "example_entity"
  have w: "world_ok example_new_world" by (rule CreateWorld_ok [OF example_new_world]) code_simp
  have init: "si_types ?s Universe = (new_SpatialTypeData False ())\<lparr>st_data := example_world_type,
      st_world_updates := [Spatial3D_Update, DebugRender_Update, Universe_Update],
      st_scale_updates := [Spatial3D_Update, DebugRender_Update, Universe_Update]\<rparr>"
    "si_next ?s = 0" "si_factory ?s = [(0, example_entity)]" "si_memory ?s = (\<lambda>_. None)" "si_spatial_worlds ?s = []"
    by (simp_all add: put_entity_def SimulationInitialize_def simulation_Initialize_def universe_Initialize_def galaxy_Initialize_def
        put_type_def Let_def new_Simulation_def new_SpatialTypeData_def example_world_type_def new_TypeData_def)
  have e: "entity_of ?s 0 = Inr example_entity" by (simp add: entity_of_def init)
  have u: "ent_world_type example_entity = Universe" by (simp add: example_entity_def)
  have c: "CreateWorld (st_data (si_types ?s Universe)) (se_open example_surroundings Universe 0) = Inr (Some example_new_world)"
    using example_new_world by (simp add: init example_surroundings_def)
  obtain s1 where l: "OnLoadSpatialEntity example_surroundings 0 ?s = Inr s1"
    and s1: "si_factory s1 = [(0, example_entity\<lparr>ent_world := Some 0\<rparr>)]" "si_spatial_worlds s1 = [0]"
      "si_memory s1 = [0 \<mapsto> \<lparr>sw_world = example_new_world, sw_type = Universe, sw_loaders = []\<rparr>]"
    using OnLoadSpatialEntity_eq [OF e c w] by (simp add: init u)
  obtain s2 where v: "OnUnloadSpatialEntity 0 s1 = Inr s2" and s2: "si_spatial_worlds s2 = [0]"
    "si_memory s2 = [0 \<mapsto> \<lparr>sw_world = UnloadWorld example_new_world, sw_type = Universe, sw_loaders = []\<rparr>]"
    using s1 by (simp add: OnUnloadSpatialEntity_def entity_of_def on_world_def world_of_def put_world_def put_entity_def)
  have "(module_step db_get db_set)\<^sup>*\<^sup>* ?i ?s" by (rule r_into_rtranclp) (rule module_step.other, simp_all add: put_entity_def)
  also have "module_step db_get db_set \<dots> s1" by (rule module_step.load_world [OF l])
  also have "module_step db_get db_set \<dots> s2" by (rule module_step.unload_world [OF v])
  finally show ?thesis using that [of s2 "\<lparr>sw_world = UnloadWorld example_new_world, sw_type = Universe, sw_loaders = []\<rparr>"] s2 by simp
qed

theorem module_lists_agree_witness:
  "\<exists>(s :: (unit, unit) Simulation) W. si_spatial_worlds s = [0] \<and> si_memory s 0 = Some W \<and>
     (\<forall>i. (0, i) \<in> set (si_spatial_scales s) \<longleftrightarrow> i < w_max_scale (sw_world W))"
proof -
  obtain s W where s: "(module_step (\<lambda>_ _. (SUCCESS, [])) (\<lambda>db _ _. (SUCCESS, db)))\<^sup>*\<^sup>* (SimulationInitialize 2 (new_Simulation False ())) s"
    "si_spatial_worlds s = [0]" "si_memory s = [0 \<mapsto> W]" "sw_world W = UnloadWorld example_new_world"
    using example_unloading .
  with module_lists_agree [OF s(1)] show ?thesis by auto
qed

text \<open>
  C24: \<open>Update\<close> of the spatial module, which erases from the list of worlds while it walks through it, never fails and
  destroys exactly the worlds that are unloading and have no node left: no world is skipped and no other world is touched.
\<close>

theorem update_destroys_unloaded:
  assumes "(module_step db_get db_set)\<^sup>*\<^sup>* (SimulationInitialize n (new_Simulation local initial)) s"
  shows "\<exists>s'. spatial_Update s = Inr s' \<and> (\<forall>p. si_memory s' p =
    (case si_memory s p of
       None \<Rightarrow> None
     | Some W \<Rightarrow> if IsWorldUnloading (sw_world W) \<and> WorldGetNodeCount (sw_world W) = Inr 0 then None else Some W))"
proof -
  obtain s' where s': "spatial_Update s = Inr s'" "si_memory s' = (\<lambda>p. if removable s p then None else si_memory s p)"
    using spatial_Update_ok [OF module_reachable_ok [OF assms]] by blast
  have "si_memory s' p = (case si_memory s p of
       None \<Rightarrow> None
     | Some W \<Rightarrow> if IsWorldUnloading (sw_world W) \<and> WorldGetNodeCount (sw_world W) = Inr 0 then None else Some W)" for p
    by (cases "si_memory s p") (auto simp: s'(2) removable_def IsWorldUnloading_def)
  with s'(1) show ?thesis by blast
qed

theorem update_destroys_unloaded_witness:
  "\<exists>s s' :: (unit, unit) Simulation. si_memory s 0 \<noteq> None \<and> spatial_Update s = Inr s' \<and> si_memory s' 0 = None"
proof -
  obtain s W where s: "(module_step (\<lambda>_ _. (SUCCESS, [])) (\<lambda>db _ _. (SUCCESS, db)))\<^sup>*\<^sup>* (SimulationInitialize 2 (new_Simulation False ())) s"
    "si_spatial_worlds s = [0]" "si_memory s = [0 \<mapsto> W]" "sw_world W = UnloadWorld example_new_world"
    using example_unloading .
  have "IsWorldUnloading (UnloadWorld example_new_world) \<and> WorldGetNodeCount (UnloadWorld example_new_world) = Inr 0" by code_simp
  moreover obtain s' where s': "spatial_Update s = Inr s'" "\<forall>p. si_memory s' p = (case si_memory s p of None \<Rightarrow> None
     | Some W \<Rightarrow> if IsWorldUnloading (sw_world W) \<and> WorldGetNodeCount (sw_world W) = Inr 0 then None else Some W)"
    using update_destroys_unloaded [OF s(1)] by blast
  ultimately have "si_memory s' 0 = None" using spec [OF s'(2), of 0] by (simp add: s(3,4))
  moreover have "si_memory s 0 \<noteq> None" by (simp add: s(3))
  ultimately show ?thesis using s'(1) by blast
qed

end
