(* ===== verification/UniverseShutdown.thy ===== *)
theory UniverseShutdown
  imports SpatialModuleProps
begin

text \<open>
  Starting and stopping the simulation of a universe server: what holds when \<open>SimulationUnload\<close> returns, and what goes wrong.
\<close>

section \<open>Starting a universe\<close>

lemma no_worlds_no_tasks:
  assumes "\<And>t. st_worlds (si_types s t) = []" "\<And>t. st_scales (si_types s t) = []"
  shows "SimulationDoMultitasks (map (\<lambda>t. (SimulationWorldUpdateTask t, length (st_worlds (si_types s t)))) all_types) s = Inr s"
    "SimulationDoMultitasks (map (\<lambda>t. (SimulationScaleUpdateTask E t, length (st_scales (si_types s t)))) all_types) s = Inr s"
  by (simp_all add: SimulationDoMultitasks_def SimulationDoTasks_def all_types_def assms)

lemma first_update:
  assumes "\<And>t. st_worlds (si_types s t) = []" "\<And>t. st_scales (si_types s t) = []" "si_spatial_worlds s = []" "si_frame_index s = 0"
  shows "SimulationUpdate E now s =
    rbind (rfold (do_context E) [0..<length (si_contexts s)] (simulation_Update now s)) (\<lambda>s1. Inr (factory_Cleanup s1))"
proof -
  have "debugrender_Update (simulation_Update now s) = Inr (simulation_Update now s)"
    using assms(4) by (simp add: debugrender_Update_def simulation_Update_def)
  moreover have "spatial_Update (simulation_Update now s) = Inr (simulation_Update now s)"
    by (simp add: spatial_Update_def spatial_update_loop.simps simulation_Update_def assms(3))
  moreover have "si_contexts (simulation_Update now s) = si_contexts s" by (simp add: simulation_Update_def)
  ultimately show ?thesis unfolding SimulationUpdate_def no_worlds_no_tasks [OF assms(1,2)] rbind_Inr by simp
qed

lemma rfold_first_fails: "f x s = Inl e \<Longrightarrow> rfold f (x # xs) s = Inl e"
  by simp

text \<open>Creating a world fails only when the region file does not open, and then gives a null pointer.\<close>

lemma CreateWorld_cases:
  assumes "0 < td_max_scale type" "td_max_scale type \<le> k_max_world_scale"
  shows "CreateWorld type opened = Inr None \<or> (\<exists>w. CreateWorld type opened = Inr (Some w) \<and> world_ok w)"
proof (cases "CreateWorld (type\<lparr>td_local := False\<rparr>) opened")
  case (Inl e)
  then show ?thesis using assms by (simp add: CreateWorld_def)
next
  case (Inr r)
  show ?thesis
  proof (cases "CreateWorld type opened")
    case (Inr x)
    then show ?thesis using CreateWorld_ok [of type opened] assms(1) by (cases x) auto
  next
    case (Inl e)
    let ?type = "type\<lparr>td_local := False\<rparr>"
    let ?w = "\<lparr>w_type = type, w_max_scale = td_max_scale type, w_node_size = td_node_size type mod 256,
                 w_unloading = False, w_node_keepalive = td_node_keepalive type,
                 w_scales = map new_scale [0..<td_max_scale type], w_database = snd opened,
                 w_heap = (\<lambda>_. None), w_next = 0, w_pool = []\<rparr>"
    have "rfold (\<lambda>i s. rbind (GetScale ?w i) (\<lambda>_. rbind (scale_at ?w i) (\<lambda>sc.
        assert_that (sc_nodes sc = [] \<and> sc_loading_nodes sc = [] \<and> sc_unloading_nodes sc = [])))) is () = Inr ()"
      if "\<forall>i \<in> set is. i < td_max_scale type" for "is"
      using that by (induction "is") (auto simp: GetScale_def scale_at_def new_scale_def assert_that_def)
    then have "DestroyWorld ?w = Inr ()" using assms(1) by (simp add: DestroyWorld_def WorldForEachScale_def assert_that_def)
    then show ?thesis using Inl assms(2) by (simp add: CreateWorld_def Let_def split: if_splits)
  qed
qed

lemma load_world_or_crash:
  assumes "entity_of s e = Inr x" "0 < td_max_scale (st_data (si_types s (ent_world_type x)))"
    "td_max_scale (st_data (si_types s (ent_world_type x))) \<le> k_max_world_scale"
  shows "OnLoadSpatialEntity E e s = Inl Null_Pointer \<or>
    (\<exists>s'. OnLoadSpatialEntity E e s = Inr s' \<and> si_contexts s' = si_contexts s \<and>
      (\<forall>t. st_data (si_types s' t) = st_data (si_types s t)) \<and>
      si_factory s' = AList.update e (x\<lparr>ent_world := Some (si_next s)\<rparr>) (si_factory s))"
proof (cases "CreateWorld (st_data (si_types s (ent_world_type x))) (se_open E (ent_world_type x) e) = Inr None")
  case True
  then show ?thesis using assms(1) by (simp add: OnLoadSpatialEntity_def Let_def GetType_def)
next
  case False
  then obtain w where w: "CreateWorld (st_data (si_types s (ent_world_type x))) (se_open E (ent_world_type x) e) = Inr (Some w)" "world_ok w"
    using CreateWorld_cases [OF assms(2,3)] by blast
  show ?thesis using OnLoadSpatialEntity_eq [OF assms(1) w refl] by simp
qed

text \<open>
  \<open>StartLocalUniverse\<close> reads the universe's world before the universe is loaded, so the galaxy's parent world is null; the
  next update loads both and uses that null pointer.
\<close>

theorem start_universe_crashes:
  assumes "u \<noteq> g" "0 < n mod 256"
  shows "\<exists>s. StartLocalUniverse u g (SimulationInitialize n (new_Simulation local initial)) = Inr s \<and>
    SimulationUpdate E now s = Inl Null_Pointer"
proof -
  let ?i = "SimulationInitialize n (new_Simulation local initial) :: ('a, 'b) Simulation"
  let ?ctx = "\<lparr>tc_load_commands = [], tc_unload_commands = []\<rparr>"
  let ?x = "\<lparr>ent_types = k_universe_type, ent_world_type = Universe, ent_world = None, ent_parent_world = None\<rparr>"
  let ?y = "\<lparr>ent_types = k_simulated_galaxy_type, ent_world_type = Galaxy, ent_world = None, ent_parent_world = None\<rparr>"
  have i: "si_factory ?i = []" "si_contexts ?i = replicate (n mod 256) ?ctx" "si_context ?i = Some 0" "\<not> si_unloading ?i" "si_owners ?i = []"
    "si_spatial_worlds ?i = []" "si_frame_index ?i = 0" "\<And>t. st_worlds (si_types ?i t) = []" "\<And>t. st_scales (si_types ?i t) = []"
    "\<And>t. 0 < td_max_scale (st_data (si_types ?i t)) \<and> td_max_scale (st_data (si_types ?i t)) \<le> k_max_world_scale"
    by (simp_all add: SimulationInitialize_def simulation_Initialize_def universe_Initialize_def galaxy_Initialize_def
        put_type_def Let_def new_Simulation_def new_SpatialTypeData_def new_TypeData_def k_max_world_scale_def)
  define s where "s = ?i\<lparr>si_factory := [(u, ?x), (g, ?y)], si_owners := [u, g],
    si_contexts := (replicate (n mod 256) ?ctx)[0 := \<lparr>tc_load_commands = [u, g], tc_unload_commands = []\<rparr>]\<rparr>"
  have start: "StartLocalUniverse u g ?i = Inr s"
    using assms
    by (simp add: StartLocalUniverse_def CreateUniverse_def SimulationCreateEntity_def put_entity_def push_load_def GetContext_def
        entity_of_def GetEntityWorld_def CreateSimulatedGalaxy_def assert_that_def Let_def i s_def)
  have s: "st_worlds (si_types s t) = []" "st_scales (si_types s t) = []" for t by (simp_all add: s_def i)
  let ?s = "simulation_Update now s"
  have up: "SimulationUpdate E now s = rbind (rfold (do_context E) [0..<n mod 256] ?s) (\<lambda>s1. Inr (factory_Cleanup s1))"
    by (subst first_update [OF s]) (simp_all add: s_def i)
  obtain m where m: "n mod 256 = Suc m" using assms(2) by (cases "n mod 256") auto
  have load: "do_context E 0 ?s = rbind (rfold (DoEvent_BeginLoad E) [u, g] ?s) (\<lambda>s1.
     let s2 = s1\<lparr>si_contexts := (si_contexts s1)[0 := (si_contexts s1 ! 0)\<lparr>tc_load_commands := []\<rparr>]\<rparr>
     in rbind (rfold DoEvent_BeginUnload (tc_unload_commands (si_contexts s2 ! 0)) s2) (\<lambda>s3.
        Inr (s3\<lparr>si_contexts := (si_contexts s3)[0 := (si_contexts s3 ! 0)\<lparr>tc_unload_commands := []\<rparr>]\<rparr>)))"
    using m by (simp add: do_context_def simulation_Update_def s_def)
  have u: "DoEvent_BeginLoad E u ?s = Inl Null_Pointer \<or> (\<exists>s1. DoEvent_BeginLoad E u ?s = Inr s1 \<and>
    (\<forall>t. st_data (si_types s1 t) = st_data (si_types ?i t)) \<and> entity_of s1 g = Inr ?y)"
  proof -
    have e: "entity_of (OnLoadEntity u ?s) u = Inr ?x" by (simp add: entity_of_def OnLoadEntity_def simulation_Update_def s_def)
    have eu: "entity_of ?s u = Inr ?x" by (simp add: entity_of_def simulation_Update_def s_def)
    have t: "si_types (OnLoadEntity u ?s) = si_types ?i" by (simp add: OnLoadEntity_def simulation_Update_def s_def)
    have "OnLoadSpatialEntity E u (OnLoadEntity u ?s) = Inl Null_Pointer \<or>
      (\<exists>s'. OnLoadSpatialEntity E u (OnLoadEntity u ?s) = Inr s' \<and> (\<forall>t. st_data (si_types s' t) = st_data (si_types ?i t)) \<and>
        entity_of s' g = Inr ?y)"
      using load_world_or_crash [OF e, of E] i(10) assms(1)
      by (auto simp: t entity_of_def OnLoadEntity_def simulation_Update_def s_def)
    then show ?thesis
      using eu by (auto simp: DoEvent_BeginLoad_def k_universe_type_def OnLoadUniverseEntity_def entity_of_def Let_def)
  qed
  have g: "DoEvent_BeginLoad E g s1 = Inl Null_Pointer"
    if d: "\<forall>t. st_data (si_types s1 t) = st_data (si_types ?i t)" and y: "entity_of s1 g = Inr ?y" for s1 :: "('a, 'b) Simulation"
  proof -
    have e: "entity_of (OnLoadEntity g s1) g = Inr ?y" using y by (simp add: entity_of_def OnLoadEntity_def)
    have t: "st_data (si_types (OnLoadEntity g s1) t) = st_data (si_types ?i t)" for t using d by (simp add: OnLoadEntity_def)
    have loader: "OnLoadLoaderEntity g s' = Inl Null_Pointer"
      if "si_factory s' = AList.update g (?y\<lparr>ent_world := Some p\<rparr>) fs" for s' :: "('a, 'b) Simulation" and p fs
      using that by (simp add: OnLoadLoaderEntity_def entity_of_def update_conv')
    show ?thesis
      using load_world_or_crash [OF e, of E] i(10) y loader
      by (auto simp: t DoEvent_BeginLoad_def k_simulated_galaxy_type_def Let_def)
  qed
  have "rfold (DoEvent_BeginLoad E) [u, g] ?s = Inl Null_Pointer" using u g by auto
  then have "do_context E 0 ?s = Inl Null_Pointer" by (simp add: load)
  moreover have "[0..<n mod 256] = 0 # [1..<n mod 256]" using assms(2) by (simp add: upt_conv_Cons)
  ultimately have "SimulationUpdate E now s = Inl Null_Pointer" by (simp add: up)
  with start show ?thesis by blast
qed

section \<open>Unloading\<close>

lemma sweep_keeps_loading:
  assumes "world_ok w" "i < w_max_scale w" "ScaleUnloadUnutilizedNodes i now w = Inr v"
  shows "state_at v s Loading = state_at w s Loading"
proof -
  note o = world_okD [OF assms(1)]
  let ?I = "\<lambda>v. world_ok v \<and> loc v = loc w \<and> (\<forall>q. st_of v q = Some Loading \<longleftrightarrow> st_of w q = Some Loading)"
  have "yields {} (rfold (unload_unutilized i now) (sc_nodes (w_scales w ! i)) w) ?I"
  proof (rule yields_rfold)
    fix e v
    assume e: "e \<in> set (sc_nodes (w_scales w ! i))" and v: "?I v"
    obtain pos p where ep: "e = (pos, p)" by force
    have l: "loc v p = Some (i, pos)" using scale_entry [OF o(4) assms(2)] e v ep by simp
    have "yields {} (unload_unutilized i now (pos, p) v) ?I"
    proof (rule yields_mono [OF unload_unutilized_ok [OF conjunct1 [OF v] l, of now] subset_refl])
      fix x
      assume x: "world_ok x \<and> same_setup v x \<and> loc x = loc v \<and>
        st_of x = (st_of v)(p := (if (w_unloading v \<or> (\<exists>n. w_heap v p = Some n \<and>
            now - n_last_update_time n > w_node_keepalive v)) \<and> st_of v p = Some Loaded
          then Some Unloading else st_of v p))"
      then have "st_of x q = Some Loading \<longleftrightarrow> st_of v q = Some Loading" for q by auto
      with v x show "?I x" by simp
    qed
    then show "yields {} (unload_unutilized i now e v) ?I" by (simp add: ep)
  qed (use assms(1) in simp)
  then have "?I v" using assms(2,3) o(9) by (simp add: ScaleUnloadUnutilizedNodes_def scale_at_def)
  then show ?thesis by (auto simp: state_at_def)
qed

text \<open>A simulation that unloads while the nodes \<open>Q\<close>, each a world, a scale and a coordinate, are still to be loaded.\<close>

definition closing :: "(ptr \<times> nat \<times> vec3i) set \<Rightarrow> ('d, 'db) Simulation \<Rightarrow> bool" where
  "closing Q s \<longleftrightarrow> module_ok s \<and> si_unloading s \<and>
     (\<forall>(p, i, v) \<in> Q. \<exists>W. si_memory s p = Some W \<and> v \<in> state_at (sw_world W) i Loading)"

lemma closing_node: "closing Q s \<Longrightarrow> (p, i, v) \<in> Q \<Longrightarrow> \<exists>W. si_memory s p = Some W \<and> v \<in> state_at (sw_world W) i Loading"
  by (auto simp: closing_def)

lemma closing_frame:
  assumes "closing Q s" "module_ok s'" "si_unloading s' = si_unloading s" "\<And>p i v. (p, i, v) \<in> Q \<Longrightarrow> si_memory s' p = si_memory s p"
  shows "closing Q s'"
  using assms unfolding closing_def by fastforce

lemma closing_same:
  assumes "closing Q s" "si_memory s' = si_memory s" "si_next s' = si_next s" "si_spatial_worlds s' = si_spatial_worlds s"
    "si_spatial_scales s' = si_spatial_scales s" "si_types s' = si_types s" "si_unloading s' = si_unloading s"
  shows "closing Q s'"
  using assms module_frame [of s s'] by (simp add: closing_def)

lemma rfold_closing:
  assumes "\<And>x s s'. closing Q s \<Longrightarrow> f x s = Inr s' \<Longrightarrow> closing Q s'" "rfold f xs s = Inr s'" "closing Q s"
  shows "closing Q s'"
  using assms
proof (induction xs arbitrary: s)
  case (Cons x xs)
  then obtain t where "f x s = Inr t" "rfold f xs t = Inr s'" by (auto simp: rbind_eq_Inr_iff)
  then show ?case using Cons by blast
qed simp

lemma on_world_closing:
  assumes "closing Q s" "on_world q f s = Inr s'"
    and keeps: "\<And>W w'. si_memory s q = Some W \<Longrightarrow> f (sw_world W) = Inr w' \<Longrightarrow> world_ok (sw_world W) \<Longrightarrow>
      world_ok w' \<and> w_max_scale w' = w_max_scale (sw_world W) \<and> (\<forall>i. state_at w' i Loading = state_at (sw_world W) i Loading)"
  shows "closing Q s'"
proof -
  have ok: "module_ok s" using assms(1) by (simp add: closing_def)
  have "module_ok s' \<and> shape s' = shape s" by (rule on_world_module [OF ok assms(2)]) (use keeps in blast)
  moreover obtain W w' where W: "si_memory s q = Some W" "f (sw_world W) = Inr w'" "s' = put_world q (W\<lparr>sw_world := w'\<rparr>) s"
    using assms(2) by (auto simp: on_world_def rbind_eq_Inr_iff)
  moreover have "world_ok (sw_world W)" using ok W(1) by (auto simp: module_ok_def worlds_ok_def)
  note k = keeps [OF W(1,2) this]
  have "\<exists>V. si_memory s' p = Some V \<and> v \<in> state_at (sw_world V) i Loading" if Q: "(p, i, v) \<in> Q" for p i v
  proof -
    obtain V where "si_memory s p = Some V" "v \<in> state_at (sw_world V) i Loading" using closing_node [OF assms(1) Q] by blast
    then show ?thesis using k W(1) by (cases "q = p") (simp_all add: W(3) put_world_def)
  qed
  moreover have "si_unloading s'" using assms(1) by (simp add: W(3) put_world_def closing_def)
  ultimately show ?thesis unfolding closing_def by blast
qed

lemma world_update_closing:
  assumes "closing Q s" "spatial_WorldUpdate q s = Inr s'"
  shows "closing Q s'"
proof -
  obtain s1 where s1: "on_world q WorldDoNodeUnloadCommands s = Inr s1"
    "(if \<not> si_unloading s1 then on_world q (WorldDoNodeLoadCommands (si_frame_start_time s1)) s1 else Inr s1) = Inr s'"
    using assms(2) by (auto simp: spatial_WorldUpdate_def rbind_eq_Inr_iff)
  have "closing Q s1"
  proof (rule on_world_closing [OF assms(1) s1(1)])
    fix W w'
    assume "WorldDoNodeUnloadCommands (sw_world W) = Inr w'" "world_ok (sw_world W)"
    then show "world_ok w' \<and> w_max_scale w' = w_max_scale (sw_world W) \<and> (\<forall>i. state_at w' i Loading = state_at (sw_world W) i Loading)"
      using WorldDoNodeUnloadCommands_ok [OF _ io_safe_UNIV, of "sw_world W"] by (simp add: same_setup_def)
  qed
  then show ?thesis using s1(2) by (simp add: closing_def)
qed

lemma scale_update_closing:
  assumes "closing Q s" "spatial_ScaleUpdate E (q, j) s = Inr s'" "\<exists>t m. shape s q = Some (t, m) \<and> j < m"
  shows "closing Q s' \<and> shape s' = shape s"
proof -
  obtain s1 where s1: "on_world q (ScaleUnloadUnutilizedNodes j (si_frame_start_time s)) s = Inr s1"
    "\<not> \<not> si_unloading s1 \<longrightarrow> s1 = s'"
    using assms(2) by (auto simp: spatial_ScaleUpdate_def rbind_eq_Inr_iff split: if_splits)
  have j: "j < w_max_scale (sw_world W)" if "si_memory s q = Some W" for W
    using assms(3) that by (simp add: shape_def)
  have "closing Q s1"
  proof (rule on_world_closing [OF assms(1) s1(1)])
    fix W w'
    assume w: "si_memory s q = Some W" "ScaleUnloadUnutilizedNodes j (si_frame_start_time s) (sw_world W) = Inr w'" "world_ok (sw_world W)"
    with ScaleUnloadUnutilizedNodes_ok [OF w(3) j [OF w(1)], of "si_frame_start_time s"] sweep_keeps_loading [OF w(3) j [OF w(1)] w(2)]
    show "world_ok w' \<and> w_max_scale w' = w_max_scale (sw_world W) \<and> (\<forall>i. state_at w' i Loading = state_at (sw_world W) i Loading)"
      by (simp add: same_setup_def)
  qed
  moreover have "shape s1 = shape s"
    using on_world_keeps [OF _ s1(1)] sweep_keeps j assms(1) by (blast dest: closing_def [THEN iffD1])
  moreover have "s1 = s'" using s1(2) calculation(1) by (simp add: closing_def)
  ultimately show ?thesis by simp
qed

lemma world_task_closing:
  assumes "closing Q s" "SimulationWorldUpdateTask t k s = Inr s'"
  shows "closing Q s'"
proof -
  have "closing Q x'" if "closing Q x" "world_callback c q x = Inr x'" for c q and x x' :: "('a, 'b) Simulation"
    using that world_update_closing by (cases c) (auto simp: world_callback_def)
  note step = this
  have "rfold (\<lambda>c. world_callback c (st_worlds (si_types s t) ! k)) (st_world_updates (si_types s t)) s = Inr s'"
    using assms(2) by (simp add: SimulationWorldUpdateTask_def Let_def split: if_splits)
  then show ?thesis by (rule rfold_closing [rotated]) (use assms(1) step in blast)+
qed

lemma scale_task_closing:
  assumes "closing Q s" "SimulationScaleUpdateTask E t k s = Inr s'"
  shows "closing Q s'"
proof -
  have k: "k < length (st_scales (si_types s t))" using assms(2) by (auto simp: SimulationScaleUpdateTask_def split: if_splits)
  obtain q j where q: "st_scales (si_types s t) ! k = (q, j)" by force
  have "(q, j) \<in> set (st_scales (si_types s t))" using nth_mem [OF k] q by simp
  then have sh: "\<exists>t m. shape s q = Some (t, m) \<and> j < m" using assms(1) by (auto simp: closing_def module_ok_def lists_agree_def)
  have "closing Q x" if "rfold (\<lambda>c. scale_callback E c (q, j)) cs u = Inr x" "closing Q u" "shape u = shape s" for cs u and x :: "('a, 'b) Simulation"
    using that
  proof (induction cs arbitrary: u)
    case (Cons c cs)
    then obtain y where y: "scale_callback E c (q, j) u = Inr y" "rfold (\<lambda>c. scale_callback E c (q, j)) cs y = Inr x"
      by (auto simp: rbind_eq_Inr_iff)
    have "closing Q y \<and> shape y = shape s"
      using y(1) Cons.prems(2,3) scale_update_closing [OF Cons.prems(2), of E q j y] sh by (cases c) (auto simp: scale_callback_def)
    with Cons.IH [OF y(2)] show ?case by blast
  qed simp
  then show ?thesis using assms k q by (auto simp: SimulationScaleUpdateTask_def Let_def)
qed

lemma tasks_closing:
  assumes "\<And>x k u u'. x \<in> set xs \<Longrightarrow> closing Q u \<Longrightarrow> fst x k u = Inr u' \<Longrightarrow> closing Q u'"
    "SimulationDoMultitasks xs s = Inr s'" "closing Q s"
  shows "closing Q s'"
  using assms
proof (induction xs arbitrary: s)
  case (Cons x xs)
  then obtain t where t: "rfold (fst x) [0..<snd x] s = Inr t" "SimulationDoMultitasks xs t = Inr s'"
    by (auto simp: SimulationDoMultitasks_def SimulationDoTasks_def rbind_eq_Inr_iff)
  have "closing Q t" by (rule rfold_closing [OF Cons.prems(1) t(1) Cons.prems(3)]) auto
  then show ?case by (rule Cons.IH [OF _ t(2), rotated]) (use Cons.prems(1) in \<open>blast intro: list.set_intros\<close>)
qed (simp add: SimulationDoMultitasks_def)

lemma update_closing:
  assumes "closing Q s" "spatial_Update s = Inr s'" "si_unloading s' = si_unloading s"
  shows "closing Q s'"
proof -
  have ok: "module_ok s" using assms(1) by (simp add: closing_def)
  have s': "module_ok s'" "si_memory s' = (\<lambda>p. if removable s p then None else si_memory s p)"
    using spatial_Update_ok [OF ok] assms(2) by auto
  show ?thesis
  proof (rule closing_frame [OF assms(1) s'(1) assms(3)])
    fix p i v
    assume "(p, i, v) \<in> Q"
    then obtain W where W: "si_memory s p = Some W" "v \<in> state_at (sw_world W) i Loading" using closing_node [OF assms(1)] by blast
    have "world_ok (sw_world W)" using ok W(1) by (auto simp: module_ok_def worlds_ok_def)
    then have "\<not> removable s p" using W count_zero [of "sw_world W" i Loading] by (auto simp: removable_def)
    then show "si_memory s' p = si_memory s p" by (simp add: s'(2))
  qed
qed

lemma remove_world_unloading:
  assumes "remove_world it p W s = Inr s'"
  shows "si_unloading s' = si_unloading s"
proof -
  obtain x where x: "WorldForEachScale (sw_world W) (\<lambda>i s. Inr (put_type (sw_type W) ((GetType s (sw_type W))
      \<lparr>st_scales := unordered_erase (p, i) (st_scales (GetType s (sw_type W)))\<rparr>)
      (s\<lparr>si_spatial_scales := unordered_erase (p, i) (si_spatial_scales s)\<rparr>))) s = Inr x"
    "si_unloading s' = si_unloading x"
    using assms unfolding remove_world_def Let_def rbind_eq_Inr_iff by (auto simp: put_type_def)
  have "si_unloading x = si_unloading s"
    by (rule ForEachScale_keeps [OF x(1), where g = si_unloading]) (auto simp: put_type_def)
  with x(2) show ?thesis by simp
qed

lemma spatial_Update_unloading:
  assumes "spatial_Update s = Inr s'"
  shows "si_unloading s' = si_unloading s"
proof -
  have "si_unloading s' = si_unloading s" if "spatial_update_loop it s = Inr s'" for it
    using that
  proof (induction it s rule: spatial_update_loop.induct)
    case (1 it s)
    show ?case
    proof (cases "it < length (si_spatial_worlds s)")
      case True
      then obtain it' t where t: "update_round it s = Inr (it', t)" "spatial_update_loop it' t = Inr s'"
        using "1.prems" by (auto simp: spatial_update_loop.simps [of it s] rbind_eq_Inr_iff)
      have "si_unloading t = si_unloading s"
        using t(1) by (auto simp: update_round_def Let_def rbind_eq_Inr_iff dest: remove_world_unloading split: if_splits)
      with "1.IH" [OF True t(1)] t(2) show ?thesis by simp
    qed (use "1.prems" in \<open>simp add: spatial_update_loop.simps [of it s]\<close>)
  qed
  then show ?thesis using assms by (simp add: spatial_Update_def)
qed

lemma debugrender_same: "debugrender_Update s = Inr s' \<Longrightarrow> s' = s\<lparr>si_debug_entity := si_debug_entity s'\<rparr>"
  by (auto simp: debugrender_Update_def Let_def rbind_eq_Inr_iff split: if_splits option.splits)

lemma debugrender_closing:
  assumes "closing Q s" "debugrender_Update s = Inr s'"
  shows "closing Q s'"
proof -
  obtain d where "s' = s\<lparr>si_debug_entity := d\<rparr>" using debugrender_same [OF assms(2)] by blast
  then show ?thesis using assms(1) by - (rule closing_same [of Q s], simp_all)
qed

lemma loader_closing:
  assumes "closing Q s" "si_memory s q = Some W"
  shows "closing Q (put_world q (W\<lparr>sw_loaders := ls\<rparr>) s)"
proof -
  have "module_ok (put_world q (W\<lparr>sw_loaders := ls\<rparr>) s)" using loaders_module [OF _ assms(2)] assms(1) by (simp add: closing_def)
  moreover have "\<exists>V. si_memory (put_world q (W\<lparr>sw_loaders := ls\<rparr>) s) p = Some V \<and> v \<in> state_at (sw_world V) i Loading" if Q: "(p, i, v) \<in> Q" for p i v
  proof -
    obtain V where "si_memory s p = Some V" "v \<in> state_at (sw_world V) i Loading" using closing_node [OF assms(1) Q] by blast
    then show ?thesis using assms(2) by (cases "q = p") (auto simp: put_world_def)
  qed
  ultimately show ?thesis using assms(1) by (auto simp: closing_def put_world_def)
qed

lemma load_spatial_closing:
  assumes "closing Q s" "OnLoadSpatialEntity E e s = Inr s'"
  shows "closing Q s'"
proof -
  have ok: "module_ok s" using assms(1) by (simp add: closing_def)
  obtain x w where x: "entity_of s e = Inr x" "CreateWorld (st_data (si_types s (ent_world_type x))) (se_open E (ent_world_type x) e) = Inr (Some w)"
    using assms(2) by (auto simp: OnLoadSpatialEntity_def GetType_def Let_def rbind_eq_Inr_iff split: option.splits)
  have "world_ok w" by (rule CreateWorld_ok [OF x(2)]) (use ok in \<open>simp add: module_ok_def\<close>)
  note eq = OnLoadSpatialEntity_eq [OF x this refl]
  show ?thesis
  proof (rule closing_frame [OF assms(1) OnLoadSpatialEntity_module [OF ok assms(2)]])
    fix p i v
    assume "(p, i, v) \<in> Q"
    then obtain W where "si_memory s p = Some W" using closing_node [OF assms(1)] by blast
    then have "p < si_next s" using ok unfolding module_ok_def worlds_ok_def by blast
    then show "si_memory s' p = si_memory s p" using assms(2) eq by auto
  qed (use assms(2) eq in auto)
qed

lemma unload_spatial_closing:
  assumes "closing Q s" "OnUnloadSpatialEntity e s = Inr s'"
  shows "closing Q s'"
proof -
  obtain x q and s1 :: "('a, 'b) Simulation"
    where x: "on_world q (\<lambda>w. Inr (UnloadWorld w)) s = Inr s1" "s' = put_entity e (x\<lparr>ent_world := None\<rparr>) s1"
    using assms(2) by (auto simp: OnUnloadSpatialEntity_def rbind_eq_Inr_iff split: option.splits)
  have same: "state_at (UnloadWorld w) i Loading = state_at w i Loading" for i and w :: "('a, 'b) World"
    by (simp add: state_at_def UnloadWorld_def loc_def st_of_def)
  have "closing Q s1"
  proof (rule on_world_closing [OF assms(1) x(1)])
    fix W w'
    assume "world_ok (sw_world W)" and w': "Inr (UnloadWorld (sw_world W)) = (Inr w' :: ('a, 'b) World res)"
    then have "world_ok w'" "w' = UnloadWorld (sw_world W)" using UnloadWorld_ok [of "sw_world W"] by auto
    then show "world_ok w' \<and> w_max_scale w' = w_max_scale (sw_world W) \<and> (\<forall>i. state_at w' i Loading = state_at (sw_world W) i Loading)" by (simp add: same) (simp add: UnloadWorld_def)
  qed
  then show ?thesis by - (rule closing_same [of Q s1], simp_all add: x(2) put_entity_def)
qed

lemma load_loader_closing:
  assumes "closing Q s" "OnLoadLoaderEntity e s = Inr s'"
  shows "closing Q s'"
proof -
  obtain x where x: "entity_of s e = Inr x" using assms(2) by (auto simp: OnLoadLoaderEntity_def rbind_eq_Inr_iff)
  then show ?thesis using assms by (cases "ent_parent_world x") (auto simp: OnLoadLoaderEntity_def rbind_eq_Inr_iff loader_closing)
qed

lemma unload_loader_closing:
  assumes "closing Q s" "OnUnloadLoaderEntity e s = Inr s'"
  shows "closing Q s'"
proof -
  obtain x where x: "entity_of s e = Inr x" using assms(2) by (auto simp: OnUnloadLoaderEntity_def rbind_eq_Inr_iff)
  then show ?thesis using assms by (cases "ent_parent_world x") (auto simp: OnUnloadLoaderEntity_def rbind_eq_Inr_iff loader_closing)
qed

lemma lists_closing:
  assumes "closing Q s"
  shows "closing Q (s\<lparr>si_updating_entities := us\<rparr>)" "closing Q (s\<lparr>si_universes := us\<rparr>)" "closing Q (s\<lparr>si_galaxies := us\<rparr>)"
    "closing Q (s\<lparr>si_contexts := cs\<rparr>)" "closing Q (s\<lparr>si_factory := fs\<rparr>)"
    "closing Q (simulation_Update now s)"
  by (rule closing_same [OF assms]; simp add: simulation_Update_def)+

lemma begin_load_closing:
  assumes "closing Q s" "DoEvent_BeginLoad E e s = Inr s'"
  shows "closing Q s'"
proof -
  obtain x s2 s3 where "entity_of s e = Inr x"
    "(if CWorld \<in> set (ent_types x) then OnLoadSpatialEntity E e (OnLoadEntity e s) else Inr (OnLoadEntity e s)) = Inr s2"
    "(if CLoader \<in> set (ent_types x) \<and> CEntity \<in> set (ent_types x) then OnLoadLoaderEntity e s2 else Inr s2) = Inr s3"
    and s': "s' = (let s4 = (if CUniverse \<in> set (ent_types x) then OnLoadUniverseEntity e s3 else s3)
      in if CGalaxy \<in> set (ent_types x) then OnLoadGalaxyEntity e s4 else s4)"
    using assms(2) by (auto simp: DoEvent_BeginLoad_def rbind_eq_Inr_iff Let_def)
  moreover have "closing Q (OnLoadEntity e s)" using assms(1) by (simp add: OnLoadEntity_def lists_closing)
  ultimately have "closing Q s3" by (auto dest: load_spatial_closing load_loader_closing split: if_splits)
  then show ?thesis by (simp add: s' Let_def OnLoadUniverseEntity_def OnLoadGalaxyEntity_def lists_closing)
qed

lemma begin_unload_closing:
  assumes "closing Q s" "DoEvent_BeginUnload e s = Inr s'"
  shows "closing Q s'"
proof -
  obtain x s2 s3 where "entity_of s e = Inr x"
    "(if CWorld \<in> set (ent_types x) then OnUnloadSpatialEntity e (OnUnloadEntity e s) else Inr (OnUnloadEntity e s)) = Inr s2"
    "(if CLoader \<in> set (ent_types x) \<and> CEntity \<in> set (ent_types x) then OnUnloadLoaderEntity e s2 else Inr s2) = Inr s3"
    and s': "s' = (let s4 = (if CUniverse \<in> set (ent_types x) then OnUnloadUniverseEntity e s3 else s3)
      in if CGalaxy \<in> set (ent_types x) then OnUnloadGalaxyEntity e s4 else s4)"
    using assms(2) by (auto simp: DoEvent_BeginUnload_def rbind_eq_Inr_iff Let_def)
  moreover have "closing Q (OnUnloadEntity e s)" using assms(1) by (simp add: OnUnloadEntity_def lists_closing)
  ultimately have "closing Q s3" by (auto dest: unload_spatial_closing unload_loader_closing split: if_splits)
  then show ?thesis by (simp add: s' Let_def OnUnloadUniverseEntity_def OnUnloadGalaxyEntity_def lists_closing)
qed

lemma context_closing:
  assumes "closing Q s" "do_context E c s = Inr s'"
  shows "closing Q s'"
proof -
  let ?clear = "\<lambda>s1. s1\<lparr>si_contexts := (si_contexts s1)[c := (si_contexts s1 ! c)\<lparr>tc_load_commands := []\<rparr>]\<rparr>"
  obtain s1 s3 where s: "rfold (DoEvent_BeginLoad E) (tc_load_commands (si_contexts s ! c)) s = Inr s1"
    "rfold DoEvent_BeginUnload (tc_unload_commands (si_contexts (?clear s1) ! c)) (?clear s1) = Inr s3"
    "s' = s3\<lparr>si_contexts := (si_contexts s3)[c := (si_contexts s3 ! c)\<lparr>tc_unload_commands := []\<rparr>]\<rparr>"
    using assms(2) by (auto simp: do_context_def rbind_eq_Inr_iff Let_def)
  have "closing Q s1" by (rule rfold_closing [OF _ s(1) assms(1)]) (rule begin_load_closing)
  then have "closing Q (?clear s1)" by (rule lists_closing)
  then have "closing Q s3" by (rule rfold_closing [OF _ s(2), rotated]) (rule begin_unload_closing)
  then show ?thesis unfolding s(3) by (rule lists_closing)
qed

lemma SimulationUpdate_closing:
  assumes "closing Q s" "SimulationUpdate E now s = Inr s'"
  shows "closing Q s'"
proof -
  obtain s1 s2 s3 s4 s5 where s:
    "SimulationDoMultitasks (map (\<lambda>t. (SimulationWorldUpdateTask t, length (st_worlds (si_types s t)))) all_types) s = Inr s1"
    "SimulationDoMultitasks (map (\<lambda>t. (SimulationScaleUpdateTask E t, length (st_scales (si_types s1 t)))) all_types) s1 = Inr s2"
    "debugrender_Update (simulation_Update now s2) = Inr s3" "spatial_Update s3 = Inr s4"
    "rfold (do_context E) [0..<length (si_contexts s4)] s4 = Inr s5" "s' = factory_Cleanup s5"
    using assms(2) by (auto simp: SimulationUpdate_def rbind_eq_Inr_iff)
  have "closing Q s1" by (rule tasks_closing [OF _ s(1) assms(1)]) (auto intro: world_task_closing)
  then have "closing Q s2" by (rule tasks_closing [OF _ s(2), rotated]) (auto intro: scale_task_closing)
  then have "closing Q s3" using debugrender_closing [OF _ s(3)] lists_closing(6) by blast
  then have "closing Q s4" by (rule update_closing [OF _ s(4) spatial_Update_unloading [OF s(4)]])
  then have "closing Q s5" by (rule rfold_closing [OF _ s(5), rotated]) (rule context_closing)
  then show ?thesis unfolding s(6) factory_Cleanup_def by (rule lists_closing)
qed

lemma done_no_worlds: "module_ok s \<Longrightarrow> IsSimulationUnloadDone s \<Longrightarrow> si_memory s p = None"
  by (auto simp: module_ok_def lists_agree_def shape_def IsSimulationUnloadDone_def spatial_IsUnloadDone_def)

lemma unload_loop_closing:
  assumes "closing Q s" "unload_loop E now k fuel s = Inr (Some s')"
  shows "closing Q s' \<and> IsSimulationUnloadDone s'"
  using assms
proof (induction fuel arbitrary: s k)
  case (Suc fuel)
  show ?case
  proof (cases "IsSimulationUnloadDone s")
    case False
    then obtain t where "SimulationUpdate E (now k) s = Inr t" "unload_loop E now (Suc k) fuel t = Inr (Some s')"
      using Suc.prems by (auto simp: rbind_eq_Inr_iff)
    with SimulationUpdate_closing [OF Suc.prems(1)] Suc.IH show ?thesis by blast
  qed (use Suc.prems in auto)
qed (auto split: if_splits)


text \<open>The universe of the example is gone after one update.\<close>

lemma rfold_id: "(\<And>x. x \<in> set xs \<Longrightarrow> f x s = Inr s) \<Longrightarrow> rfold f xs s = Inr s"
  by (induction xs) auto

definition idle_world :: "(unit, unit) World" where
  "idle_world = UnloadWorld example_new_world"

lemma idle_world_facts:
  "w_max_scale idle_world = k_max_world_scale" "w_scales idle_world = map new_scale [0..<k_max_world_scale]" "w_unloading idle_world"
  by (simp_all add: idle_world_def UnloadWorld_def example_new_world_def CreateWorld_def Let_def example_world_type_def new_TypeData_def)

lemma idle_world_steps:
  "WorldDoNodeUnloadCommands idle_world = Inr idle_world"
  "j < k_max_world_scale \<Longrightarrow> ScaleUnloadUnutilizedNodes j now idle_world = Inr idle_world"
  "WorldGetNodeCount idle_world = Inr 0"
proof -
  have pos: "0 < k_max_world_scale" by (simp add: k_max_world_scale_def)
  have at: "scale_at idle_world j = Inr (new_scale j)" if "j < k_max_world_scale" for j using that by (simp add: scale_at_def idle_world_facts)
  have same: "modify_scale j (\<lambda>sc. sc\<lparr>sc_unloading_nodes := []\<rparr>) idle_world = Inr idle_world" if "j < k_max_world_scale" for j
  proof -
    have "(new_scale j)\<lparr>sc_unloading_nodes := []\<rparr> = new_scale j" by (simp add: new_scale_def)
    then have "(w_scales idle_world)[j := (new_scale j)\<lparr>sc_unloading_nodes := []\<rparr>] = w_scales idle_world"
      using that list_update_same_conv [of j "w_scales idle_world" "new_scale j"] by (simp add: idle_world_facts)
    then show ?thesis using that by (simp add: modify_scale_def at)
  qed
  show "WorldDoNodeUnloadCommands idle_world = Inr idle_world"
    unfolding WorldDoNodeUnloadCommands_def WorldForEachScale_def idle_world_facts
    using pos by (simp add: assert_that_def, intro rfold_id)
      (auto simp: GetScale_def idle_world_facts at ScaleDoNodeCommands_def same, simp add: new_scale_def same)
  show "ScaleUnloadUnutilizedNodes j now idle_world = Inr idle_world" if "j < k_max_world_scale"
    using that by (simp add: ScaleUnloadUnutilizedNodes_def at) (simp add: new_scale_def)
  show "WorldGetNodeCount idle_world = Inr 0"
    unfolding WorldGetNodeCount_def WorldForEachScale_def idle_world_facts
    using pos by (simp add: assert_that_def, intro rfold_id)
      (auto simp: GetScale_def idle_world_facts ScaleGetNodeCount_def at, simp add: new_scale_def)
qed

lemma idle_on_world:
  assumes "si_memory s p = Some W" "f (sw_world W) = Inr (sw_world W)"
  shows "on_world p f s = Inr s"
proof -
  have "(si_memory s)(p \<mapsto> W) = si_memory s" using assms(1) by auto
  then have "put_world p (W\<lparr>sw_world := sw_world W\<rparr>) s = s" by (simp add: put_world_def)
  then show ?thesis using assms unfolding on_world_def by (simp add: world_of_def)
qed

lemma idle_tasks:
  assumes "module_ok s" "si_unloading s" "si_memory s = [0 \<mapsto> W]" "sw_world W = idle_world"
  shows "SimulationDoMultitasks (map (\<lambda>t. (SimulationWorldUpdateTask t, length (st_worlds (si_types s t)))) all_types) s = Inr s"
    "SimulationDoMultitasks (map (\<lambda>t. (SimulationScaleUpdateTask E t, length (st_scales (si_types s t)))) all_types) s = Inr s"
proof -
  have world: "world_callback c 0 s = Inr s" for c
  proof -
    have "on_world 0 WorldDoNodeUnloadCommands s = Inr s" by (rule idle_on_world [of s 0 W]) (simp_all add: assms(3,4) idle_world_steps)
    then show ?thesis using assms(2) by (cases c) (simp_all add: world_callback_def spatial_WorldUpdate_def)
  qed
  have scale: "scale_callback E c (0, j) s = Inr s" if "j < k_max_world_scale" for c j
  proof -
    have "on_world 0 (ScaleUnloadUnutilizedNodes j (si_frame_start_time s)) s = Inr s"
      by (rule idle_on_world [of s 0 W]) (simp_all add: assms(3,4) idle_world_steps that)
    then show ?thesis using assms(2) by (cases c) (simp_all add: scale_callback_def spatial_ScaleUpdate_def)
  qed
  have L: "set (st_worlds (si_types s t)) = {p. \<exists>m. shape s p = Some (t, m)}"
    "set (st_scales (si_types s t)) = {(p, i). \<exists>m. shape s p = Some (t, m) \<and> i < m}" for t
    using assms(1) by (simp_all add: module_ok_def lists_agree_def)
  have sh: "shape s p = (if p = 0 then Some (sw_type W, k_max_world_scale) else None)" for p
    by (simp add: shape_def assms(3,4) idle_world_facts)
  have "SimulationWorldUpdateTask t k s = Inr s" if "k < length (st_worlds (si_types s t))" for t k
  proof -
    have "st_worlds (si_types s t) ! k = 0" using nth_mem [OF that] by (auto simp: L(1) sh split: if_splits)
    then show ?thesis using that world by (simp add: SimulationWorldUpdateTask_def rfold_id)
  qed
  then show "SimulationDoMultitasks (map (\<lambda>t. (SimulationWorldUpdateTask t, length (st_worlds (si_types s t)))) all_types) s = Inr s"
    unfolding SimulationDoMultitasks_def by (intro rfold_id) (auto simp: SimulationDoTasks_def intro!: rfold_id)
  have "SimulationScaleUpdateTask E t k s = Inr s" if "k < length (st_scales (si_types s t))" for t k
  proof -
    have "st_scales (si_types s t) ! k \<in> set (st_scales (si_types s t))" using that by (rule nth_mem)
    then obtain j where "st_scales (si_types s t) ! k = (0, j)" "j < k_max_world_scale" by (auto simp: L(2) sh split: if_splits)
    then show ?thesis using that scale by (simp add: SimulationScaleUpdateTask_def rfold_id)
  qed
  then show "SimulationDoMultitasks (map (\<lambda>t. (SimulationScaleUpdateTask E t, length (st_scales (si_types s t)))) all_types) s = Inr s"
    unfolding SimulationDoMultitasks_def by (intro rfold_id) (auto simp: SimulationDoTasks_def intro!: rfold_id)
qed

lemma idle_update:
  assumes "module_ok s" "si_unloading s" "si_memory s = [0 \<mapsto> W]" "sw_world W = idle_world" "si_spatial_worlds s = [0]"
    "si_frame_index s = 0" "si_updating_entities s = []" "si_contexts s = []"
  shows "\<exists>s'. SimulationUpdate E now s = Inr s' \<and> IsSimulationUnloadDone s'"
proof -
  let ?s = "simulation_Update now s"
  have ok: "module_ok ?s" using assms(1) by - (rule module_frame [of s], simp_all add: simulation_Update_def)
  have W: "world_ok (sw_world W)" using assms(1,3) by (auto simp: module_ok_def worlds_ok_def)
  have count: "WorldGetNodeCount (sw_world W) = Inr 0" using idle_world_steps(3) assms(4) by simp
  have fields: "si_memory ?s = [0 \<mapsto> W]" "si_spatial_worlds ?s = [0]" "si_updating_entities ?s = []" "si_contexts ?s = []"
    "si_frame_index ?s = 1" using assms by (simp_all add: simulation_Update_def)
  obtain s1 where s1: "remove_world 0 0 W ?s = Inr s1" "si_spatial_worlds s1 = []" "si_contexts s1 = []" "si_updating_entities s1 = []"
    using remove_world_eq [OF W count, of 0 0 ?s] by (simp add: fields unordered_erase_it_def)
  have "update_round 0 ?s = Inr (0, s1)"
    using assms(4) s1(1) count idle_world_facts(3) by (simp add: update_round_def Let_def fields IsWorldUnloading_def world_of_def)
  then have up: "spatial_Update ?s = Inr s1"
    using s1(2) fields by (simp add: spatial_Update_def spatial_update_loop.simps [of 0])
  then have "module_ok s1" using spatial_Update_ok [OF ok] by auto
  then have "si_spatial_scales s1 = []"
    using s1(2) by (auto simp: module_ok_def lists_agree_def)
  moreover have "debugrender_Update ?s = Inr ?s" by (simp add: debugrender_Update_def fields)
  ultimately show ?thesis
    unfolding SimulationUpdate_def idle_tasks [OF assms(1-4)] rbind_Inr
    using up s1 by (simp add: factory_Cleanup_def IsSimulationUnloadDone_def simulation_IsUnloadDone_def spatial_IsUnloadDone_def)
qed


section \<open>Stopping before the first update\<close>

text \<open>
  \<open>SimulationUnload\<close> does not look at the commands of the contexts. When an entity has been created but no update has run, there is
  nothing to wait for, the command still holds its reference, and the last assertion of \<open>SimulationUninitialize\<close> fails.
\<close>

lemma unload_before_update:
  assumes "0 < n mod 256"
  shows "\<exists>s. CreateUniverse u (SimulationInitialize n (new_Simulation local initial)) = Inr s \<and>
    DoSimulationUnload_universe E now fuel s = Inl Assertion"
proof -
  let ?i = "SimulationInitialize n (new_Simulation local initial) :: ('a, 'b) Simulation"
  let ?ctx = "\<lparr>tc_load_commands = [], tc_unload_commands = []\<rparr>"
  let ?x = "\<lparr>ent_types = k_universe_type, ent_world_type = Universe, ent_world = None, ent_parent_world = None\<rparr>"
  obtain m where m: "n mod 256 = Suc m" using assms by (cases "n mod 256") auto
  have i: "si_factory ?i = []" "si_contexts ?i = ?ctx # replicate m ?ctx" "si_context ?i = Some 0"
    "si_spatial_worlds ?i = []" "si_spatial_scales ?i = []" "si_updating_entities ?i = []"
    by (simp_all add: SimulationInitialize_def simulation_Initialize_def universe_Initialize_def galaxy_Initialize_def
        put_type_def Let_def new_Simulation_def m)
  define s where "s = ?i\<lparr>si_factory := [(u, ?x)],
    si_contexts := \<lparr>tc_load_commands = [u], tc_unload_commands = []\<rparr> # replicate m ?ctx\<rparr>"
  have "CreateUniverse u ?i = Inr s"
    by (simp add: CreateUniverse_def SimulationCreateEntity_def put_entity_def push_load_def GetContext_def entity_of_def Let_def i s_def)
  moreover have "SimulationUnload E now fuel s = Inr (Some (s\<lparr>si_unloading := False\<rparr>))"
  proof -
    let ?t = "s\<lparr>si_unloading := True\<rparr>"
    have "IsSimulationUnloadDone ?t"
      by (simp add: IsSimulationUnloadDone_def simulation_IsUnloadDone_def spatial_IsUnloadDone_def s_def i)
    then have "unload_loop E now 0 fuel ?t = Inr (Some ?t)" by (cases fuel) simp_all
    moreover have "SimulationUnload_begin s = Inr ?t" by (simp add: SimulationUnload_begin_def Let_def s_def i)
    ultimately show ?thesis by (simp add: SimulationUnload_def)
  qed
  ultimately show ?thesis
    by (simp add: DoSimulationUnload_universe_def SimulationUninitialize_def Let_def spatial_Uninitialize_def
        debugrender_Uninitialize_def factory_Cleanup_def references_def assert_that_def s_def i)
qed

end
