(* ===== verification/ThreadCheck.thy ===== *)
theory ThreadCheck
  imports UnorderedErase
begin

text \<open>
  \<open>src/Util/Debug.cpp\<close>: the scopes that a debug build opens around reads and writes of an object, to find accesses of several
  threads that conflict. Threads are values of \<open>'t\<close>, the id of no thread is \<open>None\<close>, objects are values of \<open>'o\<close>. A scope is
  entered and left under the lock of the map, so both are one step. Every thread leaves its scopes in reverse order.
\<close>

section \<open>Model\<close>

record 't ThreadObject =
  obj_write :: "'t option"
  obj_write_recursion :: nat
  obj_read :: "'t list"

fun OnlyPresent :: "'t list \<Rightarrow> 't \<Rightarrow> bool" where
  "OnlyPresent [] target = True"
| "OnlyPresent (item # items) target = (if item \<noteq> target then False else OnlyPresent items target)"

definition new_ThreadObject :: "'t ThreadObject" where
  "new_ThreadObject = \<lparr>obj_write = None, obj_write_recursion = 0, obj_read = []\<rparr>"

text \<open>The constructor: its value is \<open>m_write\<close> of the scope.\<close>

definition DebugThreadChecker ::
    "'t \<Rightarrow> 'o \<Rightarrow> bool \<Rightarrow> ('o \<Rightarrow> 't ThreadObject option) \<Rightarrow> (bool \<times> ('o \<Rightarrow> 't ThreadObject option)) res" where
  "DebugThreadChecker thread_id object write objects =
     (let object_data = (case objects object of None \<Rightarrow> new_ThreadObject | Some d \<Rightarrow> d)
      in if write
         then rbind (assert_that (OnlyPresent (obj_read object_data) thread_id)) (\<lambda>_.
           let d1 = object_data\<lparr>obj_write_recursion := obj_write_recursion object_data + 1\<rparr>;
               d2 = (if obj_write_recursion object_data = 0 then d1\<lparr>obj_write := Some thread_id\<rparr> else d1)
           in Inr (True, objects(object \<mapsto> d2)))
         else if obj_write object_data = Some thread_id
         then Inr (True, objects(object \<mapsto> object_data\<lparr>obj_write_recursion := obj_write_recursion object_data + 1\<rparr>))
         else rbind (assert_that (obj_write object_data = None)) (\<lambda>_.
           Inr (False, objects(object \<mapsto> object_data\<lparr>obj_read := obj_read object_data @ [thread_id]\<rparr>))))"

text \<open>The destructor; the counter has 64 bits.\<close>

definition end_DebugThreadChecker ::
    "'t \<Rightarrow> 'o \<Rightarrow> bool \<Rightarrow> ('o \<Rightarrow> 't ThreadObject option) \<Rightarrow> ('o \<Rightarrow> 't ThreadObject option) res" where
  "end_DebugThreadChecker thread_id object write objects =
     (case objects object of
        None \<Rightarrow> Inl Assertion
      | Some object_data \<Rightarrow>
          let d = (if write
                   then let r = (if obj_write_recursion object_data = 0 then 2 ^ 64 - 1 else obj_write_recursion object_data - 1);
                            d1 = object_data\<lparr>obj_write_recursion := r\<rparr>
                        in if r = 0 then d1\<lparr>obj_write := None\<rparr> else d1
                   else object_data\<lparr>obj_read := unordered_erase thread_id (obj_read object_data)\<rparr>)
          in Inr (if obj_read d = [] \<and> obj_write d = None then objects(object := None) else objects(object \<mapsto> d)))"

text \<open>The scopes that each thread is in, innermost first: the object, whether the scope asked to write, and its \<open>m_write\<close>.\<close>

record ('t, 'o) Checks =
  ck_objects :: "'o \<Rightarrow> 't ThreadObject option"
  ck_scopes :: "'t \<Rightarrow> ('o \<times> bool \<times> bool) list"

definition ck_init :: "('t, 'o) Checks" where
  "ck_init = \<lparr>ck_objects = (\<lambda>_. None), ck_scopes = (\<lambda>_. [])\<rparr>"

definition enter_scope :: "'t \<Rightarrow> 'o \<Rightarrow> bool \<Rightarrow> ('t, 'o) Checks \<Rightarrow> ('t, 'o) Checks res" where
  "enter_scope t x w s =
     rbind (DebugThreadChecker t x w (ck_objects s)) (\<lambda>(mw, objects).
       Inr (s\<lparr>ck_objects := objects, ck_scopes := (ck_scopes s)(t := (x, w, mw) # ck_scopes s t)\<rparr>))"

definition leave_scope :: "'t \<Rightarrow> ('t, 'o) Checks \<Rightarrow> ('t, 'o) Checks res" where
  "leave_scope t s =
     (case ck_scopes s t of
        [] \<Rightarrow> Inr s
      | (x, w, mw) # rest \<Rightarrow>
          rbind (end_DebugThreadChecker t x mw (ck_objects s)) (\<lambda>objects.
            Inr (s\<lparr>ck_objects := objects, ck_scopes := (ck_scopes s)(t := rest)\<rparr>)))"

text \<open>
  Whether thread \<open>t\<close> may not access object \<open>x\<close>: to write, while another thread is in any scope of it, to read, while another thread is in
  a scope that writes.
\<close>

definition conflict :: "'t \<Rightarrow> 'o \<Rightarrow> bool \<Rightarrow> ('t, 'o) Checks \<Rightarrow> bool" where
  "conflict t x w s \<longleftrightarrow> (\<exists>u. u \<noteq> t \<and> (\<exists>(y, asked, mw) \<in> set (ck_scopes s u). y = x \<and> (w \<or> asked)))"

inductive ck_step :: "('t, 'o) Checks \<Rightarrow> ('t, 'o) Checks \<Rightarrow> bool" where
  enter: "\<not> conflict t x w s \<Longrightarrow> enter_scope t x w s = Inr s' \<Longrightarrow> ck_step s s'"
| leave: "leave_scope t s = Inr s' \<Longrightarrow> ck_step s s'"

section \<open>The map agrees with the scopes\<close>

definition scopes_on :: "'o \<Rightarrow> ('o \<times> bool \<times> bool) list \<Rightarrow> ('o \<times> bool \<times> bool) list" where
  "scopes_on x xs = filter (\<lambda>e. fst e = x) xs"

definition writes :: "'o \<Rightarrow> ('o \<times> bool \<times> bool) list \<Rightarrow> nat" where
  "writes x xs = length (filter (\<lambda>e. snd (snd e)) (scopes_on x xs))"

definition reads :: "'o \<Rightarrow> ('o \<times> bool \<times> bool) list \<Rightarrow> nat" where
  "reads x xs = length (filter (\<lambda>e. \<not> snd (snd e)) (scopes_on x xs))"

fun nested :: "('o \<times> bool \<times> bool) list \<Rightarrow> bool" where
  "nested [] = True"
| "nested ((x, asked, mw) # xs) \<longleftrightarrow> nested xs \<and> (asked \<longrightarrow> mw) \<and> (mw \<longrightarrow> asked \<or> 0 < writes x xs)"

lemma scopes_on_Cons [simp]: "scopes_on x (e # xs) = (if fst e = x then e # scopes_on x xs else scopes_on x xs)"
  by (simp add: scopes_on_def)

lemma scopes_on_Nil [simp]: "scopes_on x [] = []"
  by (simp add: scopes_on_def)

lemma writes_Cons [simp]: "writes x ((y, a, mw) # xs) = writes x xs + (if y = x \<and> mw then 1 else 0)"
  by (simp add: writes_def)

lemma reads_Cons [simp]: "reads x ((y, a, mw) # xs) = reads x xs + (if y = x \<and> \<not> mw then 1 else 0)"
  by (simp add: reads_def)

lemma writes_Nil [simp]: "writes x [] = 0" and reads_Nil [simp]: "reads x [] = 0"
  by (simp_all add: writes_def reads_def)

lemma no_scopes: "scopes_on x xs = [] \<longleftrightarrow> writes x xs = 0 \<and> reads x xs = 0"
  by (induction xs) (auto split: if_splits)

lemma nested_asked: "nested xs \<Longrightarrow> 0 < writes x xs \<Longrightarrow> (x, True, True) \<in> set xs"
  by (induction xs) (auto split: if_splits)

lemma scope_counts: "(x, a, mw) \<in> set xs \<Longrightarrow> nested xs \<Longrightarrow> scopes_on x xs \<noteq> [] \<and> (a \<longrightarrow> 0 < writes x xs) \<and> (if mw then 0 < writes x xs else 0 < reads x xs)"
  by (induction xs) (auto split: if_splits)

lemma in_scope: "scopes_on x xs \<noteq> [] \<longleftrightarrow> (\<exists>a mw. (x, a, mw) \<in> set xs)"
  by (induction xs) auto

definition object_ok :: "('t, 'o) Checks \<Rightarrow> 'o \<Rightarrow> bool" where
  "object_ok s x \<longleftrightarrow>
     (case ck_objects s x of
        None \<Rightarrow> \<forall>t. scopes_on x (ck_scopes s t) = []
      | Some d \<Rightarrow> (\<exists>t. scopes_on x (ck_scopes s t) \<noteq> []) \<and> (\<forall>t. count (mset (obj_read d)) t = reads x (ck_scopes s t)) \<and>
          (case obj_write d of
             None \<Rightarrow> obj_write_recursion d = 0 \<and> (\<forall>t. writes x (ck_scopes s t) = 0)
           | Some t \<Rightarrow> obj_write_recursion d = writes x (ck_scopes s t) \<and> 0 < writes x (ck_scopes s t) \<and>
               (\<forall>u. u \<noteq> t \<longrightarrow> scopes_on x (ck_scopes s u) = [])))"

lemma object_ok_cong:
  assumes "ck_objects s' y = ck_objects s y" "\<And>u. scopes_on y (ck_scopes s' u) = scopes_on y (ck_scopes s u)"
  shows "object_ok s' y \<longleftrightarrow> object_ok s y"
  by (simp add: object_ok_def writes_def reads_def assms cong: option.case_cong)

definition checks_ok :: "('t, 'o) Checks \<Rightarrow> bool" where
  "checks_ok s \<longleftrightarrow> (\<forall>t. nested (ck_scopes s t)) \<and> (\<forall>x. object_ok s x)"

lemma only_present: "OnlyPresent xs t \<longleftrightarrow> (\<forall>u. u \<noteq> t \<longrightarrow> count (mset xs) u = 0)"
  by (induction xs) auto

lemma enter_ok:
  assumes ok: "checks_ok s" and free: "\<not> conflict t x w s"
  shows "\<exists>s'. enter_scope t x w s = Inr s' \<and> checks_ok s'"
proof -
  have nest: "nested (ck_scopes s u)" and obj: "object_ok s y" for u y using ok by (simp_all add: checks_ok_def)
  have others: "scopes_on x (ck_scopes s u) = []" if "w" "u \<noteq> t" for u
    using free that in_scope [of x "ck_scopes s u"] by (fastforce simp: conflict_def)
  have unasked: "writes x (ck_scopes s u) = 0" if "u \<noteq> t" for u
    using free that nested_asked [OF nest, of x u] by (fastforce simp: conflict_def)
  define d where "d = (case ck_objects s x of None \<Rightarrow> new_ThreadObject | Some d \<Rightarrow> d)"
  have d: "count (mset (obj_read d)) u = reads x (ck_scopes s u)"
    "obj_write d = (if 0 < writes x (ck_scopes s t) then Some t else None)"
    "obj_write_recursion d = writes x (ck_scopes s t)" for u
  proof -
    have "count (mset (obj_read d)) u = reads x (ck_scopes s u) \<and> obj_write d = (if 0 < writes x (ck_scopes s t) then Some t else None) \<and>
      obj_write_recursion d = writes x (ck_scopes s t)"
    proof (cases "ck_objects s x")
      case None
      then show ?thesis using obj [of x] by (simp add: object_ok_def d_def new_ThreadObject_def no_scopes)
    next
      case (Some e)
      show ?thesis
      proof (cases "obj_write e")
        case None
        then show ?thesis using Some obj [of x] by (simp add: object_ok_def d_def)
      next
        fix v
        assume v: "obj_write e = Some v"
        then have "v = t" using Some obj [of x] unasked [of v] by (auto simp: object_ok_def)
        then show ?thesis using Some v obj [of x] by (simp add: object_ok_def d_def)
      qed
    qed
    then show "count (mset (obj_read d)) u = reads x (ck_scopes s u)"
      "obj_write d = (if 0 < writes x (ck_scopes s t) then Some t else None)"
      "obj_write_recursion d = writes x (ck_scopes s t)" by blast+
  qed
  have alone: "scopes_on x (ck_scopes s u) = []" if "0 < writes x (ck_scopes s t)" "u \<noteq> t" for u
  proof (cases "ck_objects s x")
    case None
    then show ?thesis using obj [of x] by (simp add: object_ok_def)
  next
    case (Some e)
    then show ?thesis using obj [of x] that d(2) by (auto simp: object_ok_def d_def)
  qed
  let ?mw = "w \<or> 0 < writes x (ck_scopes s t)"
  define d' where "d' = (if ?mw
    then (if obj_write_recursion d = 0 then d\<lparr>obj_write_recursion := obj_write_recursion d + 1, obj_write := Some t\<rparr>
      else d\<lparr>obj_write_recursion := obj_write_recursion d + 1\<rparr>)
    else d\<lparr>obj_read := obj_read d @ [t]\<rparr>)"
  let ?s = "s\<lparr>ck_objects := (ck_objects s)(x \<mapsto> d'), ck_scopes := (ck_scopes s)(t := (x, w, ?mw) # ck_scopes s t)\<rparr>"
  have only: "w \<Longrightarrow> OnlyPresent (obj_read d) t" using others no_scopes [of x] by (auto simp: only_present d(1))
  have "enter_scope t x w s = Inr ?s"
  proof (cases w)
    case True
    then show ?thesis using only d(2,3)
      by (auto simp: enter_scope_def DebugThreadChecker_def Let_def d_def [symmetric] d'_def assert_that_def)
  next
    case False
    then show ?thesis using d(2,3)
      by (auto simp: enter_scope_def DebugThreadChecker_def Let_def d_def [symmetric] d'_def assert_that_def)
  qed
  moreover have "checks_ok ?s"
    unfolding checks_ok_def
  proof (intro conjI allI)
    fix u show "nested (ck_scopes ?s u)" using nest by simp
  next
    fix y show "object_ok ?s y"
    proof (cases "y = x")
      case False
      then show ?thesis using obj [of y] object_ok_cong [of ?s y s] by simp
    next
      case True
      show ?thesis
        using d alone others unasked no_scopes [of x] unfolding True
        by (auto simp: object_ok_def d'_def)
    qed
  qed
  ultimately show ?thesis by blast
qed

lemma leave_ok:
  assumes ok: "checks_ok s"
  shows "\<exists>s'. leave_scope t s = Inr s' \<and> checks_ok s'"
proof (cases "ck_scopes s t")
  case Nil
  then show ?thesis using ok by (simp add: leave_scope_def)
next
  case (Cons e rest)
  obtain x w mw where e: "e = (x, w, mw)" by (cases e)
  have nest: "nested (ck_scopes s u)" and obj: "object_ok s y" for u y using ok by (simp_all add: checks_ok_def)
  obtain d where d: "ck_objects s x = Some d" using obj [of x] Cons e by (cases "ck_objects s x") (auto simp: object_ok_def dest: spec [of _ t])
  note o = obj [of x, unfolded object_ok_def d option.case]
  have cnt: "writes x (ck_scopes s t) = writes x rest + (if mw then 1 else 0)" "reads x (ck_scopes s t) = reads x rest + (if mw then 0 else 1)"
    by (simp_all add: Cons e)
  define r where "r = writes x rest"
  define d' where "d' = (if mw then (if r = 0 then d\<lparr>obj_write_recursion := r, obj_write := None\<rparr> else d\<lparr>obj_write_recursion := r\<rparr>)
    else d\<lparr>obj_read := unordered_erase t (obj_read d)\<rparr>)"
  let ?o = "if obj_read d' = [] \<and> obj_write d' = None then (ck_objects s)(x := None) else (ck_objects s)(x \<mapsto> d')"
  let ?s = "s\<lparr>ck_objects := ?o, ck_scopes := (ck_scopes s)(t := rest)\<rparr>"
  have own: "obj_write d = Some t \<and> obj_write_recursion d = Suc r \<and> (\<forall>u. u \<noteq> t \<longrightarrow> scopes_on x (ck_scopes s u) = [])" if mw
  proof (cases "obj_write d")
    case None
    then show ?thesis using o cnt that by auto
  next
    case (Some u)
    then have "u = t" using o cnt that no_scopes [of x] by (cases "u = t") auto
    then show ?thesis using o Some cnt that by (simp add: r_def)
  qed
  have "leave_scope t s = Inr ?s"
    using own by (cases mw) (simp_all add: leave_scope_def Cons e end_DebugThreadChecker_def d Let_def d'_def)
  moreover have "checks_ok ?s"
    unfolding checks_ok_def
  proof (intro conjI allI)
    fix u show "nested (ck_scopes ?s u)" using nest [of u] nest [of t] Cons e by simp
  next
    fix y show "object_ok ?s y"
    proof (cases "y = x")
      case False
      then show ?thesis using obj [of y] Cons e object_ok_cong [of ?s y s] by simp
    next
      case True
      have reads: "count (mset (obj_read d')) u = reads x (((ck_scopes s)(t := rest)) u)" for u
        using o cnt by (auto simp: d'_def mset_erase)
      have eq: "ck_scopes ?s = (ck_scopes s)(t := rest)" "ck_objects ?s x = (if obj_read d' = [] \<and> obj_write d' = None then None else Some d')"
        by simp_all
      have w: "case obj_write d' of
             None \<Rightarrow> obj_write_recursion d' = 0 \<and> (\<forall>u. writes x (((ck_scopes s)(t := rest)) u) = 0)
           | Some v \<Rightarrow> obj_write_recursion d' = writes x (((ck_scopes s)(t := rest)) v) \<and> 0 < writes x (((ck_scopes s)(t := rest)) v) \<and>
               (\<forall>u. u \<noteq> v \<longrightarrow> scopes_on x (((ck_scopes s)(t := rest)) u) = [])"
      proof (cases mw)
        case True
        then show ?thesis using own [OF True] no_scopes [of x] by (auto simp: d'_def r_def)
      next
        case False
        then have f: "obj_write d' = obj_write d" "obj_write_recursion d' = obj_write_recursion d" "writes x rest = writes x (ck_scopes s t)"
          using cnt by (simp_all add: d'_def)
        show ?thesis
        proof (cases "obj_write d")
          case None
          then show ?thesis using o f by simp
        next
          case (Some v)
          have "scopes_on x (ck_scopes s t) \<noteq> []" using Cons e by simp
          then have "v = t" using o Some by auto
          then show ?thesis using o Some f by simp
        qed
      qed
      show ?thesis
      proof (cases "obj_read d' = [] \<and> obj_write d' = None")
        case True
        then show ?thesis using w reads unfolding \<open>y = x\<close> object_ok_def eq by (simp add: no_scopes)
      next
        case False
        have "\<exists>u. scopes_on x (((ck_scopes s)(t := rest)) u) \<noteq> []"
        proof (cases "obj_write d'")
          case None
          then obtain u where "u \<in> set (obj_read d')" using False by (cases "obj_read d'") auto
          then have "0 < count (mset (obj_read d')) u" by simp
          then show ?thesis using reads [of u] no_scopes by (metis less_irrefl)
        next
          case (Some v)
          then have "0 < writes x (((ck_scopes s)(t := rest)) v)" using w by simp
          then have "scopes_on x (((ck_scopes s)(t := rest)) v) \<noteq> []" using no_scopes by (metis less_irrefl)
          then show ?thesis by (rule exI)
        qed
        moreover have sx: "ck_objects ?s x = Some d'" using False by (auto simp: fun_upd_def)
        ultimately show ?thesis unfolding \<open>y = x\<close> object_ok_def sx option.case eq(1) using reads w by blast
      qed
    qed
  qed
  ultimately show ?thesis by blast
qed

lemma checks_init: "checks_ok ck_init"
  by (simp add: checks_ok_def ck_init_def object_ok_def)

lemma checks_reachable:
  assumes "ck_step\<^sup>*\<^sup>* ck_init s"
  shows "checks_ok s"
  using assms
proof (induction rule: rtranclp_induct)
  case (step s s')
  from step.hyps(2) show ?case
  proof cases
    case (enter t x w)
    then show ?thesis using enter_ok [OF step.IH, of t x w] by auto
  next
    case (leave t)
    then show ?thesis using leave_ok [OF step.IH, of t] by auto
  qed
qed (rule checks_init)

section \<open>What the checks find\<close>

lemma read_caught:
  assumes ok: "checks_ok s" and c: "conflict t x False s"
  shows "enter_scope t x False s = Inl Assertion"
proof -
  obtain u mw where u: "u \<noteq> t" "(x, True, mw) \<in> set (ck_scopes s u)" using c by (auto simp: conflict_def)
  have w: "0 < writes x (ck_scopes s u)" using scope_counts [OF u(2)] ok by (simp add: checks_ok_def)
  have o: "object_ok s x" using ok by (simp add: checks_ok_def)
  obtain d where d: "ck_objects s x = Some d" using o w by (cases "ck_objects s x") (auto simp: object_ok_def no_scopes)
  have "obj_write d = Some u"
  proof (cases "obj_write d")
    case None
    then show ?thesis using o w by (simp add: object_ok_def d)
  next
    case (Some v)
    then show ?thesis using o w by (cases "v = u") (simp_all add: object_ok_def d no_scopes)
  qed
  then show ?thesis using u(1) by (simp add: enter_scope_def DebugThreadChecker_def d Let_def assert_that_def)
qed

lemma write_caught:
  assumes ok: "checks_ok s" and u: "u \<noteq> t" "(x, False, False) \<in> set (ck_scopes s u)"
  shows "enter_scope t x True s = Inl Assertion"
proof -
  have r: "0 < reads x (ck_scopes s u)" using scope_counts [OF u(2)] ok by (simp add: checks_ok_def)
  have o: "object_ok s x" using ok by (simp add: checks_ok_def)
  obtain d where d: "ck_objects s x = Some d" using o r by (cases "ck_objects s x") (auto simp: object_ok_def no_scopes)
  have "0 < count (mset (obj_read d)) u" using o r by (simp add: object_ok_def d)
  then have "\<not> OnlyPresent (obj_read d) t" using u(1) by (auto simp: only_present)
  then show ?thesis by (simp add: enter_scope_def DebugThreadChecker_def d Let_def assert_that_def)
qed

lemma reader_registered:
  assumes "nested xs" "(x, False, mw) \<in> set xs" "\<forall>m. (x, True, m) \<notin> set xs"
  shows "mw = False"
  using scope_counts [OF assms(2,1)] nested_asked [OF assms(1), of x] assms(3) by auto


text \<open>Thread 1 writes object 7 and, nested in that, reads it.\<close>

definition example_checks :: "(nat, nat) Checks" where
  "example_checks =
     (case rbind (enter_scope 1 7 True ck_init) (enter_scope 1 7 False) of Inr s \<Rightarrow> s | _ \<Rightarrow> ck_init)"

lemma example_checks_reachable: "ck_step\<^sup>*\<^sup>* ck_init example_checks"
proof -
  obtain s1 where s1: "enter_scope 1 7 True ck_init = Inr s1" "enter_scope 1 7 False s1 = Inr example_checks"
    by (simp add: example_checks_def enter_scope_def DebugThreadChecker_def ck_init_def new_ThreadObject_def assert_that_def)
  have "ck_step ck_init s1" by (rule ck_step.enter [OF _ s1(1)]) (simp add: conflict_def ck_init_def)
  moreover have "ck_step s1 example_checks"
  proof (rule ck_step.enter [OF _ s1(2)])
    show "\<not> conflict 1 7 False s1"
      using s1(1) by (auto simp: conflict_def enter_scope_def DebugThreadChecker_def ck_init_def new_ThreadObject_def assert_that_def split: if_splits)
  qed
  ultimately show ?thesis by simp
qed


text \<open>
  Two threads that write the same object are not found: the second write only counts up. The second thread's scope survives
  the first, but the map then still names the first thread, which may even read.
\<close>

lemma two_writers_pass:
  "\<exists>s. rbind (enter_scope (1::nat) (7::nat) True ck_init) (\<lambda>s. rbind (enter_scope 2 7 True s) (\<lambda>s. rbind (leave_scope 1 s) (enter_scope 1 7 False))) = Inr s"
  by (simp add: enter_scope_def leave_scope_def DebugThreadChecker_def end_DebugThreadChecker_def ck_init_def new_ThreadObject_def assert_that_def)

end
