(* ===== verification/DebugVisualization.thy ===== *)
theory DebugVisualization
  imports SpatialUnload
begin

text \<open>
  \<open>BuildWorldDebugVisualization\<close> of \<open>src/DebugRender/DebugRenderModule.cpp\<close>: one box for each node of a world that has no children,
  sent to the render thread as a buffer of 12 numbers for each box. The numbers are those before their conversion to floats.
\<close>

section \<open>Model\<close>

datatype RenderCommand =
    multimesh_allocate_data nat
  | multimesh_set_visible_instances nat
  | multimesh_set_buffer "int list"

definition push_transform :: "int \<Rightarrow> vec3i \<Rightarrow> int list" where
  "push_transform scale_mod pos =
     [scale_mod, 0, 0, vx pos * scale_mod, 0, scale_mod, 0, vy pos * scale_mod, 0, 0, scale_mod, vz pos * scale_mod]"

definition visualize_node ::
    "('d, 'db) World \<Rightarrow> int \<Rightarrow> vec3i \<times> ptr \<Rightarrow> int list \<times> nat \<Rightarrow> (int list \<times> nat) res" where
  "visualize_node w scale_mod e acc =
     (case e of (pos, p) \<Rightarrow>
        rbind (deref w p) (\<lambda>n.
          if n_children_mask n \<noteq> 0 then Inr acc
          else Inr (fst acc @ push_transform scale_mod pos, snd acc + 1)))"

definition visualize_scale :: "('d, 'db) World \<Rightarrow> nat \<Rightarrow> int list \<times> nat \<Rightarrow> (int list \<times> nat) res" where
  "visualize_scale w s acc =
     rbind (scale_at w s) (\<lambda>sc.
       let scale_mod = 2 ^ sc_index sc * int (w_node_size w)
       in rfold (visualize_node w scale_mod) (sc_nodes sc) acc)"

text \<open>The loop that doubles the size of the buffer. From 0, or past \<open>2 ^ 64\<close>, it would not end.\<close>

partial_function (option) grow_buffer :: "nat \<Rightarrow> nat \<Rightarrow> nat option" where
  "grow_buffer buffer_size node_count =
     (let b = buffer_size * 2 mod 2 ^ 64
      in if b < node_count then grow_buffer b node_count else Some b)"

definition resize_floats :: "int list \<Rightarrow> nat \<Rightarrow> int list" where
  "resize_floats xs n = take n xs @ replicate (n - length xs) 0"

text \<open>The new size of the buffer and the commands; \<open>None\<close> when the loop does not end.\<close>

definition BuildWorldDebugVisualization ::
    "('d, 'db) World \<Rightarrow> nat \<Rightarrow> (nat \<times> RenderCommand list) option res" where
  "BuildWorldDebugVisualization w buffer_size =
     rbind (WorldForEachScale w (visualize_scale w) ([], 0)) (\<lambda>(instance_data, node_count). Inr (
       case (if buffer_size < node_count
             then map_option (\<lambda>b. (b, [multimesh_allocate_data b]))
                    (grow_buffer (if buffer_size = 0 then 1 else buffer_size) node_count)
             else Some (buffer_size, [])) of
         None \<Rightarrow> None
       | Some (b, commands) \<Rightarrow>
           Some (b, commands @ (if node_count > 0
             then [multimesh_set_visible_instances node_count, multimesh_set_buffer (resize_floats instance_data (b * 12))]
             else []))))"

section \<open>The buffer holds a box for every leaf\<close>

lemma grow_buffer_ok:
  assumes "0 < b" "b \<le> n" "n < 2 ^ 63" "b = 2 ^ k"
  shows "\<exists>j. grow_buffer b n = Some (2 ^ j) \<and> n \<le> 2 ^ j"
  using assms
proof (induction "n - b" arbitrary: b k rule: less_induct)
  case less
  have "b * 2 < 2 ^ 64" using less.prems(2,3) by simp
  then have eq: "b * 2 mod 2 ^ 64 = 2 ^ Suc k" using less.prems(4) by simp
  show ?case
  proof (cases "b * 2 < n")
    case True
    have "\<exists>j. grow_buffer (2 ^ Suc k) n = Some (2 ^ j) \<and> n \<le> 2 ^ j"
    proof (rule less.hyps [OF _ _ _ less.prems(3) refl])
      show "n - 2 ^ Suc k < n - b" using True less.prems(1,4) by (intro diff_less_mono2) simp_all
    qed (use True less.prems(4) in simp_all)
    then show ?thesis using True eq less.prems(4) by (subst grow_buffer.simps) (simp add: Let_def)
  next
    case False
    then show ?thesis using eq less.prems(4) by (subst grow_buffer.simps) (auto simp: Let_def not_less intro!: exI [of _ "Suc k"])
  qed
qed

text \<open>The nodes of a world without children, scale by scale, in the order of the maps.\<close>

definition leaf_nodes :: "('d, 'db) World \<Rightarrow> nat \<Rightarrow> (vec3i \<times> ptr) list" where
  "leaf_nodes w s = filter (\<lambda>(pos, p). case w_heap w p of None \<Rightarrow> False | Some n \<Rightarrow> n_children_mask n = 0) (sc_nodes (w_scales w ! s))"

definition boxes :: "('d, 'db) World \<Rightarrow> nat list \<Rightarrow> int list list" where
  "boxes w scales = concat (map (\<lambda>s. map (\<lambda>(pos, p). push_transform (2 ^ s * int (w_node_size w)) pos) (leaf_nodes w s)) scales)"

lemma visualize_scale_ok:
  assumes "world_ok w" "s < w_max_scale w"
  shows "visualize_scale w s acc =
    Inr (fst acc @ concat (map (\<lambda>(pos, p). push_transform (2 ^ s * int (w_node_size w)) pos) (leaf_nodes w s)),
      snd acc + length (leaf_nodes w s))"
proof -
  note o = world_okD [OF assms(1)]
  have live: "\<exists>n. w_heap w p = Some n" if "(pos, p) \<in> set (sc_nodes (w_scales w ! s))" for pos p
    using loc_facts [OF o(4) scale_entry [OF o(4) assms(2) that]] scale_entry [OF o(4) assms(2) that] by (auto simp: loc_def split: option.splits)
  have "rfold (visualize_node w m) es acc =
      Inr (fst acc @ concat (map (\<lambda>(pos, p). push_transform m pos)
          (filter (\<lambda>(pos, p). case w_heap w p of None \<Rightarrow> False | Some n \<Rightarrow> n_children_mask n = 0) es)),
        snd acc + length (filter (\<lambda>(pos, p). case w_heap w p of None \<Rightarrow> False | Some n \<Rightarrow> n_children_mask n = 0) es))"
    if "\<forall>(pos, p) \<in> set es. \<exists>n. w_heap w p = Some n" for es m
    using that by (induction es arbitrary: acc) (auto simp: visualize_node_def deref_def split: prod.splits)
  moreover have "sc_index (w_scales w ! s) = s" using o(4) assms(2) by (simp add: nodes_ok_def)
  moreover have "\<forall>(pos, p) \<in> set (sc_nodes (w_scales w ! s)). \<exists>n. w_heap w p = Some n" using live by auto
  ultimately show ?thesis using o(9) assms(2) by (simp add: visualize_scale_def scale_at_def Let_def leaf_nodes_def)
qed

lemma visualize_world:
  assumes "world_ok w"
  shows "WorldForEachScale w (visualize_scale w) ([], 0) = Inr (concat (boxes w [0..<w_max_scale w]), length (boxes w [0..<w_max_scale w]))"
proof -
  note o = world_okD [OF assms]
  have "rfold (\<lambda>i s. rbind (GetScale w i) (\<lambda>_. visualize_scale w i s)) is acc =
      Inr (fst acc @ concat (boxes w is), snd acc + length (boxes w is))" if "\<forall>i \<in> set is. i < w_max_scale w" for "is" acc
    using that
    by (induction "is" arbitrary: acc)
      (auto simp: boxes_def GetScale_ok [OF o(4)] visualize_scale_ok [OF assms] length_concat comp_def)
  then show ?thesis using o(3) by (simp add: WorldForEachScale_def assert_that_def)
qed

lemma box_length: "length (concat (boxes w scales)) = 12 * length (boxes w scales)"
proof -
  have "\<forall>x \<in> set (boxes w scales). length x = 12" by (auto simp: boxes_def push_transform_def)
  then have "length (concat xs) = 12 * length xs" if "set xs \<subseteq> set (boxes w scales)" for xs using that by (induction xs) auto
  then show ?thesis by simp
qed

text \<open>
  C37: for every reachable world the boxes sent are those of the nodes without children, scale by scale, and nothing else is visible. The
  buffer on the render side, whose size is 0 or a power of two, is first doubled until they fit, and is filled to its end.
\<close>

theorem visualization_fits:
  assumes "world_reachable db_get db_set w" "buffer_size = 0 \<or> (\<exists>k. buffer_size = 2 ^ k)"
    "length (boxes w [0..<w_max_scale w]) < 2 ^ 63"
  shows "\<exists>b. (b = 0 \<or> (\<exists>j. b = 2 ^ j)) \<and> length (boxes w [0..<w_max_scale w]) \<le> b \<and>
    BuildWorldDebugVisualization w buffer_size = Inr (Some (b,
      (if buffer_size < b then [multimesh_allocate_data b] else []) @
      (if boxes w [0..<w_max_scale w] = [] then []
       else [multimesh_set_visible_instances (length (boxes w [0..<w_max_scale w])),
             multimesh_set_buffer (concat (boxes w [0..<w_max_scale w]) @
               replicate ((b - length (boxes w [0..<w_max_scale w])) * 12) 0)])))"
proof -
  let ?bs = "boxes w [0..<w_max_scale w]" and ?n = "length (boxes w [0..<w_max_scale w])"
  have ok: "world_ok w" by (rule world_reachable_ok [OF assms(1)])
  have fill: "resize_floats (concat ?bs) (b * 12) = concat ?bs @ replicate ((b - ?n) * 12) 0" if "?n \<le> b" for b
    using that by (simp add: resize_floats_def box_length diff_mult_distrib mult.commute)
  show ?thesis
  proof (cases "buffer_size < ?n")
    case False
    then show ?thesis using assms(2) fill [of buffer_size]
      by (intro exI [of _ buffer_size]) (auto simp: BuildWorldDebugVisualization_def visualize_world [OF ok])
  next
    case True
    obtain k where k: "(if buffer_size = 0 then 1 else buffer_size) = 2 ^ k" "(2::nat) ^ k \<le> ?n"
    proof (cases "buffer_size = 0")
      case True
      then show ?thesis using \<open>buffer_size < ?n\<close> by (intro that [of 0]) (simp_all add: Suc_le_eq)
    next
      case False
      then obtain k where "buffer_size = 2 ^ k" using assms(2) by blast
      then show ?thesis using True by (intro that [of k]) simp_all
    qed
    obtain j where j: "grow_buffer (2 ^ k) ?n = Some (2 ^ j)" "?n \<le> 2 ^ j"
      using grow_buffer_ok [OF _ k(2) assms(3) refl] by auto
    have "buffer_size < 2 ^ j" using True j(2) by simp
    then show ?thesis using True j fill [OF j(2)]
      by (intro exI [of _ "2 ^ j"]) (auto simp: BuildWorldDebugVisualization_def visualize_world [OF ok] k(1))
  qed
qed

theorem visualization_fits_witness:
  "\<exists>b commands. 2 \<le> b \<and> BuildWorldDebugVisualization example_world 0 =
     Inr (Some (b, [multimesh_allocate_data b, multimesh_set_visible_instances 2] @ commands))"
proof -
  have two: "length (boxes example_world [0..<w_max_scale example_world]) = 2" by code_simp
  then have "boxes example_world [0..<w_max_scale example_world] \<noteq> []" by auto
  then show ?thesis using visualization_fits [OF example_world_reachable, of 0] two by auto
qed

end
