(* ===== verification/Spans.thy ===== *)
theory Spans
  imports Prelude
begin

text \<open>
  \<open>src/Util/Span.h\<close>: ranges of items that somebody else owns. A pointer is the array it points into with an index. Of the members
  that return spans of a fixed size none can be instantiated; they have no model.
\<close>

section \<open>Spans whose size is known at run time\<close>

record 'a Span =
  sp_array :: "'a list"
  sp_data :: nat
  sp_size :: nat

definition span_empty :: "'a Span" where
  "span_empty = \<lparr>sp_array = [], sp_data = 0, sp_size = 0\<rparr>"

definition span_range :: "'a list \<Rightarrow> nat \<Rightarrow> nat \<Rightarrow> 'a Span" where
  "span_range array data n = \<lparr>sp_array = array, sp_data = data, sp_size = n\<rparr>"

definition span_between :: "'a list \<Rightarrow> nat \<Rightarrow> nat \<Rightarrow> 'a Span" where
  "span_between array i j = \<lparr>sp_array = array, sp_data = i, sp_size = j - i\<rparr>"

definition span_of_vector :: "'a list \<Rightarrow> 'a Span" where
  "span_of_vector vector = \<lparr>sp_array = vector, sp_data = 0, sp_size = length vector\<rparr>"

definition span_at :: "'a list \<Rightarrow> nat \<Rightarrow> 'a res" where
  "span_at array i = (if i < length array then Inr (array ! i) else Inl Out_Of_Bounds)"

definition span_index :: "'a Span \<Rightarrow> nat \<Rightarrow> 'a res" where
  "span_index s index =
     rbind (assert_that (index \<le> sp_size s)) (\<lambda>_. span_at (sp_array s) (sp_data s + index))"

definition span_Empty :: "'a Span \<Rightarrow> bool" where
  "span_Empty s \<longleftrightarrow> sp_size s \<noteq> 0"

definition span_begin :: "'a Span \<Rightarrow> nat" where
  "span_begin s = sp_data s"

definition span_end :: "'a Span \<Rightarrow> nat" where
  "span_end s = sp_data s + sp_size s"

text \<open>A loop \<open>for (x : span)\<close> that collects the items.\<close>

definition span_items :: "'a Span \<Rightarrow> 'a list res" where
  "span_items s =
     rfold (\<lambda>i xs. rbind (span_at (sp_array s) i) (\<lambda>x. Inr (xs @ [x]))) [span_begin s..<span_end s] []"

definition span_SubSpan :: "'a Span \<Rightarrow> nat \<Rightarrow> nat \<Rightarrow> 'a Span res" where
  "span_SubSpan s offset count =
     rbind (assert_that ((offset + count) mod 2 ^ 64 \<le> sp_size s)) (\<lambda>_.
       Inr \<lparr>sp_array = sp_array s, sp_data = sp_data s + offset, sp_size = count\<rparr>)"

section \<open>Spans of a fixed size\<close>

text \<open>The array has \<open>S\<close> items.\<close>

record 'a StaticSpan =
  ss_array :: "'a list"
  ss_data :: nat

definition static_span :: "'a list \<Rightarrow> 'a StaticSpan" where
  "static_span array = \<lparr>ss_array = array, ss_data = 0\<rparr>"

definition static_index :: "nat \<Rightarrow> 'a StaticSpan \<Rightarrow> nat \<Rightarrow> 'a res" where
  "static_index S s index =
     rbind (assert_that (index \<le> S)) (\<lambda>_. span_at (ss_array s) (ss_data s + index))"

definition static_Empty :: "'a StaticSpan \<Rightarrow> bool" where
  "static_Empty s = False"

definition static_SubSpan :: "nat \<Rightarrow> 'a StaticSpan \<Rightarrow> nat \<Rightarrow> nat \<Rightarrow> 'a Span res" where
  "static_SubSpan S s offset count =
     rbind (assert_that ((offset + count) mod 2 ^ 64 \<le> S)) (\<lambda>_.
       Inr \<lparr>sp_array = ss_array s, sp_data = ss_data s + offset, sp_size = count\<rparr>)"

section \<open>What spans refer to\<close>

text \<open>A span that lies in its array.\<close>

definition span_ok :: "'a Span \<Rightarrow> bool" where
  "span_ok s \<longleftrightarrow> sp_data s + sp_size s \<le> length (sp_array s) \<and> length (sp_array s) < 2 ^ 64"

definition span_list :: "'a Span \<Rightarrow> 'a list" where
  "span_list s = take (sp_size s) (drop (sp_data s) (sp_array s))"

lemma span_items_list:
  assumes "span_ok s"
  shows "span_items s = Inr (span_list s)"
proof -
  have "rfold (\<lambda>i xs. rbind (span_at (sp_array s) i) (\<lambda>x. Inr (xs @ [x]))) [sp_data s..<sp_data s + k] [] =
      Inr (take k (drop (sp_data s) (sp_array s)))" if "k \<le> sp_size s" for k
    using that
  proof (induction k)
    case (Suc k)
    have "sp_data s + k < length (sp_array s)" using Suc.prems assms by (simp add: span_ok_def)
    then show ?case using Suc by (simp add: rfold_append span_at_def take_Suc_conv_app_nth)
  qed simp
  then show ?thesis by (simp add: span_items_def span_begin_def span_end_def span_list_def)
qed

lemma span_index_in:
  "span_ok s \<Longrightarrow> i < sp_size s \<Longrightarrow> span_index s i = Inr (span_list s ! i)"
  by (simp add: span_ok_def span_index_def assert_that_def span_at_def span_list_def)

lemma span_vector: "length v < 2 ^ 64 \<Longrightarrow> span_ok (span_of_vector v) \<and> span_list (span_of_vector v) = v"
  by (simp add: span_ok_def span_list_def span_of_vector_def)

text \<open>A span of a span; the sum is right as long as it does not wrap around.\<close>

lemma span_SubSpan_list:
  assumes "span_ok s" "offset + count < 2 ^ 64"
  shows "span_SubSpan s offset count =
    (if offset + count \<le> sp_size s
     then Inr \<lparr>sp_array = sp_array s, sp_data = sp_data s + offset, sp_size = count\<rparr> else Inl Assertion)"
    and "offset + count \<le> sp_size s \<Longrightarrow>
      span_list \<lparr>sp_array = sp_array s, sp_data = sp_data s + offset, sp_size = count\<rparr> = take count (drop offset (span_list s))"
  using assms by (simp_all add: span_SubSpan_def assert_that_def span_list_def drop_take min_def add.commute)

section \<open>Defects\<close>

text \<open>The check of the index lets the size itself through, which reads behind the range or the array.\<close>

lemma span_index_past_end:
  "span_index (span_of_vector v) (length v) = Inl Out_Of_Bounds"
  "static_index (length v) (static_span v) (length v) = Inl Out_Of_Bounds"
  "span_index (span_range [1, 2, 3] 0 2) 2 = Inr (3 :: nat)"
  by (simp_all add: span_index_def static_index_def span_of_vector_def static_span_def span_range_def assert_that_def span_at_def)

text \<open>\<open>Empty\<close> says the opposite.\<close>

lemma span_Empty_inverted: "span_Empty (span_of_vector v) \<longleftrightarrow> v \<noteq> []"
  by (simp add: span_Empty_def span_of_vector_def)

text \<open>The sum of offset and count wraps around, so a subspan may reach outside.\<close>

lemma span_SubSpan_wraps: "\<exists>s. span_SubSpan (span_of_vector [0 :: nat]) (2 ^ 64 - 1) 2 = Inr s \<and> \<not> span_ok s"
  by (simp add: span_SubSpan_def span_of_vector_def assert_that_def span_ok_def)

end
