(* ===== verification/StackAllocator.thy ===== *)
theory StackAllocator
  imports Prelude
begin

text \<open>
  \<open>src/Util/StackAllocator.h\<close> with \<open>TRACK_STACK_ALLOCATIONS\<close>: memory for temporary objects, handed out from front to back of a
  buffer of \<open>k\<close> bytes at address \<open>sa_buffer\<close>. Addresses and sizes are integers, which do not wrap around, as no buffer is near the end of
  the address space. Types are their hash codes. \<open>New\<close> and \<open>Delete\<close> call members that do not exist and have no model.
\<close>

unbundle bit_operations_syntax

section \<open>Model\<close>

record TypeAlloc =
  ta_ptr :: "int option"
  ta_type :: nat
  ta_count :: int

record StackAllocator =
  sa_buffer :: int
  sa_offset :: int
  sa_allocations :: "int list"
  sa_typed_allocations :: "TypeAlloc list"

definition sa_Clear :: "StackAllocator \<Rightarrow> StackAllocator res" where
  "sa_Clear s =
     (let s1 = s\<lparr>sa_offset := sa_buffer s\<rparr>; s2 = s1\<lparr>sa_allocations := []\<rparr>
      in rbind (assert_that (length (sa_typed_allocations s2) = 0)) (\<lambda>_. Inr s2))"

definition new_StackAllocator :: "int \<Rightarrow> StackAllocator res" where
  "new_StackAllocator buffer =
     sa_Clear \<lparr>sa_buffer = buffer, sa_offset = 0, sa_allocations = [], sa_typed_allocations = []\<rparr>"

definition delete_StackAllocator :: "StackAllocator \<Rightarrow> unit res" where
  "delete_StackAllocator s =
     rbind (assert_that (length (sa_allocations s) = 0)) (\<lambda>_.
       assert_that (length (sa_typed_allocations s) = 0))"

text \<open>A null pointer is \<open>None\<close>.\<close>

definition sa_Alloc_aligned :: "int \<Rightarrow> int \<Rightarrow> int \<Rightarrow> StackAllocator \<Rightarrow> int option \<times> StackAllocator" where
  "sa_Alloc_aligned k n align s =
     (let p = sa_offset s;
          aligned_ptr = (p + align - 1) AND NOT (align - 1);
          n' = aligned_ptr - p + n
      in if sa_offset s + n' > sa_buffer s + k then (None, s)
         else (Some aligned_ptr, s\<lparr>sa_allocations := sa_allocations s @ [aligned_ptr], sa_offset := sa_offset s + n'\<rparr>))"

definition sa_Alloc :: "int \<Rightarrow> int \<Rightarrow> StackAllocator \<Rightarrow> int option \<times> StackAllocator" where
  "sa_Alloc k n s =
     (let p = sa_offset s
      in if sa_offset s + n > sa_buffer s + k then (None, s)
         else (Some p, s\<lparr>sa_allocations := sa_allocations s @ [p], sa_offset := sa_offset s + n\<rparr>))"

definition sa_Free :: "int option \<Rightarrow> StackAllocator \<Rightarrow> StackAllocator res" where
  "sa_Free p s =
     (case p of
        None \<Rightarrow> Inl Assertion
      | Some a \<Rightarrow>
          let kept = filter (\<lambda>x. x \<noteq> a) (sa_allocations s); r = length (sa_allocations s) - length kept
          in rbind (assert_that (r = 1)) (\<lambda>_. Inr (s\<lparr>sa_allocations := kept\<rparr>)))"

text \<open>\<open>NewArray\<close> for a type of \<open>n\<close> bytes; its objects are constructed at the pointer, whether or not it is null.\<close>

definition sa_NewArray :: "int \<Rightarrow> int \<Rightarrow> int \<Rightarrow> nat \<Rightarrow> int \<Rightarrow> StackAllocator \<Rightarrow> (int option \<times> StackAllocator) res" where
  "sa_NewArray k n align type count s =
     (case sa_Alloc_aligned k (n * count) align s of (p, s1) \<Rightarrow>
        let s2 = s1\<lparr>sa_typed_allocations := sa_typed_allocations s1 @ [\<lparr>ta_ptr = p, ta_type = type, ta_count = count\<rparr>]\<rparr>
        in if p = None \<and> 0 < count then Inl Null_Pointer else Inr (p, s2))"

definition sa_DeleteArray :: "int option \<Rightarrow> nat \<Rightarrow> int \<Rightarrow> StackAllocator \<Rightarrow> StackAllocator res" where
  "sa_DeleteArray p type count s =
     rbind (assert_that (p \<noteq> None)) (\<lambda>_.
     let kept = filter (\<lambda>a. \<not> (ta_ptr a = p \<and> ta_type a = type \<and> ta_count a = count)) (sa_typed_allocations s);
         r = length (sa_typed_allocations s) - length kept
     in rbind (assert_that (r = 1)) (\<lambda>_. sa_Free p (s\<lparr>sa_typed_allocations := kept\<rparr>)))"

section \<open>Allocations stay apart and inside\<close>

lemma align_down: "x AND NOT (2 ^ j - 1) = x div 2 ^ j * (2 ^ j :: int)"
proof -
  have "x AND NOT (2 ^ j - 1) = push_bit j (drop_bit j x)"
    by (rule bit_eqI) (auto simp: bit_simps mask_eq_exp_minus_1 [symmetric])
  then show ?thesis by (simp add: push_bit_eq_mult drop_bit_eq_div)
qed

lemma align_up:
  assumes "align = (2 :: int) ^ j"
  shows "p \<le> (p + align - 1) AND NOT (align - 1)" "(p + align - 1) AND NOT (align - 1) < p + align"
    "align dvd (p + align - 1) AND NOT (align - 1)"
proof -
  have eq: "(p + align - 1) AND NOT (align - 1) = (p + align - 1) div align * align" by (simp add: assms align_down)
  have "0 < align" by (simp add: assms)
  then have "(p + align - 1) div align * align = p + align - 1 - (p + align - 1) mod align" "(p + align - 1) mod align < align"
    "0 \<le> (p + align - 1) mod align" by (simp_all add: minus_mod_eq_div_mult [symmetric])
  then show "p \<le> (p + align - 1) AND NOT (align - 1)" "(p + align - 1) AND NOT (align - 1) < p + align" unfolding eq by linarith+
  show "align dvd (p + align - 1) AND NOT (align - 1)" unfolding eq by simp
qed

datatype stack_op = Op_Alloc_aligned int int | Op_Alloc int | Op_Free "int option" | Op_NewArray int int nat int | Op_DeleteArray "int option" nat int

definition run_stack_op :: "int \<Rightarrow> stack_op \<Rightarrow> StackAllocator \<Rightarrow> (int option \<times> StackAllocator) res" where
  "run_stack_op k op s =
     (case op of
        Op_Alloc_aligned n align \<Rightarrow> Inr (sa_Alloc_aligned k n align s)
      | Op_Alloc n \<Rightarrow> Inr (sa_Alloc k n s)
      | Op_Free p \<Rightarrow> rbind (sa_Free p s) (\<lambda>s'. Inr (None, s'))
      | Op_NewArray n align type count \<Rightarrow> sa_NewArray k n align type count s
      | Op_DeleteArray p type count \<Rightarrow> rbind (sa_DeleteArray p type count s) (\<lambda>s'. Inr (None, s')))"

text \<open>The bytes that an operation asks for, and its alignment.\<close>

fun op_size :: "stack_op \<Rightarrow> int" where
  "op_size (Op_Alloc_aligned n align) = n"
| "op_size (Op_Alloc n) = n"
| "op_size (Op_NewArray n align type count) = n * count"
| "op_size _ = 0"

fun op_align :: "stack_op \<Rightarrow> int" where
  "op_align (Op_Alloc_aligned n align) = align"
| "op_align (Op_NewArray n align type count) = align"
| "op_align _ = 1"

definition op_ok :: "stack_op \<Rightarrow> bool" where
  "op_ok op \<longleftrightarrow> 0 \<le> op_size op \<and> (\<exists>j. op_align op = 2 ^ j)"

lemma run_stack_op_range:
  assumes "run_stack_op k op s = Inr (p, s')" "op_ok op" "sa_offset s \<le> sa_buffer s + k"
  shows "sa_buffer s' = sa_buffer s \<and> sa_offset s \<le> sa_offset s' \<and> sa_offset s' \<le> sa_buffer s + k \<and>
    (\<forall>a. p = Some a \<longrightarrow> sa_offset s \<le> a \<and> a + op_size op \<le> sa_offset s' \<and> op_align op dvd a)"
proof (cases op)
  case (Op_Alloc_aligned n align)
  obtain j where "align = 2 ^ j" using assms(2) Op_Alloc_aligned by (auto simp: op_ok_def)
  from align_up [OF this, of "sa_offset s"] assms show ?thesis
    by (auto simp: Op_Alloc_aligned run_stack_op_def sa_Alloc_aligned_def Let_def op_ok_def split: if_splits)
next
  case (Op_NewArray n align type count)
  obtain j where "align = 2 ^ j" using assms(2) Op_NewArray by (auto simp: op_ok_def)
  from align_up [OF this, of "sa_offset s"] assms show ?thesis
    by (auto simp: Op_NewArray run_stack_op_def sa_NewArray_def sa_Alloc_aligned_def Let_def op_ok_def split: if_splits)
next
  case (Op_Alloc n)
  then show ?thesis using assms by (auto simp: run_stack_op_def sa_Alloc_def Let_def op_ok_def split: if_splits)
next
  case (Op_Free q)
  then show ?thesis using assms
    by (auto simp: run_stack_op_def sa_Free_def Let_def rbind_eq_Inr_iff split: option.splits)
next
  case (Op_DeleteArray q type count)
  then show ?thesis using assms
    by (auto simp: run_stack_op_def sa_DeleteArray_def sa_Free_def Let_def rbind_eq_Inr_iff split: option.splits)
qed

text \<open>A run of operations with the ranges that it has handed out, in order.\<close>

inductive stack_run :: "int \<Rightarrow> StackAllocator \<Rightarrow> (int \<times> int) list \<Rightarrow> StackAllocator \<Rightarrow> bool" for k where
  none: "stack_run k s [] s"
| step: "stack_run k s ranges s1 \<Longrightarrow> op_ok op \<Longrightarrow> run_stack_op k op s1 = Inr (p, s2) \<Longrightarrow>
    stack_run k s (ranges @ (case p of None \<Rightarrow> [] | Some a \<Rightarrow> [(a, a + op_size op)])) s2"

theorem stack_ranges_apart:
  assumes "stack_run k s ranges s'" "sa_offset s = sa_buffer s" "0 \<le> k"
  shows "sorted_wrt (\<lambda>r r'. snd r \<le> fst r') ranges \<and> (\<forall>(a, b) \<in> set ranges. sa_buffer s \<le> a \<and> b \<le> sa_buffer s + k)"
proof -
  have "sorted_wrt (\<lambda>r r'. snd r \<le> fst r') ranges \<and> (\<forall>(a, b) \<in> set ranges. sa_buffer s \<le> a \<and> b \<le> sa_offset s') \<and>
    sa_buffer s' = sa_buffer s \<and> sa_buffer s \<le> sa_offset s' \<and> sa_offset s' \<le> sa_buffer s + k"
    using assms
  proof (induction rule: stack_run.induct)
    case (step s ranges s1 op p s2)
    note r = run_stack_op_range [OF step.hyps(3,2)]
    from step.IH [OF step.prems] r show ?case by (cases p) (force simp: sorted_wrt_append)+
  qed auto
  then show ?thesis by force
qed

section \<open>Defects\<close>

text \<open>An array that does not fit is constructed at a null pointer.\<close>

lemma NewArray_too_large: "k < n * count \<Longrightarrow> 0 < count \<Longrightarrow> sa_offset s = sa_buffer s \<Longrightarrow>
    sa_NewArray k n 1 type count s = Inl Null_Pointer"
  by (simp add: sa_NewArray_def sa_Alloc_aligned_def Let_def)

text \<open>Two empty allocations are one address, which then cannot be freed.\<close>

lemma empty_allocations_stick:
  assumes "0 \<le> k"
  shows "\<exists>s p. new_StackAllocator 0 = Inr s \<and> fst (sa_Alloc k 0 (snd (sa_Alloc k 0 s))) = p \<and>
    sa_Free p (snd (sa_Alloc k 0 (snd (sa_Alloc k 0 s)))) = Inl Assertion"
  using assms by (simp add: new_StackAllocator_def sa_Clear_def sa_Alloc_def sa_Free_def assert_that_def Let_def)

end
