(* ===== verification/GodotHash.thy ===== *)
theory GodotHash
  imports Prelude
begin

text \<open>
  \<open>src/Util/GodotHash.cpp\<close>: hashes of the engine's value types. The hashes of numbers and of strings are those of the standard
  library and the engine, and are parameters; a \<open>size_t\<close> has 64 bits.
\<close>

unbundle bit_operations_syntax

section \<open>Combining hashes\<close>

definition HashCombine :: "64 word \<Rightarrow> 64 word \<Rightarrow> 64 word" where
  "HashCombine seed hash =
     (let hash' = hash + (0x9e3779b9 + push_bit 6 seed + drop_bit 2 seed) in seed XOR hash')"

section \<open>The value types\<close>

datatype 'f Color = Color (c_r: 'f) (c_g: 'f) (c_b: 'f) (c_a: 'f)
datatype 'f Vector2 = Vector2 (v2_x: 'f) (v2_y: 'f)
datatype 'f Vector3 = Vector3 (v3_x: 'f) (v3_y: 'f) (v3_z: 'f)
datatype 'f Vector4 = Vector4 (v4_x: 'f) (v4_y: 'f) (v4_z: 'f) (v4_w: 'f)
datatype 'f AABB = AABB "'f Vector3" "'f Vector3"
datatype 'f Basis = Basis "'f Vector3" "'f Vector3" "'f Vector3"
datatype 'f Rect2 = Rect2 "'f Vector2" "'f Vector2"
datatype 'f Transform2D = Transform2D "'f Vector2" "'f Vector2" "'f Vector2"
datatype 'f Transform3D = Transform3D "'f Basis" "'f Vector3"
datatype 'f Plane = Plane "'f Vector3" 'f
datatype 'f Projection = Projection "'f Vector4" "'f Vector4" "'f Vector4" "'f Vector4"
datatype 'f Quaternion = Quaternion 'f 'f 'f 'f

type_synonym 'a hasher = "'a \<Rightarrow> 64 word"

fun hash_Color :: "'f hasher \<Rightarrow> 'f Color hasher" where
  "hash_Color hasher (Color r g b a) =
     (let seed = 0; seed = HashCombine seed (hasher r); seed = HashCombine seed (hasher g);
          seed = HashCombine seed (hasher b); seed = HashCombine seed (hasher a) in seed)"

fun hash_Vector2 :: "'f hasher \<Rightarrow> 'f Vector2 hasher" where
  "hash_Vector2 hasher (Vector2 x y) =
     (let seed = 0; seed = HashCombine seed (hasher x); seed = HashCombine seed (hasher y) in seed)"

fun hash_Vector3 :: "'f hasher \<Rightarrow> 'f Vector3 hasher" where
  "hash_Vector3 hasher (Vector3 x y z) =
     (let seed = 0; seed = HashCombine seed (hasher x); seed = HashCombine seed (hasher y);
          seed = HashCombine seed (hasher z) in seed)"

fun hash_Vector4 :: "'f hasher \<Rightarrow> 'f Vector4 hasher" where
  "hash_Vector4 hasher (Vector4 x y z w) =
     (let seed = 0; seed = HashCombine seed (hasher x); seed = HashCombine seed (hasher y);
          seed = HashCombine seed (hasher z); seed = HashCombine seed (hasher w) in seed)"

text \<open>The integer vectors have the same code over the hash of 32 bit integers.\<close>

definition hash_Vector2i :: "int hasher \<Rightarrow> int Vector2 hasher" where
  "hash_Vector2i hasher v =
     (let seed = 0; seed = HashCombine seed (hasher (v2_x v)); seed = HashCombine seed (hasher (v2_y v)) in seed)"

definition hash_Vector3i :: "int hasher \<Rightarrow> int Vector3 hasher" where
  "hash_Vector3i hasher v =
     (let seed = 0; seed = HashCombine seed (hasher (v3_x v)); seed = HashCombine seed (hasher (v3_y v));
          seed = HashCombine seed (hasher (v3_z v)) in seed)"

definition hash_Vector4i :: "int hasher \<Rightarrow> int Vector4 hasher" where
  "hash_Vector4i hasher v =
     (let seed = 0; seed = HashCombine seed (hasher (v4_x v)); seed = HashCombine seed (hasher (v4_y v));
          seed = HashCombine seed (hasher (v4_z v)); seed = HashCombine seed (hasher (v4_w v)) in seed)"

fun hash_AABB :: "'f hasher \<Rightarrow> 'f AABB hasher" where
  "hash_AABB hasher (AABB position extent) =
     (let seed = 0; seed = HashCombine seed (hash_Vector3 hasher position);
          seed = HashCombine seed (hash_Vector3 hasher extent) in seed)"

fun hash_Basis :: "'f hasher \<Rightarrow> 'f Basis hasher" where
  "hash_Basis hasher (Basis row0 row1 row2) =
     (let seed = 0; seed = HashCombine seed (hash_Vector3 hasher row0);
          seed = HashCombine seed (hash_Vector3 hasher row1);
          seed = HashCombine seed (hash_Vector3 hasher row2) in seed)"

fun hash_Rect2 :: "'f hasher \<Rightarrow> 'f Rect2 hasher" where
  "hash_Rect2 hasher (Rect2 position extent) =
     (let seed = 0; seed = HashCombine seed (hash_Vector2 hasher position);
          seed = HashCombine seed (hash_Vector2 hasher extent) in seed)"

fun hash_Rect2i :: "int hasher \<Rightarrow> int Rect2 hasher" where
  "hash_Rect2i hasher (Rect2 position extent) =
     (let seed = 0; seed = HashCombine seed (hash_Vector2i hasher position);
          seed = HashCombine seed (hash_Vector2i hasher extent) in seed)"

fun hash_Transform2D :: "'f hasher \<Rightarrow> 'f Transform2D hasher" where
  "hash_Transform2D hasher (Transform2D column0 column1 column2) =
     (let seed = 0; seed = HashCombine seed (hash_Vector2 hasher column0);
          seed = HashCombine seed (hash_Vector2 hasher column1);
          seed = HashCombine seed (hash_Vector2 hasher column2) in seed)"

fun hash_Transform3D :: "'f hasher \<Rightarrow> 'f Transform3D hasher" where
  "hash_Transform3D hasher (Transform3D basis origin) =
     (let seed = 0; seed = HashCombine seed (hash_Basis hasher basis);
          seed = HashCombine seed (hash_Vector3 hasher origin) in seed)"

fun hash_Plane :: "'f hasher \<Rightarrow> 'f Plane hasher" where
  "hash_Plane hasher (Plane normal d) =
     (let seed = 0; seed = HashCombine seed (hash_Vector3 hasher normal);
          seed = HashCombine seed (hasher d) in seed)"

fun hash_Projection :: "'f hasher \<Rightarrow> 'f Projection hasher" where
  "hash_Projection hasher (Projection column0 column1 column2 column3) =
     (let seed = 0; seed = HashCombine seed (hash_Vector4 hasher column0);
          seed = HashCombine seed (hash_Vector4 hasher column1);
          seed = HashCombine seed (hash_Vector4 hasher column2);
          seed = HashCombine seed (hash_Vector4 hasher column3) in seed)"

fun hash_Quaternion :: "'f hasher \<Rightarrow> 'f Quaternion hasher" where
  "hash_Quaternion hasher (Quaternion x y z w) =
     (let seed = 0; seed = HashCombine seed (hasher x); seed = HashCombine seed (hasher y);
          seed = HashCombine seed (hasher z); seed = HashCombine seed (hasher w) in seed)"

section \<open>What the hashes tell apart\<close>

text \<open>For every seed the combination is a permutation of the hashes, so the last field is never lost.\<close>

lemma HashCombine_inject [simp]: "HashCombine seed h = HashCombine seed h' \<longleftrightarrow> h = h'"
proof
  assume "HashCombine seed h = HashCombine seed h'"
  then have "seed XOR (seed XOR (h + (0x9e3779b9 + push_bit 6 seed + drop_bit 2 seed))) =
    seed XOR (seed XOR (h' + (0x9e3779b9 + push_bit 6 seed + drop_bit 2 seed)))"
    by (simp add: HashCombine_def Let_def)
  then show "h = h'" by (simp add: bit.xor_left_self)
qed simp

lemma hash_Vector3_last: "hash_Vector3 hasher (Vector3 x y z) = hash_Vector3 hasher (Vector3 x y z') \<longleftrightarrow> hasher z = hasher z'"
  by (simp add: Let_def)

lemma hash_Transform3D_origin:
  "hash_Transform3D hasher (Transform3D b (Vector3 x y z)) = hash_Transform3D hasher (Transform3D b (Vector3 x y z')) \<longleftrightarrow> hasher z = hasher z'"
  by (simp add: Let_def)

text \<open>An earlier field may be lost: with the identity for integers, as the standard libraries have it, these two vectors collide.\<close>

lemma hash_Vector2i_collision: "hash_Vector2i word_of_int (Vector2 0 (-239)) = hash_Vector2i word_of_int (Vector2 1 (-300))"
  by code_simp

end
