(* ===== verification/SimulationConfig.thy ===== *)
theory SimulationConfig
  imports Prelude "HOL-Library.AList"
begin

text \<open>
  \<open>src/Simulation/Config.cpp\<close>: the configuration of a simulation, kept in a JSON file. The engine's JSON reader and writer are
  parameters; \<open>parse\<close> gives an empty dictionary for a text that holds no dictionary. A file that cannot be opened is not in \<open>files\<close> or
  not in \<open>writable\<close>. Dictionaries are association lists in the order of insertion.
\<close>

section \<open>Model\<close>

type_synonym 'v dict = "(string \<times> 'v) list"

record 'v Config =
  cfg_path :: string
  cfg_values :: "'v dict"

record FileSystem =
  fs_files :: "string \<Rightarrow> string option"
  fs_writable :: "string \<Rightarrow> bool"

definition LoadJsonConfig :: "(string \<Rightarrow> 'v dict) \<Rightarrow> FileSystem \<Rightarrow> 'v Config \<Rightarrow> 'v Config" where
  "LoadJsonConfig parse fs config =
     (if cfg_path config = [] then config
      else case fs_files fs (cfg_path config) of
             None \<Rightarrow> config
           | Some text \<Rightarrow> config\<lparr>cfg_values := parse text\<rparr>)"

definition SaveJsonConfig :: "('v dict \<Rightarrow> string) \<Rightarrow> 'v Config \<Rightarrow> FileSystem \<Rightarrow> FileSystem" where
  "SaveJsonConfig stringify config fs =
     (if cfg_path config = [] then fs
      else if fs_writable fs (cfg_path config)
      then fs\<lparr>fs_files := (fs_files fs)(cfg_path config \<mapsto> stringify (cfg_values config))\<rparr>
      else fs)"

definition add_default :: "string \<times> 'v \<Rightarrow> 'v Config \<Rightarrow> 'v Config" where
  "add_default d config =
     (case d of (key, value) \<Rightarrow>
        if map_of (cfg_values config) key = None
        then config\<lparr>cfg_values := AList.update key value (cfg_values config)\<rparr> else config)"

text \<open>\<open>defaults\<close> is a hash map: its pairs have different keys and come in some order.\<close>

definition InitializeConfig ::
    "(string \<Rightarrow> 'v dict) \<Rightarrow> ('v dict \<Rightarrow> string) \<Rightarrow> string \<Rightarrow> (string \<times> 'v) list \<Rightarrow> 'v Config \<times> FileSystem \<Rightarrow> 'v Config \<times> FileSystem" where
  "InitializeConfig parse stringify path defaults cf =
     (let config = (fst cf)\<lparr>cfg_path := path\<rparr>;
          config = LoadJsonConfig parse (snd cf) config;
          config = fold add_default defaults config
      in (config, SaveJsonConfig stringify config (snd cf)))"

section \<open>Values of the file come before defaults\<close>

lemma add_defaults:
  "map_of (cfg_values (fold add_default defaults config)) key =
     (case map_of (cfg_values config) key of Some v \<Rightarrow> Some v | None \<Rightarrow> map_of defaults key)"
proof (induction defaults arbitrary: config)
  case (Cons d defaults)
  obtain k v where d: "d = (k, v)" by (cases d)
  show ?case
    using Cons.IH [of "add_default d config"]
    by (auto simp: d add_default_def update_conv' split: option.splits)
qed (simp split: option.split)

lemma add_defaults_path: "cfg_path (fold add_default defaults config) = cfg_path config"
  by (induction defaults arbitrary: config) (auto simp: add_default_def split: prod.splits)

text \<open>
  A new configuration has the values of the file, and for every other key of the defaults its default. If the writer's text reads back
  as the same dictionary, starting again from the file that was saved changes nothing.
\<close>

lemma InitializeConfig_values:
  assumes "path \<noteq> []" "fst (InitializeConfig parse stringify path defaults (\<lparr>cfg_path = [], cfg_values = []\<rparr>, fs)) = c"
  shows "map_of (cfg_values c) key =
    (case (case fs_files fs path of None \<Rightarrow> None | Some text \<Rightarrow> map_of (parse text) key) of
       Some v \<Rightarrow> Some v | None \<Rightarrow> map_of defaults key)"
  using assms by (auto simp: InitializeConfig_def Let_def LoadJsonConfig_def add_defaults split: option.splits)

lemma InitializeConfig_again:
  assumes "path \<noteq> []" "fs_writable fs path" "\<And>d. parse (stringify d) = d"
    and c: "InitializeConfig parse stringify path defaults (\<lparr>cfg_path = [], cfg_values = []\<rparr>, fs) = (c, fs')"
  shows "InitializeConfig parse stringify path defaults (\<lparr>cfg_path = [], cfg_values = []\<rparr>, fs') = (c, fs')"
proof -
  let ?c0 = "LoadJsonConfig parse fs \<lparr>cfg_path = path, cfg_values = []\<rparr>"
  have path: "cfg_path ?c0 = path" by (simp add: LoadJsonConfig_def split: option.split)
  have c': "c = fold add_default defaults ?c0" "fs' = SaveJsonConfig stringify c fs"
    using c by (auto simp: InitializeConfig_def Let_def)
  have cp: "cfg_path c = path" by (simp add: c'(1) add_defaults_path path)
  have saved: "fs_files fs' path = Some (stringify (cfg_values c))" "fs_writable fs' = fs_writable fs"
    using assms(1,2) by (simp_all add: c'(2) SaveJsonConfig_def cp)
  have load: "LoadJsonConfig parse fs' \<lparr>cfg_path = path, cfg_values = []\<rparr> = c"
    using assms(1,3) cp by (simp add: LoadJsonConfig_def saved(1))
  have known: "map_of (cfg_values c) k \<noteq> None" if "(k, v) \<in> set defaults" for k v
    using weak_map_of_SomeI [OF that] by (auto simp: c'(1) add_defaults split: option.splits)
  have same: "fold add_default ds c = c" if "set ds \<subseteq> set defaults" for ds
    using that by (induction ds) (auto simp: add_default_def dest: known)
  have "SaveJsonConfig stringify c fs' = fs'"
    using assms(1,2) cp by (auto simp: SaveJsonConfig_def c'(2))
  then show ?thesis by (simp add: InitializeConfig_def Let_def load same [OF subset_refl])
qed

end
