(* ===== verification/VoxelLookup.thy ===== *)
theory VoxelLookup
  imports SpatialWorld
begin

text \<open>
  \<open>src/Voxel/VoxelModule.cpp\<close>: reading a voxel through the nodes of a spatial world. \<open>voxels\<close> gives the voxel array of a node's extra
  data; an index outside of it is undefined. Division and remainder of coordinates round towards zero.
\<close>

section \<open>Model\<close>

record Voxel =
  vx_type :: "16 word"
  vx_data :: "16 word"

definition new_Voxel :: Voxel where
  "new_Voxel = \<lparr>vx_type = 0, vx_data = 0\<rparr>"

definition div_toward_zero :: "int \<Rightarrow> int \<Rightarrow> int" where
  "div_toward_zero a b = sgn a * sgn b * (\<bar>a\<bar> div \<bar>b\<bar>)"

definition vec_div :: "vec3i \<Rightarrow> int \<Rightarrow> vec3i" where
  "vec_div pos k = Vec3i (div_toward_zero (vx pos) k) (div_toward_zero (vy pos) k) (div_toward_zero (vz pos) k)"

definition rem_toward_zero :: "int \<Rightarrow> int \<Rightarrow> int" where
  "rem_toward_zero a b = a - div_toward_zero a b * b"

text \<open>\<open>(node->*&Node::voxels)[pos.x % 16][pos.y % 16][pos.z % 16]\<close> for a pointer that may be null.\<close>

definition node_voxel ::
    "('d \<Rightarrow> nat \<Rightarrow> nat \<Rightarrow> nat \<Rightarrow> Voxel) \<Rightarrow> ('d, 'db) World \<Rightarrow> ptr option \<Rightarrow> vec3i \<Rightarrow> Voxel res" where
  "node_voxel voxels w node pos =
     (case node of
        None \<Rightarrow> Inl Null_Pointer
      | Some p \<Rightarrow> rbind (deref w p) (\<lambda>n.
          let x = rem_toward_zero (vx pos) 16; y = rem_toward_zero (vy pos) 16; z = rem_toward_zero (vz pos) 16
          in if 0 \<le> x \<and> 0 \<le> y \<and> 0 \<le> z then Inr (voxels (n_data n) (nat x) (nat y) (nat z)) else Inl Out_Of_Bounds))"

definition GetVoxelAtScale ::
    "('d \<Rightarrow> nat \<Rightarrow> nat \<Rightarrow> nat \<Rightarrow> Voxel) \<Rightarrow> ('d, 'db) World \<Rightarrow> vec3i \<Rightarrow> nat \<Rightarrow> Voxel res" where
  "GetVoxelAtScale voxels w pos s =
     rbind (GetNode w (vec_div pos 16) s) (\<lambda>node.
       if node \<noteq> None then Inr new_Voxel else node_voxel voxels w node pos)"

text \<open>The scale is unsigned; once it is past the last one, \<open>GetNode\<close> fails.\<close>

function GetVoxelDepthFirst ::
    "('d \<Rightarrow> nat \<Rightarrow> nat \<Rightarrow> nat \<Rightarrow> Voxel) \<Rightarrow> ('d, 'db) World \<Rightarrow> vec3i \<Rightarrow> nat \<Rightarrow> Voxel res" where
  "GetVoxelDepthFirst voxels w pos start_scale =
     (if start_scale = k_max_world_scale then Inr new_Voxel
      else if start_scale > k_max_world_scale then rbind (GetNode w (vec_div pos 16) start_scale) (\<lambda>_. Inr new_Voxel)
      else rbind (GetNode w (vec_div pos 16) start_scale) (\<lambda>node.
        if node \<noteq> None then GetVoxelDepthFirst voxels w pos (start_scale + 1) else node_voxel voxels w node pos))"
  by pat_completeness auto
termination by (relation "measure (\<lambda>(voxels, w, pos, s). k_max_world_scale - s)") (auto simp: k_max_world_scale_def)

declare GetVoxelDepthFirst.simps [simp del]

definition GetVoxelBreadthFirst ::
    "('d \<Rightarrow> nat \<Rightarrow> nat \<Rightarrow> nat \<Rightarrow> Voxel) \<Rightarrow> ('d, 'db) World \<Rightarrow> vec3i \<Rightarrow> nat \<Rightarrow> Voxel res" where
  "GetVoxelBreadthFirst voxels w pos start_scale =
     (if start_scale = 0 then Inr new_Voxel
      else rbind (GetNode w (vec_div pos 16) start_scale) (\<lambda>node.
        if node \<noteq> None then GetVoxelDepthFirst voxels w pos (start_scale - 1) else node_voxel voxels w node pos))"

definition octree_search_step :: "('d, 'db) World \<Rightarrow> ptr option \<Rightarrow> vec3i \<Rightarrow> ptr option res" where
  "octree_search_step w node node_pos =
     (case node of
        None \<Rightarrow> Inl Null_Pointer
      | Some p \<Rightarrow> rbind (deref w p) (\<lambda>n.
          Inr (n_children n (nat (and (vx node_pos) 1 * 4 + and (vy node_pos) 1 * 2 + and (vz node_pos) 1)))))"

text \<open>The loop of \<open>GetVoxelOctreeSearch\<close> and the node with which it ends: it goes on only with a null pointer.\<close>

function octree_search_loop :: "('d, 'db) World \<Rightarrow> ptr option \<Rightarrow> vec3i \<Rightarrow> ptr option res" where
  "octree_search_loop w node node_pos =
     rbind (octree_search_step w node node_pos) (\<lambda>child_node.
       if child_node \<noteq> None then Inr node else octree_search_loop w child_node (vec_shr node_pos 2))"
  by pat_completeness auto
termination
  by (relation "measure (\<lambda>(w, node, node_pos). if node = None then 0 else 1)") (auto simp: octree_search_step_def split: option.splits)

declare octree_search_loop.simps [simp del]

definition GetVoxelOctreeSearch ::
    "('d \<Rightarrow> nat \<Rightarrow> nat \<Rightarrow> nat \<Rightarrow> Voxel) \<Rightarrow> ('d, 'db) World \<Rightarrow> vec3i \<Rightarrow> nat \<Rightarrow> Voxel res" where
  "GetVoxelOctreeSearch voxels w pos start_scale =
     rbind (GetNode w (vec_div pos 16) start_scale) (\<lambda>node.
       if node \<noteq> None then Inr new_Voxel
       else rbind (octree_search_loop w node (vec_div pos 16)) (\<lambda>node. node_voxel voxels w node pos))"

section \<open>Defects\<close>

text \<open>
  All four tests for the node are the wrong way around: where there is a node the voxel found is the default one, and where there
  is none a null pointer is used. None of the functions ever returns a voxel that is stored.
\<close>

lemma node_voxel_null [simp]: "node_voxel voxels w None pos = Inl Null_Pointer"
  by (simp add: node_voxel_def)

lemma GetVoxelAtScale_never_reads:
  "GetVoxelAtScale voxels w pos s = Inr v \<Longrightarrow> v = new_Voxel"
  "GetNode w (vec_div pos 16) s = Inr None \<Longrightarrow> GetVoxelAtScale voxels w pos s = Inl Null_Pointer"
  by (auto simp: GetVoxelAtScale_def rbind_eq_Inr_iff node_voxel_null split: if_splits)

lemma GetVoxelDepthFirst_never_reads: "GetVoxelDepthFirst voxels w pos s = Inr v \<Longrightarrow> v = new_Voxel"
proof (induction voxels w pos s rule: GetVoxelDepthFirst.induct)
  case (1 voxels w pos s)
  show ?case
  proof (cases "s < k_max_world_scale")
    case True
    then obtain node where node: "GetNode w (vec_div pos 16) s = Inr node"
      "(if node \<noteq> None then GetVoxelDepthFirst voxels w pos (s + 1) else node_voxel voxels w node pos) = Inr v"
      using "1.prems" by (subst (asm) GetVoxelDepthFirst.simps) (auto simp: rbind_eq_Inr_iff)
    then show ?thesis using "1.IH" [OF _ _ node(1)] True by (cases node) auto
  next
    case False
    then show ?thesis using "1.prems" by (subst (asm) GetVoxelDepthFirst.simps) (auto simp: rbind_eq_Inr_iff split: if_splits)
  qed
qed

lemma GetVoxelBreadthFirst_never_reads: "GetVoxelBreadthFirst voxels w pos s = Inr v \<Longrightarrow> v = new_Voxel"
  by (auto simp: GetVoxelBreadthFirst_def rbind_eq_Inr_iff node_voxel_null split: if_splits dest: GetVoxelDepthFirst_never_reads)

lemma GetVoxelOctreeSearch_never_reads:
  "GetNode w (vec_div pos 16) s = Inr None \<Longrightarrow> GetVoxelOctreeSearch voxels w pos s = Inl Null_Pointer"
  "GetVoxelOctreeSearch voxels w pos s = Inr v \<Longrightarrow> v = new_Voxel"
  by (auto simp: GetVoxelOctreeSearch_def octree_search_loop.simps [of w None] octree_search_step_def rbind_eq_Inr_iff split: if_splits)

text \<open>Left of the origin the remainder is negative, and two nodes share a coordinate.\<close>

lemma voxel_coordinates_wrong:
  "vec_div (Vec3i (-1) 0 0) 16 = vec_div (Vec3i 1 0 0) 16" "rem_toward_zero (-1) 16 = -1"
  by (simp_all add: vec_div_def div_toward_zero_def rem_toward_zero_def)

end
