(* ===== verification/UniverseNodes.thy ===== *)
theory UniverseNodes
  imports UniverseSimulation PolyType
begin

text \<open>
  The node callbacks of \<open>src/Universe/UniverseModule.cpp\<close>: how a node of a universe is saved, restored and generated with the galaxies
  that it holds. An entity's number is its UUID, of 16 bytes; a type id is a bit set of 8 bytes, with a bit for each component
  (\<open>src/Entity/EntityPoly.cpp\<close>) and one for the header.
\<close>

section \<open>Model\<close>

definition all_kinds :: "ComponentKind list" where
  "all_kinds = [CName, CUniverse, CGalaxy, CRelationship, CWorld, CScenario, CTransform, CPosition, CRotation, CEntity, CLoader]"

fun k_type_index :: "ComponentKind \<Rightarrow> nat" where
  "k_type_index CName = 1"
| "k_type_index CRelationship = 2"
| "k_type_index CTransform = 3"
| "k_type_index CScenario = 4"
| "k_type_index CPosition = 8"
| "k_type_index CRotation = 10"
| "k_type_index CLoader = 22"
| "k_type_index CEntity = 24"
| "k_type_index CWorld = 25"
| "k_type_index CUniverse = 26"
| "k_type_index CGalaxy = 27"

text \<open>The type id of a poly has the header's bit; the component types that a type id names.\<close>

definition GetTypeID :: "SimEntity \<Rightarrow> nat" where
  "GetTypeID x = CreateTypeID (0 # map k_type_index (ent_types x))"

definition types_of_id :: "nat \<Rightarrow> ComponentKind list" where
  "types_of_id type_id = filter (\<lambda>c. bit type_id (k_type_index c)) all_kinds"

record UniverseNode =
  un_position :: vec3i
  un_scale_index :: nat
  un_entities :: "nat list"
  un_galaxies :: "nat list"

definition write_galaxy :: "('d, 'db) Simulation \<Rightarrow> nat \<Rightarrow> writer \<Rightarrow> writer res" where
  "write_galaxy s galaxy w =
     rbind (entity_of s galaxy) (\<lambda>x. Inr (write_object 8 (GetTypeID x) (write_object 16 galaxy w)))"

definition SerializeUniverseNode :: "('d, 'db) Simulation \<Rightarrow> UniverseNode \<Rightarrow> writer \<Rightarrow> writer res" where
  "SerializeUniverseNode s node w =
     (let version = 0;
          w1 = write_object 8 version w;
          w2 = write_object 1 (un_scale_index node) w1;
          w3 = write_object 8 (length (un_galaxies node)) w2
      in rfold (write_galaxy s) (un_galaxies node) w3)"

definition read_galaxy ::
    "nat \<Rightarrow> UniverseNode \<times> ('d, 'db) Simulation \<times> reader \<Rightarrow> (UniverseNode \<times> ('d, 'db) Simulation \<times> reader) res" where
  "read_galaxy i nsr =
     (case nsr of (node, s, r) \<Rightarrow>
        rbind (read_object 16 r) (\<lambda>(uuid, r1).
        rbind (read_object 8 r1) (\<lambda>(types, r2).
        rbind (SimulationCreateEntity uuid (types_of_id types) s) (\<lambda>s'.
          let node1 = node\<lparr>un_entities := un_entities node @ [uuid]\<rparr>
          in Inr (node1\<lparr>un_galaxies := un_galaxies node1 @ [uuid]\<rparr>, s', r2)))))"

definition DeserializeUniverseNode ::
    "UniverseNode \<Rightarrow> ('d, 'db) Simulation \<Rightarrow> reader \<Rightarrow> (UniverseNode \<times> ('d, 'db) Simulation \<times> reader) res" where
  "DeserializeUniverseNode node s r =
     rbind (read_object 8 r) (\<lambda>(version, r1).
     rbind (read_object 1 r1) (\<lambda>(scale_index, r2).
     rbind (read_object 8 r2) (\<lambda>(galaxy_count, r3).
       rfold read_galaxy [0..<galaxy_count] (node\<lparr>un_scale_index := scale_index\<rparr>, s, r3))))"

text \<open>
  \<open>uuids\<close> are what \<open>GenerateUUID\<close> gives; the result lists the positions of the new entities. Products of 32 bits wrap around.
\<close>

definition GenerateUniverseNode ::
    "nat list \<Rightarrow> nat \<Rightarrow> UniverseNode \<Rightarrow> ('d, 'db) Simulation \<Rightarrow> (UniverseNode \<times> ('d, 'db) Simulation \<times> (nat \<times> vec3i) list) res" where
  "GenerateUniverseNode uuids node_size node s =
     (if vy (un_position node) \<noteq> 0 then Inr (node, s, [])
      else
        let scale_node_step = wrap32 (2 ^ un_scale_index node * int node_size);
            p = un_position node;
            x = wrap32 (vx p * scale_node_step);
            y = wrap32 (vy p * scale_node_step);
            z = wrap32 (vz p * scale_node_step);
            position = Vec3i x (y - (int (un_scale_index node) - 1)) z
        in rfold (\<lambda>uuid (node, s, positions).
             rbind (SimulationCreateEntity uuid k_galaxy_type s) (\<lambda>s'.
               let node1 = node\<lparr>un_entities := un_entities node @ [uuid]\<rparr>
               in Inr (node1\<lparr>un_galaxies := un_galaxies node1 @ [uuid]\<rparr>, s', positions @ [(uuid, position)])))
             (take 4 uuids) (node, s, []))"

section \<open>Type ids\<close>

lemma k_type_index_inj: "k_type_index a = k_type_index b \<longleftrightarrow> a = b"
  by (cases a; cases b) simp_all

lemma k_type_index_range: "0 < k_type_index a \<and> k_type_index a < 40"
  by (cases a) simp_all

lemma all_kinds_complete: "c \<in> set all_kinds"
  by (cases c) (simp_all add: all_kinds_def)

lemma types_of_GetTypeID: "set (types_of_id (GetTypeID x)) = set (ent_types x)"
proof -
  have [simp]: "(k_type_index c = 0) = False" "(0 = k_type_index c) = False" for c by (cases c; simp)+
  show ?thesis using all_kinds_complete by (auto simp: types_of_id_def GetTypeID_def bit_CreateTypeID k_type_index_inj)
qed

lemma GetTypeID_bound: "GetTypeID x < 256 ^ 8"
proof -
  have "\<not> bit (GetTypeID x) i" if "40 \<le> i" for i
    using that k_type_index_range by (auto simp: GetTypeID_def bit_CreateTypeID) (meson not_less)+
  then have "take_bit 40 (GetTypeID x) = GetTypeID x"
    by (intro bit_eqI) (auto simp: bit_take_bit_iff, meson not_less)
  then have "GetTypeID x < 2 ^ 40" using take_bit_nat_less_exp [of 40 "GetTypeID x"] by simp
  then show ?thesis by simp
qed

section \<open>What is written is read back\<close>

definition galaxy_bytes :: "('d, 'db) Simulation \<Rightarrow> nat \<Rightarrow> byte list" where
  "galaxy_bytes s g = to_data 16 g @ to_data 8 (case map_of (si_factory s) g of None \<Rightarrow> 0 | Some x \<Rightarrow> GetTypeID x)"

lemma write_galaxies:
  "rfold (write_galaxy s) gs w = Inr w' \<Longrightarrow>
    (\<forall>g \<in> set gs. map_of (si_factory s) g \<noteq> None) \<and> wr_buffer w' = wr_buffer w @ concat (map (galaxy_bytes s) gs)"
proof (induction gs arbitrary: w)
  case (Cons g gs)
  then obtain v where v: "write_galaxy s g w = Inr v" "rfold (write_galaxy s) gs v = Inr w'" by (auto simp: rbind_eq_Inr_iff)
  have "map_of (si_factory s) g \<noteq> None \<and> wr_buffer v = wr_buffer w @ galaxy_bytes s g"
    using v(1) by (auto simp: write_galaxy_def entity_of_def rbind_eq_Inr_iff write_object_def galaxy_bytes_def split: option.splits)
  then show ?case using Cons.IH [OF v(2)] by simp
qed simp

lemma create_entity:
  assumes "GetContext s = Inr c"
  shows "\<exists>s1. SimulationCreateEntity g ts s = Inr s1 \<and> GetContext s1 = Inr c \<and>
    tc_load_commands (si_contexts s1 ! c) = tc_load_commands (si_contexts s ! c) @ [g] \<and>
    (\<forall>e. map_of (si_factory s1) e = (if e = g \<and> map_of (si_factory s) g = None
       then Some \<lparr>ent_types = ts, ent_world_type = Universe, ent_world = None, ent_parent_world = None\<rparr>
       else map_of (si_factory s) e))"
  using assms
  by (auto simp: SimulationCreateEntity_def push_load_def GetContext_def put_entity_def update_conv' Let_def
      split: option.splits if_splits)

text \<open>The entity that a galaxy becomes: the one it already is, or a new one of the given types.\<close>

definition restored :: "('d, 'db) Simulation \<Rightarrow> ('d, 'db) Simulation \<Rightarrow> nat \<Rightarrow> ComponentKind set \<Rightarrow> bool" where
  "restored s s' g ts \<longleftrightarrow> (case map_of (si_factory s) g of
     Some x \<Rightarrow> map_of (si_factory s') g = Some x
   | None \<Rightarrow> \<exists>y. map_of (si_factory s') g = Some y \<and> set (ent_types y) = ts)"

lemma read_galaxies:
  assumes "\<forall>g \<in> set gs. g < 256 ^ 16 \<and> map_of (si_factory t) g \<noteq> None" "GetContext s = Inr c"
    and "rd_buffer r = xs @ concat (map (galaxy_bytes t) gs)" "rd_pos r = length xs"
  shows "\<exists>s' r'. rfold read_galaxy [k..<k + length gs] (n, s, r) =
      Inr (n\<lparr>un_entities := un_entities n @ gs, un_galaxies := un_galaxies n @ gs\<rparr>, s', r') \<and>
    tc_load_commands (si_contexts s' ! c) = tc_load_commands (si_contexts s ! c) @ gs \<and>
    (\<forall>e. e \<notin> set gs \<longrightarrow> map_of (si_factory s') e = map_of (si_factory s) e) \<and>
    (\<forall>g \<in> set gs. \<forall>x. map_of (si_factory t) g = Some x \<longrightarrow> restored s s' g (set (ent_types x)))"
  using assms
proof (induction gs arbitrary: k n s r xs)
  case Nil
  then show ?case by simp
next
  case (Cons g gs)
  obtain x where x: "map_of (si_factory t) g = Some x" using Cons.prems(1) by auto
  let ?r1 = "r\<lparr>rd_pos := length xs + 16\<rparr>" and ?r2 = "r\<lparr>rd_pos := length xs + 24\<rparr>"
  have buf: "rd_buffer r = xs @ to_data 16 g @ to_data 8 (GetTypeID x) @ concat (map (galaxy_bytes t) gs)"
    using Cons.prems(3) x by (simp add: galaxy_bytes_def [of t g])
  have r1: "read_object 16 r = Inr (g, ?r1)"
    by (rule read_object_prefix [OF buf Cons.prems(4)]) (use Cons.prems(1) in simp)
  have "read_object 8 ?r1 = Inr (GetTypeID x, ?r1\<lparr>rd_pos := length (xs @ to_data 16 g) + 8\<rparr>)"
    by (rule read_object_prefix) (use buf GetTypeID_bound in simp_all)
  then have r2: "read_object 8 ?r1 = Inr (GetTypeID x, ?r2)" by simp
  obtain s1 where s1: "SimulationCreateEntity g (types_of_id (GetTypeID x)) s = Inr s1" "GetContext s1 = Inr c"
    "tc_load_commands (si_contexts s1 ! c) = tc_load_commands (si_contexts s ! c) @ [g]"
    "\<And>e. map_of (si_factory s1) e = (if e = g \<and> map_of (si_factory s) g = None
       then Some \<lparr>ent_types = types_of_id (GetTypeID x), ent_world_type = Universe, ent_world = None, ent_parent_world = None\<rparr>
       else map_of (si_factory s) e)"
    using create_entity [OF Cons.prems(2), of g "types_of_id (GetTypeID x)"] by blast
  let ?n = "n\<lparr>un_entities := un_entities n @ [g], un_galaxies := un_galaxies n @ [g]\<rparr>"
  have first: "read_galaxy k (n, s, r) = Inr (?n, s1, ?r2)"
    by (simp add: read_galaxy_def r1 r2 s1(1) Let_def)
  have "rd_buffer ?r2 = (xs @ galaxy_bytes t g) @ concat (map (galaxy_bytes t) gs)" "rd_pos ?r2 = length (xs @ galaxy_bytes t g)"
    using buf x by (simp_all add: galaxy_bytes_def)
  from Cons.IH [OF _ s1(2) this, of "Suc k" ?n] Cons.prems(1) obtain s' r' where
    rest: "rfold read_galaxy [Suc k..<Suc k + length gs] (?n, s1, ?r2) =
      Inr (?n\<lparr>un_entities := un_entities ?n @ gs, un_galaxies := un_galaxies ?n @ gs\<rparr>, s', r')"
    "tc_load_commands (si_contexts s' ! c) = tc_load_commands (si_contexts s1 ! c) @ gs"
    "\<And>e. e \<notin> set gs \<Longrightarrow> map_of (si_factory s') e = map_of (si_factory s1) e"
    "\<And>h y. h \<in> set gs \<Longrightarrow> map_of (si_factory t) h = Some y \<Longrightarrow> restored s1 s' h (set (ent_types y))"
    by (simp only: list.set ball_simps) blast
  have own: "restored s s' h (set (ent_types y))" if "h \<in> set (g # gs)" "map_of (si_factory t) h = Some y" for h y
  proof (cases "h \<in> set gs")
    case True
    note r = rest(4) [OF True that(2)]
    show ?thesis
    proof (cases "map_of (si_factory s) h")
      case (Some z)
      then have "map_of (si_factory s1) h = Some z" using s1(4) [of h] by (cases "h = g") simp_all
      then show ?thesis using r Some by (simp add: restored_def)
    next
      case None
      show ?thesis
      proof (cases "h = g")
        case True
        then have "y = x" "map_of (si_factory s1) h \<noteq> None" using x that(2) s1(4) [of h] None by simp_all
        then show ?thesis using r s1(4) [of h] None True types_of_GetTypeID [of x] by (simp add: restored_def)
      next
        case False
        then show ?thesis using r s1(4) [of h] None by (simp add: restored_def)
      qed
    qed
  next
    case False
    then have "h = g" using that(1) by simp
    then show ?thesis using rest(3) [OF False] s1(4) [of g] x that(2) types_of_GetTypeID [of x]
      by (auto simp: restored_def split: option.splits)
  qed
  have "[k..<k + length (g # gs)] = k # [Suc k..<Suc k + length gs]" using upt_conv_Cons [of k "k + length (g # gs)"] by (simp del: upt_Suc)
  then have "rfold read_galaxy [k..<k + length (g # gs)] (n, s, r) =
      Inr (n\<lparr>un_entities := un_entities n @ g # gs, un_galaxies := un_galaxies n @ g # gs\<rparr>, s', r')"
    using first rest(1) by simp
  moreover have "map_of (si_factory s') e = map_of (si_factory s) e" if "e \<notin> set (g # gs)" for e
    using that rest(3) [of e] s1(4) [of e] by simp
  ultimately show ?case using own rest(2) s1(3) by (intro exI [of _ s'] exI [of _ r']) auto
qed

text \<open>
  C26: a node of a universe is restored from what was written of it. Reading the bytes into a fresh node gives it the same scale and
  the same galaxies in the same order, and loads each of them once; a galaxy that the simulation still has stays as it is, one
  that it does not have is created with the component types that it had.
\<close>

theorem universe_nodes_round_trip:
  assumes "SerializeUniverseNode t node (new_writer []) = Inr w" "un_scale_index node < 256"
    "length (un_galaxies node) < 2 ^ 64" "\<forall>g \<in> set (un_galaxies node). g < 2 ^ 128"
    and "GetContext s = Inr c" "un_entities fresh = []" "un_galaxies fresh = []"
  shows "\<exists>s' r. DeserializeUniverseNode fresh s (new_reader (wr_buffer w)) =
      Inr (fresh\<lparr>un_scale_index := un_scale_index node, un_entities := un_galaxies node, un_galaxies := un_galaxies node\<rparr>, s', r) \<and>
    tc_load_commands (si_contexts s' ! c) = tc_load_commands (si_contexts s ! c) @ un_galaxies node \<and>
    (\<forall>g \<in> set (un_galaxies node). \<exists>x y. map_of (si_factory t) g = Some x \<and> map_of (si_factory s') g = Some y \<and>
      (case map_of (si_factory s) g of Some z \<Rightarrow> y = z | None \<Rightarrow> set (ent_types y) = set (ent_types x)))"
proof -
  let ?gs = "un_galaxies node" and ?h = "to_data 8 0 @ to_data 1 (un_scale_index node) @ to_data 8 (length (un_galaxies node))"
  let ?w3 = "write_object 8 (length ?gs) (write_object 1 (un_scale_index node) (write_object 8 0 (new_writer [])))"
  have "rfold (write_galaxy t) ?gs ?w3 = Inr w" using assms(1) by (simp add: SerializeUniverseNode_def Let_def)
  from write_galaxies [OF this] have known: "\<forall>g \<in> set ?gs. map_of (si_factory t) g \<noteq> None"
    and buf: "wr_buffer w = ?h @ concat (map (galaxy_bytes t) ?gs)" by (simp_all add: write_object_def new_writer_def)
  let ?r = "\<lambda>k. \<lparr>rd_buffer = wr_buffer w, rd_pos = k\<rparr>"
  have "read_object 8 (?r 0) = Inr (0, (?r 0)\<lparr>rd_pos := length ([] :: byte list) + 8\<rparr>)"
    by (rule read_object_prefix) (simp_all add: buf)
  moreover have "read_object 1 (?r 8) = Inr (un_scale_index node, (?r 8)\<lparr>rd_pos := length (to_data 8 0) + 1\<rparr>)"
    by (rule read_object_prefix) (use assms(2) in \<open>simp_all add: buf\<close>)
  moreover have "read_object 8 (?r 9) = Inr (length ?gs, (?r 9)\<lparr>rd_pos := length (to_data 8 0 @ to_data 1 (un_scale_index node)) + 8\<rparr>)"
    by (rule read_object_prefix) (use assms(3) in \<open>simp_all add: buf\<close>)
  ultimately have head: "DeserializeUniverseNode fresh s (new_reader (wr_buffer w)) =
      rfold read_galaxy [0..<length ?gs] (fresh\<lparr>un_scale_index := un_scale_index node\<rparr>, s, ?r 17)"
    by (simp add: DeserializeUniverseNode_def new_reader_def)
  have ids: "\<forall>g \<in> set ?gs. g < 256 ^ 16 \<and> map_of (si_factory t) g \<noteq> None" using known assms(4) by simp
  have "rd_buffer (?r 17) = ?h @ concat (map (galaxy_bytes t) ?gs)" "rd_pos (?r 17) = length ?h" by (simp_all add: buf)
  from read_galaxies [OF ids assms(5) this, of 0 "fresh\<lparr>un_scale_index := un_scale_index node\<rparr>"] assms(6,7) obtain s' r' where
    s': "rfold read_galaxy [0..<length ?gs] (fresh\<lparr>un_scale_index := un_scale_index node\<rparr>, s, ?r 17) =
      Inr (fresh\<lparr>un_scale_index := un_scale_index node, un_entities := ?gs, un_galaxies := ?gs\<rparr>, s', r')"
    "tc_load_commands (si_contexts s' ! c) = tc_load_commands (si_contexts s ! c) @ ?gs"
    "\<And>g x. g \<in> set ?gs \<Longrightarrow> map_of (si_factory t) g = Some x \<Longrightarrow> restored s s' g (set (ent_types x))" by auto
  have "\<exists>x y. map_of (si_factory t) g = Some x \<and> map_of (si_factory s') g = Some y \<and>
      (case map_of (si_factory s) g of Some z \<Rightarrow> y = z | None \<Rightarrow> set (ent_types y) = set (ent_types x))" if g: "g \<in> set ?gs" for g
  proof -
    obtain x where x: "map_of (si_factory t) g = Some x" using bspec [OF known g] by blast
    from s'(3) [OF g x] x show ?thesis by (auto simp: restored_def split: option.splits)
  qed
  then show ?thesis using head s'(1,2) by (intro exI [of _ s'] exI [of _ r']) simp
qed

text \<open>A universe node with a galaxy that the restoring simulation has and one that it does not have.\<close>

definition example_galaxy :: SimEntity where
  "example_galaxy = \<lparr>ent_types = k_galaxy_type, ent_world_type = Universe, ent_world = None, ent_parent_world = None\<rparr>"

definition example_universe :: "(nat \<times> SimEntity) list \<Rightarrow> (unit, unit) Simulation" where
  "example_universe entities = (SimulationInitialize 1 (new_Simulation False ()))\<lparr>si_factory := entities\<rparr>"

definition example_universe_node :: "nat list \<Rightarrow> UniverseNode" where
  "example_universe_node galaxies = \<lparr>un_position = Vec3i 0 0 0, un_scale_index = 3, un_entities = galaxies, un_galaxies = galaxies\<rparr>"

theorem universe_nodes_round_trip_witness:
  "\<exists>w s' r. SerializeUniverseNode (example_universe [(7, example_galaxy), (9, example_galaxy)]) (example_universe_node [7, 9]) (new_writer []) = Inr w \<and>
     DeserializeUniverseNode (example_universe_node []) (example_universe [(7, (example_galaxy\<lparr>ent_parent_world := Some 5\<rparr>))]) (new_reader (wr_buffer w)) =
       Inr (example_universe_node [7, 9], s', r) \<and> map_of (si_factory s') 7 = Some (example_galaxy\<lparr>ent_parent_world := Some 5\<rparr>)"
proof -
  let ?t = "example_universe [(7, example_galaxy), (9, example_galaxy)]" and ?k = "example_galaxy\<lparr>ent_parent_world := Some 5\<rparr>"
  let ?s = "example_universe [(7, ?k)]"
  obtain w where w: "SerializeUniverseNode ?t (example_universe_node [7, 9]) (new_writer []) = Inr w"
    by (simp add: SerializeUniverseNode_def example_universe_node_def write_galaxy_def entity_of_def example_universe_def Let_def)
  have c: "GetContext ?s = Inr 0"
    by (simp add: GetContext_def example_universe_def SimulationInitialize_def simulation_Initialize_def universe_Initialize_def
        galaxy_Initialize_def put_type_def Let_def)
  have f: "map_of (si_factory ?s) 7 = Some ?k" by (simp add: example_universe_def)
  obtain s' r where s': "DeserializeUniverseNode (example_universe_node []) ?s (new_reader (wr_buffer w)) =
      Inr ((example_universe_node [])\<lparr>un_scale_index := un_scale_index (example_universe_node [7, 9]),
        un_entities := un_galaxies (example_universe_node [7, 9]), un_galaxies := un_galaxies (example_universe_node [7, 9])\<rparr>, s', r)"
    "\<forall>g \<in> set (un_galaxies (example_universe_node [7, 9])). \<exists>x y. map_of (si_factory ?t) g = Some x \<and> map_of (si_factory s') g = Some y \<and>
      (case map_of (si_factory ?s) g of Some z \<Rightarrow> y = z | None \<Rightarrow> set (ent_types y) = set (ent_types x))"
    using universe_nodes_round_trip [OF w _ _ _ c, of "example_universe_node []"] by (auto simp: example_universe_node_def)
  have "map_of (si_factory s') 7 = Some ?k" using s'(2) f by (simp add: example_universe_node_def)
  then show ?thesis using w s'(1) by (auto simp: example_universe_node_def)
qed

end
