(* ===== verification/Spec2Isabelle.thy ===== *)
theory Spec2Isabelle
  imports SmallVector CircularBuffer Serialize SpatialUnload CommandWriter PolyProperties TinyOctreeIterate DirtyProps CacheProps UUID AllocatorProps SimulationProps UniverseShutdown ThreadCheck DebugVisualization
    Spans StackAllocator GodotHash SimulationConfig VoxelLookup UniverseNodes
begin

text \<open>
  Cosmic Architect: the native library under \<open>src/src\<close>, a game server and client for the Godot engine. This root theory holds the
  overview; the properties stand in the theories of their components, each after a text with its number.

  \<^bold>\<open>The program.\<close> A \<open>UniverseServer\<close> (\<open>UniverseServer/\<close>) is what scripts talk to. It is a \<open>SimulationServer\<close> (\<open>Simulation/\<close>), which runs a
  simulation on its own thread: method calls of the main thread travel to it as deferred commands, signals travel back through the
  command server (\<open>Commands/\<close>), and what the interface shows travels through a lock-free exchange (\<open>UniverseCache\<close>, \<open>SwapBuffer\<close>).
  The \<open>Simulation\<close> (\<open>UniverseSimulation.cpp\<close>) owns entities, which are polys of a \<open>PolyFactory\<close> (\<open>Util/Poly.h\<close>,
  \<open>Util/PolyFactory.h\<close>): objects whose components are chosen at run time. An entity with a world component has a spatial world
  (\<open>Spatial3D/SpatialWorld.cpp\<close>): an octree of nodes over scales, loaded around loaders, saved to a key value store, and unloaded
  when nobody needs them. Modules (\<open>SpatialModule\<close>, \<open>UniverseModule\<close>, \<open>GalaxyModule\<close>, \<open>DebugRenderModule\<close>, \<open>SimulationModule\<close>) hook
  into the loading and unloading of entities and into every update. What is drawn goes to a render thread, with rendering objects that a
  \<open>RenderAllocator\<close> keeps in stock. All of them use the containers and encodings of \<open>Util/\<close>.

  \<^bold>\<open>Conventions.\<close> The models follow the build with \<open>DEBUG_ENABLED\<close>. Failing assertions, crashes and every access that the language leaves
  undefined are values of \<open>fault\<close> in \<open>Prelude\<close>; an operation that can go wrong returns \<open>fault + 'a\<close>. Where the code mutates objects
  through pointers, the model has an explicit heap from addresses to records, and a dangling or null pointer is a fault. Integers have
  their width where it matters: as words (masks, hashes, request counters), or as numbers with the wrap-around written out (coordinates of
  nodes, offsets in polys, indices of chunks, the size of a render buffer). Sizes of containers, times and reference counts do not wrap. Containers
  of the standard library and the vendored hash maps are lists, functions or association lists; no theorem depends on the order of a hash
  map. The engine, the key value store and the rendering server are parameters with the behaviour they document as hypotheses.
  Concurrency is interleaving: a program counter for each thread and one step for each access to what threads share (\<open>SimulationServer\<close>,
  \<open>UniverseCache\<close>, \<open>RenderAllocator\<close>, \<open>ThreadCheck\<close>); locks make what they guard one step, and atomics are sequentially consistent.

  \<^bold>\<open>Theories.\<close> Each model theory has the data and the operations of its source in the order of the code; the theories that import it prove
  what they promise.

  \<^item> \<open>Prelude\<close>: faults, \<open>rbind\<close>, loops that can fail (\<open>rfold\<close>) with their invariant rules.
  \<^item> \<open>SpatialWorld\<close> models \<open>Spatial3D/SpatialWorld.h\<close>, \<open>SpatialWorld.cpp\<close> and \<open>SpatialTraverse.h\<close>. \<open>SpatialLinks\<close> shows that linking and unlinking keep the
    pointers between neighbours, parents and children right, \<open>SpatialLoading\<close> that every operation keeps \<open>world_ok\<close> (links, command
    lists, states, tasks of the worker pool) and cannot fail but for faults of the database, \<open>SpatialLife\<close> what this means for every reachable
    world, \<open>SpatialUnload\<close> that worlds drain and that nodes persist.
  \<^item> \<open>UniverseSimulation\<close> models \<open>UniverseSimulation.cpp\<close> and its modules. \<open>SpatialModuleProps\<close> shows that the lists of worlds and
    scales always agree and what \<open>Update\<close> destroys, \<open>UniverseShutdown\<close> what holds when \<open>SimulationUnload\<close> returns and how starting and stopping go wrong.
    \<open>UniverseNodes\<close> models how nodes of a universe are saved, restored and generated, and proves the round trip.
    \<open>UnorderedErase\<close> has the erasing from vectors that they use.
  \<^item> \<open>SimulationServer\<close> models \<open>Simulation/SimulationServer.cpp\<close> as two interleaved threads; \<open>SimulationProps\<close>: the simulation is only called between its load and
    its unload, commands and signals keep their order, and a stop ends the worker in at most seven of its steps.
  \<^item> \<open>VariantTypes\<close>, \<open>CommandStorage\<close>, \<open>GodotCommandBuffer\<close>, \<open>TypedCommandBuffer\<close> model the two byte encodings of commands, \<open>GodotCommands\<close> and
    \<open>TypedCommands\<close> show that they are queues. \<open>CommandEntry\<close> states the contract of a buffer as the locale that the command server relies on, interpreted on both.
    \<open>CommandServer\<close> models the queues and the flush; \<open>CommandFlow\<close> shows that a flush runs a prefix of the commands in order and, given time, all of
    them. \<open>CommandWriter\<close> models the writer for scripts.
  \<^item> \<open>PolyType\<close> and \<open>PolyFactory\<close> model \<open>Util/Poly.h\<close> and \<open>Util/PolyFactory.h\<close>. \<open>PolyLayout\<close>, \<open>PolyStore\<close> and \<open>PolyConvert\<close> show that components lie apart in memory
    and survive a change of type; \<open>PolySpec\<close> is the abstract specification (a list of entities with values), \<open>PolyRefinement\<close> and
    \<open>PolySimulation\<close> prove that the factory refines it for any sequence of calls, \<open>PolyOwnership\<close> has the reference counts, \<open>PolyProperties\<close> what callers get.
  \<^item> \<open>TinyOctree\<close> models \<open>Util/TinyOctree.h\<close>; \<open>TinyOctreeNodes\<close>, \<open>TinyOctreeSet\<close>, \<open>TinyOctreeMap\<close>, \<open>TinyOctreeProps\<close> and \<open>TinyOctreeIterate\<close> show that it is a map from
    positions to items, that iteration lists it, and that \<open>ShrinkToFit\<close> keeps it.
  \<^item> \<open>UniverseCache\<close> and \<open>CacheProps\<close>: \<open>UniverseServer/UniverseCache.cpp\<close> and \<open>SwapBuffer\<close> of \<open>Util/PerThread.h\<close>; no update is lost or reordered.
  \<^item> \<open>DirtyTracker\<close>, \<open>DirtyRanges\<close>, \<open>DirtyProps\<close>: \<open>Util/DirtyTracker.cpp\<close>; the ranges reported are exactly what was added.
  \<^item> \<open>RenderAllocator\<close> and \<open>AllocatorProps\<close>: \<open>Render/RenderAllocator.cpp\<close>; every object has one owner and the type that was asked for.
  \<^item> \<open>ThreadCheck\<close> (\<open>Util/Debug.cpp\<close>), \<open>DebugVisualization\<close> (\<open>DebugRender/DebugRenderModule.cpp\<close>), \<open>UUID\<close>, \<open>Serialize\<close>, \<open>SmallVector\<close>, \<open>CircularBuffer\<close>,
    \<open>Spans\<close>, \<open>StackAllocator\<close>, \<open>GodotHash\<close>, \<open>SimulationConfig\<close>, \<open>VoxelLookup\<close>: one source each, with what it guarantees. \<open>SequenceSpec\<close> has the contract of
    the containers as locales, interpreted on the vectors and the circular buffers.

  \<^bold>\<open>Invariants and steps.\<close> Properties of states in use are stated for everything reachable: worlds by \<open>world_reachable\<close> (all operations of a world and the
  worker pool in any order), the modules by \<open>module_step\<close>, the two threads of a simulation server, writer and reader of the cache, allocators and render
  thread, and scopes of threads by their own step relations.

  \<^bold>\<open>Loops and bounds.\<close> Loops of the code are structural recursion or functions with a measure, but for three that show whether they end. The flush of
  the command server has fuel, with the readings of the clock and the arrivals of other threads as inputs: more fuel than the commands queued and
  arriving, plus the rounds in which something arrives, is proved to be enough. The loop of \<open>SimulationUnload\<close> has fuel for its updates and gives
  \<open>None\<close> when it runs out: a theorem says what holds when it returns, and that it never does while a node is still to be loaded. The loop
  that doubles a render buffer is a partial function, proved to end below \<open>2 ^ 63\<close> boxes.

  \<^bold>\<open>Defects.\<close> Where the code does not do what it means to, the model does what the code does, and a lemma at the end of the theory shows
  it, for instance \<open>start_universe_crashes\<close>, \<open>unload_before_update\<close>, \<open>two_writers_pass\<close>, \<open>span_Empty_inverted\<close>.

  \<^bold>\<open>Not modelled.\<close> The libraries under \<open>src/lib\<close> are third-party. The methods in \<open>UniverseServer/UniverseServer_*.cpp\<close> only defer themselves to the
  simulation thread and have no body yet; the physics, networking, player, voxel render and galaxy render modules and \<open>RenderInstancer\<close> are
  empty or single calls into the engine. \<open>SpatialProcessors.h\<close> refers to types that no longer exist. The headers \<open>Being/\<close>, \<open>Planet/\<close> and the component
  headers declare data that no code reads. Registration with the engine, memory through the engine, profiling, and meshes and textures that are constants
  have nothing to prove. Of the simulation the relationships between entities, the unused random loading of nodes and the clock of the configuration are left
  out; of the poly factory the locks, as every operation holds them from start to end.
\<close>

end
